(* ===== verification/Prelude.thy ===== *)
theory Prelude
  imports Main "HOL-Library.Word" "HOL-Library.Monad_Syntax"
begin

text \<open>
  Shared vocabulary of the development: the machine-integer readings (i64 and
  i16 as int with the wrap-around written out, u8/u16/u32/u64 as words), the
  checked and saturating operations of the Rust core library, the result type
  of fallible functions, byte slices and little-endian fields, and the generic
  list lemmas the component theories rest on.
\<close>

type_synonym u8 = "8 word"
type_synonym u16 = "16 word"
type_synonym u32 = "32 word"
type_synonym u64 = "64 word"
type_synonym i64 = int
type_synonym i16 = int
type_synonym bytes = "8 word list"

named_theorems i64_simps
named_theorems result_simps

section \<open>Results of fallible functions\<close>

text \<open>A Rust \<open>Result<T, E>\<close> is \<open>E + T\<close>: \<open>Inl\<close> the error, \<open>Inr\<close> the value;
  \<open>bindE\<close> is the question mark operator.\<close>

fun bindE :: "'e + 'a \<Rightarrow> ('a \<Rightarrow> 'e + 'b) \<Rightarrow> 'e + 'b" where
  "bindE (Inl e) f = Inl e"
| "bindE (Inr x) f = f x"

definition okE :: "'e + 'a \<Rightarrow> bool" where
  "okE r = (case r of Inl _ \<Rightarrow> False | Inr _ \<Rightarrow> True)"

definition ensureE :: "bool \<Rightarrow> 'e \<Rightarrow> 'e + unit" where
  "ensureE b e = (if b then Inr () else Inl e)"

lemma bindE_Inr_iff [result_simps]:
  "bindE m f = Inr y \<longleftrightarrow> (\<exists>x. m = Inr x \<and> f x = Inr y)"
  by (cases m) auto

lemma ensureE_Inr_iff [result_simps]: "ensureE b e = Inr u \<longleftrightarrow> b"
  by (simp add: ensureE_def)

lemma ensureE_simps [simp]:
  "ensureE True e = Inr ()" "ensureE False e = Inl e"
  by (simp_all add: ensureE_def)

lemma okE_simps [simp]: "okE (Inr x)" "\<not> okE (Inl e)"
  by (simp_all add: okE_def)

lemma okE_iff: "okE r \<longleftrightarrow> (\<exists>x. r = Inr x)"
  by (cases r) (auto simp: okE_def)

text \<open>Running a fallible step over a list, stopping at the first error.\<close>

fun foldE :: "('s \<Rightarrow> 'a \<Rightarrow> 'e + 's) \<Rightarrow> 's \<Rightarrow> 'a list \<Rightarrow> 'e + 's" where
  "foldE f s [] = Inr s"
| "foldE f s (x # xs) = bindE (f s x) (\<lambda>s'. foldE f s' xs)"

lemma foldE_append:
  "foldE f s (xs @ ys) = bindE (foldE f s xs) (\<lambda>s'. foldE f s' ys)"
proof (induction xs arbitrary: s)
  case (Cons x xs)
  then show ?case by (cases "f s x") auto
qed simp

lemma foldE_invariant:
  assumes "foldE f s xs = Inr s'" "P s"
    and "\<And>s x s'. P s \<Longrightarrow> x \<in> set xs \<Longrightarrow> f s x = Inr s' \<Longrightarrow> P s'"
  shows "P s'"
  using assms
proof (induction xs arbitrary: s)
  case (Cons x xs)
  from Cons.prems(1) obtain t where t: "f s x = Inr t" "foldE f t xs = Inr s'"
    by (auto simp: result_simps)
  show ?case
    by (rule Cons.IH [OF t(2)])
      (use Cons.prems(2,3) t(1) in \<open>auto\<close>)
qed simp

lemma find_SomeD: "find P xs = Some x \<Longrightarrow> x \<in> set xs \<and> P x"
  by (auto simp: find_Some_iff)

section \<open>Signed integers\<close>

definition i64_min :: int where "i64_min = - (2 ^ 63)"
definition i64_max :: int where "i64_max = 2 ^ 63 - 1"

definition in_i64 :: "int \<Rightarrow> bool" where
  "in_i64 x = (i64_min \<le> x \<and> x \<le> i64_max)"

text \<open>Two's-complement wrap-around of \<open>wrapping_add\<close> and friends.\<close>

definition wrap_i64 :: "int \<Rightarrow> int" where
  "wrap_i64 x = (x + 2 ^ 63) mod 2 ^ 64 - 2 ^ 63"

definition wrap_i16 :: "int \<Rightarrow> int" where
  "wrap_i16 x = (x + 2 ^ 15) mod 2 ^ 16 - 2 ^ 15"

text \<open>\<open>checked_add\<close> and friends: \<open>None\<close> on overflow.\<close>

definition checked_i64 :: "int \<Rightarrow> int option" where
  "checked_i64 x = (if in_i64 x then Some x else None)"

lemma i64_bounds [i64_simps]:
  "i64_min = - 9223372036854775808" "i64_max = 9223372036854775807"
  by (simp_all add: i64_min_def i64_max_def)

lemma wrap_i64_id [simp]: "in_i64 x \<Longrightarrow> wrap_i64 x = x"
  by (simp add: wrap_i64_def in_i64_def i64_simps)

lemma wrap_i64_in [simp]: "in_i64 (wrap_i64 x)"
proof -
  have "0 \<le> (x + 2 ^ 63) mod 2 ^ 64" "(x + 2 ^ 63) mod 2 ^ 64 < 2 ^ 64"
    by (rule pos_mod_sign pos_mod_bound; simp)+
  then show ?thesis by (simp add: wrap_i64_def in_i64_def i64_simps)
qed

lemma checked_i64_Some [simp]: "checked_i64 x = Some y \<longleftrightarrow> in_i64 x \<and> y = x"
  by (auto simp: checked_i64_def)

section \<open>Unsigned integers\<close>

unbundle bit_operations_syntax

definition checked_add_u32 :: "u32 \<Rightarrow> u32 \<Rightarrow> u32 option" where
  "checked_add_u32 a b = (if uint a + uint b < 2 ^ 32 then Some (a + b) else None)"

definition saturating_add_u32 :: "u32 \<Rightarrow> u32 \<Rightarrow> u32" where
  "saturating_add_u32 a b = (if uint a + uint b < 2 ^ 32 then a + b else -1)"

lemma unat_u32_less: "unat (a::u32) < 4294967296"
  using unsigned_less [where ?'a = nat and w = a] by simp

lemma unat_add_u32:
  "unat (a::u32) + unat b < 4294967296 \<Longrightarrow> unat (a + b) = unat a + unat b"
  by (simp add: unat_word_ariths)

lemma unat_max_u32: "unat (-1 :: u32) = 4294967295"
  by (simp add: unsigned_minus_1_eq_mask mask_eq_exp_minus_1)

lemma uint_sum_u32: "uint (a::u32) + uint b < 4294967296 \<longleftrightarrow> unat a + unat b < 4294967296"
proof -
  have "int (unat a) = uint a" "int (unat b) = uint b" by simp_all
  then show ?thesis by linarith
qed

lemma unat_saturating_add_u32:
  "unat (saturating_add_u32 a b) = min (unat a + unat b) 4294967295"
proof (cases "unat a + unat b < 4294967296")
  case True
  then have "uint a + uint b < 4294967296" using uint_sum_u32 by blast
  with True show ?thesis by (simp add: saturating_add_u32_def unat_add_u32)
next
  case False
  then have "\<not> uint a + uint b < 4294967296" using uint_sum_u32 by blast
  with False show ?thesis by (simp add: saturating_add_u32_def unat_max_u32)
qed

lemma unat_ucast_up:
  assumes "LENGTH('a) \<le> LENGTH('b)"
  shows "unat (ucast (x :: 'a::len word) :: 'b::len word) = unat x"
proof -
  have "unat x < 2 ^ LENGTH('a)" by (rule unsigned_less)
  also have "(2::nat) ^ LENGTH('a) \<le> 2 ^ LENGTH('b)" using assms by (simp add: power_increasing)
  finally show ?thesis by (simp add: unsigned_ucast_eq take_bit_nat_eq_self)
qed

lemma ucast_up_eq_iff:
  fixes x y :: "'a::len word"
  assumes "LENGTH('a) \<le> LENGTH('b)"
  shows "(ucast x :: 'b::len word) = ucast y \<longleftrightarrow> x = y"
proof
  assume "(ucast x :: 'b word) = ucast y"
  then have "unat (ucast x :: 'b word) = unat (ucast y :: 'b word)" by (rule arg_cong)
  then show "x = y" by (simp only: unat_ucast_up [OF assms] word_unat_eq_iff)
qed simp

lemma xor_right_cancel: "(a :: 'a::len word) XOR b = c XOR b \<longleftrightarrow> a = c"
proof
  assume "a XOR b = c XOR b"
  then have "(a XOR b) XOR b = (c XOR b) XOR b" by (rule arg_cong)
  then show "a = c" by (simp add: xor.assoc)
qed simp

section \<open>Machines with an invariant\<close>

text \<open>
  The contract between a transition system and its safety argument: the start
  states satisfy the invariant, each step keeps it, and under the invariant a
  state is final or can step. Its clients get: no reachable state is stuck.
\<close>

locale safe_machine =
  fixes start :: "'s \<Rightarrow> bool"
    and step :: "'s \<Rightarrow> 's \<Rightarrow> bool"
    and invar :: "'s \<Rightarrow> bool"
    and final :: "'s \<Rightarrow> bool"
  assumes start_invar: "start s \<Longrightarrow> invar s"
    and step_invar: "invar s \<Longrightarrow> step s t \<Longrightarrow> invar t"
    and progress: "invar s \<Longrightarrow> final s \<or> (\<exists>t. step s t)"
begin

lemma reach_invar:
  assumes "rtranclp step s t" "start s"
  shows "invar t"
  using assms by (induction rule: rtranclp_induct) (auto intro: start_invar step_invar)

lemma not_stuck:
  assumes "rtranclp step s t" "start s"
  shows "final t \<or> (\<exists>u. step t u)"
  using progress [OF reach_invar [OF assms]] .

end

end
