(* ===== verification/IrTypes.thy ===== *)
theory IrTypes
  imports Prelude
begin

text \<open>
  The data model of the intermediate representation, crates/ir/src/lib.rs:
  spans, atoms, type ids and classes, primitive types, signatures, the opcode
  enumeration with its payloads, blocks, words and modules; the effect and
  capability bit sets and the stack bound of crates/ir/src/contract.rs that the
  call opcode and the word carry.
\<close>

section \<open>Spans and atoms\<close>

record span =
  sp_start :: nat
  sp_end :: nat

definition SPAN_UNKNOWN :: span where
  "SPAN_UNKNOWN = \<lparr>sp_start = 0, sp_end = 0\<rparr>"

text \<open>An atom is its initialised prefix of at most 32 bytes.\<close>

type_synonym atom = string

definition Atom_new :: "string \<Rightarrow> atom option" where
  "Atom_new bs = (if 32 < length bs then None else Some bs)"

section \<open>Type ids, classes and primitive types\<close>

type_synonym type_id = u8
type_synonym block_id = u16

definition TY_EMPTY :: type_id where "TY_EMPTY = 0"
definition TY_I64 :: type_id where "TY_I64 = 1"
definition TY_BOOL :: type_id where "TY_BOOL = 2"
definition TY_STR :: type_id where "TY_STR = 3"
definition TY_PTR :: type_id where "TY_PTR = 4"
definition TY_PTR_MUT :: type_id where "TY_PTR_MUT = 5"
definition TY_MMIO :: type_id where "TY_MMIO = 6"

lemmas TY_defs = TY_EMPTY_def TY_I64_def TY_BOOL_def TY_STR_def TY_PTR_def
  TY_PTR_MUT_def TY_MMIO_def

datatype ty_class = TC_I64 | TC_Bool | TC_Str | TC_Ptr | TC_PtrMut | TC_Mmio
  | TC_Slice | TC_RegionRef | TC_RegionRefMut | TC_Other

definition starts_with :: "string \<Rightarrow> string \<Rightarrow> bool" where
  "starts_with s p = (take (length p) s = p)"

definition class_of :: "string \<Rightarrow> ty_class" where
  "class_of name =
    (if name = ''i64'' then TC_I64
     else if name = ''bool'' then TC_Bool
     else if name = ''str'' then TC_Str
     else if name = ''ptr'' then TC_Ptr
     else if name = ''ptr_mut'' then TC_PtrMut
     else if name = ''mmio'' then TC_Mmio
     else if name = ''RegionRef'' then TC_RegionRef
     else if name = ''RegionRefMut'' then TC_RegionRefMut
     else if starts_with name ''Slice('' \<or> starts_with name ''SliceMut('' then TC_Slice
     else TC_Other)"

fun is_scoped_enter_class :: "ty_class \<Rightarrow> bool" where
  "is_scoped_enter_class TC_Slice = True"
| "is_scoped_enter_class TC_RegionRef = True"
| "is_scoped_enter_class TC_RegionRefMut = True"
| "is_scoped_enter_class _ = False"

datatype prim = P_U8 | P_U16 | P_U32 | P_U64 | P_Usize | P_I8 | P_I16 | P_I32 | P_I64
  | P_Isize | P_Bool | P_Ptr | P_PtrMut | P_Str | P_Mmio | P_Chan | P_Task

definition prim_table :: "(string \<times> prim) list" where
  "prim_table =
    [(''u8'', P_U8), (''u16'', P_U16), (''u32'', P_U32), (''u64'', P_U64),
     (''usize'', P_Usize), (''i8'', P_I8), (''i16'', P_I16), (''i32'', P_I32),
     (''i64'', P_I64), (''isize'', P_Isize), (''bool'', P_Bool), (''ptr'', P_Ptr),
     (''ptr_mut'', P_PtrMut), (''str'', P_Str), (''mmio'', P_Mmio),
     (''Chan'', P_Chan), (''Task'', P_Task)]"

definition from_type_name :: "string \<Rightarrow> prim option" where
  "from_type_name name =
    (case map_of prim_table name of
       Some p \<Rightarrow> Some p
     | None \<Rightarrow> if starts_with name ''Chan('' then Some P_Chan else None)"

text \<open>\<open>Prim::bits\<close>: the storage width in bits, pointer-width types at \<open>ptr_bits\<close>.\<close>

fun prim_bits :: "prim \<Rightarrow> u16 \<Rightarrow> u16" where
  "prim_bits P_U8 pb = 8"
| "prim_bits P_U16 pb = 16"
| "prim_bits P_U32 pb = 32"
| "prim_bits P_U64 pb = 64"
| "prim_bits P_Usize pb = pb"
| "prim_bits P_I8 pb = 8"
| "prim_bits P_I16 pb = 16"
| "prim_bits P_I32 pb = 32"
| "prim_bits P_I64 pb = 64"
| "prim_bits P_Isize pb = pb"
| "prim_bits P_Bool pb = 8"
| "prim_bits P_Ptr pb = pb"
| "prim_bits P_PtrMut pb = pb"
| "prim_bits P_Str pb = pb"
| "prim_bits P_Mmio pb = pb"
| "prim_bits P_Chan pb = pb"
| "prim_bits P_Task pb = pb"

fun prim_is_signed :: "prim \<Rightarrow> bool" where
  "prim_is_signed P_I8 = True"
| "prim_is_signed P_I16 = True"
| "prim_is_signed P_I32 = True"
| "prim_is_signed P_I64 = True"
| "prim_is_signed P_Isize = True"
| "prim_is_signed _ = False"

definition prim_bits_signed :: "prim \<Rightarrow> u16 \<Rightarrow> u16 \<times> bool" where
  "prim_bits_signed p pb = (prim_bits p pb, prim_is_signed p)"

section \<open>Signatures, bounds and apertures\<close>

text \<open>\<open>Sig\<close>: the arrays \<open>inputs\<close> and \<open>outputs\<close> have eight entries, of which
  the first \<open>in_len\<close> and \<open>out_len\<close> count.\<close>

record sig =
  in_len :: u8
  out_len :: u8
  inputs :: "type_id list"
  outputs :: "type_id list"

definition sig_empty :: sig where
  "sig_empty = \<lparr>in_len = 0, out_len = 0,
     inputs = replicate 8 TY_EMPTY, outputs = replicate 8 TY_EMPTY\<rparr>"

type_synonym effect_set = u16
type_synonym cap_set = u16

datatype high = Slots u32 | HTop

record stack_bound =
  net :: i16
  high :: high

datatype aperture_kind = AK_Bus | AK_Emulated
datatype reloc_isa = RI_ArmThumbLdrLiteral | RI_RiscVHi20Lo12
datatype bind_kind = BK_None | BK_ArmThumbLdrLiteral | BK_RiscVHi20Lo12

fun from_reloc_isa :: "reloc_isa option \<Rightarrow> bind_kind" where
  "from_reloc_isa (Some RI_ArmThumbLdrLiteral) = BK_ArmThumbLdrLiteral"
| "from_reloc_isa (Some RI_RiscVHi20Lo12) = BK_RiscVHi20Lo12"
| "from_reloc_isa None = BK_None"

record aperture_use =
  au_id :: u16
  au_name :: atom
  au_kind :: aperture_kind
  au_base :: "u64 option"
  au_size :: u32
  au_access_mask :: u8
  au_bind :: bind_kind

section \<open>Opcodes\<close>

datatype trap_code = TR_ContractFail | TR_SubtypeFail | TR_AssertFail | TR_StackOverflow
  | TR_TaskQueueOverflow | TR_Unreachable | TR_Deadlock | TR_RegionExhausted
  | TR_UnsupportedImport

fun trap_code_u32 :: "trap_code \<Rightarrow> u32" where
  "trap_code_u32 TR_ContractFail = 20"
| "trap_code_u32 TR_SubtypeFail = 21"
| "trap_code_u32 TR_AssertFail = 22"
| "trap_code_u32 TR_Unreachable = 23"
| "trap_code_u32 TR_TaskQueueOverflow = 24"
| "trap_code_u32 TR_StackOverflow = 10"
| "trap_code_u32 TR_Deadlock = 25"
| "trap_code_u32 TR_RegionExhausted = 26"
| "trap_code_u32 TR_UnsupportedImport = 27"

datatype cmp_kind = CmpLt | CmpLe | CmpGt | CmpGe | CmpEq | CmpNe
datatype write_kind = WK_Plain | WK_W1c | WK_W1s | WK_Xor
datatype read_kind = RK_Plain | RK_Effectful
datatype barrier_kind = BA_None | BA_Before | BA_After | BA_Both
datatype addr_of_base = AB_Runtime | AB_Mmio (ab_aperture: u16) (ab_offset: u32)

text \<open>\<open>OpKind\<close>, constructor for constructor with the payload in source order.\<close>

datatype (plugins only: code size) op_kind =
    ConstI64 i64
  | ConstBool bool
  | ConstStr span
  | AddrOf atom bool addr_of_base
  | MmioPlace atom u16 u32
  | ScopedEnter type_id u32
  | TaskSpawn atom type_id
  | PtrAddConst type_id u32
  | PtrAddIndex type_id u32
  | Dup type_id
  | Drop type_id
  | Swap type_id type_id
  | AddI64
  | SubI64
  | MulI64
  | Cmp type_id cmp_kind
  | AndBool
  | OrBool
  | NotBool
  | InterruptDisable
  | InterruptEnable
  | LocalSet u16 type_id
  | LocalGet u16 type_id
  | Cast type_id type_id
  | Bitcast type_id type_id
  | Call atom sig effect_set cap_set stack_bound
  | Load type_id
  | Store type_id
  | MmioVolLoad type_id atom read_kind u8 barrier_kind
  | MmioVolStore type_id atom write_kind read_kind u8 barrier_kind
  | MmioVolLoadField type_id type_id atom u64 u8 read_kind u8 barrier_kind
  | MmioVolStoreField type_id type_id atom u64 u8 write_kind read_kind u8 barrier_kind
  | TrapIfFalse trap_code
  | Br block_id
  | BrIf block_id block_id
  | Ret

record op =
  kind :: op_kind
  span_of :: span

record block =
  bid :: block_id
  entry_stack :: "type_id list"
  ops :: "op list"

record word_ir =
  w_name :: atom
  w_sig :: sig
  performs :: effect_set
  requires :: cap_set
  bound :: stack_bound
  entry :: block_id
  types :: "atom list"
  type_sizes :: "u32 list"
  type_classes :: "ty_class list"
  apertures :: "aperture_use list"
  subtype_bases :: "type_id list"
  blocks :: "block list"

record module_ir =
  m_name :: atom
  m_words :: "word_ir list"
  m_apertures :: "aperture_use list"

section \<open>Table lookups\<close>

text \<open>\<open>slice::get\<close>: indexing that answers \<open>None\<close> out of range.\<close>

definition get :: "'a list \<Rightarrow> nat \<Rightarrow> 'a option" where
  "get xs i = (if i < length xs then Some (xs ! i) else None)"

lemma get_Some [simp]: "get xs i = Some x \<longleftrightarrow> i < length xs \<and> xs ! i = x"
  by (auto simp: get_def)

lemma get_None [simp]: "get xs i = None \<longleftrightarrow> length xs \<le> i"
  by (auto simp: get_def)

definition find_aperture_use :: "word_ir \<Rightarrow> u16 \<Rightarrow> aperture_use option" where
  "find_aperture_use w i = find (\<lambda>wu. au_id wu = i) (apertures w)"

definition find_block :: "word_ir \<Rightarrow> block_id \<Rightarrow> block option" where
  "find_block w i = find (\<lambda>b. bid b = i) (blocks w)"

definition type_width_bytes :: "word_ir \<Rightarrow> type_id \<Rightarrow> u32 option" where
  "type_width_bytes w ty = do {
     name \<leftarrow> get (types w) (unat ty);
     p \<leftarrow> from_type_name name;
     Some (ucast (prim_bits p 64) div 8) }"

text \<open>\<open>resolve_storage_type\<close>: the loop runs \<open>subtype_bases.len() + 1\<close> times,
  which the first argument counts.\<close>

fun resolve_loop :: "nat \<Rightarrow> word_ir \<Rightarrow> type_id \<Rightarrow> type_id option" where
  "resolve_loop 0 w cur = None"
| "resolve_loop (Suc n) w cur =
    (case get (types w) (unat cur) of
       None \<Rightarrow> None
     | Some name \<Rightarrow>
         if from_type_name name \<noteq> None then Some cur
         else (case get (subtype_bases w) (unat cur) of
             None \<Rightarrow> None
           | Some base \<Rightarrow> if base = TY_EMPTY \<or> base = cur then None
                          else resolve_loop n w base))"

definition resolve_storage_type :: "word_ir \<Rightarrow> type_id \<Rightarrow> type_id option" where
  "resolve_storage_type w ty = resolve_loop (length (subtype_bases w) + 1) w ty"

definition storage_bits_signed :: "word_ir \<Rightarrow> type_id \<Rightarrow> u16 \<Rightarrow> (u16 \<times> bool) option" where
  "storage_bits_signed w ty pb = do {
     base \<leftarrow> resolve_storage_type w ty;
     name \<leftarrow> get (types w) (unat base);
     p \<leftarrow> from_type_name name;
     Some (prim_bits_signed p pb) }"

text \<open>\<open>type_ok\<close>: exact match, or the declared base of a subtype.\<close>

definition type_ok :: "word_ir \<Rightarrow> type_id \<Rightarrow> type_id \<Rightarrow> bool" where
  "type_ok w got want =
    (if got = want then True
     else (case get (subtype_bases w) (unat got) of None \<Rightarrow> False | Some base \<Rightarrow> base = want))"

end
