(* ===== verification/IrVerify.thy ===== *)
theory IrVerify
  imports IrTypes
begin

text \<open>
  The IR verifier of crates/ir/src/lib.rs: \<open>verify_module\<close>, \<open>verify_word\<close> and
  \<open>verify_block\<close> with every opcode arm, its error values and their codes. The
  type stack \<open>stack[0..sp]\<close> of the source is a list whose head is the top
  \<open>stack[sp-1]\<close>; the 64-entry limit is the source's array length. A slice index
  out of range, which panics in the source (a signature with more than eight
  outputs), is the failure value \<open>VPanic\<close>.
\<close>

section \<open>Errors\<close>

datatype verify_error =
    EntryBlockNotFound span
  | EntryStackLenMismatch span
  | EntryStackTypeMismatch span
  | CodeAfterTerminator span
  | TypeMismatch span
  | DropTypeMismatch span
  | SwapTypeMismatch span
  | LocalTypeMismatch span
  | CallStackUnderflow span
  | CallInputTypeMismatch span
  | LoadAddrNotPtr span
  | StoreValueTypeMismatch span
  | StoreAddrNotMutPtr span
  | MmioFieldAddrNotMmio span
  | MmioFieldTypeMismatch span
  | TrapIfFalseNotBool span
  | BrTargetNotFound span
  | BrStackDepthMismatch span
  | BrStackContentMismatch span
  | BrIfCondNotBool span
  | BrIfTargetNotFound span
  | BrIfStackDepthMismatch span
  | BrIfStackContentMismatch span
  | RetStackDepthMismatch span
  | RetOutputTypeMismatch span
  | NotTerminated span
  | PopEmptyStack span
  | PushFullStack span
  | ScopedEnterTypeNotScoped span
  | MmioApertureOutOfRange span
  | MmioPlaceOutOfBounds span
  | MmioPhantomRead span
  | MmioOverWideAccess span
  | MmioApertureUnbound span
  | MmioApertureEmulatedBound span

datatype vfail = VErr verify_error | VPanic

fun error_code :: "verify_error \<Rightarrow> nat" where
  "error_code (EntryBlockNotFound _) = 9001"
| "error_code (EntryStackLenMismatch _) = 9002"
| "error_code (EntryStackTypeMismatch _) = 9003"
| "error_code (CodeAfterTerminator _) = 9010"
| "error_code (TypeMismatch _) = 9011"
| "error_code (DropTypeMismatch _) = 9012"
| "error_code (SwapTypeMismatch _) = 9013"
| "error_code (LocalTypeMismatch _) = 9016"
| "error_code (CallStackUnderflow _) = 9017"
| "error_code (CallInputTypeMismatch _) = 9018"
| "error_code (LoadAddrNotPtr _) = 9019"
| "error_code (StoreValueTypeMismatch _) = 9020"
| "error_code (StoreAddrNotMutPtr _) = 9021"
| "error_code (MmioFieldAddrNotMmio _) = 9022"
| "error_code (MmioFieldTypeMismatch _) = 9023"
| "error_code (TrapIfFalseNotBool _) = 9025"
| "error_code (BrTargetNotFound _) = 9026"
| "error_code (BrStackDepthMismatch _) = 9027"
| "error_code (BrStackContentMismatch _) = 9028"
| "error_code (BrIfCondNotBool _) = 9029"
| "error_code (BrIfTargetNotFound _) = 9030"
| "error_code (BrIfStackDepthMismatch _) = 9031"
| "error_code (BrIfStackContentMismatch _) = 9032"
| "error_code (RetStackDepthMismatch _) = 9033"
| "error_code (RetOutputTypeMismatch _) = 9034"
| "error_code (NotTerminated _) = 9035"
| "error_code (PopEmptyStack _) = 9098"
| "error_code (PushFullStack _) = 9099"
| "error_code (ScopedEnterTypeNotScoped _) = 9036"
| "error_code (MmioApertureOutOfRange _) = 9037"
| "error_code (MmioPlaceOutOfBounds _) = 9038"
| "error_code (MmioPhantomRead _) = 9040"
| "error_code (MmioOverWideAccess _) = 9041"
| "error_code (MmioApertureUnbound _) = 9042"
| "error_code (MmioApertureEmulatedBound _) = 9043"

section \<open>The type stack\<close>

record vstate =
  vstk :: "type_id list"
  vsites :: "(atom \<times> u16 \<times> u32) list"
  vterm :: bool

definition v_push :: "span \<Rightarrow> type_id \<Rightarrow> type_id list \<Rightarrow> vfail + type_id list" where
  "v_push sp ty st = (if 64 \<le> length st then Inl (VErr (PushFullStack sp)) else Inr (ty # st))"

fun v_pop :: "span \<Rightarrow> type_id list \<Rightarrow> vfail + (type_id \<times> type_id list)" where
  "v_pop sp [] = Inl (VErr (PopEmptyStack sp))"
| "v_pop sp (ty # st) = Inr (ty, st)"

definition verr :: "verify_error \<Rightarrow> vfail + 'a" where
  "verr e = Inl (VErr e)"

definition v_guard :: "bool \<Rightarrow> verify_error \<Rightarrow> vfail + unit" where
  "v_guard ok e = ensureE ok (VErr e)"

text \<open>Pop \<open>n\<close> operands without looking at their types, then push \<open>ty\<close>.\<close>

fun v_replace :: "nat \<Rightarrow> type_id \<Rightarrow> span \<Rightarrow> type_id list \<Rightarrow> vfail + type_id list" where
  "v_replace 0 ty sp st = v_push sp ty st"
| "v_replace (Suc n) ty sp st = bindE (v_pop sp st) (\<lambda>(_, st'). v_replace n ty sp st')"

section \<open>Opcode arms\<close>

definition v_mmio_place ::
  "word_ir \<Rightarrow> atom \<Rightarrow> u16 \<Rightarrow> u32 \<Rightarrow> span \<Rightarrow> vstate \<Rightarrow> vfail + vstate" where
  "v_mmio_place w place ap off sp s =
    (case find_aperture_use w ap of
       None \<Rightarrow> verr (MmioApertureOutOfRange sp)
     | Some wu \<Rightarrow>
         if au_size wu \<le> off then verr (MmioPlaceOutOfBounds sp)
         else bindE (v_push sp TY_MMIO (vstk s)) (\<lambda>st. Inr (s\<lparr>vstk := st,
                vsites := (if length (vsites s) < 8 then vsites s @ [(place, ap, off)]
                           else vsites s)\<rparr>)))"

definition v_scoped_enter ::
  "word_ir \<Rightarrow> type_id \<Rightarrow> span \<Rightarrow> type_id list \<Rightarrow> vfail + type_id list" where
  "v_scoped_enter w ty sp st =
    (let class = (case get (type_classes w) (unat ty) of None \<Rightarrow> TC_Other | Some c \<Rightarrow> c) in
     if \<not> is_scoped_enter_class class then verr (ScopedEnterTypeNotScoped sp)
     else v_push sp ty st)"

text \<open>The arms that only touch the type stack and leave it unterminated.\<close>

fun v_stack_op :: "word_ir \<Rightarrow> op_kind \<Rightarrow> span \<Rightarrow> type_id list \<Rightarrow> vfail + type_id list" where
  "v_stack_op w (ConstI64 _) sp st = v_push sp TY_I64 st"
| "v_stack_op w (ConstBool _) sp st = v_push sp TY_BOOL st"
| "v_stack_op w (ConstStr _) sp st = v_push sp TY_STR st"
| "v_stack_op w (AddrOf _ mutable _) sp st =
     v_push sp (if mutable then TY_PTR_MUT else TY_PTR) st"
| "v_stack_op w (ScopedEnter ty _) sp st = v_scoped_enter w ty sp st"
| "v_stack_op w (TaskSpawn _ task_ty) sp st = v_push sp task_ty st"
| "v_stack_op w (PtrAddConst ty _) sp st =
     bindE (v_pop sp st) (\<lambda>(top, st).
     bindE (v_guard (top = ty) (TypeMismatch sp)) (\<lambda>_.
     v_push sp top st))"
| "v_stack_op w (PtrAddIndex ty _) sp st =
     bindE (v_pop sp st) (\<lambda>(idx, st).
     bindE (v_guard (idx = TY_I64) (CallInputTypeMismatch sp)) (\<lambda>_.
     bindE (v_pop sp st) (\<lambda>(top, st).
     bindE (v_guard (top = ty) (TypeMismatch sp)) (\<lambda>_.
     v_push sp top st))))"
| "v_stack_op w (Dup ty) sp st =
     bindE (v_pop sp st) (\<lambda>(top, st).
     bindE (v_guard (top = ty) (TypeMismatch sp)) (\<lambda>_.
     bindE (v_push sp top st) (\<lambda>st.
     v_push sp top st)))"
| "v_stack_op w (Drop ty) sp st =
     bindE (v_pop sp st) (\<lambda>(top, st).
     bindE (v_guard (top = ty) (DropTypeMismatch sp)) (\<lambda>_. Inr st))"
| "v_stack_op w (Swap a b) sp st =
     bindE (v_pop sp st) (\<lambda>(top, st).
     bindE (v_pop sp st) (\<lambda>(below, st).
     bindE (v_guard (top = b \<and> below = a) (SwapTypeMismatch sp)) (\<lambda>_.
     bindE (v_push sp top st) (\<lambda>st.
     v_push sp below st))))"
| "v_stack_op w AddI64 sp st = v_replace 2 TY_I64 sp st"
| "v_stack_op w SubI64 sp st = v_replace 2 TY_I64 sp st"
| "v_stack_op w MulI64 sp st = v_replace 2 TY_I64 sp st"
| "v_stack_op w (Cmp out _) sp st = v_replace 2 out sp st"
| "v_stack_op w AndBool sp st = v_replace 2 TY_BOOL sp st"
| "v_stack_op w OrBool sp st = v_replace 2 TY_BOOL sp st"
| "v_stack_op w NotBool sp st = v_replace 1 TY_BOOL sp st"
| "v_stack_op w InterruptDisable sp st = Inr st"
| "v_stack_op w InterruptEnable sp st = Inr st"
| "v_stack_op w (LocalSet _ ty) sp st =
     bindE (v_pop sp st) (\<lambda>(v, st).
     bindE (v_guard (type_ok w v ty) (LocalTypeMismatch sp)) (\<lambda>_. Inr st))"
| "v_stack_op w (LocalGet _ ty) sp st = v_push sp ty st"
| "v_stack_op w (Cast from to) sp st =
     bindE (v_pop sp st) (\<lambda>(v, st).
     bindE (v_guard (v = from) (LocalTypeMismatch sp)) (\<lambda>_. v_push sp to st))"
| "v_stack_op w (Bitcast from to) sp st =
     bindE (v_pop sp st) (\<lambda>(v, st).
     bindE (v_guard (v = from) (LocalTypeMismatch sp)) (\<lambda>_. v_push sp to st))"
| "v_stack_op w (Load ty) sp st =
     bindE (v_pop sp st) (\<lambda>(addr, st).
     bindE (v_guard (addr = TY_PTR \<or> addr = TY_PTR_MUT) (LoadAddrNotPtr sp)) (\<lambda>_.
     v_push sp ty st))"
| "v_stack_op w (Store ty) sp st =
     bindE (v_pop sp st) (\<lambda>(v, st).
     bindE (v_pop sp st) (\<lambda>(addr, st).
     bindE (v_guard (v = ty) (StoreValueTypeMismatch sp)) (\<lambda>_.
     bindE (v_guard (addr = TY_PTR_MUT) (StoreAddrNotMutPtr sp)) (\<lambda>_. Inr st))))"
| "v_stack_op w (TrapIfFalse _) sp st =
     bindE (v_pop sp st) (\<lambda>(v, st).
     bindE (v_guard (v = TY_BOOL) (TrapIfFalseNotBool sp)) (\<lambda>_. Inr st))"
| "v_stack_op w _ sp st = Inr st"

text \<open>\<open>Call\<close>: the inputs are compared bottom-first with the \<open>need\<close> topmost
  slots, of which at most eight are compared (\<open>inputs\<close> is an eight-entry
  array); slicing \<open>outputs\<close> beyond its eight entries panics.\<close>

definition v_call :: "word_ir \<Rightarrow> sig \<Rightarrow> span \<Rightarrow> type_id list \<Rightarrow> vfail + type_id list" where
  "v_call w sg sp st =
    (let need = unat (in_len sg) in
     if length st < need then verr (CallStackUnderflow sp)
     else bindE (v_guard (list_all (\<lambda>(got, want). type_ok w got want)
                    (zip (rev (take need st)) (take need (inputs sg))))
                  (CallInputTypeMismatch sp)) (\<lambda>_.
          if length (outputs sg) < unat (out_len sg) then Inl VPanic
          else foldE (\<lambda>st ty. v_push sp ty st) (drop need st)
                 (take (unat (out_len sg)) (outputs sg))))"

text \<open>\<open>check_site_bounds\<close>: a volatile access must stay inside the aperture its
  site declared in the same block.\<close>

definition check_site_bounds ::
  "word_ir \<Rightarrow> (atom \<times> u16 \<times> u32) list \<Rightarrow> atom \<Rightarrow> u32 \<Rightarrow> span \<Rightarrow> vfail + unit" where
  "check_site_bounds w sites place width sp =
    (case find (\<lambda>(p, _, _). p = place) sites of
       None \<Rightarrow> Inr ()
     | Some (_, aperture, offset) \<Rightarrow>
         (case find_aperture_use w aperture of
            None \<Rightarrow> verr (MmioApertureOutOfRange sp)
          | Some wu \<Rightarrow>
              v_guard (saturating_add_u32 offset width \<le> au_size wu) (MmioPlaceOutOfBounds sp)))"

definition check_width ::
  "word_ir \<Rightarrow> (atom \<times> u16 \<times> u32) list \<Rightarrow> atom \<Rightarrow> type_id \<Rightarrow> u8 \<Rightarrow> span \<Rightarrow> vfail + unit" where
  "check_width w sites place ty atomic_max sp =
    (case type_width_bytes w ty of
       None \<Rightarrow> Inr ()
     | Some width \<Rightarrow>
         bindE (check_site_bounds w sites place width sp) (\<lambda>_.
         v_guard (width * 8 \<le> ucast atomic_max) (MmioOverWideAccess sp)))"

definition v_vol_load ::
  "word_ir \<Rightarrow> type_id \<Rightarrow> atom \<Rightarrow> u8 \<Rightarrow> span \<Rightarrow> vstate \<Rightarrow> vfail + type_id list" where
  "v_vol_load w ty place atomic_max sp s =
     bindE (v_pop sp (vstk s)) (\<lambda>(addr, st).
     bindE (v_guard (addr = TY_MMIO \<or> addr = TY_PTR \<or> addr = TY_PTR_MUT)
              (LoadAddrNotPtr sp)) (\<lambda>_.
     bindE (check_width w (vsites s) place ty atomic_max sp) (\<lambda>_.
     v_push sp ty st)))"

definition v_vol_store ::
  "word_ir \<Rightarrow> type_id \<Rightarrow> atom \<Rightarrow> write_kind \<Rightarrow> read_kind \<Rightarrow> u8 \<Rightarrow> span \<Rightarrow> vstate
   \<Rightarrow> vfail + type_id list" where
  "v_vol_store w ty place wk rk atomic_max sp s =
     bindE (v_pop sp (vstk s)) (\<lambda>(v, st).
     bindE (v_pop sp st) (\<lambda>(addr, st).
     bindE (v_guard (v = ty) (StoreValueTypeMismatch sp)) (\<lambda>_.
     bindE (v_guard (addr = TY_MMIO \<or> addr = TY_PTR_MUT) (StoreAddrNotMutPtr sp)) (\<lambda>_.
     bindE (v_guard (\<not> (rk = RK_Effectful \<and> (wk = WK_W1s \<or> wk = WK_W1c \<or> wk = WK_Xor)))
              (MmioPhantomRead sp)) (\<lambda>_.
     bindE (check_width w (vsites s) place ty atomic_max sp) (\<lambda>_. Inr st))))))"

definition v_vol_load_field ::
  "word_ir \<Rightarrow> type_id \<Rightarrow> type_id \<Rightarrow> atom \<Rightarrow> u8 \<Rightarrow> span \<Rightarrow> vstate \<Rightarrow> vfail + type_id list" where
  "v_vol_load_field w reg_ty field_ty place atomic_max sp s =
     bindE (v_pop sp (vstk s)) (\<lambda>(pl, st).
     bindE (v_guard (pl = TY_MMIO) (MmioFieldAddrNotMmio sp)) (\<lambda>_.
     bindE (check_width w (vsites s) place reg_ty atomic_max sp) (\<lambda>_.
     v_push sp field_ty st)))"

definition v_vol_store_field ::
  "word_ir \<Rightarrow> type_id \<Rightarrow> type_id \<Rightarrow> atom \<Rightarrow> read_kind \<Rightarrow> u8 \<Rightarrow> span \<Rightarrow> vstate
   \<Rightarrow> vfail + type_id list" where
  "v_vol_store_field w reg_ty field_ty place rk atomic_max sp s =
     bindE (v_pop sp (vstk s)) (\<lambda>(v, st).
     bindE (v_pop sp st) (\<lambda>(pl, st).
     bindE (v_guard (pl = TY_MMIO \<and> v = field_ty) (MmioFieldTypeMismatch sp)) (\<lambda>_.
     bindE (v_guard (rk \<noteq> RK_Effectful) (MmioPhantomRead sp)) (\<lambda>_.
     bindE (check_width w (vsites s) place reg_ty atomic_max sp) (\<lambda>_. Inr st)))))"

section \<open>Terminators\<close>

definition v_branch ::
  "word_ir \<Rightarrow> block_id \<Rightarrow> verify_error \<Rightarrow> verify_error \<Rightarrow> verify_error \<Rightarrow> type_id list
   \<Rightarrow> vfail + unit" where
  "v_branch w target not_found depth content st =
    (case find_block w target of
       None \<Rightarrow> verr not_found
     | Some t \<Rightarrow>
         bindE (v_guard (length (entry_stack t) = length st) depth) (\<lambda>_.
         v_guard (entry_stack t = rev st) content))"

definition v_br :: "word_ir \<Rightarrow> block_id \<Rightarrow> span \<Rightarrow> type_id list \<Rightarrow> vfail + type_id list" where
  "v_br w target sp st =
     bindE (v_branch w target (BrTargetNotFound sp) (BrStackDepthMismatch sp)
              (BrStackContentMismatch sp) st) (\<lambda>_. Inr st)"

definition v_br_if ::
  "word_ir \<Rightarrow> block_id \<Rightarrow> block_id \<Rightarrow> span \<Rightarrow> type_id list \<Rightarrow> vfail + type_id list" where
  "v_br_if w then_tgt else_tgt sp st =
     bindE (v_pop sp st) (\<lambda>(cond, st).
     bindE (v_guard (cond = TY_BOOL) (BrIfCondNotBool sp)) (\<lambda>_.
     bindE (v_branch w then_tgt (BrIfTargetNotFound sp) (BrIfStackDepthMismatch sp)
              (BrIfStackContentMismatch sp) st) (\<lambda>_.
     bindE (v_branch w else_tgt (BrIfTargetNotFound sp) (BrIfStackDepthMismatch sp)
              (BrIfStackContentMismatch sp) st) (\<lambda>_. Inr st))))"

text \<open>\<open>Ret\<close>: the slots are checked bottom-first against \<open>outputs\<close>; an index
  past the eight entries panics, and only when every earlier slot matched.\<close>

fun v_ret_outputs :: "word_ir \<Rightarrow> span \<Rightarrow> type_id list \<Rightarrow> type_id list \<Rightarrow> vfail + unit" where
  "v_ret_outputs w sp [] outs = Inr ()"
| "v_ret_outputs w sp (ty # tys) [] = Inl VPanic"
| "v_ret_outputs w sp (ty # tys) (out # outs) =
     (if type_ok w ty out then v_ret_outputs w sp tys outs else verr (RetOutputTypeMismatch sp))"

definition v_ret :: "word_ir \<Rightarrow> span \<Rightarrow> type_id list \<Rightarrow> vfail + type_id list" where
  "v_ret w sp st =
     bindE (v_guard (length st = unat (out_len (w_sig w))) (RetStackDepthMismatch sp)) (\<lambda>_.
     bindE (v_ret_outputs w sp (rev st) (outputs (w_sig w))) (\<lambda>_. Inr st))"

section \<open>Blocks, words and modules\<close>

definition on_stack :: "vstate \<Rightarrow> vfail + type_id list \<Rightarrow> vfail + vstate" where
  "on_stack s r = bindE r (\<lambda>st. Inr (s\<lparr>vstk := st\<rparr>))"

definition on_stack_term :: "vstate \<Rightarrow> vfail + type_id list \<Rightarrow> vfail + vstate" where
  "on_stack_term s r = bindE r (\<lambda>st. Inr (s\<lparr>vstk := st, vterm := True\<rparr>))"

definition verify_op :: "word_ir \<Rightarrow> vstate \<Rightarrow> op \<Rightarrow> vfail + vstate" where
  "verify_op w s x =
    (let sp = span_of x in
     if vterm s then verr (CodeAfterTerminator sp)
     else (case kind x of
        MmioPlace place ap off \<Rightarrow> v_mmio_place w place ap off sp s
      | Call _ sg _ _ _ \<Rightarrow> on_stack s (v_call w sg sp (vstk s))
      | MmioVolLoad ty place _ am _ \<Rightarrow> on_stack s (v_vol_load w ty place am sp s)
      | MmioVolStore ty place wk rk am _ \<Rightarrow> on_stack s (v_vol_store w ty place wk rk am sp s)
      | MmioVolLoadField reg fld place _ _ _ am _ \<Rightarrow>
          on_stack s (v_vol_load_field w reg fld place am sp s)
      | MmioVolStoreField reg fld place _ _ _ rk am _ \<Rightarrow>
          on_stack s (v_vol_store_field w reg fld place rk am sp s)
      | Br target \<Rightarrow> on_stack_term s (v_br w target sp (vstk s))
      | BrIf t e \<Rightarrow> on_stack_term s (v_br_if w t e sp (vstk s))
      | Ret \<Rightarrow> on_stack_term s (v_ret w sp (vstk s))
      | k \<Rightarrow> on_stack s (v_stack_op w k sp (vstk s))))"

definition block_entry :: "block \<Rightarrow> vstate" where
  "block_entry b = \<lparr>vstk = rev (entry_stack b), vsites = [], vterm = False\<rparr>"

definition verify_block :: "word_ir \<Rightarrow> block \<Rightarrow> vfail + unit" where
  "verify_block w b =
     bindE (foldE (verify_op w) (block_entry b) (ops b)) (\<lambda>s.
     v_guard (vterm s) (NotTerminated SPAN_UNKNOWN))"

definition verify_aperture :: "unit \<Rightarrow> aperture_use \<Rightarrow> vfail + unit" where
  "verify_aperture u wu =
    (case (au_kind wu, au_bind wu) of
       (AK_Bus, BK_None) \<Rightarrow> verr (MmioApertureUnbound SPAN_UNKNOWN)
     | (AK_Emulated, BK_ArmThumbLdrLiteral) \<Rightarrow> verr (MmioApertureEmulatedBound SPAN_UNKNOWN)
     | (AK_Emulated, BK_RiscVHi20Lo12) \<Rightarrow> verr (MmioApertureEmulatedBound SPAN_UNKNOWN)
     | _ \<Rightarrow> Inr ())"

definition verify_word :: "word_ir \<Rightarrow> vfail + unit" where
  "verify_word w =
    (case find_block w (entry w) of
       None \<Rightarrow> verr (EntryBlockNotFound SPAN_UNKNOWN)
     | Some e \<Rightarrow>
         bindE (v_guard (length (entry_stack e) = unat (in_len (w_sig w)))
                  (EntryStackLenMismatch SPAN_UNKNOWN)) (\<lambda>_.
         bindE (v_guard (list_all (\<lambda>(got, want). got = want)
                  (zip (entry_stack e) (take (unat (in_len (w_sig w))) (inputs (w_sig w)))))
                  (EntryStackTypeMismatch SPAN_UNKNOWN)) (\<lambda>_.
         bindE (foldE (\<lambda>_ b. verify_block w b) () (blocks w)) (\<lambda>_.
         foldE verify_aperture () (apertures w)))))"

definition verify_module :: "module_ir \<Rightarrow> vfail + unit" where
  "verify_module m = foldE (\<lambda>_ w. verify_word w) () (m_words m)"

end
