(* ===== verification/Semantics.thy ===== *)
theory Semantics
  imports IrVerify
begin

text \<open>
  The normative op table of crates/verifier/src/semantics/mod.rs: one row per
  printable op form with its mnemonic, data-stack transition, intrinsic effect
  and OEL projection, and the list of representative ops the table is built
  from. The depth machine at the end executes the stack transitions of the
  table over the block structure of a word; the verifier's soundness is stated
  against it.
\<close>

section \<open>Rows\<close>

datatype value_op = VO_Const | VO_Add | VO_Sub | VO_Mul | VO_Cast | VO_Bitcast
  | VO_Cmp cmp_kind | VO_And | VO_Or | VO_Not | VO_LocalGet | VO_LocalSet
  | VO_Dup | VO_Drop | VO_Swap

datatype oel_proj = OP_Value value_op | OP_Opaque | OP_Control

record sem_row =
  mnemonic :: string
  pops :: nat
  pushes :: nat
  effect :: effect_set
  oel :: oel_proj

definition EFFECT_MMIO :: effect_set where "EFFECT_MMIO = push_bit 3 1"

definition row :: "string \<Rightarrow> nat \<Rightarrow> nat \<Rightarrow> effect_set \<Rightarrow> oel_proj \<Rightarrow> sem_row" where
  "row m p q e proj = \<lparr>mnemonic = m, pops = p, pushes = q, effect = e, oel = proj\<rparr>"

fun cmp_mnemonic :: "cmp_kind \<Rightarrow> string" where
  "cmp_mnemonic CmpLt = ''cmp_lt''"
| "cmp_mnemonic CmpLe = ''cmp_le''"
| "cmp_mnemonic CmpGt = ''cmp_gt''"
| "cmp_mnemonic CmpGe = ''cmp_ge''"
| "cmp_mnemonic CmpEq = ''cmp_eq''"
| "cmp_mnemonic CmpNe = ''cmp_ne''"

text \<open>The wildcard-free match of the source, in its order, in four groups.\<close>

definition sem_row_addr :: "op_kind \<Rightarrow> sem_row option" where
  "sem_row_addr k = (case k of
     ConstI64 _ \<Rightarrow> Some (row ''const_i64'' 0 1 0 (OP_Value VO_Const))
   | ConstBool _ \<Rightarrow> Some (row ''const_bool'' 0 1 0 (OP_Value VO_Const))
   | ConstStr _ \<Rightarrow> Some (row ''const_str'' 0 1 0 OP_Opaque)
   | AddrOf _ mutable _ \<Rightarrow>
       Some (row (if mutable then ''addr_of_mut'' else ''addr_of'') 0 1 0 OP_Opaque)
   | MmioPlace _ _ _ \<Rightarrow> Some (row ''mmio_place'' 0 1 0 OP_Opaque)
   | ScopedEnter _ _ \<Rightarrow> Some (row ''scoped_enter'' 0 1 0 OP_Opaque)
   | TaskSpawn _ _ \<Rightarrow> Some (row ''task_spawn'' 0 1 0 OP_Opaque)
   | PtrAddConst _ _ \<Rightarrow> Some (row ''ptr_add_const'' 1 1 0 OP_Opaque)
   | PtrAddIndex _ _ \<Rightarrow> Some (row ''ptr_add_index'' 2 1 0 OP_Opaque)
   | _ \<Rightarrow> None)"

definition sem_row_value :: "op_kind \<Rightarrow> sem_row option" where
  "sem_row_value k = (case k of
     Dup _ \<Rightarrow> Some (row ''dup'' 1 2 0 (OP_Value VO_Dup))
   | Drop _ \<Rightarrow> Some (row ''drop'' 1 0 0 (OP_Value VO_Drop))
   | Swap _ _ \<Rightarrow> Some (row ''swap'' 2 2 0 (OP_Value VO_Swap))
   | AddI64 \<Rightarrow> Some (row ''add_i64'' 2 1 0 (OP_Value VO_Add))
   | SubI64 \<Rightarrow> Some (row ''sub_i64'' 2 1 0 (OP_Value VO_Sub))
   | MulI64 \<Rightarrow> Some (row ''mul_i64'' 2 1 0 (OP_Value VO_Mul))
   | Cmp _ c \<Rightarrow> Some (row (cmp_mnemonic c) 2 1 0 (OP_Value (VO_Cmp c)))
   | AndBool \<Rightarrow> Some (row ''and_bool'' 2 1 0 (OP_Value VO_And))
   | OrBool \<Rightarrow> Some (row ''or_bool'' 2 1 0 (OP_Value VO_Or))
   | NotBool \<Rightarrow> Some (row ''not_bool'' 1 1 0 (OP_Value VO_Not))
   | InterruptDisable \<Rightarrow> Some (row ''interrupt_disable'' 0 0 0 OP_Opaque)
   | InterruptEnable \<Rightarrow> Some (row ''interrupt_enable'' 0 0 0 OP_Opaque)
   | _ \<Rightarrow> None)"

definition sem_row_local :: "op_kind \<Rightarrow> sem_row option" where
  "sem_row_local k = (case k of
     LocalSet _ _ \<Rightarrow> Some (row ''local_set'' 1 0 0 (OP_Value VO_LocalSet))
   | LocalGet _ _ \<Rightarrow> Some (row ''local_get'' 0 1 0 (OP_Value VO_LocalGet))
   | Cast _ _ \<Rightarrow> Some (row ''cast'' 1 1 0 (OP_Value VO_Cast))
   | Bitcast _ _ \<Rightarrow> Some (row ''bitcast'' 1 1 0 (OP_Value VO_Bitcast))
   | Call _ _ _ _ _ \<Rightarrow> Some (row ''call'' 1 1 0 OP_Opaque)
   | Load _ \<Rightarrow> Some (row ''load'' 1 1 0 OP_Opaque)
   | Store _ \<Rightarrow> Some (row ''store'' 2 0 0 OP_Opaque)
   | _ \<Rightarrow> None)"

definition sem_row_control :: "op_kind \<Rightarrow> sem_row option" where
  "sem_row_control k = (case k of
     MmioVolLoad _ _ _ _ _ \<Rightarrow> Some (row ''vol_load'' 1 1 EFFECT_MMIO OP_Opaque)
   | MmioVolStore _ _ _ _ _ _ \<Rightarrow> Some (row ''vol_store'' 2 0 EFFECT_MMIO OP_Opaque)
   | MmioVolLoadField _ _ _ _ _ _ _ _ \<Rightarrow>
       Some (row ''vol_load_field'' 1 1 EFFECT_MMIO OP_Opaque)
   | MmioVolStoreField _ _ _ _ _ _ _ _ _ \<Rightarrow>
       Some (row ''vol_store_field'' 2 0 EFFECT_MMIO OP_Opaque)
   | TrapIfFalse _ \<Rightarrow> Some (row ''trap_if_false'' 1 0 0 OP_Control)
   | Br _ \<Rightarrow> Some (row ''br'' 0 0 0 OP_Control)
   | BrIf _ _ \<Rightarrow> Some (row ''br_if'' 1 0 0 OP_Control)
   | Ret \<Rightarrow> Some (row ''ret'' 0 0 0 OP_Control)
   | _ \<Rightarrow> None)"

definition semantics_row :: "op_kind \<Rightarrow> sem_row" where
  "semantics_row k =
    (case sem_row_addr k of Some r \<Rightarrow> r | None \<Rightarrow>
    (case sem_row_value k of Some r \<Rightarrow> r | None \<Rightarrow>
    (case sem_row_local k of Some r \<Rightarrow> r | None \<Rightarrow>
    (case sem_row_control k of Some r \<Rightarrow> r | None \<Rightarrow> undefined))))"

lemmas sem_row_defs = semantics_row_def sem_row_addr_def sem_row_value_def
  sem_row_local_def sem_row_control_def row_def

text \<open>\<open>representative_ops\<close>: one op per printable form, in table order.\<close>

definition sig_one_one :: sig where
  "sig_one_one = sig_empty\<lparr>in_len := 1, out_len := 1\<rparr>"

definition representative_ops :: "op_kind list" where
  "representative_ops =
    [ConstI64 0, ConstBool False, ConstStr SPAN_UNKNOWN,
     AddrOf ''p'' False AB_Runtime, AddrOf ''p'' True AB_Runtime,
     MmioPlace ''r'' 0 0, ScopedEnter TY_I64 0, TaskSpawn ''t'' TY_I64,
     PtrAddConst TY_I64 0, PtrAddIndex TY_I64 1, Dup TY_I64, Drop TY_I64,
     Swap TY_I64 TY_I64, AddI64, SubI64, MulI64,
     Cmp TY_BOOL CmpLt, Cmp TY_BOOL CmpLe, Cmp TY_BOOL CmpGt, Cmp TY_BOOL CmpGe,
     Cmp TY_BOOL CmpEq, Cmp TY_BOOL CmpNe, AndBool, OrBool, NotBool,
     InterruptDisable, InterruptEnable, LocalSet 0 TY_I64, LocalGet 0 TY_I64,
     Cast TY_I64 TY_I64, Bitcast TY_I64 TY_I64,
     Call ''f'' sig_one_one 0 0 \<lparr>net = 0, high = Slots 0\<rparr>,
     Load TY_I64, Store TY_I64,
     MmioVolLoad TY_I64 ''r'' RK_Plain 64 BA_None,
     MmioVolStore TY_I64 ''r'' WK_Plain RK_Plain 64 BA_None,
     MmioVolLoadField TY_I64 TY_I64 ''r'' 1 0 RK_Plain 64 BA_None,
     MmioVolStoreField TY_I64 TY_I64 ''r'' 1 0 WK_Plain RK_Plain 64 BA_None,
     TrapIfFalse TR_ContractFail, Br 0, BrIf 0 1, Ret]"

definition SEMANTICS_ROWS :: nat where "SEMANTICS_ROWS = 42"

definition semantics :: "sem_row list" where
  "semantics = map semantics_row representative_ops"

text \<open>Every row of the table carries its own mnemonic.\<close>

lemma semantics_mnemonics_distinct: "distinct (map mnemonic semantics)"
  by (simp add: semantics_def representative_ops_def sem_row_defs)

lemma semantics_length: "length semantics = SEMANTICS_ROWS"
  by (simp add: semantics_def representative_ops_def SEMANTICS_ROWS_def)

section \<open>The transition of one op\<close>

text \<open>The data-stack transition: the table's row, except that a call moves
  \<open>( sig.in_len -- sig.out_len )\<close>.\<close>

fun op_pops :: "op_kind \<Rightarrow> nat" where
  "op_pops (Call _ sg _ _ _) = unat (in_len sg)"
| "op_pops k = pops (semantics_row k)"

fun op_pushes :: "op_kind \<Rightarrow> nat" where
  "op_pushes (Call _ sg _ _ _) = unat (out_len sg)"
| "op_pushes k = pushes (semantics_row k)"

fun is_terminator :: "op_kind \<Rightarrow> bool" where
  "is_terminator (Br _) = True"
| "is_terminator (BrIf _ _) = True"
| "is_terminator Ret = True"
| "is_terminator _ = False"

section \<open>The depth machine\<close>

text \<open>A configuration is the current block, the index of the next op and the
  depth of the data stack.\<close>

record cfg =
  c_block :: block
  c_pc :: nat
  c_depth :: nat

definition at_op :: "cfg \<Rightarrow> op_kind \<Rightarrow> bool" where
  "at_op c k = (c_pc c < length (ops (c_block c)) \<and> kind (ops (c_block c) ! c_pc c) = k)"

inductive dstep :: "word_ir \<Rightarrow> cfg \<Rightarrow> cfg \<Rightarrow> bool" for w where
  data: "\<lbrakk>at_op c k; \<not> is_terminator k; op_pops k \<le> c_depth c;
          c_depth c - op_pops k + op_pushes k \<le> 64\<rbrakk>
    \<Longrightarrow> dstep w c (c\<lparr>c_pc := Suc (c_pc c),
                       c_depth := c_depth c - op_pops k + op_pushes k\<rparr>)"
| br: "\<lbrakk>at_op c (Br t); find_block w t = Some b\<rbrakk>
    \<Longrightarrow> dstep w c \<lparr>c_block = b, c_pc = 0, c_depth = c_depth c\<rparr>"
| br_then: "\<lbrakk>at_op c (BrIf t e); 0 < c_depth c; find_block w t = Some b\<rbrakk>
    \<Longrightarrow> dstep w c \<lparr>c_block = b, c_pc = 0, c_depth = c_depth c - 1\<rparr>"
| br_else: "\<lbrakk>at_op c (BrIf t e); 0 < c_depth c; find_block w e = Some b\<rbrakk>
    \<Longrightarrow> dstep w c \<lparr>c_block = b, c_pc = 0, c_depth = c_depth c - 1\<rparr>"

definition returned :: "word_ir \<Rightarrow> cfg \<Rightarrow> bool" where
  "returned w c = (at_op c Ret \<and> c_depth c = unat (out_len (w_sig w)))"

definition dstart :: "word_ir \<Rightarrow> block \<Rightarrow> cfg" where
  "dstart w b = \<lparr>c_block = b, c_pc = 0, c_depth = unat (in_len (w_sig w))\<rparr>"

end
