(* ===== verification/VerifySound.thy ===== *)
theory VerifySound
  imports Semantics
begin

text \<open>
  Soundness of the IR verifier: every accepted opcode has exactly the stack
  transition of the semantics table, and a word that \<open>verify_word\<close> accepts runs
  on the depth machine without underflow, overflow, missing branch target or
  fall-through, returning with exactly its declared number of results.
\<close>

section \<open>Inversion of the stack primitives\<close>

lemma v_push_Inr [result_simps]:
  "v_push sp ty st = Inr st' \<longleftrightarrow> length st < 64 \<and> st' = ty # st"
  by (auto simp: v_push_def)

lemma v_pop_Inr [result_simps]: "v_pop sp st = Inr p \<longleftrightarrow> st = fst p # snd p"
  by (cases st) auto

lemma v_guard_Inr [result_simps]: "v_guard b e = Inr u \<longleftrightarrow> b"
  by (simp add: v_guard_def result_simps)

lemma verr_not_Inr [result_simps]: "verr e \<noteq> Inr x"
  by (simp add: verr_def)

lemma on_stack_Inr [result_simps]:
  "on_stack s r = Inr s' \<longleftrightarrow> (\<exists>st. r = Inr st \<and> s' = s\<lparr>vstk := st\<rparr>)"
  by (auto simp: on_stack_def result_simps)

lemma on_stack_term_Inr [result_simps]:
  "on_stack_term s r = Inr s' \<longleftrightarrow> (\<exists>st. r = Inr st \<and> s' = s\<lparr>vstk := st, vterm := True\<rparr>)"
  by (auto simp: on_stack_term_def result_simps)

lemma v_replace_Inr:
  "v_replace n ty sp st = Inr st' \<Longrightarrow>
   n \<le> length st \<and> length st' = length st - n + 1 \<and> length st' \<le> 64"
  by (induction n arbitrary: st) (auto simp: result_simps)

lemma v_replace_1 [result_simps]:
  "v_replace (Suc 0) ty sp st = Inr st' \<longleftrightarrow> (\<exists>a r. st = a # r \<and> length r < 64 \<and> st' = ty # r)"
  by (auto simp: result_simps)

lemma v_replace_2 [result_simps]:
  "v_replace 2 ty sp st = Inr st' \<longleftrightarrow>
    (\<exists>a b r. st = a # b # r \<and> length r < 64 \<and> st' = ty # r)"
  by (auto simp: numeral_2_eq_2 result_simps)

lemma push_all_length:
  "foldE (\<lambda>st ty. v_push sp ty st) st tys = Inr st' \<Longrightarrow>
   length st' = length st + length tys \<and> (length st \<le> 64 \<longrightarrow> length st' \<le> 64)"
proof (induction tys arbitrary: st)
  case (Cons a tys)
  then have "length st < 64" "foldE (\<lambda>st ty. v_push sp ty st) (a # st) tys = Inr st'"
    by (auto simp: result_simps)
  with Cons.IH [of "a # st"] show ?case by simp
qed simp

section \<open>Stack effect of the arms\<close>

text \<open>What acceptance says of the stack: enough operands, and the table's depth.\<close>

definition effect_ok :: "op_kind \<Rightarrow> type_id list \<Rightarrow> type_id list \<Rightarrow> bool" where
  "effect_ok k st st' \<longleftrightarrow> op_pops k \<le> length st
     \<and> length st' = length st - op_pops k + op_pushes k
     \<and> (length st \<le> 64 \<longrightarrow> length st' \<le> 64)"

fun stack_op :: "op_kind \<Rightarrow> bool" where
  "stack_op (MmioPlace _ _ _) = False"
| "stack_op (Call _ _ _ _ _) = False"
| "stack_op (MmioVolLoad _ _ _ _ _) = False"
| "stack_op (MmioVolStore _ _ _ _ _ _) = False"
| "stack_op (MmioVolLoadField _ _ _ _ _ _ _ _) = False"
| "stack_op (MmioVolStoreField _ _ _ _ _ _ _ _ _) = False"
| "stack_op k = (\<not> is_terminator k)"

lemma v_stack_op_effect:
  assumes "v_stack_op w k sp st = Inr st'" "stack_op k"
  shows "effect_ok k st st'"
  using assms
  by (cases k)
    (auto simp: effect_ok_def sem_row_defs result_simps v_scoped_enter_def Let_def
      split: if_splits option.splits)

lemma v_call_effect:
  assumes "v_call w sg sp st = Inr st'"
  shows "effect_ok (Call n sg p r b) st st'"
proof -
  from assms have need: "unat (in_len sg) \<le> length st"
    by (auto simp: v_call_def Let_def result_simps split: if_splits)
  from assms have outs: "unat (out_len sg) \<le> length (outputs sg)"
    and push: "foldE (\<lambda>st ty. v_push sp ty st) (drop (unat (in_len sg)) st)
                 (take (unat (out_len sg)) (outputs sg)) = Inr st'"
    by (auto simp: v_call_def Let_def result_simps split: if_splits)
  show ?thesis
    using need outs push_all_length [OF push] by (auto simp: effect_ok_def)
qed

lemma v_mmio_place_effect:
  assumes "v_mmio_place w p a off sp s = Inr s'"
  shows "effect_ok (MmioPlace p a off) (vstk s) (vstk s') \<and> vterm s' = vterm s"
  using assms
  by (auto simp: v_mmio_place_def effect_ok_def sem_row_defs result_simps
      split: option.splits if_splits)

lemma v_vol_effects:
  "v_vol_load w ty pl am sp s = Inr st \<Longrightarrow> effect_ok (MmioVolLoad ty pl rk am ba) (vstk s) st"
  "v_vol_store w ty pl wk rk am sp s = Inr st
     \<Longrightarrow> effect_ok (MmioVolStore ty pl wk rk am ba) (vstk s) st"
  "v_vol_load_field w rg fl pl am sp s = Inr st
     \<Longrightarrow> effect_ok (MmioVolLoadField rg fl pl m sh rk am ba) (vstk s) st"
  "v_vol_store_field w rg fl pl rk am sp s = Inr st
     \<Longrightarrow> effect_ok (MmioVolStoreField rg fl pl m sh wk rk am ba) (vstk s) st"
  by (auto simp: v_vol_load_def v_vol_store_def v_vol_load_field_def v_vol_store_field_def
      effect_ok_def sem_row_defs result_simps)

lemma v_branch_Inr [result_simps]:
  "v_branch w t nf d c st = Inr u \<longleftrightarrow> (\<exists>b. find_block w t = Some b \<and> entry_stack b = rev st)"
  by (auto simp: v_branch_def result_simps split: option.splits)

lemma v_ctrl_effects:
  "v_br w t sp st = Inr st' \<Longrightarrow> effect_ok (Br t) st st'"
  "v_br_if w t e sp st = Inr st' \<Longrightarrow> effect_ok (BrIf t e) st st'"
  "v_ret w sp st = Inr st' \<Longrightarrow> effect_ok Ret st st'"
  by (auto simp: v_br_def v_br_if_def v_ret_def effect_ok_def sem_row_defs result_simps)

lemma verify_op_effect:
  assumes "verify_op w s x = Inr s'"
  shows "\<not> vterm s \<and> effect_ok (kind x) (vstk s) (vstk s')
       \<and> vterm s' = is_terminator (kind x)"
proof (cases "stack_op (kind x)")
  case True
  from assms True obtain st where "\<not> vterm s" "v_stack_op w (kind x) (span_of x) (vstk s) = Inr st"
    "s' = s\<lparr>vstk := st\<rparr>" "\<not> is_terminator (kind x)"
    by (cases "kind x") (auto simp: verify_op_def Let_def result_simps split: if_splits)
  with True show ?thesis by (simp add: v_stack_op_effect)
next
  case False
  with assms show ?thesis
    by (cases "kind x")
      (auto simp: verify_op_def Let_def result_simps v_call_effect v_vol_effects
        v_ctrl_effects dest: v_mmio_place_effect split: if_splits)
qed

section \<open>Branches and returns\<close>

lemma verify_op_br:
  assumes "verify_op w s x = Inr s'" "kind x = Br t"
  shows "\<exists>b. find_block w t = Some b \<and> entry_stack b = rev (vstk s)"
  using assms by (auto simp: verify_op_def Let_def v_br_def result_simps split: if_splits)

lemma verify_op_br_if:
  assumes "verify_op w s x = Inr s'" "kind x = BrIf t e"
  shows "\<exists>b. find_block w t = Some b \<and> entry_stack b = rev (tl (vstk s))"
    and "\<exists>b. find_block w e = Some b \<and> entry_stack b = rev (tl (vstk s))"
    and "hd (vstk s) = TY_BOOL \<and> vstk s \<noteq> []"
  using assms by (auto simp: verify_op_def Let_def v_br_if_def result_simps split: if_splits)

lemma verify_op_ret:
  assumes "verify_op w s x = Inr s'" "kind x = Ret"
  shows "length (vstk s) = unat (out_len (w_sig w))"
  using assms by (auto simp: verify_op_def Let_def v_ret_def result_simps split: if_splits)

section \<open>The run invariant\<close>

text \<open>The capacities of the fixed-size containers of the source.\<close>

definition fixed_caps :: "word_ir \<Rightarrow> bool" where
  "fixed_caps w = (\<forall>b \<in> set (blocks w). length (entry_stack b) \<le> 32)"

definition dinv :: "word_ir \<Rightarrow> cfg \<Rightarrow> bool" where
  "dinv w c \<longleftrightarrow> c_block c \<in> set (blocks w) \<and> c_depth c \<le> 64 \<and>
    (\<exists>s. foldE (verify_op w) (block_entry (c_block c)) (take (c_pc c) (ops (c_block c))) = Inr s
       \<and> \<not> vterm s \<and> length (vstk s) = c_depth c)"

lemma foldE_unit_all:
  "foldE (\<lambda>_ x. f x) () xs = Inr u \<Longrightarrow> x \<in> set xs \<Longrightarrow> f x = Inr ()"
  by (induction xs) (auto simp: result_simps)

lemma verify_word_blocks:
  assumes "verify_word w = Inr ()" "b \<in> set (blocks w)"
  shows "\<exists>s. foldE (verify_op w) (block_entry b) (ops b) = Inr s \<and> vterm s"
proof -
  from assms(1) have "foldE (\<lambda>_ b. verify_block w b) () (blocks w) = Inr ()"
    by (auto simp: verify_word_def result_simps split: option.splits)
  from foldE_unit_all [OF this assms(2)] show ?thesis
    by (auto simp: verify_block_def result_simps)
qed

lemma find_block_mem: "find_block w t = Some b \<Longrightarrow> b \<in> set (blocks w)"
  unfolding find_block_def by (drule find_SomeD) simp

lemma dinv_entry:
  assumes "fixed_caps w" "b \<in> set (blocks w)" "length (entry_stack b) = d"
  shows "dinv w \<lparr>c_block = b, c_pc = 0, c_depth = d\<rparr>"
  using assms by (auto simp: dinv_def block_entry_def fixed_caps_def)

text \<open>At a configuration of the invariant there is an op left, and the verifier
  accepted it.\<close>

lemma dinv_op:
  assumes "verify_word w = Inr ()" "dinv w c"
  obtains s s' where "c_pc c < length (ops (c_block c))"
    "foldE (verify_op w) (block_entry (c_block c)) (take (c_pc c) (ops (c_block c))) = Inr s"
    "length (vstk s) = c_depth c" "c_depth c \<le> 64"
    "verify_op w s (ops (c_block c) ! c_pc c) = Inr s'"
proof -
  let ?os = "ops (c_block c)" and ?n = "c_pc c"
  from assms(2) obtain s where s: "c_block c \<in> set (blocks w)" "c_depth c \<le> 64"
    "foldE (verify_op w) (block_entry (c_block c)) (take ?n ?os) = Inr s"
    "\<not> vterm s" "length (vstk s) = c_depth c"
    by (auto simp: dinv_def)
  obtain e where e: "foldE (verify_op w) (block_entry (c_block c)) (take ?n ?os @ drop ?n ?os) = Inr e"
    "vterm e"
    using verify_word_blocks [OF assms(1) s(1)] by auto
  then have e': "foldE (verify_op w) s (drop ?n ?os) = Inr e"
    by (simp only: foldE_append s(3) bindE.simps)
  with e(2) s(4) have lt: "?n < length ?os" by (cases "?n < length ?os") auto
  then have "drop ?n ?os = ?os ! ?n # drop (Suc ?n) ?os" by (rule Cons_nth_drop_Suc [symmetric])
  with e' obtain s' where "verify_op w s (?os ! ?n) = Inr s'"
    by (auto simp: result_simps)
  with lt s that show thesis by blast
qed

lemma dstep_dinv:
  assumes ok: "verify_word w = Inr ()" and caps: "fixed_caps w" and inv: "dinv w c"
    and step: "dstep w c c'"
  shows "dinv w c'"
proof -
  obtain s s' where o: "c_pc c < length (ops (c_block c))"
    "foldE (verify_op w) (block_entry (c_block c)) (take (c_pc c) (ops (c_block c))) = Inr s"
    "length (vstk s) = c_depth c" "c_depth c \<le> 64"
    "verify_op w s (ops (c_block c) ! c_pc c) = Inr s'"
    using dinv_op [OF ok inv] .
  note eff = verify_op_effect [OF o(5)]
  from step show ?thesis
  proof cases
    case (data k)
    with inv o eff show ?thesis
      by (auto simp: dinv_def at_op_def effect_ok_def take_Suc_conv_app_nth foldE_append)
  next
    case (br t b)
    with o verify_op_br [OF o(5)] have "length (entry_stack b) = c_depth c"
      by (auto simp: at_op_def)
    with br caps show ?thesis by (auto intro: dinv_entry find_block_mem)
  next
    case (br_then t e b)
    with o verify_op_br_if [OF o(5)] have "length (entry_stack b) = c_depth c - 1"
      by (auto simp: at_op_def)
    with br_then caps show ?thesis by (auto intro: dinv_entry find_block_mem)
  next
    case (br_else t e b)
    with o verify_op_br_if [OF o(5)] have "length (entry_stack b) = c_depth c - 1"
      by (auto simp: at_op_def)
    with br_else caps show ?thesis by (auto intro: dinv_entry find_block_mem)
  qed
qed

lemma dinv_progress:
  assumes ok: "verify_word w = Inr ()" and inv: "dinv w c"
  shows "returned w c \<or> (\<exists>c'. dstep w c c')"
proof -
  obtain s s' where o: "c_pc c < length (ops (c_block c))"
    "foldE (verify_op w) (block_entry (c_block c)) (take (c_pc c) (ops (c_block c))) = Inr s"
    "length (vstk s) = c_depth c" "c_depth c \<le> 64"
    "verify_op w s (ops (c_block c) ! c_pc c) = Inr s'"
    using dinv_op [OF ok inv] .
  define x where "x = ops (c_block c) ! c_pc c"
  have at: "at_op c (kind x)" using o(1) by (simp add: at_op_def x_def)
  have eff: "effect_ok (kind x) (vstk s) (vstk s')"
    using verify_op_effect [OF o(5)] by (simp add: x_def)
  show ?thesis
  proof (cases "is_terminator (kind x)")
    case False
    have "\<exists>c'. dstep w c c'"
      by (rule exI, rule dstep.data [OF at False])
        (use eff o in \<open>auto simp: effect_ok_def\<close>)
    then show ?thesis ..
  next
    case True
    then consider t where "kind x = Br t" | t e where "kind x = BrIf t e" | "kind x = Ret"
      by (cases "kind x") auto
    then show ?thesis
    proof cases
      case 1
      with at verify_op_br [OF o(5)] show ?thesis by (auto simp: x_def intro: dstep.br)
    next
      case 2
      with verify_op_br_if(3) [OF o(5)] have "0 < length (vstk s)" by (auto simp: x_def)
      with o(3) have "0 < c_depth c" by simp
      with 2 at verify_op_br_if(1) [OF o(5)] show ?thesis by (auto simp: x_def intro: dstep.br_then)
    next
      case 3
      with at verify_op_ret [OF o(5)] o(3) show ?thesis by (auto simp: x_def returned_def)
    qed
  qed
qed

text \<open>The next op finds its operands, leaves a stack within bounds, and each block it may branch to
  exists and expects the stack that is there; a return leaves the declared results.\<close>

fun branch_targets :: "op_kind \<Rightarrow> block_id list" where
  "branch_targets (Br t) = [t]"
| "branch_targets (BrIf t e) = [t, e]"
| "branch_targets _ = []"

definition next_op_safe :: "word_ir \<Rightarrow> cfg \<Rightarrow> bool" where
  "next_op_safe w c \<longleftrightarrow> (\<exists>k. at_op c k \<and> op_pops k \<le> c_depth c \<and> c_depth c - op_pops k + op_pushes k \<le> 64
     \<and> (\<forall>t \<in> set (branch_targets k). \<exists>b. find_block w t = Some b \<and> length (entry_stack b) = c_depth c - op_pops k)
     \<and> (k = Ret \<longrightarrow> c_depth c = unat (out_len (w_sig w))))"

lemma dinv_next:
  assumes ok: "verify_word w = Inr ()" and inv: "dinv w c"
  shows "next_op_safe w c"
proof -
  obtain s s' where o: "c_pc c < length (ops (c_block c))"
    "foldE (verify_op w) (block_entry (c_block c)) (take (c_pc c) (ops (c_block c))) = Inr s"
    "length (vstk s) = c_depth c" "c_depth c \<le> 64"
    "verify_op w s (ops (c_block c) ! c_pc c) = Inr s'"
    using dinv_op [OF ok inv] .
  define k where "k = kind (ops (c_block c) ! c_pc c)"
  have at: "at_op c k" using o(1) by (simp add: at_op_def k_def)
  have eff: "effect_ok k (vstk s) (vstk s')" using verify_op_effect [OF o(5)] by (simp add: k_def)
  have "\<exists>b. find_block w t = Some b \<and> length (entry_stack b) = c_depth c - op_pops k" if "t \<in> set (branch_targets k)" for t
  proof (cases k)
    case (Br u)
    with that verify_op_br [OF o(5)] o(3) show ?thesis by (auto simp: k_def sem_row_defs)
  next
    case (BrIf u e)
    with that verify_op_br_if(1,2) [OF o(5)] o(3) show ?thesis by (auto simp: k_def sem_row_defs)
  qed (use that in simp_all)
  moreover have "k = Ret \<Longrightarrow> c_depth c = unat (out_len (w_sig w))"
    using verify_op_ret [OF o(5)] o(3) by (simp add: k_def)
  ultimately show ?thesis
    using at eff o(3,4) by (auto simp: next_op_safe_def effect_ok_def)
qed

lemma dinv_start:
  assumes "verify_word w = Inr ()" "fixed_caps w" "find_block w (entry w) = Some b"
  shows "dinv w (dstart w b)"
  unfolding dstart_def
  by (rule dinv_entry [OF assms(2) find_block_mem [OF assms(3)]])
    (use assms in \<open>auto simp: verify_word_def result_simps\<close>)

section \<open>The machine of verified words\<close>

text \<open>Configurations paired with the word they run.\<close>

fun vm_start :: "word_ir \<times> cfg \<Rightarrow> bool" where
  "vm_start (w, c) = (verify_word w = Inr () \<and> fixed_caps w
     \<and> (\<exists>b. find_block w (entry w) = Some b \<and> c = dstart w b))"

fun vm_step :: "word_ir \<times> cfg \<Rightarrow> word_ir \<times> cfg \<Rightarrow> bool" where
  "vm_step (w, c) (w', c') = (w' = w \<and> dstep w c c')"

fun vm_inv :: "word_ir \<times> cfg \<Rightarrow> bool" where
  "vm_inv (w, c) = (verify_word w = Inr () \<and> fixed_caps w \<and> dinv w c)"

fun vm_final :: "word_ir \<times> cfg \<Rightarrow> bool" where
  "vm_final (w, c) = returned w c"

interpretation vm: safe_machine vm_start vm_step vm_inv vm_final
proof
  fix s assume "vm_start s"
  then show "vm_inv s" by (cases s) (auto intro: dinv_start)
next
  fix s t assume "vm_inv s" "vm_step s t"
  then show "vm_inv t" by (cases s; cases t) (auto intro: dstep_dinv)
next
  fix s assume "vm_inv s"
  then show "vm_final s \<or> (\<exists>t. vm_step s t)"
    using dinv_progress by (cases s) fastforce
qed

lemma vm_reach:
  "rtranclp (dstep w) c c' \<Longrightarrow> rtranclp vm_step (w, c) (w, c')"
  by (induction rule: rtranclp_induct) (auto intro: rtranclp.rtrancl_into_rtrancl)

text \<open>A small looping word, the concrete instance of the run theorems.\<close>

definition mk_op :: "op_kind \<Rightarrow> op" where
  "mk_op k = \<lparr>kind = k, span_of = SPAN_UNKNOWN\<rparr>"

definition loop_word :: word_ir where
  "loop_word = \<lparr>w_name = ''count'', w_sig = sig_empty\<lparr>in_len := 1, out_len := 1,
       inputs := TY_I64 # replicate 7 TY_EMPTY, outputs := TY_I64 # replicate 7 TY_EMPTY\<rparr>,
     performs = 0, requires = 0, bound = \<lparr>net = 0, high = Slots 3\<rparr>, entry = 0,
     types = [], type_sizes = [], type_classes = [], apertures = [], subtype_bases = [],
     blocks =
      [\<lparr>bid = 0, entry_stack = [TY_I64], ops = map mk_op
          [Dup TY_I64, ConstI64 10, Cmp TY_BOOL CmpLt, BrIf 1 2]\<rparr>,
       \<lparr>bid = 1, entry_stack = [TY_I64], ops = map mk_op [ConstI64 1, AddI64, Br 0]\<rparr>,
       \<lparr>bid = 2, entry_stack = [TY_I64], ops = map mk_op [Ret]\<rparr>]\<rparr>"

lemma loop_word_verified: "verify_word loop_word = Inr ()"
  by code_simp

lemma loop_word_caps: "fixed_caps loop_word"
  by (simp add: fixed_caps_def loop_word_def)

lemma loop_word_entry: "find_block loop_word (entry loop_word) = Some (hd (blocks loop_word))"
  by (simp add: find_block_def loop_word_def)

section \<open>Properties of the verifier\<close>

text \<open>C1: a word that \<open>verify_word\<close> accepts, its blocks within the 32-entry entry stacks of the
  source, runs safely from its entry block. In every reachable configuration the data stack is
  within the 64 slots and there is an op to execute (no falling off a block); the op finds its
  operands, does not overflow the stack, every block it may branch to exists - both targets of a
  conditional branch - and expects as many slots as remain, and a return leaves exactly
  \<open>sig.out_len\<close> results. So the run either has returned or takes a step.\<close>

theorem verify_word_safe:
  assumes "verify_word w = Inr ()" "fixed_caps w" "find_block w (entry w) = Some b"
    and "rtranclp (dstep w) (dstart w b) c"
  shows "c_depth c \<le> 64 \<and> next_op_safe w c \<and> (returned w c \<or> (\<exists>c'. dstep w c c'))"
proof -
  have start: "vm_start (w, dstart w b)" using assms by simp
  have reach: "rtranclp vm_step (w, dstart w b) (w, c)" by (rule vm_reach [OF assms(4)])
  show ?thesis
    using vm.reach_invar [OF reach start] vm.not_stuck [OF reach start] dinv_next [OF assms(1)]
    by (auto simp: dinv_def)
qed

text \<open>The loop of the sample word: after three steps it stands before the conditional branch.\<close>

lemma loop_word_branches:
  "rtranclp (dstep loop_word) (dstart loop_word (hd (blocks loop_word)))
     \<lparr>c_block = hd (blocks loop_word), c_pc = 3, c_depth = 2\<rparr>"
proof -
  let ?c = "\<lambda>i d. \<lparr>c_block = hd (blocks loop_word), c_pc = i, c_depth = d\<rparr>"
  have at: "at_op (?c 0 1) (Dup TY_I64)" "at_op (?c 1 2) (ConstI64 10)" "at_op (?c 2 3) (Cmp TY_BOOL CmpLt)"
    by (simp_all add: at_op_def loop_word_def mk_op_def)
  have "dstep loop_word (?c 0 1) (?c 1 2)" "dstep loop_word (?c 1 2) (?c 2 3)" "dstep loop_word (?c 2 3) (?c 3 2)"
    using dstep.data [OF at(1), of loop_word] dstep.data [OF at(2), of loop_word] dstep.data [OF at(3), of loop_word]
    by (simp_all add: sem_row_defs numeral_eq_Suc)
  moreover have "dstart loop_word (hd (blocks loop_word)) = ?c 0 1"
    by (simp add: dstart_def loop_word_def)
  ultimately show ?thesis
    by (auto intro: rtranclp.rtrancl_into_rtrancl)
qed

theorem verify_word_safe_witness:
  "verify_word loop_word = Inr ()
   \<and> next_op_safe loop_word \<lparr>c_block = hd (blocks loop_word), c_pc = 3, c_depth = 2\<rparr>
   \<and> at_op \<lparr>c_block = hd (blocks loop_word), c_pc = 3, c_depth = 2\<rparr> (BrIf 1 2)"
  using verify_word_safe [OF loop_word_verified loop_word_caps loop_word_entry loop_word_branches] loop_word_verified
  by (simp add: at_op_def loop_word_def mk_op_def)

text \<open>C36: the verifier and the semantics table agree: an accepted op finds its
  table-declared operands on the stack, leaves the depth the table declares (a
  call: its signature's), and ends the block exactly when it is a terminator.\<close>

theorem verify_op_matches_table:
  assumes "verify_op w s x = Inr s'"
  shows "op_pops (kind x) \<le> length (vstk s)
     \<and> length (vstk s') = length (vstk s) - op_pops (kind x) + op_pushes (kind x)
     \<and> vterm s' = is_terminator (kind x)"
  using verify_op_effect [OF assms] by (simp add: effect_ok_def)

theorem verify_op_matches_table_witness:
  "\<exists>s'. verify_op loop_word \<lparr>vstk = [TY_BOOL, TY_I64], vsites = [], vterm = False\<rparr> (mk_op (BrIf 1 2)) = Inr s'
     \<and> op_pops (BrIf 1 2) \<le> 2 \<and> length (vstk s') = 2 - op_pops (BrIf 1 2) + op_pushes (BrIf 1 2) \<and> vterm s'"
proof -
  let ?s = "\<lparr>vstk = [TY_BOOL, TY_I64], vsites = [], vterm = False\<rparr>"
  have ok: "verify_op loop_word ?s (mk_op (BrIf 1 2)) = Inr \<lparr>vstk = [TY_I64], vsites = [], vterm = True\<rparr>"
    by code_simp
  then show ?thesis
    using verify_op_matches_table [OF ok] by (intro exI [of _ "\<lparr>vstk = [TY_I64], vsites = [], vterm = True\<rparr>"]) (simp add: mk_op_def sem_row_defs)
qed

end
