(* ===== verification/VerifyProps.thy ===== *)
theory VerifyProps
  imports VerifySound
begin

text \<open>
  Further properties of the IR verifier: what acceptance says of volatile device
  accesses (place bounds, access width, phantom reads), and that the verifier
  answers a value on every word whose signatures fit their arrays.
\<close>

section \<open>Device accesses\<close>

fun vol_access :: "op_kind \<Rightarrow> (atom \<times> type_id \<times> u8) option" where
  "vol_access (MmioVolLoad ty place _ am _) = Some (place, ty, am)"
| "vol_access (MmioVolStore ty place _ _ am _) = Some (place, ty, am)"
| "vol_access (MmioVolLoadField reg _ place _ _ _ am _) = Some (place, reg, am)"
| "vol_access (MmioVolStoreField reg _ place _ _ _ _ am _) = Some (place, reg, am)"
| "vol_access _ = None"

text \<open>The sites a block has materialised before an op, in order.\<close>

fun site_of :: "op_kind \<Rightarrow> (atom \<times> u16 \<times> u32) option" where
  "site_of (MmioPlace p a off) = Some (p, a, off)"
| "site_of _ = None"

definition sites_of :: "op list \<Rightarrow> (atom \<times> u16 \<times> u32) list" where
  "sites_of xs = List.map_filter (\<lambda>x. site_of (kind x)) xs"

lemma sites_of_append: "sites_of (xs @ ys) = sites_of xs @ sites_of ys"
  by (simp add: sites_of_def List.map_filter_def)

lemma verify_op_sites:
  assumes "verify_op w s x = Inr s'"
  shows "vsites s' = take 8 (vsites s @ sites_of [x]) \<or> 8 < length (vsites s)"
  using assms
  by (cases "kind x")
    (auto simp: verify_op_def Let_def result_simps v_mmio_place_def sites_of_def
      List.map_filter_def split: if_splits option.splits)

lemma verify_ops_sites:
  assumes "foldE (verify_op w) s xs = Inr s'" "vsites s = take 8 ss"
  shows "vsites s' = take 8 (ss @ sites_of xs)"
  using assms
proof (induction xs arbitrary: s ss)
  case Nil
  then show ?case by (simp add: sites_of_def List.map_filter_def)
next
  case (Cons x xs)
  from Cons.prems obtain t where t: "verify_op w s x = Inr t" "foldE (verify_op w) t xs = Inr s'"
    by (auto simp: result_simps)
  have "vsites t = take 8 (ss @ sites_of [x])"
    using verify_op_sites [OF t(1)] Cons.prems(2)
    by (cases "length ss \<le> 8") (auto simp: take_append)
  from Cons.IH [OF t(2) this] show ?case
    by (metis append.assoc append_Cons append_Nil sites_of_append)
qed

text \<open>The op at position \<open>i\<close> of an accepted block, with the state before it.\<close>

lemma verify_block_op:
  assumes "verify_block w b = Inr ()" "i < length (ops b)"
  obtains s s' where "verify_op w s (ops b ! i) = Inr s'"
    "vsites s = take 8 (sites_of (take i (ops b)))"
proof -
  obtain e where "foldE (verify_op w) (block_entry b) (take i (ops b) @ drop i (ops b)) = Inr e"
    using assms(1) by (auto simp: verify_block_def result_simps)
  then obtain s where s: "foldE (verify_op w) (block_entry b) (take i (ops b)) = Inr s"
    "foldE (verify_op w) s (drop i (ops b)) = Inr e"
    by (auto simp only: foldE_append bindE_Inr_iff)
  have "drop i (ops b) = ops b ! i # drop (Suc i) (ops b)"
    using assms(2) by (rule Cons_nth_drop_Suc [symmetric])
  with s(2) obtain s' where "verify_op w s (ops b ! i) = Inr s'"
    by (auto simp: result_simps)
  moreover have "vsites s = take 8 ([] @ sites_of (take i (ops b)))"
    by (rule verify_ops_sites [OF s(1)]) (simp add: block_entry_def)
  ultimately show thesis using that by simp
qed

lemma verify_op_width:
  assumes "verify_op w s x = Inr s'" "vol_access (kind x) = Some (place, ty, am)"
  shows "check_width w (vsites s) place ty am (span_of x) = Inr ()"
  using assms
  by (cases "kind x")
    (auto simp: verify_op_def Let_def result_simps v_vol_load_def v_vol_store_def
      v_vol_load_field_def v_vol_store_field_def split: if_splits)

lemma prim_bits_le: "prim_bits p 64 \<le> 64"
  by (cases p) simp_all

lemma type_width_small:
  assumes "type_width_bytes w ty = Some width"
  shows "unat width \<le> 8"
proof -
  from assms obtain p where "width = ucast (prim_bits p 64) div 8"
    by (auto simp: type_width_bytes_def split: Option.bind_splits)
  then show ?thesis by (cases p) simp_all
qed

lemma width_times_8:
  assumes "unat (width::u32) \<le> 8"
  shows "unat (width * 8) = unat width * 8"
  using assms by (simp add: unat_word_ariths)

text \<open>C26: device accesses of an accepted block stay inside their aperture, as far as
  the check of the code reaches: when the access at position \<open>i\<close> has a primitive width
  and its site is among the first eight that the same block materialised before it, the
  aperture is in the word's table, offset plus width lies within its size and the width
  within the register's atomic width. Apertures of size \<open>0xFFFF_FFFF\<close> are excepted: there
  the saturating sum of the check hides an overrun.\<close>

theorem verify_block_access_bounds:
  assumes "verify_block w b = Inr ()" "i < length (ops b)"
    and "vol_access (kind (ops b ! i)) = Some (place, ty, am)"
    and "find (\<lambda>(p, _, _). p = place) (take 8 (sites_of (take i (ops b)))) = Some (q, ap, off)"
    and "type_width_bytes w ty = Some width"
    and "\<forall>wu \<in> set (apertures w). au_size wu \<noteq> 0xFFFFFFFF"
  shows "\<exists>wu \<in> set (apertures w). au_id wu = ap
     \<and> unat off + unat width \<le> unat (au_size wu) \<and> unat width * 8 \<le> unat am"
proof -
  obtain s s' where s: "verify_op w s (ops b ! i) = Inr s'"
    "vsites s = take 8 (sites_of (take i (ops b)))"
    using verify_block_op [OF assms(1,2)] .
  from verify_op_width [OF s(1) assms(3)] assms(4,5) s(2)
  obtain wu where wu: "find_aperture_use w ap = Some wu"
    "saturating_add_u32 off width \<le> au_size wu" "width * 8 \<le> ucast am"
    by (auto simp: check_width_def check_site_bounds_def result_simps split: option.splits)
  have mem: "wu \<in> set (apertures w)" "au_id wu = ap"
    using find_SomeD [OF wu(1) [unfolded find_aperture_use_def]] by simp_all
  have "au_size wu \<noteq> 0xFFFFFFFF" using assms(6) mem(1) by blast
  then have "unat (au_size wu) \<noteq> 4294967295"
    by (simp add: word_unat_eq_iff)
  moreover have "unat (saturating_add_u32 off width) \<le> unat (au_size wu)"
    using wu(2) by (simp add: word_le_nat_alt)
  ultimately have "unat off + unat width \<le> unat (au_size wu)"
    using unat_u32_less [of "au_size wu"] by (auto simp: unat_saturating_add_u32 min_def split: if_splits)
  moreover have "unat width * 8 \<le> unat am"
  proof -
    have "unat (width * 8) \<le> unat (ucast am :: u32)"
      using wu(3) by (simp add: word_le_nat_alt)
    then show ?thesis
      using width_times_8 [OF type_width_small [OF assms(5)]] by (simp add: unat_ucast_up)
  qed
  ultimately show ?thesis using mem by blast
qed

text \<open>An accepted block that programs a register at offset 4 of an 8-byte aperture.\<close>

definition mmio_word :: word_ir where
  "mmio_word = loop_word\<lparr>types := [''empty'', ''i64'', ''bool'', ''str'', ''ptr'', ''ptr_mut'',
       ''mmio'', ''u32''],
     apertures := [\<lparr>au_id = 3, au_name = ''uart'', au_kind = AK_Bus, au_base = Some 0x40000000,
       au_size = 8, au_access_mask = 2, au_bind = BK_ArmThumbLdrLiteral\<rparr>]\<rparr>"

definition mmio_block :: block where
  "mmio_block = \<lparr>bid = 0, entry_stack = [7], ops = map mk_op
     [Drop 7, MmioPlace ''uart.dr'' 3 4, MmioVolLoad 7 ''uart.dr'' RK_Plain 32 BA_None,
      Drop 7, ConstI64 1, Ret]\<rparr>"

theorem verify_block_access_bounds_witness:
  "\<exists>wu \<in> set (apertures mmio_word). au_id wu = 3
     \<and> unat (4 :: u32) + unat (4 :: u32) \<le> unat (au_size wu) \<and> unat (4 :: u32) * 8 \<le> unat (32 :: u8)"
proof (rule verify_block_access_bounds [where b = mmio_block and i = 2 and place = "''uart.dr''"
        and ty = 7 and q = "''uart.dr''"])
  show "verify_block mmio_word mmio_block = Inr ()" by code_simp
  show "2 < length (ops mmio_block)" by code_simp
  show "vol_access (kind (ops mmio_block ! 2)) = Some (''uart.dr'', 7, 32)" by code_simp
  show "find (\<lambda>(p, _, _). p = ''uart.dr'') (take 8 (sites_of (take 2 (ops mmio_block))))
      = Some (''uart.dr'', 3, 4)" by code_simp
  show "type_width_bytes mmio_word 7 = Some 4" by code_simp
  show "\<forall>wu \<in> set (apertures mmio_word). au_size wu \<noteq> 0xFFFFFFFF"
    by (simp add: mmio_word_def loop_word_def)
qed

text \<open>No phantom bus reads: in an accepted block a store to a register whose
  reads have side effects is a plain store, never one of the read-modify-write
  kinds, and no field store touches such a register.\<close>

theorem verify_block_no_phantom_read:
  assumes "verify_block w b = Inr ()" "x \<in> set (ops b)"
  shows "(\<forall>ty p wk am ba. kind x = MmioVolStore ty p wk RK_Effectful am ba \<longrightarrow> wk = WK_Plain)
     \<and> (\<forall>rg fl p m sh wk am ba. kind x \<noteq> MmioVolStoreField rg fl p m sh wk RK_Effectful am ba)"
proof -
  from assms(2) obtain i where "i < length (ops b)" "x = ops b ! i"
    by (auto simp: in_set_conv_nth)
  then obtain s s' where op: "verify_op w s x = Inr s'"
    using verify_block_op [OF assms(1)] by blast
  show ?thesis
  proof (intro conjI allI impI notI)
    fix ty p wk am ba
    assume "kind x = MmioVolStore ty p wk RK_Effectful am ba"
    with op show "wk = WK_Plain"
      by (cases wk) (auto simp: verify_op_def Let_def result_simps v_vol_store_def split: if_splits)
  next
    fix rg fl p m sh wk am ba
    assume "kind x = MmioVolStoreField rg fl p m sh wk RK_Effectful am ba"
    with op show False
      by (auto simp: verify_op_def Let_def result_simps v_vol_store_field_def split: if_splits)
  qed
qed

theorem verify_block_no_phantom_read_witness:
  "kind (ops mmio_block ! 2) \<noteq> MmioVolStoreField 7 7 ''uart.dr'' 1 0 WK_Plain RK_Effectful 32 BA_None"
proof -
  have "verify_block mmio_word mmio_block = Inr ()" by code_simp
  moreover have "ops mmio_block ! 2 \<in> set (ops mmio_block)" by (simp add: mmio_block_def)
  ultimately show ?thesis
    using verify_block_no_phantom_read [of mmio_word mmio_block "ops mmio_block ! 2"] by blast
qed

section \<open>Failures\<close>

definition sig_arrays :: "sig \<Rightarrow> bool" where
  "sig_arrays sg = (unat (out_len sg) \<le> length (outputs sg))"

definition sigs_ok :: "word_ir \<Rightarrow> bool" where
  "sigs_ok w = (sig_arrays (w_sig w) \<and> (\<forall>b \<in> set (blocks w). \<forall>x \<in> set (ops b).
     case kind x of Call _ sg _ _ _ \<Rightarrow> sig_arrays sg | _ \<Rightarrow> True))"

definition no_panic :: "vfail + 'a \<Rightarrow> bool" where
  "no_panic r = (r \<noteq> Inl VPanic)"

lemma no_panic_bindE [simp]:
  "no_panic (bindE m f) \<longleftrightarrow> no_panic m \<and> (\<forall>x. m = Inr x \<longrightarrow> no_panic (f x))"
  by (cases m) (auto simp: no_panic_def)

lemma no_panic_basic [simp]:
  "no_panic (Inr x)" "no_panic (Inl (VErr e))" "no_panic (verr e)"
  "no_panic (v_push sp ty st)" "no_panic (v_pop sp st)" "no_panic (v_guard c e)"
  by (cases st; simp add: no_panic_def v_push_def verr_def v_guard_def ensureE_def)+

lemma no_panic_foldE:
  assumes "\<And>s x. x \<in> set xs \<Longrightarrow> no_panic (f s x)"
  shows "no_panic (foldE f s xs)"
  using assms by (induction xs arbitrary: s) simp_all

lemma no_panic_replace [simp]: "no_panic (v_replace n ty sp st)"
  by (induction n arbitrary: st) auto

lemma no_panic_branch [simp]: "no_panic (v_branch w t nf d c st)"
  by (simp add: v_branch_def split: option.split)

lemma no_panic_width [simp]: "no_panic (check_width w ss p ty am sp)"
  by (simp add: check_width_def check_site_bounds_def split: option.split prod.split)

lemma no_panic_scoped [simp]: "no_panic (v_scoped_enter w ty sp st)"
  by (simp add: v_scoped_enter_def Let_def)

lemma no_panic_stack_op [simp]: "no_panic (v_stack_op w k sp st)"
  by (cases k) (simp_all split: prod.split)

lemma no_panic_ret_outputs:
  "length tys \<le> length outs \<Longrightarrow> no_panic (v_ret_outputs w sp tys outs)"
  by (induction w sp tys outs rule: v_ret_outputs.induct) auto

lemma no_panic_call: "sig_arrays sg \<Longrightarrow> no_panic (v_call w sg sp st)"
  by (auto simp: v_call_def Let_def sig_arrays_def intro!: no_panic_foldE)

lemma no_panic_ret: "sig_arrays (w_sig w) \<Longrightarrow> no_panic (v_ret w sp st)"
  by (auto simp: v_ret_def sig_arrays_def v_guard_def result_simps intro!: no_panic_ret_outputs)
    (simp add: no_panic_def ensureE_def)

lemma no_panic_op:
  assumes "sig_arrays (w_sig w)" "case kind x of Call _ sg _ _ _ \<Rightarrow> sig_arrays sg | _ \<Rightarrow> True"
  shows "no_panic (verify_op w s x)"
  using assms
  by (cases "kind x")
    (auto simp: verify_op_def Let_def on_stack_def on_stack_term_def v_mmio_place_def
      v_vol_load_def v_vol_store_def v_vol_load_field_def v_vol_store_field_def v_br_def v_br_if_def
      intro: no_panic_call no_panic_ret split: option.splits)

text \<open>C40: the verifier never panics on a word whose signatures fit their
  eight-entry arrays: it accepts or answers a verification error.\<close>

theorem verify_word_total:
  assumes "sigs_ok w"
  shows "verify_word w = Inr () \<or> (\<exists>e. verify_word w = Inl (VErr e))"
proof -
  have block: "no_panic (verify_block w b)" if "b \<in> set (blocks w)" for b
    using assms that unfolding verify_block_def sigs_ok_def
    by (auto intro!: no_panic_foldE no_panic_op)
  have aperture: "no_panic (verify_aperture u wu)" for u wu
    by (simp add: verify_aperture_def split: aperture_kind.split bind_kind.split)
  have "no_panic (verify_word w)"
    by (auto simp: verify_word_def intro!: no_panic_foldE block aperture split: option.splits)
  then show ?thesis
    by (cases "verify_word w") (auto simp: no_panic_def intro: vfail.exhaust)
qed

theorem verify_word_total_witness:
  "verify_word loop_word = Inr () \<or> (\<exists>e. verify_word loop_word = Inl (VErr e))"
  by (rule verify_word_total)
    (simp add: sigs_ok_def sig_arrays_def loop_word_def mk_op_def sig_empty_def)

end
