(* ===== verification/Contract.thy ===== *)
theory Contract
  imports IrTypes
begin

text \<open>
  The contract algebra of crates/ir/src/contract.rs: effect and capability bit
  sets, the high-water lattice \<open>High\<close>, the composable stack bound and the two
  ABI hashes. The abstract specification of a stack bound is the list of depth
  changes a run performs: its net sum and its peak prefix sum.
\<close>

section \<open>Effect and capability sets\<close>

unbundle bit_operations_syntax

definition set_contains :: "u16 \<Rightarrow> u16 \<Rightarrow> bool" where
  "set_contains s m = (s AND m \<noteq> 0)"

definition set_union :: "u16 \<Rightarrow> u16 \<Rightarrow> u16" where "set_union a b = a OR b"
definition set_intersect :: "u16 \<Rightarrow> u16 \<Rightarrow> u16" where "set_intersect a b = a AND b"
definition effect_minus :: "effect_set \<Rightarrow> effect_set \<Rightarrow> effect_set" where
  "effect_minus a b = a AND NOT b"
definition effect_without :: "effect_set \<Rightarrow> u16 \<Rightarrow> effect_set" where
  "effect_without a m = a AND NOT m"
definition cap_subset_of :: "cap_set \<Rightarrow> cap_set \<Rightarrow> bool" where
  "cap_subset_of a grants = (a AND NOT grants = 0)"

text \<open>The C1 capability check is inclusion of the bits.\<close>

lemma cap_subset_of_bits:
  "cap_subset_of a grants \<longleftrightarrow> (\<forall>n < 16. bit a n \<longrightarrow> bit grants n)"
  by (auto simp: cap_subset_of_def bit_eq_iff bit_and_iff bit_not_iff)

lemma cap_subset_of_union:
  "cap_subset_of (set_union a b) grants \<longleftrightarrow> cap_subset_of a grants \<and> cap_subset_of b grants"
  by (auto simp: cap_subset_of_bits set_union_def bit_or_iff)

section \<open>The high-water lattice\<close>

instantiation high :: linorder
begin

fun less_eq_high :: "high \<Rightarrow> high \<Rightarrow> bool" where
  "less_eq_high _ HTop = True"
| "less_eq_high HTop (Slots _) = False"
| "less_eq_high (Slots a) (Slots b) = (a \<le> b)"

definition less_high :: "high \<Rightarrow> high \<Rightarrow> bool" where
  "less_high a b = (a \<le> b \<and> \<not> b \<le> (a::high))"

instance
proof
  fix x y z :: high
  show "x < y \<longleftrightarrow> x \<le> y \<and> \<not> y \<le> x" by (simp add: less_high_def)
  show "x \<le> x" by (cases x) auto
  show "x \<le> y \<Longrightarrow> y \<le> z \<Longrightarrow> x \<le> z" by (cases x; cases y; cases z) auto
  show "x \<le> y \<Longrightarrow> y \<le> x \<Longrightarrow> x = y" by (cases x; cases y) auto
  show "x \<le> y \<or> y \<le> x" by (cases x; cases y) auto
qed

end

text \<open>\<open>(-net) as u32\<close>: the negation wraps at \<open>i16::MIN\<close> (it panics in a build
  with overflow checks) and the cast sign-extends.\<close>

definition neg_as_u32 :: "i16 \<Rightarrow> u32" where
  "neg_as_u32 n = word_of_int (wrap_i16 (- n))"

fun add_offset :: "high \<Rightarrow> i16 \<Rightarrow> high" where
  "add_offset HTop off = HTop"
| "add_offset (Slots n) off =
    (if off < 0 then
       (let a = neg_as_u32 off in if n \<le> a then Slots 0 else Slots (n - a))
     else (case checked_add_u32 n (word_of_int off) of Some v \<Rightarrow> Slots v | None \<Rightarrow> HTop))"

fun exceeds :: "high \<Rightarrow> high \<Rightarrow> bool" where
  "exceeds HTop HTop = False"
| "exceeds HTop _ = True"
| "exceeds _ HTop = False"
| "exceeds (Slots a) (Slots b) = (b < a)"

fun high_max :: "high \<Rightarrow> high \<Rightarrow> high" where
  "high_max HTop _ = HTop"
| "high_max _ HTop = HTop"
| "high_max (Slots a) (Slots b) = Slots (max a b)"

fun shift_high :: "i16 \<Rightarrow> high \<Rightarrow> high" where
  "shift_high n HTop = HTop"
| "shift_high n (Slots h) =
    (if n < 0 then
       (let a = neg_as_u32 n in if h \<le> a then Slots 0 else Slots (h - a))
     else (case checked_add_u32 h (word_of_int n) of Some v \<Rightarrow> Slots v | None \<Rightarrow> HTop))"

lemma exceeds_iff_less: "exceeds a b \<longleftrightarrow> b < a"
  by (cases a; cases b) (auto simp: less_high_def)

lemma high_max_eq_max: "high_max a b = max a b"
  by (cases a; cases b) (auto simp: max_def less_high_def)

section \<open>Stack bounds\<close>

definition sb_id :: stack_bound where "sb_id = \<lparr>net = 0, high = Slots 0\<rparr>"

definition compose :: "stack_bound \<Rightarrow> stack_bound \<Rightarrow> stack_bound" where
  "compose a b = \<lparr>net = wrap_i16 (net a + net b),
                  high = high_max (high a) (shift_high (net a) (high b))\<rparr>"

definition branch_max :: "stack_bound \<Rightarrow> stack_bound \<Rightarrow> stack_bound" where
  "branch_max a b = \<lparr>net = net a, high = high_max (high a) (high b)\<rparr>"

fun wire_high :: "high \<Rightarrow> u32" where
  "wire_high (Slots n) = n"
| "wire_high HTop = 0xFFFFFFFF"

definition wire_u32 :: "stack_bound \<Rightarrow> u32" where
  "wire_u32 b = wire_high (high b)"

section \<open>Context\<close>

record context_model =
  grants :: cap_set
  forbids :: effect_set
  ceiling :: high

definition context_default :: context_model where
  "context_default = \<lparr>grants = 0, forbids = 0, ceiling = HTop\<rparr>"

section \<open>The ABI hashes\<close>

definition ABI_CONTRACT_VERSION :: u64 where "ABI_CONTRACT_VERSION = 2"

definition mix31 :: "u64 \<Rightarrow> u64 \<Rightarrow> u64" where "mix31 h x = h * 31 + x"

definition abi_hash ::
  "bytes \<Rightarrow> bytes \<Rightarrow> effect_set \<Rightarrow> cap_set \<Rightarrow> stack_bound \<Rightarrow> u64 \<Rightarrow> u32 \<Rightarrow> u64" where
  "abi_hash sig_in sig_out perf req bnd contract slot_bytes =
    (let h = mix31 ABI_CONTRACT_VERSION (ucast slot_bytes);
         h = fold (\<lambda>b h. mix31 h (ucast b)) sig_in h;
         h = mix31 h 0xff;
         h = fold (\<lambda>b h. mix31 h (ucast b)) sig_out h;
         h = mix31 h 0xff;
         h = mix31 h (ucast perf);
         h = mix31 h (ucast req);
         h = mix31 h (word_of_int (net bnd));
         h = mix31 h (ucast (wire_u32 bnd))
     in mix31 h contract)"

definition FNV_BASIS :: u64 where "FNV_BASIS = 0xcbf29ce484222325"
definition FNV_PRIME :: u64 where "FNV_PRIME = 0x100000001b3"

definition fnv_byte :: "u8 \<Rightarrow> u64 \<Rightarrow> u64" where
  "fnv_byte b h = (h XOR ucast b) * FNV_PRIME"

definition fnv_name :: "u8 \<Rightarrow> bytes \<Rightarrow> u64 \<Rightarrow> u64" where
  "fnv_name tag name h = fold fnv_byte name (fnv_byte tag h)"

definition contract_hash :: "bytes list \<Rightarrow> bytes list \<Rightarrow> u64" where
  "contract_hash needs ensures =
     fold (fnv_name 2) ensures (fold (fnv_name 1) needs FNV_BASIS)"

section \<open>Stack bounds refine depth traces\<close>

text \<open>A run's depth changes: its net effect and its peak over all prefixes.\<close>

fun peak :: "int list \<Rightarrow> int" where
  "peak [] = 0"
| "peak (d # ds) = max 0 (d + peak ds)"

definition bound_of :: "int list \<Rightarrow> stack_bound" where
  "bound_of ds = \<lparr>net = sum_list ds, high = Slots (word_of_int (peak ds))\<rparr>"

lemma peak_nonneg: "0 \<le> peak ds"
  by (cases ds) auto

lemma peak_sum: "sum_list ds \<le> peak ds"
  by (induction ds) auto

lemma peak_append: "peak (xs @ ys) = max (peak xs) (sum_list xs + peak ys)"
  by (induction xs) (auto simp: peak_nonneg max_def)

text \<open>The trace stays within the encodable range.\<close>

definition encodable :: "int list \<Rightarrow> bool" where
  "encodable ds \<longleftrightarrow> - (2 ^ 15) < sum_list ds \<and> sum_list ds < 2 ^ 15 \<and> peak ds < 2 ^ 32"

lemma wrap_i16_id: "- (2 ^ 15) \<le> x \<Longrightarrow> x < 2 ^ 15 \<Longrightarrow> wrap_i16 x = x"
  by (simp add: wrap_i16_def)

lemma uint_of_int_u32: "0 \<le> x \<Longrightarrow> x < 2 ^ 32 \<Longrightarrow> uint (word_of_int x :: u32) = x"
  by (simp add: uint_word_of_int)

lemma neg_as_u32_uint:
  assumes "- (2 ^ 15) < n" "n < 0"
  shows "uint (neg_as_u32 n) = - n"
proof -
  have "wrap_i16 (- n) = - n" using assms by (simp add: wrap_i16_id)
  moreover have "uint (word_of_int (- n) :: u32) = - n"
    by (rule uint_of_int_u32) (use assms in simp_all)
  ultimately show ?thesis by (simp only: neg_as_u32_def)
qed

text \<open>On in-range operands, shifting is adding with a floor at zero.\<close>

lemma shift_high_uint:
  assumes "- (2 ^ 15) < n" "n < 2 ^ 15" "n + uint h < 2 ^ 32"
  shows "shift_high n (Slots h) = Slots (word_of_int (max 0 (n + uint h)))"
proof (cases "n < 0")
  case True
  note a = neg_as_u32_uint [OF assms(1) True]
  show ?thesis
  proof (cases "h \<le> neg_as_u32 n")
    case le: True
    then have "max 0 (n + uint h) = 0" using a by (simp add: word_le_def)
    with le True show ?thesis by (simp add: Let_def)
  next
    case False
    then have "max 0 (n + uint h) = uint h - uint (neg_as_u32 n)"
      using a by (simp add: word_le_def)
    moreover have "word_of_int (uint h - uint (neg_as_u32 n)) = h - neg_as_u32 n" by simp
    ultimately show ?thesis using False True by (simp add: Let_def)
  qed
next
  case False
  then have n: "uint (word_of_int n :: u32) = n"
    using assms(2) by (intro uint_of_int_u32) simp_all
  then have "checked_add_u32 h (word_of_int n) = Some (h + word_of_int n)"
    using assms(3) by (simp add: checked_add_u32_def add.commute)
  moreover have "word_of_int (n + uint h) = h + (word_of_int n :: u32)" by (simp add: add.commute)
  moreover have "max 0 (n + uint h) = n + uint h" using False by simp
  ultimately show ?thesis using False by simp
qed

lemma compose_bound_of:
  assumes "encodable xs" "encodable ys" "encodable (xs @ ys)"
  shows "compose (bound_of xs) (bound_of ys) = bound_of (xs @ ys)"
proof -
  have px: "0 \<le> peak xs" "peak xs < 2 ^ 32" and py: "0 \<le> peak ys" "peak ys < 2 ^ 32"
    using assms by (simp_all add: encodable_def peak_nonneg)
  have ux: "uint (word_of_int (peak xs) :: u32) = peak xs"
    and uy: "uint (word_of_int (peak ys) :: u32) = peak ys"
    using px py by (simp_all only: uint_of_int_u32)
  have lt: "sum_list xs + peak ys < 2 ^ 32"
    using assms(3) by (simp add: encodable_def peak_append)
  have "shift_high (sum_list xs) (Slots (word_of_int (peak ys)))
      = Slots (word_of_int (max 0 (sum_list xs + peak ys)))"
    using shift_high_uint [of "sum_list xs" "word_of_int (peak ys)"] assms(1) lt
    by (simp add: uy encodable_def)
  moreover have "high_max (Slots (word_of_int (peak xs))) (Slots (word_of_int (max 0 (sum_list xs + peak ys))))
      = Slots (word_of_int (peak (xs @ ys)))"
  proof -
    have "uint (word_of_int (max 0 (sum_list xs + peak ys)) :: u32) = max 0 (sum_list xs + peak ys)"
      using lt by (intro uint_of_int_u32) simp_all
    then show ?thesis
      using px ux by (auto simp: peak_append max_def word_le_def)
  qed
  moreover have "wrap_i16 (sum_list (xs @ ys)) = sum_list (xs @ ys)"
    using assms(3) by (intro wrap_i16_id) (simp_all add: encodable_def)
  ultimately show ?thesis by (simp add: compose_def bound_of_def)
qed

text \<open>C27: the static bound of a sequence is the bound of its run: composing the
  bounds of the depth traces of consecutive pieces gives net effect and peak of
  the whole trace, as long as every prefix of the sequence is encodable (net in
  i16, peak in u32).\<close>

theorem compose_refines_trace:
  assumes "\<forall>i \<le> length tss. encodable (concat (take i tss))" "\<forall>ts \<in> set tss. encodable ts"
  shows "foldl compose sb_id (map bound_of tss) = bound_of (concat tss)"
  using assms
proof (induction tss rule: rev_induct)
  case Nil
  then show ?case by (simp add: sb_id_def bound_of_def)
next
  case (snoc ts tss)
  have "encodable (concat (take i tss))" if "i \<le> length tss" for i
    using snoc.prems(1) [rule_format, of i] that by simp
  with snoc have "foldl compose sb_id (map bound_of tss) = bound_of (concat tss)" by simp
  moreover have "encodable (concat tss)"
    using snoc.prems(1) [rule_format, of "length tss"] by simp
  moreover have "encodable (concat tss @ ts)"
    using snoc.prems(1) [rule_format, of "Suc (length tss)"] by simp
  ultimately show ?case using snoc.prems(2) by (simp add: compose_bound_of)
qed

theorem compose_refines_trace_witness:
  "foldl compose sb_id (map bound_of [[1, 1, -1], [-1, 2], [-1]]) = bound_of [1, 1, -1, -1, 2, -1]"
proof -
  have "encodable (concat (take i [[1, 1, -1], [-1, 2], [-1]]))" if "i \<le> 3" for i
  proof -
    from that have "i = 0 \<or> i = 1 \<or> i = 2 \<or> i = 3" by auto
    then show ?thesis by (auto simp: encodable_def numeral_2_eq_2 numeral_3_eq_3)
  qed
  then show ?thesis
    using compose_refines_trace [of "[[1, 1, -1], [-1, 2], [-1]]"] by (simp add: encodable_def)
qed

section \<open>Hashes\<close>

text \<open>Both hash steps are injective in the running hash: the multipliers are odd.\<close>

lemma mult_cancel_inverse:
  assumes "(p::u64) * q = 1" "a * p = b * p"
  shows "a = b"
proof -
  have "a = a * p * q" by (simp only: mult.assoc assms(1) mult_1_right)
  also have "\<dots> = b * p * q" by (simp only: assms(2))
  also have "\<dots> = b" by (simp only: mult.assoc assms(1) mult_1_right)
  finally show ?thesis .
qed

lemma fnv_prime_inverse: "FNV_PRIME * 0xce965057aff6957b = 1"
  by (simp add: FNV_PRIME_def)

lemma inverse_31: "(31::u64) * 0xef7bdef7bdef7bdf = 1"
  by simp

lemma fnv_byte_inj: "fnv_byte b h = fnv_byte b h' \<Longrightarrow> h = h'"
proof -
  assume "fnv_byte b h = fnv_byte b h'"
  then have "h XOR ucast b = h' XOR ucast b"
    unfolding fnv_byte_def by (rule mult_cancel_inverse [OF fnv_prime_inverse])
  then show ?thesis by (simp only: xor_right_cancel)
qed

lemma fnv_fold_inj: "fold fnv_byte bs h = fold fnv_byte bs h' \<Longrightarrow> h = h'"
  by (induction bs arbitrary: h h') (auto dest: fnv_byte_inj)

lemma fnv_name_inj: "fnv_name t n h = fnv_name t n h' \<Longrightarrow> h = h'"
  unfolding fnv_name_def by (drule fnv_fold_inj, drule fnv_byte_inj)

lemma fnv_names_inj: "fold (fnv_name t) ns h = fold (fnv_name t) ns h' \<Longrightarrow> h = h'"
  by (induction ns arbitrary: h h') (auto dest: fnv_name_inj)

lemma mix31_inj: "mix31 h x = mix31 h' x \<Longrightarrow> h = h'"
  unfolding mix31_def by (auto dest: mult_cancel_inverse [OF inverse_31])

lemma mix31_inj_arg: "mix31 h x = mix31 h y \<longleftrightarrow> x = y"
  by (simp add: mix31_def)

lemma mix31_fold_inj:
  "fold (\<lambda>b h. mix31 h (f b)) bs h = fold (\<lambda>b h. mix31 h (f b)) bs h' \<Longrightarrow> h = h'"
  by (induction bs arbitrary: h h') (auto dest: mix31_inj)

text \<open>a clause name hashes differently as a precondition and as a
  postcondition, after any common preconditions and before any common
  postconditions.\<close>

theorem contract_hash_tags:
  "contract_hash (ns @ [n]) es \<noteq> contract_hash ns (n # es)"
proof
  let ?h = "fold (fnv_name 1) ns FNV_BASIS"
  assume "contract_hash (ns @ [n]) es = contract_hash ns (n # es)"
  then have "fnv_name 1 n ?h = fnv_name 2 n ?h"
    by (auto simp: contract_hash_def dest: fnv_names_inj)
  then have "fnv_byte 1 ?h = fnv_byte 2 ?h"
    unfolding fnv_name_def by (rule fnv_fold_inj)
  then have "?h XOR 1 = ?h XOR 2"
    unfolding fnv_byte_def using mult_cancel_inverse [OF fnv_prime_inverse] by fastforce
  then have "1 XOR ?h = 2 XOR ?h" by (simp only: xor.commute)
  then have "(1::u64) = 2" by (simp only: xor_right_cancel)
  then show False by simp
qed

text \<open>the ABI hash separates interfaces that differ in exactly one of the
  fixed-width fields: effects, capabilities, wire bound, contract surface.\<close>

theorem abi_hash_separates:
  "(abi_hash i out p r b c s = abi_hash i out p' r b c s \<longleftrightarrow> p = p')
   \<and> (abi_hash i out p r b c s = abi_hash i out p r' b c s \<longleftrightarrow> r = r')
   \<and> (abi_hash i out p r b c s = abi_hash i out p r b c' s \<longleftrightarrow> c = c')
   \<and> (abi_hash i out p r b c s = abi_hash i out p r (b\<lparr>high := h'\<rparr>) c s
       \<longleftrightarrow> wire_high (high b) = wire_high h')
   \<and> (abi_hash i out p r b c s = abi_hash i out p r b c s' \<longleftrightarrow> s = s')"
proof -
  have up: "ucast x = (ucast y :: u64) \<longleftrightarrow> x = y" for x y :: u16
    by (rule ucast_up_eq_iff) simp
  have up32: "ucast x = (ucast y :: u64) \<longleftrightarrow> x = y" for x y :: u32
    by (rule ucast_up_eq_iff) simp
  show ?thesis
    by (intro conjI)
      (auto simp: abi_hash_def Let_def mix31_inj_arg wire_u32_def up up32
        dest!: mix31_inj mix31_fold_inj)
qed

end
