(* ===== verification/IrText.thy ===== *)
theory IrText
  imports Semantics
begin

text \<open>
  The canonical text printer of crates/ir/src/lib.rs (\<open>write_module\<close>,
  \<open>write_word\<close>, \<open>write_word_ops\<close>, \<open>write_op\<close> and the number formatters) and the
  version gate \<open>check_format_ver\<close>. An \<open>Output\<close> sink is the byte string written
  so far; each printer is the string it appends.
\<close>

section \<open>Numbers\<close>

definition digit_char :: "int \<Rightarrow> char" where
  "digit_char d = (if d < 10 then char_of (48 + d) else char_of (97 + (d - 10)))"

text \<open>The loop \<open>while v > 0 && n < buf.len()\<close>: least significant digit first, with
  the buffer length as fuel.\<close>

fun digit_loop :: "nat \<Rightarrow> int \<Rightarrow> int \<Rightarrow> string" where
  "digit_loop 0 base v = []"
| "digit_loop (Suc n) base v =
    (if 0 < v then digit_char (v mod base) # digit_loop n base (v div base) else [])"

definition write_u32 :: "u32 \<Rightarrow> string" where
  "write_u32 v = (if v = 0 then ''0'' else rev (digit_loop 10 10 (uint v)))"

definition write_u32_hex :: "u32 \<Rightarrow> string" where
  "write_u32_hex v = (if v = 0 then ''0'' else rev (digit_loop 8 16 (uint v)))"

definition write_u64_hex :: "u64 \<Rightarrow> string" where
  "write_u64_hex v = (if v = 0 then ''0'' else rev (digit_loop 16 16 (uint v)))"

definition write_i64 :: "i64 \<Rightarrow> string" where
  "write_i64 v = (if v = 0 then ''0''
     else (if v < 0 then ''-'' else '''') @ rev (digit_loop 24 10 \<bar>v\<bar>))"

section \<open>Types, signatures and stacks\<close>

definition ends_with :: "string \<Rightarrow> string \<Rightarrow> bool" where
  "ends_with s p = (length p \<le> length s \<and> drop (length s - length p) s = p)"

definition type_atom :: "word_ir \<Rightarrow> type_id \<Rightarrow> atom" where
  "type_atom w i = (case get (types w) (unat i) of Some a \<Rightarrow> a | None \<Rightarrow> '''')"

text \<open>The first comma outside parentheses, counting depth modulo \<open>2^32\<close>: the
  element name before it and the length after it.\<close>

fun split_comma :: "string \<Rightarrow> u32 \<Rightarrow> string \<Rightarrow> (string \<times> string) option" where
  "split_comma acc d [] = None"
| "split_comma acc d (c # cs) =
    (if c = CHR ''('' then split_comma (acc @ [c]) (d + 1) cs
     else if c = CHR '')'' then split_comma (acc @ [c]) (d - 1) cs
     else if c = CHR '','' \<and> d = 0 then Some (acc, cs)
     else split_comma (acc @ [c]) d cs)"

fun write_type_atom :: "nat \<Rightarrow> string \<Rightarrow> string" where
  "write_type_atom 0 bs = bs"
| "write_type_atom (Suc d) bs =
    (if starts_with bs ''Chan('' \<and> ends_with bs '')'' then
       (let inner = take (length bs - 6) (drop 5 bs)
        in ''|'' @ (case Atom_new inner of Some a \<Rightarrow> write_type_atom d a | None \<Rightarrow> inner) @ ''|'')
     else if starts_with bs ''Array('' \<and> ends_with bs '')'' then
       (case split_comma [] 0 (take (length bs - 7) (drop 6 bs)) of
          Some (elem, len) \<Rightarrow>
            (case Atom_new elem of Some a \<Rightarrow> write_type_atom d a | None \<Rightarrow> elem) @ [CHR 0x27] @ len
        | None \<Rightarrow> bs)
     else bs)"

fun sep_by_space :: "string list \<Rightarrow> string" where
  "sep_by_space [] = []"
| "sep_by_space [x] = x"
| "sep_by_space (x # xs) = x @ '' '' @ sep_by_space xs"

definition write_types :: "word_ir \<Rightarrow> type_id list \<Rightarrow> string" where
  "write_types w tys = sep_by_space (map (\<lambda>t. write_type_atom 4 (type_atom w t)) tys)"

definition write_sig :: "word_ir \<Rightarrow> sig \<Rightarrow> string" where
  "write_sig w sg = ''( '' @ write_types w (take (unat (in_len sg)) (inputs sg)) @ '' --''
     @ (if 0 < out_len sg then '' '' else '''')
     @ write_types w (take (unat (out_len sg)) (outputs sg)) @ '' )''"

section \<open>Ops\<close>

fun write_addr_of_base :: "addr_of_base \<Rightarrow> string" where
  "write_addr_of_base AB_Runtime = ''''"
| "write_addr_of_base (AB_Mmio ap off) =
     '' aperture='' @ write_u32 (ucast ap) @ '' offset=0x'' @ write_u32_hex off"

fun barrier_text :: "barrier_kind \<Rightarrow> string" where
  "barrier_text BA_None = ''none''"
| "barrier_text BA_Before = ''before''"
| "barrier_text BA_After = ''after''"
| "barrier_text BA_Both = ''both''"

definition write_access_meta :: "read_kind \<Rightarrow> u8 \<Rightarrow> barrier_kind \<Rightarrow> string" where
  "write_access_meta rk am ba =
     (if rk = RK_Effectful then '' effectful'' else '''') @ '' atomic='' @ write_u32 (ucast am)
     @ (if ba \<noteq> BA_None then '' barrier='' @ barrier_text ba else '''')"

fun write_kind_text :: "write_kind \<Rightarrow> string" where
  "write_kind_text WK_W1c = '' w1c''"
| "write_kind_text WK_W1s = '' w1s''"
| "write_kind_text WK_Xor = '' xor''"
| "write_kind_text WK_Plain = ''''"

fun trap_text :: "trap_code \<Rightarrow> string" where
  "trap_text TR_ContractFail = ''CONTRACT_FAIL''"
| "trap_text TR_SubtypeFail = ''SUBTYPE_FAIL''"
| "trap_text TR_AssertFail = ''ASSERT_FAIL''"
| "trap_text TR_StackOverflow = ''STACK_OVERFLOW''"
| "trap_text TR_TaskQueueOverflow = ''TASK_QUEUE_OVERFLOW''"
| "trap_text TR_Unreachable = ''UNREACHABLE''"
| "trap_text TR_Deadlock = ''DEADLOCK''"
| "trap_text TR_RegionExhausted = ''REGION_EXHAUSTED''"
| "trap_text TR_UnsupportedImport = ''UNSUPPORTED_IMPORT''"

text \<open>The volatile-access lines.\<close>

definition write_vol :: "word_ir \<Rightarrow> op_kind \<Rightarrow> string" where
  "write_vol w k = (case k of
     MmioVolLoad ty place rk am ba \<Rightarrow>
       ''vol_load '' @ type_atom w ty @ '' '' @ place @ write_access_meta rk am ba
   | MmioVolStore ty place wk rk am ba \<Rightarrow>
       ''vol_store '' @ type_atom w ty @ '' '' @ place @ write_kind_text wk
       @ write_access_meta rk am ba
   | MmioVolLoadField reg fld place m sh rk am ba \<Rightarrow>
       ''vol_load_field '' @ type_atom w fld @ '' '' @ place @ '' reg='' @ type_atom w reg
       @ '' mask=0x'' @ write_u64_hex m @ '' shift='' @ write_u32 (ucast sh)
       @ write_access_meta rk am ba
   | MmioVolStoreField reg fld place m sh wk rk am ba \<Rightarrow>
       ''vol_store_field '' @ type_atom w fld @ '' '' @ place @ '' reg='' @ type_atom w reg
       @ '' mask=0x'' @ write_u64_hex m @ '' shift='' @ write_u32 (ucast sh)
       @ write_kind_text wk @ write_access_meta rk am ba
   | _ \<Rightarrow> '''')"

definition write_op :: "word_ir \<Rightarrow> op_kind \<Rightarrow> string" where
  "write_op w k = (case k of
     ConstI64 v \<Rightarrow> ''const_i64 '' @ write_i64 v
   | ConstBool b \<Rightarrow> (if b then ''const_bool true'' else ''const_bool false'')
   | ConstStr _ \<Rightarrow> ''const_str''
   | AddrOf place mutable base \<Rightarrow>
       (if mutable then ''addr_of_mut '' else ''addr_of '') @ place @ write_addr_of_base base
   | MmioPlace place ap off \<Rightarrow>
       ''mmio_place '' @ place @ '' aperture='' @ write_u32 (ucast ap)
       @ '' offset=0x'' @ write_u32_hex off
   | ScopedEnter ty _ \<Rightarrow> ''scoped_enter '' @ type_atom w ty
   | TaskSpawn name _ \<Rightarrow> ''task_spawn '' @ name
   | PtrAddConst ty off \<Rightarrow> ''ptr_add_const '' @ type_atom w ty @ '' '' @ write_u32 off
   | PtrAddIndex ty sc \<Rightarrow> ''ptr_add_index '' @ type_atom w ty @ '' '' @ write_u32 sc
   | Dup ty \<Rightarrow> ''dup '' @ type_atom w ty
   | Drop ty \<Rightarrow> ''drop '' @ type_atom w ty
   | Swap a b \<Rightarrow> ''swap '' @ type_atom w a @ '' '' @ type_atom w b
   | AddI64 \<Rightarrow> ''add_i64''
   | SubI64 \<Rightarrow> ''sub_i64''
   | MulI64 \<Rightarrow> ''mul_i64''
   | AndBool \<Rightarrow> ''and_bool''
   | OrBool \<Rightarrow> ''or_bool''
   | NotBool \<Rightarrow> ''not_bool''
   | InterruptDisable \<Rightarrow> ''interrupt_disable''
   | InterruptEnable \<Rightarrow> ''interrupt_enable''
   | Cmp _ c \<Rightarrow> (case c of CmpLt \<Rightarrow> ''cmp_lt'' | CmpLe \<Rightarrow> ''cmp_le'' | CmpGt \<Rightarrow> ''cmp_gt''
                 | CmpGe \<Rightarrow> ''cmp_ge'' | CmpEq \<Rightarrow> ''cmp_eq'' | CmpNe \<Rightarrow> ''cmp_ne'')
   | LocalSet slot _ \<Rightarrow> ''local_set '' @ write_u32 (ucast slot)
   | LocalGet slot _ \<Rightarrow> ''local_get '' @ write_u32 (ucast slot)
   | Cast _ to \<Rightarrow> ''cast '' @ type_atom w to
   | Bitcast _ to \<Rightarrow> ''bitcast '' @ type_atom w to
   | Call name _ _ _ _ \<Rightarrow> ''call '' @ name
   | Load ty \<Rightarrow> ''load '' @ type_atom w ty
   | Store ty \<Rightarrow> ''store '' @ type_atom w ty
   | TrapIfFalse c \<Rightarrow> ''trap_if_false '' @ trap_text c
   | Br t \<Rightarrow> ''br b'' @ write_u32 (ucast t)
   | BrIf t e \<Rightarrow> ''br_if b'' @ write_u32 (ucast t) @ '' b'' @ write_u32 (ucast e)
   | Ret \<Rightarrow> ''ret''
   | _ \<Rightarrow> write_vol w k)"

section \<open>Words and modules\<close>

definition nl :: string where "nl = [CHR 0x0A]"

definition write_block :: "word_ir \<Rightarrow> block \<Rightarrow> string" where
  "write_block w b =
     ''  block b'' @ write_u32 (ucast (bid b)) @ '' ('' @ write_types w (entry_stack b) @ '')'' @ nl
     @ concat (map (\<lambda>x. ''    '' @ write_op w (kind x) @ nl) (ops b))"

definition write_word :: "word_ir \<Rightarrow> string" where
  "write_word w = ''word '' @ w_name w @ '' '' @ write_sig w (w_sig w) @ nl
     @ concat (map (write_block w) (blocks w))"

definition write_word_ops :: "word_ir \<Rightarrow> string" where
  "write_word_ops w = concat (map (\<lambda>b.
     ''block b'' @ write_u32 (ucast (bid b)) @ nl
     @ concat (map (\<lambda>x. write_op w (kind x) @ nl) (ops b))) (blocks w))"

definition write_aperture :: "aperture_use \<Rightarrow> string" where
  "write_aperture wu =
     ''aperture '' @ write_u32 (ucast (au_id wu)) @ '' '' @ au_name wu @ '' ''
     @ (case au_kind wu of AK_Bus \<Rightarrow> ''bus'' | AK_Emulated \<Rightarrow> ''emulated'') @ '' bind=''
     @ (case au_bind wu of BK_None \<Rightarrow> ''none''
        | BK_ArmThumbLdrLiteral \<Rightarrow> ''arm-thumb-ldr-literal''
        | BK_RiscVHi20Lo12 \<Rightarrow> ''riscv-hi20-lo12'') @ '' ''
     @ (case au_base wu of Some base \<Rightarrow> ''0x'' @ write_u64_hex base | None \<Rightarrow> ''link'')
     @ '' 0x'' @ write_u32_hex (au_size wu) @ nl"

definition FORMAT_VER :: u32 where "FORMAT_VER = 6"

definition write_module :: "module_ir \<Rightarrow> string" where
  "write_module m =
     ''format_ver '' @ write_u32 FORMAT_VER @ nl @ ''module '' @ m_name m @ nl
     @ ''apertures '' @ write_u32 (word_of_nat (length (m_apertures m))) @ nl
     @ concat (map write_aperture (m_apertures m)) @ concat (map write_word (m_words m))"

section \<open>The version gate\<close>

text \<open>\<open>str::trim_end\<close> on UTF-8 bytes: the encodings of the characters with the
  Unicode property White_Space.\<close>

definition white_space :: "string list" where
  "white_space =
     [[CHR 0x09], [CHR 0x0A], [CHR 0x0B], [CHR 0x0C], [CHR 0x0D], [CHR 0x20],
      [CHR 0xC2, CHR 0x85], [CHR 0xC2, CHR 0xA0], [CHR 0xE1, CHR 0x9A, CHR 0x80],
      [CHR 0xE2, CHR 0x80, CHR 0x80], [CHR 0xE2, CHR 0x80, CHR 0x81],
      [CHR 0xE2, CHR 0x80, CHR 0x82], [CHR 0xE2, CHR 0x80, CHR 0x83],
      [CHR 0xE2, CHR 0x80, CHR 0x84], [CHR 0xE2, CHR 0x80, CHR 0x85],
      [CHR 0xE2, CHR 0x80, CHR 0x86], [CHR 0xE2, CHR 0x80, CHR 0x87],
      [CHR 0xE2, CHR 0x80, CHR 0x88], [CHR 0xE2, CHR 0x80, CHR 0x89],
      [CHR 0xE2, CHR 0x80, CHR 0x8A], [CHR 0xE2, CHR 0x80, CHR 0xA8],
      [CHR 0xE2, CHR 0x80, CHR 0xA9], [CHR 0xE2, CHR 0x80, CHR 0xAF],
      [CHR 0xE2, CHR 0x81, CHR 0x9F], [CHR 0xE3, CHR 0x80, CHR 0x80]]"

fun trim_loop :: "nat \<Rightarrow> string \<Rightarrow> string" where
  "trim_loop 0 s = s"
| "trim_loop (Suc n) s =
    (case find (ends_with s) white_space of
       Some p \<Rightarrow> trim_loop n (take (length s - length p) s)
     | None \<Rightarrow> s)"

definition trim_end :: "string \<Rightarrow> string" where "trim_end s = trim_loop (length s) s"

definition is_digit :: "char \<Rightarrow> bool" where
  "is_digit c = (48 \<le> (of_char c :: int) \<and> (of_char c :: int) \<le> 57)"

definition digits_value :: "string \<Rightarrow> int" where
  "digits_value s = foldl (\<lambda>v c. v * 10 + (of_char c - 48)) 0 s"

text \<open>\<open>str::parse::<u32>\<close>: an optional plus sign, then at least one decimal digit,
  without overflow.\<close>

definition parse_u32 :: "string \<Rightarrow> u32 option" where
  "parse_u32 s =
    (let ds = (case s of c # cs \<Rightarrow> if c = CHR ''+'' then cs else s | [] \<Rightarrow> s)
     in if ds \<noteq> [] \<and> list_all is_digit ds \<and> digits_value ds < 2 ^ 32
        then Some (word_of_int (digits_value ds)) else None)"

text \<open>The error carries the version found, if any. A rest that is not UTF-8 and a
  rest that is not a number give the same error, so the separate UTF-8 check
  of the source has no branch of its own: what is left after trimming is not
  all digits in either case.\<close>

definition strip_prefix :: "string \<Rightarrow> string \<Rightarrow> string option" where
  "strip_prefix p s = (if starts_with s p then Some (drop (length p) s) else None)"

definition check_format_ver :: "string \<Rightarrow> u32 option + unit" where
  "check_format_ver artifact =
    (let first_line = takeWhile (\<lambda>c. c \<noteq> CHR 0x0A) artifact in
     case strip_prefix ''format_ver '' first_line of
       None \<Rightarrow> Inl None
     | Some rest \<Rightarrow>
         (case parse_u32 (trim_end rest) of
            None \<Rightarrow> Inl None
          | Some found \<Rightarrow> if found = FORMAT_VER then Inr () else Inl (Some found)))"

section \<open>Properties of the printer\<close>

lemma of_char_digit [simp]:
  assumes "0 \<le> d" "d < 10"
  shows "(of_char (digit_char d) :: int) = 48 + d"
proof -
  have "(of_char (char_of (48 + d) :: char) :: int) = (48 + d) mod 256"
    by (simp add: of_char_of)
  with assms show ?thesis by (simp add: digit_char_def)
qed

lemma digits_value_snoc: "digits_value (s @ [c]) = digits_value s * 10 + (of_char c - 48)"
  by (simp add: digits_value_def)

lemma digit_loop_digits: "list_all is_digit (digit_loop n 10 v)"
  by (induction n arbitrary: v) (auto simp: is_digit_def)

lemma digit_loop_value:
  "0 \<le> v \<Longrightarrow> v < 10 ^ n \<Longrightarrow> digits_value (rev (digit_loop n 10 v)) = v"
proof (induction n arbitrary: v)
  case 0
  then show ?case by (simp add: digits_value_def)
next
  case (Suc n)
  show ?case
  proof (cases "0 < v")
    case True
    have "v div 10 < 10 ^ n" using Suc.prems(2) by (simp add: div_less_iff_less_mult mult.commute)
    with True have "digits_value (rev (digit_loop n 10 (v div 10))) = v div 10"
      by (intro Suc.IH) simp_all
    with True show ?thesis by (simp add: digits_value_snoc)
  next
    case False
    with Suc.prems show ?thesis by (simp add: digits_value_def)
  qed
qed

lemma digit_loop_nonempty: "0 < v \<Longrightarrow> digit_loop (Suc n) 10 v \<noteq> []"
  by simp

lemma digit_not_plus: "is_digit c \<Longrightarrow> c \<noteq> CHR ''+''"
  by (auto simp: is_digit_def)

lemma parse_u32_digits:
  assumes "list_all is_digit ds" "ds \<noteq> []" "digits_value ds < 2 ^ 32"
  shows "parse_u32 ds = Some (word_of_int (digits_value ds))"
proof -
  obtain c cs where "ds = c # cs" using assms(2) by (cases ds) auto
  with assms digit_not_plus [of c] show ?thesis by (simp add: parse_u32_def)
qed

lemma uint_u32_bounds: "0 \<le> uint (v::u32)" "uint v < 4294967296"
  using uint_lt2p [of v] by simp_all

text \<open>the decimal printer is inverted by Rust's \<open>u32\<close> parser, for every value.\<close>

theorem parse_write_u32: "parse_u32 (write_u32 v) = Some v"
proof (cases "v = 0")
  case True
  then show ?thesis by (simp add: write_u32_def parse_u32_def is_digit_def digits_value_def)
next
  case False
  let ?ds = "rev (digit_loop 10 10 (uint v))"
  have pos: "0 < uint v" using False by (simp add: word_less_def [symmetric] word_gt_0 uint_0_iff order.strict_iff_order)
  have val: "digits_value ?ds = uint v"
    by (rule digit_loop_value) (use uint_u32_bounds [of v] in simp_all)
  have "?ds \<noteq> []" using digit_loop_nonempty [OF pos, of 9] by simp
  then have "parse_u32 ?ds = Some (word_of_int (digits_value ?ds))"
    by (intro parse_u32_digits) (use val uint_u32_bounds [of v] digit_loop_digits in \<open>simp_all add: list_all_rev\<close>)
  with val False show ?thesis by (simp add: write_u32_def)
qed

text \<open>every module text the printer emits passes the version gate that each
  reader of the format must apply first.\<close>

theorem write_module_passes_gate: "check_format_ver (write_module m) = Inr ()"
proof -
  have "write_u32 FORMAT_VER = ''6''"
    by code_simp
  moreover have "trim_end ''6'' = ''6''"
    by (simp add: trim_end_def white_space_def ends_with_def)
  moreover have "parse_u32 ''6'' = Some 6"
    by (simp add: parse_u32_def is_digit_def digits_value_def)
  ultimately show ?thesis
    by (simp add: write_module_def nl_def check_format_ver_def strip_prefix_def starts_with_def
        FORMAT_VER_def)
qed

text \<open>the printer and the semantics table name every op alike: the first
  token of the printed op is the table's mnemonic.\<close>

theorem write_op_mnemonic:
  "takeWhile (\<lambda>c. c \<noteq> CHR '' '') (write_op w k) = mnemonic (semantics_row k)"
  by (cases k) (auto simp: write_op_def write_vol_def sem_row_defs split: cmp_kind.splits)

end
