(* ===== verification/SrcInterp.thy ===== *)
theory SrcInterp
  imports IrText
begin

text \<open>
  The concrete semantics of the pure fragment, crates/verifier/src/src_interp.rs:
  the fragment ops and their text form, the transcription into IR ops, the
  recorded memory with its load and device oracles, the source-side run
  (\<open>run_block\<close>, \<open>run_word\<close>) and the IR-side run (\<open>ir_step\<close>, \<open>ir_run_word\<close>). A value
  stack is a list whose head is the top of the source's \<open>Vec\<close>.
\<close>

section \<open>Fragment ops\<close>

datatype src_op = SConstInt i64 | SConstBool bool | SDup | SDrop | SSwap | SAdd | SSub | SMul
  | SCmpLt | SCmpLe | SCmpGt | SCmpGe | SCmpEq | SCmpNe | SAndB | SOrB | SNotB
  | SLoad | SStore | SVolLoad | SVolStore | SLocalGet u16 | SLocalSet u16
  | SBr nat | SBrIf nat nat | SRet

fun src_mnemonic :: "src_op \<Rightarrow> string" where
  "src_mnemonic (SConstInt _) = ''const_i64''"
| "src_mnemonic (SConstBool _) = ''const_bool''"
| "src_mnemonic SDup = ''dup''"
| "src_mnemonic SDrop = ''drop''"
| "src_mnemonic SSwap = ''swap''"
| "src_mnemonic SAdd = ''add_i64''"
| "src_mnemonic SSub = ''sub_i64''"
| "src_mnemonic SMul = ''mul_i64''"
| "src_mnemonic SCmpLt = ''cmp_lt''"
| "src_mnemonic SCmpLe = ''cmp_le''"
| "src_mnemonic SCmpGt = ''cmp_gt''"
| "src_mnemonic SCmpGe = ''cmp_ge''"
| "src_mnemonic SCmpEq = ''cmp_eq''"
| "src_mnemonic SCmpNe = ''cmp_ne''"
| "src_mnemonic SAndB = ''and_bool''"
| "src_mnemonic SOrB = ''or_bool''"
| "src_mnemonic SNotB = ''not_bool''"
| "src_mnemonic SLoad = ''load''"
| "src_mnemonic SStore = ''store''"
| "src_mnemonic SVolLoad = ''vol_load''"
| "src_mnemonic SVolStore = ''vol_store''"
| "src_mnemonic (SLocalGet _) = ''local_get''"
| "src_mnemonic (SLocalSet _) = ''local_set''"
| "src_mnemonic (SBr _) = ''br''"
| "src_mnemonic (SBrIf _ _) = ''br_if''"
| "src_mnemonic SRet = ''ret''"

text \<open>\<open>transcribe\<close>: block indices are cut to 16 bits.\<close>

fun transcribe :: "src_op \<Rightarrow> op_kind" where
  "transcribe (SConstInt v) = ConstI64 v"
| "transcribe (SConstBool b) = ConstBool b"
| "transcribe SDup = Dup 0"
| "transcribe SDrop = Drop 0"
| "transcribe SSwap = Swap 0 0"
| "transcribe SAdd = AddI64"
| "transcribe SSub = SubI64"
| "transcribe SMul = MulI64"
| "transcribe SCmpLt = Cmp 1 CmpLt"
| "transcribe SCmpLe = Cmp 1 CmpLe"
| "transcribe SCmpGt = Cmp 1 CmpGt"
| "transcribe SCmpGe = Cmp 1 CmpGe"
| "transcribe SCmpEq = Cmp 1 CmpEq"
| "transcribe SCmpNe = Cmp 1 CmpNe"
| "transcribe SAndB = AndBool"
| "transcribe SOrB = OrBool"
| "transcribe SNotB = NotBool"
| "transcribe SLoad = Load 0"
| "transcribe SStore = Store 0"
| "transcribe SVolLoad = MmioVolLoad 0 ''dev'' RK_Plain 64 BA_None"
| "transcribe SVolStore = MmioVolStore 0 ''dev'' WK_Plain RK_Plain 64 BA_None"
| "transcribe (SLocalGet slot) = LocalGet slot 0"
| "transcribe (SLocalSet slot) = LocalSet slot 0"
| "transcribe (SBr t) = Br (word_of_nat t)"
| "transcribe (SBrIf t e) = BrIf (word_of_nat t) (word_of_nat e)"
| "transcribe SRet = Ret"

section \<open>The concrete memory and state\<close>

record cmem =
  cells :: "(i64 \<times> i64) list"
  load_oracle :: i64
  mmio_oracle :: i64

definition record_store :: "cmem \<Rightarrow> i64 \<Rightarrow> i64 \<Rightarrow> cmem" where
  "record_store m addr v = m\<lparr>cells := (addr, v) # filter (\<lambda>(a, _). a \<noteq> addr) (cells m)\<rparr>"

definition mem_load :: "cmem \<Rightarrow> i64 \<Rightarrow> i64" where
  "mem_load m addr = (case map_of (cells m) addr of Some v \<Rightarrow> v | None \<Rightarrow> load_oracle m)"

record cstate =
  cstack :: "i64 list"
  clocals :: "i64 list"

definition cpush :: "i64 \<Rightarrow> cstate \<Rightarrow> cstate" where
  "cpush v s = s\<lparr>cstack := v # cstack s\<rparr>"

text \<open>\<open>pop\<close> with the default 0 on an empty stack.\<close>

definition cpop :: "cstate \<Rightarrow> i64 \<times> cstate" where
  "cpop s = (case cstack s of [] \<Rightarrow> (0, s) | v # vs \<Rightarrow> (v, s\<lparr>cstack := vs\<rparr>))"

definition ctop :: "cstate \<Rightarrow> i64" where
  "ctop s = (case cstack s of [] \<Rightarrow> 0 | v # _ \<Rightarrow> v)"

definition cbin :: "(i64 \<Rightarrow> i64 \<Rightarrow> i64) \<Rightarrow> cstate \<Rightarrow> cstate" where
  "cbin f s = (let (b, s) = cpop s; (a, s) = cpop s in cpush (f a b) s)"

definition w_add :: "i64 \<Rightarrow> i64 \<Rightarrow> i64" where "w_add a b = wrap_i64 (a + b)"
definition w_sub :: "i64 \<Rightarrow> i64 \<Rightarrow> i64" where "w_sub a b = wrap_i64 (a - b)"
definition w_mul :: "i64 \<Rightarrow> i64 \<Rightarrow> i64" where "w_mul a b = wrap_i64 (a * b)"

definition bool_val :: "bool \<Rightarrow> i64" where "bool_val b = (if b then 1 else 0)"

definition local_get :: "u16 \<Rightarrow> cstate \<Rightarrow> cstate" where
  "local_get slot s =
     cpush (case get (clocals s) (unat slot) of Some v \<Rightarrow> v | None \<Rightarrow> 0) s"

definition local_set :: "u16 \<Rightarrow> cstate \<Rightarrow> cstate" where
  "local_set slot s = (let (v, s) = cpop s in
     if unat slot < length (clocals s) then s\<lparr>clocals := (clocals s)[unat slot := v]\<rparr> else s)"

section \<open>The source side\<close>

fun src_cmp :: "src_op \<Rightarrow> i64 \<Rightarrow> i64 \<Rightarrow> bool" where
  "src_cmp SCmpLt a b = (a < b)"
| "src_cmp SCmpLe a b = (a \<le> b)"
| "src_cmp SCmpGt a b = (a > b)"
| "src_cmp SCmpGe a b = (a \<ge> b)"
| "src_cmp SCmpEq a b = (a = b)"
| "src_cmp SCmpNe a b = (a \<noteq> b)"
| "src_cmp _ a b = False"

definition step_data :: "cmem \<Rightarrow> src_op \<Rightarrow> cstate \<Rightarrow> cmem \<times> cstate" where
  "step_data m x s = (case x of
     SConstInt v \<Rightarrow> (m, cpush v s)
   | SConstBool b \<Rightarrow> (m, cpush (if b then 1 else 0) s)
   | SDup \<Rightarrow> (m, cpush (ctop s) s)
   | SDrop \<Rightarrow> (m, snd (cpop s))
   | SSwap \<Rightarrow> (let (b, s) = cpop s; (a, s) = cpop s in (m, cpush a (cpush b s)))
   | SAdd \<Rightarrow> (m, cbin w_add s)
   | SSub \<Rightarrow> (m, cbin w_sub s)
   | SMul \<Rightarrow> (m, cbin w_mul s)
   | SAndB \<Rightarrow> (m, cbin (\<lambda>a b. bool_val (a \<noteq> 0 \<and> b \<noteq> 0)) s)
   | SOrB \<Rightarrow> (m, cbin (\<lambda>a b. bool_val (a \<noteq> 0 \<or> b \<noteq> 0)) s)
   | SNotB \<Rightarrow> (let (a, s) = cpop s in (m, cpush (bool_val (a = 0)) s))
   | SLoad \<Rightarrow> (let (addr, s) = cpop s in (m, cpush (mem_load m addr) s))
   | SStore \<Rightarrow> (let (v, s) = cpop s; (addr, s) = cpop s in (record_store m addr v, s))
   | SVolLoad \<Rightarrow> (let (_, s) = cpop s in (m, cpush (mmio_oracle m) s))
   | SVolStore \<Rightarrow> (let (_, s) = cpop s; (_, s) = cpop s in (m, s))
   | SLocalGet slot \<Rightarrow> (m, local_get slot s)
   | SLocalSet slot \<Rightarrow> (m, local_set slot s)
   | SBr _ \<Rightarrow> (m, s)
   | SBrIf _ _ \<Rightarrow> (m, s)
   | SRet \<Rightarrow> (m, s)
   | _ \<Rightarrow> (m, cbin (\<lambda>a b. bool_val (src_cmp x a b)) s))"

datatype block_end = EndRet cstate | EndGo nat cstate | EndBrIf nat nat i64 cstate | EndTrap

fun run_block :: "cmem \<Rightarrow> src_op list \<Rightarrow> cstate \<Rightarrow> cmem \<times> block_end" where
  "run_block m [] s = (m, EndRet s)"
| "run_block m (SRet # xs) s = (m, EndRet s)"
| "run_block m (SBr t # xs) s = (m, EndGo t s)"
| "run_block m (SBrIf t e # xs) s = (let (cond, s) = cpop s in (m, EndBrIf t e cond s))"
| "run_block m (x # xs) s = (let (m, s) = step_data m x s in run_block m xs s)"

fun run_word :: "src_op list list \<Rightarrow> nat \<Rightarrow> nat \<Rightarrow> cmem \<Rightarrow> cstate \<Rightarrow> cstate option" where
  "run_word bs ent 0 m s = None"
| "run_word bs ent (Suc fuel) m s =
    (let xs = (case get bs ent of Some b \<Rightarrow> b | None \<Rightarrow> []) in
     case run_block m xs s of
       (m1, EndRet s1) \<Rightarrow> Some s1
     | (m1, EndGo t s1) \<Rightarrow> run_word bs t fuel m1 s1
     | (m1, EndBrIf t e cond s1) \<Rightarrow>
         if cond \<noteq> 0 then run_word bs t fuel m1 s1 else run_word bs e fuel m1 s1
     | (m1, EndTrap) \<Rightarrow> None)"

section \<open>The IR side\<close>

text \<open>\<open>ir_step\<close>: the concrete step of an IR op; the ops outside the fragment
  leave the state alone.\<close>

definition ir_step :: "cmem \<Rightarrow> op_kind \<Rightarrow> cstate \<Rightarrow> cmem \<times> cstate" where
  "ir_step m k s = (case k of
     ConstI64 v \<Rightarrow> (m, cpush v s)
   | ConstBool b \<Rightarrow> (m, cpush (if b then 1 else 0) s)
   | Dup _ \<Rightarrow> (m, cpush (ctop s) s)
   | Drop _ \<Rightarrow> (m, snd (cpop s))
   | Swap _ _ \<Rightarrow> (let (b, s) = cpop s; (a, s) = cpop s in (m, cpush a (cpush b s)))
   | AddI64 \<Rightarrow> (m, cbin w_add s)
   | SubI64 \<Rightarrow> (m, cbin w_sub s)
   | MulI64 \<Rightarrow> (m, cbin w_mul s)
   | Cmp _ c \<Rightarrow> (m, cbin (\<lambda>a b. bool_val (case c of CmpLt \<Rightarrow> a < b | CmpLe \<Rightarrow> a \<le> b
       | CmpGt \<Rightarrow> a > b | CmpGe \<Rightarrow> a \<ge> b | CmpEq \<Rightarrow> a = b | CmpNe \<Rightarrow> a \<noteq> b)) s)
   | AndBool \<Rightarrow> (m, cbin (\<lambda>a b. bool_val (a \<noteq> 0 \<and> b \<noteq> 0)) s)
   | OrBool \<Rightarrow> (m, cbin (\<lambda>a b. bool_val (a \<noteq> 0 \<or> b \<noteq> 0)) s)
   | NotBool \<Rightarrow> (let (a, s) = cpop s in (m, cpush (bool_val (a = 0)) s))
   | Load _ \<Rightarrow> (let (addr, s) = cpop s in (m, cpush (mem_load m addr) s))
   | Store _ \<Rightarrow> (let (v, s) = cpop s; (addr, s) = cpop s in (record_store m addr v, s))
   | MmioVolLoad _ _ _ _ _ \<Rightarrow> (let (_, s) = cpop s in (m, cpush (mmio_oracle m) s))
   | MmioVolStore _ _ _ _ _ _ \<Rightarrow> (let (_, s) = cpop s; (_, s) = cpop s in (m, s))
   | LocalGet slot _ \<Rightarrow> (m, local_get slot s)
   | LocalSet slot _ \<Rightarrow> (m, local_set slot s)
   | _ \<Rightarrow> (m, s))"

text \<open>The op loop of \<open>ir_run_word\<close>: the control ops are skipped wherever they
  stand, and the block is routed by its last op.\<close>

fun ir_run_ops :: "cmem \<Rightarrow> op_kind list \<Rightarrow> cstate \<Rightarrow> cmem \<times> cstate" where
  "ir_run_ops m [] s = (m, s)"
| "ir_run_ops m (k # ks) s =
    (if is_terminator k then ir_run_ops m ks s
     else (let (m, s) = ir_step m k s in ir_run_ops m ks s))"

fun ir_run_word :: "src_op list list \<Rightarrow> nat \<Rightarrow> nat \<Rightarrow> cmem \<Rightarrow> cstate \<Rightarrow> cstate option" where
  "ir_run_word bs ent 0 m s = None"
| "ir_run_word bs ent (Suc fuel) m s =
    (let ks = (case get bs ent of Some b \<Rightarrow> map transcribe b | None \<Rightarrow> []);
         (m, s) = ir_run_ops m ks s
     in if ks = [] then Some s
        else (case last ks of
            Ret \<Rightarrow> Some s
          | Br t \<Rightarrow> ir_run_word bs (unat t) fuel m s
          | BrIf t e \<Rightarrow>
              (let (cond, s) = cpop s in
               if cond \<noteq> 0 then ir_run_word bs (unat t) fuel m s
               else ir_run_word bs (unat e) fuel m s)
          | _ \<Rightarrow> Some s))"

definition trace_agrees :: "src_op list list \<Rightarrow> nat \<Rightarrow> nat \<Rightarrow> cmem \<Rightarrow> cstate \<Rightarrow> bool" where
  "trace_agrees bs ent fuel m s =
    (case (run_word bs ent fuel m s, ir_run_word bs ent fuel m s) of
       (Some a, Some b) \<Rightarrow> cstack a = cstack b \<and> clocals a = clocals b
     | (None, None) \<Rightarrow> True
     | _ \<Rightarrow> False)"

end
