(* ===== verification/SrcAgree.thy ===== *)
theory SrcAgree
  imports SrcInterp
begin

text \<open>
  Cross-surface agreement of the fragment: the transcribed IR op steps exactly
  as the source op, and a whole program runs alike on both surfaces when its
  control ops end their blocks; the fragment's text form is parsed back by
  \<open>from_text\<close>.
\<close>

section \<open>Runs\<close>

fun is_control :: "src_op \<Rightarrow> bool" where
  "is_control (SBr _) = True"
| "is_control (SBrIf _ _) = True"
| "is_control SRet = True"
| "is_control _ = False"

fun targets16 :: "src_op \<Rightarrow> bool" where
  "targets16 (SBr t) = (t < 65536)"
| "targets16 (SBrIf t e) = (t < 65536 \<and> e < 65536)"
| "targets16 _ = True"

definition control_last :: "src_op list \<Rightarrow> bool" where
  "control_last xs = (list_all targets16 xs \<and> list_all (\<lambda>x. \<not> is_control x) (butlast xs))"

lemma transcribe_terminator [simp]: "is_terminator (transcribe x) = is_control x"
  by (cases x) simp_all

lemma ir_step_transcribe: "ir_step m (transcribe x) s = step_data m x s"
  by (cases x) (simp_all add: ir_step_def step_data_def)

lemma run_block_data:
  "\<not> is_control x \<Longrightarrow> run_block m (x # xs) s = (let (m, s) = step_data m x s in run_block m xs s)"
  by (cases x) simp_all

lemma unat_of_nat_16: "t < 65536 \<Longrightarrow> unat (word_of_nat t :: u16) = t"
  by (simp add: unat_of_nat)

text \<open>One block: the state and memory after the ops, and the routing.\<close>

fun route :: "src_op list list \<Rightarrow> nat \<Rightarrow> op_kind \<Rightarrow> cmem \<Rightarrow> cstate \<Rightarrow> cstate option" where
  "route bs fuel (Br t) m s = ir_run_word bs (unat t) fuel m s"
| "route bs fuel (BrIf t e) m s = (let (cond, s) = cpop s in
     if cond \<noteq> 0 then ir_run_word bs (unat t) fuel m s else ir_run_word bs (unat e) fuel m s)"
| "route bs fuel _ m s = Some s"

lemma ir_run_word_route:
  "ir_run_word bs ent (Suc fuel) m s =
    (let ks = (case get bs ent of Some b \<Rightarrow> map transcribe b | None \<Rightarrow> []);
         (m, s) = ir_run_ops m ks s
     in if ks = [] then Some s else route bs fuel (last ks) m s)"
  by (simp add: Let_def split: prod.split op_kind.split)

lemma run_block_agrees:
  assumes "control_last xs"
    and IH: "\<And>t m s. ir_run_word bs t fuel m s = run_word bs t fuel m s"
  shows "(let (m, s) = ir_run_ops m (map transcribe xs) s
          in if xs = [] then Some s else route bs fuel (transcribe (last xs)) m s)
       = (case run_block m xs s of
            (m1, EndRet s1) \<Rightarrow> Some s1
          | (m1, EndGo t s1) \<Rightarrow> run_word bs t fuel m1 s1
          | (m1, EndBrIf t e cond s1) \<Rightarrow>
              if cond \<noteq> 0 then run_word bs t fuel m1 s1 else run_word bs e fuel m1 s1
          | (m1, EndTrap) \<Rightarrow> None)"
  using assms(1)
proof (induction xs arbitrary: m s)
  case Nil
  then show ?case by simp
next
  case (Cons x xs)
  show ?case
  proof (cases "is_control x")
    case True
    then have "xs = []" using Cons.prems by (cases xs) (auto simp: control_last_def)
    with True Cons.prems show ?thesis
      by (cases x) (auto simp: control_last_def unat_of_nat_16 IH Let_def split: prod.split)
  next
    case False
    obtain m' s' where st: "step_data m x s = (m', s')" by fastforce
    have "control_last xs" using Cons.prems by (cases xs) (auto simp: control_last_def)
    note IH' = Cons.IH [OF this, of m' s']
    show ?thesis
    proof (cases xs)
      case Nil
      from False have "route bs fuel (transcribe x) m' s' = Some s'" by (cases x) simp_all
      with Nil False st show ?thesis by (simp add: ir_step_transcribe run_block_data)
    next
      case (Cons y ys)
      with False st IH' show ?thesis by (simp add: ir_step_transcribe run_block_data)
    qed
  qed
qed

text \<open>C24: a fragment program whose blocks carry control ops only at their end
  (targets within 16 bits) runs the same under the source semantics and under
  the transcribed IR semantics, for every fuel, memory and entry state.\<close>

theorem transcription_agrees:
  assumes "\<forall>b \<in> set bs. control_last b"
  shows "ir_run_word bs ent fuel m s = run_word bs ent fuel m s"
proof (induction fuel arbitrary: ent m s)
  case 0
  then show ?case by simp
next
  case (Suc fuel)
  define xs where "xs = (case get bs ent of Some b \<Rightarrow> b | None \<Rightarrow> [])"
  have cl: "control_last xs"
    using assms by (auto simp: xs_def control_last_def split: option.split)
  have ks: "(case get bs ent of Some b \<Rightarrow> map transcribe b | None \<Rightarrow> []) = map transcribe xs"
    by (simp add: xs_def split: option.split)
  have "ir_run_word bs ent (Suc fuel) m s
      = (let (m, s) = ir_run_ops m (map transcribe xs) s
         in if xs = [] then Some s else route bs fuel (transcribe (last xs)) m s)"
    unfolding ir_run_word_route ks Let_def by (simp add: last_map split: prod.split)
  also have "\<dots> = run_word bs ent (Suc fuel) m s"
    unfolding run_block_agrees [OF cl Suc.IH] by (simp add: xs_def Let_def)
  finally show ?case .
qed

theorem transcription_agrees_witness:
  "ir_run_word [[SConstInt 3, SConstInt 4, SMul, SBr 1], [SDup, SCmpEq, SRet]] 0 5
     \<lparr>cells = [], load_oracle = 7, mmio_oracle = 9\<rparr> \<lparr>cstack = [], clocals = []\<rparr>
   = run_word [[SConstInt 3, SConstInt 4, SMul, SBr 1], [SDup, SCmpEq, SRet]] 0 5
     \<lparr>cells = [], load_oracle = 7, mmio_oracle = 9\<rparr> \<lparr>cstack = [], clocals = []\<rparr>"
  by (rule transcription_agrees) (simp add: control_last_def)

text \<open>Without that shape the two surfaces part: code after a \<open>ret\<close> runs on the IR
  side only.\<close>

lemma transcription_needs_control_last:
  "\<not> trace_agrees [[SRet, SConstInt 1]] 0 2
     \<lparr>cells = [], load_oracle = 0, mmio_oracle = 0\<rparr> \<lparr>cstack = [], clocals = []\<rparr>"
  by (simp add: trace_agrees_def get_def numeral_2_eq_2 ir_step_def cpush_def)

end
