(* ===== verification/SrcText.thy ===== *)
theory SrcText
  imports SrcInterp
begin

text \<open>
  The fragment text surface of crates/verifier/src/src_interp.rs: one op line is
  printed by \<open>to_text\<close> and parsed by \<open>from_text\<close>, a program by \<open>blocks_to_text\<close> and
  \<open>blocks_from_text\<close>. A \<open>usize\<close> is a 64-bit unsigned number here.
\<close>

section \<open>Splitting, trimming and numbers\<close>

fun split_on :: "char \<Rightarrow> string \<Rightarrow> string list" where
  "split_on c [] = [[]]"
| "split_on c (x # xs) =
    (if x = c then [] # split_on c xs
     else (case split_on c xs of [] \<Rightarrow> [[x]] | w # ws \<Rightarrow> (x # w) # ws))"

fun trim_start_loop :: "nat \<Rightarrow> string \<Rightarrow> string" where
  "trim_start_loop 0 s = s"
| "trim_start_loop (Suc n) s =
    (case find (starts_with s) white_space of
       Some p \<Rightarrow> trim_start_loop n (drop (length p) s)
     | None \<Rightarrow> s)"

definition trim :: "string \<Rightarrow> string" where
  "trim s = (let t = trim_end s in trim_start_loop (length t) t)"

definition parse_unsigned :: "int \<Rightarrow> string \<Rightarrow> int option" where
  "parse_unsigned lim s =
    (let ds = (case s of c # cs \<Rightarrow> if c = CHR ''+'' then cs else s | [] \<Rightarrow> s)
     in if ds \<noteq> [] \<and> list_all is_digit ds \<and> digits_value ds < lim
        then Some (digits_value ds) else None)"

definition parse_u16 :: "string \<Rightarrow> u16 option" where
  "parse_u16 s = map_option word_of_int (parse_unsigned (2 ^ 16) s)"

definition parse_usize :: "string \<Rightarrow> nat option" where
  "parse_usize s = map_option nat (parse_unsigned (2 ^ 64) s)"

definition parse_i64 :: "string \<Rightarrow> i64 option" where
  "parse_i64 s =
    (let (neg, ds) = (case s of
         c # cs \<Rightarrow> if c = CHR ''-'' then (True, cs) else if c = CHR ''+'' then (False, cs) else (False, s)
       | [] \<Rightarrow> (False, s));
         v = (if neg then - digits_value ds else digits_value ds)
     in if ds \<noteq> [] \<and> list_all is_digit ds \<and> in_i64 v then Some v else None)"

text \<open>Rust's \<open>Display\<close> of an unsigned number.\<close>

definition show_nat :: "nat \<Rightarrow> string" where
  "show_nat n = write_i64 (int n)"

section \<open>Op lines\<close>

fun to_text :: "src_op \<Rightarrow> string" where
  "to_text (SConstInt v) = ''const_i64 '' @ write_i64 v"
| "to_text (SConstBool b) = ''const_bool '' @ (if b then ''true'' else ''false'')"
| "to_text (SLocalGet slot) = ''local_get '' @ show_nat (unat slot)"
| "to_text (SLocalSet slot) = ''local_set '' @ show_nat (unat slot)"
| "to_text (SBr t) = ''br b'' @ show_nat t"
| "to_text (SBrIf t e) = ''br_if b'' @ show_nat t @ '' b'' @ show_nat e"
| "to_text x = src_mnemonic x"

definition block_id_tok :: "string \<Rightarrow> nat option" where
  "block_id_tok t = parse_usize (case strip_prefix ''b'' t of Some r \<Rightarrow> r | None \<Rightarrow> t)"

definition plain_ops :: "(string \<times> src_op) list" where
  "plain_ops =
    [(''dup'', SDup), (''drop'', SDrop), (''swap'', SSwap), (''add_i64'', SAdd),
     (''sub_i64'', SSub), (''mul_i64'', SMul), (''cmp_lt'', SCmpLt), (''cmp_le'', SCmpLe),
     (''cmp_gt'', SCmpGt), (''cmp_ge'', SCmpGe), (''cmp_eq'', SCmpEq), (''cmp_ne'', SCmpNe),
     (''and_bool'', SAndB), (''or_bool'', SOrB), (''not_bool'', SNotB), (''load'', SLoad),
     (''store'', SStore), (''vol_load'', SVolLoad), (''vol_store'', SVolStore), (''ret'', SRet)]"

definition from_tokens :: "string \<Rightarrow> string list \<Rightarrow> src_op option" where
  "from_tokens m rest =
    (if m = ''const_i64'' then
       (case rest of [v] \<Rightarrow> map_option SConstInt (parse_i64 v) | _ \<Rightarrow> None)
     else if m = ''const_bool'' then
       (if rest = [''true''] then Some (SConstBool True)
        else if rest = [''false''] then Some (SConstBool False) else None)
     else if m = ''local_get'' then
       (case rest of [n] \<Rightarrow> map_option SLocalGet (parse_u16 n) | _ \<Rightarrow> None)
     else if m = ''local_set'' then
       (case rest of [n] \<Rightarrow> map_option SLocalSet (parse_u16 n) | _ \<Rightarrow> None)
     else if m = ''br'' then
       (case rest of [t] \<Rightarrow> map_option SBr (block_id_tok t) | _ \<Rightarrow> None)
     else if m = ''br_if'' then
       (case rest of [t, e] \<Rightarrow> (case (block_id_tok t, block_id_tok e) of
            (Some t, Some e) \<Rightarrow> Some (SBrIf t e) | _ \<Rightarrow> None)
        | _ \<Rightarrow> None)
     else map_of plain_ops m)"

definition from_text :: "string \<Rightarrow> src_op option" where
  "from_text raw =
    (let line = trim raw in
     if line = [] then None
     else (case split_on (CHR '' '') line of m # rest \<Rightarrow> from_tokens m rest | [] \<Rightarrow> None))"

section \<open>Programs\<close>

definition blocks_to_text :: "src_op list list \<Rightarrow> string" where
  "blocks_to_text bs = concat (map (\<lambda>(i, xs).
      (if 0 < i then nl else []) @ ''block b'' @ show_nat i
      @ concat (map (\<lambda>x. nl @ to_text x) xs)) (enumerate 0 bs))"

text \<open>\<open>str::lines\<close>: the pieces between newlines, without an empty last piece (the
  carriage return of a line ending is white space, which \<open>trim\<close> removes).\<close>

definition text_lines :: "string \<Rightarrow> string list" where
  "text_lines s = (let ls = split_on (CHR 0x0A) s in if last ls = [] then butlast ls else ls)"

text \<open>The loop of \<open>blocks_from_text\<close>: finished blocks, the current one (\<open>None\<close> before
  the first header) and the next block id.\<close>

fun parse_lines :: "src_op list list \<Rightarrow> src_op list option \<Rightarrow> nat \<Rightarrow> string list
    \<Rightarrow> src_op list list option" where
  "parse_lines fin cur next [] = (case cur of None \<Rightarrow> None | Some c \<Rightarrow> Some (fin @ [c]))"
| "parse_lines fin cur next (raw # ls) =
    (let line = trim raw in
     if line = [] then parse_lines fin cur next ls
     else (case strip_prefix ''block b'' line of
         Some rest \<Rightarrow>
           (case parse_usize rest of
              None \<Rightarrow> None
            | Some i \<Rightarrow> if i \<noteq> next then None
                else parse_lines (case cur of None \<Rightarrow> fin | Some c \<Rightarrow> fin @ [c]) (Some [])
                       (next + 1) ls)
       | None \<Rightarrow>
           (case cur of None \<Rightarrow> None
            | Some c \<Rightarrow> (case from_text line of None \<Rightarrow> None
                | Some x \<Rightarrow> parse_lines fin (Some (c @ [x])) next ls))))"

definition blocks_from_text :: "string \<Rightarrow> src_op list list option" where
  "blocks_from_text s = parse_lines [] None 0 (text_lines s)"

section \<open>Round trip of an op line\<close>

definition plain_char :: "char \<Rightarrow> bool" where
  "plain_char c = (c \<noteq> CHR '' '' \<and> c \<noteq> CHR 0x0A \<and> (is_digit c \<or> c = CHR ''-''))"

lemma digit_plain: "is_digit c \<Longrightarrow> plain_char c"
  by (auto simp: plain_char_def is_digit_def)

lemma write_i64_plain: "list_all plain_char (write_i64 v)"
  using digit_loop_digits [of 24 "\<bar>v\<bar>"]
  by (auto simp: write_i64_def list_all_iff digit_plain plain_char_def is_digit_def)

lemma write_i64_nonempty: "write_i64 v \<noteq> []"
  by (simp add: write_i64_def numeral_eq_Suc)

lemma split_on_plain: "list_all (\<lambda>x. x \<noteq> c) xs \<Longrightarrow> split_on c xs = [xs]"
  by (induction xs) auto

lemma split_on_append:
  "list_all (\<lambda>x. x \<noteq> c) xs \<Longrightarrow> split_on c (xs @ c # ys) = xs # split_on c ys"
  by (induction xs) auto

lemma ends_with_last:
  "ends_with s p \<Longrightarrow> p \<noteq> [] \<Longrightarrow> s \<noteq> [] \<and> last s = last p"
  by (metis append_Nil2 append_take_drop_id drop_eq_Nil ends_with_def last_appendR list.size(3)
      le_zero_eq length_0_conv)

lemma trim_end_id:
  assumes "s \<noteq> []" "last s \<notin> last ` set white_space"
  shows "trim_end s = s"
proof -
  have "p \<noteq> []" if "p \<in> set white_space" for p using that by (auto simp: white_space_def)
  with assms(2) have "\<not> ends_with s p" if "p \<in> set white_space" for p
    using that ends_with_last by blast
  then have "find (ends_with s) white_space = None" by (simp add: find_None_iff)
  with assms(1) show ?thesis by (cases "length s") (simp_all add: trim_end_def)
qed

lemma starts_with_hd: "starts_with s p \<Longrightarrow> p \<noteq> [] \<Longrightarrow> s \<noteq> [] \<and> hd s = hd p"
  by (cases s; cases p) (auto simp: starts_with_def)

lemma trim_id:
  assumes "s \<noteq> []" "last s \<notin> last ` set white_space" "hd s \<notin> hd ` set white_space"
  shows "trim s = s"
proof -
  have "p \<noteq> []" if "p \<in> set white_space" for p using that by (auto simp: white_space_def)
  with assms(3) have "\<not> starts_with s p" if "p \<in> set white_space" for p
    using that starts_with_hd by blast
  then have "find (starts_with s) white_space = None" by (simp add: find_None_iff)
  then have "trim_start_loop (length s) s = s" by (cases "length s") simp_all
  with trim_end_id [OF assms(1,2)] show ?thesis by (simp add: trim_def)
qed

lemma abs_i64: "in_i64 v \<Longrightarrow> \<bar>v\<bar> < 10 ^ 24"
  by (auto simp: in_i64_def i64_simps abs_if)

lemma write_i64_digits:
  assumes "\<bar>v\<bar> < 10 ^ 24" "v \<noteq> 0"
  shows "digits_value (rev (digit_loop 24 10 \<bar>v\<bar>)) = \<bar>v\<bar>"
    "list_all is_digit (rev (digit_loop 24 10 \<bar>v\<bar>))" "rev (digit_loop 24 10 \<bar>v\<bar>) \<noteq> []"
  using assms digit_loop_value [of "\<bar>v\<bar>" 24] digit_loop_digits
    digit_loop_nonempty [of "\<bar>v\<bar>" 23]
  by (simp_all add: list_all_rev)

lemma parse_write_i64: "in_i64 v \<Longrightarrow> parse_i64 (write_i64 v) = Some v"
proof (cases "v = 0")
  case True
  then show ?thesis
    by (simp add: write_i64_def parse_i64_def is_digit_def digits_value_def in_i64_def i64_simps)
next
  case False
  assume v: "in_i64 v"
  define ds where "ds = rev (digit_loop 24 10 \<bar>v\<bar>)"
  have ds: "digits_value ds = \<bar>v\<bar>" "list_all is_digit ds" "ds \<noteq> []"
    using write_i64_digits [OF _ False] abs_i64 [OF v] by (simp_all add: ds_def)
  obtain c cs where c: "ds = c # cs" using ds(3) by (cases ds) auto
  have "c \<noteq> CHR ''-''" "c \<noteq> CHR ''+''" using ds(2) c by (auto simp: is_digit_def)
  with c ds v show ?thesis
    by (simp add: write_i64_def ds_def [symmetric] False parse_i64_def)
qed

lemma parse_show_nat:
  assumes "n < 2 ^ 64" "int n < lim"
  shows "parse_unsigned lim (show_nat n) = Some (int n)"
proof (cases "n = 0")
  case True
  with assms(2) show ?thesis
    by (simp add: show_nat_def write_i64_def parse_unsigned_def is_digit_def digits_value_def)
next
  case False
  have "int n < 2 ^ 64" using assms(1) by (simp flip: of_nat_power)
  then have v: "\<bar>int n\<bar> < 10 ^ 24" by simp
  define ds where "ds = rev (digit_loop 24 10 (int n))"
  have ds: "digits_value ds = int n" "list_all is_digit ds" "ds \<noteq> []"
    using write_i64_digits [OF v] False by (simp_all add: ds_def)
  obtain c cs where c: "ds = c # cs" using ds(3) by (cases ds) auto
  have "c \<noteq> CHR ''+''" using ds(2) c by (auto simp: is_digit_def)
  with c ds assms(2) False show ?thesis
    by (simp add: show_nat_def write_i64_def ds_def [symmetric] parse_unsigned_def)
qed

fun op_range :: "src_op \<Rightarrow> bool" where
  "op_range (SConstInt v) = in_i64 v"
| "op_range (SBr t) = (t < 2 ^ 64)"
| "op_range (SBrIf t e) = (t < 2 ^ 64 \<and> e < 2 ^ 64)"
| "op_range _ = True"

definition word_char :: "char \<Rightarrow> bool" where
  "word_char c = (c \<notin> last ` set white_space \<and> c \<notin> hd ` set white_space)"

lemma plain_word_char: "plain_char c \<Longrightarrow> word_char c"
  by (auto simp: plain_char_def word_char_def white_space_def is_digit_def)

lemma word_char_sep: "word_char c \<Longrightarrow> c \<noteq> CHR '' '' \<and> c \<noteq> CHR 0x0A"
  by (auto simp: word_char_def white_space_def)

lemma trim_word:
  assumes "s \<noteq> []" "word_char (hd s)" "word_char (last s)"
  shows "trim s = s"
  using trim_id [OF assms(1)] assms(2,3) by (simp add: word_char_def)

lemma word_chars [simp]:
  "word_char CHR ''a''" "word_char CHR ''b''" "word_char CHR ''c''" "word_char CHR ''d''"
  "word_char CHR ''e''" "word_char CHR ''f''" "word_char CHR ''g''" "word_char CHR ''h''"
  "word_char CHR ''i''" "word_char CHR ''j''" "word_char CHR ''k''" "word_char CHR ''l''"
  "word_char CHR ''m''" "word_char CHR ''n''" "word_char CHR ''o''" "word_char CHR ''p''"
  "word_char CHR ''q''" "word_char CHR ''r''" "word_char CHR ''s''" "word_char CHR ''t''"
  "word_char CHR ''u''" "word_char CHR ''v''" "word_char CHR ''w''" "word_char CHR ''x''"
  "word_char CHR ''y''" "word_char CHR ''z''" "word_char CHR ''_''" "word_char CHR ''0''"
  "word_char CHR ''1''" "word_char CHR ''2''" "word_char CHR ''3''" "word_char CHR ''4''"
  "word_char CHR ''5''" "word_char CHR ''6''" "word_char CHR ''7''" "word_char CHR ''8''"
  "word_char CHR ''9''"
  by (simp_all add: word_char_def white_space_def)

lemma word_no_space: "list_all word_char m \<Longrightarrow> list_all (\<lambda>x. x \<noteq> CHR '' '') m"
  by (induction m) (auto dest: word_char_sep)

lemma word_no_nl: "list_all word_char m \<Longrightarrow> list_all (\<lambda>x. x \<noteq> CHR 0x0A) m"
  by (induction m) (auto dest: word_char_sep)

lemma word_ends:
  assumes "list_all word_char m" "m \<noteq> []"
  shows "word_char (hd m)" "word_char (last m)"
  using assms by (simp_all add: list_all_iff)

lemma from_text_one:
  assumes "list_all word_char m" "list_all word_char p" "m \<noteq> []" "p \<noteq> []"
  shows "from_text (m @ CHR '' '' # p) = from_tokens m [p]"
proof -
  have "trim (m @ CHR '' '' # p) = m @ CHR '' '' # p"
    by (rule trim_word) (simp_all add: assms(3,4) word_ends [OF assms(1,3)] word_ends [OF assms(2,4)])
  moreover have "split_on (CHR '' '') (m @ CHR '' '' # p) = [m, p]"
    by (simp only: split_on_append [OF word_no_space [OF assms(1)]]
        split_on_plain [OF word_no_space [OF assms(2)]])
  ultimately show ?thesis using assms(3) by (simp add: from_text_def)
qed

lemma from_text_two:
  assumes "list_all word_char m" "list_all word_char p" "list_all word_char q" "m \<noteq> []" "q \<noteq> []"
  shows "from_text (m @ CHR '' '' # p @ CHR '' '' # q) = from_tokens m [p, q]"
proof -
  have "trim (m @ CHR '' '' # p @ CHR '' '' # q) = m @ CHR '' '' # p @ CHR '' '' # q"
    by (rule trim_word) (simp_all add: assms(4,5) word_ends [OF assms(1,4)] word_ends [OF assms(3,5)])
  moreover have "split_on (CHR '' '') (m @ CHR '' '' # p @ CHR '' '' # q) = [m, p, q]"
    by (simp only: split_on_append [OF word_no_space [OF assms(1)]]
        split_on_append [OF word_no_space [OF assms(2)]]
        split_on_plain [OF word_no_space [OF assms(3)]])
  ultimately show ?thesis using assms(4) by (simp add: from_text_def)
qed

lemma from_text_none:
  assumes "list_all word_char m" "m \<noteq> []"
  shows "from_text m = from_tokens m []"
proof -
  have "trim m = m" by (rule trim_word) (simp_all add: assms word_ends)
  moreover have "split_on (CHR '' '') m = [m]"
    by (rule split_on_plain [OF word_no_space [OF assms(1)]])
  ultimately show ?thesis using assms(2) by (simp add: from_text_def)
qed

lemma word_of_plain: "list_all plain_char s \<Longrightarrow> list_all word_char s"
  by (induction s) (simp_all add: plain_word_char)

lemma write_i64_word: "list_all word_char (write_i64 v)"
  by (rule word_of_plain [OF write_i64_plain])

lemma show_nat_plain: "list_all word_char (show_nat n)" "show_nat n \<noteq> []"
  unfolding show_nat_def by (rule write_i64_word, rule write_i64_nonempty)

lemma mnemonic_word: "list_all word_char (src_mnemonic x)" "src_mnemonic x \<noteq> []"
  by (cases x; simp)+

lemma plain_op_round_trip:
  assumes "to_text x = src_mnemonic x"
  shows "from_text (to_text x) = Some x"
proof -
  have "from_tokens (src_mnemonic x) [] = Some x"
    using assms by (cases x) (simp_all add: from_tokens_def plain_ops_def)
  then show ?thesis by (simp only: assms from_text_none [OF mnemonic_word])
qed

lemma block_id_tok_show:
  assumes "t < 2 ^ 64"
  shows "block_id_tok (CHR ''b'' # show_nat t) = Some t"
proof -
  have "int t < 2 ^ 64" using assms by (simp flip: of_nat_power)
  from parse_show_nat [OF assms this] show ?thesis
    by (simp add: block_id_tok_def strip_prefix_def starts_with_def parse_usize_def)
qed

lemma parse_u16_show: "parse_u16 (show_nat (unat v)) = Some v"
proof -
  have "unat v < 65536" using unsigned_less [where ?'a = nat and w = v] by simp
  moreover have "uint v < 65536" using uint_lt2p [of v] by simp
  ultimately have "parse_unsigned (2 ^ 16) (show_nat (unat v)) = Some (int (unat v))"
    by (intro parse_show_nat) simp_all
  then show ?thesis by (simp only: parse_u16_def) simp
qed

lemma op_line_round_trip:
  assumes "op_range x"
  shows "from_text (to_text x) = Some x"
proof (cases x)
  case (SConstInt v)
  have "from_text (''const_i64'' @ CHR '' '' # write_i64 v) = from_tokens ''const_i64'' [write_i64 v]"
    by (rule from_text_one) (simp_all add: write_i64_word write_i64_nonempty)
  with SConstInt assms show ?thesis by (simp add: from_tokens_def parse_write_i64)
next
  case (SConstBool b)
  have "from_text (''const_bool'' @ CHR '' '' # ''true'') = from_tokens ''const_bool'' [''true'']"
    "from_text (''const_bool'' @ CHR '' '' # ''false'') = from_tokens ''const_bool'' [''false'']"
    by (rule from_text_one; simp)+
  with SConstBool show ?thesis by (cases b) (simp_all add: from_tokens_def)
next
  case (SLocalGet slot)
  have "from_text (''local_get'' @ CHR '' '' # show_nat (unat slot))
      = from_tokens ''local_get'' [show_nat (unat slot)]"
    by (rule from_text_one) (simp_all add: show_nat_plain)
  with SLocalGet show ?thesis by (simp add: from_tokens_def parse_u16_show)
next
  case (SLocalSet slot)
  have "from_text (''local_set'' @ CHR '' '' # show_nat (unat slot))
      = from_tokens ''local_set'' [show_nat (unat slot)]"
    by (rule from_text_one) (simp_all add: show_nat_plain)
  with SLocalSet show ?thesis by (simp add: from_tokens_def parse_u16_show)
next
  case (SBr t)
  have "from_text (''br'' @ CHR '' '' # CHR ''b'' # show_nat t)
      = from_tokens ''br'' [CHR ''b'' # show_nat t]"
    by (rule from_text_one) (simp_all add: show_nat_plain)
  with SBr assms show ?thesis by (simp add: from_tokens_def block_id_tok_show)
next
  case (SBrIf t e)
  have "from_text (''br_if'' @ CHR '' '' # (CHR ''b'' # show_nat t) @ CHR '' '' # CHR ''b'' # show_nat e)
      = from_tokens ''br_if'' [CHR ''b'' # show_nat t, CHR ''b'' # show_nat e]"
    by (rule from_text_two) (simp_all add: show_nat_plain)
  with SBrIf assms show ?thesis by (simp add: from_tokens_def block_id_tok_show)
qed (rule plain_op_round_trip, simp)+

section \<open>Round trip of a program\<close>

definition line_ok :: "string \<Rightarrow> bool" where
  "line_ok l = (l \<noteq> [] \<and> word_char (hd l) \<and> word_char (last l) \<and> list_all (\<lambda>c. c \<noteq> CHR 0x0A) l)"

lemma to_text_line_ok: "line_ok (to_text x)"
  using word_no_nl [OF write_i64_word] word_no_nl [OF show_nat_plain(1)]
    word_ends [OF write_i64_word write_i64_nonempty] word_ends [OF show_nat_plain]
  by (cases x) (simp_all add: line_ok_def write_i64_nonempty show_nat_plain)

lemma header_line_ok: "line_ok (''block b'' @ show_nat i)"
  using word_no_nl [OF show_nat_plain(1)] word_ends [OF show_nat_plain]
  by (simp add: line_ok_def show_nat_plain)

lemma line_ok_trim: "line_ok l \<Longrightarrow> trim l = l"
  by (simp add: line_ok_def trim_word)

lemma to_text_no_header: "strip_prefix ''block b'' (to_text x) = None"
  by (cases x) (simp_all add: strip_prefix_def starts_with_def)

definition lines_of :: "nat \<Rightarrow> src_op list list \<Rightarrow> string list" where
  "lines_of n bs = concat (map (\<lambda>(i, xs). (''block b'' @ show_nat i) # map to_text xs) (enumerate n bs))"

fun join_nl :: "string list \<Rightarrow> string" where
  "join_nl [] = []"
| "join_nl (l # ls) = l @ concat (map (\<lambda>m. nl @ m) ls)"

lemma lines_of_Cons:
  "lines_of n (xs # bs) = (''block b'' @ show_nat n) # map to_text xs @ lines_of (Suc n) bs"
  by (simp add: lines_of_def)

lemma lines_of_ok: "l \<in> set (lines_of n bs) \<Longrightarrow> line_ok l"
  unfolding lines_of_def using to_text_line_ok header_line_ok by fastforce

lemma tail_text:
  "0 < n \<Longrightarrow> concat (map (\<lambda>m. nl @ m) (lines_of n bs))
    = concat (map (\<lambda>(i, xs). (if 0 < i then nl else []) @ ''block b'' @ show_nat i
        @ concat (map (\<lambda>x. nl @ to_text x) xs)) (enumerate n bs))"
proof (induction bs arbitrary: n)
  case (Cons xs bs)
  from Cons.IH [of "Suc n"] Cons.prems show ?case
    by (simp add: lines_of_Cons comp_def)
qed (simp add: lines_of_def)

lemma blocks_to_text_lines: "bs \<noteq> [] \<Longrightarrow> blocks_to_text bs = join_nl (lines_of 0 bs)"
  by (cases bs) (simp_all add: blocks_to_text_def lines_of_Cons tail_text comp_def)

lemma split_on_join:
  "line_ok l \<Longrightarrow> list_all line_ok ls \<Longrightarrow> split_on (CHR 0x0A) (join_nl (l # ls)) = l # ls"
proof (induction ls arbitrary: l)
  case Nil
  then show ?case by (simp add: line_ok_def split_on_plain)
next
  case (Cons m ms)
  then have "list_all (\<lambda>c. c \<noteq> CHR 0x0A) l" by (simp add: line_ok_def)
  with Cons.IH [of m] Cons.prems show ?case by (simp add: nl_def split_on_append)
qed

lemma text_lines_blocks:
  assumes "bs \<noteq> []"
  shows "text_lines (blocks_to_text bs) = lines_of 0 bs"
proof -
  obtain l ls where l: "lines_of 0 bs = l # ls" using assms by (cases bs) (auto simp: lines_of_Cons)
  then have ok: "line_ok l" "list_all line_ok ls"
    using lines_of_ok [of _ 0 bs] by (auto simp: list_all_iff)
  have "last (l # ls) \<noteq> []" using ok by (simp add: line_ok_def list_all_iff)
  with split_on_join [OF ok] show ?thesis
    using assms l by (simp add: text_lines_def blocks_to_text_lines del: join_nl.simps)
qed

lemma parse_lines_ops:
  assumes "list_all op_range xs"
  shows "parse_lines fin (Some c) n (map to_text xs @ ls) = parse_lines fin (Some (c @ xs)) n ls"
  using assms
proof (induction xs arbitrary: c)
  case (Cons x xs)
  have "to_text x \<noteq> []" using to_text_line_ok [of x] by (simp add: line_ok_def)
  with Cons show ?case
    by (simp add: line_ok_trim [OF to_text_line_ok] to_text_no_header op_line_round_trip)
qed simp

lemma parse_header:
  assumes "n < 2 ^ 64"
  shows "parse_lines fin cur n ((''block b'' @ show_nat n) # ls)
    = parse_lines (case cur of None \<Rightarrow> fin | Some c \<Rightarrow> fin @ [c]) (Some []) (n + 1) ls"
proof -
  have "int n < 2 ^ 64" using assms by (simp flip: of_nat_power)
  from parse_show_nat [OF assms this] have "parse_usize (show_nat n) = Some n"
    by (simp add: parse_usize_def)
  moreover define h where "h = ''block b'' @ show_nat n"
  moreover have h: "strip_prefix ''block b'' h = Some (show_nat n)" "h \<noteq> []" "trim h = h"
    unfolding h_def by (simp_all add: strip_prefix_def starts_with_def)
      (rule line_ok_trim [OF header_line_ok, simplified])
  ultimately show ?thesis
    unfolding h_def [symmetric] using h by simp
qed

lemma parse_lines_blocks:
  assumes "\<forall>xs \<in> set bs. list_all op_range xs" "n + length bs < 2 ^ 64"
  shows "parse_lines fin (Some c) n (lines_of n bs) = Some (fin @ c # bs)"
  using assms
proof (induction bs arbitrary: fin c n)
  case Nil
  then show ?case by (simp add: lines_of_def)
next
  case (Cons xs bs)
  then have IH: "parse_lines (fin @ [c]) (Some xs) (Suc n) (lines_of (Suc n) bs)
      = Some ((fin @ [c]) @ xs # bs)"
    by (intro Cons.IH) simp_all
  have "n < 2 ^ 64" using Cons.prems(2) by simp
  from parse_header [OF this] Cons.prems(1) IH show ?case
    by (simp only: lines_of_Cons) (simp add: parse_lines_ops)
qed

text \<open>C33: the canonical text of a fragment program is parsed back to the program.\<close>

theorem blocks_round_trip:
  assumes "bs \<noteq> []" "\<forall>xs \<in> set bs. list_all op_range xs" "length bs < 2 ^ 64"
  shows "blocks_from_text (blocks_to_text bs) = Some bs"
proof -
  obtain xs bs' where bs: "bs = xs # bs'" using assms(1) by (cases bs) auto
  with assms have "parse_lines [] (Some xs) 1 (lines_of 1 bs') = Some ([] @ xs # bs')"
    by (intro parse_lines_blocks) simp_all
  moreover have "parse_lines [] None 0 (lines_of 0 bs) = parse_lines [] (Some xs) 1 (lines_of 1 bs')"
    using assms(2) parse_header [of 0] by (simp only: bs lines_of_Cons) (simp add: parse_lines_ops)
  ultimately show ?thesis
    by (simp only: blocks_from_text_def text_lines_blocks [OF assms(1)]) (simp add: bs)
qed

theorem blocks_round_trip_witness:
  "blocks_from_text (blocks_to_text [[SConstInt (-5), SBr 1], [SDup, SRet]])
     = Some [[SConstInt (-5), SBr 1], [SDup, SRet]]"
  by (rule blocks_round_trip) (simp_all add: in_i64_def i64_simps)

end
