(* ===== verification/Interval.thy ===== *)
theory Interval
  imports IrTypes
begin

text \<open>
  The interval lattice of crates/verifier/src/interval.rs: bounds are i64 values
  (int, with the checked operations answering \<open>None\<close> out of range), the
  three-valued booleans, and their soundness against the wrapping runtime
  arithmetic. \<open>contains\<close> is the concretisation: the set of i64 values an
  interval stands for.
\<close>

section \<open>Domains of a word width\<close>

definition word_domain :: "u8 \<Rightarrow> i64 \<times> i64" where
  "word_domain bits =
    (let b = (if bits = 0 then 64 else bits) in
     if 64 \<le> b then (i64_min, i64_max)
     else (let half = 2 ^ unat (b - 1) in (- half, half - 1)))"

definition usize_max :: "u8 \<Rightarrow> u64" where
  "usize_max bits =
    (if 64 \<le> bits then word_of_int i64_max
     else if bits = 0 then -1
     else push_bit (unat bits) 1 - 1)"

section \<open>The lattice\<close>

datatype tri = DefTrue | DefFalse | TTop

datatype interval = Bottom | Range i64 i64 | ITop

definition const_val :: "i64 \<Rightarrow> interval" where "const_val v = Range v v"

fun join :: "interval \<Rightarrow> interval \<Rightarrow> interval" where
  "join Bottom x = x"
| "join x Bottom = x"
| "join ITop _ = ITop"
| "join _ ITop = ITop"
| "join (Range a b) (Range c d) = Range (min a c) (max b d)"

fun intersect :: "interval \<Rightarrow> interval \<Rightarrow> interval" where
  "intersect Bottom _ = Bottom"
| "intersect _ Bottom = Bottom"
| "intersect ITop x = x"
| "intersect x ITop = x"
| "intersect (Range a b) (Range c d) =
    (let lo = max a c; hi = min b d in if hi < lo then Bottom else Range lo hi)"

fun subset_of :: "interval \<Rightarrow> interval \<Rightarrow> bool" where
  "subset_of Bottom _ = True"
| "subset_of _ ITop = True"
| "subset_of (Range a b) (Range c d) = (c \<le> a \<and> b \<le> d)"
| "subset_of _ _ = False"

fun contains :: "interval \<Rightarrow> i64 \<Rightarrow> bool" where
  "contains Bottom v = False"
| "contains (Range lo hi) v = (lo \<le> v \<and> v \<le> hi)"
| "contains ITop v = True"

fun is_point :: "interval \<Rightarrow> bool" where
  "is_point (Range lo hi) = (lo = hi)"
| "is_point _ = False"

section \<open>Arithmetic\<close>

fun iv_add :: "interval \<Rightarrow> interval \<Rightarrow> interval" where
  "iv_add Bottom _ = Bottom"
| "iv_add _ Bottom = Bottom"
| "iv_add ITop _ = ITop"
| "iv_add _ ITop = ITop"
| "iv_add (Range a b) (Range c d) =
    (case (checked_i64 (a + c), checked_i64 (b + d)) of
       (Some lo, Some hi) \<Rightarrow> Range lo hi | _ \<Rightarrow> ITop)"

fun iv_sub :: "interval \<Rightarrow> interval \<Rightarrow> interval" where
  "iv_sub Bottom _ = Bottom"
| "iv_sub _ Bottom = Bottom"
| "iv_sub ITop _ = ITop"
| "iv_sub _ ITop = ITop"
| "iv_sub (Range a b) (Range c d) =
    (case (checked_i64 (a - d), checked_i64 (b - c)) of
       (Some lo, Some hi) \<Rightarrow> Range lo hi | _ \<Rightarrow> ITop)"

fun iv_mul :: "interval \<Rightarrow> interval \<Rightarrow> interval" where
  "iv_mul Bottom _ = Bottom"
| "iv_mul _ Bottom = Bottom"
| "iv_mul ITop _ = ITop"
| "iv_mul _ ITop = ITop"
| "iv_mul (Range a b) (Range c d) =
    (case (checked_i64 (a * c), checked_i64 (a * d), checked_i64 (b * c), checked_i64 (b * d)) of
       (Some w, Some x, Some y, Some z) \<Rightarrow>
         Range (min (min (min w x) y) z) (max (max (max w x) y) z)
     | _ \<Rightarrow> ITop)"

definition cast_narrow :: "interval \<Rightarrow> i64 \<Rightarrow> i64 \<Rightarrow> interval" where
  "cast_narrow iv lo hi = intersect iv (Range lo hi)"

section \<open>Three-valued heads\<close>

fun eval_in_range :: "interval \<Rightarrow> i64 \<Rightarrow> i64 \<Rightarrow> tri" where
  "eval_in_range Bottom lo hi = TTop"
| "eval_in_range ITop lo hi = TTop"
| "eval_in_range (Range a b) lo hi =
    (if lo \<le> a \<and> b \<le> hi then DefTrue else if b < lo \<or> hi < a then DefFalse else TTop)"

fun tri_from_bool_iv :: "interval \<Rightarrow> tri" where
  "tri_from_bool_iv (Range lo hi) =
    (if lo = 0 \<and> hi = 0 then DefFalse else if lo = 1 \<and> hi = 1 then DefTrue else TTop)"
| "tri_from_bool_iv _ = TTop"

fun bool_iv :: "tri \<Rightarrow> interval" where
  "bool_iv DefTrue = const_val 1"
| "bool_iv DefFalse = const_val 0"
| "bool_iv TTop = Range 0 1"

fun tri_not :: "tri \<Rightarrow> tri" where
  "tri_not DefTrue = DefFalse"
| "tri_not DefFalse = DefTrue"
| "tri_not TTop = TTop"

fun tri_and :: "tri \<Rightarrow> tri \<Rightarrow> tri" where
  "tri_and DefTrue x = x"
| "tri_and x DefTrue = x"
| "tri_and DefFalse _ = DefFalse"
| "tri_and _ DefFalse = DefFalse"
| "tri_and TTop TTop = TTop"

fun tri_or :: "tri \<Rightarrow> tri \<Rightarrow> tri" where
  "tri_or DefFalse x = x"
| "tri_or x DefFalse = x"
| "tri_or DefTrue _ = DefTrue"
| "tri_or _ DefTrue = DefTrue"
| "tri_or TTop TTop = TTop"

definition tri_if :: "bool \<Rightarrow> bool \<Rightarrow> tri" where
  "tri_if t f = (if t then DefTrue else if f then DefFalse else TTop)"

fun tri_cmp :: "interval \<Rightarrow> interval \<Rightarrow> cmp_kind \<Rightarrow> tri" where
  "tri_cmp (Range a_lo a_hi) (Range b_lo b_hi) k = (case k of
     CmpLt \<Rightarrow> tri_if (a_hi < b_lo) (b_hi \<le> a_lo)
   | CmpLe \<Rightarrow> tri_if (a_hi \<le> b_lo) (b_hi < a_lo)
   | CmpGt \<Rightarrow> tri_if (b_hi < a_lo) (a_hi \<le> b_lo)
   | CmpGe \<Rightarrow> tri_if (b_hi \<le> a_lo) (a_hi < b_lo)
   | CmpEq \<Rightarrow> tri_if (a_lo = a_hi \<and> b_lo = b_hi \<and> a_lo = b_lo) (a_hi < b_lo \<or> b_hi < a_lo)
   | CmpNe \<Rightarrow> tri_not (tri_if (a_lo = a_hi \<and> b_lo = b_hi \<and> a_lo = b_lo)
                      (a_hi < b_lo \<or> b_hi < a_lo)))"
| "tri_cmp _ _ k = TTop"

section \<open>Soundness\<close>

text \<open>The runtime's comparison and its boolean encoding.\<close>

fun cmp_holds :: "cmp_kind \<Rightarrow> i64 \<Rightarrow> i64 \<Rightarrow> bool" where
  "cmp_holds CmpLt a b = (a < b)"
| "cmp_holds CmpLe a b = (a \<le> b)"
| "cmp_holds CmpGt a b = (a > b)"
| "cmp_holds CmpGe a b = (a \<ge> b)"
| "cmp_holds CmpEq a b = (a = b)"
| "cmp_holds CmpNe a b = (a \<noteq> b)"

definition of_bool_i64 :: "bool \<Rightarrow> i64" where "of_bool_i64 b = (if b then 1 else 0)"

text \<open>What a three-valued head claims of a truth value.\<close>

fun tri_claims :: "tri \<Rightarrow> bool \<Rightarrow> bool" where
  "tri_claims DefTrue b = b"
| "tri_claims DefFalse b = (\<not> b)"
| "tri_claims TTop b = True"

fun iv_wf :: "interval \<Rightarrow> bool" where
  "iv_wf (Range lo hi) = (lo \<le> hi \<and> in_i64 lo \<and> in_i64 hi)"
| "iv_wf _ = True"

lemma contains_const [simp]: "contains (const_val v) u \<longleftrightarrow> u = v"
  by (auto simp: const_val_def)

lemma contains_join: "contains a v \<or> contains b v \<Longrightarrow> contains (join a b) v"
  by (cases a; cases b) auto

lemma contains_intersect: "contains (intersect a b) v \<longleftrightarrow> contains a v \<and> contains b v"
  by (cases a; cases b) (auto simp: Let_def)

lemma contains_subset: "subset_of a b \<Longrightarrow> contains a v \<Longrightarrow> contains b v"
  by (cases a; cases b) auto

lemma join_least: "subset_of a c \<Longrightarrow> subset_of b c \<Longrightarrow> subset_of (join a b) c"
  by (cases a; cases b; cases c) auto

lemma join_upper: "subset_of a (join a b)" "subset_of b (join a b)"
  by (cases a; cases b; simp)+

lemma join_comm: "join a b = join b a"
  by (cases a; cases b) auto

lemma join_assoc: "join (join a b) c = join a (join b c)"
  by (cases a; cases b; cases c) auto

lemma join_idem [simp]: "join a a = a"
  by (cases a) auto

lemma contains_add:
  assumes "contains a x" "contains b y"
  shows "contains (iv_add a b) (wrap_i64 (x + y))"
proof (cases "\<exists>p q r s. a = Range p q \<and> b = Range r s")
  case True
  with assms show ?thesis
    by (auto simp: checked_i64_def in_i64_def split: option.split)
next
  case False
  with assms show ?thesis by (cases a; cases b) auto
qed

lemma contains_sub:
  assumes "contains a x" "contains b y"
  shows "contains (iv_sub a b) (wrap_i64 (x - y))"
proof (cases "\<exists>p q r s. a = Range p q \<and> b = Range r s")
  case True
  with assms show ?thesis
    by (auto simp: checked_i64_def in_i64_def split: option.split)
next
  case False
  with assms show ?thesis by (cases a; cases b) auto
qed

lemma mult_corner:
  assumes "(lo::int) \<le> y" "y \<le> hi"
  shows "min (k * lo) (k * hi) \<le> k * y \<and> k * y \<le> max (k * lo) (k * hi)"
proof (cases "0 \<le> k")
  case True
  with assms have "k * lo \<le> k * y" "k * y \<le> k * hi" by (simp_all add: mult_left_mono)
  then show ?thesis by linarith
next
  case False
  with assms have "k * hi \<le> k * y" "k * y \<le> k * lo" by (simp_all add: mult_left_mono_neg)
  then show ?thesis by linarith
qed

lemma mult_corners:
  assumes "(a::int) \<le> x" "x \<le> b" "c \<le> y" "y \<le> d"
  shows "min (min (min (a * c) (a * d)) (b * c)) (b * d) \<le> x * y"
    and "x * y \<le> max (max (max (a * c) (a * d)) (b * c)) (b * d)"
  using mult_corner [OF assms(1,2), of y] mult_corner [OF assms(3,4), of a]
    mult_corner [OF assms(3,4), of b] by (simp_all add: mult.commute) linarith+

lemma contains_mul:
  assumes "contains a x" "contains b y"
  shows "contains (iv_mul a b) (wrap_i64 (x * y))"
proof (cases "\<exists>p q r s. a = Range p q \<and> b = Range r s")
  case True
  then obtain p q r s where ab: "a = Range p q" "b = Range r s" by blast
  show ?thesis
  proof (cases "in_i64 (p * r) \<and> in_i64 (p * s) \<and> in_i64 (q * r) \<and> in_i64 (q * s)")
    case True
    with assms ab mult_corners [of p x q r y s] have "in_i64 (x * y)"
      unfolding in_i64_def by (simp add: min_le_iff_disj le_max_iff_disj) linarith
    with True assms ab mult_corners [of p x q r y s] show ?thesis
      by (simp add: checked_i64_def)
  next
    case False
    with ab show ?thesis by (auto simp: checked_i64_def split: option.split)
  qed
next
  case False
  with assms show ?thesis by (cases a; cases b) auto
qed

lemma iv_wf_ops:
  assumes "iv_wf a" "iv_wf b"
  shows "iv_wf (join a b)" "iv_wf (intersect a b)" "iv_wf (iv_add a b)" "iv_wf (iv_sub a b)"
    "iv_wf (iv_mul a b)"
  using assms
  by (cases a; cases b;
      auto simp: Let_def checked_i64_def min_def max_def in_i64_def split: option.split)+

lemma tri_claims_ops:
  "tri_claims t a \<Longrightarrow> tri_claims (tri_not t) (\<not> a)"
  "tri_claims t a \<Longrightarrow> tri_claims u b \<Longrightarrow> tri_claims (tri_and t u) (a \<and> b)"
  "tri_claims t a \<Longrightarrow> tri_claims u b \<Longrightarrow> tri_claims (tri_or t u) (a \<or> b)"
  by (cases t; cases u; auto)+

lemma tri_from_bool_claims: "contains iv v \<Longrightarrow> tri_claims (tri_from_bool_iv iv) (v \<noteq> 0)"
  by (cases iv) auto

lemma bool_iv_contains: "tri_claims t b \<Longrightarrow> contains (bool_iv t) (of_bool_i64 b)"
  by (cases t; cases b) (auto simp: of_bool_i64_def)

lemma tri_cmp_claims:
  "contains a x \<Longrightarrow> contains b y \<Longrightarrow> tri_claims (tri_cmp a b k) (cmp_holds k x y)"
  by (cases a; cases b; cases k) (auto simp: tri_if_def)

text \<open>C25: the interval operations over-approximate the wrapping runtime
  arithmetic: sums, differences and products of members are members, and a
  narrowing cast keeps the members within the range.\<close>

theorem interval_ops_sound:
  assumes "contains a x" "contains b y"
  shows "contains (iv_add a b) (wrap_i64 (x + y)) \<and> contains (iv_sub a b) (wrap_i64 (x - y))
     \<and> contains (iv_mul a b) (wrap_i64 (x * y))
     \<and> (lo \<le> x \<and> x \<le> hi \<longrightarrow> contains (cast_narrow a lo hi) x)"
  using assms
  by (simp add: contains_add contains_sub contains_mul cast_narrow_def contains_intersect)

theorem interval_ops_sound_witness:
  "contains (iv_mul (Range (-3) 4) (Range i64_min 7)) (wrap_i64 (-3 * i64_min))"
  using interval_ops_sound [of "Range (-3) 4" "-3" "Range i64_min 7" i64_min]
  by (simp add: i64_simps)

text \<open>the three-valued heads never lie: a definite comparison, connective or
  range head holds of every member.\<close>

theorem tri_heads_sound:
  assumes "contains a x" "contains b y"
  shows "tri_claims (tri_cmp a b k) (cmp_holds k x y)
     \<and> tri_claims (eval_in_range a lo hi) (lo \<le> x \<and> x \<le> hi)
     \<and> tri_claims (tri_and (tri_from_bool_iv a) (tri_from_bool_iv b)) (x \<noteq> 0 \<and> y \<noteq> 0)
     \<and> tri_claims (tri_or (tri_from_bool_iv a) (tri_from_bool_iv b)) (x \<noteq> 0 \<or> y \<noteq> 0)
     \<and> tri_claims (tri_not (tri_from_bool_iv a)) (x = 0)"
proof (intro conjI)
  show "tri_claims (tri_cmp a b k) (cmp_holds k x y)" by (rule tri_cmp_claims [OF assms])
  show "tri_claims (eval_in_range a lo hi) (lo \<le> x \<and> x \<le> hi)" using assms(1) by (cases a) auto
  show "tri_claims (tri_and (tri_from_bool_iv a) (tri_from_bool_iv b)) (x \<noteq> 0 \<and> y \<noteq> 0)"
    "tri_claims (tri_or (tri_from_bool_iv a) (tri_from_bool_iv b)) (x \<noteq> 0 \<or> y \<noteq> 0)"
    using tri_claims_ops(2,3) [OF tri_from_bool_claims [OF assms(1)]
        tri_from_bool_claims [OF assms(2)]] by simp_all
  show "tri_claims (tri_not (tri_from_bool_iv a)) (x = 0)"
    using tri_claims_ops(1) [OF tri_from_bool_claims [OF assms(1)]] by simp
qed

theorem tri_heads_sound_witness:
  "tri_claims (tri_cmp (Range 1 3) (Range 4 9) CmpLt) (cmp_holds CmpLt 2 5)
     \<and> tri_cmp (Range 1 3) (Range 4 9) CmpLt = DefTrue"
  using tri_heads_sound [of "Range 1 3" 2 "Range 4 9" 5 CmpLt 0 0] by (simp add: tri_if_def)

text \<open>join is the least upper bound of the lattice order, commutative,
  associative and idempotent; intersection is exact.\<close>

theorem interval_lattice:
  "subset_of a (join a b) \<and> subset_of b (join a b)
   \<and> (subset_of a c \<longrightarrow> subset_of b c \<longrightarrow> subset_of (join a b) c)
   \<and> join a b = join b a \<and> join (join a b) c = join a (join b c) \<and> join a a = a
   \<and> (contains (intersect a b) v \<longleftrightarrow> contains a v \<and> contains b v)"
  by (intro conjI impI join_upper join_least join_comm join_assoc join_idem contains_intersect)

theorem interval_lattice_witness:
  "subset_of (join (Range 0 2) (Range 5 6)) (Range 0 9)"
  using interval_lattice [of "Range 0 2" "Range 5 6" "Range 0 9"] by simp

end
