(* ===== verification/MemModel.thy ===== *)
theory MemModel
  imports Interval SrcInterp
begin

text \<open>
  The memory-model boundary of crates/verifier/src/mem.rs: the trait \<open>MemModel\<close>
  as a record of operations, its two implementations \<open>FlatMem\<close> and
  \<open>ApertureMem\<close>, and the soundness contract between an abstract memory and the
  concrete memory of the reference interpreter as a locale, interpreted on both.
\<close>

section \<open>The trait\<close>

record 'm mem_ops =
  mo_load :: "'m \<Rightarrow> interval \<Rightarrow> u8 \<Rightarrow> interval"
  mo_store :: "'m \<Rightarrow> interval \<Rightarrow> interval \<Rightarrow> 'm"
  mo_aperture_read :: "'m \<Rightarrow> atom \<Rightarrow> u8 \<Rightarrow> interval \<times> 'm"
  mo_aperture_write :: "'m \<Rightarrow> atom \<Rightarrow> interval \<Rightarrow> 'm"

section \<open>\<open>FlatMem\<close>\<close>

definition flat_mem :: "unit mem_ops" where
  "flat_mem = \<lparr>mo_load = \<lambda>_ _ _. ITop, mo_store = \<lambda>m _ _. m,
     mo_aperture_read = \<lambda>m _ _. (ITop, m), mo_aperture_write = \<lambda>m _ _. m\<rparr>"

section \<open>\<open>ApertureMem\<close>\<close>

record aperture_mem =
  am_ram :: "u64 \<times> u64"
  am_cells :: "(i64 \<times> interval) list"
  am_scripted :: "(atom \<times> interval) list"

definition aperture_mem_new :: "u64 \<times> u64 \<Rightarrow> aperture_mem" where
  "aperture_mem_new ram = \<lparr>am_ram = ram, am_cells = [], am_scripted = []\<rparr>"

definition script_read :: "aperture_mem \<Rightarrow> atom \<Rightarrow> interval \<Rightarrow> aperture_mem" where
  "script_read m place val =
     m\<lparr>am_scripted := filter (\<lambda>(k, _). k \<noteq> place) (am_scripted m) @ [(place, val)]\<rparr>"

definition recorded_at :: "aperture_mem \<Rightarrow> i64 \<Rightarrow> interval" where
  "recorded_at m addr =
    (case fold (\<lambda>(a, v) acc. if a = addr
                  then Some (case acc of None \<Rightarrow> v | Some x \<Rightarrow> join x v) else acc)
            (am_cells m) None of
       Some v \<Rightarrow> v | None \<Rightarrow> ITop)"

definition in_ram :: "aperture_mem \<Rightarrow> i64 \<Rightarrow> bool" where
  "in_ram m a = (fst (am_ram m) \<le> word_of_int a \<and> word_of_int a \<le> snd (am_ram m))"

fun am_load :: "aperture_mem \<Rightarrow> interval \<Rightarrow> u8 \<Rightarrow> interval" where
  "am_load m (Range lo hi) w =
    (if lo = hi then (if in_ram m lo then recorded_at m lo else ITop) else ITop)"
| "am_load m _ w = ITop"

fun am_store :: "aperture_mem \<Rightarrow> interval \<Rightarrow> interval \<Rightarrow> aperture_mem" where
  "am_store m (Range lo hi) val =
    (if lo = hi \<and> in_ram m lo
     then m\<lparr>am_cells := filter (\<lambda>(x, _). x \<noteq> lo) (am_cells m) @ [(lo, val)]\<rparr> else m)"
| "am_store m _ val = m"

definition am_read :: "aperture_mem \<Rightarrow> atom \<Rightarrow> u8 \<Rightarrow> interval" where
  "am_read m place w =
    (case map_of (rev (am_scripted m)) place of
       Some v \<Rightarrow> v
     | None \<Rightarrow> (let (lo, hi) = word_domain w in
         if lo = i64_min \<and> hi = i64_max then ITop else Range lo hi))"

definition aperture_mem_ops :: "aperture_mem mem_ops" where
  "aperture_mem_ops = \<lparr>mo_load = am_load, mo_store = am_store,
     mo_aperture_read = \<lambda>m p w. (am_read m p w, m), mo_aperture_write = \<lambda>m _ _. m\<rparr>"

section \<open>The soundness contract\<close>

text \<open>
  \<open>describes m c\<close>: the abstract memory over-approximates the concrete one at the
  access width \<open>w\<close>. \<open>store_ok\<close> is the side condition under which a store is
  tracked soundly.
\<close>

locale mem_model =
  fixes mem :: "'m mem_ops" and w :: u8
    and describes :: "'m \<Rightarrow> cmem \<Rightarrow> bool"
    and store_ok :: "'m \<Rightarrow> interval \<Rightarrow> bool"
  assumes load_sound: "describes m c \<Longrightarrow> contains a addr \<Longrightarrow>
      contains (mo_load mem m a w) (mem_load c addr)"
    and store_sound: "describes m c \<Longrightarrow> store_ok m a \<Longrightarrow> contains a addr \<Longrightarrow> contains val v \<Longrightarrow>
      describes (mo_store mem m a val) (record_store c addr v)"
    and read_sound: "describes m c \<Longrightarrow> contains (fst (mo_aperture_read mem m p w)) (mmio_oracle c)"
    and read_describes: "describes m c \<Longrightarrow> describes (snd (mo_aperture_read mem m p w)) c"
    and write_describes: "describes m c \<Longrightarrow> describes (mo_aperture_write mem m p val) c"

lemma mem_load_store:
  "mem_load (record_store c addr v) a = (if a = addr then v else mem_load c a)"
proof -
  have "map_of (filter (\<lambda>(x, _). x \<noteq> addr) xs) a = (if a = addr then None else map_of xs a)"
    for xs :: "(i64 \<times> i64) list"
    by (induction xs) auto
  then show ?thesis by (simp add: mem_load_def record_store_def split: option.split)
qed

lemma mmio_oracle_store [simp]: "mmio_oracle (record_store c addr v) = mmio_oracle c"
  by (simp add: record_store_def)

lemma am_cells_update [simp]:
  "am_read (m\<lparr>am_cells := xs\<rparr>) p w = am_read m p w"
  "in_ram (m\<lparr>am_cells := xs\<rparr>) a = in_ram m a"
  by (simp_all add: am_read_def in_ram_def)

interpretation flat: mem_model flat_mem w "\<lambda>_ _. True" "\<lambda>_ _. True" for w
  by unfold_locales (simp_all add: flat_mem_def)

text \<open>Recorded cells lie in RAM and cover what the concrete memory holds there.\<close>

definition am_describes :: "u8 \<Rightarrow> aperture_mem \<Rightarrow> cmem \<Rightarrow> bool" where
  "am_describes w m c = ((\<forall>(a, _) \<in> set (am_cells m). in_ram m a)
     \<and> (\<forall>a. contains (recorded_at m a) (mem_load c a))
     \<and> (\<forall>p. contains (am_read m p w) (mmio_oracle c)))"

definition am_store_ok :: "aperture_mem \<Rightarrow> interval \<Rightarrow> bool" where
  "am_store_ok m a = is_point a"

lemma recorded_fold_other:
  assumes "\<forall>(x, _) \<in> set xs. x \<noteq> addr"
  shows "fold (\<lambda>(a, v) acc. if a = addr then Some (case acc of None \<Rightarrow> v | Some x \<Rightarrow> join x v) else acc)
     xs acc = acc"
  using assms by (induction xs arbitrary: acc) auto

lemma recorded_fold_filter:
  assumes "addr \<noteq> b"
  shows "fold (\<lambda>(a, v) acc. if a = addr then Some (case acc of None \<Rightarrow> v | Some x \<Rightarrow> join x v) else acc)
      (filter (\<lambda>(x, _). x \<noteq> b) xs) acc
    = fold (\<lambda>(a, v) acc. if a = addr then Some (case acc of None \<Rightarrow> v | Some x \<Rightarrow> join x v) else acc) xs acc"
  using assms by (induction xs arbitrary: acc) auto

lemma recorded_at_store:
  "recorded_at (m\<lparr>am_cells := filter (\<lambda>(x, _). x \<noteq> b) (am_cells m) @ [(b, val)]\<rparr>) addr
   = (if addr = b then val else recorded_at m addr)"
  by (auto simp: recorded_at_def recorded_fold_filter recorded_fold_other)

lemma recorded_at_unrecorded: "\<forall>(x, _) \<in> set (am_cells m). x \<noteq> addr \<Longrightarrow> recorded_at m addr = ITop"
  by (simp add: recorded_at_def recorded_fold_other)

lemma am_describes_store:
  assumes d: "am_describes w m c" and ok: "am_store_ok m a" and a: "contains a addr" and v: "contains val v"
  shows "am_describes w (am_store m a val) (record_store c addr v)"
proof -
  from ok a have a_eq: "a = Range addr addr"
    by (cases a) (auto simp: am_store_ok_def)
  show ?thesis
  proof (cases "in_ram m addr")
    case True
    with d v show ?thesis
      by (auto simp: am_describes_def a_eq recorded_at_store mem_load_store)
  next
    case False
    with d have "\<forall>(x, _) \<in> set (am_cells m). x \<noteq> addr" by (auto simp: am_describes_def)
    with d False show ?thesis
      by (auto simp: am_describes_def a_eq mem_load_store recorded_at_unrecorded)
  qed
qed

interpretation ap: mem_model aperture_mem_ops w "am_describes w" am_store_ok for w
proof unfold_locales
  fix m c a addr assume "am_describes w m c" "contains a addr"
  then show "contains (mo_load aperture_mem_ops m a w) (mem_load c addr)"
    by (cases a) (auto simp: aperture_mem_ops_def am_describes_def)
qed (auto simp: aperture_mem_ops_def am_describes_store, auto simp: am_describes_def)

lemma am_describes_stores:
  assumes "am_describes w m c" "\<forall>(a, iv, v) \<in> set sts. contains iv v"
  shows "am_describes w (foldl (\<lambda>m (a, iv, v). am_store m (Range a a) iv) m sts)
           (foldl (\<lambda>c (a, iv, v). record_store c a v) c sts)"
  using assms
proof (induction sts arbitrary: m c)
  case (Cons st sts)
  obtain a iv v where st: "st = (a, iv, v)" by (cases st) auto
  have "am_describes w (am_store m (Range a a) iv) (record_store c a v)"
    by (rule am_describes_store [OF Cons.prems(1)]) (use Cons.prems st in \<open>auto simp: am_store_ok_def\<close>)
  with Cons st show ?case by (simp del: am_store.simps)
qed simp

text \<open>\<open>ApertureMem\<close> is sound for stores to known addresses: after any sequence
  of point stores (each with an interval covering the stored value) a load
  through any address interval answers an interval that holds what the concrete
  memory returns at each of its addresses.\<close>

theorem aperture_point_stores_sound:
  assumes "am_describes w m c" "\<forall>(a, iv, v) \<in> set sts. contains iv v" "contains addr_iv addr"
  shows "contains (am_load (foldl (\<lambda>m (a, iv, v). am_store m (Range a a) iv) m sts) addr_iv w)
           (mem_load (foldl (\<lambda>c (a, iv, v). record_store c a v) c sts) addr)"
  using ap.load_sound [OF am_describes_stores [OF assms(1,2)] assms(3)]
  by (simp add: aperture_mem_ops_def)

theorem aperture_point_stores_sound_witness:
  "contains (am_load (foldl (\<lambda>m (a, iv, v). am_store m (Range a a) iv) (aperture_mem_new (0, 255))
        [(8, Range 0 9, 4 :: int), (8, Range 2 3, 3)]) (Range 8 8) 32)
      (mem_load (foldl (\<lambda>c (a, iv, v). record_store c a v)
          \<lparr>cells = [], load_oracle = 77, mmio_oracle = 5\<rparr> [(8, Range 0 9, 4), (8, Range 2 3, 3)]) 8)"
proof (rule aperture_point_stores_sound)
  show "am_describes 32 (aperture_mem_new (0, 255)) \<lparr>cells = [], load_oracle = 77, mmio_oracle = 5\<rparr>"
    by (simp add: am_describes_def aperture_mem_new_def recorded_at_def am_read_def word_domain_def
        Let_def i64_simps)
qed auto

text \<open>a store whose address is not a single point is dropped, so a later load
  of a recorded cell it may have hit answers an interval without the stored
  value: with address 8 recorded as 1, a store of 2 through the address interval
  8..9 leaves the model claiming 1 while the concrete memory holds 2.\<close>

theorem aperture_range_store_unsound:
  "\<exists>m c a addr v. am_describes 64 m c \<and> contains a addr
     \<and> \<not> contains (am_load (am_store m a (const_val v)) (const_val addr) 64)
           (mem_load (record_store c addr v) addr)"
proof (intro exI conjI)
  let ?m = "am_store (aperture_mem_new (0, 255)) (Range 8 8) (const_val 1)"
  let ?c = "record_store \<lparr>cells = [], load_oracle = 0, mmio_oracle = 0\<rparr> 8 1"
  show "am_describes 64 ?m ?c"
    by (auto simp: am_describes_def aperture_mem_new_def in_ram_def recorded_at_def am_read_def
        word_domain_def const_val_def mem_load_def record_store_def)
  show "contains (Range 8 9) 8" by simp
  show "\<not> contains (am_load (am_store ?m (Range 8 9) (const_val 2)) (const_val 8) 64)
          (mem_load (record_store ?c 8 2) 8)"
    by (simp add: aperture_mem_new_def in_ram_def recorded_at_def const_val_def mem_load_def
        record_store_def)
qed

end
