(* ===== verification/Json.thy ===== *)
theory Json
  imports IrText
begin

text \<open>
  The hand-written JSON layer of crates/verifier/src/codec.rs: the string and
  integer writers and the primitive operations of \<open>Reader\<close>. The reader's pair of buffer
  and index is the text not read yet; \<open>self.i -= 1\<close> puts a character back. A text is a
  list of 8-bit characters. A Rust \<open>String\<close> is one that is UTF-8 (\<open>is_utf8\<close>).
  Loops and recursions get the length of the rest as fuel, and running out of it is an
  error of its own (\<open>JFuel\<close>) that never happens. The loops over members and elements are
  the same in the verdict reader (verdict.rs), which has its own string reader and its own
  way to skip a value (and the error \<open>JUnknown\<close>): those two are arguments.
\<close>

datatype (plugins only: code size) jerr = JMal | JFuel | JUnknown string string

section \<open>Writer\<close>

definition hex_lower :: "nat \<Rightarrow> char" where
  "hex_lower d = ''0123456789abcdef'' ! d"

definition format_hex2 :: "char \<Rightarrow> string" where
  "format_hex2 b = [hex_lower (of_char b div 16), hex_lower (of_char b mod 16)]"

definition escape :: "char \<Rightarrow> string" where
  "escape b =
    (if b = CHR 0x22 then [CHR 0x5C, CHR 0x22]
     else if b = CHR 0x5C then [CHR 0x5C, CHR 0x5C]
     else if b = CHR 0x08 then [CHR 0x5C, CHR ''b'']
     else if b = CHR 0x0C then [CHR 0x5C, CHR ''f'']
     else if b = CHR 0x0A then [CHR 0x5C, CHR ''n'']
     else if b = CHR 0x0D then [CHR 0x5C, CHR ''r'']
     else if b = CHR 0x09 then [CHR 0x5C, CHR ''t'']
     else if (of_char b :: nat) \<le> 0x1F then [CHR 0x5C] @ ''u00'' @ format_hex2 b
     else [b])"

definition write_str :: "string \<Rightarrow> string" where
  "write_str s = [CHR 0x22] @ concat (map escape s) @ [CHR 0x22]"

definition push_i64_json :: "i64 \<Rightarrow> string" where
  "push_i64_json v = (if v = i64_min then ''-9223372036854775808''
     else (if v < 0 then ''-'' else '''')
       @ (if v = 0 then ''0'' else rev (digit_loop 20 10 \<bar>v\<bar>)))"

definition write_bool :: "bool \<Rightarrow> string" where
  "write_bool b = (if b then ''true'' else ''false'')"

text \<open>The loops that separate items with commas.\<close>

fun comma_sep :: "string list \<Rightarrow> string" where
  "comma_sep [] = ''''"
| "comma_sep (x # xs) = x @ concat (map (\<lambda>y. CHR '','' # y) xs)"

section \<open>UTF-8\<close>

definition utf8_seq_len :: "char \<Rightarrow> nat" where
  "utf8_seq_len c = (let n = of_char c :: nat in
     if n \<le> 0x7F then 1 else if 0xC2 \<le> n \<and> n \<le> 0xDF then 2
     else if 0xE0 \<le> n \<and> n \<le> 0xEF then 3 else if 0xF0 \<le> n \<and> n \<le> 0xF4 then 4 else 0)"

text \<open>\<open>core::str::from_utf8\<close> on the bytes of one sequence.\<close>

definition in_range_c :: "nat \<Rightarrow> nat \<Rightarrow> char \<Rightarrow> bool" where
  "in_range_c lo hi c = (lo \<le> of_char c \<and> of_char c \<le> hi)"

definition utf8_seq :: "string \<Rightarrow> bool" where
  "utf8_seq s = (case s of
     [a] \<Rightarrow> in_range_c 0 0x7F a
   | [a, b] \<Rightarrow> in_range_c 0xC2 0xDF a \<and> in_range_c 0x80 0xBF b
   | [a, b, c] \<Rightarrow>
       (if in_range_c 0xE0 0xE0 a then in_range_c 0xA0 0xBF b
        else if in_range_c 0xED 0xED a then in_range_c 0x80 0x9F b
        else in_range_c 0xE1 0xEF a \<and> in_range_c 0x80 0xBF b) \<and> in_range_c 0x80 0xBF c
   | [a, b, c, d] \<Rightarrow>
       (if in_range_c 0xF0 0xF0 a then in_range_c 0x90 0xBF b
        else if in_range_c 0xF4 0xF4 a then in_range_c 0x80 0x8F b
        else in_range_c 0xF1 0xF3 a \<and> in_range_c 0x80 0xBF b)
       \<and> in_range_c 0x80 0xBF c \<and> in_range_c 0x80 0xBF d
   | _ \<Rightarrow> False)"

text \<open>\<open>char::from_u32\<close> below 65536 and \<open>String::push\<close>.\<close>

definition utf8_encode :: "nat \<Rightarrow> string option" where
  "utf8_encode h =
    (if 0xD800 \<le> h \<and> h \<le> 0xDFFF then None
     else if h < 0x80 then Some [char_of h]
     else if h < 0x800 then Some [char_of (0xC0 + h div 64), char_of (0x80 + h mod 64)]
     else Some [char_of (0xE0 + h div 4096), char_of (0x80 + h div 64 mod 64), char_of (0x80 + h mod 64)])"

function is_utf8 :: "string \<Rightarrow> bool" where
  "is_utf8 [] = True"
| "is_utf8 (c # s) =
    (let n = utf8_seq_len c in
     if n = 0 \<or> length (c # s) < n then False
     else if utf8_seq (take n (c # s)) then is_utf8 (drop n (c # s)) else False)"
  by pat_completeness auto
termination by (relation "measure length") auto

section \<open>Reader primitives\<close>

fun skip_ws :: "string \<Rightarrow> string" where
  "skip_ws [] = []"
| "skip_ws (c # r) = (if c \<in> {CHR '' '', CHR 0x0A, CHR 0x0D, CHR 0x09} then skip_ws r else c # r)"

definition peek :: "string \<Rightarrow> char option" where
  "peek r = (case r of [] \<Rightarrow> None | c # _ \<Rightarrow> Some c)"

definition bump :: "string \<Rightarrow> jerr + char \<times> string" where
  "bump r = (case r of [] \<Rightarrow> Inl JMal | c # r' \<Rightarrow> Inr (c, r'))"

definition expect :: "char \<Rightarrow> string \<Rightarrow> jerr + string" where
  "expect w r = bindE (bump (skip_ws r)) (\<lambda>(c, r'). if c \<noteq> w then Inl JMal else Inr r')"

definition hex_val :: "char \<Rightarrow> nat option" where
  "hex_val b =
    (if in_range_c 48 57 b then Some (of_char b - 48)
     else if in_range_c 97 102 b then Some (of_char b - 97 + 10)
     else if in_range_c 65 70 b then Some (of_char b - 65 + 10) else None)"

text \<open>The four digits of an escape; the caller drops them.\<close>

definition parse_hex4 :: "string \<Rightarrow> nat option" where
  "parse_hex4 r = (case r of
     a # b # c # d # _ \<Rightarrow>
       (case (hex_val a, hex_val b, hex_val c, hex_val d) of
          (Some w, Some x, Some y, Some z) \<Rightarrow> Some (((w * 16 + x) * 16 + y) * 16 + z)
        | _ \<Rightarrow> None)
   | _ \<Rightarrow> None)"

definition unescape :: "char \<Rightarrow> char option" where
  "unescape e =
    (if e = CHR 0x22 then Some (CHR 0x22) else if e = CHR 0x5C then Some (CHR 0x5C)
     else if e = CHR ''/'' then Some (CHR ''/'') else if e = CHR ''b'' then Some (CHR 0x08)
     else if e = CHR ''f'' then Some (CHR 0x0C) else if e = CHR ''n'' then Some (CHR 0x0A)
     else if e = CHR ''r'' then Some (CHR 0x0D) else if e = CHR ''t'' then Some (CHR 0x09)
     else None)"

function (sequential) parse_chars :: "string \<Rightarrow> string \<Rightarrow> jerr + string \<times> string" where
  "parse_chars out [] = Inl JMal"
| "parse_chars out (b # r) =
    (if b = CHR 0x22 then Inr (out, r)
     else if b = CHR 0x5C then
       (case r of
          [] \<Rightarrow> Inl JMal
        | e # r' \<Rightarrow>
            (case unescape e of
               Some x \<Rightarrow> parse_chars (out @ [x]) r'
             | None \<Rightarrow>
                 if e = CHR ''u'' then
                   (case parse_hex4 r' of
                      None \<Rightarrow> Inl JMal
                    | Some h \<Rightarrow>
                        (case utf8_encode h of
                           None \<Rightarrow> Inl JMal
                         | Some s \<Rightarrow> parse_chars (out @ s) (drop 4 r')))
                 else Inl JMal))
     else if (of_char b :: nat) < 0x20 then Inl JMal
     else (let n = utf8_seq_len b in
       if n = 0 \<or> length (b # r) < n then Inl JMal
       else if utf8_seq (take n (b # r)) then parse_chars (out @ take n (b # r)) (drop n (b # r))
       else Inl JMal))"
  by pat_completeness auto
termination by (relation "measure (\<lambda>(out, r). length r)") auto

definition parse_string :: "string \<Rightarrow> jerr + string \<times> string" where
  "parse_string r = bindE (bump (skip_ws r)) (\<lambda>(c, r'). if c \<noteq> CHR 0x22 then Inl JMal else parse_chars '''' r')"

definition parse_bool :: "string \<Rightarrow> jerr + bool \<times> string" where
  "parse_bool r = (let r = skip_ws r in
     if take 4 r = ''true'' then Inr (True, drop 4 r)
     else if take 5 r = ''false'' then Inr (False, drop 5 r) else Inl JMal)"

text \<open>The digit loop with its checked arithmetic: \<open>hi\<close> is the largest value of the type.\<close>

fun digit_run :: "int \<Rightarrow> int \<Rightarrow> nat \<Rightarrow> string \<Rightarrow> jerr + (int \<times> nat) \<times> string" where
  "digit_run hi v n [] = Inr ((v, n), [])"
| "digit_run hi v n (c # r) =
    (if \<not> is_digit c then Inr ((v, n), c # r)
     else if hi < v * 10 \<or> hi < v * 10 + (of_char c - 48) then Inl JMal
     else digit_run hi (v * 10 + (of_char c - 48)) (n + 1) r)"

definition json_i64 :: "string \<Rightarrow> jerr + i64 \<times> string" where
  "json_i64 r =
    (let r = skip_ws r; neg = (peek r = Some (CHR ''-'')); r = (if neg then tl r else r) in
     bindE (digit_run i64_max 0 0 r) (\<lambda>((v, n), r').
     if n = 0 then Inl JMal else Inr (if neg then - v else v, r')))"

definition parse_u64 :: "string \<Rightarrow> jerr + int \<times> string" where
  "parse_u64 r =
    bindE (digit_run (2 ^ 64 - 1) 0 0 (skip_ws r)) (\<lambda>((v, n), r').
    if n = 0 then Inl JMal else Inr (v, r'))"

text \<open>The casts \<open>as u32\<close> and \<open>as i16\<close> of the field readers.\<close>

definition parse_u32_field :: "string \<Rightarrow> jerr + u32 \<times> string" where
  "parse_u32_field r = bindE (parse_u64 r) (\<lambda>(v, r'). Inr (word_of_int v, r'))"

definition parse_i16_field :: "string \<Rightarrow> jerr + i16 \<times> string" where
  "parse_i16_field r = bindE (json_i64 r) (\<lambda>(v, r'). Inr (wrap_i16 v, r'))"

section \<open>Loops of the reader\<close>

text \<open>The member loop of every object: a closing brace ends it, a comma is skipped when
  there is one, then a key, a colon and the value, which the key chooses how to read.\<close>

fun obj_loop :: "(string \<Rightarrow> jerr + string \<times> string) \<Rightarrow> nat \<Rightarrow> (string \<Rightarrow> 'a \<Rightarrow> string \<Rightarrow> jerr + 'a \<times> string)
    \<Rightarrow> 'a \<Rightarrow> string \<Rightarrow> jerr + 'a \<times> string" where
  "obj_loop ps 0 f acc r = Inl JFuel"
| "obj_loop ps (Suc k) f acc r =
    (let r = skip_ws r in
     if peek r = Some (CHR ''}'') then Inr (acc, tl r)
     else (let r = (if peek r = Some (CHR '','') then tl r else r) in
       bindE (ps (skip_ws r)) (\<lambda>(key, r).
       bindE (expect (CHR '':'') r) (\<lambda>r.
       bindE (f key acc r) (\<lambda>(acc, r). obj_loop ps k f acc r)))))"

definition parse_obj :: "(string \<Rightarrow> jerr + string \<times> string) \<Rightarrow> (string \<Rightarrow> 'a \<Rightarrow> string \<Rightarrow> jerr + 'a \<times> string)
    \<Rightarrow> 'a \<Rightarrow> string \<Rightarrow> jerr + 'a \<times> string" where
  "parse_obj ps f acc r = bindE (expect (CHR ''{'') r) (\<lambda>r. obj_loop ps (Suc (length r)) f acc r)"

text \<open>The element loop of every array; the second test lets a trailing comma pass.\<close>

fun arr_loop :: "nat \<Rightarrow> (string \<Rightarrow> jerr + 'a \<times> string) \<Rightarrow> 'a list \<Rightarrow> string \<Rightarrow> jerr + 'a list \<times> string" where
  "arr_loop 0 p out r = Inl JFuel"
| "arr_loop (Suc k) p out r =
    (let r = skip_ws r in
     if peek r = Some (CHR '']'') then Inr (out, tl r)
     else (let r = skip_ws (if peek r = Some (CHR '','') then tl r else r) in
       if peek r = Some (CHR '']'') then Inr (out, tl r)
       else bindE (p r) (\<lambda>(x, r). arr_loop k p (out @ [x]) r)))"

definition parse_arr :: "(string \<Rightarrow> jerr + 'a \<times> string) \<Rightarrow> string \<Rightarrow> jerr + 'a list \<times> string" where
  "parse_arr p r = bindE (expect (CHR ''['') r) (\<lambda>r. arr_loop (Suc (length r)) p [] r)"

definition parse_string_array :: "string \<Rightarrow> jerr + string list \<times> string" where
  "parse_string_array = parse_arr parse_string"

text \<open>\<open>skip_value\<close>: the two loops, with the recursive call as an argument.\<close>

fun skip_members :: "(string \<Rightarrow> jerr + unit \<times> string) \<Rightarrow> nat \<Rightarrow> string \<Rightarrow> jerr + unit \<times> string" where
  "skip_members sk 0 r = Inl JFuel"
| "skip_members sk (Suc k) r =
    (let r = skip_ws r in
     if peek r = Some (CHR ''}'') then Inr ((), tl r)
     else if peek r = Some (CHR '','') then skip_members sk k (tl r)
     else if peek r = None then Inl JMal
     else bindE (parse_string r) (\<lambda>(_, r).
          bindE (expect (CHR '':'') r) (\<lambda>r. bindE (sk r) (\<lambda>(_, r). skip_members sk k r))))"

fun skip_elems :: "(string \<Rightarrow> jerr + unit \<times> string) \<Rightarrow> nat \<Rightarrow> string \<Rightarrow> jerr + unit \<times> string" where
  "skip_elems sk 0 r = Inl JFuel"
| "skip_elems sk (Suc k) r =
    (let r = skip_ws r in
     if peek r = Some (CHR '']'') then Inr ((), tl r)
     else if peek r = Some (CHR '','') then skip_elems sk k (tl r)
     else if peek r = None then Inl JMal
     else bindE (sk r) (\<lambda>(_, r). skip_elems sk k r))"

primrec skip_value_n :: "nat \<Rightarrow> string \<Rightarrow> jerr + unit \<times> string" where
  "skip_value_n 0 = (\<lambda>r. Inl JFuel)"
| "skip_value_n (Suc n) = (\<lambda>r.
    bindE (bump (skip_ws r)) (\<lambda>(c, r).
      if c = CHR ''{'' then skip_members (skip_value_n n) (Suc (length r)) r
      else if c = CHR ''['' then skip_elems (skip_value_n n) (Suc (length r)) r
      else if c = CHR 0x22 then bindE (parse_string (c # r)) (\<lambda>(_, r). Inr ((), r))
      else if c = CHR ''t'' \<or> c = CHR ''f'' then bindE (parse_bool r) (\<lambda>(_, r). Inr ((), r))
      else if c = CHR ''n'' then (if take 4 r = ''null'' then Inr ((), drop 4 r) else Inl JMal)
      else if c = CHR ''-'' \<or> is_digit c then bindE (json_i64 (c # r)) (\<lambda>(_, r). Inr ((), r))
      else Inl JMal))"

definition skip_value :: "string \<Rightarrow> jerr + unit \<times> string" where
  "skip_value r = skip_value_n (Suc (length r)) r"

section \<open>Objects by their keys\<close>

text \<open>The \<open>match key.as_str()\<close> of an object reader: each known key has a handler
  \<open>key => slot = Some(self.parse_x()?)\<close>, and every other key skips its value.\<close>

type_synonym 'a handler = "'a \<Rightarrow> string \<Rightarrow> jerr + 'a \<times> string"

definition fld :: "(string \<Rightarrow> jerr + 'v \<times> string) \<Rightarrow> ('v \<Rightarrow> 'a \<Rightarrow> 'a) \<Rightarrow> 'a handler" where
  "fld p g acc r = bindE (p r) (\<lambda>(v, r). Inr (g v acc, r))"

definition match_key :: "(string \<Rightarrow> jerr + unit \<times> string) \<Rightarrow> (string \<times> 'a handler) list \<Rightarrow> string \<Rightarrow> 'a handler" where
  "match_key sk tbl key acc r =
    (case map_of tbl key of Some h \<Rightarrow> h acc r | None \<Rightarrow> fld sk (\<lambda>_ a. a) acc r)"

text \<open>What the writers emit for an object and for a list: every literal they append
  is \<open>{\<close>, \<open>[\<close>, a comma, a quoted key with its colon, or a closing bracket.\<close>

definition member :: "string \<Rightarrow> string \<Rightarrow> string" where
  "member k v = [CHR 0x22] @ k @ [CHR 0x22, CHR '':''] @ v"

definition obj_text :: "(string \<times> string) list \<Rightarrow> string" where
  "obj_text ms = ''{'' @ comma_sep (map (\<lambda>(k, v). member k v) ms) @ ''}''"

definition arr_text :: "('x \<Rightarrow> string) \<Rightarrow> 'x list \<Rightarrow> string" where
  "arr_text w xs = ''['' @ comma_sep (map w xs) @ '']''"

end
