(* ===== verification/OblModel.thy ===== *)
theory OblModel
  imports Json "HOL-Library.List_Lexorder" "HOL-Library.Char_ord"
begin

text \<open>
  The obligation model of crates/verifier/src/model.rs: the data of an obligation set
  with its closed enumerations, the canonical identity of an obligation and its FNV-1a
  hash, the validation of a set and the cycles of a word's block graph. A Rust string
  is the list of its bytes.
\<close>

section \<open>Enumerations\<close>

datatype (plugins only: code size) obl_kind = SubtypeRange | ContractPre | ContractPost | StackBudget | MmioBounds

fun kind_idx :: "obl_kind \<Rightarrow> nat" where
  "kind_idx SubtypeRange = 0"
| "kind_idx ContractPre = 1"
| "kind_idx ContractPost = 2"
| "kind_idx StackBudget = 3"
| "kind_idx MmioBounds = 4"

fun kind_str :: "obl_kind \<Rightarrow> string" where
  "kind_str SubtypeRange = ''subtype-range''"
| "kind_str ContractPre = ''contract-pre''"
| "kind_str ContractPost = ''contract-post''"
| "kind_str StackBudget = ''stack-budget''"
| "kind_str MmioBounds = ''mmio-bounds''"

definition kind_from_str :: "string \<Rightarrow> obl_kind option" where
  "kind_from_str = map_of
     [(''subtype-range'', SubtypeRange), (''contract-pre'', ContractPre),
      (''contract-post'', ContractPost), (''stack-budget'', StackBudget),
      (''mmio-bounds'', MmioBounds)]"

datatype (plugins only: code size) provenance = Direct | Opaque

fun provenance_str :: "provenance \<Rightarrow> string" where
  "provenance_str Direct = ''direct''"
| "provenance_str Opaque = ''opaque''"

definition provenance_from_str :: "string \<Rightarrow> provenance option" where
  "provenance_from_str = map_of [(''direct'', Direct), (''opaque'', Opaque)]"

lemma kind_round_trip [simp]: "kind_from_str (kind_str k) = Some k"
  by (cases k) (simp_all add: kind_from_str_def)

lemma provenance_round_trip [simp]: "provenance_from_str (provenance_str p) = Some p"
  by (cases p) (simp_all add: provenance_from_str_def)

section \<open>Obligations\<close>

datatype (plugins only: code size) oel = OelVar string | OelCast string string oel

record predicate_ref =
  pr_module :: string
  pr_name :: string
  pr_ir :: "string list"
  pr_ir_hash :: string

datatype (plugins only: code size) formula = InRange oel i64 i64 | OffsetLE "u32 option" u32 u32
  | PredicateHolds predicate_ref "oel list"

record intent =
  it_label :: string
  it_subject :: string
  it_authored :: bool

datatype (plugins only: code size) assumption_edge = EdgeObligation string string | EdgeRuntimeCheck

record cycle =
  cy_index :: u32
  cy_blocks :: "string list"

record span_info =
  si_line :: u32
  si_col :: u32

record site =
  st_word :: string
  st_occurrence :: u32
  st_span :: span_info

record obl_rec =
  ob_id :: string
  ob_id_hash :: string
  ob_kind :: obl_kind
  ob_site :: site
  ob_intent :: intent
  ob_formula :: formula
  ob_assumptions :: "assumption_edge list"
  ob_cycles :: "cycle list"
  ob_provenance :: provenance

record word_fact =
  wf_name :: string
  wf_net :: i16
  wf_high :: u32
  wf_top :: bool
  wf_performs :: "string list"
  wf_diverge_free :: bool
  wf_ir :: string
  wf_blocks :: u32

record subtype_fact =
  sf_name :: string
  sf_lo :: i64
  sf_hi :: i64

record predicate_fact =
  pf_name :: string
  pf_ir :: "string list"
  pf_ir_hash :: string

record facts =
  fa_words :: "word_fact list"
  fa_subtypes :: "subtype_fact list"
  fa_predicates :: "predicate_fact list"

record obl_set =
  os_schema :: string
  os_semantics :: string
  os_stmt :: string
  os_module :: string
  os_target :: string
  os_platform :: string
  os_model_semantics :: string
  os_concurrency :: string
  os_abi :: u32
  os_facts :: facts
  os_obligations :: "obl_rec list"

definition OBL_SCHEMA :: string where "OBL_SCHEMA = ''tyu.obl/v2''"
definition SEMANTICS_VERSION :: string where "SEMANTICS_VERSION = ''tyu.ir-sem/1.0''"
definition STMT_SCHEMA :: string where "STMT_SCHEMA = ''tyu.stmt/1.0''"
definition MODEL_UNMODELED :: string where "MODEL_UNMODELED = ''unmodeled''"
definition CONCURRENCY_UNMODELED :: string where "CONCURRENCY_UNMODELED = ''unmodeled''"
definition OBL_ARTIFACT_MAX_BYTES :: nat where "OBL_ARTIFACT_MAX_BYTES = 16 * 1024 * 1024"
definition WORD_IR_MAX_BYTES :: nat where "WORD_IR_MAX_BYTES = 8 * 1024"

fun default_intent :: "obl_kind \<Rightarrow> string \<Rightarrow> intent" where
  "default_intent k subject = \<lparr>it_label = (case k of
       SubtypeRange \<Rightarrow> ''value must lie in subtype range''
     | ContractPre \<Rightarrow> ''needs predicate must hold at the call site''
     | ContractPost \<Rightarrow> ''ensures predicate must hold on exit''
     | StackBudget \<Rightarrow> ''data-stack peak must fit the bounded-stack grant''
     | MmioBounds \<Rightarrow> ''MMIO access must stay within the emulated aperture''),
     it_subject = subject, it_authored = False\<rparr>"

section \<open>Identity\<close>

definition fnv1a64 :: "string \<Rightarrow> u64" where
  "fnv1a64 bs = fold (\<lambda>b h. (h XOR of_char b) * 0x100000001b3) bs 0xcbf29ce484222325"

definition push_u64_hex :: "string \<Rightarrow> u64 \<Rightarrow> string" where
  "push_u64_hex out v = out @ write_u64_hex v"

definition format_hex :: "u64 \<Rightarrow> string" where
  "format_hex h = push_u64_hex '''' h"

definition push_u32_decimal :: "string \<Rightarrow> u32 \<Rightarrow> string" where
  "push_u32_decimal out v = out @ write_u32 v"

definition canonical_id :: "string \<Rightarrow> string \<Rightarrow> obl_kind \<Rightarrow> u32 \<Rightarrow> string" where
  "canonical_id module w k n =
     push_u32_decimal (module @ ''::'' @ (if is_utf8 w then w else ''?'') @ ''::'' @ kind_str k @ ''::'') n"

datatype (plugins only: code size) obl_error = CanonicalIdMismatch string string | IdHashMismatch string string

fun validate_loop :: "string \<Rightarrow> obl_rec list \<Rightarrow> obl_error + unit" where
  "validate_loop module [] = Inr ()"
| "validate_loop module (ob # obs) =
    (let expected_id = canonical_id module (st_word (ob_site ob)) (ob_kind ob) (st_occurrence (ob_site ob)) in
     if ob_id ob \<noteq> expected_id then Inl (CanonicalIdMismatch (ob_id ob) expected_id)
     else let expected_hash = format_hex (fnv1a64 (ob_id ob)) in
       if ob_id_hash ob \<noteq> expected_hash then Inl (IdHashMismatch (ob_id ob) expected_hash)
       else validate_loop module obs)"

definition validate :: "obl_set \<Rightarrow> obl_error + unit" where
  "validate os = validate_loop (os_module os) (os_obligations os)"

section \<open>Cycles of a block graph\<close>

text \<open>\<open>reach[i][j] = reach[i][j] || reach[k][j]\<close> for every \<open>j\<close>.\<close>

type_synonym bmat = "bool list list"

definition or_row :: "nat \<Rightarrow> nat \<Rightarrow> bmat \<Rightarrow> bmat" where
  "or_row k i m = (if m ! i ! k then m[i := map2 (\<or>) (m ! i) (m ! k)] else m)"

definition warshall :: "nat \<Rightarrow> bmat \<Rightarrow> bmat" where
  "warshall n m = fold (\<lambda>k m. fold (or_row k) [0..<n] m) [0..<n] m"

definition set_cell :: "nat \<times> nat \<Rightarrow> bmat \<Rightarrow> bmat" where
  "set_cell e m = m[fst e := (m ! fst e)[snd e := True]]"

definition reach_matrix :: "nat \<Rightarrow> (nat \<times> nat) list \<Rightarrow> bmat" where
  "reach_matrix n edges = warshall n
     (fold set_cell edges (fold (\<lambda>i. set_cell (i, i)) [0..<n] (replicate n (replicate n False))))"

text \<open>The deduplicated block ids in ascending order, and the edges of the terminators.\<close>

definition block_ids :: "block list \<Rightarrow> block_id list" where
  "block_ids bs = sort (fold (\<lambda>b ids. if bid b \<in> set ids then ids else ids @ [bid b]) bs [])"

fun index_of :: "block_id list \<Rightarrow> block_id \<Rightarrow> nat option" where
  "index_of [] i = None"
| "index_of (x # xs) i = (if x = i then Some 0 else map_option Suc (index_of xs i))"

definition edge_to :: "block_id list \<Rightarrow> nat \<Rightarrow> block_id \<Rightarrow> (nat \<times> nat) list" where
  "edge_to ids i t = (case index_of ids t of Some j \<Rightarrow> [(i, j)] | None \<Rightarrow> [])"

definition op_edges :: "block_id list \<Rightarrow> nat \<Rightarrow> op \<Rightarrow> (nat \<times> nat) list" where
  "op_edges ids i x = (case kind x of
     Br t \<Rightarrow> edge_to ids i t
   | BrIf t e \<Rightarrow> edge_to ids i t @ edge_to ids i e
   | _ \<Rightarrow> [])"

definition block_edges :: "block_id list \<Rightarrow> block \<Rightarrow> (nat \<times> nat) list" where
  "block_edges ids b = (case index_of ids (bid b) of
     None \<Rightarrow> [] | Some i \<Rightarrow> concat (map (op_edges ids i) (ops b)))"

text \<open>The mutual-reachability classes, kept when they have two members or a self-edge.\<close>

definition class_of_node :: "nat \<Rightarrow> bmat \<Rightarrow> nat \<Rightarrow> nat list" where
  "class_of_node n m i = filter (\<lambda>j. m ! i ! j \<and> m ! j ! i) [0..<n]"

definition class_step :: "nat \<Rightarrow> (nat \<times> nat) list \<Rightarrow> bmat \<Rightarrow> nat
    \<Rightarrow> nat set \<times> nat list list \<Rightarrow> nat set \<times> nat list list" where
  "class_step n edges m i st =
    (let (used, classes) = st in
     if i \<in> used then (used, classes)
     else (let c = sort (class_of_node n m i);
               self_loop = list_ex (\<lambda>(a, b). a = b \<and> a \<in> set c) edges
           in (used \<union> set c, if 1 < length c \<or> self_loop then classes @ [c] else classes)))"

definition cycle_classes :: "nat \<Rightarrow> (nat \<times> nat) list \<Rightarrow> nat list list" where
  "cycle_classes n edges = sort_key hd
     (snd (fold (class_step n edges (reach_matrix n edges)) [0..<n] ({}, [])))"

definition block_name :: "block_id \<Rightarrow> string" where
  "block_name b = push_u32_decimal ''b'' (ucast b)"

definition compute_cycles :: "word_ir \<Rightarrow> cycle list" where
  "compute_cycles w =
    (let ids = block_ids (blocks w);
         classes = cycle_classes (length ids) (concat (map (block_edges ids) (blocks w)))
     in map (\<lambda>(idx, c). \<lparr>cy_index = word_of_nat (idx + 1),
               cy_blocks = map (\<lambda>i. block_name (ids ! i)) c\<rparr>)
          (enumerate 0 classes))"

end
