(* ===== verification/Verdict.thy ===== *)
theory Verdict
  imports OblModel
begin

text \<open>
  The verdict model of crates/verifier/src/verdict.rs: the closed enumerations of
  statuses, trust classes and methods, verdict records and files, the lookup of an
  obligation's record, the count of stale records and the downgrade of \<open>proof\<close> records
  of producers that are not recognised.
\<close>

section \<open>Closed enumerations\<close>

datatype (plugins only: code size) parse_surface = SurfaceInput | SurfaceEcho

datatype (plugins only: code size) rec_status = VS_Discharged | VS_Assumed | VS_Open

fun status_str :: "rec_status \<Rightarrow> string" where
  "status_str VS_Discharged = ''discharged''"
| "status_str VS_Assumed = ''assumed''"
| "status_str VS_Open = ''open''"

definition status_parse :: "string \<Rightarrow> parse_surface \<Rightarrow> rec_status option" where
  "status_parse s _ = map_of [(''discharged'', VS_Discharged), (''assumed'', VS_Assumed), (''open'', VS_Open)] s"

definition status_is_open :: "rec_status \<Rightarrow> bool" where "status_is_open s = (s = VS_Open)"
definition status_is_closed :: "rec_status \<Rightarrow> bool" where "status_is_closed s = (\<not> status_is_open s)"

datatype (plugins only: code size) trust = TrustProof | TrustChecked | TrustAssumed | TrustOpen

fun trust_str :: "trust \<Rightarrow> string" where
  "trust_str TrustProof = ''proof''"
| "trust_str TrustChecked = ''checked''"
| "trust_str TrustAssumed = ''assumed''"
| "trust_str TrustOpen = ''open''"

definition trust_parse :: "string \<Rightarrow> trust option" where
  "trust_parse = map_of [(''proof'', TrustProof), (''checked'', TrustChecked),
     (''assumed'', TrustAssumed), (''open'', TrustOpen)]"

datatype (plugins only: code size) vmethod = MeCertificate | MeRederive | MeDescriptor | MeStackExact | MeInterval

fun method_str :: "vmethod \<Rightarrow> string" where
  "method_str MeCertificate = ''certificate''"
| "method_str MeRederive = ''rederive''"
| "method_str MeDescriptor = ''descriptor''"
| "method_str MeStackExact = ''stack-exact''"
| "method_str MeInterval = ''interval''"

definition method_parse :: "string \<Rightarrow> vmethod option" where
  "method_parse = map_of [(''certificate'', MeCertificate), (''rederive'', MeRederive),
     (''descriptor'', MeDescriptor), (''stack-exact'', MeStackExact), (''interval'', MeInterval)]"

definition binds_statement :: "vmethod \<Rightarrow> bool" where
  "binds_statement m = (m = MeCertificate \<or> m = MeRederive)"

definition proven_admissible_checked :: "vmethod \<Rightarrow> bool" where
  "proven_admissible_checked m = (m = MeDescriptor \<or> m = MeStackExact)"

datatype (plugins only: code size) proof_surface = PS_Source | PS_Ir

fun proof_surface_str :: "proof_surface \<Rightarrow> string" where
  "proof_surface_str PS_Source = ''source''"
| "proof_surface_str PS_Ir = ''ir''"

definition proof_surface_parse :: "string \<Rightarrow> proof_surface option" where
  "proof_surface_parse = map_of [(''source'', PS_Source), (''ir'', PS_Ir)]"

datatype (plugins only: code size) authored = AuthDeveloper | AuthCandidate

fun authored_str :: "authored \<Rightarrow> string" where
  "authored_str AuthDeveloper = ''developer''"
| "authored_str AuthCandidate = ''candidate''"

definition authored_parse :: "string \<Rightarrow> authored option" where
  "authored_parse = map_of [(''developer'', AuthDeveloper), (''candidate'', AuthCandidate)]"

datatype (plugins only: code size) proof_kind = PK_Certificate | PK_Exact | PK_Rederive

fun proof_kind_str :: "proof_kind \<Rightarrow> string" where
  "proof_kind_str PK_Certificate = ''certificate''"
| "proof_kind_str PK_Exact = ''exact''"
| "proof_kind_str PK_Rederive = ''rederive''"

definition proof_kind_parse :: "string \<Rightarrow> proof_kind option" where
  "proof_kind_parse = map_of [(''certificate'', PK_Certificate), (''exact'', PK_Exact), (''rederive'', PK_Rederive)]"

section \<open>Records and files\<close>

record tool_identity =
  ti_name :: string
  ti_version :: string

record certifier =
  ce_class :: string
  ce_name :: string
  ce_recognition :: string
  ce_tool :: tool_identity
  ce_toolchain :: string

record proof_info =
  pi_kind :: proof_kind
  pi_statement :: string
  pi_theorem :: "string option"
  pi_kernel_check :: "string option"
  pi_file :: "string option"
  pi_relies :: "string list option"

record claimed =
  cl_status :: "string option"
  cl_trust :: "string option"
  cl_method :: "string option"
  cl_statement_hash :: "string option"

record verdict_record =
  vr_id :: string
  vr_id_hash :: string
  vr_status :: rec_status
  vr_trust :: trust
  vr_method :: "vmethod option"
  vr_surface :: "proof_surface option"
  vr_statement_hash :: "string option"
  vr_authored :: "authored option"
  vr_proof :: "proof_info option"
  vr_claimed :: "claimed option"
  vr_justification :: "string option"
  vr_witness_reason :: "string option"
  vr_note :: "string option"

definition record_discharged :: "string \<Rightarrow> string \<Rightarrow> trust \<Rightarrow> vmethod \<Rightarrow> verdict_record" where
  "record_discharged i h t m = \<lparr>vr_id = i, vr_id_hash = h, vr_status = VS_Discharged, vr_trust = t,
     vr_method = Some m, vr_surface = None, vr_statement_hash = None, vr_authored = None,
     vr_proof = None, vr_claimed = None, vr_justification = None, vr_witness_reason = None,
     vr_note = None\<rparr>"

definition downgraded_to_assumed :: "verdict_record \<Rightarrow> verdict_record" where
  "downgraded_to_assumed r = r\<lparr>vr_claimed := Some \<lparr>cl_status = Some (status_str (vr_status r)),
       cl_trust = Some (trust_str (vr_trust r)), cl_method = map_option method_str (vr_method r),
       cl_statement_hash = vr_statement_hash r\<rparr>,
     vr_status := VS_Assumed, vr_trust := TrustAssumed\<rparr>"

record verdicts =
  ve_semantics :: string
  ve_stmt :: string
  ve_certifier :: "certifier option"
  ve_target :: string
  ve_model_semantics :: string
  ve_concurrency :: string
  ve_records :: "verdict_record list"

definition verdict_lookup :: "verdicts \<Rightarrow> string \<Rightarrow> string \<Rightarrow> verdict_record option" where
  "verdict_lookup v i h = find (\<lambda>r. vr_id r = i \<and> vr_id_hash r = h) (ve_records v)"

definition stale_count :: "verdicts \<Rightarrow> obl_rec list \<Rightarrow> u32" where
  "stale_count v obs = word_of_nat (length (filter
     (\<lambda>r. \<not> list_ex (\<lambda>ob. ob_id ob = vr_id r \<and> ob_id_hash ob = vr_id_hash r) obs) (ve_records v)))"

definition RECOGNIZED_CERTIFIERS :: "string list" where
  "RECOGNIZED_CERTIFIERS = [''tyu-port/lean/1'']"

definition producer_recognized :: "verdicts \<Rightarrow> bool" where
  "producer_recognized v = (case ve_certifier v of
     Some c \<Rightarrow> ce_recognition c \<in> set RECOGNIZED_CERTIFIERS | None \<Rightarrow> False)"

definition restrict_to_recognized :: "verdicts \<Rightarrow> verdicts" where
  "restrict_to_recognized v = (if producer_recognized v then v
     else v\<lparr>ve_records := map (\<lambda>r. if vr_trust r = TrustProof then downgraded_to_assumed r else r) (ve_records v)\<rparr>)"

section \<open>The echo\<close>

record emitted_checks =
  em_subtype_range :: u32
  em_contract :: u32
  em_mmio_bounds :: u32

record provably_failing_record =
  pfr_id :: string
  pfr_note :: string

record open_reason_record =
  orr_id :: string
  orr_reason :: string

record echo =
  ec_verdicts :: verdicts
  ec_stale :: u32
  ec_emitted :: emitted_checks
  ec_provably_failing :: "provably_failing_record list"
  ec_open_reasons :: "open_reason_record list"
  ec_file_verdicts :: u32
  ec_in_tree_verdicts :: u32

datatype (plugins only: code size) verdict_error = VMalformed | VSchemaVersion string | VSemanticsMismatch string
  | VUnknownMethod string string | VTooLarge nat | VFuel

fun verdict_error_code :: "verdict_error \<Rightarrow> nat" where
  "verdict_error_code (VUnknownMethod _ _) = 6417"
| "verdict_error_code _ = 6402"

definition VERDICTS_SCHEMA :: string where "VERDICTS_SCHEMA = ''tyu.verdicts/v2''"
definition VERDICTS_STMT :: string where "VERDICTS_STMT = STMT_SCHEMA"
definition VERDICTS_FILE_MAX_BYTES :: nat where "VERDICTS_FILE_MAX_BYTES = 4 * 1024 * 1024"
definition VERDICT_ID_MAX_BYTES :: nat where "VERDICT_ID_MAX_BYTES = 512"

section \<open>Resolved verdicts\<close>

datatype (plugins only: code size) verdict_source = SourceFile | SourceInTree

record resolved_verdict =
  rv_id :: string
  rv_id_hash :: string
  rv_kind :: obl_kind
  rv_status :: rec_status
  rv_trust :: trust
  rv_method :: "vmethod option"
  rv_justification :: "string option"
  rv_statement_hash :: "string option"
  rv_provably_failing :: bool
  rv_reason :: "string option"
  rv_source :: verdict_source

definition rv_method_str :: "resolved_verdict \<Rightarrow> string option" where
  "rv_method_str r = map_option method_str (rv_method r)"

section \<open>Round trips of the enumerations, and what the file logic guarantees\<close>

lemma status_round_trip [simp]: "status_parse (status_str s) surf = Some s"
  by (cases s) (simp_all add: status_parse_def)

lemma trust_round_trip [simp]: "trust_parse (trust_str t) = Some t"
  by (cases t) (simp_all add: trust_parse_def)

lemma method_round_trip [simp]: "method_parse (method_str m) = Some m"
  by (cases m) (simp_all add: method_parse_def)

lemma proof_surface_round_trip [simp]: "proof_surface_parse (proof_surface_str s) = Some s"
  by (cases s) (simp_all add: proof_surface_parse_def)

lemma authored_round_trip [simp]: "authored_parse (authored_str a) = Some a"
  by (cases a) (simp_all add: authored_parse_def)

lemma proof_kind_round_trip [simp]: "proof_kind_parse (proof_kind_str k) = Some k"
  by (cases k) (simp_all add: proof_kind_parse_def)

lemma lookup_Some: "verdict_lookup v i h = Some r \<Longrightarrow> r \<in> set (ve_records v) \<and> vr_id r = i \<and> vr_id_hash r = h"
  using find_SomeD unfolding verdict_lookup_def by fastforce

text \<open>The downgrade keeps identity, order and every record that claims less than a proof,
  and is idempotent.\<close>

lemma restrict_proof:
  "r \<in> set (ve_records (restrict_to_recognized v)) \<Longrightarrow> vr_trust r = TrustProof \<Longrightarrow> producer_recognized v"
  by (auto simp: restrict_to_recognized_def downgraded_to_assumed_def split: if_splits)

lemma restrict_ids: "map vr_id (ve_records (restrict_to_recognized v)) = map vr_id (ve_records v)"
  by (simp add: restrict_to_recognized_def downgraded_to_assumed_def)

lemma restrict_recognized [simp]: "producer_recognized (restrict_to_recognized v) = producer_recognized v"
  by (simp add: restrict_to_recognized_def producer_recognized_def)

lemma restrict_idem: "restrict_to_recognized (restrict_to_recognized v) = restrict_to_recognized v"
  by (simp add: restrict_to_recognized_def producer_recognized_def downgraded_to_assumed_def comp_def)

end
