(* ===== verification/AbsInterp.thy ===== *)
theory AbsInterp
  imports MemModel Semantics Verdict
begin

text \<open>
  The abstract interpreter of crates/verifier/src/interp.rs: slots (interval and
  origin), the abstract state, the normative transfer table \<open>State::step\<close>, the
  per-block linear engine, hull and widening, the worklist engine \<open>run_cfg\<close> and
  the exit state. The abstract stack is a list whose head is the top of the
  source's \<open>Vec\<close>; the merges, which index from the bottom, reverse it. An index
  out of range in the worklist engine, a panic in the source, is \<open>None\<close>.
\<close>

section \<open>Slots and states\<close>

datatype origin = Arg u32 | Local u32 | Computed | OTop

record slot =
  iv :: interval
  origin :: origin

record astate =
  astack :: "slot list"
  alocals :: "slot list"

record target_spec =
  triple :: string
  slot_bytes :: u8
  word_bits :: u8
  arch_tag :: u8

definition X86_64_UNKNOWN_NONE :: target_spec where
  "X86_64_UNKNOWN_NONE =
     \<lparr>triple = ''x86_64-unknown-none'', slot_bytes = 8, word_bits = 64, arch_tag = 1\<rparr>"

definition MAX_SLOTS :: nat where "MAX_SLOTS = 64"

definition slot_top :: slot where "slot_top = \<lparr>iv = ITop, origin = OTop\<rparr>"

definition slot_computed :: "interval \<Rightarrow> slot" where
  "slot_computed i = \<lparr>iv = i, origin = Computed\<rparr>"

definition fresh :: "nat \<Rightarrow> astate" where
  "fresh locals_cap = \<lparr>astack = [], alocals = replicate (min locals_cap MAX_SLOTS) slot_top\<rparr>"

text \<open>Input slot \<open>i\<close> is pushed \<open>i\<close>-th, so the last input is on top.\<close>

definition callee_entry :: "nat \<Rightarrow> nat \<Rightarrow> astate" where
  "callee_entry n_in locals_cap = (fresh locals_cap)\<lparr>astack :=
     rev (map (\<lambda>i. \<lparr>iv = ITop, origin = Arg (word_of_nat i)\<rparr>) [0..<n_in])\<rparr>"

definition top_interval :: "astate \<Rightarrow> interval" where
  "top_interval s = (case astack s of [] \<Rightarrow> Bottom | x # _ \<Rightarrow> iv x)"

definition top_n_intervals :: "nat \<Rightarrow> astate \<Rightarrow> interval list" where
  "top_n_intervals n s = map iv (rev (take n (astack s)))"

definition truncate_stack :: "nat \<Rightarrow> astate \<Rightarrow> astate" where
  "truncate_stack len s = s\<lparr>astack := drop (length (astack s) - len) (astack s)\<rparr>"

text \<open>\<open>push\<close> saturates: a full stack is cut to its 63 bottom slots first.\<close>

definition a_push :: "slot \<Rightarrow> astate \<Rightarrow> astate" where
  "a_push x s = s\<lparr>astack := x #
     (if MAX_SLOTS \<le> length (astack s) then drop (length (astack s) - (MAX_SLOTS - 1)) (astack s)
      else astack s)\<rparr>"

definition a_pop :: "astate \<Rightarrow> slot \<times> astate" where
  "a_pop s = (case astack s of [] \<Rightarrow> (slot_top, s) | x # xs \<Rightarrow> (x, s\<lparr>astack := xs\<rparr>))"

fun a_popn :: "nat \<Rightarrow> astate \<Rightarrow> astate" where
  "a_popn 0 s = s"
| "a_popn (Suc n) s = a_popn n (snd (a_pop s))"

fun a_pushn :: "nat \<Rightarrow> slot \<Rightarrow> astate \<Rightarrow> astate" where
  "a_pushn 0 x s = s"
| "a_pushn (Suc n) x s = a_pushn n x (a_push x s)"

definition a_binop :: "(interval \<Rightarrow> interval \<Rightarrow> interval) \<Rightarrow> astate \<Rightarrow> astate" where
  "a_binop f s = (let (b, s) = a_pop s; (a, s) = a_pop s in a_push (slot_computed (f (iv a) (iv b))) s)"

text \<open>\<open>predicate_call\<close>: pop the arguments, push them back in order, then the
  extra outputs.\<close>

fun pop_args :: "nat \<Rightarrow> astate \<Rightarrow> slot list \<times> astate" where
  "pop_args 0 s = ([], s)"
| "pop_args (Suc n) s = (let (x, s) = a_pop s; (xs, s) = pop_args n s in (x # xs, s))"

definition predicate_call :: "nat \<Rightarrow> nat \<Rightarrow> astate \<Rightarrow> astate" where
  "predicate_call inn out s =
     (let (args, s) = pop_args inn s; s = fold a_push (rev args) s
      in a_pushn (out - inn) (slot_computed ITop) s)"

section \<open>The transfer table\<close>

type_synonym subtype_range = "type_id \<Rightarrow> (i64 \<times> i64) option"

text \<open>The rows that do not consult the memory model.\<close>

definition step_plain :: "subtype_range \<Rightarrow> op_kind \<Rightarrow> astate \<Rightarrow> astate" where
  "step_plain sr k s = (case k of
     ConstI64 v \<Rightarrow> a_push (slot_computed (const_val v)) s
   | ConstBool b \<Rightarrow> a_push (slot_computed (const_val (if b then 1 else 0))) s
   | ConstStr _ \<Rightarrow> a_push slot_top s
   | AddrOf _ _ _ \<Rightarrow> a_push slot_top s
   | MmioPlace _ _ _ \<Rightarrow> a_push slot_top s
   | ScopedEnter _ _ \<Rightarrow> a_push slot_top s
   | TaskSpawn _ _ \<Rightarrow> a_push slot_top s
   | PtrAddConst _ _ \<Rightarrow> (let (_, s) = a_pop s in a_push slot_top s)
   | PtrAddIndex _ _ \<Rightarrow> (let (_, s) = a_pop s; (_, s) = a_pop s in a_push slot_top s)
   | Dup _ \<Rightarrow> (let (v, s) = a_pop s in a_push v (a_push v s))
   | Drop _ \<Rightarrow> snd (a_pop s)
   | Swap _ _ \<Rightarrow> (let (b, s) = a_pop s; (a, s) = a_pop s in a_push a (a_push b s))
   | AddI64 \<Rightarrow> a_binop iv_add s
   | SubI64 \<Rightarrow> a_binop iv_sub s
   | MulI64 \<Rightarrow> a_binop iv_mul s
   | Cmp _ c \<Rightarrow> a_binop (\<lambda>a b. bool_iv (tri_cmp a b c)) s
   | AndBool \<Rightarrow> a_binop (\<lambda>a b. bool_iv (tri_and (tri_from_bool_iv a) (tri_from_bool_iv b))) s
   | OrBool \<Rightarrow> a_binop (\<lambda>a b. bool_iv (tri_or (tri_from_bool_iv a) (tri_from_bool_iv b))) s
   | NotBool \<Rightarrow> (let (a, s) = a_pop s in
       a_push (slot_computed (bool_iv (tri_not (tri_from_bool_iv (iv a))))) s)
   | LocalSet sl _ \<Rightarrow> (let (v, s) = a_pop s in
       if unat sl < length (alocals s) then s\<lparr>alocals := (alocals s)[unat sl := v]\<rparr> else s)
   | LocalGet sl _ \<Rightarrow>
       a_push (case get (alocals s) (unat sl) of Some v \<Rightarrow> v | None \<Rightarrow> slot_top) s
   | Cast _ to \<Rightarrow> (let (v, s) = a_pop s in
       a_push (slot_computed (case sr to of Some (lo, hi) \<Rightarrow> cast_narrow (iv v) lo hi
                              | None \<Rightarrow> iv v)) s)
   | Bitcast _ _ \<Rightarrow> (let (v, s) = a_pop s in a_push v s)
   | Call _ sg _ _ _ \<Rightarrow>
       a_pushn (unat (out_len sg)) (slot_computed ITop) (a_popn (unat (in_len sg)) s)
   | TrapIfFalse _ \<Rightarrow> snd (a_pop s)
   | BrIf _ _ \<Rightarrow> snd (a_pop s)
   | _ \<Rightarrow> s)"

text \<open>\<open>State::step\<close>: the memory and device rows consult the model.\<close>

definition abs_step ::
  "'m mem_ops \<Rightarrow> target_spec \<Rightarrow> subtype_range \<Rightarrow> op_kind \<Rightarrow> 'm \<times> astate \<Rightarrow> 'm \<times> astate" where
  "abs_step mem spec sr k ms = (let (m, s) = ms in case k of
     Load _ \<Rightarrow> (let (a, s) = a_pop s in
       (m, a_push (slot_computed (mo_load mem m (iv a) (word_bits spec))) s))
   | Store _ \<Rightarrow> (let (v, s) = a_pop s; (a, s) = a_pop s in (mo_store mem m (iv a) (iv v), s))
   | MmioVolLoad _ place _ _ _ \<Rightarrow> (let (_, s) = a_pop s;
         (v, m) = mo_aperture_read mem m place (word_bits spec) in (m, a_push (slot_computed v) s))
   | MmioVolLoadField _ _ place _ _ _ _ _ \<Rightarrow> (let (_, s) = a_pop s;
         (v, m) = mo_aperture_read mem m place (word_bits spec) in (m, a_push (slot_computed v) s))
   | MmioVolStore _ place _ _ _ _ \<Rightarrow> (let (v, s) = a_pop s; (_, s) = a_pop s in
         (mo_aperture_write mem m place (iv v), s))
   | MmioVolStoreField _ _ place _ _ _ _ _ _ \<Rightarrow> (let (v, s) = a_pop s; (_, s) = a_pop s in
         (mo_aperture_write mem m place (iv v), s))
   | _ \<Rightarrow> (m, step_plain sr k s))"

definition abs_run ::
  "'m mem_ops \<Rightarrow> target_spec \<Rightarrow> subtype_range \<Rightarrow> op_kind list \<Rightarrow> 'm \<times> astate \<Rightarrow> 'm \<times> astate" where
  "abs_run mem spec sr ks ms = fold (abs_step mem spec sr) ks ms"

section \<open>Hull, widening and first-visit merge\<close>

definition merge_origin :: "origin \<Rightarrow> origin \<Rightarrow> origin" where
  "merge_origin a b = (if a = b then a else Computed)"

definition hull_slot :: "slot \<Rightarrow> slot \<Rightarrow> slot" where
  "hull_slot a b = \<lparr>iv = join (iv a) (iv b), origin = merge_origin (origin a) (origin b)\<rparr>"

definition widen_slot :: "slot \<Rightarrow> slot \<Rightarrow> slot" where
  "widen_slot old new = \<lparr>iv = (if subset_of (iv new) (iv old) then iv old else ITop),
     origin = (if origin old = OTop \<or> origin old = origin new then origin old else Computed)\<rparr>"

definition get_or :: "'a \<Rightarrow> 'a list \<Rightarrow> nat \<Rightarrow> 'a" where
  "get_or d xs i = (case get xs i of Some x \<Rightarrow> x | None \<Rightarrow> d)"

definition zip_long :: "(slot \<Rightarrow> slot \<Rightarrow> slot) \<Rightarrow> slot \<Rightarrow> slot list \<Rightarrow> slot list \<Rightarrow> slot list" where
  "zip_long f d xs ys =
     map (\<lambda>i. f (get_or d xs i) (get_or d ys i)) [0..<max (length xs) (length ys)]"

text \<open>\<open>widen_state\<close>: the first \<open>stack_len\<close> slots from the bottom.\<close>

definition widen_state :: "astate \<Rightarrow> astate \<Rightarrow> nat \<Rightarrow> astate" where
  "widen_state header body_end stack_len =
     \<lparr>astack = rev (take stack_len (map2 widen_slot (rev (astack header)) (rev (astack body_end)))),
      alocals = zip_long widen_slot slot_top (alocals header) (alocals body_end)\<rparr>"

definition merge_first_visit :: "astate \<Rightarrow> astate \<Rightarrow> astate" where
  "merge_first_visit old inc =
     \<lparr>astack = rev (zip_long hull_slot (slot_computed Bottom) (rev (astack old)) (rev (astack inc))),
      alocals = zip_long hull_slot slot_top (alocals old) (alocals inc)\<rparr>"

text \<open>\<open>hull_state\<close>: the join of the first \<open>stack_len\<close> slots from the bottom.\<close>

definition hull_state :: "astate \<Rightarrow> astate \<Rightarrow> nat \<Rightarrow> astate" where
  "hull_state a b stack_len =
     \<lparr>astack = rev (take stack_len (map2 hull_slot (rev (astack a)) (rev (astack b)))),
      alocals = zip_long hull_slot slot_top (alocals a) (alocals b)\<rparr>"

section \<open>The linear engine\<close>

text \<open>One state per block id; reading a block that was never created panics
  (\<open>None\<close>).\<close>

record linear =
  lin_spec :: target_spec
  lin_blocks :: "astate list"

definition linear_new :: "target_spec \<Rightarrow> nat \<Rightarrow> nat \<Rightarrow> linear" where
  "linear_new spec n_in locals_cap =
     \<lparr>lin_spec = spec, lin_blocks = [callee_entry n_in locals_cap]\<rparr>"

definition lin_extend :: "nat \<Rightarrow> linear \<Rightarrow> linear" where
  "lin_extend idx l = l\<lparr>lin_blocks :=
     lin_blocks l @ replicate (Suc idx - length (lin_blocks l)) (fresh 64)\<rparr>"

definition lin_set :: "nat \<Rightarrow> astate \<Rightarrow> linear \<Rightarrow> linear" where
  "lin_set idx s l = l\<lparr>lin_blocks := (lin_blocks l)[idx := s]\<rparr>"

definition linear_step ::
  "'m mem_ops \<Rightarrow> subtype_range \<Rightarrow> block_id \<Rightarrow> op_kind \<Rightarrow> 'm \<times> linear \<Rightarrow> 'm \<times> linear" where
  "linear_step mem sr b k ml =
     (let (m, l) = ml; l = lin_extend (unat b) l;
          (m, s) = abs_step mem (lin_spec l) sr k (m, lin_blocks l ! unat b)
      in (m, lin_set (unat b) s l))"

definition lin_state :: "linear \<Rightarrow> block_id \<Rightarrow> astate option" where
  "lin_state l b = get (lin_blocks l) (unat b)"

definition state_or_fresh :: "linear \<Rightarrow> block_id \<Rightarrow> astate" where
  "state_or_fresh l b = get_or (fresh 64) (lin_blocks l) (unat b)"

definition seed_from :: "block_id \<Rightarrow> block_id \<Rightarrow> nat \<Rightarrow> linear \<Rightarrow> linear option" where
  "seed_from target src stack_len l =
     (let l = lin_extend (unat target) l in
      case lin_state l src of None \<Rightarrow> None
      | Some s \<Rightarrow> Some (lin_set (unat target) (truncate_stack stack_len s) l))"

definition seed_join :: "block_id \<Rightarrow> block_id \<Rightarrow> block_id \<Rightarrow> nat \<Rightarrow> linear \<Rightarrow> linear option" where
  "seed_join target a b stack_len l =
     (let l = lin_extend (unat target) l in
      case (lin_state l a, lin_state l b) of
        (Some sa, Some sb) \<Rightarrow> Some (lin_set (unat target) (hull_state sa sb stack_len) l)
      | _ \<Rightarrow> None)"

definition widen_loop :: "block_id \<Rightarrow> block_id \<Rightarrow> nat \<Rightarrow> linear \<Rightarrow> linear option" where
  "widen_loop header body_end stack_len l =
     (case (lin_state l header, lin_state l body_end) of
        (Some h, Some b) \<Rightarrow> Some (lin_set (unat header) (widen_state h b stack_len) l)
      | _ \<Rightarrow> None)"

section \<open>The worklist engine\<close>

definition block_successors_from :: "block \<Rightarrow> block_id list" where
  "block_successors_from b =
    (if ops b = [] then [] else (case kind (last (ops b)) of
       Br t \<Rightarrow> [t] | BrIf t e \<Rightarrow> [t, e] | _ \<Rightarrow> []))"

record cfg_state =
  cf_states :: "astate list"
  cf_visits :: "nat list"
  cf_work :: "block_id list"

text \<open>Propagating the flow to one successor; the worklist's head is the top of the
  source's \<open>Vec\<close>.\<close>

definition propagate :: "word_ir \<Rightarrow> astate \<Rightarrow> block_id \<Rightarrow> cfg_state \<Rightarrow> cfg_state option" where
  "propagate w flow tgt cs =
    (let ti = unat tgt in
     if length (cf_visits cs) \<le> ti then None
     else Some (cs\<lparr>cf_states := (cf_states cs)[ti :=
            (if 0 < cf_visits cs ! ti
             then widen_state (cf_states cs ! ti) flow (unat (out_len (w_sig w)))
             else merge_first_visit (cf_states cs ! ti) flow)],
          cf_work := tgt # cf_work cs\<rparr>))"

fun propagate_all :: "word_ir \<Rightarrow> astate \<Rightarrow> block_id list \<Rightarrow> cfg_state \<Rightarrow> cfg_state option" where
  "propagate_all w flow [] cs = Some cs"
| "propagate_all w flow (t # ts) cs =
    (case propagate w flow t cs of None \<Rightarrow> None | Some cs' \<Rightarrow> propagate_all w flow ts cs')"

text \<open>One iteration: pop a block, count the visit, run its ops, propagate.\<close>

definition cfg_visit ::
  "'m mem_ops \<Rightarrow> target_spec \<Rightarrow> subtype_range \<Rightarrow> word_ir \<Rightarrow> block_id \<Rightarrow> 'm \<times> cfg_state
   \<Rightarrow> ('m \<times> cfg_state) option" where
  "cfg_visit mem spec sr w b mcs = (let (m, cs) = mcs; idx = unat b in
     if length (cf_visits cs) \<le> idx then None
     else (let cs = cs\<lparr>cf_visits := (cf_visits cs)[idx := cf_visits cs ! idx + 1]\<rparr> in
       case get (blocks w) idx of
         None \<Rightarrow> Some (m, cs)
       | Some blk \<Rightarrow>
           (let (m, flow) = abs_run mem spec sr (map kind (ops blk)) (m, cf_states cs ! idx) in
            case propagate_all w flow (block_successors_from blk) cs of
              None \<Rightarrow> None | Some cs \<Rightarrow> Some (m, cs))))"

text \<open>The loop, with the source's budget as its recursion bound: the loop stops
  when the worklist is empty or the budget is used up.\<close>

fun cfg_loop ::
  "nat \<Rightarrow> 'm mem_ops \<Rightarrow> target_spec \<Rightarrow> subtype_range \<Rightarrow> word_ir \<Rightarrow> 'm \<times> cfg_state
   \<Rightarrow> ('m \<times> cfg_state) option" where
  "cfg_loop 0 mem spec sr w (m, cs) = Some (m, cs\<lparr>cf_work := tl (cf_work cs)\<rparr>)"
| "cfg_loop (Suc budget) mem spec sr w (m, cs) =
    (case cf_work cs of
       [] \<Rightarrow> Some (m, cs)
     | b # bs \<Rightarrow>
         (case cfg_visit mem spec sr w b (m, cs\<lparr>cf_work := bs\<rparr>) of
            None \<Rightarrow> None | Some mcs \<Rightarrow> cfg_loop budget mem spec sr w mcs))"

definition nblocks_of :: "word_ir \<Rightarrow> nat" where
  "nblocks_of w = max (length (blocks w)) 1"

definition cfg_init :: "word_ir \<Rightarrow> cfg_state" where
  "cfg_init w = (let n = nblocks_of w in
     \<lparr>cf_states = callee_entry (unat (in_len (w_sig w))) 64 # replicate (n - 1) (fresh 64),
      cf_visits = replicate n 0, cf_work = [0]\<rparr>)"

definition run_cfg ::
  "'m mem_ops \<Rightarrow> target_spec \<Rightarrow> subtype_range \<Rightarrow> word_ir \<Rightarrow> 'm \<Rightarrow> ('m \<times> astate list) option" where
  "run_cfg mem spec sr w m =
    (case cfg_loop (nblocks_of w * 4 + 2) mem spec sr w (m, cfg_init w) of
       None \<Rightarrow> None | Some (m, cs) \<Rightarrow> Some (m, cf_states cs))"

text \<open>\<open>exit_state\<close>: the hull over all blocks that end in \<open>Ret\<close>.\<close>

definition returns :: "block \<Rightarrow> bool" where
  "returns b = (ops b \<noteq> [] \<and> kind (last (ops b)) = Ret)"

fun exit_fold ::
  "'m mem_ops \<Rightarrow> target_spec \<Rightarrow> subtype_range \<Rightarrow> astate list \<Rightarrow> (nat \<times> block) list
   \<Rightarrow> 'm \<times> astate option \<Rightarrow> 'm \<times> astate option" where
  "exit_fold mem spec sr states [] macc = macc"
| "exit_fold mem spec sr states ((i, b) # bs) (m, acc) =
    (if \<not> returns b then exit_fold mem spec sr states bs (m, acc)
     else (let (m, flow) = abs_run mem spec sr (map kind (ops b)) (m, get_or (fresh 1) states i) in
       exit_fold mem spec sr states bs (m, Some (case acc of None \<Rightarrow> flow
                                              | Some a \<Rightarrow> merge_first_visit a flow))))"

definition exit_state ::
  "'m mem_ops \<Rightarrow> target_spec \<Rightarrow> subtype_range \<Rightarrow> astate list \<Rightarrow> word_ir \<Rightarrow> 'm \<Rightarrow> 'm \<times> astate" where
  "exit_state mem spec sr states w m =
    (let (m, acc) = exit_fold mem spec sr states (enumerate 0 (blocks w)) (m, None)
     in (m, case acc of Some a \<Rightarrow> a | None \<Rightarrow> fresh 1))"

section \<open>Discharge\<close>

record in_tree_verdict =
  v_status :: rec_status
  provably_failing :: bool
  v_reason :: "string option"

definition push_i64 :: "i64 \<Rightarrow> string" where
  "push_i64 v = (if v = i64_min then ''-9223372036854775808''
     else (if v < 0 then ''-'' else '''')
       @ (if v = 0 then ''0'' else rev (digit_loop 20 10 \<bar>v\<bar>)))"

fun push_iv :: "interval \<Rightarrow> string" where
  "push_iv Bottom = ''<bottom>''"
| "push_iv ITop = ''<top>''"
| "push_iv (Range lo hi) = ''['' @ push_i64 lo @ '', '' @ push_i64 hi @ '']''"

definition range_reason :: "interval \<Rightarrow> i64 \<Rightarrow> i64 \<Rightarrow> bool \<Rightarrow> string" where
  "range_reason val lo hi proven =
     (if proven then ''provably '' else '''') @ ''interval '' @ push_iv val
     @ '' vs target ['' @ push_i64 lo @ '', '' @ push_i64 hi @ '']''"

definition of_range :: "interval \<Rightarrow> i64 \<Rightarrow> i64 \<Rightarrow> in_tree_verdict" where
  "of_range val lo hi = (case eval_in_range val lo hi of
     DefTrue \<Rightarrow> \<lparr>v_status = VS_Discharged, provably_failing = False,
       v_reason = Some (range_reason val lo hi True)\<rparr>
   | DefFalse \<Rightarrow> \<lparr>v_status = VS_Open, provably_failing = True,
       v_reason = Some (range_reason val lo hi False)\<rparr>
   | TTop \<Rightarrow> \<lparr>v_status = VS_Open, provably_failing = False,
       v_reason = Some (range_reason val lo hi False)\<rparr>)"

definition in_tree_open :: "string \<Rightarrow> in_tree_verdict" where
  "in_tree_open reason = \<lparr>v_status = VS_Open, provably_failing = False, v_reason = Some reason\<rparr>"

text \<open>The pre-cast tops of the narrowing casts, in block order. Every block starts from a
  state that knows nothing.\<close>

fun cast_tops :: "'m mem_ops \<Rightarrow> target_spec \<Rightarrow> subtype_range \<Rightarrow> op_kind list \<Rightarrow> 'm \<times> astate
    \<Rightarrow> 'm \<times> interval list" where
  "cast_tops mem spec sr [] (m, a) = (m, [])"
| "cast_tops mem spec sr (k # ks) (m, a) =
    (let here = (case k of Cast _ to \<Rightarrow> (if sr to \<noteq> None then [top_interval a] else []) | _ \<Rightarrow> []);
         (m, rest) = cast_tops mem spec sr ks (abs_step mem spec sr k (m, a))
     in (m, here @ rest))"

fun seen_casts :: "'m mem_ops \<Rightarrow> target_spec \<Rightarrow> subtype_range \<Rightarrow> block list \<Rightarrow> 'm \<Rightarrow> interval list" where
  "seen_casts mem spec sr [] m = []"
| "seen_casts mem spec sr (b # bs) m =
    (let (m, here) = cast_tops mem spec sr (map kind (ops b)) (m, fresh 1)
     in here @ seen_casts mem spec sr bs m)"

definition word_output :: "word_ir \<Rightarrow> astate \<Rightarrow> interval" where
  "word_output w ex =
     (case top_n_intervals (unat (out_len (w_sig w))) ex of [] \<Rightarrow> ITop | i # _ \<Rightarrow> i)"

text \<open>One pass over the obligations; \<open>n\<close> counts the cast formulas met so far.\<close>

fun discharge_loop :: "word_ir \<Rightarrow> astate \<Rightarrow> interval list \<Rightarrow> nat \<Rightarrow> obl_rec list \<Rightarrow> in_tree_verdict list" where
  "discharge_loop w ex casts n [] = []"
| "discharge_loop w ex casts n (ob # obs) =
    (case ob_formula ob of
       InRange (OelVar name) lo hi \<Rightarrow>
         of_range (if name = ''out.i'' then word_output w ex else ITop) lo hi
         # discharge_loop w ex casts n obs
     | InRange (OelCast _ _ _) lo hi \<Rightarrow>
         of_range (get_or ITop casts n) lo hi # discharge_loop w ex casts (n + 1) obs
     | OffsetLE _ _ _ \<Rightarrow>
         in_tree_open ''mmio-bounds obligations are descriptor-discharged'' # discharge_loop w ex casts n obs
     | PredicateHolds _ _ \<Rightarrow>
         in_tree_open ''contract obligations are resolved at the emission site''
         # discharge_loop w ex casts n obs)"

definition discharge_word :: "'m mem_ops \<Rightarrow> target_spec \<Rightarrow> subtype_range \<Rightarrow> word_ir \<Rightarrow> obl_rec list \<Rightarrow> 'm
    \<Rightarrow> in_tree_verdict list option" where
  "discharge_word mem spec sr w obs m =
    (case run_cfg mem spec sr w m of
       None \<Rightarrow> None
     | Some (m, sts) \<Rightarrow>
        (let (m, ex) = exit_state mem spec sr sts w m
         in Some (discharge_loop w ex (seen_casts mem spec sr (blocks w) m) 0 obs)))"

end
