(* ===== verification/AbsSound.thy ===== *)
theory AbsSound
  imports AbsInterp
begin

text \<open>
  Soundness of the transfer table: the abstract state covers the concrete state
  after every op, along every straight-line run and through a discharged
  obligation, for each memory model that meets the contract of \<open>mem_model\<close>. The
  concrete side extends \<open>ir_step\<close> of the reference interpreter to the remaining
  ops: addresses, spawns and calls deliver arbitrary values, a cast to a subtype
  and a trap test only continue when their check passes.
\<close>

section \<open>The concrete steps\<close>

fun opaque_ins :: "op_kind \<Rightarrow> nat option" where
  "opaque_ins (ConstStr _) = Some 0"
| "opaque_ins (AddrOf _ _ _) = Some 0"
| "opaque_ins (MmioPlace _ _ _) = Some 0"
| "opaque_ins (ScopedEnter _ _) = Some 0"
| "opaque_ins (TaskSpawn _ _) = Some 0"
| "opaque_ins (PtrAddConst _ _) = Some 1"
| "opaque_ins (PtrAddIndex _ _) = Some 2"
| "opaque_ins _ = None"

fun fragment_op :: "op_kind \<Rightarrow> bool" where
  "fragment_op (Load _) = True"
| "fragment_op (Store _) = True"
| "fragment_op (MmioVolLoad _ _ _ _ _) = True"
| "fragment_op (MmioVolStore _ _ _ _ _ _) = True"
| "fragment_op (LocalGet _ _) = True"
| "fragment_op (LocalSet _ _) = True"
| "fragment_op (ConstI64 _) = True"
| "fragment_op (ConstBool _) = True"
| "fragment_op (Dup _) = True"
| "fragment_op (Drop _) = True"
| "fragment_op (Swap _ _) = True"
| "fragment_op AddI64 = True"
| "fragment_op SubI64 = True"
| "fragment_op MulI64 = True"
| "fragment_op (Cmp _ _) = True"
| "fragment_op AndBool = True"
| "fragment_op OrBool = True"
| "fragment_op NotBool = True"
| "fragment_op InterruptDisable = True"
| "fragment_op InterruptEnable = True"
| "fragment_op (Br _) = True"
| "fragment_op Ret = True"
| "fragment_op _ = False"

inductive conc_step :: "subtype_range \<Rightarrow> op_kind \<Rightarrow> cmem \<times> cstate \<Rightarrow> cmem \<times> cstate \<Rightarrow> bool" for sr where
  fragment: "\<lbrakk>fragment_op k; op_pops k \<le> length (cstack s); ir_step m k s = ms'\<rbrakk>
    \<Longrightarrow> conc_step sr k (m, s) ms'"
| opaque: "\<lbrakk>opaque_ins k = Some n; n \<le> length (cstack s)\<rbrakk>
    \<Longrightarrow> conc_step sr k (m, s) (m, s\<lparr>cstack := v # drop n (cstack s)\<rparr>)"
| call: "\<lbrakk>unat (in_len sg) \<le> length (cstack s); length vs = unat (out_len sg)\<rbrakk>
    \<Longrightarrow> conc_step sr (Call f sg p r b) (m, s)
          (m', s\<lparr>cstack := vs @ drop (unat (in_len sg)) (cstack s)\<rparr>)"
| cast: "\<lbrakk>cstack s = v # vs; case sr to of Some (lo, hi) \<Rightarrow> lo \<le> v \<and> v \<le> hi | None \<Rightarrow> True\<rbrakk>
    \<Longrightarrow> conc_step sr (Cast from to) (m, s) (m, s)"
| bitcast: "cstack s = v # vs \<Longrightarrow> conc_step sr (Bitcast from to) (m, s) (m, s)"
| vol_load_field: "cstack s = v # vs
    \<Longrightarrow> conc_step sr (MmioVolLoadField rg fl p mk sh rk am ba) (m, s)
          (m, s\<lparr>cstack := mmio_oracle m # vs\<rparr>)"
| vol_store_field: "cstack s = u # v # vs
    \<Longrightarrow> conc_step sr (MmioVolStoreField rg fl p mk sh wk rk am ba) (m, s) (m, s\<lparr>cstack := vs\<rparr>)"
| trap_if_false: "cstack s = v # vs \<Longrightarrow> v \<noteq> 0
    \<Longrightarrow> conc_step sr (TrapIfFalse c) (m, s) (m, s\<lparr>cstack := vs\<rparr>)"
| br_if: "cstack s = v # vs \<Longrightarrow> conc_step sr (BrIf t e) (m, s) (m, s\<lparr>cstack := vs\<rparr>)"

section \<open>The covering relation\<close>

text \<open>Slot by slot from the top: an abstract slot covers the concrete value, and
  the concrete list is at least as long.\<close>

fun covers :: "slot list \<Rightarrow> i64 list \<Rightarrow> bool" where
  "covers [] vs = True"
| "covers (x # xs) [] = False"
| "covers (x # xs) (v # vs) = (contains (iv x) v \<and> covers xs vs)"

definition abstracts :: "astate \<Rightarrow> cstate \<Rightarrow> bool" where
  "abstracts a c = (covers (astack a) (cstack c) \<and> covers (alocals a) (clocals c))"

lemma covers_length: "covers xs vs \<Longrightarrow> length xs \<le> length vs"
  by (induction xs vs rule: covers.induct) auto

lemma covers_drop: "covers xs vs \<Longrightarrow> covers (drop n xs) (drop n vs)"
  by (induction xs vs arbitrary: n rule: covers.induct) (auto simp: drop_Cons split: nat.split)

lemma covers_nth: "covers xs vs \<Longrightarrow> i < length xs \<Longrightarrow> contains (iv (xs ! i)) (vs ! i)"
  by (induction xs vs arbitrary: i rule: covers.induct) (auto simp: nth_Cons split: nat.split)

lemma covers_update:
  "covers xs vs \<Longrightarrow> contains (iv x) v \<Longrightarrow> covers (xs[i := x]) (vs[i := v])"
  by (induction xs vs arbitrary: i rule: covers.induct) (auto split: nat.split)

lemma contains_top [simp]: "contains (iv slot_top) v"
  by (simp add: slot_top_def)

lemma iv_computed [simp]: "iv (slot_computed i) = i"
  by (simp add: slot_computed_def)

lemma covers_push:
  assumes "covers (astack a) vs" "contains (iv x) v" "length vs < 64"
  shows "covers (astack (a_push x a)) (v # vs)"
  using assms covers_length [OF assms(1)] by (simp add: a_push_def MAX_SLOTS_def)

lemma a_push_locals [simp]: "alocals (a_push x a) = alocals a"
  by (simp add: a_push_def)

lemma a_pop_locals [simp]: "alocals (snd (a_pop a)) = alocals a"
  by (simp add: a_pop_def split: list.split)

lemma covers_pop:
  assumes "covers (astack a) (v # vs)"
  shows "contains (iv (fst (a_pop a))) v" "covers (astack (snd (a_pop a))) vs"
  using assms by (cases "astack a"; simp add: a_pop_def)+

lemma covers_popn:
  assumes "covers (astack a) vs" "n \<le> length vs"
  shows "covers (astack (a_popn n a)) (drop n vs) \<and> alocals (a_popn n a) = alocals a"
  using assms
proof (induction n arbitrary: a vs)
  case (Suc n)
  obtain v ws where vs: "vs = v # ws" using Suc.prems(2) by (cases vs) auto
  with Suc.prems covers_pop(2) [of a v ws] Suc.IH [of "snd (a_pop a)" ws] show ?case by simp
qed simp

lemma covers_pushn:
  assumes "covers (astack a) vs" "length vs + n \<le> 64" "length ws = n"
  shows "covers (astack (a_pushn n (slot_computed ITop) a)) (ws @ vs)
       \<and> alocals (a_pushn n (slot_computed ITop) a) = alocals a"
  using assms
proof (induction n arbitrary: a vs ws)
  case (Suc n)
  obtain us u where ws: "ws = us @ [u]" "length us = n"
    using Suc.prems(3) by (cases ws rule: rev_cases) auto
  have "covers (astack (a_push (slot_computed ITop) a)) (u # vs)"
    by (rule covers_push) (use Suc.prems in auto)
  from Suc.IH [OF this _ ws(2)] Suc.prems(2) ws show ?case by simp
qed simp

lemma covers_binop:
  assumes "covers (astack a) (y # x # vs)" "length vs < 64"
    and "\<And>p q. contains p x \<Longrightarrow> contains q y \<Longrightarrow> contains (f p q) z"
  shows "covers (astack (a_binop f a)) (z # vs) \<and> alocals (a_binop f a) = alocals a"
proof -
  obtain q a1 where 1: "a_pop a = (q, a1)" by fastforce
  obtain p a2 where 2: "a_pop a1 = (p, a2)" by fastforce
  from covers_pop [OF assms(1)] 1 have q: "contains (iv q) y" "covers (astack a1) (x # vs)" by auto
  from covers_pop [OF q(2)] 2 have p: "contains (iv p) x" "covers (astack a2) vs" by auto
  have "covers (astack (a_push (slot_computed (f (iv p) (iv q))) a2)) (z # vs)"
    by (rule covers_push [OF p(2) _ assms(2)]) (simp add: assms(3) p q)
  moreover have "alocals a2 = alocals a"
    using a_pop_locals [of a] a_pop_locals [of a1] 1 2 by simp
  ultimately show ?thesis by (simp add: a_binop_def 1 2)
qed

section \<open>One op\<close>

lemma two_slots:
  assumes "2 \<le> length xs"
  obtains y x r where "xs = y # x # r"
  using assms by (cases xs; cases "tl xs") auto

lemma one_slot:
  assumes "1 \<le> length xs"
  obtains x r where "xs = x # r"
  using assms by (cases xs) auto

text \<open>The memory-free rows.\<close>

lemma step_plain_push:
  assumes "abstracts a s" "contains (iv x) v" "length (cstack s) < 64"
  shows "abstracts (a_push x a) (cpush v s)"
  using assms covers_push [of a "cstack s" x v] by (simp add: abstracts_def cpush_def)

lemma step_plain_binop:
  assumes "abstracts a s" "2 \<le> length (cstack s)" "length (cstack s) \<le> 64"
    and "\<And>p q x y. contains p x \<Longrightarrow> contains q y \<Longrightarrow> contains (f p q) (g x y)"
  shows "abstracts (a_binop f a) (cbin g s)"
proof -
  obtain y x r where s: "cstack s = y # x # r" using two_slots [OF assms(2)] by blast
  have "covers (astack (a_binop f a)) (g x y # r) \<and> alocals (a_binop f a) = alocals a"
    by (rule covers_binop) (use assms s in \<open>auto simp: abstracts_def\<close>)
  with s assms(1) show ?thesis by (simp add: abstracts_def cbin_def cpop_def cpush_def)
qed

lemma step_plain_dup:
  assumes "abstracts a s" "cstack s = v # vs" "length (cstack s) < 64"
  shows "abstracts (let (x, a) = a_pop a in a_push x (a_push x a)) (cpush v s)"
proof -
  obtain x a' where p: "a_pop a = (x, a')" by fastforce
  from covers_pop [of a v vs] assms p have x: "contains (iv x) v" "covers (astack a') vs"
    by (auto simp: abstracts_def)
  have "covers (astack (a_push x a')) (v # vs)"
    by (rule covers_push [OF x(2,1)]) (use assms in simp)
  then have "covers (astack (a_push x (a_push x a'))) (v # v # vs)"
    by (rule covers_push [OF _ x(1)]) (use assms in simp)
  with assms a_pop_locals [of a] p show ?thesis by (simp add: abstracts_def cpush_def)
qed

lemma step_plain_swap:
  assumes "abstracts a s" "cstack s = y # x # r" "length (cstack s) \<le> 64"
  shows "abstracts (let (b, a) = a_pop a; (c, a) = a_pop a in a_push c (a_push b a))
           (s\<lparr>cstack := x # y # r\<rparr>)"
proof -
  obtain q a1 where 1: "a_pop a = (q, a1)" by fastforce
  obtain p a2 where 2: "a_pop a1 = (p, a2)" by fastforce
  have q: "contains (iv q) y" "covers (astack a1) (x # r)"
    using covers_pop [of a y "x # r"] assms 1 by (auto simp: abstracts_def)
  have p: "contains (iv p) x" "covers (astack a2) r" using covers_pop [OF q(2)] 2 by auto
  have "covers (astack (a_push q a2)) (y # r)"
    by (rule covers_push [OF p(2) q(1)]) (use assms in simp)
  then have "covers (astack (a_push p (a_push q a2))) (x # y # r)"
    by (rule covers_push [OF _ p(1)]) (use assms in simp)
  with assms a_pop_locals [of a] a_pop_locals [of a1] 1 2 show ?thesis
    by (simp add: abstracts_def)
qed

text \<open>Popping \<open>n\<close> operands, and replacing the top by a covered value.\<close>

lemma step_plain_pop:
  assumes "abstracts a s" "cstack s = v # vs"
  shows "abstracts (snd (a_pop a)) (s\<lparr>cstack := vs\<rparr>)" "contains (iv (fst (a_pop a))) v"
  using assms covers_pop [of a v vs] by (simp_all add: abstracts_def)

lemma step_plain_replace:
  assumes "abstracts a s" "cstack s = v # vs" "length (cstack s) \<le> 64"
    and "contains (iv (f (fst (a_pop a)))) u"
  shows "abstracts (let (x, a) = a_pop a in a_push (f x) a) (s\<lparr>cstack := u # vs\<rparr>)"
proof -
  obtain x a' where p: "a_pop a = (x, a')" by fastforce
  have "abstracts a' (s\<lparr>cstack := vs\<rparr>)" using step_plain_pop(1) [OF assms(1,2)] p by simp
  then have "abstracts (a_push (f x) a') (cpush u (s\<lparr>cstack := vs\<rparr>))"
    by (rule step_plain_push) (use assms p in auto)
  with p show ?thesis by (simp add: cpush_def)
qed

lemma step_plain_local_set:
  assumes "abstracts a s" "1 \<le> length (cstack s)"
  shows "abstracts (let (v, a) = a_pop a in
      if unat sl < length (alocals a) then a\<lparr>alocals := (alocals a)[unat sl := v]\<rparr> else a) (local_set sl s)"
proof -
  obtain v vs where s: "cstack s = v # vs" using one_slot [OF assms(2)] by blast
  obtain x a' where p: "a_pop a = (x, a')" by fastforce
  have a': "abstracts a' (s\<lparr>cstack := vs\<rparr>)" "contains (iv x) v"
    using step_plain_pop [OF assms(1) s] p by simp_all
  have len: "length (alocals a') \<le> length (clocals s)"
    using a'(1) covers_length by (fastforce simp: abstracts_def)
  have "covers ((alocals a')[unat sl := x]) ((clocals s)[unat sl := v])"
    using a' by (intro covers_update) (simp_all add: abstracts_def)
  moreover have "(alocals a')[unat sl := x] = alocals a'" if "\<not> unat sl < length (alocals a')"
    using that by (simp add: list_update_beyond)
  ultimately show ?thesis
    using a' len s p by (auto simp: abstracts_def local_set_def cpop_def)
qed

lemma step_plain_local_get:
  assumes "abstracts a s" "length (cstack s) < 64"
  shows "abstracts (a_push (case get (alocals a) (unat sl) of Some v \<Rightarrow> v | None \<Rightarrow> slot_top) a)
           (local_get sl s)"
proof -
  have len: "length (alocals a) \<le> length (clocals s)"
    using assms(1) covers_length by (fastforce simp: abstracts_def)
  have "contains (iv (case get (alocals a) (unat sl) of Some v \<Rightarrow> v | None \<Rightarrow> slot_top))
      (case get (clocals s) (unat sl) of Some v \<Rightarrow> v | None \<Rightarrow> 0)"
    using assms(1) len by (auto simp: get_def abstracts_def intro: covers_nth)
  then show ?thesis unfolding local_get_def by (rule step_plain_push [OF assms(1) _ assms(2)])
qed

fun mem_op :: "op_kind \<Rightarrow> bool" where
  "mem_op (Load _) = True"
| "mem_op (Store _) = True"
| "mem_op (MmioVolLoad _ _ _ _ _) = True"
| "mem_op (MmioVolStore _ _ _ _ _ _) = True"
| "mem_op (MmioVolLoadField _ _ _ _ _ _ _ _) = True"
| "mem_op (MmioVolStoreField _ _ _ _ _ _ _ _ _) = True"
| "mem_op _ = False"

lemma abs_step_plain: "\<not> mem_op k \<Longrightarrow> abs_step mem spec sr k (m, a) = (m, step_plain sr k a)"
  by (cases k) (simp_all add: abs_step_def)

lemma bool_val_claims:
  "tri_claims t b \<Longrightarrow> contains (bool_iv t) (bool_val b)"
  using bool_iv_contains [of t b] by (simp add: bool_val_def of_bool_i64_def)

lemma cmp_case: "(case c of CmpLt \<Rightarrow> a < b | CmpLe \<Rightarrow> a \<le> b | CmpGt \<Rightarrow> a > b
    | CmpGe \<Rightarrow> a \<ge> b | CmpEq \<Rightarrow> a = b | CmpNe \<Rightarrow> a \<noteq> b) = cmp_holds c a b"
  by (cases c) simp_all

lemma fragment_sound:
  assumes k: "fragment_op k" "\<not> mem_op k" "op_pops k \<le> length (cstack s)"
    and step: "ir_step m k s = (m', s')"
    and a: "abstracts a s" and len: "length (cstack s) \<le> 64" "length (cstack s') \<le> 64"
  shows "abstracts (step_plain sr k a) s' \<and> m' = m"
proof (cases k)
  case (ConstI64 v)
  with step a len show ?thesis
    by (auto simp: ir_step_def step_plain_def cpush_def [of _ s] intro!: step_plain_push [unfolded cpush_def])
next
  case (ConstBool b)
  with step a len show ?thesis
    by (auto simp: ir_step_def step_plain_def cpush_def [of _ s] intro!: step_plain_push [unfolded cpush_def])
next
  case (Dup ty)
  from k Dup obtain v vs where s: "cstack s = v # vs"
    by (cases "cstack s") (auto simp: sem_row_defs)
  with step Dup len have "length (cstack s) < 64" by (auto simp: ir_step_def cpush_def)
  from step_plain_dup [OF a s this] Dup step s show ?thesis
    by (auto simp: ir_step_def step_plain_def ctop_def)
next
  case (Drop ty)
  from k Drop obtain v vs where s: "cstack s = v # vs"
    by (cases "cstack s") (auto simp: sem_row_defs)
  from step_plain_pop(1) [OF a s] Drop step s show ?thesis
    by (auto simp: ir_step_def step_plain_def cpop_def)
next
  case (Swap t1 t2)
  from k Swap obtain y x r where s: "cstack s = y # x # r"
    by (cases "cstack s"; cases "tl (cstack s)") (auto simp: sem_row_defs)
  from step_plain_swap [OF a s len(1)] Swap step s show ?thesis
    by (auto simp: ir_step_def step_plain_def cpop_def cpush_def)
next
  case NotBool
  from k NotBool obtain v vs where s: "cstack s = v # vs"
    by (cases "cstack s") (auto simp: sem_row_defs)
  have "contains (bool_iv (tri_not (tri_from_bool_iv (iv (fst (a_pop a)))))) (bool_val (v = 0))"
    using tri_claims_ops(1) [OF tri_from_bool_claims [OF step_plain_pop(2) [OF a s]]]
    by (intro bool_val_claims) simp
  with step_plain_replace [OF a s len(1),
      of "\<lambda>x. slot_computed (bool_iv (tri_not (tri_from_bool_iv (iv x))))"]
    NotBool step s show ?thesis
    by (auto simp: ir_step_def step_plain_def cpop_def cpush_def)
next
  case (LocalSet sl ty)
  with k step_plain_local_set [OF a] step show ?thesis
    by (auto simp: ir_step_def step_plain_def sem_row_defs)
next
  case (LocalGet sl ty)
  with step len have "length (cstack s) < 64"
    by (auto simp: ir_step_def local_get_def cpush_def)
  from step_plain_local_get [OF a this] LocalGet step show ?thesis
    by (auto simp: ir_step_def step_plain_def)
next
  case AddI64
  with step_plain_binop [OF a _ len(1), of iv_add w_add] k step show ?thesis
    by (auto simp: ir_step_def step_plain_def sem_row_defs w_add_def contains_add)
next
  case SubI64
  with step_plain_binop [OF a _ len(1), of iv_sub w_sub] k step show ?thesis
    by (auto simp: ir_step_def step_plain_def sem_row_defs w_sub_def contains_sub)
next
  case MulI64
  with step_plain_binop [OF a _ len(1), of iv_mul w_mul] k step show ?thesis
    by (auto simp: ir_step_def step_plain_def sem_row_defs w_mul_def contains_mul)
next
  case (Cmp out c)
  with step_plain_binop [OF a _ len(1), of "\<lambda>a b. bool_iv (tri_cmp a b c)" "\<lambda>a b. bool_val (cmp_holds c a b)"]
    k step show ?thesis
    by (auto simp: ir_step_def step_plain_def sem_row_defs cmp_case intro: bool_val_claims tri_cmp_claims)
next
  case AndBool
  with step_plain_binop [OF a _ len(1),
      of "\<lambda>a b. bool_iv (tri_and (tri_from_bool_iv a) (tri_from_bool_iv b))" "\<lambda>a b. bool_val (a \<noteq> 0 \<and> b \<noteq> 0)"]
    k step show ?thesis
    by (auto simp: ir_step_def step_plain_def sem_row_defs intro!: bool_val_claims tri_claims_ops(2) tri_from_bool_claims)
next
  case OrBool
  have claim: "contains (bool_iv (tri_or (tri_from_bool_iv p) (tri_from_bool_iv q))) (bool_val (x \<noteq> 0 \<or> y \<noteq> 0))"
    if "contains p x" "contains q y" for p q x y
    by (rule bool_val_claims [OF tri_claims_ops(3)]) (rule tri_from_bool_claims, rule that)+
  from OrBool step_plain_binop [OF a _ len(1) claim] k step show ?thesis
    by (auto simp: ir_step_def step_plain_def sem_row_defs)
qed (use assms in \<open>auto simp: ir_step_def step_plain_def\<close>)

lemma cstack_same: "cstack s = xs \<Longrightarrow> s\<lparr>cstack := xs\<rparr> = s"
  by (cases s) auto

lemma opaque_sound:
  assumes "opaque_ins k = Some n" "n \<le> length (cstack s)"
    and a: "abstracts a s" and len: "length (drop n (cstack s)) < 64"
  shows "abstracts (step_plain sr k a) (s\<lparr>cstack := v # drop n (cstack s)\<rparr>)"
proof -
  have pop: "covers (astack (a_popn n a)) (drop n (cstack s))" "alocals (a_popn n a) = alocals a"
    using covers_popn [OF _ assms(2)] a by (auto simp: abstracts_def)
  have "step_plain sr k a = a_push slot_top (a_popn n a)"
    using assms(1) by (cases k) (auto simp: step_plain_def numeral_2_eq_2 Let_def split: prod.split)
  moreover have "covers (astack (a_push slot_top (a_popn n a))) (v # drop n (cstack s))"
    by (rule covers_push [OF pop(1) _ len]) simp
  ultimately show ?thesis using pop(2) a by (simp add: abstracts_def)
qed

lemma call_sound:
  assumes "unat (in_len sg) \<le> length (cstack s)" "length vs = unat (out_len sg)"
    and a: "abstracts a s" and len: "length (vs @ drop (unat (in_len sg)) (cstack s)) \<le> 64"
  shows "abstracts (step_plain sr (Call f sg p r b) a)
           (s\<lparr>cstack := vs @ drop (unat (in_len sg)) (cstack s)\<rparr>)"
proof -
  have pop: "covers (astack (a_popn (unat (in_len sg)) a)) (drop (unat (in_len sg)) (cstack s))"
    "alocals (a_popn (unat (in_len sg)) a) = alocals a"
    using covers_popn [OF _ assms(1)] a by (auto simp: abstracts_def)
  have "length (drop (unat (in_len sg)) (cstack s)) + unat (out_len sg) \<le> 64"
    using len assms(2) by simp
  from covers_pushn [OF pop(1) this assms(2)] pop(2) a show ?thesis
    by (simp add: abstracts_def step_plain_def)
qed

lemma step_plain_sound:
  assumes step: "conc_step sr k (m, s) (m', s')" and k: "\<not> mem_op k"
    and a: "abstracts a s" and len: "length (cstack s) \<le> 64" "length (cstack s') \<le> 64"
  shows "abstracts (step_plain sr k a) s' \<and> ((\<forall>f sg p r b. k \<noteq> Call f sg p r b) \<longrightarrow> m' = m)"
  using step
proof cases
  case fragment
  with fragment_sound [OF _ k _ _ a len] show ?thesis by simp
next
  case (opaque n v)
  with opaque_sound [OF _ _ a] len show ?thesis by simp
next
  case (call sg vs f p r b)
  with call_sound [OF _ _ a] len show ?thesis by simp
next
  case (cast v vs to "from")
  have v: "contains (iv (fst (a_pop a))) v" using step_plain_pop(2) [OF a] cast by blast
  have "contains (case sr to of Some (lo, hi) \<Rightarrow> cast_narrow (iv (fst (a_pop a))) lo hi
      | None \<Rightarrow> iv (fst (a_pop a))) v"
    using v cast(5) by (auto simp: cast_narrow_def contains_intersect split: option.splits)
  with step_plain_replace [OF a _ len(1), of v vs
      "\<lambda>x. slot_computed (case sr to of Some (lo, hi) \<Rightarrow> cast_narrow (iv x) lo hi | None \<Rightarrow> iv x)" v]
    cast show ?thesis by (simp add: step_plain_def cstack_same)
next
  case (bitcast v vs "from" to)
  with step_plain_pop(2) [OF a] step_plain_replace [OF a _ len(1), of v vs "\<lambda>x. x" v]
  show ?thesis by (simp add: step_plain_def cstack_same)
next
  case (trap_if_false v vs c)
  with step_plain_pop(1) [OF a] show ?thesis by (simp add: step_plain_def)
next
  case (br_if v vs t e)
  with step_plain_pop(1) [OF a] show ?thesis by (simp add: step_plain_def)
qed (use k in auto)

section \<open>Runs\<close>

inductive conc_run :: "subtype_range \<Rightarrow> op_kind list \<Rightarrow> cmem \<times> cstate \<Rightarrow> cmem \<times> cstate \<Rightarrow> bool" for sr where
  nil: "conc_run sr [] ms ms"
| cons: "\<lbrakk>conc_step sr k ms ms1; length (cstack (snd ms1)) \<le> 64; conc_run sr ks ms1 ms2\<rbrakk>
    \<Longrightarrow> conc_run sr (k # ks) ms ms2"

inductive_cases conc_run_ConsE: "conc_run sr (k # ks) ms ms'"
inductive_cases conc_run_NilE: "conc_run sr [] ms ms'"

context mem_model
begin

text \<open>The memory rows, then a whole straight-line run. A tracked store needs
  \<open>store_ok\<close>, and a call a model that no foreign write can falsify.\<close>

definition op_ok :: "op_kind \<Rightarrow> 'm \<times> astate \<Rightarrow> bool" where
  "op_ok k ma = (case k of
     Store _ \<Rightarrow> store_ok (fst ma) (iv (fst (a_pop (snd (a_pop (snd ma))))))
   | Call _ _ _ _ _ \<Rightarrow> (\<forall>c c'. describes (fst ma) c \<longrightarrow> describes (fst ma) c')
   | _ \<Rightarrow> True)"

lemma load_row:
  assumes d: "describes am m" and a: "abstracts a s" and s: "cstack s = v # vs" "length (cstack s) \<le> 64"
  shows "abstracts (let (x, a) = a_pop a in a_push (slot_computed (mo_load mem am (iv x) w)) a)
           (s\<lparr>cstack := mem_load m v # vs\<rparr>)"
  using step_plain_replace [OF a s, of "\<lambda>x. slot_computed (mo_load mem am (iv x) w)"]
    load_sound [OF d step_plain_pop(2) [OF a s(1)]] by simp

lemma read_row:
  assumes d: "describes am m" and a: "abstracts a s" and s: "cstack s = v # vs" "length (cstack s) \<le> 64"
    and r: "mo_aperture_read mem am p w = (i, am')"
  shows "abstracts (let (x, a) = a_pop a in a_push (slot_computed i) a)
           (s\<lparr>cstack := mmio_oracle m # vs\<rparr>) \<and> describes am' m"
  using step_plain_replace [OF a s, of "\<lambda>x. slot_computed i" "mmio_oracle m"]
    read_sound [OF d, of p] read_describes [OF d, of p] r by simp

lemma mem_row_sound:
  assumes step: "conc_step sr k (m, s) (m', s')" and k: "mem_op k"
    and d: "describes am m" and a: "abstracts a s" and len: "length (cstack s) \<le> 64"
    and ok: "op_ok k (am, a)" and spec: "word_bits spec = w"
  shows "describes (fst (abs_step mem spec sr k (am, a))) m'
       \<and> abstracts (snd (abs_step mem spec sr k (am, a))) s'"
  using step
proof cases
  case fragment
  from k fragment(1) consider ty where "k = Load ty" | ty where "k = Store ty"
    | ty pl rk am' ba where "k = MmioVolLoad ty pl rk am' ba"
    | ty pl wk rk am' ba where "k = MmioVolStore ty pl wk rk am' ba"
    by (cases k) auto
  then show ?thesis
  proof cases
    case 1
    with fragment obtain v vs where s: "cstack s = v # vs"
      by (cases "cstack s") (auto simp: sem_row_defs)
    from load_row [OF d a s len] 1 fragment s d spec show ?thesis
      by (auto simp: abs_step_def ir_step_def cpop_def cpush_def split: prod.split)
  next
    case 2
    with fragment obtain v u vs where s: "cstack s = v # u # vs"
      by (cases "cstack s"; cases "tl (cstack s)") (auto simp: sem_row_defs)
    obtain y a1 where 1: "a_pop a = (y, a1)" by fastforce
    obtain x a2 where x: "a_pop a1 = (x, a2)" by fastforce
    have y: "contains (iv y) v" "abstracts a1 (s\<lparr>cstack := u # vs\<rparr>)"
      using step_plain_pop [OF a s] 1 by simp_all
    have x': "contains (iv x) u" "abstracts a2 (s\<lparr>cstack := vs\<rparr>)"
      using step_plain_pop [OF y(2), of u vs] x by simp_all
    have "describes (mo_store mem am (iv x) (iv y)) (record_store m u v)"
      by (rule store_sound [OF d _ x'(1) y(1)]) (use ok 2 1 x in \<open>simp add: op_ok_def\<close>)
    with 2 fragment s 1 x x'(2) show ?thesis
      by (auto simp: abs_step_def ir_step_def cpop_def)
  next
    case 3
    with fragment obtain v vs where s: "cstack s = v # vs"
      by (cases "cstack s") (auto simp: sem_row_defs)
    obtain i m2 where r: "mo_aperture_read mem am pl w = (i, m2)" by fastforce
    from read_row [OF d a s len r] 3 fragment s spec r show ?thesis
      by (auto simp: abs_step_def ir_step_def cpop_def cpush_def split: prod.split)
  next
    case 4
    with fragment obtain v u vs where s: "cstack s = v # u # vs"
      by (cases "cstack s"; cases "tl (cstack s)") (auto simp: sem_row_defs)
    have a1: "abstracts (snd (a_pop a)) (s\<lparr>cstack := u # vs\<rparr>)" using step_plain_pop [OF a s] by simp
    have a2: "abstracts (snd (a_pop (snd (a_pop a)))) (s\<lparr>cstack := vs\<rparr>)"
      using step_plain_pop(1) [OF a1, of u vs] by simp
    with 4 fragment s d show ?thesis
      by (auto simp: abs_step_def ir_step_def cpop_def Let_def write_describes split: prod.split)
  qed
next
  case (vol_load_field v vs rg fl p mk sh rk am' ba)
  obtain i m2 where r: "mo_aperture_read mem am p w = (i, m2)" by fastforce
  from read_row [OF d a _ len r, of v vs] vol_load_field spec r show ?thesis
    by (auto simp: abs_step_def split: prod.split)
next
  case (vol_store_field u v vs rg fl p mk sh wk rk am' ba)
  have a1: "abstracts (snd (a_pop a)) (s\<lparr>cstack := v # vs\<rparr>)"
    using step_plain_pop [OF a, of u] vol_store_field by simp
  have a2: "abstracts (snd (a_pop (snd (a_pop a)))) (s\<lparr>cstack := vs\<rparr>)"
    using step_plain_pop(1) [OF a1, of v vs] by simp
  with vol_store_field d show ?thesis
    by (auto simp: abs_step_def Let_def write_describes split: prod.split)
qed (use k in \<open>auto elim: opaque_ins.elims\<close>)

lemma step_sound:
  assumes "conc_step sr k (m, s) (m', s')" "describes am m" "abstracts a s"
    and "length (cstack s) \<le> 64" "length (cstack s') \<le> 64"
    and "op_ok k (am, a)" "word_bits spec = w"
  shows "describes (fst (abs_step mem spec sr k (am, a))) m'
       \<and> abstracts (snd (abs_step mem spec sr k (am, a))) s'"
proof (cases "mem_op k")
  case True
  then show ?thesis using mem_row_sound assms by blast
next
  case False
  from step_plain_sound [OF assms(1) False assms(3-5)] have p: "abstracts (step_plain sr k a) s'"
    "(\<forall>f sg p r b. k \<noteq> Call f sg p r b) \<longrightarrow> m' = m" by auto
  have "describes am m'"
    using p(2) assms(2,6) by (cases k) (auto simp: op_ok_def)
  with p(1) False show ?thesis by (simp add: abs_step_plain)
qed

fun run_ok :: "target_spec \<Rightarrow> subtype_range \<Rightarrow> op_kind list \<Rightarrow> 'm \<times> astate \<Rightarrow> bool" where
  "run_ok spec sr [] ma = True"
| "run_ok spec sr (k # ks) ma = (op_ok k ma \<and> run_ok spec sr ks (abs_step mem spec sr k ma))"

lemma run_sound:
  assumes "conc_run sr ks (m, s) (m', s')" "describes am m" "abstracts a s"
    and "length (cstack s) \<le> 64" "run_ok spec sr ks (am, a)" "word_bits spec = w"
  shows "describes (fst (abs_run mem spec sr ks (am, a))) m'
       \<and> abstracts (snd (abs_run mem spec sr ks (am, a))) s'"
  using assms
proof (induction ks arbitrary: m s am a)
  case Nil
  then show ?case by (auto simp: abs_run_def elim: conc_run_NilE)
next
  case (Cons k ks)
  from Cons.prems(1) obtain m1 s1 where st: "conc_step sr k (m, s) (m1, s1)"
    "length (cstack s1) \<le> 64" "conc_run sr ks (m1, s1) (m', s')"
    by (auto elim: conc_run_ConsE)
  obtain am1 a1 where p: "abs_step mem spec sr k (am, a) = (am1, a1)" by fastforce
  have "describes am1 m1 \<and> abstracts a1 s1"
    using step_sound [OF st(1) Cons.prems(2-4) st(2) _ Cons.prems(6)] Cons.prems(5) p by simp
  with Cons.IH [OF st(3) _ _ st(2) _ Cons.prems(6), of am1 a1] Cons.prems(5) p
  show ?case by (simp add: abs_run_def)
qed

end

end
