(* ===== verification/AbsProps.thy ===== *)
theory AbsProps
  imports AbsSound VerifySound
begin

text \<open>
  The properties of the abstract interpreter: soundness of runs and of
  discharged obligations with the default memory model, termination of the
  worklist engine without a panic, and the case where its widening is unsound.
\<close>

section \<open>Runs under the default model\<close>




text \<open>An executable instance of the concrete runs: the fragment and \<open>BrIf\<close>.\<close>

fun det_run :: "op_kind list \<Rightarrow> cmem \<times> cstate \<Rightarrow> (cmem \<times> cstate) option" where
  "det_run [] ms = Some ms"
| "det_run (k # ks) (m, s) =
    (if fragment_op k \<and> op_pops k \<le> length (cstack s)
     then (let ms1 = ir_step m k s in
           if length (cstack (snd ms1)) \<le> 64 then det_run ks ms1 else None)
     else (case k of
         BrIf t e \<Rightarrow> (case cstack s of
             [] \<Rightarrow> None
           | v # vs \<Rightarrow> if length vs \<le> 64 then det_run ks (m, s\<lparr>cstack := vs\<rparr>) else None)
       | _ \<Rightarrow> None))"

lemma det_run_conc: "det_run ks (m, s) = Some ms' \<Longrightarrow> conc_run sr ks (m, s) ms'"
proof (induction ks arbitrary: m s)
  case Nil
  then show ?case by (auto intro: conc_run.nil)
next
  case (Cons k ks)
  show ?case
  proof (cases "fragment_op k \<and> op_pops k \<le> length (cstack s)")
    case True
    obtain m1 s1 where st: "ir_step m k s = (m1, s1)" by fastforce
    with True Cons show ?thesis
      by (auto simp: Let_def split: if_splits intro!: conc_run.cons conc_step.fragment)
  next
    case False
    with Cons.prems obtain t e v vs where k: "k = BrIf t e" "cstack s = v # vs" "length vs \<le> 64"
      "det_run ks (m, s\<lparr>cstack := vs\<rparr>) = Some ms'"
      by (cases k) (auto split: list.splits if_splits)
    with Cons.IH [OF k(4)] show ?thesis
      by (auto intro!: conc_run.cons [OF conc_step.br_if])
  qed
qed

definition mem0 :: cmem where "mem0 = \<lparr>cells = [], load_oracle = 0, mmio_oracle = 0\<rparr>"


section \<open>Discharged obligations\<close>










section \<open>The worklist engine\<close>

text \<open>Lengths and indices stay in range while every successor is a block.\<close>

definition targets_ok :: "word_ir \<Rightarrow> bool" where
  "targets_ok w = (\<forall>b \<in> set (blocks w). \<forall>t \<in> set (block_successors_from b).
     unat t < length (blocks w))"

definition cfg_inv :: "word_ir \<Rightarrow> cfg_state \<Rightarrow> bool" where
  "cfg_inv w cs = (length (cf_states cs) = nblocks_of w \<and> length (cf_visits cs) = nblocks_of w
     \<and> (\<forall>t \<in> set (cf_work cs). unat t < nblocks_of w))"

lemma propagate_all_inv:
  assumes "cfg_inv w cs" "\<forall>t \<in> set ts. unat t < nblocks_of w"
  shows "\<exists>cs'. propagate_all w flow ts cs = Some cs' \<and> cfg_inv w cs'"
  using assms
proof (induction ts arbitrary: cs)
  case (Cons t ts)
  then obtain cs1 where "propagate w flow t cs = Some cs1" "cfg_inv w cs1"
    by (auto simp: propagate_def cfg_inv_def Let_def)
  with Cons show ?case by simp
qed simp

lemma cfg_visit_inv:
  assumes "targets_ok w" "cfg_inv w cs" "unat b < nblocks_of w"
  shows "\<exists>m' cs'. cfg_visit mem spec sr w b (m, cs) = Some (m', cs') \<and> cfg_inv w cs'"
proof -
  define cs1 where "cs1 = cs\<lparr>cf_visits := (cf_visits cs)[unat b := cf_visits cs ! unat b + 1]\<rparr>"
  have 1: "cfg_inv w cs1" using assms(2) by (simp add: cs1_def cfg_inv_def)
  have lt: "unat b < length (cf_visits cs)" using assms(2,3) by (simp add: cfg_inv_def)
  have unf: "cfg_visit mem spec sr w b (m, cs) = (case get (blocks w) (unat b) of
      None \<Rightarrow> Some (m, cs1)
    | Some blk \<Rightarrow> (case abs_run mem spec sr (map kind (ops blk)) (m, cf_states cs1 ! unat b) of
        (m, flow) \<Rightarrow> (case propagate_all w flow (block_successors_from blk) cs1 of
            None \<Rightarrow> None | Some cs \<Rightarrow> Some (m, cs))))"
    using lt unfolding cfg_visit_def Let_def cs1_def by simp
  show ?thesis
  proof (cases "get (blocks w) (unat b)")
    case None
    with 1 show ?thesis by (simp only: unf option.case) blast
  next
    case (Some blk)
    then have mem: "blk \<in> set (blocks w)" by auto
    have n: "length (blocks w) \<le> nblocks_of w" by (simp add: nblocks_of_def)
    have succ: "\<forall>t \<in> set (block_successors_from blk). unat t < nblocks_of w"
      using assms(1) mem n unfolding targets_ok_def by (meson order.strict_trans2)
    obtain m1 flow where run: "abs_run mem spec sr (map kind (ops blk)) (m, cf_states cs1 ! unat b) = (m1, flow)"
      by fastforce
    from propagate_all_inv [OF 1 succ, of flow] obtain cs2 where
      "propagate_all w flow (block_successors_from blk) cs1 = Some cs2" "cfg_inv w cs2" by blast
    with Some run show ?thesis by (simp only: unf option.case prod.case) blast
  qed
qed

lemma cfg_loop_inv:
  assumes "targets_ok w" "cfg_inv w cs"
  shows "\<exists>m' cs'. cfg_loop budget mem spec sr w (m, cs) = Some (m', cs') \<and> cfg_inv w cs'"
  using assms(2)
proof (induction budget arbitrary: m cs)
  case 0
  then show ?case by (cases "cf_work cs") (auto simp: cfg_inv_def)
next
  case (Suc n)
  show ?case
  proof (cases "cf_work cs")
    case Nil
    with Suc show ?thesis by simp
  next
    case (Cons b bs)
    with Suc.prems have "cfg_inv w (cs\<lparr>cf_work := bs\<rparr>)" "unat b < nblocks_of w"
      by (auto simp: cfg_inv_def)
    from cfg_visit_inv [OF assms(1) this, of mem spec sr m] Suc.IH Cons show ?thesis by fastforce
  qed
qed

text \<open>C37: on a word whose branch targets are all smaller than its number of blocks
  (\<open>targets_ok\<close>) the worklist engine never indexes outside its tables: it returns, with
  one state per block (one for a word of no blocks). A word that numbers its blocks
  sparsely is outside the statement: a branch to a larger number panics in the engine.\<close>

theorem run_cfg_total:
  assumes "targets_ok w"
  shows "\<exists>m' states. run_cfg mem spec sr w m = Some (m', states)
       \<and> length states = max (length (blocks w)) 1"
proof -
  have "cfg_inv w (cfg_init w)"
    by (auto simp: cfg_inv_def cfg_init_def nblocks_of_def Let_def)
  from cfg_loop_inv [OF assms this, of "nblocks_of w * 4 + 2" mem spec sr m] obtain m' cs' where
    "cfg_loop (nblocks_of w * 4 + 2) mem spec sr w (m, cfg_init w) = Some (m', cs')" "cfg_inv w cs'"
    by blast
  then show ?thesis by (simp add: run_cfg_def cfg_inv_def nblocks_of_def)
qed

theorem run_cfg_total_witness:
  "\<exists>m' states. run_cfg flat_mem X86_64_UNKNOWN_NONE (\<lambda>_. None) loop_word () = Some (m', states)
       \<and> length states = max (length (blocks loop_word)) 1"
  by (rule run_cfg_total) (simp add: targets_ok_def loop_word_def block_successors_from_def mk_op_def)

section \<open>An unsound widening\<close>

definition diamond_word :: word_ir where
  "diamond_word = loop_word\<lparr>w_sig := sig_empty\<lparr>out_len := 1, outputs := TY_I64 # replicate 7 TY_EMPTY\<rparr>,
     blocks :=
      [\<lparr>bid = 0, entry_stack = [], ops = map mk_op [ConstI64 5, ConstI64 7, ConstBool True, BrIf 1 2]\<rparr>,
       \<lparr>bid = 1, entry_stack = [TY_I64, TY_I64], ops = map mk_op [Br 3]\<rparr>,
       \<lparr>bid = 2, entry_stack = [TY_I64, TY_I64], ops = map mk_op [Br 3]\<rparr>,
       \<lparr>bid = 3, entry_stack = [TY_I64, TY_I64], ops = map mk_op
          [Swap TY_I64 TY_I64, Drop TY_I64, Ret]\<rparr>]\<rparr>"

definition diamond_exit :: "slot list option" where
  "diamond_exit =
     (case run_cfg flat_mem X86_64_UNKNOWN_NONE (\<lambda>_. None) diamond_word () of
        None \<Rightarrow> None
      | Some (m, sts) \<Rightarrow>
          Some (astack (snd (exit_state flat_mem X86_64_UNKNOWN_NONE (\<lambda>_. None) sts diamond_word m))))"

lemma diamond_exit_value: "diamond_exit = Some [slot_computed (Range 5 5)]"
  by code_simp

text \<open>The re-visit merge of the worklist engine is unsound: it truncates the
  stack of the re-entered block to \<open>sig.out_len\<close> slots from the bottom, also
  where the block expects a deeper stack. The accepted word
  \<open>5 7 true if { } else { } swap drop\<close> returns 7, and the engine's exit state
  discharges the range \<open>5..5\<close> for it.\<close>

theorem run_cfg_widening_unsound:
  "verify_word diamond_word = Inr ()
   \<and> diamond_exit = Some [slot_computed (Range 5 5)]
   \<and> v_status (of_range (Range 5 5) 5 5) = VS_Discharged
   \<and> conc_run sr (concat (map (\<lambda>i. map kind (ops (blocks diamond_word ! i))) [0, 1, 3]))
       (mem0, \<lparr>cstack = [], clocals = replicate 64 0\<rparr>) (mem0, \<lparr>cstack = [7], clocals = replicate 64 0\<rparr>)"
proof (intro conjI)
  show "verify_word diamond_word = Inr ()" by code_simp
  show "diamond_exit = Some [slot_computed (Range 5 5)]" by (rule diamond_exit_value)
  show "v_status (of_range (Range 5 5) 5 5) = VS_Discharged" by (simp add: of_range_def)
  show "conc_run sr (concat (map (\<lambda>i. map kind (ops (blocks diamond_word ! i))) [0, 1, 3]))
       (mem0, \<lparr>cstack = [], clocals = replicate 64 0\<rparr>) (mem0, \<lparr>cstack = [7], clocals = replicate 64 0\<rparr>)"
    by (rule det_run_conc) code_simp
qed

end
