(* ===== verification/Bytes.thy ===== *)
theory Bytes
  imports Prelude
begin

text \<open>
  Byte buffers of the container format: slices, in-place writes
  (\<open>copy_from_slice\<close>) and the little-endian integer codecs \<open>to_le_bytes\<close> and
  \<open>from_le_bytes\<close>. A slice index out of range, which panics in Rust, is the value
  \<open>None\<close>. The locale \<open>byte_codec\<close> is the contract of a fixed-width field codec.
\<close>

section \<open>Slices and writes\<close>

definition slice :: "bytes \<Rightarrow> nat \<Rightarrow> nat \<Rightarrow> bytes" where
  "slice xs off n = take n (drop off xs)"

definition read_at :: "bytes \<Rightarrow> nat \<Rightarrow> nat \<Rightarrow> bytes option" where
  "read_at xs off n = (if off + n \<le> length xs then Some (slice xs off n) else None)"

definition write_at :: "nat \<Rightarrow> bytes \<Rightarrow> bytes \<Rightarrow> bytes option" where
  "write_at off src buf =
    (if off + length src \<le> length buf
     then Some (take off buf @ src @ drop (off + length src) buf) else None)"

fun write_all :: "(nat \<times> bytes) list \<Rightarrow> bytes \<Rightarrow> bytes option" where
  "write_all [] buf = Some buf"
| "write_all ((off, src) # ws) buf =
     (case write_at off src buf of None \<Rightarrow> None | Some buf \<Rightarrow> write_all ws buf)"

lemma slice_slice: "k + m \<le> n \<Longrightarrow> slice (slice xs off n) k m = slice xs (off + k) m"
  by (simp add: slice_def drop_take min_absorb1 add.commute)

lemma write_at_length: "write_at off src buf = Some buf' \<Longrightarrow> length buf' = length buf"
  by (auto simp: write_at_def split: if_splits)

lemma write_at_slice:
  "write_at off src buf = Some buf' \<Longrightarrow> slice buf' off (length src) = src"
  by (auto simp: write_at_def slice_def split: if_splits)

lemma write_at_nth:
  assumes "write_at off src buf = Some buf'" "i < length buf"
  shows "buf' ! i = (if off \<le> i \<and> i < off + length src then src ! (i - off) else buf ! i)"
  using assms by (auto simp: write_at_def nth_append split: if_splits)

lemma slice_eqI:
  assumes "off + n \<le> length xs" "length xs = length ys"
    and "\<And>i. off \<le> i \<Longrightarrow> i < off + n \<Longrightarrow> xs ! i = ys ! i"
  shows "slice xs off n = slice ys off n"
  unfolding slice_def by (rule nth_equalityI) (use assms in auto)

lemma write_at_other:
  assumes "write_at off src buf = Some buf'" "o' + n \<le> off \<or> off + length src \<le> o'"
    and "o' + n \<le> length buf"
  shows "slice buf' o' n = slice buf o' n"
  by (rule slice_eqI)
    (use assms write_at_length [OF assms(1)] in \<open>auto simp: write_at_nth [OF assms(1)]\<close>)

lemma write_all_range:
  "write_all ws buf = Some buf' \<Longrightarrow> (off, src) \<in> set ws \<Longrightarrow> off + length src \<le> length buf"
proof (induction ws buf rule: write_all.induct)
  case (2 a s ws buf)
  then obtain b where b: "write_at a s buf = Some b" "write_all ws b = Some buf'"
    by (auto split: option.splits)
  then have "length b = length buf" by (simp add: write_at_length)
  then show ?case using 2 b by (auto simp: write_at_def split: if_splits)
qed simp

text \<open>Writes at consecutive offsets put the concatenation of their bytes.\<close>

fun contiguous :: "nat \<Rightarrow> (nat \<times> bytes) list \<Rightarrow> bool" where
  "contiguous off [] = True"
| "contiguous off ((a, src) # ws) = (a = off \<and> contiguous (off + length src) ws)"

lemma write_all_contiguous:
  assumes "contiguous off ws" "off + length (concat (map snd ws)) \<le> length buf"
  shows "write_all ws buf
    = Some (take off buf @ concat (map snd ws) @ drop (off + length (concat (map snd ws))) buf)"
  using assms
proof (induction ws arbitrary: off buf)
  case (Cons w ws)
  obtain a src where w: "w = (a, src)" by fastforce
  show ?case using Cons by (auto simp: w write_at_def algebra_simps)
qed simp

section \<open>Little-endian integers\<close>

definition to_le :: "'a::len word \<Rightarrow> bytes" where
  "to_le w = map (\<lambda>i. ucast (drop_bit (8 * i) w)) [0..<LENGTH('a) div 8]"

fun of_le :: "bytes \<Rightarrow> 'a::len word" where
  "of_le [] = 0"
| "of_le (b # bs) = ucast b OR push_bit 8 (of_le bs)"

lemma length_to_le: "length (to_le (w :: 'a::len word)) = LENGTH('a) div 8"
  by (simp add: to_le_def)

lemma length_to_le_eqs [simp]:
  "length (to_le (a :: u16)) = 2" "length (to_le (b :: u32)) = 4" "length (to_le (c :: u64)) = 8"
  by (simp_all add: length_to_le)

lemma bit_of_le:
  "bit (of_le bs :: 'a::len word) n
     \<longleftrightarrow> n < LENGTH('a) \<and> n div 8 < length bs \<and> bit (bs ! (n div 8)) (n mod 8)"
proof (induction bs arbitrary: n)
  case (Cons b bs)
  show ?case
  proof (cases "n < 8")
    case True
    then show ?thesis by (auto simp: bit_simps)
  next
    case False
    then have "n div 8 = Suc ((n - 8) div 8)" "(n - 8) mod 8 = n mod 8"
      by (simp_all add: le_div_geq le_mod_geq)
    moreover have "\<not> bit b n" using False by (auto dest: bit_imp_le_length)
    ultimately show ?thesis using False by (auto simp: bit_simps Cons.IH)
  qed
qed simp

lemma of_le_to_le:
  assumes "8 dvd LENGTH('a)"
  shows "of_le (to_le w) = (w :: 'a::len word)"
proof (rule bit_word_eqI)
  fix n assume n: "n < LENGTH('a)"
  then have "n div 8 < LENGTH('a) div 8" using assms by (auto simp: dvd_def)
  moreover have "8 * (n div 8) + n mod 8 = n" by simp
  ultimately show "bit (of_le (to_le w) :: 'a word) n = bit w n"
    using n by (simp add: bit_of_le to_le_def bit_simps)
qed

lemma to_le_of_le:
  assumes "length bs = LENGTH('a) div 8" "8 dvd LENGTH('a)"
  shows "to_le (of_le bs :: 'a::len word) = bs"
proof (rule nth_equalityI)
  fix i assume "i < length (to_le (of_le bs :: 'a word))"
  then have i: "i < LENGTH('a) div 8" by (simp add: length_to_le)
  have "8 * i + n < LENGTH('a)" if "n < 8" for n using i assms(2) that by (auto simp: dvd_def)
  then have "bit (to_le (of_le bs :: 'a word) ! i) n = bit (bs ! i) n" if "n < 8" for n
    using i that assms(1) by (simp add: to_le_def bit_simps bit_of_le)
  then show "to_le (of_le bs :: 'a word) ! i = bs ! i" by (intro bit_word_eqI) simp
qed (simp add: length_to_le assms)

section \<open>Fixed-width codecs\<close>

text \<open>
  The contract of a fixed-width field: \<open>enc\<close> writes \<open>width\<close> bytes and \<open>dec\<close>
  reads them back. A client gets that a field written at an offset is read back
  there, and that a table of entries can be read by index.
\<close>

locale byte_codec =
  fixes enc :: "'v \<Rightarrow> bytes" and dec :: "bytes \<Rightarrow> 'v" and width :: nat
  assumes enc_length: "length (enc x) = width"
    and dec_enc: "dec (enc x) = x"
begin

lemma read_written:
  assumes "write_at off (enc x) buf = Some buf'"
  shows "dec (slice buf' off width) = x"
  using write_at_slice [OF assms] by (simp add: enc_length dec_enc)

lemma enc_inj: "enc x = enc y \<longleftrightarrow> x = y"
  using dec_enc by metis

lemma slice_here: "slice (enc x @ rest) 0 width = enc x"
  by (simp add: slice_def enc_length)

lemma slice_table:
  assumes "i < length xs"
  shows "slice (concat (map enc xs) @ rest) (i * width) width = enc (xs ! i)"
  using assms
proof (induction xs arbitrary: i)
  case (Cons x xs)
  show ?case
  proof (cases i)
    case 0
    then show ?thesis by (simp add: slice_def enc_length)
  next
    case (Suc j)
    then have "slice (concat (map enc xs) @ rest) (j * width) width = enc (xs ! j)"
      using Cons by simp
    with Suc show ?thesis by (simp add: slice_def enc_length)
  qed
qed simp

lemma slice_table_at:
  assumes "i < length xs" "length pre = off"
  shows "slice (pre @ concat (map enc xs) @ rest) (off + i * width) width = enc (xs ! i)"
  using slice_table [OF assms(1), of rest] by (simp add: slice_def assms(2) [symmetric])

lemma dec_table:
  assumes "i < length xs"
  shows "dec (slice (concat (map enc xs) @ rest) (i * width) width) = xs ! i"
  by (simp add: slice_table [OF assms] dec_enc)

end

interpretation le16: byte_codec "to_le :: u16 \<Rightarrow> bytes" of_le 2
  by unfold_locales (simp_all add: of_le_to_le)

interpretation le32: byte_codec "to_le :: u32 \<Rightarrow> bytes" of_le 4
  by unfold_locales (simp_all add: of_le_to_le)

interpretation le64: byte_codec "to_le :: u64 \<Rightarrow> bytes" of_le 8
  by unfold_locales (simp_all add: of_le_to_le)

lemma slice_append_skip: "off < length xs + k \<Longrightarrow> length xs \<le> off \<Longrightarrow>
  slice (xs @ ys) off n = slice ys (off - length xs) n"
  by (simp add: slice_def)

lemma slice_concat_field:
  "length pre = off \<Longrightarrow> length f = n \<Longrightarrow> slice (pre @ f @ post) off n = f"
  by (simp add: slice_def)

end
