(* ===== verification/LmodHeader.thy ===== *)
theory LmodHeader
  imports Bytes
begin

text \<open>
  The .lmod container header of crates/lmod/src/header.rs: the 18 fields, the
  72-byte codec and the section layout the packer computes. The layout adds in
  u32 (\<open>+\<close> on words wraps, as a release build does); its theorems say when
  nothing wraps. The signed region of crates/lmod/src/sig.rs rests on the header.
\<close>

section \<open>The header\<close>

definition LMOD_MAGIC :: u32 where "LMOD_MAGIC = 0x4c4d4f44"
definition LMOD_FORMAT_VER :: u16 where "LMOD_FORMAT_VER = 3"
definition HEADER_SIZE :: u32 where "HEADER_SIZE = 72"

record lmod_header =
  h_magic :: u32
  h_format_ver :: u16
  h_flags :: u16
  h_abi_hash :: u64
  h_total_len :: u32
  h_modinfo_off :: u32
  h_modinfo_len :: u32
  h_code_off :: u32
  h_code_len :: u32
  h_rodata_off :: u32
  h_rodata_len :: u32
  h_data_off :: u32
  h_data_len :: u32
  h_bss_len :: u32
  h_reloc_off :: u32
  h_reloc_count :: u32
  h_sig_off :: u32
  h_sig_len :: u32

definition header_new :: lmod_header where
  "header_new = \<lparr>h_magic = LMOD_MAGIC, h_format_ver = LMOD_FORMAT_VER, h_flags = 0,
     h_abi_hash = 0, h_total_len = 0, h_modinfo_off = HEADER_SIZE, h_modinfo_len = 0,
     h_code_off = 0, h_code_len = 0, h_rodata_off = 0, h_rodata_len = 0, h_data_off = 0,
     h_data_len = 0, h_bss_len = 0, h_reloc_off = 0, h_reloc_count = 0, h_sig_off = 0,
     h_sig_len = 0\<rparr>"

section \<open>Codec\<close>

definition header_fields :: "lmod_header \<Rightarrow> (nat \<times> bytes) list" where
  "header_fields h =
    [(0, to_le (h_magic h)), (4, to_le (h_format_ver h)), (6, to_le (h_flags h)),
     (8, to_le (h_abi_hash h)), (16, to_le (h_total_len h)),
     (20, to_le (h_modinfo_off h)), (24, to_le (h_modinfo_len h)),
     (28, to_le (h_code_off h)), (32, to_le (h_code_len h)),
     (36, to_le (h_rodata_off h)), (40, to_le (h_rodata_len h)),
     (44, to_le (h_data_off h)), (48, to_le (h_data_len h)), (52, to_le (h_bss_len h)),
     (56, to_le (h_reloc_off h)), (60, to_le (h_reloc_count h)),
     (64, to_le (h_sig_off h)), (68, to_le (h_sig_len h))]"

text \<open>\<open>encode_header\<close> panics (\<open>None\<close>) on a buffer shorter than the header.\<close>

definition encode_header :: "lmod_header \<Rightarrow> bytes \<Rightarrow> bytes option" where
  "encode_header h buf = write_all (header_fields h) buf"

definition u16_at :: "bytes \<Rightarrow> nat \<Rightarrow> u16" where "u16_at bs i = of_le (slice bs i 2)"
definition u32_at :: "bytes \<Rightarrow> nat \<Rightarrow> u32" where "u32_at bs i = of_le (slice bs i 4)"
definition u64_at :: "bytes \<Rightarrow> nat \<Rightarrow> u64" where "u64_at bs i = of_le (slice bs i 8)"

definition decode_header :: "bytes \<Rightarrow> lmod_header option" where
  "decode_header bs =
    (if length bs < unat HEADER_SIZE then None
     else if u32_at bs 0 \<noteq> LMOD_MAGIC then None
     else Some \<lparr>h_magic = u32_at bs 0, h_format_ver = u16_at bs 4, h_flags = u16_at bs 6,
       h_abi_hash = u64_at bs 8, h_total_len = u32_at bs 16,
       h_modinfo_off = u32_at bs 20, h_modinfo_len = u32_at bs 24,
       h_code_off = u32_at bs 28, h_code_len = u32_at bs 32,
       h_rodata_off = u32_at bs 36, h_rodata_len = u32_at bs 40,
       h_data_off = u32_at bs 44, h_data_len = u32_at bs 48, h_bss_len = u32_at bs 52,
       h_reloc_off = u32_at bs 56, h_reloc_count = u32_at bs 60,
       h_sig_off = u32_at bs 64, h_sig_len = u32_at bs 68\<rparr>)"

section \<open>Layout\<close>

definition align4 :: "u32 \<Rightarrow> u32" where "align4 off = (off + 3) AND NOT 3"
definition align8 :: "u32 \<Rightarrow> u32" where "align8 off = (off + 7) AND NOT 7"

definition RELOC_ENTRY_SIZE :: u32 where "RELOC_ENTRY_SIZE = 16"

definition compute_layout ::
  "u64 \<Rightarrow> u32 \<Rightarrow> u32 \<Rightarrow> u32 \<Rightarrow> u32 \<Rightarrow> u32 \<Rightarrow> u32 \<Rightarrow> u32 \<Rightarrow> lmod_header" where
  "compute_layout abi_hash modinfo_len code_len rodata_len data_len bss_len reloc_count
     enc_header_len =
    (let modinfo = HEADER_SIZE + enc_header_len;
         code = align4 (modinfo + modinfo_len);
         rodata = align8 (code + code_len);
         data = align8 (rodata + rodata_len);
         reloc = align8 (data + data_len);
         trailer = align8 (reloc + reloc_count * RELOC_ENTRY_SIZE)
     in header_new\<lparr>h_abi_hash := abi_hash, h_modinfo_off := modinfo,
          h_modinfo_len := modinfo_len, h_code_off := code, h_code_len := code_len,
          h_rodata_off := rodata, h_rodata_len := rodata_len, h_data_off := data,
          h_data_len := data_len, h_bss_len := bss_len, h_reloc_off := reloc,
          h_reloc_count := reloc_count, h_sig_off := trailer, h_sig_len := 0,
          h_total_len := trailer\<rparr>)"

section \<open>Signature trailer\<close>

definition SCHEME_NONE :: u8 where "SCHEME_NONE = 0"
definition SCHEME_HMAC_SHA256 :: u8 where "SCHEME_HMAC_SHA256 = 1"

definition sig_len_for_scheme :: "u8 \<Rightarrow> u32 option" where
  "sig_len_for_scheme scheme = (if scheme = SCHEME_NONE then Some 0
     else if scheme = SCHEME_HMAC_SHA256 then Some 32 else None)"

record sig_trailer =
  scheme :: u8
  sig_bytes :: bytes

text \<open>\<open>SigTrailer::parse\<close>; the length is compared after the cast to u32.\<close>

fun parse_trailer :: "bytes \<Rightarrow> sig_trailer option" where
  "parse_trailer [] = None"
| "parse_trailer (b # bs) =
    (case sig_len_for_scheme b of None \<Rightarrow> None
     | Some n \<Rightarrow>
         if (word_of_nat (length (b # bs)) :: u32) < 1 + n then None
         else Some \<lparr>scheme = b, sig_bytes = slice (b # bs) 1 (unat n)\<rparr>)"

definition wire_size :: "sig_trailer \<Rightarrow> u32" where
  "wire_size t = 1 + (case sig_len_for_scheme (scheme t) of Some n \<Rightarrow> n | None \<Rightarrow> 0)"

definition signed_region_len :: "lmod_header \<Rightarrow> nat" where
  "signed_region_len h =
    (if 0 < h_sig_len h then unat (h_sig_off h) else unat (h_total_len h))"

section \<open>Lemmas\<close>

lemma unat_HEADER_SIZE [simp]: "unat HEADER_SIZE = 72"
  by (simp add: HEADER_SIZE_def)

lemma header_fields_contiguous [simp]: "contiguous 0 (header_fields h)"
  by (simp add: header_fields_def)

definition header_bytes :: "lmod_header \<Rightarrow> bytes" where
  "header_bytes h = concat (map snd (header_fields h))"

lemma length_header_bytes [simp]: "length (header_bytes h) = 72"
  by (simp add: header_bytes_def header_fields_def)

lemma encode_header_eq:
  "72 \<le> length buf \<Longrightarrow> encode_header h buf = Some (header_bytes h @ drop 72 buf)"
  using write_all_contiguous [OF header_fields_contiguous, of h buf] length_header_bytes [of h]
  by (simp add: encode_header_def header_bytes_def)

lemma encode_header_short: "length buf < 72 \<Longrightarrow> encode_header h buf = None"
  using write_all_range [of "header_fields h" buf _ 68 "to_le (h_sig_len h)"]
  by (cases "encode_header h buf") (auto simp: encode_header_def header_fields_def)

lemma decode_header_bytes:
  assumes "h_magic h = LMOD_MAGIC"
  shows "decode_header (header_bytes h @ rest) = Some h"
proof -
  let ?bs = "header_bytes h @ rest"
  have bs: "?bs = to_le (h_magic h) @ to_le (h_format_ver h) @ to_le (h_flags h)
      @ to_le (h_abi_hash h) @ to_le (h_total_len h) @ to_le (h_modinfo_off h)
      @ to_le (h_modinfo_len h) @ to_le (h_code_off h) @ to_le (h_code_len h)
      @ to_le (h_rodata_off h) @ to_le (h_rodata_len h) @ to_le (h_data_off h)
      @ to_le (h_data_len h) @ to_le (h_bss_len h) @ to_le (h_reloc_off h)
      @ to_le (h_reloc_count h) @ to_le (h_sig_off h) @ to_le (h_sig_len h) @ rest"
    by (simp add: header_bytes_def header_fields_def)
  show ?thesis
    unfolding decode_header_def
    using assms
    by (simp add: bs u16_at_def u32_at_def u64_at_def slice_def le16.dec_enc le32.dec_enc
        le64.dec_enc)
qed

section \<open>Alignment and layout\<close>

lemma unat_clear_low_bits:
  "unat (w AND NOT (mask n) :: 'a::len word) = unat w div 2 ^ n * 2 ^ n"
proof -
  have w: "w AND NOT (mask n) = push_bit n (drop_bit n w)"
    by (rule bit_word_eqI) (auto simp: bit_simps)
  have "unat w div 2 ^ n * 2 ^ n \<le> unat w" by simp
  also have "unat w < 2 ^ LENGTH('a)" by (rule unsigned_less)
  finally have lt: "unat w div 2 ^ n * 2 ^ n < 2 ^ LENGTH('a)" .
  have d: "unat (drop_bit n w) = unat w div 2 ^ n"
    by (rule trans [OF unat_drop_bit_eq drop_bit_eq_div])
  show ?thesis
    unfolding w unsigned_push_bit_eq d
    using lt by (simp only: push_bit_eq_mult take_bit_nat_eq_self)
qed

lemma unat_align8:
  assumes "unat off + 7 < 2 ^ 32"
  shows "unat (align8 off) = (unat off + 7) div 8 * 8"
proof -
  have "(7::u32) = mask 3" by (simp add: mask_eq_exp_minus_1)
  moreover have "unat (off + 7) = unat off + 7" using assms by (simp add: unat_word_ariths)
  ultimately show ?thesis using unat_clear_low_bits [of "off + 7" 3] by (simp add: align8_def)
qed

lemma unat_align4:
  assumes "unat off + 3 < 2 ^ 32"
  shows "unat (align4 off) = (unat off + 3) div 4 * 4"
proof -
  have "(3::u32) = mask 2" by (simp add: mask_eq_exp_minus_1)
  moreover have "unat (off + 3) = unat off + 3" using assms by (simp add: unat_word_ariths)
  ultimately show ?thesis using unat_clear_low_bits [of "off + 3" 2] by (simp add: align4_def)
qed

lemma round_up_bounds:
  "x \<le> (x + 7) div 8 * (8::nat)" "(x + 7) div 8 * 8 \<le> x + 7"
  "x \<le> (x + 3) div 4 * (4::nat)" "(x + 3) div 4 * 4 \<le> x + 3"
  by presburger+

text \<open>A field placed at \<open>a\<close> with length \<open>n\<close> and the next offset aligned behind it.\<close>

lemma align8_step:
  assumes "unat a + unat n + 7 < 2 ^ 32"
  shows "unat a + unat n \<le> unat (align8 (a + n))" "unat (align8 (a + n)) \<le> unat a + unat n + 7"
    "8 dvd unat (align8 (a + n))"
proof -
  have an: "unat (a + n) = unat a + unat n" using assms by (simp add: unat_word_ariths)
  have "unat (align8 (a + n)) = (unat a + unat n + 7) div 8 * 8"
    using unat_align8 [of "a + n"] assms by (simp add: an)
  then show "unat a + unat n \<le> unat (align8 (a + n))" "8 dvd unat (align8 (a + n))"
    "unat (align8 (a + n)) \<le> unat a + unat n + 7"
    using round_up_bounds [of "unat a + unat n"] by simp_all
qed

lemma align4_step:
  assumes "unat a + unat n + 3 < 2 ^ 32"
  shows "unat a + unat n \<le> unat (align4 (a + n))" "unat (align4 (a + n)) \<le> unat a + unat n + 3"
    "4 dvd unat (align4 (a + n))"
proof -
  have an: "unat (a + n) = unat a + unat n" using assms by (simp add: unat_word_ariths)
  have "unat (align4 (a + n)) = (unat a + unat n + 3) div 4 * 4"
    using unat_align4 [of "a + n"] assms by (simp add: an)
  then show "unat a + unat n \<le> unat (align4 (a + n))" "4 dvd unat (align4 (a + n))"
    "unat (align4 (a + n)) \<le> unat a + unat n + 3"
    using round_up_bounds [of "unat a + unat n"] by simp_all
qed

text \<open>What a laid-out header promises: the sections follow one another without
  overlap, each at its alignment, and the container ends where the trailer starts.\<close>

definition layout_ok :: "lmod_header \<Rightarrow> bool" where
  "layout_ok h \<longleftrightarrow>
     72 \<le> unat (h_modinfo_off h)
   \<and> unat (h_modinfo_off h) + unat (h_modinfo_len h) \<le> unat (h_code_off h)
   \<and> unat (h_code_off h) + unat (h_code_len h) \<le> unat (h_rodata_off h)
   \<and> unat (h_rodata_off h) + unat (h_rodata_len h) \<le> unat (h_data_off h)
   \<and> unat (h_data_off h) + unat (h_data_len h) \<le> unat (h_reloc_off h)
   \<and> unat (h_reloc_off h) + 16 * unat (h_reloc_count h) \<le> unat (h_sig_off h)
   \<and> unat (h_sig_off h) + unat (h_sig_len h) = unat (h_total_len h)
   \<and> 4 dvd unat (h_code_off h) \<and> 8 dvd unat (h_rodata_off h) \<and> 8 dvd unat (h_data_off h)
   \<and> 8 dvd unat (h_reloc_off h) \<and> 8 dvd unat (h_sig_off h)"

lemma compute_layout_ok_aux:
  assumes "72 + unat enc + unat mi + unat co + unat ro + unat da + 16 * unat rc + 31 < 2 ^ 32"
  shows "layout_ok (compute_layout abi mi co ro da bss rc enc)
    \<and> unat (h_total_len (compute_layout abi mi co ro da bss rc enc))
      \<le> 72 + unat enc + unat mi + unat co + unat ro + unat da + 16 * unat rc + 31"
proof -
  define modinfo where "modinfo = HEADER_SIZE + enc"
  define code where "code = align4 (modinfo + mi)"
  define rodata where "rodata = align8 (code + co)"
  define data where "data = align8 (rodata + ro)"
  define reloc where "reloc = align8 (data + da)"
  define tr where "tr = align8 (reloc + rc * RELOC_ENTRY_SIZE)"
  have m: "unat modinfo = 72 + unat enc"
    using assms by (simp add: modinfo_def HEADER_SIZE_def unat_word_ariths)
  have r: "unat (rc * RELOC_ENTRY_SIZE) = 16 * unat rc"
    using assms by (simp add: RELOC_ENTRY_SIZE_def unat_word_ariths mult.commute)
  have c: "unat modinfo + unat mi \<le> unat code" "unat code \<le> unat modinfo + unat mi + 3" "4 dvd unat code"
    unfolding code_def using assms m by (intro align4_step; simp)+
  have ro: "unat code + unat co \<le> unat rodata" "unat rodata \<le> unat code + unat co + 7" "8 dvd unat rodata"
    unfolding rodata_def using assms m c by (intro align8_step; simp)+
  have da: "unat rodata + unat ro \<le> unat data" "unat data \<le> unat rodata + unat ro + 7" "8 dvd unat data"
    unfolding data_def using assms m c ro by (intro align8_step; simp)+
  have re: "unat data + unat da \<le> unat reloc" "unat reloc \<le> unat data + unat da + 7" "8 dvd unat reloc"
    unfolding reloc_def using assms m c ro da by (intro align8_step; simp)+
  have tr: "unat reloc + 16 * unat rc \<le> unat tr" "unat tr \<le> unat reloc + 16 * unat rc + 7" "8 dvd unat tr"
    unfolding tr_def r [symmetric] using assms m c ro da re by (intro align8_step; simp add: r)+
  have h: "compute_layout abi mi co ro da bss rc enc
     = header_new\<lparr>h_abi_hash := abi, h_modinfo_off := modinfo, h_modinfo_len := mi,
         h_code_off := code, h_code_len := co, h_rodata_off := rodata, h_rodata_len := ro,
         h_data_off := data, h_data_len := da, h_bss_len := bss, h_reloc_off := reloc,
         h_reloc_count := rc, h_sig_off := tr, h_sig_len := 0, h_total_len := tr\<rparr>"
    by (simp add: compute_layout_def modinfo_def code_def rodata_def data_def reloc_def tr_def Let_def)
  show ?thesis
    unfolding h layout_ok_def using m c ro da re tr by simp
qed

end
