(* ===== verification/Modinfo.thy ===== *)
theory Modinfo
  imports LmodHeader
begin

text \<open>
  The \<open>.lang.modinfo\<close> codec of crates/lmod/src/modinfo.rs: the encoder with its
  running offset, and the decoder with the readers of its tables. \<open>usize\<close>
  arithmetic whose overflow the source checks is nat: an overflow there is past the
  end of every slice and fails the same comparison. The one unchecked sum, in
  \<open>decode\<close>, wraps at \<open>umax + 1\<close>, the word size of the loader's \<open>usize\<close>, and the slice
  it guards panics when its end lies before its start.
\<close>

section \<open>Entries\<close>

definition MODINFO_VER :: u16 where "MODINFO_VER = 4"
definition MODINFO_HEADER_SIZE :: u32 where "MODINFO_HEADER_SIZE = 48"
definition EXPORT_ENTRY_SIZE :: u32 where "EXPORT_ENTRY_SIZE = 16"
definition IMPORT_ENTRY_SIZE :: u32 where "IMPORT_ENTRY_SIZE = 12"
definition WORD_META_SIZE :: u32 where "WORD_META_SIZE = 16"
definition RES_META_SIZE :: u32 where "RES_META_SIZE = 16"
definition APERTURE_USE_ENTRY_SIZE :: u32 where "APERTURE_USE_ENTRY_SIZE = 16"
definition MODINFO_FLAG_HAS_ISR :: u16 where "MODINFO_FLAG_HAS_ISR = 1"

record export_entry =
  e_sym_hash :: u64
  e_name :: bytes
  e_effects :: u16
  e_requires_caps :: u16
  e_stack_bound :: u32

record import_entry =
  i_sym_hash :: u64
  i_name :: bytes

record res_meta =
  res_hash :: u64
  sharing_class :: u8
  lock_prim :: u32

record aperture_entry =
  ap_name_hash :: u64
  ap_size :: u32
  ap_id :: u16
  ap_access_mask :: u8

section \<open>Encoding\<close>

definition pad4 :: "u32 \<Rightarrow> u32" where "pad4 n = (n + 3) AND NOT 3"

text \<open>The encoder's state: the buffer and the running offset. An emit out of range
  panics, which is \<open>None\<close> here; \<open>encode_into\<close> checks the total first.\<close>

type_synonym cursor = "bytes \<times> nat"

definition emit :: "bytes \<Rightarrow> cursor \<Rightarrow> cursor option" where
  "emit bs st = (case st of (buf, off) \<Rightarrow>
     map_option (\<lambda>buf. (buf, off + length bs)) (write_at off bs buf))"

definition skip :: "nat \<Rightarrow> cursor \<Rightarrow> cursor option" where
  "skip n st = Some (fst st, snd st + n)"

definition align_cursor :: "cursor \<Rightarrow> cursor option" where
  "align_cursor st = Some (fst st, unat (pad4 (word_of_nat (snd st))))"

fun emits :: "('a \<Rightarrow> cursor \<Rightarrow> cursor option) \<Rightarrow> 'a list \<Rightarrow> cursor \<Rightarrow> cursor option" where
  "emits f [] st = Some st"
| "emits f (x # xs) st = Option.bind (f x st) (emits f xs)"

text \<open>A null-terminated name; the offsets of the names are collected in order.\<close>

fun emit_names :: "bytes list \<Rightarrow> cursor \<Rightarrow> (u32 list \<times> cursor) option" where
  "emit_names [] st = Some ([], st)"
| "emit_names (n # ns) st =
    Option.bind (emit n st) (\<lambda>st'.
    Option.bind (emit [0] st') (\<lambda>st'.
    Option.bind (emit_names ns st') (\<lambda>(offs, st'').
    Some (word_of_nat (snd st) # offs, st''))))"

definition emit_header :: "u16 \<Rightarrow> u64 \<Rightarrow> u32 \<Rightarrow> u32 \<Rightarrow> u32 \<Rightarrow> u32 \<Rightarrow> u64 \<Rightarrow> cursor \<Rightarrow> cursor option" where
  "emit_header flags abi n_exports n_imports n_apertures n_res platform st =
    Option.bind (emit (to_le LMOD_MAGIC) st) (\<lambda>st.
    Option.bind (emit (to_le MODINFO_VER) st) (\<lambda>st.
    Option.bind (emit (to_le flags) st) (\<lambda>st.
    Option.bind (emit (to_le abi) st) (\<lambda>st.
    Option.bind (emit (to_le (0 :: u32)) st) (\<lambda>st.
    Option.bind (emit (to_le (0 :: u32)) st) (\<lambda>st.
    Option.bind (emit (to_le n_exports) st) (\<lambda>st.
    Option.bind (emit (to_le n_imports) st) (\<lambda>st.
    Option.bind (emit (to_le (ucast n_apertures :: u16)) st) (\<lambda>st.
    Option.bind (emit (to_le (ucast n_res :: u16)) st) (\<lambda>st.
    Option.bind (emit (to_le platform) st) (\<lambda>st.
    skip 4 st)))))))))))"

definition emit_export :: "u32 \<Rightarrow> nat \<times> export_entry \<times> u32 \<Rightarrow> cursor \<Rightarrow> cursor option" where
  "emit_export word_meta_base x st = (case x of (i, e, name_off) \<Rightarrow>
    Option.bind (emit (to_le (e_sym_hash e)) st) (\<lambda>st.
    Option.bind (emit (to_le name_off) st) (\<lambda>st.
    emit (to_le (word_meta_base + word_of_nat i * WORD_META_SIZE)) st)))"

definition emit_import :: "import_entry \<times> u32 \<Rightarrow> cursor \<Rightarrow> cursor option" where
  "emit_import x st = (case x of (e, name_off) \<Rightarrow>
    Option.bind (emit (to_le (i_sym_hash e)) st) (emit (to_le name_off)))"

definition emit_word_meta :: "export_entry \<Rightarrow> cursor \<Rightarrow> cursor option" where
  "emit_word_meta e st =
    Option.bind (emit (to_le (e_sym_hash e)) st) (\<lambda>st.
    Option.bind (emit (to_le (e_effects e)) st) (\<lambda>st.
    Option.bind (emit (to_le (e_requires_caps e)) st) (\<lambda>st.
    emit (to_le (e_stack_bound e)) st)))"

definition emit_res_meta :: "res_meta \<Rightarrow> cursor \<Rightarrow> cursor option" where
  "emit_res_meta r st =
    Option.bind (emit (to_le (res_hash r)) st) (\<lambda>st.
    Option.bind (emit [sharing_class r] st) (\<lambda>st.
    Option.bind (emit [0, 0, 0] st) (\<lambda>st.
    emit (to_le (lock_prim r)) st)))"

definition emit_aperture :: "aperture_entry \<Rightarrow> cursor \<Rightarrow> cursor option" where
  "emit_aperture a st =
    Option.bind (emit (to_le (ap_name_hash a)) st) (\<lambda>st.
    Option.bind (emit (to_le (ap_size a)) st) (\<lambda>st.
    Option.bind (emit (to_le (ap_id a)) st) (\<lambda>st.
    Option.bind (emit [ap_access_mask a] st) (\<lambda>st.
    emit [0] st))))"

definition names_size :: "bytes list \<Rightarrow> u32 \<Rightarrow> u32" where
  "names_size ns tot = fold (\<lambda>n tot. tot + (word_of_nat (length n) + 1)) ns tot"

definition modinfo_size ::
  "bytes \<Rightarrow> export_entry list \<Rightarrow> import_entry list \<Rightarrow> u32 \<Rightarrow> u32 \<Rightarrow> u32" where
  "modinfo_size module_name exports imports n_res n_apertures =
    (let n_exports = word_of_nat (length exports); n_imports = word_of_nat (length imports);
         tot = MODINFO_HEADER_SIZE;
         tot = pad4 (tot + word_of_nat (length module_name));
         tot = pad4 (names_size (map e_name exports) tot);
         tot = pad4 (names_size (map i_name imports) tot);
         tot = tot + n_exports * EXPORT_ENTRY_SIZE;
         tot = tot + n_imports * IMPORT_ENTRY_SIZE;
         tot = tot + n_exports * WORD_META_SIZE;
         tot = tot + n_res * RES_META_SIZE
     in tot + n_apertures * APERTURE_USE_ENTRY_SIZE)"

definition encode_into ::
  "bytes \<Rightarrow> bytes \<Rightarrow> export_entry list \<Rightarrow> import_entry list \<Rightarrow> u64 \<Rightarrow> u16 \<Rightarrow> res_meta list \<Rightarrow> u64
   \<Rightarrow> aperture_entry list \<Rightarrow> cursor option" where
  "encode_into buf module_name exports imports abi flags res_metas platform apertures =
    (let n_exports = word_of_nat (length exports) :: u32;
         n_imports = word_of_nat (length imports) :: u32;
         n_res = word_of_nat (length res_metas) :: u32;
         n_apertures = word_of_nat (length apertures) :: u32;
         tot = modinfo_size module_name exports imports n_res n_apertures in
     if 64 < n_exports \<or> 64 < n_imports then None
     else if 8 < length apertures then None
     else if length buf < unat tot then None
     else
       Option.bind (write_at 0 (replicate (unat tot) 0) buf) (\<lambda>buf.
       Option.bind (emit_header flags abi n_exports n_imports n_apertures n_res platform (buf, 0)) (\<lambda>st.
       let module_name_off = word_of_nat (snd st) :: u32 in
       Option.bind (emit module_name st) (\<lambda>st.
       Option.bind (align_cursor st) (\<lambda>st.
       Option.bind (emit_names (map e_name exports) st) (\<lambda>(export_offs, st).
       Option.bind (align_cursor st) (\<lambda>st.
       Option.bind (emit_names (map i_name imports) st) (\<lambda>(import_offs, st).
       Option.bind (align_cursor st) (\<lambda>st.
       let word_meta_base = word_of_nat (snd st) + n_exports * EXPORT_ENTRY_SIZE
                            + n_imports * IMPORT_ENTRY_SIZE in
       Option.bind (emits (emit_export word_meta_base)
                      (enumerate 0 (zip exports export_offs)) st) (\<lambda>st.
       Option.bind (emits emit_import (zip imports import_offs) st) (\<lambda>st.
       Option.bind (emits emit_word_meta exports st) (\<lambda>st.
       Option.bind (emits emit_res_meta res_metas st) (\<lambda>st.
       Option.bind (emits emit_aperture apertures st) (\<lambda>(buf, off).
       Option.bind (write_at 16 (to_le module_name_off) buf) (\<lambda>buf.
       Option.bind (write_at 20 (to_le (word_of_nat (length module_name) :: u32)) buf) (\<lambda>buf.
       Some (buf, off)))))))))))))))))"

section \<open>Decoding\<close>

text \<open>A function returning an option that may also panic.\<close>

datatype 'a outcome = Panic | Nothing | Got 'a

fun obind :: "'a outcome \<Rightarrow> ('a \<Rightarrow> 'b outcome) \<Rightarrow> 'b outcome" where
  "obind Panic f = Panic"
| "obind Nothing f = Nothing"
| "obind (Got x) f = f x"

record mod_info =
  m_name :: bytes
  m_name_off :: u32
  m_name_len :: u32
  m_export_count :: u32
  m_import_count :: u32
  m_abi_hash :: u64
  m_flags :: u16
  m_modinfo_ver :: u16
  m_aperture_count :: u32
  m_res_meta_count :: u32
  m_platform_hash :: u64

definition has_isr :: "mod_info \<Rightarrow> bool" where
  "has_isr m = (m_flags m AND MODINFO_FLAG_HAS_ISR \<noteq> 0)"

definition decode_modinfo :: "nat \<Rightarrow> bytes \<Rightarrow> mod_info outcome" where
  "decode_modinfo umax data =
    (if length data < unat MODINFO_HEADER_SIZE then Nothing
     else if u32_at data 0 \<noteq> LMOD_MAGIC then Nothing
     else (let name_off = u32_at data 16; name_len = u32_at data 20;
               name_end = (unat name_off + unat name_len) mod (umax + 1) in
       if length data < name_end then Nothing
       else if name_end < unat name_off then Panic
       else Got \<lparr>m_name = slice data (unat name_off) (name_end - unat name_off),
              m_name_off = name_off, m_name_len = name_len,
              m_export_count = u32_at data 24, m_import_count = u32_at data 28,
              m_abi_hash = u64_at data 8, m_flags = u16_at data 6, m_modinfo_ver = u16_at data 4,
              m_aperture_count = ucast (u16_at data 32), m_res_meta_count = ucast (u16_at data 34),
              m_platform_hash = u64_at data 36\<rparr>))"

text \<open>The loops over the null-terminated names: skip to the next zero byte and past
  it, \<open>n\<close> times.\<close>

fun find_nul :: "nat \<Rightarrow> bytes \<Rightarrow> nat \<Rightarrow> nat" where
  "find_nul 0 data off = off"
| "find_nul (Suc k) data off =
    (if off < length data \<and> data ! off \<noteq> 0 then find_nul k data (off + 1) else off)"

fun skip_names :: "nat \<Rightarrow> bytes \<Rightarrow> nat \<Rightarrow> nat option" where
  "skip_names 0 data off = Some off"
| "skip_names (Suc n) data off =
    (let off = find_nul (length data) data off in
     if length data \<le> off then None else skip_names n data (off + 1))"

definition align4_nat :: "nat \<Rightarrow> nat" where "align4_nat off = (off + 3) div 4 * 4"

definition of_option :: "'a option \<Rightarrow> 'a outcome" where
  "of_option x = (case x of None \<Rightarrow> Nothing | Some y \<Rightarrow> Got y)"

definition export_entries_offset :: "nat \<Rightarrow> bytes \<Rightarrow> nat outcome" where
  "export_entries_offset umax data =
    obind (decode_modinfo umax data) (\<lambda>hdr.
    obind (of_option (skip_names (unat (m_export_count hdr)) data
             (align4_nat (unat MODINFO_HEADER_SIZE + unat (m_name_len hdr))))) (\<lambda>off.
    obind (of_option (skip_names (unat (m_import_count hdr)) data (align4_nat off))) (\<lambda>off.
    let off = align4_nat off in
    if length data < off + unat (m_export_count hdr) * unat EXPORT_ENTRY_SIZE then Nothing
    else Got off)))"

record parsed_export =
  x_sym_hash :: u64
  x_name :: bytes
  x_value_off :: u32

text \<open>The bytes up to the first zero byte.\<close>

definition read_export :: "nat \<Rightarrow> bytes \<Rightarrow> u32 \<Rightarrow> parsed_export outcome" where
  "read_export umax data index =
    obind (decode_modinfo umax data) (\<lambda>hdr.
    if m_export_count hdr \<le> index then Nothing
    else obind (export_entries_offset umax data) (\<lambda>entries.
      let off = entries + unat index * unat EXPORT_ENTRY_SIZE;
          name_off = unat (u32_at data (off + 8)) in
      if length data \<le> name_off then Nothing
      else Got \<lparr>x_sym_hash = u64_at data off,
                x_name = takeWhile (\<lambda>b. b \<noteq> 0) (drop name_off data),
                x_value_off = u32_at data (off + 12)\<rparr>))"

definition res_meta_offset :: "nat \<Rightarrow> bytes \<Rightarrow> nat outcome" where
  "res_meta_offset umax data =
    obind (decode_modinfo umax data) (\<lambda>hdr.
    obind (export_entries_offset umax data) (\<lambda>off.
    let imports_off = off + unat (m_export_count hdr) * unat EXPORT_ENTRY_SIZE;
        word_meta_off = imports_off + unat (m_import_count hdr) * unat IMPORT_ENTRY_SIZE;
        word_meta_end = word_meta_off + unat (m_export_count hdr) * unat WORD_META_SIZE in
    if length data < word_meta_end + unat (m_res_meta_count hdr) * unat RES_META_SIZE then Nothing
    else Got word_meta_end))"

definition read_res_meta :: "nat \<Rightarrow> bytes \<Rightarrow> u32 \<Rightarrow> res_meta outcome" where
  "read_res_meta umax data index =
    obind (decode_modinfo umax data) (\<lambda>hdr.
    if m_res_meta_count hdr \<le> index then Nothing
    else obind (res_meta_offset umax data) (\<lambda>entries.
      let off = entries + unat index * unat RES_META_SIZE in
      Got \<lparr>res_hash = u64_at data off, sharing_class = data ! (off + 8),
           lock_prim = u32_at data (off + 12)\<rparr>))"

definition aperture_use_offset :: "nat \<Rightarrow> bytes \<Rightarrow> nat outcome" where
  "aperture_use_offset umax data =
    obind (decode_modinfo umax data) (\<lambda>hdr.
    obind (res_meta_offset umax data) (\<lambda>start.
    let off = start + unat (m_res_meta_count hdr) * unat RES_META_SIZE in
    if length data < off + unat (m_aperture_count hdr) * unat APERTURE_USE_ENTRY_SIZE then Nothing
    else Got off))"

definition read_aperture_use :: "nat \<Rightarrow> bytes \<Rightarrow> u32 \<Rightarrow> aperture_entry outcome" where
  "read_aperture_use umax data index =
    obind (decode_modinfo umax data) (\<lambda>hdr.
    if m_aperture_count hdr \<le> index then Nothing
    else obind (aperture_use_offset umax data) (\<lambda>entries.
      let off = entries + unat index * unat APERTURE_USE_ENTRY_SIZE in
      Got \<lparr>ap_name_hash = u64_at data off, ap_size = u32_at data (off + 8),
           ap_id = u16_at data (off + 12), ap_access_mask = data ! (off + 14)\<rparr>))"

end
