(* ===== verification/LoaderTypes.thy ===== *)
theory LoaderTypes
  imports Modinfo
begin

text \<open>
  The error values of crates/loader-core/src/error.rs with their codes, the trust
  levels and policies of platform.rs, the board aperture of crates/lmod, and the
  result of a loader step: \<open>LPanic\<close> stands for a Rust panic.
\<close>

datatype load_error =
    AbiMismatch | BadContainer | SigInvalid | RelocUnsupported | SymbolUnresolved | SymbolConflict
  | ModuleDeclaresIsr | ResourceSharingMismatch | ContainerEncrypted | ModuleAlreadyLoaded
  | StackBoundUnverifiable | EncUnsupported | EncRequiresSigned | EncNoKey | EncAuthFail
  | EncBadHeader | ApertureBaseMismatch | PlatformHashMismatch | ApertureConflict
  | ApertureUnresolved | ApertureTableMalformed | ModinfoVersionUnsupported
  | VerifyManifestMalformed | VerifyManifestDigest | VerifyPolicyReject

fun load_code :: "load_error \<Rightarrow> u32" where
  "load_code AbiMismatch = 5200"
| "load_code BadContainer = 5201"
| "load_code SigInvalid = 5202"
| "load_code ModuleDeclaresIsr = 5203"
| "load_code RelocUnsupported = 5204"
| "load_code SymbolUnresolved = 5205"
| "load_code SymbolConflict = 5206"
| "load_code ResourceSharingMismatch = 5208"
| "load_code ModuleAlreadyLoaded = 5210"
| "load_code ContainerEncrypted = 5212"
| "load_code EncUnsupported = 5213"
| "load_code EncRequiresSigned = 5214"
| "load_code EncNoKey = 5215"
| "load_code EncAuthFail = 5216"
| "load_code EncBadHeader = 5217"
| "load_code StackBoundUnverifiable = 5218"
| "load_code ApertureBaseMismatch = 5219"
| "load_code PlatformHashMismatch = 5220"
| "load_code ApertureConflict = 5221"
| "load_code ApertureUnresolved = 5222"
| "load_code ApertureTableMalformed = 5223"
| "load_code ModinfoVersionUnsupported = 5224"
| "load_code VerifyManifestMalformed = 6500"
| "load_code VerifyManifestDigest = 6501"
| "load_code VerifyPolicyReject = 6502"

text \<open>\<open>From<u32> for LoadError\<close>: every platform code becomes \<open>BadContainer\<close>.\<close>

definition load_error_of_code :: "u32 \<Rightarrow> load_error" where
  "load_error_of_code code = BadContainer"

datatype lfail = LErr load_error | LPanic

definition lerr :: "load_error \<Rightarrow> lfail + 'a" where "lerr e = Inl (LErr e)"

definition l_guard :: "bool \<Rightarrow> load_error \<Rightarrow> lfail + unit" where
  "l_guard ok e = ensureE ok (LErr e)"

text \<open>\<open>ok_or(e)?\<close> on a fallible reader.\<close>

fun ok_or :: "load_error \<Rightarrow> 'a outcome \<Rightarrow> lfail + 'a" where
  "ok_or e (Got x) = Inr x"
| "ok_or e Nothing = Inl (LErr e)"
| "ok_or e Panic = Inl LPanic"

datatype trust_level = TZero | TOne | TTwo

fun trust_rank :: "trust_level \<Rightarrow> u32" where
  "trust_rank TZero = 0"
| "trust_rank TOne = 1"
| "trust_rank TTwo = 2"

datatype verify_policy = VP_Off | VP_RequireNoOpen | VP_RequireProven

fun verify_policy_u8 :: "verify_policy \<Rightarrow> u8" where
  "verify_policy_u8 VP_Off = 0"
| "verify_policy_u8 VP_RequireNoOpen = 1"
| "verify_policy_u8 VP_RequireProven = 2"

datatype placement_policy = CopyToRam | XipFromFlash

record board_aperture =
  b_name_hash :: u64
  b_base :: u32
  b_size :: u32
  b_capability :: u8

definition APERTURE_CAP :: nat where "APERTURE_CAP = 8"

lemma lerr_not_Inr [simp]: "lerr e \<noteq> Inr x" by (simp add: lerr_def)

lemma l_guard_Inr [result_simps]: "l_guard b e = Inr u \<longleftrightarrow> b"
  by (simp add: l_guard_def result_simps)

lemma ok_or_Inr [result_simps]: "ok_or e r = Inr x \<longleftrightarrow> r = Got x"
  by (cases r) auto

end
