(* ===== verification/Reloc.thy ===== *)
theory Reloc
  imports LmodHeader IrText
begin

text \<open>
  The import relocation table of crates/lmod/src/reloc/mod.rs: relocation kinds,
  aperture-base sites and the 16-byte entry codec. The three padding bytes of an
  entry are not written. \<open>usize\<close> offsets are nat: a \<open>checked_add\<close> that fails is
  past the end of every slice.
\<close>

section \<open>Kinds and sites\<close>

datatype reloc_kind =
    X86_64_64 | X86_64_PC32 | X86_64_PLT32
  | ArmAbs32 | ArmThmCall | ArmThmJump24 | ArmRel32
  | RiscV32 | RiscVCall | MmioApertureBase

fun reloc_kind_u8 :: "reloc_kind \<Rightarrow> u8" where
  "reloc_kind_u8 X86_64_64 = 1"
| "reloc_kind_u8 X86_64_PC32 = 2"
| "reloc_kind_u8 X86_64_PLT32 = 3"
| "reloc_kind_u8 ArmAbs32 = 4"
| "reloc_kind_u8 ArmThmCall = 5"
| "reloc_kind_u8 ArmThmJump24 = 6"
| "reloc_kind_u8 ArmRel32 = 7"
| "reloc_kind_u8 RiscV32 = 8"
| "reloc_kind_u8 RiscVCall = 9"
| "reloc_kind_u8 MmioApertureBase = 10"

definition reloc_from_u8 :: "u8 \<Rightarrow> reloc_kind option" where
  "reloc_from_u8 v =
    (if v = 1 then Some X86_64_64 else if v = 2 then Some X86_64_PC32
     else if v = 3 then Some X86_64_PLT32 else if v = 4 then Some ArmAbs32
     else if v = 5 then Some ArmThmCall else if v = 6 then Some ArmThmJump24
     else if v = 7 then Some ArmRel32 else if v = 8 then Some RiscV32
     else if v = 9 then Some RiscVCall else if v = 10 then Some MmioApertureBase
     else None)"

definition aperture_base_symbol :: "u16 \<Rightarrow> string" where
  "aperture_base_symbol i = ''__lang_aperture_'' @ write_u32 (ucast i) @ ''_base''"

definition apply_base :: "bytes \<Rightarrow> nat \<Rightarrow> u32 \<Rightarrow> bytes option" where
  "apply_base site site_off base = write_at site_off (to_le base) site"

definition read_site_base :: "bytes \<Rightarrow> nat \<Rightarrow> u32 option" where
  "read_site_base site site_off = map_option of_le (read_at site site_off 4)"

section \<open>Entries\<close>

record reloc_entry =
  site_off :: u32
  sym_hash :: u64
  r_kind :: u8

fun encode_entries :: "nat \<Rightarrow> reloc_entry list \<Rightarrow> bytes \<Rightarrow> bytes option" where
  "encode_entries i [] buf = Some buf"
| "encode_entries i (e # es) buf =
    (let off = i * unat RELOC_ENTRY_SIZE in
     case write_all [(off, to_le (site_off e)), (off + 4, to_le (sym_hash e)),
                     (off + 12, [r_kind e])] buf of
       None \<Rightarrow> None
     | Some buf \<Rightarrow> encode_entries (i + 1) es buf)"

definition encode_relocs :: "bytes \<Rightarrow> reloc_entry list \<Rightarrow> (bytes \<times> nat) option" where
  "encode_relocs buf es =
    (let n_bytes = length es * unat RELOC_ENTRY_SIZE in
     if length buf < n_bytes then None
     else map_option (\<lambda>buf. (buf, n_bytes)) (encode_entries 0 es buf))"

definition decode_entry :: "bytes \<Rightarrow> nat \<Rightarrow> reloc_entry option" where
  "decode_entry data off =
    (if length data < off + unat RELOC_ENTRY_SIZE then None
     else Some \<lparr>site_off = u32_at data off, sym_hash = u64_at data (off + 4),
                r_kind = data ! (off + 12)\<rparr>)"

section \<open>The entry codec\<close>

lemma unat_RELOC_ENTRY_SIZE [simp]: "unat RELOC_ENTRY_SIZE = 16"
  by (simp add: RELOC_ENTRY_SIZE_def)

definition entry_bytes :: "reloc_entry \<Rightarrow> bytes" where
  "entry_bytes e = to_le (site_off e) @ to_le (sym_hash e) @ [r_kind e]"

definition entry_of_bytes :: "bytes \<Rightarrow> reloc_entry" where
  "entry_of_bytes bs = \<lparr>site_off = u32_at bs 0, sym_hash = u64_at bs 4, r_kind = bs ! 12\<rparr>"

interpretation entry: byte_codec entry_bytes entry_of_bytes 13
  by unfold_locales
    (simp_all add: entry_bytes_def entry_of_bytes_def u32_at_def u64_at_def slice_def
      le32.dec_enc le64.dec_enc nth_append)

lemma decode_entry_slice:
  assumes "off + 16 \<le> length data"
  shows "decode_entry data off = Some (entry_of_bytes (slice data off 13))"
  using assms
  by (simp add: decode_entry_def entry_of_bytes_def u32_at_def u64_at_def slice_slice)
    (simp add: slice_def)

lemma write_entry:
  assumes "off + 13 \<le> length buf"
  shows "write_all [(off, to_le (site_off e)), (off + 4, to_le (sym_hash e)), (off + 12, [r_kind e])] buf
       = write_at off (entry_bytes e) buf"
proof -
  have c: "contiguous off [(off, to_le (site_off e)), (off + 4, to_le (sym_hash e)),
      (off + 12, [r_kind e])]" by simp
  have "length (entry_bytes e) = 13" by (simp add: entry_bytes_def)
  then show ?thesis
    using write_all_contiguous [OF c, of buf] assms by (simp add: write_at_def entry_bytes_def)
qed

lemma encode_entries_total:
  "(i + length es) * 16 \<le> length buf \<Longrightarrow> \<exists>buf'. encode_entries i es buf = Some buf'"
proof (induction es arbitrary: i buf)
  case (Cons e es)
  have r: "i * 16 + 13 \<le> length buf" using Cons.prems by simp
  obtain b where b: "write_at (i * 16) (entry_bytes e) buf = Some b"
    using r by (auto simp: write_at_def entry.enc_length)
  have "length b = length buf" using b by (rule write_at_length)
  then obtain b' where "encode_entries (i + 1) es b = Some b'"
    using Cons.IH [of "i + 1" b] Cons.prems by auto
  then show ?case using b write_entry [OF r, of e] by (simp add: Let_def)
qed simp

lemma block_index:
  assumes "i * 16 \<le> j" "j < i * 16 + (16::nat)"
  shows "j div 16 = i \<and> j mod 16 = j - i * 16"
proof -
  obtain k where "j = i * 16 + k" using assms(1) le_iff_add by blast
  with assms(2) show ?thesis by simp
qed

text \<open>Every byte of the encoded buffer: an entry's byte, or the byte that was there.\<close>

lemma encode_entries_nth:
  assumes "encode_entries i es buf = Some buf'" "(i + length es) * 16 \<le> length buf"
  shows "length buf' = length buf \<and> (\<forall>j < length buf. buf' ! j =
     (if i * 16 \<le> j \<and> j < (i + length es) * 16 \<and> j mod 16 < 13
      then entry_bytes (es ! (j div 16 - i)) ! (j mod 16) else buf ! j))"
  using assms
proof (induction es arbitrary: i buf)
  case (Cons e es)
  have r: "i * 16 + 13 \<le> length buf" using Cons.prems by simp
  then obtain b where b: "write_at (i * 16) (entry_bytes e) buf = Some b"
      "encode_entries (i + 1) es b = Some buf'"
    using Cons.prems(1) write_entry [OF r, of e]
    by (auto simp: Let_def split: option.splits)
  have lb: "length b = length buf" using b(1) by (rule write_at_length)
  have IH: "length buf' = length b" "\<And>j. j < length b \<Longrightarrow> buf' ! j =
     (if (i + 1) * 16 \<le> j \<and> j < (i + 1 + length es) * 16 \<and> j mod 16 < 13
      then entry_bytes (es ! (j div 16 - (i + 1))) ! (j mod 16) else b ! j)"
    using Cons.IH [OF b(2)] Cons.prems(2) lb by auto
  show ?case
  proof (intro conjI allI impI)
    fix j assume j: "j < length buf"
    have bj: "b ! j = (if i * 16 \<le> j \<and> j < i * 16 + 13 then entry_bytes e ! (j - i * 16) else buf ! j)"
      using write_at_nth [OF b(1) j] by (simp add: entry.enc_length)
    consider (here) "i * 16 \<le> j" "j < (i + 1) * 16" | (later) "(i + 1) * 16 \<le> j" | (before) "j < i * 16"
      by linarith
    then show "buf' ! j = (if i * 16 \<le> j \<and> j < (i + length (e # es)) * 16 \<and> j mod 16 < 13
      then entry_bytes ((e # es) ! (j div 16 - i)) ! (j mod 16) else buf ! j)"
    proof cases
      case here
      then have "j div 16 = i" "j mod 16 = j - i * 16"
        using block_index [of i j] by simp_all
      then show ?thesis using here IH(2) [of j] j lb bj by auto
    next
      case later
      then have d: "i < j div 16" by (simp add: less_eq_div_iff_mult_less_eq Suc_le_eq [symmetric])
      then have "(e # es) ! (j div 16 - i) = es ! (j div 16 - (i + 1))" by (simp add: nth_Cons')
      moreover have "\<not> j < i * 16 + 13" using later by simp
      ultimately show ?thesis using later IH(2) [of j] j lb bj by auto
    next
      case before
      then show ?thesis using IH(2) [of j] j lb bj by auto
    qed
  qed (simp add: IH lb)
qed auto

lemma encode_relocs_decode:
  assumes "encode_relocs buf es = Some (buf', n)" "i < length es"
  shows "decode_entry buf' (i * 16) = Some (es ! i)"
proof -
  have len: "length es * 16 \<le> length buf" and e: "encode_entries 0 es buf = Some buf'"
    using assms(1) by (auto simp: encode_relocs_def Let_def split: if_splits)
  have lb: "length buf' = length buf" and nth: "\<And>j. j < length buf \<Longrightarrow> buf' ! j =
     (if j < length es * 16 \<and> j mod 16 < 13
      then entry_bytes (es ! (j div 16)) ! (j mod 16) else buf ! j)"
    using encode_entries_nth [OF e] len by auto
  have i: "i * 16 + 16 \<le> length es * 16" using assms(2) by simp
  have "slice buf' (i * 16) 13 = entry_bytes (es ! i)"
  proof (rule nth_equalityI)
    show "length (slice buf' (i * 16) 13) = length (entry_bytes (es ! i))"
      using i len lb by (simp add: slice_def entry.enc_length)
    fix k assume "k < length (slice buf' (i * 16) 13)"
    then have k: "k < 13" by (simp add: slice_def)
    then have "(i * 16 + k) div 16 = i" "(i * 16 + k) mod 16 = k" by simp_all
    then show "slice buf' (i * 16) 13 ! k = entry_bytes (es ! i) ! k"
      using nth [of "i * 16 + k"] k i len lb by (simp add: slice_def)
  qed
  then show ?thesis
    using decode_entry_slice [of "i * 16" buf'] i len lb by (simp add: entry.dec_enc)
qed

lemma encode_relocs_frame:
  assumes "encode_relocs buf es = Some (buf', n)" "j < length buf" "n \<le> j \<or> 13 \<le> j mod 16"
  shows "buf' ! j = buf ! j"
proof -
  have len: "length es * 16 \<le> length buf" and e: "encode_entries 0 es buf = Some buf'"
    and n: "n = length es * 16"
    using assms(1) by (auto simp: encode_relocs_def Let_def split: if_splits)
  show ?thesis using encode_entries_nth [OF e] len assms(2,3) n by auto
qed

end
