(* ===== verification/Thumb.thy ===== *)
theory Thumb
  imports Bytes
begin

text \<open>
  The Thumb-2 BL / B.W codec of crates/lmod/src/reloc/thumb.rs, on 16-bit halfwords
  and the 32-bit halfword displacement, with the round trip over the whole
  \<open>\<plusminus>16 MiB\<close> range.
\<close>

section \<open>Codec\<close>

definition hw0_of :: "u32 \<Rightarrow> u16" where
  "hw0_of h =
    (let s = ucast (drop_bit 23 h AND 1) :: u16;
         imm10 = ucast (drop_bit 11 h AND 0x3FF) :: u16
     in 0xF000 OR push_bit 10 s OR imm10)"

definition hw1_of :: "u32 \<Rightarrow> u16 \<Rightarrow> u16" where
  "hw1_of h l =
    (let s = ucast (drop_bit 23 h AND 1) :: u16;
         i1 = ucast (drop_bit 22 h AND 1) :: u16;
         i2 = ucast (drop_bit 21 h AND 1) :: u16;
         j1 = 1 XOR i1 XOR s;
         j2 = 1 XOR i2 XOR s;
         imm11 = ucast (h AND 0x7FF) :: u16
     in 0xE000 OR l OR push_bit 13 j1 OR push_bit 11 j2 OR imm11)"

definition encode_branch :: "bytes \<Rightarrow> i64 \<Rightarrow> bool option \<Rightarrow> unit + bytes" where
  "encode_branch insn offset link =
    (if length insn < 4 then Inl ()
     else if odd offset then Inl ()
     else (let half = offset div 2 in
       if \<not> (- 0x800000 \<le> half \<and> half \<le> 0x7FFFFF) then Inl ()
       else (let h = word_of_int half :: u32;
                 existing = of_le (slice insn 2 2) :: u16;
                 l = (case link of Some True \<Rightarrow> 0x1000 | Some False \<Rightarrow> 0
                        | None \<Rightarrow> existing AND 0x1000)
             in Inr (to_le (hw0_of h) @ to_le (hw1_of h l) @ drop 4 insn))))"

definition encode_bl :: "bytes \<Rightarrow> i64 \<Rightarrow> unit + bytes" where
  "encode_bl insn offset = encode_branch insn offset (Some True)"

definition half_of :: "u16 \<Rightarrow> u16 \<Rightarrow> u32" where
  "half_of hw0 hw1 =
    (let s = ucast (drop_bit 10 hw0 AND 1) :: u32;
         j1 = ucast (drop_bit 13 hw1 AND 1) :: u32;
         j2 = ucast (drop_bit 11 hw1 AND 1) :: u32;
         imm10 = ucast (hw0 AND 0x03FF) :: u32;
         imm11 = ucast (hw1 AND 0x7FF) :: u32;
         i1 = j1 XOR (s XOR 1);
         i2 = j2 XOR (s XOR 1)
     in push_bit 23 s OR push_bit 22 i1 OR push_bit 21 i2 OR push_bit 11 imm10 OR imm11)"

definition decode_branch :: "bytes \<Rightarrow> unit + i64 \<times> bool" where
  "decode_branch insn =
    (if length insn < 4 then Inl ()
     else (let hw0 = of_le (slice insn 0 2) :: u16; hw1 = of_le (slice insn 2 2) :: u16 in
       if hw0 AND 0xF800 \<noteq> 0xF000 then Inl ()
       else if hw1 AND 0xC000 \<noteq> 0xC000 then Inl ()
       else (let half = half_of hw0 hw1;
                 half_signed = (if half AND 0x800000 \<noteq> 0 then uint half - 0x1000000
                                else uint half)
             in Inr (half_signed * 2, hw1 AND 0x1000 \<noteq> 0))))"

section \<open>Bit arithmetic\<close>

lemma nat_less_cases:
  "n < (32::nat) \<Longrightarrow> n \<in> {0,1,2,3,4,5,6,7,8,9,10,11,12,13,14,15,16,17,18,19,20,21,22,23,24,25,26,27,28,29,30,31}"
  unfolding insert_iff empty_iff by presburger

text \<open>The displacement read back: the constant \<open>0xE000\<close> of the second halfword
  already has bit 13 set, so J1 is always 1 and bit 22 is a copy of the sign.\<close>

lemma half_of_hw:
  assumes "l = 0 \<or> l = 0x1000"
  shows "half_of (hw0_of h) (hw1_of h l) = take_bit 22 h OR (if bit h 23 then 0xC00000 else 0)"
proof (rule bit_word_eqI)
  fix n assume "n < LENGTH(32)"
  then have "n \<in> {0,1,2,3,4,5,6,7,8,9,10,11,12,13,14,15,16,17,18,19,20,21,22,23,24,25,26,27,28,29,30,31}"
    using nat_less_cases by simp
  then show "bit (half_of (hw0_of h) (hw1_of h l)) n
      = bit (take_bit 22 h OR (if bit h 23 then 0xC00000 else 0)) n"
    using assms
    by (elim insertE) (auto simp: half_of_def hw0_of_def hw1_of_def Let_def bit_simps)
qed

lemma hw_fixed_bits:
  assumes "l = 0 \<or> l = 0x1000"
  shows "hw0_of h AND 0xF800 = 0xF000" "hw1_of h l AND 0xC000 = 0xC000"
    "hw1_of h l AND 0x1000 \<noteq> 0 \<longleftrightarrow> l = 0x1000"
proof -
  have n16: "n \<in> {0,1,2,3,4,5,6,7,8,9,10,11,12,13,14,15}" if "n < LENGTH(16)" for n
    using that nat_less_cases [of n] by auto
  show "hw0_of h AND 0xF800 = 0xF000"
  proof (rule bit_word_eqI)
    fix n assume "n < LENGTH(16)"
    then have n: "n \<in> {0,1,2,3,4,5,6,7,8,9,10,11,12,13,14,15}" by (rule n16)
    show "bit (hw0_of h AND 0xF800) n = bit (0xF000 :: u16) n"
      using n by (elim insertE) (auto simp: hw0_of_def Let_def bit_simps)
  qed
  show "hw1_of h l AND 0xC000 = 0xC000"
  proof (rule bit_word_eqI)
    fix n assume "n < LENGTH(16)"
    then have n: "n \<in> {0,1,2,3,4,5,6,7,8,9,10,11,12,13,14,15}" by (rule n16)
    show "bit (hw1_of h l AND 0xC000) n = bit (0xC000 :: u16) n"
      using n assms by (elim insertE) (auto simp: hw1_of_def Let_def bit_simps)
  qed
  have "hw1_of h l AND 0x1000 = l"
  proof (rule bit_word_eqI)
    fix n assume "n < LENGTH(16)"
    then have n: "n \<in> {0,1,2,3,4,5,6,7,8,9,10,11,12,13,14,15}" by (rule n16)
    show "bit (hw1_of h l AND 0x1000) n = bit l n"
      using n assms by (elim insertE) (auto simp: hw1_of_def Let_def bit_simps)
  qed
  then show "hw1_of h l AND 0x1000 \<noteq> 0 \<longleftrightarrow> l = 0x1000" using assms by auto
qed

lemma sign_bit_23:
  assumes "- 0x800000 \<le> half" "half \<le> (0x7FFFFF::int)"
  shows "bit (word_of_int half :: u32) 23 \<longleftrightarrow> half < 0"
proof -
  have "half div 2 ^ 23 = (if half < 0 then - 1 else 0)"
    using assms by (auto intro: int_div_pos_eq div_pos_pos_trivial)
  moreover have "bit (word_of_int half :: u32) 23 = bit half 23" by (simp add: bit_simps)
  ultimately show ?thesis by (simp add: bit_iff_odd [of half])
qed

definition half_signed :: "u32 \<Rightarrow> int" where
  "half_signed x = (if x AND 0x800000 \<noteq> 0 then uint x - 0x1000000 else uint x)"

lemma uint_low_22: "uint (take_bit 22 (word_of_int half) :: u32) = half mod 2 ^ 22"
  by (simp add: unsigned_take_bit_eq unsigned_of_int min_def)
    (simp add: take_bit_eq_mod)

lemma and_bit_23: "(x :: u32) AND 0x800000 = (if bit x 23 then 0x800000 else 0)"
proof (rule bit_word_eqI)
  fix n assume "n < LENGTH(32)"
  then have "n < 32" by simp
  then have n: "n \<in> {0,1,2,3,4,5,6,7,8,9,10,11,12,13,14,15,16,17,18,19,20,21,22,23,24,25,26,27,28,29,30,31}"
    by (rule nat_less_cases)
  show "bit (x AND 0x800000) n = bit (if bit x 23 then 0x800000 else 0 :: u32) n"
    using n by (elim insertE) (auto simp: bit_simps)
qed

lemma half_signed_of:
  assumes "- 0x800000 \<le> half" "half \<le> 0x7FFFFF" "l = 0 \<or> l = 0x1000"
  shows "half_signed (half_of (hw0_of (word_of_int half)) (hw1_of (word_of_int half) l))
       = half mod 2 ^ 22 - (if half < 0 then 2 ^ 22 else 0)"
proof -
  let ?h = "word_of_int half :: u32"
  let ?x = "half_of (hw0_of ?h) (hw1_of ?h l)"
  have x: "?x = take_bit 22 ?h OR (if half < 0 then 0xC00000 else 0)"
    by (simp only: half_of_hw [OF assms(3)] sign_bit_23 [OF assms(1,2)])
  have b: "bit ?x 23 \<longleftrightarrow> half < 0" by (simp add: x bit_simps)
  show ?thesis
  proof (cases "half < 0")
    case True
    have "take_bit 22 ?h AND 0xC00000 = 0"
    proof (rule bit_word_eqI)
      fix n assume "n < LENGTH(32)"
      then have "n < 32" by simp
      then have n: "n \<in> {0,1,2,3,4,5,6,7,8,9,10,11,12,13,14,15,16,17,18,19,20,21,22,23,24,25,26,27,28,29,30,31}"
    by (rule nat_less_cases)
      show "bit (take_bit 22 ?h AND 0xC00000) n = bit (0 :: u32) n"
        using n by (elim insertE) (auto simp: bit_simps)
    qed
    then have "?x = take_bit 22 ?h + 0xC00000" using True x by (simp only: disjunctive_add_eq_or if_True)
    moreover have "uint (take_bit 22 ?h) + 0xC00000 < 2 ^ 32"
      using pos_mod_bound [of "2 ^ 22" half] by (simp add: uint_low_22)
    ultimately have "uint ?x = half mod 2 ^ 22 + 0xC00000"
      using uint_low_22 [of half] by (simp add: uint_word_ariths)
    then show ?thesis using True b by (simp add: half_signed_def and_bit_23)
  next
    case False
    then show ?thesis using b x uint_low_22 [of half] by (simp add: half_signed_def and_bit_23)
  qed
qed

lemma decode_branch_of_halfwords:
  assumes "l = 0 \<or> l = 0x1000"
  shows "decode_branch (to_le (hw0_of h) @ to_le (hw1_of h l) @ rest)
       = Inr (half_signed (half_of (hw0_of h) (hw1_of h l)) * 2, l = 0x1000)"
proof -
  have r: "of_le (slice (to_le (hw0_of h) @ to_le (hw1_of h l) @ rest) 0 2) = hw0_of h"
    "of_le (slice (to_le (hw0_of h) @ to_le (hw1_of h l) @ rest) 2 2) = hw1_of h l"
    by (simp_all add: slice_def le16.dec_enc)
  show ?thesis
    unfolding decode_branch_def r half_signed_def Let_def hw_fixed_bits(1,2) [OF assms]
    using hw_fixed_bits(3) [OF assms, of h] by simp
qed

lemma encode_branch_Inr:
  assumes "encode_branch insn offset link = Inr insn'"
  obtains l where "4 \<le> length insn" "even offset" "- 0x800000 \<le> offset div 2"
    "offset div 2 \<le> 0x7FFFFF" "l = 0 \<or> l = 0x1000"
    "l = 0x1000 \<longleftrightarrow> (case link of Some b \<Rightarrow> b | None \<Rightarrow> bit (of_le (slice insn 2 2) :: u16) 12)"
    "insn' = to_le (hw0_of (word_of_int (offset div 2))) @ to_le (hw1_of (word_of_int (offset div 2)) l)
       @ drop 4 insn"
proof -
  define e where "e = (of_le (slice insn 2 2) :: u16)"
  define l where "l = (case link of Some True \<Rightarrow> 0x1000 | Some False \<Rightarrow> 0 | None \<Rightarrow> e AND 0x1000)"
  have e: "e AND 0x1000 = (if bit e 12 then 0x1000 else 0)"
  proof (rule bit_word_eqI)
    fix n assume "n < LENGTH(16)"
    then have "n < 32" by simp
    then have n: "n \<in> {0,1,2,3,4,5,6,7,8,9,10,11,12,13,14,15,16,17,18,19,20,21,22,23,24,25,26,27,28,29,30,31}"
      by (rule nat_less_cases)
    show "bit (e AND 0x1000) n = bit (if bit e 12 then 0x1000 else 0 :: u16) n"
      using n by (elim insertE) (auto simp: bit_simps)
  qed
  have l: "l = 0 \<or> l = 0x1000" "l = 0x1000 \<longleftrightarrow> (case link of Some b \<Rightarrow> b | None \<Rightarrow> bit e 12)"
    by (auto simp: l_def e split: option.split bool.split)
  have c: "4 \<le> length insn" "even offset" "- 0x800000 \<le> offset div 2" "offset div 2 \<le> 0x7FFFFF"
    and i: "insn' = to_le (hw0_of (word_of_int (offset div 2)))
         @ to_le (hw1_of (word_of_int (offset div 2)) l) @ drop 4 insn"
    using assms unfolding encode_branch_def l_def e_def by (simp_all add: Let_def split: if_splits)
  show thesis by (rule that [OF c l(1) l(2) [unfolded e_def] i])
qed

lemma decode_encode:
  assumes "encode_branch insn offset link = Inr insn'"
  shows "decode_branch insn' =
    Inr ((offset div 2 mod 2 ^ 22 - (if offset < 0 then 2 ^ 22 else 0)) * 2,
         case link of Some b \<Rightarrow> b | None \<Rightarrow> bit (of_le (slice insn 2 2) :: u16) 12)"
proof -
  obtain l where c: "- 0x800000 \<le> offset div 2" "offset div 2 \<le> 0x7FFFFF" "l = 0 \<or> l = 0x1000"
    and l: "l = 0x1000 \<longleftrightarrow> (case link of Some b \<Rightarrow> b | None \<Rightarrow> bit (of_le (slice insn 2 2) :: u16) 12)"
    and i: "insn' = to_le (hw0_of (word_of_int (offset div 2)))
        @ to_le (hw1_of (word_of_int (offset div 2)) l) @ drop 4 insn"
    using assms by (rule encode_branch_Inr)
  have "offset div 2 < 0 \<longleftrightarrow> offset < 0" by presburger
  then show ?thesis
    unfolding i decode_branch_of_halfwords [OF c(3)] half_signed_of [OF c] l by simp
qed

end
