(* ===== verification/RelocApply.thy ===== *)
theory RelocApply
  imports LoaderTypes Reloc Thumb
begin

text \<open>
  The import-relocation appliers of crates/loader-core/src (reloc_x86_64.rs,
  reloc_arm.rs, reloc_riscv.rs) and \<open>dispatch_import_reloc\<close> of load.rs. The code
  buffer's address is the argument \<open>base\<close>; addresses are u64, and the wrapping i64
  arithmetic of the source is the same arithmetic on u64, read signed where the
  source does; the plain subtraction of 4 in the Thumb branches wraps the same way, as in
  a build without overflow checks.
\<close>

section \<open>x86-64\<close>

definition in_site :: "bytes \<Rightarrow> nat \<Rightarrow> nat \<Rightarrow> bool" where
  "in_site buf off n = (off + n \<le> length buf)"

text \<open>A checked write: the caller tests the range, so the write cannot fail.\<close>

definition patch :: "bytes \<Rightarrow> nat \<Rightarrow> bytes \<Rightarrow> lfail + bytes" where
  "patch buf off bs = (case write_at off bs buf of None \<Rightarrow> Inl LPanic | Some b \<Rightarrow> Inr b)"

definition apply_x86 :: "u64 \<Rightarrow> bytes \<Rightarrow> nat \<Rightarrow> u8 \<Rightarrow> u64 \<Rightarrow> i64 \<Rightarrow> lfail + bytes" where
  "apply_x86 base buf off rk sym_addr addend =
    (if rk = reloc_kind_u8 X86_64_64 then
       (if \<not> in_site buf off 8 then lerr RelocUnsupported
        else patch buf off (to_le (sym_addr + word_of_int addend :: u64)))
     else if rk = reloc_kind_u8 X86_64_PC32 \<or> rk = reloc_kind_u8 X86_64_PLT32 then
       (if \<not> in_site buf off 4 then lerr RelocUnsupported
        else (let p = base + word_of_nat off; val = sym_addr + word_of_int addend - p
              in patch buf off (to_le (ucast val :: u32))))
     else lerr RelocUnsupported)"

section \<open>ARM Thumb\<close>

definition branch_offset :: "u64 \<Rightarrow> u64 \<Rightarrow> i64 \<Rightarrow> u64 \<Rightarrow> i64" where
  "branch_offset site_addr sym_addr addend bias =
     sint ((sym_addr AND NOT 1) + word_of_int addend - site_addr - bias)"

definition patch_thumb_bl :: "bytes \<Rightarrow> nat \<Rightarrow> i64 \<Rightarrow> lfail + bytes" where
  "patch_thumb_bl buf off offset =
    (case encode_bl (slice buf off 4) offset of
       Inl _ \<Rightarrow> lerr RelocUnsupported
     | Inr insn \<Rightarrow> patch buf off insn)"

definition apply_arm :: "u64 \<Rightarrow> bytes \<Rightarrow> nat \<Rightarrow> u8 \<Rightarrow> u64 \<Rightarrow> i64 \<Rightarrow> lfail + bytes" where
  "apply_arm base buf off rk sym_addr addend =
    (let site_addr = base + word_of_nat off in
     if rk = reloc_kind_u8 ArmAbs32 then
       (if \<not> in_site buf off 4 then lerr RelocUnsupported
        else patch buf off (to_le (ucast (sym_addr + word_of_int addend) :: u32)))
     else if rk = reloc_kind_u8 ArmRel32 then
       (if \<not> in_site buf off 4 then lerr RelocUnsupported
        else patch buf off (to_le (ucast (sym_addr + word_of_int addend - site_addr) :: u32)))
     else if rk = reloc_kind_u8 ArmThmCall then
       (if \<not> in_site buf off 4 then lerr RelocUnsupported
        else patch_thumb_bl buf off (branch_offset site_addr sym_addr addend 4))
     else if rk = reloc_kind_u8 ArmThmJump24 then
       (if \<not> in_site buf off 4 then lerr RelocUnsupported
        else patch_thumb_bl buf off (branch_offset site_addr sym_addr addend 4))
     else lerr RelocUnsupported)"

definition thumb_address :: "u64 \<Rightarrow> u64" where "thumb_address addr = addr OR 1"

section \<open>RISC-V\<close>

definition jal_enc :: "u32 \<Rightarrow> u32 \<Rightarrow> u32" where
  "jal_enc u insn =
    (let rd_opcode = insn AND 0xFFF;
         imm20 = drop_bit 20 u AND 1;
         imm10_1 = drop_bit 1 u AND 0x3FF;
         imm11 = drop_bit 11 u AND 1;
         imm19_12 = drop_bit 12 u AND 0xFF
     in push_bit 31 imm20 OR push_bit 21 imm10_1 OR push_bit 20 imm11 OR push_bit 12 imm19_12
        OR rd_opcode)"

definition encode_riscv_jal :: "bytes \<Rightarrow> i64 \<Rightarrow> unit + bytes" where
  "encode_riscv_jal insn offset =
    (if odd offset then Inl ()
     else if \<not> (- 0x100000 \<le> offset \<and> offset \<le> 0xFFFFE) then Inl ()
     else Inr (to_le (jal_enc (word_of_int offset) (u32_at insn 0)) @ drop 4 insn))"

definition jal_off :: "u32 \<Rightarrow> u32" where
  "jal_off u =
    (let imm20 = drop_bit 31 u AND 1;
         imm10_1 = drop_bit 21 u AND 0x3FF;
         imm11 = drop_bit 20 u AND 1;
         imm19_12 = drop_bit 12 u AND 0xFF;
         off = push_bit 20 imm20 OR push_bit 12 imm19_12 OR push_bit 11 imm11 OR push_bit 1 imm10_1
     in if off AND 0x100000 \<noteq> 0 then off OR 0xFFE00000 else off)"

definition decode_riscv_jal :: "bytes \<Rightarrow> unit + i64" where
  "decode_riscv_jal insn =
    (if length insn < 4 then Inl ()
     else (let u = u32_at insn 0 in
       if u AND 0x7F \<noteq> 0x6F then Inl () else Inr (sint (jal_off u))))"

definition apply_riscv :: "u64 \<Rightarrow> bytes \<Rightarrow> nat \<Rightarrow> u8 \<Rightarrow> u64 \<Rightarrow> i64 \<Rightarrow> lfail + bytes" where
  "apply_riscv base buf off rk sym_addr addend =
    (let site_addr = base + word_of_nat off in
     if rk = reloc_kind_u8 RiscV32 then
       (if \<not> in_site buf off 4 then lerr RelocUnsupported
        else patch buf off (to_le (ucast (sym_addr + word_of_int addend) :: u32)))
     else if rk = reloc_kind_u8 RiscVCall then
       (if \<not> in_site buf off 4 then lerr RelocUnsupported
        else (case encode_riscv_jal (slice buf off 4)
                     (sint (sym_addr + word_of_int addend - site_addr)) of
                Inl _ \<Rightarrow> lerr RelocUnsupported
              | Inr insn \<Rightarrow> patch buf off insn))
     else lerr RelocUnsupported)"

section \<open>Dispatch\<close>

definition dispatch_import_reloc :: "u64 \<Rightarrow> bytes \<Rightarrow> nat \<Rightarrow> u8 \<Rightarrow> u64 \<Rightarrow> lfail + bytes" where
  "dispatch_import_reloc base code off rk sym_addr =
    (let addend = (if rk = 2 \<or> rk = 3 then - 4 else 0) in
     if 1 \<le> rk \<and> rk \<le> 3 then apply_x86 base code off rk sym_addr addend
     else if 4 \<le> rk \<and> rk \<le> 7 then apply_arm base code off rk sym_addr addend
     else if rk = 8 \<or> rk = 9 then apply_riscv base code off rk sym_addr addend
     else lerr RelocUnsupported)"

section \<open>Lemmas\<close>

text \<open>A successful patch rewrites its site and nothing else.\<close>

lemma patch_Inr:
  assumes "patch buf off bs = Inr buf'"
  shows "length buf' = length buf" "slice buf' off (length bs) = bs"
    "\<And>i. i < length buf \<Longrightarrow> i < off \<or> off + length bs \<le> i \<Longrightarrow> buf' ! i = buf ! i"
proof -
  have w: "write_at off bs buf = Some buf'" using assms by (auto simp: patch_def split: option.splits)
  show "length buf' = length buf" "slice buf' off (length bs) = bs"
    using write_at_length [OF w] write_at_slice [OF w] by simp_all
  show "\<And>i. i < length buf \<Longrightarrow> i < off \<or> off + length bs \<le> i \<Longrightarrow> buf' ! i = buf ! i"
    using write_at_nth [OF w] by auto
qed

lemma encode_bl_length: "encode_bl insn offset = Inr insn' \<Longrightarrow> length insn = 4 \<Longrightarrow> length insn' = 4"
  by (auto simp: encode_bl_def elim!: encode_branch_Inr)

lemma encode_jal_length:
  "encode_riscv_jal insn offset = Inr insn' \<Longrightarrow> length insn = 4 \<Longrightarrow> length insn' = 4"
  by (auto simp: encode_riscv_jal_def split: if_splits)

text \<open>The bytes a relocation of kind \<open>k\<close> may touch.\<close>

definition site_width :: "u8 \<Rightarrow> nat" where "site_width rk = (if rk = 1 then 8 else 4)"

lemma patch_frame:
  assumes "patch buf off bs = Inr buf'" "length bs \<le> n"
  shows "length buf' = length buf \<and>
    (\<forall>i < length buf. i < off \<or> off + n \<le> i \<longrightarrow> buf' ! i = buf ! i)"
  using patch_Inr [OF assms(1)] assms(2) by auto

text \<open>\<open>buf'\<close> is \<open>buf\<close> with at most \<open>n\<close> bytes patched at \<open>off\<close>.\<close>

definition patched :: "nat \<Rightarrow> bytes \<Rightarrow> nat \<Rightarrow> bytes \<Rightarrow> bool" where
  "patched n buf off buf' \<longleftrightarrow> length buf' = length buf \<and>
    (\<forall>i < length buf. i < off \<or> off + n \<le> i \<longrightarrow> buf' ! i = buf ! i)"

lemma patchedI: "patch buf off bs = Inr buf' \<Longrightarrow> length bs \<le> n \<Longrightarrow> patched n buf off buf'"
  unfolding patched_def by (rule patch_frame)

lemma slice_length: "off + n \<le> length buf \<Longrightarrow> length (slice buf off n) = n"
  by (simp add: slice_def)

lemma apply_arm_frame:
  assumes "apply_arm base buf off rk sa addend = Inr buf'"
  shows "off + 4 \<le> length buf \<and> patched 4 buf off buf'"
proof -
  have in4: "off + 4 \<le> length buf"
    using assms by (auto simp: apply_arm_def Let_def in_site_def split: if_splits)
  have "patched 4 buf off buf'"
    using assms encode_bl_length [OF _ slice_length [OF in4]]
    by (auto simp: apply_arm_def Let_def patch_thumb_bl_def split: if_splits sum.splits
        elim!: patchedI)
  with in4 show ?thesis by blast
qed

lemma apply_riscv_frame:
  assumes "apply_riscv base buf off rk sa addend = Inr buf'"
  shows "off + 4 \<le> length buf \<and> patched 4 buf off buf'"
proof -
  have in4: "off + 4 \<le> length buf"
    using assms by (auto simp: apply_riscv_def Let_def in_site_def split: if_splits)
  have "patched 4 buf off buf'"
    using assms encode_jal_length [OF _ slice_length [OF in4]]
    by (auto simp: apply_riscv_def Let_def split: if_splits sum.splits elim!: patchedI)
  with in4 show ?thesis by blast
qed

lemma apply_x86_frame:
  assumes "apply_x86 base buf off rk sa addend = Inr buf'"
  shows "off + site_width rk \<le> length buf \<and> patched (site_width rk) buf off buf'"
proof -
  have in4: "off + site_width rk \<le> length buf"
    using assms by (auto simp: apply_x86_def Let_def in_site_def site_width_def split: if_splits)
  have "patched (site_width rk) buf off buf'"
    using assms by (auto simp: apply_x86_def Let_def site_width_def split: if_splits elim!: patchedI)
  with in4 show ?thesis by blast
qed

lemma dispatch_frame:
  assumes "dispatch_import_reloc base buf off rk sa = Inr buf'"
  shows "off + site_width rk \<le> length buf \<and> patched (site_width rk) buf off buf'"
proof -
  have k: "\<not> (4 :: u8) \<le> 1" by (simp add: word_le_nat_alt)
  show ?thesis
    using assms apply_x86_frame [of base buf off rk] apply_arm_frame [of base buf off rk]
      apply_riscv_frame [of base buf off rk] k
    by (auto simp: dispatch_import_reloc_def Let_def site_width_def split: if_splits)
qed

section \<open>Branch targets\<close>

lemma scast_ucast_32:
  "scast (ucast (d :: u64) :: u32) = d \<longleftrightarrow> - (2 ^ 31) \<le> sint d \<and> sint d < 2 ^ 31"
proof -
  have u: "sint (ucast d :: u32) = signed_take_bit 31 (uint d)"
    by (rule trans [OF signed_ucast_eq]) simp
  have s: "sint d = signed_take_bit 63 (uint d)" by (simp add: sint_uint)
  have us: "sint (ucast d :: u32) = signed_take_bit 31 (sint d)"
    unfolding u s signed_take_bit_signed_take_bit by simp
  have "sint (scast (ucast d :: u32) :: u64) = signed_take_bit 63 (signed_take_bit 31 (sint d))"
    by (rule trans [OF signed_scast_eq]) (simp add: us)
  also have "\<dots> = signed_take_bit 31 (sint d)"
    unfolding signed_take_bit_signed_take_bit by simp
  finally have "scast (ucast d :: u32) = d \<longleftrightarrow> signed_take_bit 31 (sint d) = sint d"
    by (metis signed_word_eqI)
  then show ?thesis by (simp add: signed_take_bit_int_eq_self_iff)
qed

lemma u32_at_slice: "slice buf off 4 = to_le w \<Longrightarrow> u32_at buf off = w"
  by (simp add: u32_at_def le32.dec_enc)

lemma and_bit_20: "(x :: u32) AND 0x100000 = (if bit x 20 then 0x100000 else 0)"
proof (rule bit_word_eqI)
  fix n assume "n < LENGTH(32)"
  then have "n < 32" by simp
  then have n: "n \<in> {0,1,2,3,4,5,6,7,8,9,10,11,12,13,14,15,16,17,18,19,20,21,22,23,24,25,26,27,28,29,30,31}"
    by (rule nat_less_cases)
  show "bit (x AND 0x100000) n = bit (if bit x 20 then 0x100000 else 0 :: u32) n"
    using n by (elim insertE) (auto simp: bit_simps)
qed

definition jal_raw :: "u32 \<Rightarrow> u32" where
  "jal_raw j = push_bit 20 (drop_bit 31 j AND 1) OR push_bit 12 (drop_bit 12 j AND 0xFF)
      OR push_bit 11 (drop_bit 20 j AND 1) OR push_bit 1 (drop_bit 21 j AND 0x3FF)"

lemma bit_jal_enc:
  assumes "n < 32"
  shows "bit (jal_enc u insn) n \<longleftrightarrow> (if n = 31 then bit u 20 else if 21 \<le> n then bit u (n - 20)
    else if n = 20 then bit u 11 else if 12 \<le> n then bit u n else bit insn n)"
  using nat_less_cases [OF assms]
  by (elim insertE) (auto simp: jal_enc_def Let_def bit_simps, simp_all add: eval_nat_numeral)

lemma bit_jal_raw:
  assumes "n < 32"
  shows "bit (jal_raw j) n \<longleftrightarrow> (if n = 20 then bit j 31 else if 20 < n then False
    else if 12 \<le> n then bit j n else if n = 11 then bit j 20 else if n = 0 then False
    else bit j (n + 20))"
  using nat_less_cases [OF assms]
  by (elim insertE)
    (auto simp: jal_raw_def bit_or_iff bit_and_iff bit_push_bit_iff bit_drop_bit_eq bit_simps
      simp del: push_bit_Suc push_bit_numeral push_bit_of_Suc_0)

lemma jal_off_raw:
  "jal_off j = (if bit j 31 then jal_raw j OR 0xFFE00000 else jal_raw j)"
proof -
  have "jal_off j = (if jal_raw j AND 0x100000 \<noteq> 0 then jal_raw j OR 0xFFE00000 else jal_raw j)"
    by (simp only: jal_off_def jal_raw_def Let_def)
  then show ?thesis by (simp add: and_bit_20 bit_jal_raw)
qed

lemma jal_round:
  "jal_off (jal_enc u insn) = (if bit u 20 then (u AND 0x1FFFFE) OR 0xFFE00000 else u AND 0x1FFFFE)"
proof (rule bit_word_eqI)
  fix n assume "n < LENGTH(32)"
  then have n32: "n < 32" by simp
  then have n: "n \<in> {0,1,2,3,4,5,6,7,8,9,10,11,12,13,14,15,16,17,18,19,20,21,22,23,24,25,26,27,28,29,30,31}"
    by (rule nat_less_cases)
  show "bit (jal_off (jal_enc u insn)) n
      = bit (if bit u 20 then (u AND 0x1FFFFE) OR 0xFFE00000 else u AND 0x1FFFFE) n"
    using n by (elim insertE) (auto simp: jal_off_raw bit_jal_raw bit_jal_enc bit_simps)
qed

lemma jal_off_enc:
  assumes "even offset" "- 0x100000 \<le> offset" "offset \<le> 0xFFFFE"
  shows "sint (jal_off (jal_enc (word_of_int offset) insn)) = offset"
proof -
  have s: "signed_take_bit 20 offset = offset" "signed_take_bit 31 offset = offset"
    using assms(2,3) by (simp_all add: signed_take_bit_int_eq_self_iff)
  have hi: "bit offset n = bit offset 20" if "20 \<le> n" for n
    using bit_signed_take_bit_iff [of 20 offset n] that by (simp add: s(1) min_def possible_bit_def split: if_splits)
  have b0: "\<not> bit offset 0" using assms(1) by (simp add: bit_0)
  have "jal_off (jal_enc (word_of_int offset) insn) = word_of_int offset"
  proof (rule bit_word_eqI)
    fix n assume "n < LENGTH(32)"
    then have n32: "n < 32" by simp
    show "bit (jal_off (jal_enc (word_of_int offset) insn)) n = bit (word_of_int offset :: u32) n"
      using nat_less_cases [OF n32] hi [of n] b0
      by (elim insertE) (auto simp: jal_off_raw bit_jal_raw bit_jal_enc bit_simps)
  qed
  then show ?thesis using s(2) by (simp add: sint_sbintrunc')
qed

lemma jal_enc_low: "jal_enc u insn AND 0xFFF = insn AND 0xFFF"
proof (rule bit_word_eqI)
  fix n assume "n < LENGTH(32)"
  then have n32: "n < 32" by simp
  show "bit (jal_enc u insn AND 0xFFF) n = bit (insn AND 0xFFF) n"
    using nat_less_cases [OF n32] by (elim insertE) (auto simp: bit_jal_enc bit_simps)
qed

lemma jal_opcode: "(x :: u32) AND 0x7F = (x AND 0xFFF) AND 0x7F"
  by (simp add: and.assoc)

end
