(* ===== verification/RelocProps.thy ===== *)
theory RelocProps
  imports RelocApply
begin

text \<open>
  What a successful import relocation means: it rewrites its site and nothing else,
  and the patched instruction addresses the symbol.
\<close>

section \<open>Reading back the dispatcher\<close>

lemma dispatch_x86:
  "rk = 2 \<or> rk = 3 \<Longrightarrow> dispatch_import_reloc base code off rk sa = apply_x86 base code off rk sa (- 4)"
  by (auto simp: dispatch_import_reloc_def)

lemma dispatch_arm:
  "rk = 5 \<or> rk = 6 \<Longrightarrow> dispatch_import_reloc base code off rk sa = apply_arm base code off rk sa 0"
  by (auto simp: dispatch_import_reloc_def word_le_nat_alt)

lemma dispatch_riscv:
  "dispatch_import_reloc base code off 9 sa = apply_riscv base code off 9 sa 0"
  by (simp add: dispatch_import_reloc_def word_le_nat_alt)

lemma patch_site: "patch buf off bs = Inr buf' \<Longrightarrow> length bs = n \<Longrightarrow> slice buf' off n = bs"
  using patch_Inr(2) by blast

lemma x86_pcrel_site:
  assumes "apply_x86 base code off rk sa addend = Inr code'" "rk = 2 \<or> rk = 3"
  shows "u32_at code' off = ucast (sa + word_of_int addend - (base + word_of_nat off))"
  using assms by (auto simp: apply_x86_def Let_def split: if_splits
    intro!: u32_at_slice dest!: patch_site [where n = 4])

lemma arm_bl_site:
  assumes "apply_arm base code off rk sa 0 = Inr code'" "rk = 5 \<or> rk = 6"
  obtains insn where "encode_bl (slice code off 4)
      (sint ((sa AND NOT 1) - (base + word_of_nat off) - 4)) = Inr insn"
    and "slice code' off 4 = insn"
proof -
  have in4: "off + 4 \<le> length code"
    using assms(1) by (auto simp: apply_arm_def Let_def in_site_def split: if_splits)
  obtain insn where e: "encode_bl (slice code off 4)
      (sint ((sa AND NOT 1) - (base + word_of_nat off) - 4)) = Inr insn"
    and p: "patch code off insn = Inr code'"
    using assms by (auto simp: apply_arm_def Let_def patch_thumb_bl_def branch_offset_def
        split: if_splits sum.splits)
  from encode_bl_length [OF e slice_length [OF in4]] have "slice code' off 4 = insn"
    by (rule patch_site [OF p])
  with e show thesis by (rule that)
qed

lemma riscv_jal_site:
  assumes "apply_riscv base code off 9 sa 0 = Inr code'"
  obtains d where "d = sint (sa - (base + word_of_nat off))"
    "even d" "- 0x100000 \<le> d" "d \<le> 0xFFFFE"
    "slice code' off 4 = to_le (jal_enc (word_of_int d) (u32_at (slice code off 4) 0))"
proof -
  define d where "d = sint (sa - (base + word_of_nat off))"
  have in4: "off + 4 \<le> length code"
    using assms by (auto simp: apply_riscv_def Let_def in_site_def split: if_splits)
  have l4: "length (slice code off 4) = 4" by (rule slice_length [OF in4])
  obtain insn where e: "encode_riscv_jal (slice code off 4) d = Inr insn"
    and p: "patch code off insn = Inr code'"
    using assms by (auto simp: apply_riscv_def Let_def d_def split: if_splits sum.splits)
  have i: "insn = to_le (jal_enc (word_of_int d) (u32_at (slice code off 4) 0))"
    and r: "even d" "- 0x100000 \<le> d" "d \<le> 0xFFFFE"
    using e l4 by (auto simp: encode_riscv_jal_def split: if_splits)
  have "slice code' off 4 = insn" by (rule patch_site [OF p]) (simp add: i)
  with r i show thesis by (intro that [of d]) (simp_all add: d_def)
qed

lemma u32_at_slice0: "u32_at (slice buf off 4) 0 = u32_at buf off"
  by (simp add: u32_at_def slice_def)

section \<open>Properties\<close>

text \<open>A successful import relocation had room for its site, keeps the length of the
  code, and changes no byte outside the site (eight bytes for the absolute 64-bit kind, four
  for every other kind).\<close>

theorem reloc_patch_frame:
  assumes "dispatch_import_reloc base code off rk sa = Inr code'"
  shows "off + site_width rk \<le> length code \<and> length code' = length code
    \<and> (\<forall>i < length code. i < off \<or> off + site_width rk \<le> i \<longrightarrow> code' ! i = code ! i)"
  using dispatch_frame [OF assms] by (simp add: patched_def)

lemma reloc_patch_frame_witness:
  "\<exists>code'. dispatch_import_reloc 0x1000 (replicate 12 7) 4 4 0x2040 = Inr code'
     \<and> length code' = 12 \<and> code' ! 3 = 7 \<and> code' ! 8 = 7"
proof -
  have "\<exists>code'. dispatch_import_reloc 0x1000 (replicate 12 7) 4 4 0x2040 = Inr code'"
    by (simp add: dispatch_import_reloc_def word_le_nat_alt apply_arm_def Let_def in_site_def
        patch_def write_at_def)
  then obtain code' where c: "dispatch_import_reloc 0x1000 (replicate 12 7) 4 4 0x2040 = Inr code'" ..
  then show ?thesis using reloc_patch_frame [OF c]
    by (simp add: site_width_def)
qed

text \<open>A pc-relative x86-64 relocation leaves a displacement that, sign-extended and added
  to the address of the next instruction, is the symbol's address exactly when the distance
  fits in 32 signed bits; at any other distance the relocation still succeeds and the
  call goes elsewhere.\<close>

theorem x86_pcrel_target:
  assumes "dispatch_import_reloc base code off rk sa = Inr code'" "rk = 2 \<or> rk = 3"
  shows "base + word_of_nat off + 4 + scast (u32_at code' off) = sa
    \<longleftrightarrow> - (2 ^ 31) \<le> sint (sa - 4 - (base + word_of_nat off))
      \<and> sint (sa - 4 - (base + word_of_nat off)) < 2 ^ 31"
proof -
  define d where "d = sa - 4 - (base + word_of_nat off)"
  have "u32_at code' off = ucast d"
    using x86_pcrel_site [of base code off rk sa "- 4" code'] assms
    by (simp add: dispatch_x86 d_def)
  moreover have "base + word_of_nat off + 4 + d = sa" by (simp add: d_def)
  then have "base + word_of_nat off + 4 + scast (ucast d :: u32) = sa \<longleftrightarrow> scast (ucast d :: u32) = d"
    by (metis add_left_cancel)
  ultimately show ?thesis using scast_ucast_32 [of d] by (simp add: d_def)
qed

text \<open>A Thumb call relocation whose distance is below 8 MiB leaves a BL to the symbol (with
  the interworking bit cleared), counted from the site plus four.\<close>

theorem thumb_call_target:
  assumes "dispatch_import_reloc base code off 5 sa = Inr code'"
    and "- (2 ^ 23) \<le> sint ((sa AND NOT 1) - (base + word_of_nat off) - 4)"
    and "sint ((sa AND NOT 1) - (base + word_of_nat off) - 4) < 2 ^ 23"
  shows "\<exists>d. decode_branch (slice code' off 4) = Inr (d, True)
    \<and> base + word_of_nat off + 4 + word_of_int d = (sa AND NOT 1)"
proof -
  define w where "w = (sa AND NOT 1) - (base + word_of_nat off) - 4"
  obtain insn where e: "encode_bl (slice code off 4) (sint w) = Inr insn"
    and s: "slice code' off 4 = insn"
    using arm_bl_site [of base code off 5 sa code'] assms(1) unfolding w_def
    by (auto simp: dispatch_arm)
  have ev: "even (sint w)" using e by (auto simp: encode_bl_def encode_branch_def split: if_splits)
  have "decode_branch insn = Inr ((sint w div 2 mod 2 ^ 22 - (if sint w < 0 then 2 ^ 22 else 0)) * 2, True)"
    using decode_encode [OF e [unfolded encode_bl_def]] by simp
  also have "(sint w div 2 mod 2 ^ 22 - (if sint w < 0 then 2 ^ 22 else 0)) * 2 = sint w"
  proof -
    have r: "- 8388608 \<le> sint w" "sint w < 8388608"
      using assms(2,3) unfolding w_def [symmetric] by simp_all
    have b: "- 4194304 \<le> sint w div 2" "sint w div 2 < 4194304" using r by presburger+
    have "sint w div 2 mod 4194304 = (if sint w < 0 then sint w div 2 + 4194304 else sint w div 2)"
      using b mod_pos_pos_trivial [of "sint w div 2" 4194304]
        mod_pos_pos_trivial [of "sint w div 2 + 4194304" 4194304] by auto
    then show ?thesis using ev by (simp split: if_splits)
  qed
  finally have "decode_branch (slice code' off 4) = Inr (sint w, True)" by (simp only: s)
  moreover have "base + word_of_nat off + 4 + word_of_int (sint w) = (sa AND NOT 1)"
    by (simp add: w_def)
  ultimately show ?thesis by blast
qed

text \<open>A relocation of the jump kind (B.W) always leaves a linking branch: whatever the
  instruction at the site was, it decodes as BL afterwards.\<close>

theorem thumb_jump_becomes_call:
  assumes "dispatch_import_reloc base code off 6 sa = Inr code'"
  shows "\<exists>d. decode_branch (slice code' off 4) = Inr (d, True)"
proof -
  obtain insn where e: "encode_bl (slice code off 4)
      (sint ((sa AND NOT 1) - (base + word_of_nat off) - 4)) = Inr insn" and s: "slice code' off 4 = insn"
    using arm_bl_site [of base code off 6 sa code'] assms by (auto simp: dispatch_arm)
  show ?thesis using decode_encode [OF e [unfolded encode_bl_def]] by (auto simp: s)
qed

text \<open>A RISC-V call relocation is accepted only for an even distance within 1 MiB; the
  patched JAL keeps the destination register and opcode bits of the site, and (when the
  site holds a JAL) decodes to exactly the distance from the site to the symbol.\<close>

theorem riscv_call_target:
  assumes "dispatch_import_reloc base code off 9 sa = Inr code'"
    and "u32_at code off AND 0x7F = 0x6F"
  shows "u32_at code' off AND 0xFFF = u32_at code off AND 0xFFF \<and>
    (\<exists>d. decode_riscv_jal (slice code' off 4) = Inr d \<and> even d
      \<and> base + word_of_nat off + word_of_int d = sa)"
proof -
  obtain d where d: "d = sint (sa - (base + word_of_nat off))" "even d" "- 0x100000 \<le> d" "d \<le> 0xFFFFE"
    and s: "slice code' off 4 = to_le (jal_enc (word_of_int d) (u32_at (slice code off 4) 0))"
    using riscv_jal_site [of base code off sa code'] assms(1) by (auto simp: dispatch_riscv)
  define j where "j = jal_enc (word_of_int d) (u32_at code off)"
  have s: "slice code' off 4 = to_le j" using s by (simp add: u32_at_slice0 j_def)
  have u: "u32_at code' off = j" by (rule u32_at_slice [OF s])
  have low: "j AND 0xFFF = u32_at code off AND 0xFFF" by (simp add: j_def jal_enc_low)
  have "j AND 0x7F = 0x6F" using assms(2) low jal_opcode [of j] jal_opcode [of "u32_at code off"] by simp
  then have "decode_riscv_jal (slice code' off 4) = Inr (sint (jal_off j))"
    using u u32_at_slice0 [of code' off] by (simp add: decode_riscv_jal_def Let_def s)
  moreover have "sint (jal_off j) = d" using jal_off_enc [OF d(2-4)] by (simp add: j_def)
  moreover have "base + word_of_nat off + word_of_int d = sa" using d(1) by simp
  ultimately show ?thesis using d(2) low u by auto
qed

section \<open>Witnesses\<close>

lemma dispatch_x86_Inr:
  "off + 4 \<le> length code \<Longrightarrow> \<exists>code'. dispatch_import_reloc base code off 2 sa = Inr code'"
  by (simp add: dispatch_import_reloc_def apply_x86_def in_site_def patch_def write_at_def Let_def)

lemma x86_pcrel_target_witness:
  "\<exists>code'. dispatch_import_reloc 0x1000 (replicate 8 0) 4 2 0x2000 = Inr code'
     \<and> 0x1008 + scast (u32_at code' 4) = (0x2000 :: u64)"
proof -
  obtain code' where c: "dispatch_import_reloc 0x1000 (replicate 8 0) 4 2 0x2000 = Inr code'"
    using dispatch_x86_Inr [of 4 "replicate 8 0"] by auto
  show ?thesis using x86_pcrel_target [OF c] c by simp
qed

lemma thumb_call_target_witness:
  "\<exists>code' d. dispatch_import_reloc 0x1000 (replicate 8 0) 4 5 0x2001 = Inr code'
     \<and> decode_branch (slice code' 4 4) = Inr (d, True) \<and> 0x1008 + word_of_int d = (0x2000 :: u64)"
proof -
  have a: "(0x2001 :: u64) AND NOT 1 = 0x2000" by simp
  have "\<exists>code'. dispatch_import_reloc 0x1000 (replicate 8 0) 4 5 0x2001 = Inr code'"
    by (simp add: dispatch_arm apply_arm_def in_site_def Let_def patch_thumb_bl_def branch_offset_def
        encode_bl_def encode_branch_def patch_def write_at_def slice_def)
  then obtain code' where c: "dispatch_import_reloc 0x1000 (replicate 8 0) 4 5 0x2001 = Inr code'" ..
  show ?thesis using thumb_call_target [OF c] c a by simp
qed

lemma thumb_jump_becomes_call_witness:
  "\<exists>code' d. dispatch_import_reloc 0x1000 (replicate 8 0) 4 6 0x2001 = Inr code'
     \<and> decode_branch (slice code' 4 4) = Inr (d, True)"
proof -
  have "\<exists>code'. dispatch_import_reloc 0x1000 (replicate 8 0) 4 6 0x2001 = Inr code'"
    by (simp add: dispatch_arm apply_arm_def in_site_def Let_def patch_thumb_bl_def branch_offset_def
        encode_bl_def encode_branch_def patch_def write_at_def slice_def)
  then obtain code' where c: "dispatch_import_reloc 0x1000 (replicate 8 0) 4 6 0x2001 = Inr code'" ..
  show ?thesis using thumb_jump_becomes_call [OF c] c by blast
qed

lemma riscv_call_target_witness:
  "\<exists>code' d. dispatch_import_reloc 0x1000 [0x6F, 0, 0, 0] 0 9 0x1200 = Inr code'
     \<and> decode_riscv_jal (slice code' 0 4) = Inr d \<and> 0x1000 + word_of_int d = (0x1200 :: u64)"
proof -
  have "\<exists>code'. dispatch_import_reloc 0x1000 [0x6F, 0, 0, 0] 0 9 0x1200 = Inr code'"
    by (simp add: dispatch_riscv apply_riscv_def in_site_def Let_def encode_riscv_jal_def patch_def
        write_at_def slice_def)
  then obtain code' where c: "dispatch_import_reloc 0x1000 [0x6F, 0, 0, 0] 0 9 0x1200 = Inr code'" ..
  have "u32_at [0x6F, 0, 0, 0] 0 AND 0x7F = 0x6F"
    by (simp add: u32_at_def slice_def)
  from riscv_call_target [OF c this] c show ?thesis by auto
qed

end
