(* ===== verification/Rederive.thy ===== *)
theory Rederive
  imports LoaderTypes
begin

text \<open>
  The data-stack re-derivation of crates/loader-core/src/rederive.rs: architecture
  detection and the three scanners over code bytes. Offsets are i64 in the source and
  integers here; a code section is too short for them to wrap.
\<close>

definition TOP_SENTINEL :: u32 where "TOP_SENTINEL = 0xFFFFFFFF"

datatype arch = X86_64 | ArmThumb | RiscV

definition u16_pair :: "bytes \<Rightarrow> nat \<Rightarrow> u16" where
  "u16_pair code i = of_le [code ! i, code ! (i + 1)]"

definition quad_word :: "u8 \<Rightarrow> u8 \<Rightarrow> u8 \<Rightarrow> u8 \<Rightarrow> u32" where
  "quad_word b0 b1 b2 b3 = of_le [b0, b1, b2, b3]"

definition u32_quad :: "bytes \<Rightarrow> nat \<Rightarrow> u32" where
  "u32_quad code i = quad_word (code ! i) (code ! (i + 1)) (code ! (i + 2)) (code ! (i + 3))"

section \<open>Instruction patterns\<close>

text \<open>The 16-bit pattern taken for \<open>ADDS/SUBS r4, r4, #N\<close>.\<close>

definition thumb_match :: "u16 \<Rightarrow> bool" where
  "thumb_match w \<longleftrightarrow> drop_bit 11 w = 3 \<and> w AND 7 = drop_bit 4 w AND 7 \<and> w AND 7 = 4"

definition rv_match :: "u32 \<Rightarrow> bool" where
  "rv_match insn \<longleftrightarrow> insn AND 0x7f = 0x13 \<and> drop_bit 12 insn AND 7 = 0
     \<and> drop_bit 7 insn AND 0x1f = 18 \<and> drop_bit 15 insn AND 0x1f = 18"

definition detect_from_code :: "bytes \<Rightarrow> arch" where
  "detect_from_code code =
    (if 2 \<le> length code \<and> list_ex (\<lambda>i. thumb_match (u16_pair code i)) [0..<length code - 1]
       then ArmThumb
     else if 4 \<le> length code \<and> list_ex (\<lambda>i. rv_match (u32_quad code i)) [0..<length code - 3]
       then RiscV
     else X86_64)"

section \<open>Scanners\<close>

definition update_peak :: "u32 \<Rightarrow> int \<Rightarrow> u32 \<Rightarrow> u32" where
  "update_peak peak off slot_bytes =
    (if 0 < off \<and> 0 < slot_bytes then
       (let depth = word_of_int (off div uint slot_bytes) in if peak < depth then depth else peak)
     else peak)"

definition r15_opcodes :: "u8 list" where
  "r15_opcodes = [0x01, 0x03, 0x29, 0x89, 0x8B, 0x85, 0x09, 0x21, 0x31, 0x39]"

definition clamp0 :: "int \<Rightarrow> int" where "clamp0 off = (if off < 0 then 0 else off)"

function x86_loop :: "bytes \<Rightarrow> u32 \<Rightarrow> nat \<Rightarrow> int \<Rightarrow> u32 \<Rightarrow> u32" where
  "x86_loop code slot_bytes i off peak =
    (if i < length code then
       (let b = code ! i; n = length code in
        if b = 0xEB \<and> i + 2 \<le> n \<and> sint (code ! (i + 1)) < 0 then TOP_SENTINEL
        else if 0x70 \<le> b \<and> b \<le> 0x7F \<and> i + 2 \<le> n \<and> sint (code ! (i + 1)) < 0 then TOP_SENTINEL
        else if i + 3 < n \<and> b = 0x49 \<and> code ! (i + 1) = 0x83 \<and> code ! (i + 2) = 0xc7 then
          (let off = off + sint (code ! (i + 3)) in
           x86_loop code slot_bytes (i + 4) off (update_peak peak off slot_bytes))
        else if i + 3 < n \<and> b = 0x49 \<and> code ! (i + 1) = 0x83 \<and> code ! (i + 2) = 0xef then
          x86_loop code slot_bytes (i + 4) (clamp0 (off - sint (code ! (i + 3)))) peak
        else if i + 6 < n \<and> b = 0x49 \<and> code ! (i + 1) = 0x81 \<and> code ! (i + 2) = 0xc7 then TOP_SENTINEL
        else if b AND 0xEF = 0x49 \<and> i + 2 < n \<and> code ! (i + 2) AND 7 = 7
               \<and> code ! (i + 1) \<in> set r15_opcodes then TOP_SENTINEL
        else x86_loop code slot_bytes (i + 1) off peak)
     else peak)"
  by pat_completeness auto
termination by (relation "measure (\<lambda>(code, _, i, _, _). length code - i)") auto

declare x86_loop.simps [simp del]

definition rederive_x86_64 :: "bytes \<Rightarrow> u32 \<Rightarrow> u32" where
  "rederive_x86_64 code slot_bytes = x86_loop code slot_bytes 0 0 0"

function thumb_loop :: "bytes \<Rightarrow> u32 \<Rightarrow> nat \<Rightarrow> int \<Rightarrow> u32 \<Rightarrow> u32" where
  "thumb_loop code slot_bytes i off peak =
    (if i + 1 < length code then
       (let w = u16_pair code i in
        if thumb_match w then
          (let imm3 = uint (drop_bit 7 w AND 7) in
           if drop_bit 10 w AND 1 = 0 then
             thumb_loop code slot_bytes (i + 2) (off + imm3) (update_peak peak (off + imm3) slot_bytes)
           else thumb_loop code slot_bytes (i + 2) (clamp0 (off - imm3)) peak)
        else thumb_loop code slot_bytes (i + 1) off peak)
     else peak)"
  by pat_completeness auto
termination by (relation "measure (\<lambda>(code, _, i, _, _). length code - i)") auto

declare thumb_loop.simps [simp del]

definition rederive_arm_thumb :: "bytes \<Rightarrow> u32 \<Rightarrow> u32" where
  "rederive_arm_thumb code slot_bytes = thumb_loop code slot_bytes 0 0 0"

text \<open>The sign extension of the 12-bit immediate.\<close>

definition rv_imm :: "u32 \<Rightarrow> int" where
  "rv_imm insn = sint (signed_drop_bit 20 (push_bit 20 (drop_bit 20 insn AND 0xfff)))"

fun riscv_loop :: "bytes \<Rightarrow> u32 \<Rightarrow> int \<Rightarrow> u32 \<Rightarrow> u32" where
  "riscv_loop (b0 # b1 # b2 # b3 # rest) slot_bytes off peak =
    (let insn = quad_word b0 b1 b2 b3 in
     if rv_match insn then
       (if 0 < rv_imm insn then
          riscv_loop rest slot_bytes (off + rv_imm insn) (update_peak peak (off + rv_imm insn) slot_bytes)
        else if rv_imm insn < 0 then riscv_loop rest slot_bytes (clamp0 (off + rv_imm insn)) peak
        else riscv_loop rest slot_bytes off peak)
     else riscv_loop rest slot_bytes off peak)"
| "riscv_loop code slot_bytes off peak = peak"

definition rederive_riscv :: "bytes \<Rightarrow> u32 \<Rightarrow> u32" where
  "rederive_riscv code slot_bytes = riscv_loop code slot_bytes 0 0"

fun rederive_stack_high :: "bytes \<Rightarrow> arch \<Rightarrow> u32 \<Rightarrow> u32" where
  "rederive_stack_high code X86_64 slot_bytes = rederive_x86_64 code slot_bytes"
| "rederive_stack_high code ArmThumb slot_bytes = rederive_arm_thumb code slot_bytes"
| "rederive_stack_high code RiscV slot_bytes = rederive_riscv code slot_bytes"

section \<open>Straight-line RISC-V code\<close>

text \<open>The change of \<open>s2\<close> by one instruction, and its value along a straight-line run.\<close>

fun rv_insns :: "bytes \<Rightarrow> u32 list" where
  "rv_insns (b0 # b1 # b2 # b3 # rest) = quad_word b0 b1 b2 b3 # rv_insns rest"
| "rv_insns _ = []"

definition rv_delta :: "u32 \<Rightarrow> int" where
  "rv_delta insn = (if rv_match insn then rv_imm insn else 0)"

lemma rv_imm_bounds: "- 2048 \<le> rv_imm insn \<and> rv_imm insn < 2048"
proof -
  have "sint (signed_drop_bit 20 (x :: u32)) = drop_bit 20 (sint x)" for x :: u32
    by (simp add: sint_signed_drop_bit_eq)
  then have e: "rv_imm insn = drop_bit 20 (sint (push_bit 20 (drop_bit 20 insn AND 0xfff) :: u32))"
    by (simp add: rv_imm_def)
  define y where "y = sint (push_bit 20 (drop_bit 20 insn AND 0xfff) :: u32)"
  have "- 2147483648 \<le> y" "y < 2147483648"
    using sint_ge [of "push_bit 20 (drop_bit 20 insn AND 0xfff) :: u32"]
      sint_lt [of "push_bit 20 (drop_bit 20 insn AND 0xfff) :: u32"] unfolding y_def by simp_all
  then have "- 2048 \<le> y div 1048576 \<and> y div 1048576 < 2048" by linarith
  then show ?thesis unfolding e y_def [symmetric] by (simp add: drop_bit_eq_div)
qed

lemma update_peak_ge: "peak \<le> update_peak peak off sb"
  unfolding update_peak_def Let_def by (auto intro: order.strict_implies_order)

lemma update_peak_covers:
  assumes "0 < sb" "off div uint sb < 2 ^ 32"
  shows "off div uint sb \<le> uint (update_peak peak off sb)"
proof -
  have sb: "0 < uint sb" using assms(1) by (simp add: word_less_def)
  consider "off \<le> 0" | "0 < off" "peak < word_of_int (off div uint sb)"
    | "0 < off" "\<not> peak < word_of_int (off div uint sb)" by force
  then show ?thesis
  proof cases
    case 1
    then have "off div uint sb \<le> 0" using sb by (simp add: div_nonpos_pos_le0)
    also have "0 \<le> uint (update_peak peak off sb)" by simp
    finally show ?thesis .
  next
    case 2
    then have "0 \<le> off div uint sb" using sb by (simp add: pos_imp_zdiv_nonneg_iff)
    then show ?thesis using 2 assms by (simp add: update_peak_def Let_def uint_word_of_int)
  next
    case 3
    then have "0 \<le> off div uint sb" using sb by (simp add: pos_imp_zdiv_nonneg_iff)
    then have "uint (word_of_int (off div uint sb) :: u32) = off div uint sb"
      using assms(2) by (simp add: uint_word_of_int)
    then have "off div uint sb \<le> uint peak" using 3(2) by (simp add: word_less_def)
    then show ?thesis using 3 assms(1) by (simp add: update_peak_def Let_def)
  qed
qed

lemma riscv_loop_ge: "peak \<le> riscv_loop code sb off peak"
  by (induction code sb off peak rule: riscv_loop.induct)
    (auto simp: Let_def intro: order_trans [OF update_peak_ge])

lemma clamp0_ge: "off \<le> clamp0 off" "0 \<le> clamp0 off" by (simp_all add: clamp0_def)

lemma uint_mono: "(a :: u32) \<le> b \<Longrightarrow> uint a \<le> uint b" by (simp add: word_le_def)

lemma div_le_self: "0 \<le> off \<Longrightarrow> 0 < sb \<Longrightarrow> off div uint (sb :: u32) \<le> off"
  using zdiv_mono2 [of off 1 "uint sb"] by (simp add: word_less_def)

lemma riscv_loop_covers:
  assumes "0 < sb" "0 \<le> off" "d \<le> off" "d div uint sb \<le> uint peak"
    "off + 2048 * int (length code) < 2 ^ 32"
  shows "(d + sum_list (map rv_delta (take k (rv_insns code)))) div uint sb
    \<le> uint (riscv_loop code sb off peak)"
  using assms
proof (induction code sb off peak arbitrary: d k rule: riscv_loop.induct)
  case (1 b0 b1 b2 b3 rest sb off peak)
  define insn :: u32 where "insn = quad_word b0 b1 b2 b3"
  have sb: "0 < uint sb" using "1.prems"(1) by (simp add: word_less_def)
  have rest: "riscv_loop (b0 # b1 # b2 # b3 # rest) sb off peak =
    (if rv_match insn then
       (if 0 < rv_imm insn then
          riscv_loop rest sb (off + rv_imm insn) (update_peak peak (off + rv_imm insn) sb)
        else if rv_imm insn < 0 then riscv_loop rest sb (clamp0 (off + rv_imm insn)) peak
        else riscv_loop rest sb off peak)
     else riscv_loop rest sb off peak)"
    by (simp add: insn_def Let_def)
  show ?case
  proof (cases k)
    case 0
    have "uint peak \<le> uint (riscv_loop (b0 # b1 # b2 # b3 # rest) sb off peak)"
      by (rule uint_mono [OF riscv_loop_ge])
    then show ?thesis using 0 "1.prems"(4) by simp
  next
    case (Suc j)
    note b = rv_imm_bounds [of insn]
    have len: "off + 2048 + 2048 * int (length rest) < 2 ^ 32" using "1.prems"(5) by simp
    consider "rv_match insn" "0 < rv_imm insn" | "rv_match insn" "rv_imm insn < 0"
      | "rv_delta insn = 0" "riscv_loop (b0 # b1 # b2 # b3 # rest) sb off peak = riscv_loop rest sb off peak"
      unfolding rest
      by (cases "rv_match insn"; cases "0 < rv_imm insn"; cases "rv_imm insn < 0"; simp add: rv_delta_def)
    then show ?thesis
    proof cases
      case c: 1
      let ?off = "off + rv_imm insn" and ?d = "d + rv_imm insn"
      have o: "0 \<le> ?off" "?off < 2 ^ 32" using c b len "1.prems"(2) by auto
      then have "?off div uint sb < 2 ^ 32" using div_le_self [OF o(1) "1.prems"(1)] by linarith
      from update_peak_covers [OF "1.prems"(1) this, of peak]
      have "?d div uint sb \<le> uint (update_peak peak ?off sb)"
        using zdiv_mono1 [OF _ sb, of ?d ?off] "1.prems"(3) by simp
      from "1.IH"(1) [OF insn_def c "1.prems"(1) o(1) _ this, of j] show ?thesis
        using "1.prems"(3) c b len by (simp add: rest Suc insn_def [symmetric] rv_delta_def add.assoc del: riscv_loop.simps)
    next
      case c: 2
      let ?off = "off + rv_imm insn" and ?d = "d + rv_imm insn"
      have "?d div uint sb \<le> d div uint sb" using c by (intro zdiv_mono1 [OF _ sb]) simp
      then have dp: "?d div uint sb \<le> uint peak" using "1.prems"(4) by simp
      have "\<not> 0 < rv_imm insn" using c(2) by simp
      from "1.IH"(2) [OF insn_def c(1) this c(2) "1.prems"(1) clamp0_ge(2) _ dp, of j] show ?thesis
        using "1.prems"(2,3) c b len
        by (simp add: rest Suc insn_def [symmetric] rv_delta_def add.assoc clamp0_def del: riscv_loop.simps)
    next
      case c: 3
      have "(d + sum_list (map rv_delta (take j (rv_insns rest)))) div uint sb \<le> uint (riscv_loop rest sb off peak)"
      proof (cases "rv_match insn")
        case True
        then have z: "\<not> 0 < rv_imm insn" "\<not> rv_imm insn < 0" using c(1) by (auto simp: rv_delta_def)
        show ?thesis using "1.IH"(3) [OF insn_def True z "1.prems"(1-4), of j] len by simp
      next
        case False
        show ?thesis using "1.IH"(4) [OF insn_def False "1.prems"(1-4), of j] len by simp
      qed
      then show ?thesis using c by (simp add: Suc insn_def [symmetric] del: riscv_loop.simps)
    qed
  qed
qed simp_all

end
