(* ===== verification/RederiveProps.thy ===== *)
theory RederiveProps
  imports Rederive
begin

text \<open>
  Where the re-derived bound covers the real data-stack depth of straight-line code, and
  where it does not.
\<close>

section \<open>RISC-V\<close>

text \<open>On straight-line RISC-V code the scanner never under-estimates: after every prefix of the
  instructions, the change of the data-stack pointer is within the reported slots.\<close>

theorem riscv_scan_sound:
  assumes "0 < slot_bytes" "length code < 2 ^ 20"
  shows "sum_list (map rv_delta (take k (rv_insns code))) div uint slot_bytes
    \<le> uint (rederive_riscv code slot_bytes)"
  using riscv_loop_covers [OF assms(1), of 0 0 0 code k] assms(2) by (simp add: rederive_riscv_def)

lemma riscv_scan_sound_witness:
  "sum_list (map rv_delta (take 1 (rv_insns [0x13, 0x09, 0x89, 0x00]))) div 4
     \<le> uint (rederive_riscv [0x13, 0x09, 0x89, 0x00] 4)"
  using riscv_scan_sound [of 4 "[0x13, 0x09, 0x89, 0x00]" 1] by simp

section \<open>x86-64\<close>

text \<open>Pushes \<open>add r15, imm8\<close> and pops \<open>sub r15, imm8\<close>.\<close>

datatype r15_op = R15_add u8 | R15_sub u8

fun r15_bytes :: "r15_op \<Rightarrow> bytes" where
  "r15_bytes (R15_add imm) = [0x49, 0x83, 0xc7, imm]"
| "r15_bytes (R15_sub imm) = [0x49, 0x83, 0xef, imm]"

fun r15_delta :: "r15_op \<Rightarrow> int" where
  "r15_delta (R15_add imm) = sint imm"
| "r15_delta (R15_sub imm) = - sint imm"

fun pop_positive :: "r15_op \<Rightarrow> bool" where
  "pop_positive (R15_add imm) = True"
| "pop_positive (R15_sub imm) = (0 \<le> sint imm)"

fun r15_scan :: "u32 \<Rightarrow> r15_op list \<Rightarrow> int \<Rightarrow> u32 \<Rightarrow> u32" where
  "r15_scan sb [] off peak = peak"
| "r15_scan sb (R15_add imm # ops) off peak
    = r15_scan sb ops (off + sint imm) (update_peak peak (off + sint imm) sb)"
| "r15_scan sb (R15_sub imm # ops) off peak = r15_scan sb ops (clamp0 (off - sint imm)) peak"

abbreviation r15_code :: "r15_op list \<Rightarrow> bytes" where "r15_code ops \<equiv> concat (map r15_bytes ops)"

lemma x86_add_step:
  assumes "i + 4 \<le> length code" "code ! i = 0x49" "code ! (i + 1) = 0x83" "code ! (i + 2) = 0xc7"
  shows "x86_loop code sb i off peak
    = x86_loop code sb (i + 4) (off + sint (code ! (i + 3))) (update_peak peak (off + sint (code ! (i + 3))) sb)"
  using assms by (subst x86_loop.simps) (simp add: Let_def)

lemma x86_sub_step:
  assumes "i + 4 \<le> length code" "code ! i = 0x49" "code ! (i + 1) = 0x83" "code ! (i + 2) = 0xef"
  shows "x86_loop code sb i off peak = x86_loop code sb (i + 4) (clamp0 (off - sint (code ! (i + 3)))) peak"
  using assms by (subst x86_loop.simps) (simp add: Let_def)

lemma x86_loop_r15:
  "x86_loop (pre @ r15_code ops) sb (length pre) off peak = r15_scan sb ops off peak"
proof (induction ops arbitrary: pre off peak)
  case Nil
  then show ?case by (subst x86_loop.simps) simp
next
  case (Cons x ops)
  have l: "length (r15_bytes x) = 4" by (cases x) simp_all
  have IH: "x86_loop (pre @ r15_code (x # ops)) sb (length pre + 4) off' peak' = r15_scan sb ops off' peak'"
    for off' peak' using Cons.IH [of "pre @ r15_bytes x"] l by simp
  have nth: "(pre @ r15_code (x # ops)) ! (length pre + k) = r15_bytes x ! k" if "k < 4" for k
    using that l by (simp add: nth_append)
  have len: "length pre + 4 \<le> length (pre @ r15_code (x # ops))" using l by simp
  note n = nth [of 0, simplified] nth [of 1] nth [of 2] nth [of 3]
  show ?case
  proof (cases x)
    case (R15_add imm)
    have "(pre @ r15_code (x # ops)) ! length pre = 0x49" "(pre @ r15_code (x # ops)) ! (length pre + 1) = 0x83"
      "(pre @ r15_code (x # ops)) ! (length pre + 2) = 0xc7" "(pre @ r15_code (x # ops)) ! (length pre + 3) = imm"
      using nth [of 0] nth [of 1] nth [of 2] nth [of 3] by (simp_all only: R15_add) simp_all
    from x86_add_step [OF len this(1-3)] this(4) IH show ?thesis by (simp only: R15_add r15_scan.simps)
  next
    case (R15_sub imm)
    have "(pre @ r15_code (x # ops)) ! length pre = 0x49" "(pre @ r15_code (x # ops)) ! (length pre + 1) = 0x83"
      "(pre @ r15_code (x # ops)) ! (length pre + 2) = 0xef" "(pre @ r15_code (x # ops)) ! (length pre + 3) = imm"
      using nth [of 0] nth [of 1] nth [of 2] nth [of 3] by (simp_all only: R15_sub) simp_all
    from x86_sub_step [OF len this(1-3)] this(4) IH show ?thesis by (simp only: R15_sub r15_scan.simps)
  qed
qed

lemma r15_scan_ge: "peak \<le> r15_scan sb ops off peak"
  by (induction sb ops off peak rule: r15_scan.induct) (auto intro: order_trans [OF update_peak_ge])

lemma sint_u8: "- 128 \<le> sint (x :: u8)" "sint (x :: u8) < 128"
  using sint_ge [of x] sint_lt [of x] by simp_all

lemma r15_scan_covers:
  assumes "0 < sb" "d \<le> off" "d div uint sb \<le> uint peak" "list_all pop_positive ops"
    "off + 128 * int (length ops) < 2 ^ 32" "128 * int (length ops) < 2 ^ 32"
  shows "(d + sum_list (map r15_delta (take k ops))) div uint sb \<le> uint (r15_scan sb ops off peak)"
  using assms
proof (induction sb ops off peak arbitrary: d k rule: r15_scan.induct)
  case (2 sb imm ops off peak)
  have sb: "0 < uint sb" using "2.prems"(1) by (simp add: word_less_def)
  have pk: "uint peak \<le> uint (r15_scan sb (R15_add imm # ops) off peak)"
    by (rule uint_mono [OF r15_scan_ge])
  let ?off = "off + sint imm" and ?d = "d + sint imm"
  show ?case
  proof (cases k)
    case 0
    then show ?thesis using pk "2.prems"(3) by simp
  next
    case (Suc j)
    note b = sint_u8 [of imm]
    have "?off div uint sb < 2 ^ 32"
    proof (cases "0 \<le> ?off")
      case True
      from div_le_self [OF True "2.prems"(1)] show ?thesis using "2.prems"(5) b by simp
    next
      case False
      then have "?off div uint sb \<le> 0" using sb by (simp add: div_nonpos_pos_le0)
      then show ?thesis by simp
    qed
    from update_peak_covers [OF "2.prems"(1) this, of peak]
    have dp: "?d div uint sb \<le> uint (update_peak peak ?off sb)"
      using zdiv_mono1 [OF _ sb, of ?d ?off] "2.prems"(2) by simp
    from "2.IH" [OF "2.prems"(1) _ dp, of j] show ?thesis
      using "2.prems" b by (simp add: Suc add.assoc)
  qed
next
  case (3 sb imm ops off peak)
  have sb: "0 < uint sb" using "3.prems"(1) by (simp add: word_less_def)
  have pk: "uint peak \<le> uint (r15_scan sb (R15_sub imm # ops) off peak)"
    by (rule uint_mono [OF r15_scan_ge])
  have pos: "0 \<le> sint imm" using "3.prems"(4) by simp
  show ?case
  proof (cases k)
    case 0
    then show ?thesis using pk "3.prems"(3) by simp
  next
    case (Suc j)
    have "(d - sint imm) div uint sb \<le> d div uint sb" using pos by (intro zdiv_mono1 [OF _ sb]) simp
    then have dp: "(d - sint imm) div uint sb \<le> uint peak" using "3.prems"(3) by simp
    from "3.IH" [OF "3.prems"(1) _ dp, of j] show ?thesis
      using "3.prems" pos by (simp add: Suc clamp0_def algebra_simps)
  qed
qed simp_all

text \<open>On x86-64 code made of pushes and pops of the data stack the scanner covers the real depth
  after every prefix, provided no pop has a negative immediate.\<close>

theorem x86_scan_sound:
  assumes "0 < slot_bytes" "list_all pop_positive ops" "length ops < 2 ^ 20"
  shows "sum_list (map r15_delta (take k ops)) div uint slot_bytes
    \<le> uint (rederive_x86_64 (r15_code ops) slot_bytes)"
  using r15_scan_covers [OF assms(1), of 0 0 0 ops k] assms(2,3) x86_loop_r15 [of "[]" ops slot_bytes 0 0]
  by (simp add: rederive_x86_64_def)

lemma x86_scan_sound_witness:
  "sum_list (map r15_delta (take 2 [R15_add 8, R15_add 16, R15_sub 8])) div 8
     \<le> uint (rederive_x86_64 (r15_code [R15_add 8, R15_add 16, R15_sub 8]) 8)"
  using x86_scan_sound [of 8 "[R15_add 8, R15_add 16, R15_sub 8]" 2] by simp

lemma r15_scan_sub_only:
  "r15_scan sb (replicate n (R15_sub imm)) off peak = peak"
  by (induction n arbitrary: off) simp_all

text \<open>The proviso is needed: a push written as \<open>sub r15, -8\<close> raises the offset without
  raising the peak, so any number of such pushes is reported as a bound of zero, where the
  same growth written as \<open>add r15, 8\<close> is counted.\<close>

theorem x86_scan_underestimates:
  "rederive_x86_64 (r15_code (replicate n (R15_sub 0xf8))) 8 = 0
   \<and> sum_list (map r15_delta (replicate n (R15_sub 0xf8))) = 8 * int n
   \<and> rederive_x86_64 (r15_code (replicate 3 (R15_add 8))) 8 = 3"
proof (intro conjI)
  show "rederive_x86_64 (r15_code (replicate n (R15_sub 0xf8))) 8 = 0"
    using x86_loop_r15 [of "[]" "replicate n (R15_sub 0xf8)" 8 0 0]
    by (simp add: rederive_x86_64_def r15_scan_sub_only)
  show "sum_list (map r15_delta (replicate n (R15_sub 0xf8))) = 8 * int n"
    by (simp add: sum_list_replicate)
  show "rederive_x86_64 (r15_code (replicate 3 (R15_add 8))) 8 = 3"
    using x86_loop_r15 [of "[]" "[R15_add 8, R15_add 8, R15_add 8]" 8 0 0]
    by (simp add: rederive_x86_64_def update_peak_def numeral_3_eq_3)
qed

section \<open>ARM Thumb\<close>

text \<open>The architecture's encoding of \<open>ADDS Rd, Rn, #imm3\<close>: \<open>0001110 imm3 Rn Rd\<close>.\<close>

definition adds_imm3 :: "u16 \<Rightarrow> u16 \<Rightarrow> u16 \<Rightarrow> u16" where
  "adds_imm3 imm3 rn rd = 0x1C00 OR push_bit 6 imm3 OR push_bit 3 rn OR rd"

lemma not_match_bit: "bit w 5 \<or> bit w 13 \<Longrightarrow> \<not> thumb_match w"
proof
  assume b: "bit w 5 \<or> bit w 13" and m: "thumb_match w"
  have e: "drop_bit 4 w AND 7 = 4" "drop_bit 11 w = 3" using m unfolding thumb_match_def by metis+
  show False using arg_cong [OF e(1), of "\<lambda>x. bit x 1"] arg_cong [OF e(2), of "\<lambda>x. bit x 2"] b
    by (simp add: bit_simps)
qed

lemma thumb_loop_blind:
  assumes "\<forall>i. i + 1 < length code \<longrightarrow> \<not> thumb_match (u16_pair code i)"
  shows "thumb_loop code sb i off peak = peak"
proof (induction "length code - i" arbitrary: i rule: less_induct)
  case less
  show ?case
  proof (cases "i + 1 < length code")
    case True
    then show ?thesis using less [of "i + 1"] assms by (subst thumb_loop.simps) (simp add: Let_def)
  next
    case False
    then show ?thesis by (subst thumb_loop.simps) simp
  qed
qed

lemma adds_r4_code:
  assumes "i < length (concat (map (\<lambda>k. to_le (adds_imm3 k 4 4)) imms))" "even i"
  shows "bit (concat (map (\<lambda>k. to_le (adds_imm3 k 4 4)) imms) ! i) 5"
  using assms
proof (induction imms arbitrary: i)
  case (Cons k imms)
  show ?case
  proof (cases "i < 2")
    case True
    then have "i = 0" using Cons.prems(2) by (metis One_nat_def dvd_1_left even_Suc less_2_cases odd_one)
    then show ?thesis
      by (simp add: nth_append to_le_def adds_imm3_def bit_simps)
  next
    case False
    then have "even (i - 2)" "i - 2 < length (concat (map (\<lambda>k. to_le (adds_imm3 k 4 4)) imms))"
      using Cons.prems by simp_all
    then show ?thesis using Cons.IH [of "i - 2"] False by (simp add: nth_append)
  qed
qed simp

text \<open>The Thumb scanner reads the register and immediate fields at the wrong bits: the
  architecture's encoding of \<open>ADDS r4, r4, #imm\<close> is never recognised, so code that pushes
  any number of times is reported as needing no data stack, and is not even taken for ARM.\<close>

theorem thumb_scan_blind:
  "rederive_arm_thumb (concat (map (\<lambda>k. to_le (adds_imm3 k 4 4)) imms)) slot_bytes = 0
   \<and> detect_from_code (concat (map (\<lambda>k. to_le (adds_imm3 k 4 4)) imms)) \<noteq> ArmThumb"
proof -
  let ?code = "concat (map (\<lambda>k. to_le (adds_imm3 k 4 4)) imms)"
  have nm: "\<not> thumb_match (u16_pair ?code i)" if i: "i + 1 < length ?code" for i
  proof (rule not_match_bit, cases "even i")
    case True
    then show "bit (u16_pair ?code i) 5 \<or> bit (u16_pair ?code i) 13"
      using adds_r4_code [of i imms] i by (simp add: u16_pair_def bit_simps)
  next
    case False
    then show "bit (u16_pair ?code i) 5 \<or> bit (u16_pair ?code i) 13"
      using adds_r4_code [of "i + 1" imms] i by (simp add: u16_pair_def bit_simps)
  qed
  have "rederive_arm_thumb ?code slot_bytes = 0"
    unfolding rederive_arm_thumb_def by (rule thumb_loop_blind) (use nm in blast)
  moreover have "detect_from_code ?code \<noteq> ArmThumb"
    using nm by (auto simp: detect_from_code_def list_ex_iff)
  ultimately show ?thesis ..
qed

end
