(* ===== verification/AppendLog.thy ===== *)
theory AppendLog
  imports Prelude "HOL-Library.Sublist" "HOL-Library.Multiset"
begin

text \<open>
  The transaction contract of the loader's fixed-capacity tables: a table shows a list of
  live entries (\<open>view\<close>), \<open>mark\<close> is taken before a load and \<open>undo\<close> cuts the table back to
  it. The symbol map and the aperture registry are the two providers; the loader is the
  client. A fold over fallible insertions that only append is undone by the mark taken
  before it, wherever it stopped.
\<close>

locale append_log =
  fixes inv :: "'s \<Rightarrow> bool"
    and view :: "'s \<Rightarrow> 'a list"
    and mark :: "'s \<Rightarrow> nat"
    and undo :: "nat \<Rightarrow> 's \<Rightarrow> 's"
  assumes mark_view: "inv s \<Longrightarrow> mark s = length (view s)"
    and undo_view: "inv s \<Longrightarrow> m \<le> length (view s) \<Longrightarrow> view (undo m s) = take m (view s)"
    and undo_inv: "inv s \<Longrightarrow> m \<le> length (view s) \<Longrightarrow> inv (undo m s)"
begin

lemma undo_restores:
  assumes "inv s" "inv s'" "prefix (view s) (view s')"
  shows "inv (undo (mark s) s') \<and> view (undo (mark s) s') = view s"
proof -
  obtain ext where e: "view s' = view s @ ext" using assms(3) by (rule prefixE)
  then have "mark s \<le> length (view s')" by (simp add: mark_view [OF assms(1)])
  with undo_view [OF assms(2) this] undo_inv [OF assms(2) this] show ?thesis
    by (simp add: mark_view [OF assms(1)] e)
qed

lemma undo_idle: "inv s \<Longrightarrow> view (undo (mark s) s) = view s"
  by (simp add: undo_restores)

lemma mark_mono: "inv s \<Longrightarrow> inv s' \<Longrightarrow> prefix (view s) (view s') \<Longrightarrow> mark s \<le> mark s'"
  by (simp add: mark_view prefix_length_le)

end

text \<open>Removing position \<open>w\<close> by moving the last element into it.\<close>

definition swap_remove :: "nat \<Rightarrow> 'a list \<Rightarrow> 'a list" where
  "swap_remove w xs = butlast (xs[w := last xs])"

lemma length_swap_remove [simp]: "length (swap_remove w xs) = length xs - 1"
  by (simp add: swap_remove_def)

lemma nth_swap_remove:
  "w < length xs \<Longrightarrow> i < length xs - 1 \<Longrightarrow>
    swap_remove w xs ! i = (if i = w then xs ! (length xs - 1) else xs ! i)"
  by (cases "xs = []") (auto simp: swap_remove_def nth_butlast last_conv_nth)

lemma take_swap_remove: "w < length xs \<Longrightarrow> take w (swap_remove w xs) = take w xs"
  by (rule nth_equalityI) (auto simp: nth_swap_remove)

lemma swap_remove_cut:
  "w < n \<Longrightarrow> n \<le> length xs \<Longrightarrow> take (n - 1) (xs[w := xs ! (n - 1)]) = swap_remove w (take n xs)"
  by (rule nth_equalityI) (auto simp: nth_swap_remove)

lemma swap_remove_zip:
  "w < length xs \<Longrightarrow> length xs = length ys \<Longrightarrow>
    zip (swap_remove w xs) (swap_remove w ys) = swap_remove w (zip xs ys)"
  by (rule nth_equalityI) (auto simp: nth_swap_remove)

lemma mset_drop_swap_remove:
  assumes "w < length xs"
  shows "mset (drop w (swap_remove w xs)) = mset (drop (w + 1) xs)"
proof (cases "w = length xs - 1")
  case True
  then show ?thesis using assms by simp
next
  case False
  define ys where "ys = drop (w + 1) xs"
  have len: "length ys = length xs - Suc w" by (simp add: ys_def)
  have ne: "ys \<noteq> []" "xs \<noteq> []" using False assms by (auto simp: ys_def)
  have "drop w (xs[w := last xs]) = last xs # ys"
    using assms by (subst Cons_nth_drop_Suc [symmetric]) (simp_all add: ys_def)
  moreover have "last xs = last ys" using ne by (simp add: ys_def)
  ultimately have "drop w (swap_remove w xs) = butlast (last ys # ys)"
    by (simp add: swap_remove_def butlast_conv_take drop_take len)
  also have "mset \<dots> = mset ys"
    using ne(1) by (cases ys rule: rev_cases) simp_all
  finally show ?thesis by (simp add: ys_def)
qed

end
