(* ===== verification/Apertures.thy ===== *)
theory Apertures
  imports LoaderTypes AppendLog
begin

text \<open>
  The aperture registry and the binding pass of crates/loader-core/src/apertures.rs.
  The two arrays of the registry are lists of length \<open>APERTURE_CAP\<close>; entries behind
  the count are stale, as in the source. \<open>bound_pairs\<close> is what the registry stands
  for: the live (id, owner) pairs.
\<close>

section \<open>The registry\<close>

record aperture_registry =
  reg_ids :: "u16 list"
  reg_owners :: "u64 list"
  reg_count :: nat

definition registry_new :: aperture_registry where
  "registry_new = \<lparr>reg_ids = replicate APERTURE_CAP 0, reg_owners = replicate APERTURE_CAP 0,
     reg_count = 0\<rparr>"

definition is_bound :: "aperture_registry \<Rightarrow> u16 \<Rightarrow> bool" where
  "is_bound r i = (i \<in> set (take (reg_count r) (reg_ids r)))"

definition reg_mark :: "aperture_registry \<Rightarrow> nat" where "reg_mark r = reg_count r"

definition rollback :: "nat \<Rightarrow> aperture_registry \<Rightarrow> aperture_registry" where
  "rollback m r = (if m \<le> reg_count r then r\<lparr>reg_count := m\<rparr> else r)"

definition reserve :: "u16 \<Rightarrow> u64 \<Rightarrow> aperture_registry \<Rightarrow> load_error + aperture_registry" where
  "reserve i owner r =
    (if is_bound r i then Inl ApertureConflict
     else if APERTURE_CAP \<le> reg_count r then Inl ApertureConflict
     else Inr (r\<lparr>reg_ids := (reg_ids r)[reg_count r := i],
               reg_owners := (reg_owners r)[reg_count r := owner],
               reg_count := reg_count r + 1\<rparr>))"

text \<open>The swap-remove loop of \<open>release_owner\<close>.\<close>

definition swap_out :: "nat \<Rightarrow> aperture_registry \<Rightarrow> aperture_registry" where
  "swap_out w r = r\<lparr>reg_ids := (reg_ids r)[w := reg_ids r ! (reg_count r - 1)],
     reg_owners := (reg_owners r)[w := reg_owners r ! (reg_count r - 1)],
     reg_count := reg_count r - 1\<rparr>"

lemma swap_out_count [simp]: "reg_count (swap_out w r) = reg_count r - 1"
  by (simp add: swap_out_def)

function release_loop :: "u64 \<Rightarrow> nat \<Rightarrow> aperture_registry \<Rightarrow> aperture_registry" where
  "release_loop owner w r =
    (if w < reg_count r then
       (if reg_owners r ! w = owner then release_loop owner w (swap_out w r)
        else release_loop owner (w + 1) r)
     else r)"
  by pat_completeness auto
termination by (relation "measure (\<lambda>(_, w, r). reg_count r - w)") auto

declare release_loop.simps [simp del]

definition release_owner :: "u64 \<Rightarrow> aperture_registry \<Rightarrow> aperture_registry" where
  "release_owner owner r = release_loop owner 0 r"

section \<open>The binding pass\<close>

text \<open>The structural pass: every entry reads and no id occurs twice.\<close>

fun check_ids :: "(u32 \<Rightarrow> aperture_entry outcome) \<Rightarrow> nat list \<Rightarrow> u16 list \<Rightarrow> lfail + unit" where
  "check_ids read [] seen = Inr ()"
| "check_ids read (i # is) seen =
    bindE (ok_or ApertureTableMalformed (read (word_of_nat i))) (\<lambda>e.
    if ap_id e \<in> set seen then lerr ApertureTableMalformed
    else check_ids read is (if length seen < APERTURE_CAP then seen @ [ap_id e] else seen))"

text \<open>Resolution against the board and reservation. The registry is passed by reference,
  so it is returned with an error too.\<close>

definition resolve :: "board_aperture list \<Rightarrow> aperture_entry \<Rightarrow> load_error + board_aperture" where
  "resolve board e =
    (let i = unat (ap_id e) in
     if length board \<le> i then Inl ApertureUnresolved
     else if b_name_hash (board ! i) \<noteq> ap_name_hash e then Inl ApertureUnresolved
     else if b_size (board ! i) \<noteq> ap_size e then Inl ApertureUnresolved
     else if ap_access_mask e AND NOT (b_capability (board ! i)) \<noteq> 0
       then Inl ApertureTableMalformed
     else Inr (board ! i))"

definition lift_load :: "load_error + 'a \<Rightarrow> lfail + 'a" where
  "lift_load x = (case x of Inl e \<Rightarrow> Inl (LErr e) | Inr y \<Rightarrow> Inr y)"

fun bind_entries :: "(u32 \<Rightarrow> aperture_entry outcome) \<Rightarrow> board_aperture list \<Rightarrow> u64 \<Rightarrow> nat list
    \<Rightarrow> aperture_registry \<Rightarrow> u32 list \<Rightarrow> (lfail + u32 list) \<times> aperture_registry" where
  "bind_entries read board owner [] r bases = (Inr bases, r)"
| "bind_entries read board owner (i # is) r bases =
    (case bindE (ok_or ApertureTableMalformed (read (word_of_nat i))) (\<lambda>e.
          bindE (lift_load (resolve board e)) (\<lambda>b.
          bindE (lift_load (reserve (ap_id e) owner r)) (\<lambda>r'. Inr (e, b, r')))) of
       Inl f \<Rightarrow> (Inl f, r)
     | Inr (e, b, r') \<Rightarrow>
         if length bases \<le> unat (ap_id e) then (Inl LPanic, r')
         else bind_entries read board owner is r' (bases[unat (ap_id e) := b_base b]))"

definition bind_apertures :: "nat \<Rightarrow> bytes \<Rightarrow> u64 option \<Rightarrow> board_aperture list \<Rightarrow> aperture_registry
    \<Rightarrow> u64 \<Rightarrow> (lfail + u32 list) \<times> aperture_registry" where
  "bind_apertures umax modinfo board_hash board r owner =
    (if modinfo = [] then (Inr (replicate APERTURE_CAP 0), r)
     else
       (case bindE (ok_or BadContainer (decode_modinfo umax modinfo)) (\<lambda>hdr.
             bindE (l_guard (m_modinfo_ver hdr = MODINFO_VER) ModinfoVersionUnsupported) (\<lambda>_.
             bindE (l_guard (m_platform_hash hdr = 0 \<or> board_hash = Some (m_platform_hash hdr))
                      PlatformHashMismatch) (\<lambda>_. Inr hdr))) of
          Inl f \<Rightarrow> (Inl f, r)
        | Inr hdr \<Rightarrow>
            (let n = unat (m_aperture_count hdr) in
             if n = 0 then (Inr (replicate APERTURE_CAP 0), r)
             else if APERTURE_CAP < n then (Inl (LErr ApertureTableMalformed), r)
             else (case check_ids (read_aperture_use umax modinfo) [0..<n] [] of
                 Inl f \<Rightarrow> (Inl f, r)
               | Inr _ \<Rightarrow> bind_entries (read_aperture_use umax modinfo) board owner [0..<n] r
                   (replicate APERTURE_CAP 0)))))"

section \<open>The registry as a log of live pairs\<close>

definition bound_pairs :: "aperture_registry \<Rightarrow> (u16 \<times> u64) list" where
  "bound_pairs r = zip (take (reg_count r) (reg_ids r)) (take (reg_count r) (reg_owners r))"

definition reg_wf :: "aperture_registry \<Rightarrow> bool" where
  "reg_wf r \<longleftrightarrow> length (reg_ids r) = APERTURE_CAP \<and> length (reg_owners r) = APERTURE_CAP
     \<and> reg_count r \<le> APERTURE_CAP \<and> distinct (take (reg_count r) (reg_ids r))"

lemma length_bound_pairs: "reg_wf r \<Longrightarrow> length (bound_pairs r) = reg_count r"
  by (simp add: bound_pairs_def reg_wf_def)

lemma fst_bound_pairs: "reg_wf r \<Longrightarrow> map fst (bound_pairs r) = take (reg_count r) (reg_ids r)"
  by (simp add: bound_pairs_def reg_wf_def)

lemma is_bound_pairs: "reg_wf r \<Longrightarrow> is_bound r i \<longleftrightarrow> i \<in> fst ` set (bound_pairs r)"
  unfolding is_bound_def fst_bound_pairs [symmetric] by simp

lemma take_Suc_update: "n < length xs \<Longrightarrow> take (Suc n) (xs[n := x]) = take n xs @ [x]"
  by (simp add: take_Suc_conv_app_nth)

lemma reserve_Inr:
  assumes "reserve i owner r = Inr r'" "reg_wf r"
  shows "reg_wf r'" "bound_pairs r' = bound_pairs r @ [(i, owner)]" "\<not> is_bound r i"
proof -
  have c: "\<not> is_bound r i" "reg_count r < APERTURE_CAP"
    and r': "r' = r\<lparr>reg_ids := (reg_ids r)[reg_count r := i],
               reg_owners := (reg_owners r)[reg_count r := owner], reg_count := reg_count r + 1\<rparr>"
    using assms(1) by (auto simp: reserve_def split: if_splits)
  show "\<not> is_bound r i" by (rule c(1))
  show "reg_wf r'" using c assms(2) by (auto simp: r' reg_wf_def is_bound_def take_Suc_update)
  show "bound_pairs r' = bound_pairs r @ [(i, owner)]"
    using c assms(2) by (simp add: r' reg_wf_def bound_pairs_def take_Suc_update)
qed

lemma rollback_pairs:
  assumes "reg_wf r" "m \<le> length (bound_pairs r)"
  shows "bound_pairs (rollback m r) = take m (bound_pairs r)" "reg_wf (rollback m r)"
proof -
  have m: "m \<le> reg_count r" using assms by (simp add: length_bound_pairs)
  show "bound_pairs (rollback m r) = take m (bound_pairs r)"
    using m by (simp add: rollback_def bound_pairs_def take_zip min_absorb1)
  have "take m (reg_ids r) = take m (take (reg_count r) (reg_ids r))"
    using m by (simp add: min_absorb1)
  then show "reg_wf (rollback m r)"
    using assms(1) m by (simp add: rollback_def reg_wf_def del: take_take)
qed

lemma rollback_stale: "reg_count r < m \<Longrightarrow> rollback m r = r" by (simp add: rollback_def)

interpretation areg: append_log reg_wf bound_pairs reg_mark rollback
  by unfold_locales (simp_all add: reg_mark_def length_bound_pairs rollback_pairs)

lemma release_step:
  assumes "reg_wf r" "w < reg_count r"
  shows "bound_pairs (swap_out w r) = swap_remove w (bound_pairs r)" "reg_wf (swap_out w r)"
proof -
  have l: "reg_count r \<le> length (reg_ids r)" "reg_count r \<le> length (reg_owners r)"
    using assms(1) by (simp_all add: reg_wf_def)
  show p: "bound_pairs (swap_out w r) = swap_remove w (bound_pairs r)"
    using assms(2) l swap_remove_cut [OF assms(2) l(1)] swap_remove_cut [OF assms(2) l(2)]
      swap_remove_zip [of w "take (reg_count r) (reg_ids r)" "take (reg_count r) (reg_owners r)"]
    by (simp add: bound_pairs_def swap_out_def)
  have "distinct (swap_remove w (take (reg_count r) (reg_ids r)))"
    using assms(1,2) l by (auto simp: distinct_conv_nth nth_swap_remove reg_wf_def)
  then show "reg_wf (swap_out w r)"
    using assms(1) swap_remove_cut [OF assms(2) l(1)] by (simp add: swap_out_def reg_wf_def le_diff_conv)
qed

text \<open>Swap-removal keeps, up to order, exactly the pairs of the other owners.\<close>

lemma release_loop_spec:
  assumes "reg_wf r" "w \<le> reg_count r"
  shows "reg_wf (release_loop owner w r) \<and>
    mset (bound_pairs (release_loop owner w r))
      = mset (take w (bound_pairs r)) + filter_mset (\<lambda>p. snd p \<noteq> owner) (mset (drop w (bound_pairs r)))"
  using assms
proof (induction owner w r rule: release_loop.induct)
  case (1 owner w r)
  note len = length_bound_pairs [OF "1.prems"(1)]
  show ?case
  proof (cases "w < reg_count r")
    case False
    then show ?thesis using "1.prems" len by (simp add: release_loop.simps)
  next
    case w: True
    have own: "snd (bound_pairs r ! w) = reg_owners r ! w"
      using w "1.prems"(1) by (simp add: bound_pairs_def reg_wf_def)
    show ?thesis
    proof (cases "reg_owners r ! w = owner")
      case True
      note st = release_step [OF "1.prems"(1) w]
      have wl: "w < length (bound_pairs r)" using w len by simp
      have "drop w (bound_pairs r) = bound_pairs r ! w # drop (w + 1) (bound_pairs r)"
        using wl by (simp add: Cons_nth_drop_Suc)
      then have d: "filter_mset (\<lambda>p. snd p \<noteq> owner) (mset (drop w (bound_pairs r)))
          = filter_mset (\<lambda>p. snd p \<noteq> owner) (mset (drop w (swap_remove w (bound_pairs r))))"
        using own True mset_drop_swap_remove [OF wl] by simp
      have "w \<le> reg_count r - 1" using w by simp
      then show ?thesis
        using "1.IH"(1) [OF w True st(2)] w True
        by (subst (1 2) release_loop.simps) (simp add: st(1) take_swap_remove [OF wl] d)
    next
      case False
      have wl: "w < length (bound_pairs r)" using w len by simp
      have "take (w + 1) (bound_pairs r) = take w (bound_pairs r) @ [bound_pairs r ! w]"
        using wl by (simp add: take_Suc_conv_app_nth)
      moreover have "drop w (bound_pairs r) = bound_pairs r ! w # drop (w + 1) (bound_pairs r)"
        using wl by (simp add: Cons_nth_drop_Suc)
      ultimately show ?thesis
        using "1.IH"(2) [OF w False "1.prems"(1)] w False own
        by (subst (1 2) release_loop.simps) simp
    qed
  qed
qed

lemma release_owner_spec:
  assumes "reg_wf r"
  shows "reg_wf (release_owner owner r)"
    "mset (bound_pairs (release_owner owner r))
      = filter_mset (\<lambda>p. snd p \<noteq> owner) (mset (bound_pairs r))"
  using release_loop_spec [OF assms, of 0 owner] by (simp_all add: release_owner_def)

lemma reg_wf_new: "reg_wf registry_new" "bound_pairs registry_new = []"
  by (simp_all add: reg_wf_def bound_pairs_def registry_new_def)

end
