(* ===== verification/SymMap.thy ===== *)
theory SymMap
  imports LoaderTypes AppendLog
begin

text \<open>
  The name hash of crates/lmod/src/hash.rs and the flat symbol map of
  crates/loader-core/src/symbols.rs, with the rollback guard of load.rs. The array of
  the map is a list of options whose length is its capacity; the cells behind the
  length are empty.
\<close>

section \<open>Symbol hashes\<close>

definition fnv1a_step :: "u64 \<Rightarrow> u8 \<Rightarrow> u64" where
  "fnv1a_step h b = (h XOR ucast b) * 1099511628211"

definition fnv1a_u64 :: "bytes \<Rightarrow> u64" where
  "fnv1a_u64 bs = foldl fnv1a_step 14695981039346656037 bs"

definition hex_digit :: "u8 \<Rightarrow> u8 option" where
  "hex_digit b =
    (if 48 \<le> b \<and> b \<le> 57 then Some (b - 48)
     else if 97 \<le> b \<and> b \<le> 102 then Some (b - 97 + 10)
     else if 65 \<le> b \<and> b \<le> 70 then Some (b - 65 + 10)
     else None)"

fun hex_value :: "u64 \<Rightarrow> bytes \<Rightarrow> u64 option" where
  "hex_value acc [] = Some acc"
| "hex_value acc (b # bs) =
    (case hex_digit b of None \<Rightarrow> None | Some d \<Rightarrow> hex_value (push_bit 4 acc OR ucast d) bs)"

text \<open>\<open>w_\<close> and sixteen hexadecimal digits.\<close>

definition parse_mangled_word_hash :: "bytes \<Rightarrow> u64 option" where
  "parse_mangled_word_hash name =
    (if take 2 name \<noteq> [119, 95] then None
     else (let hex = drop 2 name in
       if length hex \<noteq> 16 \<or> \<not> list_all (\<lambda>b. hex_digit b \<noteq> None) hex then None
       else hex_value 0 hex))"

definition linked_symbol_hash :: "bytes \<Rightarrow> u64" where
  "linked_symbol_hash name =
    (case parse_mangled_word_hash name of Some h \<Rightarrow> h | None \<Rightarrow> fnv1a_u64 name)"

section \<open>The map\<close>

definition E_SYMBOL_CONFLICT :: u32 where "E_SYMBOL_CONFLICT = 5206"
definition E_SYMBOL_HASH_COLLISION :: u32 where "E_SYMBOL_HASH_COLLISION = 5207"

record sym_entry =
  se_hash :: u64
  se_name :: bytes
  se_addr :: nat

record sym_map =
  sm_entries :: "sym_entry option list"
  sm_len :: nat

definition sym_map_new :: "nat \<Rightarrow> sym_map" where
  "sym_map_new n = \<lparr>sm_entries = replicate n None, sm_len = 0\<rparr>"

definition sm_iter :: "sym_map \<Rightarrow> sym_entry list" where
  "sm_iter m = List.map_filter (\<lambda>e. e) (take (sm_len m) (sm_entries m))"

text \<open>The scan for conflicts: the first clashing entry decides the error.\<close>

fun sym_clash :: "u64 \<Rightarrow> bytes \<Rightarrow> sym_entry list \<Rightarrow> u32 option" where
  "sym_clash h n [] = None"
| "sym_clash h n (e # es) =
    (if n \<noteq> [] \<and> se_name e \<noteq> [] \<and> se_name e = n then Some E_SYMBOL_CONFLICT
     else if se_hash e = h then Some E_SYMBOL_HASH_COLLISION
     else sym_clash h n es)"

definition register_with_hash :: "u64 \<Rightarrow> bytes \<Rightarrow> nat \<Rightarrow> sym_map \<Rightarrow> u32 + sym_map" where
  "register_with_hash h n addr m =
    (case sym_clash h n (sm_iter m) of
       Some e \<Rightarrow> Inl e
     | None \<Rightarrow>
         if length (sm_entries m) \<le> sm_len m then Inl 5209
         else Inr (m\<lparr>sm_entries := (sm_entries m)[sm_len m :=
                        Some \<lparr>se_hash = h, se_name = n, se_addr = addr\<rparr>],
                     sm_len := sm_len m + 1\<rparr>))"

definition sym_register :: "bytes \<Rightarrow> nat \<Rightarrow> sym_map \<Rightarrow> u32 + sym_map" where
  "sym_register n addr m = register_with_hash (fnv1a_u64 n) n addr m"

definition register_runtime_hash :: "u64 \<Rightarrow> nat \<Rightarrow> sym_map \<Rightarrow> u32 + sym_map" where
  "register_runtime_hash h addr m = register_with_hash h [] addr m"

definition lookup_by_hash :: "u64 \<Rightarrow> sym_map \<Rightarrow> sym_entry option" where
  "lookup_by_hash h m = find (\<lambda>e. se_hash e = h) (sm_iter m)"

definition lookup_by_name :: "bytes \<Rightarrow> sym_map \<Rightarrow> sym_entry option" where
  "lookup_by_name n m =
    (case lookup_by_hash (fnv1a_u64 n) m of
       Some e \<Rightarrow> if se_name e = n then Some e else None
     | None \<Rightarrow> None)"

text \<open>A loop of registrations. The map is passed by reference, so the entries made before
  an error stay; the result pairs the outcome with the map.\<close>

fun register_all :: "('i \<Rightarrow> u32 + u64 \<times> bytes \<times> nat) \<Rightarrow> 'i list \<Rightarrow> sym_map \<Rightarrow> (u32 + unit) \<times> sym_map" where
  "register_all row [] m = (Inr (), m)"
| "register_all row (i # is) m =
    (case bindE (row i) (\<lambda>(h, n, addr). register_with_hash h n addr m) of
       Inl e \<Rightarrow> (Inl e, m)
     | Inr m' \<Rightarrow> register_all row is m')"

text \<open>A generated symbol table: the count, four bytes of padding, rows of a hash and an
  address. \<open>umax\<close> is the largest \<open>usize\<close>; an address is cut to it.\<close>

definition symtab_row :: "nat \<Rightarrow> bytes \<Rightarrow> nat \<Rightarrow> u64 \<times> bytes \<times> nat" where
  "symtab_row umax bytes i =
    (let off = 8 + i * 16 in
     (u64_at bytes off, [], unat (u64_at bytes (off + 8)) mod (umax + 1)))"

definition register_symtab_bytes :: "nat \<Rightarrow> bytes \<Rightarrow> sym_map \<Rightarrow> (u32 + nat) \<times> sym_map" where
  "register_symtab_bytes umax bytes m =
    (if length bytes < 8 then (Inl E_SYMBOL_CONFLICT, m)
     else (let n = unat (u32_at bytes 0) in
       if umax < 8 + n * 16 then (Inl E_SYMBOL_CONFLICT, m)
       else if length bytes < 8 + n * 16 then (Inl E_SYMBOL_CONFLICT, m)
       else (case register_all (\<lambda>i. Inr (symtab_row umax bytes i)) [0..<n] m of
           (Inl e, m') \<Rightarrow> (Inl e, m')
         | (Inr _, m') \<Rightarrow> (Inr n, m'))))"

section \<open>The rollback guard\<close>

definition sym_rollback :: "nat \<Rightarrow> sym_map \<Rightarrow> sym_map" where
  "sym_rollback saved m =
    m\<lparr>sm_entries := map (\<lambda>(i, e). if saved \<le> i \<and> i < sm_len m then None else e)
                     (enumerate 0 (sm_entries m)),
      sm_len := saved\<rparr>"

section \<open>The map as a log of entries\<close>

definition sm_wf :: "sym_map \<Rightarrow> bool" where
  "sm_wf m \<longleftrightarrow> sm_len m \<le> length (sm_entries m)
     \<and> (\<forall>i < sm_len m. sm_entries m ! i \<noteq> None)
     \<and> (\<forall>i < length (sm_entries m). sm_len m \<le> i \<longrightarrow> sm_entries m ! i = None)
     \<and> distinct (map se_hash (sm_iter m))
     \<and> distinct (filter (\<lambda>n. n \<noteq> []) (map se_name (sm_iter m)))"

lemma map_filter_somes: "\<forall>x \<in> set xs. x \<noteq> None \<Longrightarrow> List.map_filter (\<lambda>e. e) xs = map the xs"
  by (induction xs) (auto simp: List.map_filter_def)

lemma sm_iter_eq:
  assumes "sm_len m \<le> length (sm_entries m)" "\<forall>i < sm_len m. sm_entries m ! i \<noteq> None"
  shows "sm_iter m = map the (take (sm_len m) (sm_entries m))"
  unfolding sm_iter_def using assms by (intro map_filter_somes) (auto simp: in_set_conv_nth)

lemma sm_iter_wf: "sm_wf m \<Longrightarrow> sm_iter m = map the (take (sm_len m) (sm_entries m))"
  unfolding sm_wf_def by (intro sm_iter_eq) auto

lemma length_sm_iter: "sm_wf m \<Longrightarrow> length (sm_iter m) = sm_len m"
  by (simp add: sm_iter_wf) (simp add: sm_wf_def)

lemma sym_clash_None:
  "sym_clash h n es = None \<longleftrightarrow> h \<notin> se_hash ` set es \<and> (n = [] \<or> n \<notin> se_name ` set es)"
  by (induction es) auto

lemma register_Inr:
  assumes "register_with_hash h n addr m = Inr m'" "sm_wf m"
  shows "sm_wf m'" "sm_iter m' = sm_iter m @ [\<lparr>se_hash = h, se_name = n, se_addr = addr\<rparr>]"
    "h \<notin> se_hash ` set (sm_iter m)"
proof -
  let ?e = "\<lparr>se_hash = h, se_name = n, se_addr = addr\<rparr>"
  have c: "sym_clash h n (sm_iter m) = None" and l: "sm_len m < length (sm_entries m)"
    and m': "m' = m\<lparr>sm_entries := (sm_entries m)[sm_len m := Some ?e], sm_len := sm_len m + 1\<rparr>"
    using assms(1) by (auto simp: register_with_hash_def split: option.splits if_splits)
  have s: "\<forall>i < sm_len m'. sm_entries m' ! i \<noteq> None" "sm_len m' \<le> length (sm_entries m')"
    using assms(2) l by (auto simp: m' sm_wf_def nth_list_update less_Suc_eq)
  show it: "sm_iter m' = sm_iter m @ [?e]"
    unfolding sm_iter_eq [OF s(2,1)] sm_iter_wf [OF assms(2)]
    using l by (simp add: m' take_Suc_conv_app_nth)
  show "h \<notin> se_hash ` set (sm_iter m)" using c by (simp add: sym_clash_None)
  then show "sm_wf m'" using assms(2) s l c by (auto simp: sm_wf_def it sym_clash_None) (auto simp: m')
qed

lemma length_sym_rollback [simp]: "length (sm_entries (sym_rollback k m)) = length (sm_entries m)"
  by (simp add: sym_rollback_def)

lemma nth_sym_rollback:
  "i < length (sm_entries m) \<Longrightarrow> sm_entries (sym_rollback k m) ! i
    = (if k \<le> i \<and> i < sm_len m then None else sm_entries m ! i)"
  by (simp add: sym_rollback_def nth_enumerate_eq)

lemma sym_rollback_view:
  assumes "sm_wf m" "k \<le> length (sm_iter m)"
  shows "sm_iter (sym_rollback k m) = take k (sm_iter m)" "sm_wf (sym_rollback k m)"
proof -
  have k: "k \<le> sm_len m" using assms by (simp add: length_sm_iter)
  have l: "sm_len m \<le> length (sm_entries m)" using assms(1) by (simp add: sm_wf_def)
  have len: "sm_len (sym_rollback k m) = k" by (simp add: sym_rollback_def)
  have some: "\<forall>i < sm_len (sym_rollback k m). sm_entries (sym_rollback k m) ! i \<noteq> None"
    using assms(1) k l by (simp add: nth_sym_rollback len sm_wf_def)
  have tk: "take k (sm_entries (sym_rollback k m)) = take k (sm_entries m)"
    using k l by (intro nth_equalityI) (simp_all add: nth_sym_rollback)
  have kl: "sm_len (sym_rollback k m) \<le> length (sm_entries (sym_rollback k m))" using k l by (simp add: len)
  show it: "sm_iter (sym_rollback k m) = take k (sm_iter m)"
    unfolding sm_iter_eq [OF kl some] sm_iter_wf [OF assms(1)] using k by (simp add: len tk take_map min_absorb1)
  have "distinct (filter (\<lambda>n. n \<noteq> []) (map se_name (take k (sm_iter m))))"
  proof -
    have "filter (\<lambda>n. n \<noteq> []) (map se_name (sm_iter m))
        = filter (\<lambda>n. n \<noteq> []) (map se_name (take k (sm_iter m))) @ filter (\<lambda>n. n \<noteq> []) (map se_name (drop k (sm_iter m)))"
      by (metis append_take_drop_id filter_append map_append)
    then show ?thesis using assms(1) by (simp add: sm_wf_def)
  qed
  moreover have "distinct (map se_hash (take k (sm_iter m)))"
    using assms(1) by (simp add: sm_wf_def take_map [symmetric] del: take_map)
  ultimately show "sm_wf (sym_rollback k m)"
    using some kl assms(1) by (auto simp: sm_wf_def it nth_sym_rollback len)
qed

interpretation symlog: append_log sm_wf sm_iter sm_len sym_rollback
  by unfold_locales (simp_all add: length_sm_iter sym_rollback_view)

lemma sm_wf_new: "sm_wf (sym_map_new n)" "sm_iter (sym_map_new n) = []"
  by (simp_all add: sm_wf_def sym_map_new_def sm_iter_def List.map_filter_def)

lemma sm_eqI:
  assumes "sm_wf m" "sm_wf m'" "sm_iter m = sm_iter m'" "length (sm_entries m) = length (sm_entries m')"
  shows "m = m'"
proof -
  have l: "sm_len m = sm_len m'" using assms by (metis length_sm_iter)
  have "sm_entries m = sm_entries m'"
  proof (rule nth_equalityI)
    fix i assume i: "i < length (sm_entries m)"
    show "sm_entries m ! i = sm_entries m' ! i"
    proof (cases "i < sm_len m")
      case True
      then have "the (sm_entries m ! i) = the (sm_entries m' ! i)"
        using arg_cong [OF assms(3), of "\<lambda>xs. xs ! i"] i assms(4) l
        by (simp add: sm_iter_wf [OF assms(1)] sm_iter_wf [OF assms(2)])
      moreover have "sm_entries m ! i \<noteq> None" "sm_entries m' ! i \<noteq> None"
        using True assms(1,2) l by (auto simp: sm_wf_def)
      ultimately show ?thesis by auto
    next
      case False
      then show ?thesis using i assms l by (simp add: sm_wf_def)
    qed
  qed (rule assms(4))
  with l show ?thesis by simp
qed

lemma register_all_wf:
  "sm_wf m \<Longrightarrow> register_all row is m = (res, m') \<Longrightarrow>
    sm_wf m' \<and> prefix (sm_iter m) (sm_iter m') \<and> length (sm_entries m') = length (sm_entries m)"
proof (induction "is" arbitrary: m)
  case (Cons i "is")
  show ?case
  proof (cases "bindE (row i) (\<lambda>(h, n, addr). register_with_hash h n addr m)")
    case (Inl e)
    then show ?thesis using Cons.prems by simp
  next
    case (Inr m2)
    then obtain h n addr where r: "register_with_hash h n addr m = Inr m2" by (auto simp: result_simps)
    then have "length (sm_entries m2) = length (sm_entries m)"
      by (auto simp: register_with_hash_def split: option.splits if_splits)
    then show ?thesis
      using Cons.IH [of m2] Cons.prems Inr register_Inr [OF r Cons.prems(1)] by (auto intro: prefix_order.trans simp: append_prefixD)
  qed
qed simp

end
