(* ===== verification/VerifyManifest.thy ===== *)
theory VerifyManifest
  imports LoaderTypes "HOL-Library.List_Lexorder"
begin

text \<open>
  The verify_manifest record: the reader of crates/lmod/src/verify_manifest.rs and the
  encoder of crates/lmod-pack/src/verify.rs. An index out of range would panic, which
  is \<open>MPanic\<close>; SHA-256 is the parameter \<open>sha\<close>. Identifiers are compared bytewise.
\<close>

section \<open>The record\<close>

definition VM_TAG :: u32 where "VM_TAG = 0x31564d31"
definition VM_POLICY_NO_OPEN :: u8 where "VM_POLICY_NO_OPEN = 1"
definition VM_POLICY_PROVEN :: u8 where "VM_POLICY_PROVEN = 3"
definition VM_CERTIFIER_PORT :: u8 where "VM_CERTIFIER_PORT = 1"
definition VM_STATUS_ASSUMED :: u8 where "VM_STATUS_ASSUMED = 2"
definition VM_TRUST_PROOF :: u8 where "VM_TRUST_PROOF = 3"
definition VM_MAX_ID_LEN :: nat where "VM_MAX_ID_LEN = 512"
definition VM_MAX_RECORD :: u32 where "VM_MAX_RECORD = 4 * 1024 * 1024"
definition VM_MAX_COUNT :: u32 where "VM_MAX_COUNT = 4096"

definition satisfies :: "u8 \<Rightarrow> u8 \<Rightarrow> bool" where
  "satisfies declared req =
    (if req = 0 then True
     else if req = 1 then VM_POLICY_NO_OPEN \<le> declared
     else if req = 2 then declared = VM_POLICY_PROVEN
     else False)"

record verify_manifest =
  vm_semantics :: bytes
  vm_stmt :: bytes
  vm_target :: bytes
  vm_model :: bytes
  vm_policy :: u8
  vm_certifier_class :: u8
  vm_certifier_name :: bytes
  vm_certifier_recognition :: bytes
  vm_ratio :: u16
  vm_count :: nat
  vm_counts :: "u32 list"
  vm_start :: nat
  vm_end :: nat
  vm_digest :: bytes

record obligation =
  ob_id :: bytes
  ob_id_hash :: u64
  ob_status :: u8
  ob_trust :: u8
  ob_stmt_hash :: bytes

section \<open>Reading\<close>

datatype mfail = MErr u32 | MPanic

definition merr :: "mfail + 'a" where "merr = Inl (MErr 6500)"

text \<open>Indexed reads panic out of range.\<close>

definition m_read :: "nat \<Rightarrow> (bytes \<Rightarrow> nat \<Rightarrow> 'a) \<Rightarrow> bytes \<Rightarrow> nat \<Rightarrow> mfail + 'a" where
  "m_read n f data off = (if off + n \<le> length data then Inr (f data off) else Inl MPanic)"

definition m_u8 :: "bytes \<Rightarrow> nat \<Rightarrow> mfail + u8" where "m_u8 = m_read 1 (\<lambda>d off. d ! off)"
definition m_u16 :: "bytes \<Rightarrow> nat \<Rightarrow> mfail + u16" where "m_u16 = m_read 2 u16_at"
definition m_u32 :: "bytes \<Rightarrow> nat \<Rightarrow> mfail + u32" where "m_u32 = m_read 4 u32_at"
definition m_u64 :: "bytes \<Rightarrow> nat \<Rightarrow> mfail + u64" where "m_u64 = m_read 8 u64_at"

definition m_slice :: "bytes \<Rightarrow> nat \<Rightarrow> nat \<Rightarrow> mfail + bytes" where
  "m_slice data off n = m_read n (\<lambda>d off. slice d off n) data off"

definition read_len :: "bytes \<Rightarrow> nat \<Rightarrow> mfail + nat \<times> nat" where
  "read_len payload p =
    (if length payload < p + 2 then merr
     else bindE (m_u16 payload p) (\<lambda>n. Inr (unat n, p + 2)))"

definition read_bytes :: "bytes \<Rightarrow> nat \<times> nat \<Rightarrow> mfail + bytes \<times> nat" where
  "read_bytes payload lp = (case lp of (len, p) \<Rightarrow>
    if length payload < p + len then merr
    else bindE (m_slice payload p len) (\<lambda>b. Inr (b, p + len)))"

text \<open>A length-prefixed field.\<close>

definition read_field :: "bytes \<Rightarrow> nat \<Rightarrow> mfail + bytes \<times> nat" where
  "read_field payload p = bindE (read_len payload p) (read_bytes payload)"

definition parse_obligation :: "bytes \<Rightarrow> nat \<Rightarrow> mfail + obligation option" where
  "parse_obligation data off =
    (if length data < off + 2 then Inr None
     else bindE (m_u16 data off) (\<lambda>n.
       let id_len = unat n in
       if VM_MAX_ID_LEN < id_len then Inr None
       else (let id_start = off + 2; id_end = id_start + id_len in
         if length data < id_end + 8 + 1 + 1 + 32 then Inr None
         else
           bindE (m_u64 data id_end) (\<lambda>id_hash.
           bindE (m_u8 data (id_end + 8)) (\<lambda>status.
           bindE (m_u8 data (id_end + 9)) (\<lambda>trust.
           bindE (m_slice data (id_end + 10) 32) (\<lambda>stmt.
           bindE (m_slice data id_start id_len) (\<lambda>id.
           Inr (Some \<lparr>ob_id = id, ob_id_hash = id_hash, ob_status = status, ob_trust = trust,
                  ob_stmt_hash = stmt\<rparr>)))))))))"

definition next_obligation_offset :: "bytes \<Rightarrow> nat \<Rightarrow> mfail + nat option" where
  "next_obligation_offset data off =
    (if length data < off + 2 then Inr None
     else bindE (m_u16 data off) (\<lambda>n.
       let total_len = 2 + unat n + 8 + 1 + 1 + 32 in
       if length data - off < total_len then Inr None else Inr (Some (off + total_len))))"

definition ok_or_6500 :: "mfail + 'a option \<Rightarrow> mfail + 'a" where
  "ok_or_6500 r = bindE r (\<lambda>x. case x of None \<Rightarrow> merr | Some y \<Rightarrow> Inr y)"

text \<open>The walk over the entries: closed sets, order, bounds. The result is the offset
  behind the last entry.\<close>

fun walk_entries :: "nat \<Rightarrow> bytes \<Rightarrow> nat \<Rightarrow> bytes option \<Rightarrow> mfail + nat" where
  "walk_entries 0 payload off prev = Inr off"
| "walk_entries (Suc n) payload off prev =
    bindE (ok_or_6500 (parse_obligation payload off)) (\<lambda>e.
    if VM_STATUS_ASSUMED < ob_status e \<or> VM_TRUST_PROOF < ob_trust e then merr
    else if (case prev of Some q \<Rightarrow> ob_id e < q | None \<Rightarrow> False) then merr
    else bindE (ok_or_6500 (next_obligation_offset payload off)) (\<lambda>off'.
      walk_entries n payload off' (Some (ob_id e))))"

definition scan_payload :: "nat \<Rightarrow> bytes \<Rightarrow> mfail + verify_manifest" where
  "scan_payload start payload =
    bindE (read_field payload 0) (\<lambda>(semantics, p).
    bindE (read_field payload p) (\<lambda>(stmt, p).
    bindE (read_field payload p) (\<lambda>(target, p).
    bindE (read_field payload p) (\<lambda>(model, p).
    if length payload < p + 1 then merr else
    bindE (m_u8 payload p) (\<lambda>policy.
    let p = p + 1 in
    if length payload < p + 1 then merr else
    bindE (m_u8 payload p) (\<lambda>certifier_class.
    let p = p + 1 in
    bindE (read_field payload p) (\<lambda>(certifier_name, p).
    bindE (read_field payload p) (\<lambda>(certifier_recognition, p).
    if length payload < p + 2 then merr else
    bindE (m_u16 payload p) (\<lambda>ratio.
    let p = p + 2 in
    if length payload < p + 4 then merr else
    bindE (m_u32 payload p) (\<lambda>count.
    let p = p + 4 in
    if unat VM_MAX_COUNT < unat count then merr else
    if length payload < p + 16 then merr else
    bindE (m_u32 payload p) (\<lambda>c0.
    bindE (m_u32 payload (p + 4)) (\<lambda>c1.
    bindE (m_u32 payload (p + 8)) (\<lambda>c2.
    bindE (m_u32 payload (p + 12)) (\<lambda>c3.
    let p = p + 16 in
    if VM_POLICY_PROVEN < policy \<or> VM_CERTIFIER_PORT < certifier_class then merr else
    bindE (walk_entries (unat count) payload p None) (\<lambda>off.
    if length payload < off + 32 then merr else
    bindE (m_slice payload off 32) (\<lambda>digest.
    Inr \<lparr>vm_semantics = semantics, vm_stmt = stmt, vm_target = target, vm_model = model,
         vm_policy = policy, vm_certifier_class = certifier_class,
         vm_certifier_name = certifier_name, vm_certifier_recognition = certifier_recognition,
         vm_ratio = ratio, vm_count = unat count, vm_counts = [c0, c1, c2, c3],
         vm_start = start + p, vm_end = start + off, vm_digest = digest\<rparr>))))))))))))))))"

definition scan_verify_manifest :: "bytes \<Rightarrow> mfail + verify_manifest option" where
  "scan_verify_manifest data =
    (let n = length data in
     if n < 8 then Inr None
     else bindE (m_u32 data (n - 4)) (\<lambda>tag.
       if tag \<noteq> VM_TAG then Inr None
       else bindE (m_u32 data (n - 8)) (\<lambda>sz.
         let size = unat sz in
         if unat VM_MAX_RECORD < size then merr
         else if n < size + 8 then merr
         else (let start = n - 8 - size in
           bindE (scan_payload start (slice data start size)) (\<lambda>vm. Inr (Some vm))))))"

text \<open>The offset after \<open>k\<close> entries, \<open>None\<close> past the end.\<close>

fun skip_obligations :: "nat \<Rightarrow> bytes \<Rightarrow> nat \<Rightarrow> mfail + nat option" where
  "skip_obligations 0 data off = Inr (Some off)"
| "skip_obligations (Suc k) data off =
    bindE (next_obligation_offset data off) (\<lambda>r. case r of
      None \<Rightarrow> Inr None | Some off' \<Rightarrow> skip_obligations k data off')"

definition obligation_at :: "verify_manifest \<Rightarrow> bytes \<Rightarrow> nat \<Rightarrow> mfail + obligation option" where
  "obligation_at vm data i =
    (if vm_count vm \<le> i then Inr None
     else bindE (skip_obligations i data (vm_start vm)) (\<lambda>r. case r of
       None \<Rightarrow> Inr None | Some off \<Rightarrow> parse_obligation data off))"

function find_loop :: "(nat \<Rightarrow> mfail + obligation option) \<Rightarrow> bytes \<Rightarrow> nat \<Rightarrow> nat \<Rightarrow> mfail + nat option" where
  "find_loop read k lo hi =
    (if lo < hi then
       (let mid = lo + (hi - lo) div 2 in
        bindE (read mid) (\<lambda>r. case r of
          None \<Rightarrow> Inr None
        | Some e \<Rightarrow>
            if ob_id e < k then find_loop read k (mid + 1) hi
            else if k < ob_id e then find_loop read k lo mid
            else Inr (Some mid)))
     else Inr None)"
  by pat_completeness auto
termination by (relation "measure (\<lambda>(_, _, lo, hi). hi - lo)") auto

declare find_loop.simps [simp del]

definition find_obligation :: "verify_manifest \<Rightarrow> bytes \<Rightarrow> bytes \<Rightarrow> mfail + nat option" where
  "find_obligation vm data k = find_loop (obligation_at vm data) k 0 (vm_count vm)"

section \<open>Writing\<close>

record manifest_spec =
  sp_semantics :: bytes
  sp_stmt :: bytes
  sp_target :: bytes
  sp_model :: bytes
  sp_policy :: u8
  sp_certifier_class :: u8
  sp_certifier_name :: bytes
  sp_certifier_recognition :: bytes
  sp_ratio :: u16
  sp_counts :: "u32 list"
  sp_obligations :: "obligation list"

definition push_len_bytes :: "bytes \<Rightarrow> string + bytes" where
  "push_len_bytes b =
    (if 65535 < length b then Inl ''verify_manifest: field exceeds 64 KiB''
     else Inr (to_le (word_of_nat (length b) :: u16) @ b))"

definition encode_obligation :: "obligation \<Rightarrow> string + bytes" where
  "encode_obligation ob =
    (if VM_MAX_ID_LEN < length (ob_id ob) then Inl ''verify_manifest: obligation id exceeds 512 B''
     else if VM_STATUS_ASSUMED < ob_status ob \<or> VM_TRUST_PROOF < ob_trust ob
       then Inl ''verify_manifest: obligation status/trust out of the closed set''
     else bindE (push_len_bytes (ob_id ob)) (\<lambda>b.
       Inr (b @ to_le (ob_id_hash ob) @ [ob_status ob] @ [ob_trust ob] @ ob_stmt_hash ob)))"

fun encode_region :: "obligation list \<Rightarrow> string + bytes" where
  "encode_region [] = Inr []"
| "encode_region (ob # obs) =
    bindE (encode_obligation ob) (\<lambda>b. bindE (encode_region obs) (\<lambda>bs. Inr (b @ bs)))"

definition encode_verify_manifest :: "(bytes \<Rightarrow> bytes) \<Rightarrow> manifest_spec \<Rightarrow> string + bytes" where
  "encode_verify_manifest sha spec =
    (if VM_POLICY_PROVEN < sp_policy spec \<or> VM_CERTIFIER_PORT < sp_certifier_class spec
       then Inl ''verify_manifest: policy/certifier class out of the closed set''
     else if unat VM_MAX_COUNT < length (sp_obligations spec)
       then Inl ''verify_manifest: obligation count exceeds the cap''
     else (let obs = sort_key ob_id (sp_obligations spec) in
       bindE (encode_region obs) (\<lambda>region.
       bindE (push_len_bytes (sp_semantics spec)) (\<lambda>f1.
       bindE (push_len_bytes (sp_stmt spec)) (\<lambda>f2.
       bindE (push_len_bytes (sp_target spec)) (\<lambda>f3.
       bindE (push_len_bytes (sp_model spec)) (\<lambda>f4.
       bindE (push_len_bytes (sp_certifier_name spec)) (\<lambda>f5.
       bindE (push_len_bytes (sp_certifier_recognition spec)) (\<lambda>f6.
       let payload = f1 @ f2 @ f3 @ f4 @ [sp_policy spec] @ [sp_certifier_class spec] @ f5 @ f6
             @ to_le (sp_ratio spec) @ to_le (word_of_nat (length obs) :: u32)
             @ to_le (sp_counts spec ! 0) @ to_le (sp_counts spec ! 1)
             @ to_le (sp_counts spec ! 2) @ to_le (sp_counts spec ! 3)
             @ region @ sha region in
       if VM_MAX_RECORD < word_of_nat (length payload)
       then Inl ''verify_manifest: record exceeds the 4 MiB cap''
       else Inr (payload @ to_le (word_of_nat (length payload) :: u32) @ to_le VM_TAG))))))))))"

end
