(* ===== verification/Container.thy ===== *)
theory Container
  imports Reloc "HOL-Library.Multiset"
begin

text \<open>
  The container reader of crates/lmod/src/validate.rs: \<open>Container::parse\<close> with its
  range, trailer and overlap checks, the insertion sort of the ranges, the slice
  accessors (a slice out of range is \<open>None\<close>, a panic) and the relocation iterator.
  The largest \<open>usize\<close> of the device is the argument \<open>umax\<close>; every error is the one
  code 5201.
\<close>

section \<open>Parsing\<close>

definition BAD_CONTAINER :: u32 where "BAD_CONTAINER = 5201"

record container =
  c_data :: bytes
  c_hdr :: lmod_header

definition check_range :: "nat \<Rightarrow> u32 \<Rightarrow> u32 \<Rightarrow> u32 + unit" where
  "check_range tot off n =
    (if n = 0 then Inr ()
     else (case checked_add_u32 off n of
        None \<Rightarrow> Inl BAD_CONTAINER
      | Some e \<Rightarrow>
          if tot < unat e then Inl BAD_CONTAINER
          else if off < HEADER_SIZE then Inl BAD_CONTAINER else Inr ()))"

text \<open>The relocation table and the trailer: \<open>usize\<close> arithmetic, skipped when empty.\<close>

definition check_bytes :: "nat \<Rightarrow> nat \<Rightarrow> u32 \<Rightarrow> nat \<Rightarrow> u32 + unit" where
  "check_bytes umax tot off n =
    (if n = 0 then Inr ()
     else if umax < unat off + n then Inl BAD_CONTAINER
     else if tot < unat off + n then Inl BAD_CONTAINER
     else if off < HEADER_SIZE then Inl BAD_CONTAINER else Inr ())"

definition ranges_of :: "lmod_header \<Rightarrow> nat \<Rightarrow> (u32 \<times> u32) list" where
  "ranges_of h reloc_bytes =
    [(0, HEADER_SIZE),
     (h_modinfo_off h, saturating_add_u32 (h_modinfo_off h) (h_modinfo_len h)),
     (h_code_off h, saturating_add_u32 (h_code_off h) (h_code_len h)),
     (h_rodata_off h, saturating_add_u32 (h_rodata_off h) (h_rodata_len h)),
     (h_data_off h, saturating_add_u32 (h_data_off h) (h_data_len h)),
     (h_reloc_off h, saturating_add_u32 (h_reloc_off h) (word_of_nat reloc_bytes))]"

text \<open>The inner loop of the insertion sort moves the entry at index \<open>j\<close> down.\<close>

fun sift :: "nat \<Rightarrow> (u32 \<times> u32) list \<Rightarrow> (u32 \<times> u32) list" where
  "sift 0 rs = rs"
| "sift (Suc j) rs =
    (if fst (rs ! Suc j) < fst (rs ! j)
     then sift j (rs[j := rs ! Suc j, Suc j := rs ! j]) else rs)"

definition sort_ranges :: "(u32 \<times> u32) list \<Rightarrow> (u32 \<times> u32) list" where
  "sort_ranges rs = fold sift [1..<length rs] rs"

fun windows_ok :: "(u32 \<times> u32) list \<Rightarrow> bool" where
  "windows_ok (a # b # rs) =
    (\<not> (fst b < snd a \<and> snd a \<noteq> 0 \<and> fst b \<noteq> 0) \<and> windows_ok (b # rs))"
| "windows_ok _ = True"

definition parse_container :: "nat \<Rightarrow> bytes \<Rightarrow> u32 + container" where
  "parse_container umax data =
    (if length data < unat HEADER_SIZE then Inl BAD_CONTAINER
     else (case decode_header data of
       None \<Rightarrow> Inl BAD_CONTAINER
     | Some hdr \<Rightarrow>
         if h_magic hdr \<noteq> LMOD_MAGIC then Inl BAD_CONTAINER
         else if h_format_ver hdr \<noteq> LMOD_FORMAT_VER then Inl BAD_CONTAINER
         else (let tot = unat (h_total_len hdr) in
           if tot \<noteq> length data then Inl BAD_CONTAINER
           else
             bindE (check_range tot (h_modinfo_off hdr) (h_modinfo_len hdr)) (\<lambda>_.
             bindE (check_range tot (h_code_off hdr) (h_code_len hdr)) (\<lambda>_.
             bindE (check_range tot (h_rodata_off hdr) (h_rodata_len hdr)) (\<lambda>_.
             bindE (check_range tot (h_data_off hdr) (h_data_len hdr)) (\<lambda>_.
             let reloc_bytes = unat (h_reloc_count hdr) * unat RELOC_ENTRY_SIZE in
             if umax < reloc_bytes then Inl BAD_CONTAINER
             else
               bindE (check_bytes umax tot (h_reloc_off hdr) reloc_bytes) (\<lambda>_.
               bindE (check_bytes umax tot (h_sig_off hdr) (unat (h_sig_len hdr))) (\<lambda>_.
               if \<not> windows_ok (sort_ranges (ranges_of hdr reloc_bytes)) then Inl BAD_CONTAINER
               else if 0 < reloc_bytes \<and> tot < unat (h_reloc_off hdr) + reloc_bytes
               then Inl BAD_CONTAINER
               else Inr \<lparr>c_data = data, c_hdr = hdr\<rparr>)))))))))"

section \<open>Accessors\<close>

definition section_slice :: "container \<Rightarrow> u32 \<Rightarrow> u32 \<Rightarrow> bytes option" where
  "section_slice c off n = (if n = 0 then Some [] else read_at (c_data c) (unat off) (unat n))"

definition c_modinfo :: "container \<Rightarrow> bytes option" where
  "c_modinfo c = section_slice c (h_modinfo_off (c_hdr c)) (h_modinfo_len (c_hdr c))"
definition c_code :: "container \<Rightarrow> bytes option" where
  "c_code c = section_slice c (h_code_off (c_hdr c)) (h_code_len (c_hdr c))"
definition c_rodata :: "container \<Rightarrow> bytes option" where
  "c_rodata c = section_slice c (h_rodata_off (c_hdr c)) (h_rodata_len (c_hdr c))"
definition c_data_section :: "container \<Rightarrow> bytes option" where
  "c_data_section c = section_slice c (h_data_off (c_hdr c)) (h_data_len (c_hdr c))"

definition reloc_entry_at :: "container \<Rightarrow> u32 \<Rightarrow> reloc_entry option" where
  "reloc_entry_at c i =
    (if h_reloc_count (c_hdr c) \<le> i then None
     else decode_entry (c_data c)
            (unat (h_reloc_off (c_hdr c)) + unat i * unat RELOC_ENTRY_SIZE))"

definition reloc_raw :: "container \<Rightarrow> bytes option" where
  "reloc_raw c =
    (let n = unat (h_reloc_count (c_hdr c)) * unat RELOC_ENTRY_SIZE in
     if n = 0 then Some [] else read_at (c_data c) (unat (h_reloc_off (c_hdr c))) n)"

text \<open>\<open>RelocIter::next\<close> and the list it yields, with the number of calls as fuel.\<close>

definition reloc_next :: "container \<Rightarrow> u32 \<Rightarrow> reloc_entry option \<times> u32" where
  "reloc_next c i = (case reloc_entry_at c i of None \<Rightarrow> (None, i) | Some e \<Rightarrow> (Some e, i + 1))"

fun reloc_collect :: "container \<Rightarrow> nat \<Rightarrow> u32 \<Rightarrow> reloc_entry list" where
  "reloc_collect c 0 i = []"
| "reloc_collect c (Suc n) i =
    (case reloc_next c i of (None, _) \<Rightarrow> [] | (Some e, i') \<Rightarrow> e # reloc_collect c n i')"

section \<open>The sort\<close>

lemma sift_length [simp]: "length (sift j rs) = length rs"
  by (induction j rs rule: sift.induct) auto

lemma sift_mset: "j < length rs \<Longrightarrow> mset (sift j rs) = mset rs"
proof (induction j rs rule: sift.induct)
  case (2 j rs)
  have "mset (rs[j := rs ! Suc j, Suc j := rs ! j]) = mset rs"
    using 2(2) by (simp add: mset_swap)
  then show ?case using 2 by simp
qed simp

text \<open>Sifting the entry at \<open>j\<close> into a sorted prefix \<open>0..<j\<close> makes the prefix up to
  \<open>j\<close> sorted and leaves the rest.\<close>

definition sorted_upto :: "nat \<Rightarrow> (u32 \<times> u32) list \<Rightarrow> bool" where
  "sorted_upto n rs \<longleftrightarrow> (\<forall>i k. i < k \<and> k < n \<longrightarrow> fst (rs ! i) \<le> fst (rs ! k))"

text \<open>Strengthened for the induction: every entry of the prefix but the sifted one is
  in order.\<close>

lemma sift_sorted_aux:
  assumes "j < m" "m \<le> length rs"
    and "\<And>i k. i < k \<Longrightarrow> k < m \<Longrightarrow> k \<noteq> j \<Longrightarrow> fst (rs ! i) \<le> fst (rs ! k)"
  shows "sorted_upto m (sift j rs)"
  using assms
proof (induction j rs rule: sift.induct)
  case (2 j rs)
  show ?case
  proof (cases "fst (rs ! Suc j) < fst (rs ! j)")
    case True
    let ?rs = "rs[j := rs ! Suc j, Suc j := rs ! j]"
    have "fst (?rs ! i) \<le> fst (?rs ! k)" if "i < k" "k < m" "k \<noteq> j" for i k
    proof (cases "k = Suc j")
      case True
      then show ?thesis
        using that 2(2,3,4) \<open>fst (rs ! Suc j) < fst (rs ! j)\<close>
        by (cases "i = j") (auto simp: nth_list_update less_Suc_eq)
    next
      case False
      have "fst (rs ! x) \<le> fst (rs ! k)" if "x < k" for x
        using 2(4) [of x k] that \<open>k < m\<close> False by simp
      then show ?thesis
        using that False 2(2,3) by (auto simp: nth_list_update)
    qed
    then have "sorted_upto m (sift j ?rs)" using 2(1) [OF True] 2(2,3) by simp
    with True show ?thesis by simp
  next
    case False
    have "fst (rs ! i) \<le> fst (rs ! Suc j)" if "i < Suc j" for i
    proof (cases "i = j")
      case neq: False
      then have "fst (rs ! i) \<le> fst (rs ! j)" using 2(2) 2(4) [of i j] that by simp
      with False show ?thesis by simp
    qed (use False in simp)
    then have "fst (rs ! i) \<le> fst (rs ! k)" if "i < k" "k < m" for i k
      using 2(4) [of i k] that by (cases "k = Suc j") auto
    with False show ?thesis by (simp add: sorted_upto_def)
  qed
qed (auto simp: sorted_upto_def)

lemma sort_fold:
  assumes "m \<le> length rs"
  shows "length (fold sift [1..<m] rs) = length rs \<and> mset (fold sift [1..<m] rs) = mset rs
    \<and> sorted_upto m (fold sift [1..<m] rs)"
  using assms
proof (induction m)
  case (Suc m)
  let ?rs = "fold sift [1..<m] rs"
  have IH: "length ?rs = length rs" "mset ?rs = mset rs" "sorted_upto m ?rs"
    using Suc by simp_all
  show ?case
  proof (cases "1 \<le> m")
    case True
    have "sorted_upto (Suc m) (sift m ?rs)"
      by (rule sift_sorted_aux) (use IH Suc.prems in \<open>auto simp: sorted_upto_def less_Suc_eq\<close>)
    then show ?thesis using True IH Suc.prems sift_mset [of m ?rs] by simp
  next
    case False
    then show ?thesis using IH by (auto simp: sorted_upto_def)
  qed
qed (simp add: sorted_upto_def)

lemma sort_ranges:
  "length (sort_ranges rs) = length rs" "mset (sort_ranges rs) = mset rs"
  "sorted_upto (length rs) (sort_ranges rs)"
  using sort_fold [of "length rs" rs] by (simp_all add: sort_ranges_def)

section \<open>Disjointness\<close>

lemma windows_ok_nth:
  "windows_ok rs \<Longrightarrow> Suc i < length rs \<Longrightarrow> fst (rs ! Suc i) \<noteq> 0 \<Longrightarrow> snd (rs ! i) \<noteq> 0 \<Longrightarrow>
    snd (rs ! i) \<le> fst (rs ! Suc i)"
proof (induction rs arbitrary: i rule: windows_ok.induct)
  case (1 a b rs)
  then show ?case by (cases i) auto
qed auto

text \<open>From an entry with a positive start on, every entry ends before the later ones
  start.\<close>

lemma windows_chain:
  assumes "windows_ok rs" "sorted_upto (length rs) rs" "\<forall>r \<in> set rs. fst r \<le> snd r"
    and "0 < fst (rs ! i)" "i < k" "k < length rs"
  shows "snd (rs ! i) \<le> fst (rs ! k)"
  using assms(5,6)
proof (induction k)
  case (Suc k)
  have pos: "0 < fst (rs ! m)" if "i \<le> m" "m < length rs" for m
  proof (cases "i = m")
    case False
    then have "fst (rs ! i) \<le> fst (rs ! m)" using assms(2) that by (simp add: sorted_upto_def)
    with assms(4) show ?thesis by (rule less_le_trans)
  qed (use assms(4) in simp)
  have le: "fst (rs ! m) \<le> snd (rs ! m)" if "m < length rs" for m
    using assms(3) that by simp
  have "snd (rs ! k) \<noteq> 0" using pos [of k] le [of k] Suc.prems by auto
  then have step: "snd (rs ! k) \<le> fst (rs ! Suc k)"
    using windows_ok_nth [OF assms(1), of k] pos [of "Suc k"] Suc.prems by simp
  show ?case
  proof (cases "i = k")
    case False
    then have "snd (rs ! i) \<le> fst (rs ! k)" using Suc by simp
    also have "fst (rs ! k) \<le> snd (rs ! k)" using le Suc.prems by simp
    also note step
    finally show ?thesis .
  qed (use step in simp)
qed simp

lemma two_of_mset:
  "{#x, y#} \<subseteq># mset rs \<Longrightarrow>
    \<exists>i k. i < k \<and> k < length rs \<and> (rs ! i = x \<and> rs ! k = y \<or> rs ! i = y \<and> rs ! k = x)"
proof (induction rs)
  case (Cons r rs)
  show ?case
  proof (cases "{#x, y#} \<subseteq># mset rs")
    case True
    then obtain i k where "i < k" "k < length rs" "rs ! i = x \<and> rs ! k = y \<or> rs ! i = y \<and> rs ! k = x"
      using Cons.IH by blast
    then show ?thesis by (intro exI [of _ "Suc i"] exI [of _ "Suc k"]) auto
  next
    case False
    have "r = x \<and> y \<in># mset rs \<or> r = y \<and> x \<in># mset rs"
    proof (cases "r = x")
      case True
      then show ?thesis using Cons.prems by simp
    next
      case neq: False
      have "r = y"
      proof (rule ccontr)
        assume "r \<noteq> y"
        have "count {#x, y#} a \<le> count (mset rs) a" for a
          using mset_subset_eq_count [OF Cons.prems, of a] \<open>r \<noteq> y\<close> neq by (cases "a = r") auto
        then have "{#x, y#} \<subseteq># mset rs" by (rule mset_subset_eqI)
        with False show False by simp
      qed
      then show ?thesis using Cons.prems by (simp add: add_mset_commute [of x y])
    qed
    then obtain k where "k < length rs" "r = x \<and> rs ! k = y \<or> r = y \<and> rs ! k = x"
      by (auto simp: in_set_conv_nth)
    then show ?thesis by (intro exI [of _ 0] exI [of _ "Suc k"]) auto
  qed
qed simp

lemma sorted_windows_disjoint:
  assumes "windows_ok (sort_ranges rs)" "\<forall>r \<in> set rs. fst r \<le> snd r"
    and "{#x, y#} \<subseteq># mset rs" "0 < fst x" "0 < fst y"
  shows "snd x \<le> fst y \<or> snd y \<le> fst x"
proof -
  let ?ss = "sort_ranges rs"
  obtain i k where ik: "i < k" "k < length ?ss" "?ss ! i = x \<and> ?ss ! k = y \<or> ?ss ! i = y \<and> ?ss ! k = x"
    using two_of_mset [of x y ?ss] assms(3) sort_ranges(2) by auto
  have "\<forall>r \<in> set ?ss. fst r \<le> snd r"
    using assms(2) sort_ranges(2) by (metis set_mset_mset)
  then have "snd (?ss ! i) \<le> fst (?ss ! k)"
    using windows_chain [OF assms(1) _ _ _ ik(1,2)] sort_ranges(1,3) ik(3) assms(4,5) by auto
  with ik(3) show ?thesis by auto
qed

section \<open>What an accepted container guarantees\<close>

lemma HEADER_SIZE_less:
  "\<not> off < HEADER_SIZE \<longleftrightarrow> 72 \<le> unat off" "HEADER_SIZE \<le> off \<longleftrightarrow> 72 \<le> unat off"
  by (simp_all add: word_less_nat_alt word_le_nat_alt not_less)

lemma check_rangeD:
  assumes "check_range tot off n = Inr u"
  shows "n \<noteq> 0 \<Longrightarrow> unat off + unat n \<le> tot \<and> 72 \<le> unat off"
    "unat (saturating_add_u32 off n) = unat off + unat n"
proof -
  have *: "unat off + unat n \<le> tot \<and> 72 \<le> unat off \<and> unat off + unat n < 4294967296" if nz: "n \<noteq> 0"
  proof -
    obtain e where e: "checked_add_u32 off n = Some e" "unat e \<le> tot" "\<not> off < HEADER_SIZE"
      using assms nz by (auto simp: check_range_def split: option.splits if_splits)
    then have "uint off + uint n < 4294967296" "e = off + n"
      by (simp_all add: checked_add_u32_def split: if_splits)
    then have "unat off + unat n < 4294967296" "unat e = unat off + unat n"
      using uint_sum_u32 unat_add_u32 by blast+
    with e show ?thesis by (simp add: HEADER_SIZE_less)
  qed
  then show "n \<noteq> 0 \<Longrightarrow> unat off + unat n \<le> tot \<and> 72 \<le> unat off" by blast
  show "unat (saturating_add_u32 off n) = unat off + unat n"
    using * unat_u32_less [of off] by (cases "n = 0") (auto simp: unat_saturating_add_u32)
qed

lemma check_bytesD:
  "check_bytes umax tot off n = Inr u \<Longrightarrow> n \<noteq> 0 \<Longrightarrow>
     unat off + n \<le> umax \<and> unat off + n \<le> tot \<and> 72 \<le> unat off"
  by (auto simp: check_bytes_def HEADER_SIZE_less not_less split: if_splits)

lemma parse_containerD:
  assumes "parse_container umax data = Inr c"
  shows "c_data c = data" "decode_header data = Some (c_hdr c)" "72 \<le> length data"
    "h_format_ver (c_hdr c) = LMOD_FORMAT_VER" "unat (h_total_len (c_hdr c)) = length data"
    "check_range (length data) (h_modinfo_off (c_hdr c)) (h_modinfo_len (c_hdr c)) = Inr ()"
    "check_range (length data) (h_code_off (c_hdr c)) (h_code_len (c_hdr c)) = Inr ()"
    "check_range (length data) (h_rodata_off (c_hdr c)) (h_rodata_len (c_hdr c)) = Inr ()"
    "check_range (length data) (h_data_off (c_hdr c)) (h_data_len (c_hdr c)) = Inr ()"
    "check_bytes umax (length data) (h_reloc_off (c_hdr c)) (unat (h_reloc_count (c_hdr c)) * 16) = Inr ()"
    "check_bytes umax (length data) (h_sig_off (c_hdr c)) (unat (h_sig_len (c_hdr c))) = Inr ()"
    "windows_ok (sort_ranges (ranges_of (c_hdr c) (unat (h_reloc_count (c_hdr c)) * 16)))"
  using assms
  by (auto simp: parse_container_def Let_def result_simps split: if_splits option.splits)

text \<open>The byte ranges of the header and the five sections, as start and length.\<close>

definition sections :: "lmod_header \<Rightarrow> (nat \<times> nat) list" where
  "sections h =
    [(0, 72), (unat (h_modinfo_off h), unat (h_modinfo_len h)),
     (unat (h_code_off h), unat (h_code_len h)),
     (unat (h_rodata_off h), unat (h_rodata_len h)),
     (unat (h_data_off h), unat (h_data_len h)),
     (unat (h_reloc_off h), unat (h_reloc_count h) * 16)]"

definition disjoint_ranges :: "nat \<times> nat \<Rightarrow> nat \<times> nat \<Rightarrow> bool" where
  "disjoint_ranges a b \<longleftrightarrow>
     snd a = 0 \<or> snd b = 0 \<or> fst a + snd a \<le> fst b \<or> fst b + snd b \<le> fst a"

lemma parse_ranges:
  assumes "parse_container umax data = Inr c"
  defines "h \<equiv> c_hdr c"
  defines "rs \<equiv> ranges_of h (unat (h_reloc_count h) * 16)"
  shows "map (\<lambda>(a, e). (unat a, unat e)) rs = map (\<lambda>(a, n). (a, a + n)) (sections h)"
    "list_all (\<lambda>(a, n). a + n \<le> length data \<or> n = 0) (sections h)"
    "list_all (\<lambda>(a, n). 72 \<le> a \<or> n = 0) (tl (sections h))"
proof -
  note p = parse_containerD [OF assms(1), folded h_def]
  note r = check_rangeD [OF p(6)] check_rangeD [OF p(7)] check_rangeD [OF p(8)] check_rangeD [OF p(9)]
  note b = check_bytesD [OF p(10)]
  have len: "length data < 4294967296" using unat_u32_less [of "h_total_len h"] p(5) by simp
  have "unat (saturating_add_u32 (h_reloc_off h) (word_of_nat (unat (h_reloc_count h) * 16)))
       = unat (h_reloc_off h) + unat (h_reloc_count h) * 16"
  proof (cases "h_reloc_count h = 0")
    case True
    then show ?thesis using unat_u32_less [of "h_reloc_off h"] by (simp add: unat_saturating_add_u32)
  next
    case False
    then have "unat (h_reloc_count h) \<noteq> 0" by (simp add: unat_eq_0)
    then have lt: "unat (h_reloc_off h) + unat (h_reloc_count h) * 16 < 4294967296"
      using b len by simp
    then have "unat (word_of_nat (unat (h_reloc_count h) * 16) :: u32) = unat (h_reloc_count h) * 16"
      by (simp add: unat_word_ariths)
    with lt show ?thesis by (simp add: unat_saturating_add_u32)
  qed
  then show "map (\<lambda>(a, e). (unat a, unat e)) rs = map (\<lambda>(a, n). (a, a + n)) (sections h)"
    using r(2,4,6,8) by (simp add: rs_def ranges_of_def sections_def)
  show "list_all (\<lambda>(a, n). a + n \<le> length data \<or> n = 0) (sections h)"
    "list_all (\<lambda>(a, n). 72 \<le> a \<or> n = 0) (tl (sections h))"
    using r(1,3,5,7) b p(3) by (auto simp: sections_def unat_eq_0)
qed

lemma pair_subset_mset:
  "i < k \<Longrightarrow> k < length xs \<Longrightarrow> {#xs ! i, xs ! k#} \<subseteq># mset xs"
proof (induction xs arbitrary: i k)
  case (Cons x xs)
  show ?case
  proof (cases i)
    case 0
    then show ?thesis using Cons.prems by (cases k) auto
  next
    case (Suc j)
    then obtain m where m: "k = Suc m" "j < m" "m < length xs" using Cons.prems by (cases k) auto
    have "{#xs ! j, xs ! m#} \<subseteq># mset xs" by (rule Cons.IH [OF m(2,3)])
    also have "mset xs \<subseteq># mset (x # xs)" by simp
    finally show ?thesis by (simp add: Suc m(1))
  qed
qed simp

lemma parse_disjoint_aux:
  assumes "parse_container umax data = Inr c" "i < k" "k < 6"
  shows "disjoint_ranges (sections (c_hdr c) ! i) (sections (c_hdr c) ! k)"
proof (cases "snd (sections (c_hdr c) ! i) = 0 \<or> snd (sections (c_hdr c) ! k) = 0")
  case False
  define h where "h = c_hdr c"
  define rs where "rs = ranges_of h (unat (h_reloc_count h) * 16)"
  note pr = parse_ranges [OF assms(1), folded h_def, folded rs_def]
  have len: "length rs = 6" "length (sections h) = 6" by (simp_all add: rs_def ranges_of_def sections_def)
  have conv: "unat (fst (rs ! m)) = fst (sections h ! m)"
    "unat (snd (rs ! m)) = fst (sections h ! m) + snd (sections h ! m)" if "m < 6" for m
    using arg_cong [OF pr(1), of "\<lambda>xs. xs ! m"] that len by (auto simp: case_prod_beta prod_eq_iff)
  have start: "72 \<le> fst (sections h ! m)" if "0 < m" "m < 6" "snd (sections h ! m) \<noteq> 0" for m
    using pr(3) that len by (cases m) (auto simp: list_all_length nth_tl case_prod_beta)
  show ?thesis
  proof (cases i)
    case 0
    then have "sections h ! i = (0, 72)" by (simp add: sections_def)
    then show ?thesis using start [of k] assms(2,3) False by (auto simp: disjoint_ranges_def h_def)
  next
    case (Suc _)
    have pos: "0 < fst (rs ! i)" "0 < fst (rs ! k)"
      using conv(1) [of i] conv(1) [of k] start [of i] start [of k] assms(2,3) False Suc
      by (auto simp: h_def word_less_nat_alt)
    have le: "\<forall>r \<in> set rs. fst r \<le> snd r"
    proof
      fix r assume "r \<in> set rs"
      then obtain m where "m < 6" "r = rs ! m" using len by (metis in_set_conv_nth)
      then show "fst r \<le> snd r" using conv [of m] by (simp add: word_le_nat_alt)
    qed
    have w: "windows_ok (sort_ranges rs)"
      using parse_containerD(12) [OF assms(1)] by (simp add: rs_def h_def)
    have "snd (rs ! i) \<le> fst (rs ! k) \<or> snd (rs ! k) \<le> fst (rs ! i)"
      using sorted_windows_disjoint [OF w le _ pos] pair_subset_mset [OF assms(2), of rs] assms(3) len
      by auto
    then show ?thesis
      using conv [of i] conv [of k] assms(2,3)
      by (auto simp: disjoint_ranges_def h_def word_le_nat_alt)
  qed
qed (auto simp: disjoint_ranges_def)

section \<open>Laid-out containers are accepted\<close>

lemma sift_sorted_id:
  "sorted_upto (length rs) rs \<Longrightarrow> Suc j < length rs \<or> j < length rs \<Longrightarrow> sift j rs = rs"
proof (cases j)
  case (Suc m)
  moreover assume "sorted_upto (length rs) rs" "Suc j < length rs \<or> j < length rs"
  ultimately have "fst (rs ! m) \<le> fst (rs ! Suc m)" by (auto simp: sorted_upto_def)
  then show ?thesis by (simp add: Suc leD)
qed simp

lemma sort_ranges_id:
  assumes "sorted_upto (length rs) rs"
  shows "sort_ranges rs = rs"
proof -
  have *: "fold sift js rs = rs" if "set js \<subseteq> {..<length rs}" for js
    using that sift_sorted_id [OF assms] by (induction js) auto
  show ?thesis unfolding sort_ranges_def by (rule *) auto
qed

lemma check_range_ok:
  assumes "unat off + unat n \<le> tot" "tot < 4294967296" "72 \<le> unat off"
  shows "check_range tot off n = Inr ()"
proof -
  have "unat off + unat n < 4294967296" using assms by simp
  then have "uint off + uint n < 4294967296" "unat (off + n) = unat off + unat n"
    using uint_sum_u32 unat_add_u32 by blast+
  then show ?thesis using assms
    by (simp add: check_range_def checked_add_u32_def HEADER_SIZE_less word_less_nat_alt)
qed

lemma check_bytes_ok:
  "unat off + n \<le> tot \<Longrightarrow> tot \<le> umax \<Longrightarrow> 72 \<le> unat off \<Longrightarrow> check_bytes umax tot off n = Inr ()"
  by (simp add: check_bytes_def word_less_nat_alt)

lemma windows_ok_ordered:
  "(\<And>i. Suc i < length rs \<Longrightarrow> snd (rs ! i) \<le> fst (rs ! Suc i)) \<Longrightarrow> windows_ok rs"
proof (induction rs rule: windows_ok.induct)
  case (1 a b rs)
  have "snd a \<le> fst b" using 1(2) [of 0] by simp
  moreover have "windows_ok (b # rs)"
    by (rule 1(1)) (use 1(2) [of "Suc i" for i] in auto)
  ultimately show ?case by auto
qed simp_all

lemma layout_ranges:
  assumes "layout_ok h"
  shows "windows_ok (sort_ranges (ranges_of h (unat (h_reloc_count h) * 16)))"
proof -
  let ?e = "\<lambda>off n. saturating_add_u32 off n"
  let ?rb = "word_of_nat (unat (h_reloc_count h) * 16) :: u32"
  have sat: "unat (?e off n) \<le> unat off + unat n" for off n
    by (simp add: unat_saturating_add_u32)
  have rb: "unat ?rb \<le> unat (h_reloc_count h) * 16"
    by (simp add: unat_word_ariths)
  have st: "HEADER_SIZE \<le> h_modinfo_off h"
    "?e (h_modinfo_off h) (h_modinfo_len h) \<le> h_code_off h"
    "?e (h_code_off h) (h_code_len h) \<le> h_rodata_off h"
    "?e (h_rodata_off h) (h_rodata_len h) \<le> h_data_off h"
    "?e (h_data_off h) (h_data_len h) \<le> h_reloc_off h"
    using assms sat [of "h_modinfo_off h" "h_modinfo_len h"] sat [of "h_code_off h" "h_code_len h"]
      sat [of "h_rodata_off h" "h_rodata_len h"] sat [of "h_data_off h" "h_data_len h"]
    by (auto simp: layout_ok_def HEADER_SIZE_less word_le_nat_alt)
  have up: "h_modinfo_off h \<le> h_code_off h" "h_code_off h \<le> h_rodata_off h"
    "h_rodata_off h \<le> h_data_off h" "h_data_off h \<le> h_reloc_off h"
    using assms by (auto simp: layout_ok_def word_le_nat_alt)
  let ?rs = "ranges_of h (unat (h_reloc_count h) * 16)"
  have "sorted_wrt (\<le>) (map fst ?rs)"
    using up by (auto simp: ranges_of_def)
  then have srt: "sorted_upto (length ?rs) ?rs"
    by (auto simp: sorted_upto_def sorted_wrt_iff_nth_less)
  have "windows_ok ?rs" using st by (auto simp: ranges_of_def)
  then show ?thesis by (simp only: sort_ranges_id [OF srt])
qed

lemma parse_laid_out:
  assumes "layout_ok h" "decode_header data = Some h" "h_format_ver h = LMOD_FORMAT_VER"
    and "length data = unat (h_total_len h)" "length data \<le> umax"
  shows "parse_container umax data = Inr \<lparr>c_data = data, c_hdr = h\<rparr>"
proof -
  have len: "length data < 4294967296" using unat_u32_less assms(4) by metis
  have m: "h_magic h = LMOD_MAGIC" "72 \<le> length data"
    using assms(2) by (auto simp: decode_header_def split: if_splits)
  have c: "check_range (length data) (h_modinfo_off h) (h_modinfo_len h) = Inr ()"
    "check_range (length data) (h_code_off h) (h_code_len h) = Inr ()"
    "check_range (length data) (h_rodata_off h) (h_rodata_len h) = Inr ()"
    "check_range (length data) (h_data_off h) (h_data_len h) = Inr ()"
    by (rule check_range_ok; use assms(1,4) len in \<open>simp add: layout_ok_def\<close>)+
  have b: "check_bytes umax (length data) (h_reloc_off h) (unat (h_reloc_count h) * 16) = Inr ()"
    "check_bytes umax (length data) (h_sig_off h) (unat (h_sig_len h)) = Inr ()"
    by (rule check_bytes_ok; use assms(1,4,5) in \<open>simp add: layout_ok_def\<close>)+
  have r: "unat (h_reloc_off h) + unat (h_reloc_count h) * 16 \<le> length data"
    using assms(1,4) by (simp add: layout_ok_def)
  show ?thesis
    using assms(2,3,5) m c b r layout_ranges [OF assms(1)]
    by (simp add: parse_container_def assms(4) [symmetric] Let_def)
qed

section \<open>Accessors and the relocation iterator\<close>

lemma section_slice_total:
  assumes "check_range (length (c_data c)) off n = Inr ()"
  shows "\<exists>bs. section_slice c off n = Some bs \<and> length bs = unat n"
  using check_rangeD(1) [OF assms]
  by (auto simp: section_slice_def read_at_def slice_def)

lemma decode_entry_read:
  assumes "read_at data off (n * 16) = Some buf" "i < n"
  shows "decode_entry data (off + i * 16) = decode_entry buf (i * 16)"
proof -
  have buf: "buf = slice data off (n * 16)" "off + n * 16 \<le> length data"
    using assms(1) by (auto simp: read_at_def split: if_splits)
  have i: "i * 16 + 16 \<le> n * 16" using assms(2) by simp
  have "slice buf (i * 16) 13 = slice data (off + i * 16) 13"
    unfolding buf(1) by (rule slice_slice) (use i in simp)
  moreover have "i * 16 + 16 \<le> length buf" using buf i by (simp add: slice_def)
  ultimately show ?thesis
    using decode_entry_slice [of "i * 16" buf] decode_entry_slice [of "off + i * 16" data] buf(2) i
    by simp
qed

lemma reloc_entry_at_raw:
  assumes "reloc_raw c = Some buf" "unat i < unat (h_reloc_count (c_hdr c))"
  shows "reloc_entry_at c i = decode_entry buf (unat i * 16)"
  using assms decode_entry_read [of "c_data c" "unat (h_reloc_off (c_hdr c))"
      "unat (h_reloc_count (c_hdr c))" buf "unat i"]
  by (simp add: reloc_entry_at_def reloc_raw_def Let_def word_le_nat_alt)

lemma reloc_collect_all:
  assumes "\<And>i. i < unat (h_reloc_count (c_hdr c)) \<Longrightarrow> reloc_entry_at c (word_of_nat i) = Some (f i)"
    and "unat (h_reloc_count (c_hdr c)) < k + n" "k \<le> unat (h_reloc_count (c_hdr c))"
  shows "reloc_collect c n (word_of_nat k) = map f [k..<unat (h_reloc_count (c_hdr c))]"
  using assms(2,3)
proof (induction n arbitrary: k)
  case (Suc n)
  let ?m = "unat (h_reloc_count (c_hdr c))"
  show ?case
  proof (cases "k < ?m")
    case True
    have "(word_of_nat k :: u32) + 1 = word_of_nat (Suc k)" by simp
    then show ?thesis
      using Suc.IH [of "Suc k"] Suc.prems True assms(1) [OF True]
      by (simp add: reloc_next_def upt_conv_Cons add.commute)
  next
    case False
    then have "k = ?m" using Suc.prems by simp
    then have "h_reloc_count (c_hdr c) \<le> word_of_nat k" by simp
    then show ?thesis using False by (simp add: reloc_next_def reloc_entry_at_def)
  qed
qed simp

end
