(* ===== verification/Load.thy ===== *)
theory Load
  imports RelocApply Apertures SymMap VerifyManifest Rederive Container
begin

text \<open>
  \<open>load_module\<close> of crates/loader-core/src/load.rs without the encryption feature. The
  platform is a record of functions on a platform state \<open>'p\<close> (the implementations of
  the LoaderPlatform trait are not part of the crate); running a module's init
  word is the platform action \<open>pf_run_init\<close>. \<open>umax\<close> is the largest \<open>usize\<close>, \<open>arm\<close> says
  that the target is ARM, and \<open>sha\<close> is the SHA-256 function when the verify-manifest
  feature is on. A panic runs the same guards as an error return.
\<close>

section \<open>The environment\<close>

record region =
  rg_addr :: u64
  rg_bytes :: bytes

record 'p platform =
  pf_alloc_exec :: "nat \<Rightarrow> 'p \<Rightarrow> (u32 + region) \<times> 'p"
  pf_alloc_ro :: "nat \<Rightarrow> 'p \<Rightarrow> (u32 + region) \<times> 'p"
  pf_alloc_rw :: "nat \<Rightarrow> 'p \<Rightarrow> (u32 + region) \<times> 'p"
  pf_make_exec :: "region \<Rightarrow> 'p \<Rightarrow> (u32 + region) \<times> 'p"
  pf_verify_sig :: "bytes \<Rightarrow> bytes \<Rightarrow> bool"
  pf_expected_abi_hash :: u64
  pf_ds_remaining_slots :: u32
  pf_platform_hash :: "u64 option"
  pf_aperture_table :: "board_aperture list"
  pf_trust_level :: trust_level
  pf_verify_policy :: verify_policy
  pf_placement_policy :: placement_policy
  pf_run_init :: "nat \<Rightarrow> 'p \<Rightarrow> 'p"

record loaded_set =
  hs_hashes :: "u64 list"
  hs_len :: nat

definition loaded_set_new :: "nat \<Rightarrow> loaded_set" where
  "loaded_set_new n = \<lparr>hs_hashes = replicate n 0, hs_len = 0\<rparr>"

definition loaded_contains :: "u64 \<Rightarrow> loaded_set \<Rightarrow> bool" where
  "loaded_contains h ls = (h \<in> set (take (hs_len ls) (hs_hashes ls)))"

definition loaded_insert :: "u64 \<Rightarrow> loaded_set \<Rightarrow> load_error + loaded_set" where
  "loaded_insert h ls =
    (if loaded_contains h ls then Inl ModuleAlreadyLoaded
     else if hs_len ls < length (hs_hashes ls)
     then Inr (ls\<lparr>hs_hashes := (hs_hashes ls)[hs_len ls := h], hs_len := hs_len ls + 1\<rparr>)
     else Inl ModuleAlreadyLoaded)"

record 'p load_state =
  ld_map :: sym_map
  ld_set :: loaded_set
  ld_reg :: aperture_registry
  ld_plat :: 'p

record loaded_module =
  lm_code :: region
  lm_rodata :: region
  lm_data :: region
  lm_init :: nat
  lm_abi_hash :: u64

definition null_region :: region where "null_region = \<lparr>rg_addr = 0, rg_bytes = []\<rparr>"

definition MOD_INIT_NAME :: bytes where
  "MOD_INIT_NAME = [95, 95, 108, 97, 110, 103, 95, 109, 111, 100, 95, 105, 110, 105, 116]"

definition LMOD_FLAG_SIGNED :: u16 where "LMOD_FLAG_SIGNED = 1"
definition LMOD_FLAG_ENCRYPTED :: u16 where "LMOD_FLAG_ENCRYPTED = 2"

definition module_fn_addr :: "bool \<Rightarrow> nat \<Rightarrow> nat" where
  "module_fn_addr arm base = (if arm then base OR 1 else base)"

text \<open>Steps that use the state: a result and the state after, error or not.\<close>

type_synonym ('p, 'a) load = "'p load_state \<Rightarrow> (lfail + 'a) \<times> 'p load_state"

definition sbind :: "('p, 'a) load \<Rightarrow> ('a \<Rightarrow> ('p, 'b) load) \<Rightarrow> ('p, 'b) load" where
  "sbind m f s = (case m s of (Inl e, s') \<Rightarrow> (Inl e, s') | (Inr x, s') \<Rightarrow> f x s')"

definition spure :: "lfail + 'a \<Rightarrow> ('p, 'a) load" where "spure r s = (r, s)"

definition plat_op :: "('p \<Rightarrow> (u32 + 'a) \<times> 'p) \<Rightarrow> ('p, 'a) load" where
  "plat_op f s = (case f (ld_plat s) of
     (Inl code, p) \<Rightarrow> (lerr (load_error_of_code code), s\<lparr>ld_plat := p\<rparr>)
   | (Inr x, p) \<Rightarrow> (Inr x, s\<lparr>ld_plat := p\<rparr>))"

definition or_panic :: "'a option \<Rightarrow> lfail + 'a" where
  "or_panic x = (case x of None \<Rightarrow> Inl LPanic | Some y \<Rightarrow> Inr y)"

section \<open>Checks before any allocation\<close>

definition verify_signature_if_required :: "lmod_header \<Rightarrow> 'p platform \<Rightarrow> bytes \<Rightarrow> lfail + unit" where
  "verify_signature_if_required hdr p raw =
    (if trust_rank (pf_trust_level p) < trust_rank TOne then Inr ()
     else (let n = signed_region_len hdr in
       if length raw < n then lerr BadContainer
       else (case parse_trailer (drop n raw) of
           None \<Rightarrow> lerr SigInvalid
         | Some t \<Rightarrow>
             if scheme t = SCHEME_NONE then lerr SigInvalid
             else if \<not> pf_verify_sig p (take n raw) (sig_bytes t) then lerr SigInvalid
             else Inr ())))"

definition lift_manifest :: "mfail + 'a \<Rightarrow> lfail + 'a" where
  "lift_manifest r = (case r of Inl (MErr _) \<Rightarrow> lerr VerifyManifestMalformed
     | Inl MPanic \<Rightarrow> Inl LPanic | Inr x \<Rightarrow> Inr x)"

definition validate_verify_manifest :: "(bytes \<Rightarrow> bytes) option \<Rightarrow> bytes \<Rightarrow> 'p platform \<Rightarrow> lfail + unit" where
  "validate_verify_manifest sha modinfo p =
    bindE (lift_manifest (scan_verify_manifest modinfo)) (\<lambda>r. case r of
      None \<Rightarrow> l_guard (pf_verify_policy p = VP_Off) VerifyPolicyReject
    | Some vm \<Rightarrow>
        bindE (case sha of None \<Rightarrow> Inr ()
               | Some f \<Rightarrow> l_guard (f (slice modinfo (vm_start vm) (vm_end vm - vm_start vm)) = vm_digest vm)
                             VerifyManifestDigest) (\<lambda>_.
        l_guard (satisfies (vm_policy vm) (verify_policy_u8 (pf_verify_policy p))) VerifyPolicyReject))"

text \<open>The unchecked \<open>off + 16\<close> wraps on a 32-bit loader.\<close>

definition read_word_meta_stack_bound :: "nat \<Rightarrow> bytes \<Rightarrow> u32 \<Rightarrow> lfail + u32" where
  "read_word_meta_stack_bound umax modinfo value_off =
    (let hi = (unat value_off + 16) mod (umax + 1); lo = (unat value_off + 12) mod (umax + 1) in
     if length modinfo < hi then lerr BadContainer
     else if hi < lo then Inl LPanic
     else Inr (u32_at modinfo lo))"

text \<open>A loop over the exports that stops at the first error; \<open>__lang_mod_init\<close> is skipped.\<close>

fun for_exports :: "(u32 \<Rightarrow> parsed_export outcome) \<Rightarrow> (parsed_export \<Rightarrow> lfail + unit) \<Rightarrow> nat list \<Rightarrow> lfail + unit" where
  "for_exports read f [] = Inr ()"
| "for_exports read f (i # is) =
    bindE (ok_or BadContainer (read (word_of_nat i))) (\<lambda>e.
    if x_name e = MOD_INIT_NAME then for_exports read f is
    else bindE (f e) (\<lambda>_. for_exports read f is))"

definition enforce_stack_bound_budget :: "nat \<Rightarrow> bytes \<Rightarrow> u32 \<Rightarrow> lfail + unit" where
  "enforce_stack_bound_budget umax modinfo remaining =
    (if modinfo = [] then Inr ()
     else bindE (ok_or BadContainer (decode_modinfo umax modinfo)) (\<lambda>mi.
       for_exports (read_export umax modinfo) (\<lambda>e.
         bindE (read_word_meta_stack_bound umax modinfo (x_value_off e)) (\<lambda>b.
         l_guard (b \<le> remaining) StackBoundUnverifiable)) [0..<unat (m_export_count mi)]))"

definition validate_modinfo_for_load :: "nat \<Rightarrow> bytes \<Rightarrow> u32 \<Rightarrow> lfail + unit" where
  "validate_modinfo_for_load umax modinfo remaining =
    (if modinfo = [] then Inr ()
     else bindE (ok_or BadContainer (decode_modinfo umax modinfo)) (\<lambda>mi.
       bindE (l_guard (\<not> has_isr mi) ModuleDeclaresIsr) (\<lambda>_.
       enforce_stack_bound_budget umax modinfo remaining)))"

section \<open>Placement and relocation\<close>

definition copy_all :: "region \<Rightarrow> bytes \<Rightarrow> lfail + region" where
  "copy_all r bs = (if length (rg_bytes r) = length bs then Inr (r\<lparr>rg_bytes := bs\<rparr>) else Inl LPanic)"

definition copy_front :: "region \<Rightarrow> bytes \<Rightarrow> lfail + region" where
  "copy_front r bs = (if length bs \<le> length (rg_bytes r)
     then Inr (r\<lparr>rg_bytes := bs @ drop (length bs) (rg_bytes r)\<rparr>) else Inl LPanic)"

definition alloc_opt :: "('p, region) load \<Rightarrow> nat \<Rightarrow> ('p, region option) load" where
  "alloc_opt m n = (if 0 < n then sbind m (\<lambda>r. spure (Inr (Some r))) else spure (Inr None))"

definition fill_opt :: "region option \<Rightarrow> (region \<Rightarrow> lfail + region) \<Rightarrow> lfail + region option" where
  "fill_opt r f = (case r of None \<Rightarrow> Inr None | Some x \<Rightarrow> bindE (f x) (\<lambda>y. Inr (Some y)))"

definition place_sections :: "nat \<Rightarrow> 'p platform \<Rightarrow> container \<Rightarrow>
    ('p, region \<times> region option \<times> region option) load" where
  "place_sections umax p c =
    (let h = c_hdr c; code_len = unat (h_code_len h); rodata_len = unat (h_rodata_len h);
         data_len = unat (h_data_len h);
         rw_len = (data_len + unat (h_bss_len h)) mod (umax + 1) in
     sbind (plat_op (pf_alloc_exec p code_len)) (\<lambda>code.
     sbind (alloc_opt (plat_op (pf_alloc_ro p rodata_len)) rodata_len) (\<lambda>rodata.
     sbind (alloc_opt (plat_op (pf_alloc_rw p rw_len)) rw_len) (\<lambda>data.
     spure
       (bindE (if 0 < code_len then bindE (or_panic (c_code c)) (copy_all code) else Inr code) (\<lambda>code.
        bindE (fill_opt rodata (\<lambda>r. bindE (or_panic (c_rodata c)) (copy_all r))) (\<lambda>rodata.
        bindE (fill_opt data (\<lambda>r. if 0 < data_len
                 then bindE (or_panic (c_data_section c)) (copy_front r) else Inr r)) (\<lambda>data.
        Inr (code, rodata, data)))))))))"

text \<open>One relocation: the new code bytes.\<close>

definition apply_one :: "u64 \<Rightarrow> sym_map \<Rightarrow> u32 \<Rightarrow> nat \<Rightarrow> u32 list \<Rightarrow> reloc_entry \<Rightarrow> bytes \<Rightarrow> lfail + bytes" where
  "apply_one base m code_off code_len bases e code =
    (if site_off e < code_off then Inr code
     else (let off = unat (site_off e) - unat code_off; need = (if r_kind e = 1 then 8 else 4) in
       if code_len < off + need then lerr BadContainer
       else if r_kind e = reloc_kind_u8 MmioApertureBase then
         (let i = ucast (sym_hash e) :: u16 in
          if APERTURE_CAP \<le> unat i then lerr ApertureUnresolved
          else if bases ! unat i = 0 then lerr ApertureUnresolved
          else if (case read_site_base code off of
                     Some claimed \<Rightarrow> claimed \<noteq> 0 \<and> claimed \<noteq> bases ! unat i | None \<Rightarrow> False)
            then lerr ApertureBaseMismatch
          else (case apply_base code off (bases ! unat i) of
                  None \<Rightarrow> lerr BadContainer | Some code' \<Rightarrow> Inr code'))
       else (case lookup_by_hash (sym_hash e) m of
           None \<Rightarrow> lerr SymbolUnresolved
         | Some s \<Rightarrow>
             (case dispatch_import_reloc base code off (r_kind e) (word_of_nat (se_addr s)) of
                Inl (LErr _) \<Rightarrow> lerr RelocUnsupported
              | Inl LPanic \<Rightarrow> Inl LPanic
              | Inr code' \<Rightarrow> Inr code'))))"

definition apply_import_relocations :: "u64 \<Rightarrow> container \<Rightarrow> sym_map \<Rightarrow> u32 list \<Rightarrow> bytes \<Rightarrow> lfail + bytes" where
  "apply_import_relocations base c m bases code =
    foldE (\<lambda>code i. case reloc_entry_at c (word_of_nat i) of
        None \<Rightarrow> lerr BadContainer
      | Some e \<Rightarrow> apply_one base m (h_code_off (c_hdr c)) (unat (h_code_len (c_hdr c))) bases e code)
      code [0..<unat (h_reloc_count (c_hdr c))]"

section \<open>Execution and registration\<close>

text \<open>The first export with the init name; unreadable exports are skipped.\<close>

fun find_init :: "(u32 \<Rightarrow> parsed_export outcome) \<Rightarrow> nat list \<Rightarrow> lfail + bool" where
  "find_init read [] = Inr False"
| "find_init read (i # is) =
    (case read (word_of_nat i) of
       Panic \<Rightarrow> Inl LPanic
     | Nothing \<Rightarrow> find_init read is
     | Got e \<Rightarrow> if x_name e = MOD_INIT_NAME then Inr True else find_init read is)"

definition lookup_mod_init :: "nat \<Rightarrow> bool \<Rightarrow> bytes \<Rightarrow> nat \<Rightarrow> lfail + nat" where
  "lookup_mod_init umax arm modinfo code_base =
    (if modinfo = [] then Inr 0
     else (case decode_modinfo umax modinfo of
         Panic \<Rightarrow> Inl LPanic
       | Nothing \<Rightarrow> Inr 0
       | Got mi \<Rightarrow>
           bindE (find_init (read_export umax modinfo) [0..<unat (m_export_count mi)]) (\<lambda>found.
           Inr (if found then module_fn_addr arm code_base else 0))))"

definition run_init_if_present :: "nat \<Rightarrow> bool \<Rightarrow> 'p platform \<Rightarrow> bytes \<Rightarrow> nat \<Rightarrow> region \<Rightarrow> ('p, nat) load" where
  "run_init_if_present umax arm p modinfo code_base code =
    sbind (spure (lookup_mod_init umax arm modinfo code_base)) (\<lambda>init_addr.
    if init_addr = 0 then spure (Inr 0)
    else if init_addr < code_base then spure (lerr BadContainer)
    else if length (rg_bytes code) \<le> init_addr - code_base then spure (lerr BadContainer)
    else (\<lambda>s. (Inr init_addr,
            s\<lparr>ld_plat := pf_run_init p (unat (rg_addr code) + (init_addr - code_base)) (ld_plat s)\<rparr>)))"

fun register_loop :: "(u32 \<Rightarrow> parsed_export outcome) \<Rightarrow> nat \<Rightarrow> nat list \<Rightarrow> sym_map \<Rightarrow> (lfail + unit) \<times> sym_map" where
  "register_loop read addr [] m = (Inr (), m)"
| "register_loop read addr (i # is) m =
    (case ok_or BadContainer (read (word_of_nat i)) of
       Inl f \<Rightarrow> (Inl f, m)
     | Inr e \<Rightarrow>
         if x_name e = MOD_INIT_NAME then register_loop read addr is m
         else (case register_with_hash (x_sym_hash e) (x_name e) addr m of
             Inl code \<Rightarrow> (lerr (load_error_of_code code), m)
           | Inr m' \<Rightarrow> register_loop read addr is m'))"

definition register_exports :: "nat \<Rightarrow> bool \<Rightarrow> bytes \<Rightarrow> nat \<Rightarrow> ('p, unit) load" where
  "register_exports umax arm modinfo code_base s =
    (if modinfo = [] then (Inr (), s)
     else (case ok_or BadContainer (decode_modinfo umax modinfo) of
         Inl f \<Rightarrow> (Inl f, s)
       | Inr mi \<Rightarrow>
           (case register_loop (read_export umax modinfo) (module_fn_addr arm code_base)
                   [0..<unat (m_export_count mi)] (ld_map s) of
              (r, m) \<Rightarrow> (r, s\<lparr>ld_map := m\<rparr>))))"

fun arch_slot_bytes :: "arch \<Rightarrow> u32" where
  "arch_slot_bytes X86_64 = 8"
| "arch_slot_bytes ArmThumb = 4"
| "arch_slot_bytes RiscV = 4"

definition verify_trust_two_stack_bounds :: "nat \<Rightarrow> 'p platform \<Rightarrow> bytes \<Rightarrow> bytes \<Rightarrow> lfail + unit" where
  "verify_trust_two_stack_bounds umax p code modinfo =
    (if trust_rank (pf_trust_level p) < trust_rank TTwo then Inr ()
     else (let a = detect_from_code code; rederived = rederive_stack_high code a (arch_slot_bytes a) in
       if modinfo = [] then Inr ()
       else bindE (ok_or BadContainer (decode_modinfo umax modinfo)) (\<lambda>mi.
         for_exports (read_export umax modinfo) (\<lambda>e.
           bindE (read_word_meta_stack_bound umax modinfo (x_value_off e)) (\<lambda>stamped.
           if stamped = TOP_SENTINEL then lerr BadContainer
           else if rederived = TOP_SENTINEL \<and> stamped \<noteq> TOP_SENTINEL then lerr StackBoundUnverifiable
           else l_guard (rederived \<le> stamped) BadContainer)) [0..<unat (m_export_count mi)])))"

text \<open>The table has at most \<open>2 ^ 16 - 1\<close> entries, so the fuel of the caller is never used up.\<close>

fun sharing_loop :: "(u32 \<Rightarrow> res_meta outcome) \<Rightarrow> nat \<Rightarrow> u32 \<Rightarrow> lfail + unit" where
  "sharing_loop read 0 ri = Inr ()"
| "sharing_loop read (Suc n) ri =
    (case read ri of
       Panic \<Rightarrow> Inl LPanic
     | Nothing \<Rightarrow> Inr ()
     | Got rm \<Rightarrow> if sharing_class rm \<noteq> 0 then lerr ResourceSharingMismatch else sharing_loop read n (ri + 1))"

definition check_resource_sharing :: "nat \<Rightarrow> bytes \<Rightarrow> lfail + unit" where
  "check_resource_sharing umax modinfo =
    (if modinfo = [] then Inr () else sharing_loop (read_res_meta umax modinfo) (2 ^ 16) 0)"

section \<open>The loader algorithm\<close>

definition reject_encrypted_without_feature :: "lmod_header \<Rightarrow> lfail + unit" where
  "reject_encrypted_without_feature hdr = l_guard (h_flags hdr AND LMOD_FLAG_ENCRYPTED = 0) EncUnsupported"

text \<open>Everything before the guards: nothing of the state is touched. The result is the
  module identity and the module information.\<close>

definition pre_checks :: "nat \<Rightarrow> (bytes \<Rightarrow> bytes) option \<Rightarrow> 'p platform \<Rightarrow> container \<Rightarrow> loaded_set \<Rightarrow> lfail + u64 \<times> bytes" where
  "pre_checks umax sha p c ls =
    (let hdr = c_hdr c in
     bindE (l_guard (h_abi_hash hdr = pf_expected_abi_hash p) AbiMismatch) (\<lambda>_.
     bindE (or_panic (c_modinfo c)) (\<lambda>modinfo.
     bindE (ok_or BadContainer (decode_modinfo umax modinfo)) (\<lambda>mi.
     let module_id = fnv1a_u64 (mod_info.m_name mi) in
     bindE (l_guard (\<not> loaded_contains module_id ls) ModuleAlreadyLoaded) (\<lambda>_.
     bindE (l_guard (\<not> (h_flags hdr AND LMOD_FLAG_SIGNED \<noteq> 0
                \<and> trust_rank (pf_trust_level p) < trust_rank TOne)) SigInvalid) (\<lambda>_.
     bindE (verify_signature_if_required hdr p (c_data c)) (\<lambda>_.
     bindE (reject_encrypted_without_feature hdr) (\<lambda>_.
     bindE (validate_modinfo_for_load umax modinfo (pf_ds_remaining_slots p)) (\<lambda>_.
     bindE (validate_verify_manifest sha modinfo p) (\<lambda>_.
     Inr (module_id, modinfo)))))))))))"

definition bind_step :: "nat \<Rightarrow> 'p platform \<Rightarrow> bytes \<Rightarrow> u64 \<Rightarrow> ('p, u32 list) load" where
  "bind_step umax p modinfo owner s =
    (case bind_apertures umax modinfo (pf_platform_hash p) (pf_aperture_table p) (ld_reg s) owner of
       (r, reg) \<Rightarrow> (r, s\<lparr>ld_reg := reg\<rparr>))"

definition insert_step :: "u64 \<Rightarrow> ('p, unit) load" where
  "insert_step h s = (case loaded_insert h (ld_set s) of
     Inl e \<Rightarrow> (lerr e, s) | Inr ls \<Rightarrow> (Inr (), s\<lparr>ld_set := ls\<rparr>))"

text \<open>The part under the two rollback guards.\<close>

definition guarded_load :: "nat \<Rightarrow> bool \<Rightarrow> 'p platform \<Rightarrow> container \<Rightarrow> u64 \<Rightarrow> bytes \<Rightarrow> ('p, loaded_module) load" where
  "guarded_load umax arm p c module_id modinfo =
    sbind (bind_step umax p modinfo (h_abi_hash (c_hdr c))) (\<lambda>bases.
    sbind (spure (l_guard (pf_placement_policy p = CopyToRam) BadContainer)) (\<lambda>_.
    sbind (place_sections umax p c) (\<lambda>(code, rodata, data).
    let code_base = unat (rg_addr code) in
    sbind (\<lambda>s. (apply_import_relocations (rg_addr code) c (ld_map s) bases (rg_bytes code), s)) (\<lambda>code_bytes.
    sbind (plat_op (pf_make_exec p (code\<lparr>rg_bytes := code_bytes\<rparr>))) (\<lambda>rx.
    sbind (run_init_if_present umax arm p modinfo code_base rx) (\<lambda>init_addr.
    sbind (register_exports umax arm modinfo code_base) (\<lambda>_.
    sbind (spure (verify_trust_two_stack_bounds umax p (rg_bytes rx) modinfo)) (\<lambda>_.
    sbind (spure (check_resource_sharing umax modinfo)) (\<lambda>_.
    sbind (insert_step module_id) (\<lambda>_.
    spure (Inr \<lparr>lm_code = rx, lm_rodata = (case rodata of Some r \<Rightarrow> r | None \<Rightarrow> null_region),
                lm_data = (case data of Some r \<Rightarrow> r | None \<Rightarrow> null_region),
                lm_init = init_addr, lm_abi_hash = h_abi_hash (c_hdr c)\<rparr>)))))))))))"

text \<open>Leaving the guarded part without a commit restores the symbol map and the registry.\<close>

definition with_guards :: "('p, 'a) load \<Rightarrow> ('p, 'a) load" where
  "with_guards m s = (case m s of
     (Inr x, s') \<Rightarrow> (Inr x, s')
   | (Inl e, s') \<Rightarrow>
       (Inl e, s'\<lparr>ld_map := sym_rollback (sm_len (ld_map s)) (ld_map s'),
                 ld_reg := rollback (reg_mark (ld_reg s)) (ld_reg s')\<rparr>))"

definition load_module :: "nat \<Rightarrow> bool \<Rightarrow> (bytes \<Rightarrow> bytes) option \<Rightarrow> container \<Rightarrow> 'p platform \<Rightarrow> ('p, loaded_module) load" where
  "load_module umax arm sha c p s =
    (case pre_checks umax sha p c (ld_set s) of
       Inl e \<Rightarrow> (Inl e, s)
     | Inr (module_id, modinfo) \<Rightarrow> with_guards (guarded_load umax arm p c module_id modinfo) s)"

end
