(* ===== verification/ModinfoRt.thy ===== *)
theory ModinfoRt
  imports Modinfo
begin

text \<open>
  Round trip of the modinfo codec. The encoder's cursor always stands behind the
  bytes written so far with zeros ahead of it, so its result is the concatenation
  of the pieces; each table is then read back through \<open>byte_codec\<close>.
\<close>

section \<open>The cursor invariant\<close>

definition st_of :: "nat \<Rightarrow> bytes \<Rightarrow> bytes \<Rightarrow> cursor" where
  "st_of tot rest pre = (pre @ replicate (tot - length pre) 0 @ rest, length pre)"

lemma emit_st_of:
  assumes "length pre + length bs \<le> tot"
  shows "emit bs (st_of tot rest pre) = Some (st_of tot rest (pre @ bs))"
  using assms
  by (simp add: emit_def st_of_def write_at_def)

lemma replicate_split: "n \<le> m \<Longrightarrow> replicate m x = replicate n x @ replicate (m - n) x"
  by (simp add: replicate_add [symmetric])

lemma skip_st_of:
  assumes "length pre + n \<le> tot"
  shows "skip n (st_of tot rest pre) = Some (st_of tot rest (pre @ replicate n 0))"
  using assms replicate_split [of n "tot - length pre" "0 :: u8"]
  by (simp add: skip_def st_of_def)

definition zpad :: "bytes \<Rightarrow> bytes" where
  "zpad xs = xs @ replicate (align4_nat (length xs) - length xs) 0"

lemma align4_nat_ge: "n \<le> align4_nat n"
  using round_up_bounds(3) [of n] by (simp add: align4_nat_def)

lemma length_zpad [simp]: "length (zpad xs) = align4_nat (length xs)"
  by (simp add: zpad_def align4_nat_ge)

lemma unat_pad4:
  assumes "n + 3 < 4294967296"
  shows "unat (pad4 (word_of_nat n)) = align4_nat n"
proof -
  have "unat (word_of_nat n :: u32) = n" using assms by (simp add: unat_of_nat take_bit_nat_eq_self)
  then show ?thesis
    using unat_align4 [of "word_of_nat n"] assms
    by (simp add: pad4_def align4_def align4_nat_def)
qed

lemma align_st_of:
  assumes "align4_nat (length pre) \<le> tot" "tot + 3 < 4294967296"
  shows "align_cursor (st_of tot rest pre) = Some (st_of tot rest (zpad pre))"
proof -
  let ?k = "align4_nat (length pre) - length pre"
  have "length pre + 3 < 4294967296" using assms align4_nat_ge [of "length pre"] by simp
  then have "align_cursor (st_of tot rest pre)
      = Some (fst (st_of tot rest pre), align4_nat (length pre))"
    by (simp add: align_cursor_def st_of_def unat_pad4)
  moreover have "replicate (tot - length pre) (0 :: u8)
      = replicate ?k 0 @ replicate (tot - align4_nat (length pre)) 0"
    using replicate_split [of ?k "tot - length pre" "0 :: u8"] assms align4_nat_ge [of "length pre"]
    by simp
  ultimately show ?thesis
    using align4_nat_ge [of "length pre"] by (simp add: st_of_def zpad_def)
qed

lemma emits_st_of:
  assumes "\<And>x pre. x \<in> set xs \<Longrightarrow> length pre + length (enc x) \<le> tot \<Longrightarrow>
      f x (st_of tot rest pre) = Some (st_of tot rest (pre @ enc x))"
    and "length pre + length (concat (map enc xs)) \<le> tot"
  shows "emits f xs (st_of tot rest pre) = Some (st_of tot rest (pre @ concat (map enc xs)))"
  using assms
proof (induction xs arbitrary: pre)
  case (Cons x xs)
  then show ?case by simp
qed (simp add: st_of_def)

section \<open>Names\<close>

definition name_table :: "bytes list \<Rightarrow> bytes" where
  "name_table ns = concat (map (\<lambda>n. n @ [0]) ns)"

definition name_offs :: "nat \<Rightarrow> bytes list \<Rightarrow> u32 list" where
  "name_offs base ns = map (\<lambda>i. word_of_nat (base + length (name_table (take i ns)))) [0..<length ns]"

lemma length_name_offs [simp]: "length (name_offs base ns) = length ns"
  by (simp add: name_offs_def)

lemma name_offs_Cons:
  "name_offs base (n # ns) = word_of_nat base # name_offs (base + length n + 1) ns"
  by (simp add: name_offs_def name_table_def upt_conv_Cons map_Suc_upt [symmetric] add_ac
      del: upt_Suc map_Suc_upt)

lemma emit_names_st_of:
  assumes "length pre + length (name_table ns) \<le> tot"
  shows "emit_names ns (st_of tot rest pre)
       = Some (name_offs (length pre) ns, st_of tot rest (pre @ name_table ns))"
  using assms
proof (induction ns arbitrary: pre)
  case Nil
  then show ?case by (simp add: name_offs_def name_table_def)
next
  case (Cons n ns)
  have len: "length pre + length n + 1 + length (name_table ns) \<le> tot"
    using Cons.prems by (simp add: name_table_def)
  have "emit n (st_of tot rest pre) = Some (st_of tot rest (pre @ n))"
    "emit [0] (st_of tot rest (pre @ n)) = Some (st_of tot rest (pre @ n @ [0]))"
    using emit_st_of [of pre n tot rest] emit_st_of [of "pre @ n" "[0]" tot rest] len by simp_all
  moreover have "emit_names ns (st_of tot rest (pre @ n @ [0]))
      = Some (name_offs (length pre + length n + 1) ns, st_of tot rest (pre @ n @ [0] @ name_table ns))"
    using Cons.IH [of "pre @ n @ [0]"] len by (simp add: add_ac)
  ultimately show ?case
    by (simp add: name_offs_Cons) (simp add: st_of_def name_table_def)
qed

section \<open>Entry codecs\<close>

type_synonym export_row = "u64 \<times> u32 \<times> u32"

definition export_bytes :: "export_row \<Rightarrow> bytes" where
  "export_bytes x = (case x of (h, n, v) \<Rightarrow> to_le h @ to_le n @ to_le v)"

definition export_of_bytes :: "bytes \<Rightarrow> export_row" where
  "export_of_bytes bs = (u64_at bs 0, u32_at bs 8, u32_at bs 12)"

interpretation export: byte_codec export_bytes export_of_bytes 16
  by unfold_locales
    (auto simp: export_bytes_def export_of_bytes_def u32_at_def u64_at_def slice_def
      le32.dec_enc le64.dec_enc)

definition import_bytes :: "import_entry \<times> u32 \<Rightarrow> bytes" where
  "import_bytes x = to_le (i_sym_hash (fst x)) @ to_le (snd x)"

definition word_meta_bytes :: "export_entry \<Rightarrow> bytes" where
  "word_meta_bytes e = to_le (e_sym_hash e) @ to_le (e_effects e) @ to_le (e_requires_caps e)
     @ to_le (e_stack_bound e)"

definition res_bytes :: "res_meta \<Rightarrow> bytes" where
  "res_bytes r = to_le (res_hash r) @ [sharing_class r] @ [0, 0, 0] @ to_le (lock_prim r)"

definition res_of_bytes :: "bytes \<Rightarrow> res_meta" where
  "res_of_bytes bs = \<lparr>res_hash = u64_at bs 0, sharing_class = bs ! 8, lock_prim = u32_at bs 12\<rparr>"

interpretation res: byte_codec res_bytes res_of_bytes 16
  by unfold_locales
    (simp_all add: res_bytes_def res_of_bytes_def u32_at_def u64_at_def slice_def
      le32.dec_enc le64.dec_enc nth_append)

definition aperture_bytes :: "aperture_entry \<Rightarrow> bytes" where
  "aperture_bytes a = to_le (ap_name_hash a) @ to_le (ap_size a) @ to_le (ap_id a)
     @ [ap_access_mask a] @ [0]"

definition aperture_of_bytes :: "bytes \<Rightarrow> aperture_entry" where
  "aperture_of_bytes bs = \<lparr>ap_name_hash = u64_at bs 0, ap_size = u32_at bs 8, ap_id = u16_at bs 12,
     ap_access_mask = bs ! 14\<rparr>"

interpretation aperture: byte_codec aperture_bytes aperture_of_bytes 16
  by unfold_locales
    (simp_all add: aperture_bytes_def aperture_of_bytes_def u16_at_def u32_at_def u64_at_def slice_def
      le16.dec_enc le32.dec_enc le64.dec_enc nth_append)

lemma length_rows [simp]:
  "length (export_bytes x) = 16" "length (import_bytes y) = 12" "length (word_meta_bytes e) = 16"
  "length (res_bytes r) = 16" "length (aperture_bytes a) = 16"
  by (simp_all add: export.enc_length res.enc_length aperture.enc_length import_bytes_def
      word_meta_bytes_def)

lemma length_concat_const:
  "(\<And>x. x \<in> set xs \<Longrightarrow> length (f x) = w) \<Longrightarrow> length (concat (map f xs)) = length xs * w"
  by (induction xs) auto

lemma slice_blocks:
  assumes "\<And>x. x \<in> set xs \<Longrightarrow> length (f x) = w" "i < length xs" "length pre = off"
  shows "slice (pre @ concat (map f xs) @ post) (off + i * w) w = f (xs ! i)"
proof -
  have "slice (concat (map f xs) @ post) (i * w) w = f (xs ! i)"
    using assms(1,2)
  proof (induction xs arbitrary: i)
    case (Cons x xs)
    then show ?case by (cases i) (auto simp: slice_def)
  qed simp
  then show ?thesis by (simp add: slice_def assms(3) [symmetric])
qed

lemma emit_row_st_of:
  "length pre + 16 \<le> tot \<Longrightarrow> emit_export base (i, e, n) (st_of tot rest pre)
     = Some (st_of tot rest (pre @ export_bytes (e_sym_hash e, n, base + word_of_nat i * WORD_META_SIZE)))"
  "length pre + 12 \<le> tot \<Longrightarrow> emit_import y (st_of tot rest pre) = Some (st_of tot rest (pre @ import_bytes y))"
  "length pre + 16 \<le> tot \<Longrightarrow> emit_word_meta e (st_of tot rest pre) = Some (st_of tot rest (pre @ word_meta_bytes e))"
  "length pre + 16 \<le> tot \<Longrightarrow> emit_res_meta r (st_of tot rest pre) = Some (st_of tot rest (pre @ res_bytes r))"
  "length pre + 16 \<le> tot \<Longrightarrow> emit_aperture a (st_of tot rest pre) = Some (st_of tot rest (pre @ aperture_bytes a))"
  by (simp_all add: emit_export_def emit_import_def emit_word_meta_def emit_res_meta_def
      emit_aperture_def emit_st_of export_bytes_def import_bytes_def word_meta_bytes_def
      res_bytes_def aperture_bytes_def split: prod.split)

section \<open>The encoded bytes\<close>

definition hdr_bytes :: "u32 \<Rightarrow> u32 \<Rightarrow> u16 \<Rightarrow> u64 \<Rightarrow> u32 \<Rightarrow> u32 \<Rightarrow> u32 \<Rightarrow> u32 \<Rightarrow> u64 \<Rightarrow> bytes" where
  "hdr_bytes noff nlen flags abi ne ni na nr platform =
     to_le LMOD_MAGIC @ to_le MODINFO_VER @ to_le flags @ to_le abi @ to_le noff @ to_le nlen
     @ to_le ne @ to_le ni @ to_le (ucast na :: u16) @ to_le (ucast nr :: u16) @ to_le platform
     @ replicate 4 0"

lemma length_hdr_bytes [simp]: "length (hdr_bytes noff nlen flags abi ne ni na nr platform) = 48"
  by (simp add: hdr_bytes_def)

lemma emit_header_st_of:
  assumes "48 \<le> tot"
  shows "emit_header flags abi ne ni na nr platform (st_of tot rest [])
       = Some (st_of tot rest (hdr_bytes 0 0 flags abi ne ni na nr platform))"
  using assms
  by (simp add: emit_header_def emit_st_of skip_st_of hdr_bytes_def)

lemma patch_header:
  "write_at 16 (to_le noff) (hdr_bytes a b flags abi ne ni na nr platform @ xs)
     = Some (hdr_bytes noff b flags abi ne ni na nr platform @ xs)"
  "write_at 20 (to_le nlen) (hdr_bytes a b flags abi ne ni na nr platform @ xs)
     = Some (hdr_bytes a nlen flags abi ne ni na nr platform @ xs)"
  by (simp_all add: write_at_def hdr_bytes_def)

text \<open>The header, the module name and the two name tables, each padded.\<close>

definition names_part :: "bytes \<Rightarrow> bytes \<Rightarrow> bytes list \<Rightarrow> bytes list \<Rightarrow> bytes" where
  "names_part h name en inn = zpad (zpad (zpad (h @ name) @ name_table en) @ name_table inn)"

definition enames_start :: "nat \<Rightarrow> nat" where "enames_start n = align4_nat (48 + n)"

definition inames_start :: "nat \<Rightarrow> bytes list \<Rightarrow> nat" where
  "inames_start n en = align4_nat (enames_start n + length (name_table en))"

definition entries_start :: "nat \<Rightarrow> bytes list \<Rightarrow> bytes list \<Rightarrow> nat" where
  "entries_start n en inn = align4_nat (inames_start n en + length (name_table inn))"

lemma length_names_part:
  "length h = 48 \<Longrightarrow> length (names_part h name en inn) = entries_start (length name) en inn"
  by (simp add: names_part_def entries_start_def inames_start_def enames_start_def)

definition export_rows :: "nat \<Rightarrow> u32 \<Rightarrow> export_entry list \<Rightarrow> export_row list" where
  "export_rows base wm exports =
     map (\<lambda>(i, e, n). (e_sym_hash e, n, wm + word_of_nat i * WORD_META_SIZE))
       (enumerate 0 (zip exports (name_offs base (map e_name exports))))"

definition tables_part ::
  "nat \<Rightarrow> nat \<Rightarrow> u32 \<Rightarrow> export_entry list \<Rightarrow> import_entry list \<Rightarrow> res_meta list \<Rightarrow> aperture_entry list
   \<Rightarrow> bytes" where
  "tables_part eb ib wm exports imports res aps =
     concat (map export_bytes (export_rows eb wm exports))
     @ concat (map import_bytes (zip imports (name_offs ib (map i_name imports))))
     @ concat (map word_meta_bytes exports) @ concat (map res_bytes res)
     @ concat (map aperture_bytes aps)"

definition tables_size ::
  "export_entry list \<Rightarrow> import_entry list \<Rightarrow> res_meta list \<Rightarrow> aperture_entry list \<Rightarrow> nat" where
  "tables_size exports imports res aps =
     length exports * 16 + length imports * 12 + length exports * 16 + length res * 16 + length aps * 16"

lemma length_tables_part:
  "length (tables_part eb ib wm exports imports res aps) = tables_size exports imports res aps"
  by (simp add: tables_part_def tables_size_def export_rows_def
      length_concat_const [where w = 16] length_concat_const [where w = 12] del: length_concat)

definition modinfo_length ::
  "bytes \<Rightarrow> export_entry list \<Rightarrow> import_entry list \<Rightarrow> res_meta list \<Rightarrow> aperture_entry list \<Rightarrow> nat" where
  "modinfo_length name exports imports res aps =
     entries_start (length name) (map e_name exports) (map i_name imports)
     + tables_size exports imports res aps"

definition modinfo_bytes ::
  "bytes \<Rightarrow> bytes \<Rightarrow> export_entry list \<Rightarrow> import_entry list \<Rightarrow> res_meta list \<Rightarrow> aperture_entry list \<Rightarrow> bytes" where
  "modinfo_bytes h name exports imports res aps =
     (let en = map e_name exports; inn = map i_name imports; n = length name;
          es = entries_start n en inn;
          wm = word_of_nat es + word_of_nat (length exports) * EXPORT_ENTRY_SIZE
               + word_of_nat (length imports) * IMPORT_ENTRY_SIZE
      in names_part h name en inn
         @ tables_part (enames_start n) (inames_start n en) wm exports imports res aps)"

lemma length_modinfo_bytes:
  "length h = 48 \<Longrightarrow> length (modinfo_bytes h name exports imports res aps)
     = modinfo_length name exports imports res aps"
  by (simp add: modinfo_bytes_def Let_def length_names_part length_tables_part modinfo_length_def)

text \<open>The size the encoder computes.\<close>

lemma align4_nat_le: "align4_nat n \<le> n + 3"
  using round_up_bounds(4) [of n] by (simp add: align4_nat_def)

lemma unat_word_of_nat_u32: "n < 4294967296 \<Longrightarrow> unat (word_of_nat n :: u32) = n"
  by (simp add: unat_of_nat take_bit_nat_eq_self)

lemma pad4_of_nat: "n + 3 < 4294967296 \<Longrightarrow> pad4 (word_of_nat n) = word_of_nat (align4_nat n)"
  using unat_pad4 [of n] align4_nat_le [of n] by (simp add: word_unat_eq_iff unat_word_of_nat_u32)

lemma names_size_eq:
  "names_size ns (word_of_nat m) = word_of_nat (m + length (name_table ns))"
proof (induction ns arbitrary: m)
  case (Cons n ns)
  have "(word_of_nat m :: u32) + (word_of_nat (length n) + 1) = word_of_nat (m + length n + 1)" by simp
  then show ?case
    using Cons.IH [of "m + length n + 1"] by (simp add: names_size_def name_table_def add_ac)
qed (simp add: names_size_def name_table_def)

lemma modinfo_size_eq:
  assumes "modinfo_length name exports imports res aps + 3 < 4294967296"
  shows "modinfo_size name exports imports (word_of_nat (length res)) (word_of_nat (length aps))
       = word_of_nat (modinfo_length name exports imports res aps)"
proof -
  let ?n = "length name" and ?en = "map e_name exports" and ?in = "map i_name imports"
  have e: "entries_start ?n ?en ?in + 3 < 4294967296"
    using assms by (simp add: modinfo_length_def)
  have b: "48 + ?n \<le> enames_start ?n" "enames_start ?n + length (name_table ?en) \<le> inames_start ?n ?en"
    "inames_start ?n ?en + length (name_table ?in) \<le> entries_start ?n ?en ?in"
    by (simp_all add: enames_start_def inames_start_def entries_start_def align4_nat_ge)
  have "pad4 (MODINFO_HEADER_SIZE + word_of_nat ?n) = word_of_nat (enames_start ?n)"
    using pad4_of_nat [of "48 + ?n"] b e by (simp add: MODINFO_HEADER_SIZE_def enames_start_def)
  moreover have "pad4 (names_size ?en (word_of_nat (enames_start ?n))) = word_of_nat (inames_start ?n ?en)"
    unfolding names_size_eq inames_start_def by (rule pad4_of_nat) (use b e in simp)
  moreover have "pad4 (names_size ?in (word_of_nat (inames_start ?n ?en))) = word_of_nat (entries_start ?n ?en ?in)"
    unfolding names_size_eq entries_start_def by (rule pad4_of_nat) (use b e in simp)
  ultimately show ?thesis
    by (simp add: modinfo_size_def Let_def modinfo_length_def tables_size_def EXPORT_ENTRY_SIZE_def
        IMPORT_ENTRY_SIZE_def WORD_META_SIZE_def RES_META_SIZE_def APERTURE_USE_ENTRY_SIZE_def
        mult.commute)
qed

text \<open>The whole encoder.\<close>

definition mi_header ::
  "u32 \<Rightarrow> u32 \<Rightarrow> u16 \<Rightarrow> u64 \<Rightarrow> export_entry list \<Rightarrow> import_entry list \<Rightarrow> res_meta list
   \<Rightarrow> aperture_entry list \<Rightarrow> u64 \<Rightarrow> bytes" where
  "mi_header noff nlen flags abi exports imports res aps platform =
     hdr_bytes noff nlen flags abi (word_of_nat (length exports)) (word_of_nat (length imports))
       (word_of_nat (length aps)) (word_of_nat (length res)) platform"

definition mi_encoded ::
  "bytes \<Rightarrow> export_entry list \<Rightarrow> import_entry list \<Rightarrow> u64 \<Rightarrow> u16 \<Rightarrow> res_meta list \<Rightarrow> u64
   \<Rightarrow> aperture_entry list \<Rightarrow> bytes" where
  "mi_encoded name exports imports abi flags res platform aps =
     modinfo_bytes (mi_header 48 (word_of_nat (length name)) flags abi exports imports res aps platform)
       name exports imports res aps"

lemma encode_into_eq:
  assumes len: "modinfo_length name exports imports res aps + 3 < 4294967296"
    and cap: "length exports \<le> 64" "length imports \<le> 64" "length aps \<le> 8"
    and fits: "modinfo_length name exports imports res aps \<le> length buf"
  shows "encode_into buf name exports imports abi flags res platform aps
       = Some (mi_encoded name exports imports abi flags res platform aps
                 @ drop (modinfo_length name exports imports res aps) buf,
               modinfo_length name exports imports res aps)"
proof -
  define h0 where "h0 = mi_header 0 0 flags abi exports imports res aps platform"
  define tot where "tot = modinfo_length name exports imports res aps"
  define rest where "rest = drop tot buf"
  let ?n = "length name" and ?en = "map e_name exports" and ?in = "map i_name imports"
  let ?es = "entries_start ?n ?en ?in"
  let ?eb = "enames_start ?n" and ?ib = "inames_start ?n ?en"
  let ?ne = "word_of_nat (length exports) :: u32" and ?ni = "word_of_nat (length imports) :: u32"
  let ?wm = "word_of_nat ?es + ?ne * EXPORT_ENTRY_SIZE + ?ni * IMPORT_ENTRY_SIZE"
  let ?S = "st_of tot rest"
  have utot: "unat (modinfo_size name exports imports (word_of_nat (length res)) (word_of_nat (length aps))) = tot"
    using modinfo_size_eq [OF len] len by (simp add: tot_def unat_word_of_nat_u32)
  have ne: "\<not> 64 < ?ne" "\<not> 64 < ?ni"
    using cap by (simp_all add: word_less_nat_alt unat_word_of_nat_u32)
  have clear: "write_at 0 (replicate tot 0) buf = Some (fst (?S []))"
    using fits by (simp add: write_at_def st_of_def rest_def tot_def)
  have S0: "(fst (?S []), 0) = ?S []" by (simp add: st_of_def)
  have es: "?es \<le> tot" "?es + tables_size exports imports res aps = tot"
    by (simp_all add: tot_def modinfo_length_def)
  have b: "48 + ?n \<le> ?eb" "?eb + length (name_table ?en) \<le> ?ib" "?ib + length (name_table ?in) \<le> ?es"
    by (simp_all add: enames_start_def inames_start_def entries_start_def align4_nat_ge)
  have t3: "tot + 3 < 4294967296" using len by (simp add: tot_def)
  let ?p1 = "zpad (h0 @ name)" and ?p2 = "zpad (zpad (h0 @ name) @ name_table ?en)"
  let ?p3 = "names_part h0 name ?en ?in"
  have h0: "length h0 = 48" by (simp add: h0_def mi_header_def)
  have lp: "length ?p1 = ?eb" "length ?p2 = ?ib" "length ?p3 = ?es"
    using length_names_part [OF h0] by (simp_all add: h0 enames_start_def inames_start_def)
  have e1: "emit_header flags abi ?ne ?ni (word_of_nat (length aps)) (word_of_nat (length res)) platform (?S []) = Some (?S h0)"
    unfolding h0_def mi_header_def using b es by (intro emit_header_st_of) simp
  have e2: "emit name (?S h0) = Some (?S (h0 @ name))"
    using b es h0 by (intro emit_st_of) simp
  have e3: "align_cursor (?S (h0 @ name)) = Some (?S ?p1)"
    using b es h0 t3 by (intro align_st_of) (simp_all add: enames_start_def)
  have e4: "emit_names ?en (?S ?p1) = Some (name_offs ?eb ?en, ?S (?p1 @ name_table ?en))"
    using emit_names_st_of [of ?p1 ?en tot rest] b es lp by (simp del: length_zpad)
  have e5: "align_cursor (?S (?p1 @ name_table ?en)) = Some (?S ?p2)"
    using b es h0 t3 by (intro align_st_of) (simp_all add: enames_start_def inames_start_def)
  have e6: "emit_names ?in (?S ?p2) = Some (name_offs ?ib ?in, ?S (?p2 @ name_table ?in))"
    using emit_names_st_of [of ?p2 ?in tot rest] b es lp by (simp del: length_zpad)
  have e7: "align_cursor (?S (?p2 @ name_table ?in)) = Some (?S ?p3)"
    unfolding names_part_def
    using b es h0 t3 by (intro align_st_of) (simp_all add: enames_start_def inames_start_def entries_start_def)
  let ?rows = "export_rows ?eb ?wm exports"
  let ?t1 = "concat (map export_bytes ?rows)" and ?t2 = "concat (map import_bytes (zip imports (name_offs ?ib ?in)))"
  let ?t3 = "concat (map word_meta_bytes exports)" and ?t4 = "concat (map res_bytes res)"
  let ?t5 = "concat (map aperture_bytes aps)"
  have lt: "length ?t1 = length exports * 16" "length ?t2 = length imports * 12"
    "length ?t3 = length exports * 16" "length ?t4 = length res * 16" "length ?t5 = length aps * 16"
    by (simp_all add: export_rows_def length_concat_const [where w = 16] length_concat_const [where w = 12]
        del: length_concat)
  note ts = es(2) [unfolded tables_size_def]
  have e8: "emits (emit_export ?wm) (enumerate 0 (zip exports (name_offs ?eb ?en))) (?S ?p3) = Some (?S (?p3 @ ?t1))"
    unfolding export_rows_def map_map comp_def
    by (rule emits_st_of) (use lp lt ts in \<open>auto simp: emit_row_st_of export_rows_def comp_def split: prod.splits\<close>)
  have e9: "emits emit_import (zip imports (name_offs ?ib ?in)) (?S (?p3 @ ?t1)) = Some (?S (?p3 @ ?t1 @ ?t2))"
    using emits_st_of [where f = emit_import and enc = import_bytes and pre = "?p3 @ ?t1" and tot = tot and rest = rest]
      lp lt ts emit_row_st_of(2) by (simp del: length_concat)
  have e10: "emits emit_word_meta exports (?S (?p3 @ ?t1 @ ?t2)) = Some (?S (?p3 @ ?t1 @ ?t2 @ ?t3))"
    using emits_st_of [where f = emit_word_meta and enc = word_meta_bytes and pre = "?p3 @ ?t1 @ ?t2" and tot = tot and rest = rest]
      lp lt ts emit_row_st_of(3) by (simp del: length_concat)
  have e11: "emits emit_res_meta res (?S (?p3 @ ?t1 @ ?t2 @ ?t3)) = Some (?S (?p3 @ ?t1 @ ?t2 @ ?t3 @ ?t4))"
    using emits_st_of [where f = emit_res_meta and enc = res_bytes and pre = "?p3 @ ?t1 @ ?t2 @ ?t3" and tot = tot and rest = rest]
      lp lt ts emit_row_st_of(4) by (simp del: length_concat)
  have e12: "emits emit_aperture aps (?S (?p3 @ ?t1 @ ?t2 @ ?t3 @ ?t4)) = Some (?S (?p3 @ ?t1 @ ?t2 @ ?t3 @ ?t4 @ ?t5))"
    using emits_st_of [where f = emit_aperture and enc = aperture_bytes and pre = "?p3 @ ?t1 @ ?t2 @ ?t3 @ ?t4" and tot = tot and rest = rest]
      lp lt ts emit_row_st_of(5) by (simp del: length_concat)
  let ?all = "?t1 @ ?t2 @ ?t3 @ ?t4 @ ?t5"
  have full: "?S (?p3 @ ?all) = (?p3 @ ?t1 @ ?t2 @ ?t3 @ ?t4 @ ?t5 @ rest, tot)"
    using lp lt ts by (simp add: st_of_def del: length_concat)
  obtain xs where xs: "?p3 = h0 @ xs" "names_part (mi_header 48 (word_of_nat ?n) flags abi exports imports res aps platform) name ?en ?in
      = mi_header 48 (word_of_nat ?n) flags abi exports imports res aps platform @ xs"
    by (simp add: names_part_def zpad_def h0 mi_header_def)
  have patch: "write_at 16 (to_le (48 :: u32)) (?p3 @ ?all @ rest)
      = Some (mi_header 48 0 flags abi exports imports res aps platform @ xs @ ?all @ rest)"
    "write_at 20 (to_le (word_of_nat ?n :: u32)) (mi_header 48 0 flags abi exports imports res aps platform @ xs @ ?all @ rest)
      = Some (mi_encoded name exports imports abi flags res platform aps @ rest)"
    using xs by (simp_all add: h0_def mi_header_def patch_header mi_encoded_def modinfo_bytes_def
        tables_part_def Let_def)
  have snds: "snd (?S h0) = 48" "snd (?S ?p3) = ?es" using h0 lp by (simp_all add: st_of_def)
  have "\<not> length buf < tot" using fits by (simp add: tot_def)
  then show ?thesis
    unfolding encode_into_def Let_def utot tot_def [symmetric] rest_def [symmetric]
    using cap ne
    by (simp add: clear S0 e1 e2 e3 e4 e5 e6 e7 snds e8 e9 e10 e11 e12 full patch [unfolded append_assoc]
        del: length_zpad)
qed

section \<open>Decoding the encoded bytes\<close>

lemma decode_hdr_bytes:
  assumes "unat noff + unat nlen \<le> length data" "length data \<le> umax"
    and "data = hdr_bytes noff nlen flags abi ne ni na nr platform @ xs"
  shows "decode_modinfo umax data
       = Got \<lparr>m_name = slice data (unat noff) (unat nlen), m_name_off = noff, m_name_len = nlen,
           m_export_count = ne, m_import_count = ni, m_abi_hash = abi, m_flags = flags,
           m_modinfo_ver = MODINFO_VER, m_aperture_count = ucast (ucast na :: u16),
           m_res_meta_count = ucast (ucast nr :: u16), m_platform_hash = platform\<rparr>"
proof -
  have f: "u32_at data 0 = LMOD_MAGIC" "u16_at data 4 = MODINFO_VER" "u16_at data 6 = flags"
    "u64_at data 8 = abi" "u32_at data 16 = noff" "u32_at data 20 = nlen" "u32_at data 24 = ne"
    "u32_at data 28 = ni" "u16_at data 32 = ucast na" "u16_at data 34 = ucast nr"
    "u64_at data 36 = platform"
    by (simp_all add: assms(3) hdr_bytes_def u16_at_def u32_at_def u64_at_def slice_def
        le16.dec_enc le32.dec_enc le64.dec_enc)
  have l: "unat MODINFO_HEADER_SIZE \<le> length data"
    by (simp add: assms(3) MODINFO_HEADER_SIZE_def)
  have "(unat noff + unat nlen) mod (umax + 1) = unat noff + unat nlen" using assms(1,2) by simp
  then show ?thesis using assms(1) l by (simp add: decode_modinfo_def f Let_def)
qed

lemma find_nul_at:
  assumes "\<And>i. i < m \<Longrightarrow> off + i < length data \<and> data ! (off + i) \<noteq> 0"
    and "data ! (off + m) = 0" "m \<le> k"
  shows "find_nul k data off = off + m"
  using assms
proof (induction m arbitrary: off k)
  case 0
  then show ?case by (cases k) simp_all
next
  case (Suc m)
  obtain j where k: "k = Suc j" using Suc.prems(3) by (cases k) auto
  have "find_nul j data (off + 1) = off + 1 + m"
  proof (rule Suc.IH)
    show "off + 1 + i < length data \<and> data ! (off + 1 + i) \<noteq> 0" if "i < m" for i
      using Suc.prems(1) [of "Suc i"] that by simp
  qed (use Suc.prems k in simp_all)
  then show ?case using Suc.prems(1) [of 0] by (simp add: k)
qed

definition no_nul :: "bytes list \<Rightarrow> bool" where "no_nul ns = (\<forall>n \<in> set ns. 0 \<notin> set n)"

lemma skip_names_table:
  assumes "no_nul ns"
  shows "skip_names (length ns) (pre @ name_table ns @ post) (length pre)
       = Some (length pre + length (name_table ns))"
  using assms
proof (induction ns arbitrary: pre)
  case (Cons n ns)
  let ?d = "pre @ name_table (n # ns) @ post"
  have nt: "name_table (n # ns) = n @ [0] @ name_table ns" by (simp add: name_table_def)
  have "find_nul (length ?d) ?d (length pre) = length pre + length n"
  proof (rule find_nul_at)
    show "length pre + i < length ?d \<and> ?d ! (length pre + i) \<noteq> 0" if "i < length n" for i
      using that Cons.prems by (auto simp: no_nul_def nt nth_append in_set_conv_nth)
  qed (simp_all add: nt nth_append)
  moreover have "skip_names (length ns) ?d (length pre + length n + 1)
      = Some (length pre + length n + 1 + length (name_table ns))"
    using Cons.IH [of "pre @ n @ [0]"] Cons.prems by (simp add: no_nul_def nt add_ac)
  ultimately show ?case by (simp add: nt Let_def add_ac)
qed (simp add: name_table_def)

text \<open>The encoded bytes with anything behind them.\<close>

record modinfo_src =
  s_name :: bytes
  s_exports :: "export_entry list"
  s_imports :: "import_entry list"
  s_abi :: u64
  s_flags :: u16
  s_res :: "res_meta list"
  s_platform :: u64
  s_aps :: "aperture_entry list"

definition src_bytes :: "modinfo_src \<Rightarrow> bytes" where
  "src_bytes s = mi_encoded (s_name s) (s_exports s) (s_imports s) (s_abi s) (s_flags s) (s_res s)
     (s_platform s) (s_aps s)"

definition src_length :: "modinfo_src \<Rightarrow> nat" where
  "src_length s = modinfo_length (s_name s) (s_exports s) (s_imports s) (s_res s) (s_aps s)"

definition src_ok :: "modinfo_src \<Rightarrow> bool" where
  "src_ok s \<longleftrightarrow> src_length s + 3 < 2 ^ 32 \<and> length (s_exports s) \<le> 64 \<and> length (s_imports s) \<le> 64
     \<and> length (s_aps s) \<le> 8 \<and> length (s_res s) < 2 ^ 16
     \<and> no_nul (map e_name (s_exports s)) \<and> no_nul (map i_name (s_imports s))"

lemma length_src_bytes: "length (src_bytes s) = src_length s"
  by (simp add: src_bytes_def src_length_def mi_encoded_def length_modinfo_bytes mi_header_def)

abbreviation en_of :: "modinfo_src \<Rightarrow> bytes list" where "en_of s \<equiv> map e_name (s_exports s)"
abbreviation in_of :: "modinfo_src \<Rightarrow> bytes list" where "in_of s \<equiv> map i_name (s_imports s)"
abbreviation es_of :: "modinfo_src \<Rightarrow> nat" where
  "es_of s \<equiv> entries_start (length (s_name s)) (en_of s) (in_of s)"

definition wm_of :: "modinfo_src \<Rightarrow> u32" where
  "wm_of s = word_of_nat (es_of s) + word_of_nat (length (s_exports s)) * EXPORT_ENTRY_SIZE
     + word_of_nat (length (s_imports s)) * IMPORT_ENTRY_SIZE"

definition rows_of :: "modinfo_src \<Rightarrow> export_row list" where
  "rows_of s = export_rows (enames_start (length (s_name s))) (wm_of s) (s_exports s)"

definition hdr_of :: "modinfo_src \<Rightarrow> bytes" where
  "hdr_of s = mi_header 48 (word_of_nat (length (s_name s))) (s_flags s) (s_abi s) (s_exports s)
     (s_imports s) (s_res s) (s_aps s) (s_platform s)"

lemma length_hdr_of [simp]: "length (hdr_of s) = 48" by (simp add: hdr_of_def mi_header_def)

lemma src_bytes_parts:
  "src_bytes s = names_part (hdr_of s) (s_name s) (en_of s) (in_of s)
     @ concat (map export_bytes (rows_of s))
     @ concat (map import_bytes (zip (s_imports s)
         (name_offs (inames_start (length (s_name s)) (en_of s)) (in_of s))))
     @ concat (map word_meta_bytes (s_exports s)) @ concat (map res_bytes (s_res s))
     @ concat (map aperture_bytes (s_aps s))"
  by (simp add: src_bytes_def mi_encoded_def modinfo_bytes_def tables_part_def Let_def hdr_of_def
      rows_of_def wm_of_def)

lemma src_length_parts:
  "src_length s = es_of s + length (s_exports s) * 32 + length (s_imports s) * 12
     + length (s_res s) * 16 + length (s_aps s) * 16"
  by (simp add: src_length_def modinfo_length_def tables_size_def)

lemma starts_le:
  "48 + length (s_name s) \<le> enames_start (length (s_name s))"
  "enames_start (length (s_name s)) + length (name_table (en_of s)) \<le> inames_start (length (s_name s)) (en_of s)"
  "inames_start (length (s_name s)) (en_of s) + length (name_table (in_of s)) \<le> es_of s"
  by (simp_all add: enames_start_def inames_start_def entries_start_def align4_nat_ge)

lemma src_counts:
  assumes "src_ok s"
  shows "unat (word_of_nat (length (s_name s)) :: u32) = length (s_name s)"
    "unat (word_of_nat (length (s_exports s)) :: u32) = length (s_exports s)"
    "unat (word_of_nat (length (s_imports s)) :: u32) = length (s_imports s)"
    "unat (ucast (ucast (word_of_nat (length (s_res s)) :: u32) :: u16) :: u32) = length (s_res s)"
    "unat (ucast (ucast (word_of_nat (length (s_aps s)) :: u32) :: u16) :: u32) = length (s_aps s)"
proof -
  have b: "length (s_name s) < 4294967296" "length (s_exports s) < 4294967296"
    "length (s_imports s) < 4294967296" "length (s_res s) < 65536" "length (s_aps s) < 65536"
    using assms starts_le [of s] by (auto simp: src_ok_def src_length_parts)
  then show "unat (word_of_nat (length (s_name s)) :: u32) = length (s_name s)"
    "unat (word_of_nat (length (s_exports s)) :: u32) = length (s_exports s)"
    "unat (word_of_nat (length (s_imports s)) :: u32) = length (s_imports s)"
    by (simp_all add: unat_word_of_nat_u32)
  have u: "unat (ucast (ucast (word_of_nat n :: u32) :: u16) :: u32) = n" if "n < 65536" for n
    using that by (simp add: unsigned_ucast_eq unsigned_take_bit_eq unat_of_nat take_bit_nat_eq_self)
  show "unat (ucast (ucast (word_of_nat (length (s_res s)) :: u32) :: u16) :: u32) = length (s_res s)"
    "unat (ucast (ucast (word_of_nat (length (s_aps s)) :: u32) :: u16) :: u32) = length (s_aps s)"
    using b u by blast+
qed

lemma src_bytes_hdr:
  "\<exists>xs. src_bytes s = hdr_of s @ s_name s @ xs"
  by (simp add: src_bytes_parts names_part_def zpad_def)

lemma decode_src:
  assumes "src_ok s" "src_length s + length rest \<le> umax"
  shows "\<exists>m. decode_modinfo umax (src_bytes s @ rest) = Got m
     \<and> m_name m = s_name s \<and> unat (m_name_len m) = length (s_name s)
     \<and> unat (m_export_count m) = length (s_exports s) \<and> unat (m_import_count m) = length (s_imports s)
     \<and> unat (m_res_meta_count m) = length (s_res s) \<and> unat (m_aperture_count m) = length (s_aps s)
     \<and> m_abi_hash m = s_abi s \<and> m_flags m = s_flags s \<and> m_platform_hash m = s_platform s
     \<and> m_modinfo_ver m = MODINFO_VER"
proof -
  let ?d = "src_bytes s @ rest"
  obtain xs where xs: "src_bytes s = hdr_of s @ s_name s @ xs" using src_bytes_hdr by blast
  note c = src_counts [OF assms(1)]
  have len: "48 + length (s_name s) \<le> length ?d" by (simp add: xs)
  have "length ?d \<le> umax" using assms(2) by (simp add: length_src_bytes)
  then have "decode_modinfo umax ?d = Got \<lparr>m_name = slice ?d (unat (48 :: u32)) (unat (word_of_nat (length (s_name s)) :: u32)),
      m_name_off = 48, m_name_len = word_of_nat (length (s_name s)),
      m_export_count = word_of_nat (length (s_exports s)), m_import_count = word_of_nat (length (s_imports s)),
      m_abi_hash = s_abi s, m_flags = s_flags s, m_modinfo_ver = MODINFO_VER,
      m_aperture_count = ucast (ucast (word_of_nat (length (s_aps s)) :: u32) :: u16),
      m_res_meta_count = ucast (ucast (word_of_nat (length (s_res s)) :: u32) :: u16),
      m_platform_hash = s_platform s\<rparr>"
    by (intro decode_hdr_bytes [where xs = "s_name s @ xs @ rest"])
      (use c(1) len in \<open>simp_all add: xs hdr_of_def mi_header_def\<close>)
  moreover have "slice ?d 48 (length (s_name s)) = s_name s" by (simp add: xs slice_def)
  ultimately show ?thesis using c by simp
qed

lemma export_entries_offset_src:
  assumes "src_ok s" "src_length s + length rest \<le> umax"
  shows "export_entries_offset umax (src_bytes s @ rest) = Got (es_of s)"
proof -
  let ?d = "src_bytes s @ rest"
  obtain m where m: "decode_modinfo umax ?d = Got m" "unat (m_name_len m) = length (s_name s)"
    "unat (m_export_count m) = length (s_exports s)" "unat (m_import_count m) = length (s_imports s)"
    using decode_src [OF assms] by blast
  define p1 where "p1 = zpad (hdr_of s @ s_name s)"
  define p2 where "p2 = zpad (p1 @ name_table (en_of s))"
  obtain x1 where x1: "?d = p1 @ name_table (en_of s) @ x1"
    by (simp add: src_bytes_parts names_part_def p1_def) (simp add: zpad_def)
  obtain x2 where x2: "?d = p2 @ name_table (in_of s) @ x2"
    by (simp add: src_bytes_parts names_part_def p1_def p2_def)
      (simp add: zpad_def [of "_ @ name_table (map i_name (s_imports s))"])
  have l1: "length p1 = align4_nat (48 + length (s_name s))" by (simp add: p1_def)
  have l2: "length p2 = align4_nat (length p1 + length (name_table (en_of s)))" by (simp add: p2_def)
  have n1: "skip_names (length (s_exports s)) ?d (length p1) = Some (length p1 + length (name_table (en_of s)))"
    unfolding x1 using skip_names_table [of "en_of s" p1 x1] assms(1) by (simp add: src_ok_def)
  have n2: "skip_names (length (s_imports s)) ?d (length p2) = Some (length p2 + length (name_table (in_of s)))"
    unfolding x2 using skip_names_table [of "in_of s" p2 x2] assms(1) by (simp add: src_ok_def)
  have e: "es_of s = align4_nat (length p2 + length (name_table (in_of s)))"
    by (simp add: entries_start_def inames_start_def enames_start_def l1 l2)
  have "es_of s + length (s_exports s) * 16 \<le> length ?d"
    by (simp add: length_src_bytes src_length_parts)
  then show ?thesis
    using m n1 n2 l1 l2 e
    by (simp add: export_entries_offset_def of_option_def Let_def MODINFO_HEADER_SIZE_def
        EXPORT_ENTRY_SIZE_def)
qed

lemma table_offsets_src:
  assumes "src_ok s" "src_length s + length rest \<le> umax"
  shows "res_meta_offset umax (src_bytes s @ rest)
      = Got (es_of s + length (s_exports s) * 32 + length (s_imports s) * 12)"
    "aperture_use_offset umax (src_bytes s @ rest)
      = Got (es_of s + length (s_exports s) * 32 + length (s_imports s) * 12 + length (s_res s) * 16)"
proof -
  obtain m where m: "decode_modinfo umax (src_bytes s @ rest) = Got m"
    "unat (m_export_count m) = length (s_exports s)" "unat (m_import_count m) = length (s_imports s)"
    "unat (m_res_meta_count m) = length (s_res s)" "unat (m_aperture_count m) = length (s_aps s)"
    using decode_src [OF assms] by blast
  show r: "res_meta_offset umax (src_bytes s @ rest)
      = Got (es_of s + length (s_exports s) * 32 + length (s_imports s) * 12)"
    using m export_entries_offset_src [OF assms]
    by (simp add: res_meta_offset_def Let_def EXPORT_ENTRY_SIZE_def IMPORT_ENTRY_SIZE_def
        WORD_META_SIZE_def RES_META_SIZE_def length_src_bytes src_length_parts)
  show "aperture_use_offset umax (src_bytes s @ rest)
      = Got (es_of s + length (s_exports s) * 32 + length (s_imports s) * 12 + length (s_res s) * 16)"
    using m r
    by (simp add: aperture_use_offset_def Let_def RES_META_SIZE_def APERTURE_USE_ENTRY_SIZE_def
        length_src_bytes src_length_parts)
qed

lemma length_names_part_src: "length (names_part (hdr_of s) (s_name s) (en_of s) (in_of s)) = es_of s"
  by (simp add: length_names_part)

lemma read_res_src:
  assumes "src_ok s" "src_length s + length rest \<le> umax" "unat i < length (s_res s)"
  shows "read_res_meta umax (src_bytes s @ rest) i = Got (s_res s ! unat i)"
proof -
  obtain m where m: "decode_modinfo umax (src_bytes s @ rest) = Got m"
    "unat (m_res_meta_count m) = length (s_res s)"
    using decode_src [OF assms(1,2)] by blast
  let ?off = "es_of s + length (s_exports s) * 32 + length (s_imports s) * 12"
  let ?pre = "names_part (hdr_of s) (s_name s) (en_of s) (in_of s) @ concat (map export_bytes (rows_of s))
     @ concat (map import_bytes (zip (s_imports s)
         (name_offs (inames_start (length (s_name s)) (en_of s)) (in_of s))))
     @ concat (map word_meta_bytes (s_exports s))"
  have "length ?pre = ?off"
    by (simp add: length_names_part_src rows_of_def export_rows_def length_concat_const [where w = 16]
        length_concat_const [where w = 12] del: length_concat)
  then have sl: "slice (src_bytes s @ rest) (?off + unat i * 16) 16 = res_bytes (s_res s ! unat i)"
    using res.slice_table_at [of "unat i" "s_res s" ?pre ?off] assms(3) by (simp add: src_bytes_parts)
  have "off + 16 \<le> length d \<Longrightarrow> \<lparr>res_hash = u64_at d off, sharing_class = d ! (off + 8), lock_prim = u32_at d (off + 12)\<rparr>
      = res_of_bytes (slice d off 16)" for d off
    by (simp add: res_of_bytes_def u64_at_def u32_at_def slice_def drop_take take_take min_def add.commute)
  moreover have "?off + unat i * 16 + 16 \<le> length (src_bytes s @ rest)"
    using assms(3) by (simp add: length_src_bytes src_length_parts)
  ultimately show ?thesis
    using m assms(3) table_offsets_src(1) [OF assms(1,2)] sl
    by (simp add: read_res_meta_def Let_def RES_META_SIZE_def word_le_nat_alt res.dec_enc del: length_append)
qed

lemma read_aperture_src:
  assumes "src_ok s" "src_length s + length rest \<le> umax" "unat i < length (s_aps s)"
  shows "read_aperture_use umax (src_bytes s @ rest) i = Got (s_aps s ! unat i)"
proof -
  obtain m where m: "decode_modinfo umax (src_bytes s @ rest) = Got m"
    "unat (m_aperture_count m) = length (s_aps s)"
    using decode_src [OF assms(1,2)] by blast
  let ?off = "es_of s + length (s_exports s) * 32 + length (s_imports s) * 12 + length (s_res s) * 16"
  let ?pre = "names_part (hdr_of s) (s_name s) (en_of s) (in_of s) @ concat (map export_bytes (rows_of s))
     @ concat (map import_bytes (zip (s_imports s)
         (name_offs (inames_start (length (s_name s)) (en_of s)) (in_of s))))
     @ concat (map word_meta_bytes (s_exports s)) @ concat (map res_bytes (s_res s))"
  have "length ?pre = ?off"
    by (simp add: length_names_part_src rows_of_def export_rows_def length_concat_const [where w = 16]
        length_concat_const [where w = 12] del: length_concat)
  then have sl: "slice (src_bytes s @ rest) (?off + unat i * 16) 16 = aperture_bytes (s_aps s ! unat i)"
    using aperture.slice_table_at [of "unat i" "s_aps s" ?pre ?off] assms(3) by (simp add: src_bytes_parts)
  have "off + 16 \<le> length d \<Longrightarrow> \<lparr>ap_name_hash = u64_at d off, ap_size = u32_at d (off + 8),
       ap_id = u16_at d (off + 12), ap_access_mask = d ! (off + 14)\<rparr>
      = aperture_of_bytes (slice d off 16)" for d off
    by (simp add: aperture_of_bytes_def u64_at_def u32_at_def u16_at_def slice_def drop_take take_take
        min_def add.commute)
  moreover have "?off + unat i * 16 + 16 \<le> length (src_bytes s @ rest)"
    using assms(3) by (simp add: length_src_bytes src_length_parts)
  ultimately show ?thesis
    using m assms(3) table_offsets_src(2) [OF assms(1,2)] sl
    by (simp add: read_aperture_use_def Let_def APERTURE_USE_ENTRY_SIZE_def word_le_nat_alt
        aperture.dec_enc del: length_append)
qed

definition word_meta_of_bytes :: "bytes \<Rightarrow> u64 \<times> u16 \<times> u16 \<times> u32" where
  "word_meta_of_bytes bs = (u64_at bs 0, u16_at bs 8, u16_at bs 10, u32_at bs 12)"

lemma word_meta_dec:
  "word_meta_of_bytes (word_meta_bytes e) = (e_sym_hash e, e_effects e, e_requires_caps e, e_stack_bound e)"
  by (simp add: word_meta_of_bytes_def word_meta_bytes_def u16_at_def u32_at_def u64_at_def slice_def
      le16.dec_enc le32.dec_enc le64.dec_enc)

lemma slice_rows:
  assumes "i < length xs" "length pre = off"
  shows "slice (pre @ concat (map word_meta_bytes xs) @ post) (off + i * 16) 16 = word_meta_bytes (xs ! i)"
  using slice_blocks [of xs word_meta_bytes 16 i pre off post] assms by simp

lemma rows_nth:
  "i < length (s_exports s) \<Longrightarrow> rows_of s ! i = (e_sym_hash (s_exports s ! i),
     name_offs (enames_start (length (s_name s))) (en_of s) ! i,
     wm_of s + word_of_nat i * WORD_META_SIZE)"
  by (simp add: rows_of_def export_rows_def nth_enumerate_eq)

lemma name_at_off:
  assumes "i < length ns" "no_nul ns"
  shows "takeWhile (\<lambda>b. b \<noteq> 0) (drop (length pre + length (name_table (take i ns))) (pre @ name_table ns @ post))
       = ns ! i"
proof -
  have "name_table ns = name_table (take i ns) @ name_table (drop i ns)"
    by (metis append_take_drop_id concat_append map_append name_table_def)
  moreover have "name_table (drop i ns) = ns ! i @ [0] @ name_table (drop (Suc i) ns)"
    using assms(1) by (simp add: name_table_def Cons_nth_drop_Suc [symmetric])
  moreover have "\<forall>b \<in> set (ns ! i). b \<noteq> 0" using assms by (auto simp: no_nul_def)
  ultimately show ?thesis by (simp add: takeWhile_append2)
qed

lemma export_of_bytes_slice:
  "export_of_bytes (slice d off 16) = (u64_at d off, u32_at d (off + 8), u32_at d (off + 12))"
  by (simp add: export_of_bytes_def u64_at_def u32_at_def slice_slice)

lemma read_export_src:
  assumes "src_ok s" "src_length s + length rest \<le> umax" "unat i < length (s_exports s)"
  shows "\<exists>x. read_export umax (src_bytes s @ rest) i = Got x
     \<and> x_sym_hash x = e_sym_hash (s_exports s ! unat i) \<and> x_name x = e_name (s_exports s ! unat i)
     \<and> slice (src_bytes s @ rest) (unat (x_value_off x)) 16 = word_meta_bytes (s_exports s ! unat i)
     \<and> unat (x_value_off x) + 16 \<le> length (src_bytes s @ rest)"
proof -
  let ?d = "src_bytes s @ rest" and ?i = "unat i"
  obtain m where m: "decode_modinfo umax ?d = Got m" "unat (m_export_count m) = length (s_exports s)"
    using decode_src [OF assms(1,2)] by blast
  let ?eb = "enames_start (length (s_name s))"
  let ?row = "rows_of s ! ?i"
  have ln: "length (rows_of s) = length (s_exports s)" by (simp add: rows_of_def export_rows_def)
  have sl: "slice ?d (es_of s + ?i * 16) 16 = export_bytes ?row"
    using export.slice_table_at [of ?i "rows_of s" "names_part (hdr_of s) (s_name s) (en_of s) (in_of s)" "es_of s"]
      assms(3) ln length_names_part_src by (simp add: src_bytes_parts)
  have bound: "es_of s + ?i * 16 + 16 \<le> length ?d"
    using assms(3) by (simp add: length_src_bytes src_length_parts)
  have row: "u64_at ?d (es_of s + ?i * 16) = fst ?row" "u32_at ?d (es_of s + ?i * 16 + 8) = fst (snd ?row)"
    "u32_at ?d (es_of s + ?i * 16 + 12) = snd (snd ?row)"
  proof -
    have "export_of_bytes (slice ?d (es_of s + ?i * 16) 16) = ?row" by (simp add: sl export.dec_enc)
    then have "(u64_at ?d (es_of s + ?i * 16), u32_at ?d (es_of s + ?i * 16 + 8),
        u32_at ?d (es_of s + ?i * 16 + 12)) = ?row"
      unfolding export_of_bytes_slice .
    then show "u64_at ?d (es_of s + ?i * 16) = fst ?row" "u32_at ?d (es_of s + ?i * 16 + 8) = fst (snd ?row)"
      "u32_at ?d (es_of s + ?i * 16 + 12) = snd (snd ?row)"
      by (metis fst_conv snd_conv)+
  qed
  let ?off = "?eb + length (name_table (take ?i (en_of s)))"
  have tl: "length (name_table (take ?i (en_of s))) \<le> length (name_table (en_of s))"
    by (metis append_take_drop_id concat_append le_add1 length_append map_append name_table_def)
  have big: "es_of s + 3 < 4294967296" "es_of s \<le> length ?d"
    using assms(1) by (simp_all add: src_ok_def src_length_parts length_src_bytes)
  have noff: "unat (fst (snd ?row)) = ?off"
  proof -
    have "fst (snd ?row) = word_of_nat ?off"
      using rows_nth [OF assms(3)] assms(3) by (simp add: name_offs_def)
    moreover have "?off < 4294967296" using starts_le [of s] tl big by simp
    ultimately show ?thesis by (simp only: unat_word_of_nat_u32)
  qed
  have name: "takeWhile (\<lambda>b. b \<noteq> 0) (drop ?off ?d) = e_name (s_exports s ! ?i)"
  proof -
    define p1 where "p1 = zpad (hdr_of s @ s_name s)"
    obtain x1 where x1: "?d = p1 @ name_table (en_of s) @ x1"
      by (simp add: src_bytes_parts names_part_def p1_def) (simp add: zpad_def)
    have "length p1 = ?eb" by (simp add: p1_def enames_start_def)
    then show ?thesis
      unfolding x1
      using name_at_off [of ?i "en_of s" p1 x1] assms(1,3) by (simp add: src_ok_def)
  qed
  have nlt: "?off < length ?d"
  proof -
    have "length (name_table (take ?i (en_of s))) < length (name_table (en_of s))"
    proof -
      have "name_table (en_of s) = name_table (take ?i (en_of s)) @ name_table (drop ?i (en_of s))"
        by (metis append_take_drop_id concat_append map_append name_table_def)
      moreover have "name_table (drop ?i (en_of s)) \<noteq> []"
        using assms(3) by (simp add: name_table_def Cons_nth_drop_Suc [symmetric] drop_map)
      ultimately show ?thesis by simp
    qed
    then show ?thesis using starts_le [of s] big by simp
  qed
  let ?wm = "es_of s + length (s_exports s) * 16 + length (s_imports s) * 12"
  have wm: "unat (snd (snd ?row)) = ?wm + ?i * 16"
  proof -
    have "snd (snd ?row) = word_of_nat (?wm + ?i * 16)"
      using rows_nth [OF assms(3)]
      by (simp add: wm_of_def EXPORT_ENTRY_SIZE_def IMPORT_ENTRY_SIZE_def WORD_META_SIZE_def mult.commute)
    moreover have "?wm + ?i * 16 < 4294967296"
      using assms(1,3) by (simp add: src_ok_def src_length_parts)
    ultimately show ?thesis by (simp only: unat_word_of_nat_u32)
  qed
  have sw: "slice ?d (?wm + ?i * 16) 16 = word_meta_bytes (s_exports s ! ?i)"
  proof -
    let ?pre = "names_part (hdr_of s) (s_name s) (en_of s) (in_of s) @ concat (map export_bytes (rows_of s))
     @ concat (map import_bytes (zip (s_imports s)
         (name_offs (inames_start (length (s_name s)) (en_of s)) (in_of s))))"
    have "length ?pre = ?wm"
      by (simp add: length_names_part_src ln length_concat_const [where w = 16]
          length_concat_const [where w = 12] del: length_concat)
    then show ?thesis
      using slice_rows [of ?i "s_exports s" ?pre ?wm] assms(3) by (simp add: src_bytes_parts)
  qed
  have "?wm + ?i * 16 + 16 \<le> length ?d"
    using assms(3) by (simp add: length_src_bytes src_length_parts)
  then show ?thesis
    using m assms(3) export_entries_offset_src [OF assms(1,2)] row noff name nlt wm sw rows_nth [OF assms(3)]
    by (simp add: read_export_def Let_def EXPORT_ENTRY_SIZE_def word_le_nat_alt del: length_append)
qed

section \<open>Properties\<close>

text \<open>C31: the modinfo codec round-trips: for a source whose names hold no zero byte and
  whose size fits in u32, \<open>encode_into\<close> succeeds on every large enough buffer, leaves the
  bytes behind the record, and the readers return the header, every export with its
  word metadata, every resource entry and every aperture entry as they were given,
  whatever bytes follow.\<close>

theorem modinfo_round_trip:
  assumes "src_ok s" "src_length s \<le> length buf" "length buf \<le> umax"
  shows "\<exists>out m. encode_into buf (s_name s) (s_exports s) (s_imports s) (s_abi s) (s_flags s) (s_res s)
        (s_platform s) (s_aps s) = Some (out, src_length s)
    \<and> length out = length buf \<and> drop (src_length s) out = drop (src_length s) buf
    \<and> decode_modinfo umax out = Got m \<and> m_name m = s_name s \<and> m_abi_hash m = s_abi s
    \<and> m_flags m = s_flags s \<and> m_platform_hash m = s_platform s
    \<and> unat (m_export_count m) = length (s_exports s) \<and> unat (m_import_count m) = length (s_imports s)
    \<and> (\<forall>i. unat i < length (s_exports s) \<longrightarrow> (\<exists>x. read_export umax out i = Got x
          \<and> x_sym_hash x = e_sym_hash (s_exports s ! unat i) \<and> x_name x = e_name (s_exports s ! unat i)
          \<and> u32_at out (unat (x_value_off x) + 12) = e_stack_bound (s_exports s ! unat i)))
    \<and> (\<forall>i. unat i < length (s_res s) \<longrightarrow> read_res_meta umax out i = Got (s_res s ! unat i))
    \<and> (\<forall>i. unat i < length (s_aps s) \<longrightarrow> read_aperture_use umax out i = Got (s_aps s ! unat i))"
proof -
  let ?rest = "drop (src_length s) buf"
  let ?out = "src_bytes s @ ?rest"
  have u: "src_length s + length ?rest \<le> umax" using assms(2,3) by simp
  have enc: "encode_into buf (s_name s) (s_exports s) (s_imports s) (s_abi s) (s_flags s) (s_res s)
        (s_platform s) (s_aps s) = Some (?out, src_length s)"
    unfolding src_bytes_def src_length_def
    by (rule encode_into_eq) (use assms in \<open>simp_all add: src_ok_def src_length_def\<close>)
  obtain m where m: "decode_modinfo umax ?out = Got m" "m_name m = s_name s" "m_abi_hash m = s_abi s"
    "m_flags m = s_flags s" "m_platform_hash m = s_platform s"
    "unat (m_export_count m) = length (s_exports s)" "unat (m_import_count m) = length (s_imports s)"
    using decode_src [OF assms(1) u] by blast
  have ex: "\<exists>x. read_export umax ?out i = Got x
          \<and> x_sym_hash x = e_sym_hash (s_exports s ! unat i) \<and> x_name x = e_name (s_exports s ! unat i)
          \<and> u32_at ?out (unat (x_value_off x) + 12) = e_stack_bound (s_exports s ! unat i)"
    if i: "unat i < length (s_exports s)" for i
  proof -
    obtain x where x: "read_export umax ?out i = Got x" "x_sym_hash x = e_sym_hash (s_exports s ! unat i)"
      "x_name x = e_name (s_exports s ! unat i)"
      "slice ?out (unat (x_value_off x)) 16 = word_meta_bytes (s_exports s ! unat i)"
      using read_export_src [OF assms(1) u i] by blast
    have "u32_at (slice ?out (unat (x_value_off x)) 16) 12 = e_stack_bound (s_exports s ! unat i)"
      unfolding x(4) using word_meta_dec [of "s_exports s ! unat i"] by (simp add: word_meta_of_bytes_def)
    then have "u32_at ?out (unat (x_value_off x) + 12) = e_stack_bound (s_exports s ! unat i)"
      by (simp add: u32_at_def slice_slice)
    with x show ?thesis by blast
  qed
  show ?thesis
    by (intro exI [of _ ?out] exI [of _ m] conjI allI impI)
      (use enc m ex assms(2) read_res_src [OF assms(1) u] read_aperture_src [OF assms(1) u]
       in \<open>simp_all add: length_src_bytes\<close>)
qed

definition sample_src :: modinfo_src where
  "sample_src = \<lparr>s_name = [77], s_exports = [\<lparr>e_sym_hash = 7, e_name = [97, 98], e_effects = 0,
     e_requires_caps = 0, e_stack_bound = 12\<rparr>], s_imports = [\<lparr>i_sym_hash = 9, i_name = [99]\<rparr>], s_abi = 42,
     s_flags = 0, s_res = [], s_platform = 0, s_aps = []\<rparr>"

theorem modinfo_round_trip_witness:
  "\<exists>out x. encode_into (replicate 200 1) [77] (s_exports sample_src) (s_imports sample_src) 42 0 [] 0 []
      = Some (out, 104) \<and> read_export 4294967295 out 0 = Got x \<and> x_name x = [97, 98]"
proof -
  have l: "src_length sample_src = 104"
    by (simp add: src_length_parts entries_start_def inames_start_def enames_start_def name_table_def
        sample_src_def align4_nat_def)
  have ok: "src_ok sample_src" unfolding src_ok_def l by (simp add: sample_src_def no_nul_def)
  from modinfo_round_trip [OF ok, of "replicate 200 1" 4294967295] l
  obtain out where o: "encode_into (replicate 200 1) (s_name sample_src) (s_exports sample_src)
      (s_imports sample_src) (s_abi sample_src) (s_flags sample_src) (s_res sample_src)
      (s_platform sample_src) (s_aps sample_src) = Some (out, 104)"
    and x: "\<forall>i. unat i < length (s_exports sample_src) \<longrightarrow> (\<exists>x. read_export 4294967295 out i = Got x
       \<and> x_sym_hash x = e_sym_hash (s_exports sample_src ! unat i)
       \<and> x_name x = e_name (s_exports sample_src ! unat i)
       \<and> u32_at out (unat (x_value_off x) + 12) = e_stack_bound (s_exports sample_src ! unat i))"
    by auto
  from x [THEN spec [of _ 0]] obtain x where "read_export 4294967295 out 0 = Got x" "x_name x = [97, 98]"
    by (auto simp: sample_src_def)
  with o show ?thesis by (auto simp: sample_src_def)
qed

definition hostile_modinfo :: bytes where
  "hostile_modinfo = hdr_bytes (-1) 2 0 0 0 0 0 0 0"

text \<open>on a loader with a 32-bit \<open>usize\<close> a 48-byte modinfo record with a name offset of
  \<open>0xFFFFFFFF\<close> makes \<open>decode\<close> panic (the unchecked sum wraps, the slice start lies
  behind its end); with a 64-bit \<open>usize\<close> no input does.\<close>

theorem modinfo_decode_panics_32:
  "decode_modinfo 4294967295 hostile_modinfo = Panic
   \<and> (\<forall>data. decode_modinfo 18446744073709551615 data \<noteq> Panic)"
proof
  have f: "u32_at hostile_modinfo 0 = LMOD_MAGIC" "u32_at hostile_modinfo 16 = - 1"
    "u32_at hostile_modinfo 20 = 2" "length hostile_modinfo = 48"
    by (simp_all add: hostile_modinfo_def hdr_bytes_def u32_at_def slice_def le32.dec_enc)
  show "decode_modinfo 4294967295 hostile_modinfo = Panic"
    by (simp add: decode_modinfo_def f Let_def MODINFO_HEADER_SIZE_def unat_max_u32)
  show "\<forall>data. decode_modinfo 18446744073709551615 data \<noteq> Panic"
  proof
    fix data
    have "(unat (u32_at data 16) + unat (u32_at data 20)) mod (18446744073709551615 + 1)
        = unat (u32_at data 16) + unat (u32_at data 20)"
      using unat_u32_less [of "u32_at data 16"] unat_u32_less [of "u32_at data 20"] by simp
    then show "decode_modinfo 18446744073709551615 data \<noteq> Panic"
      unfolding decode_modinfo_def Let_def by (simp only: split: if_split) simp
  qed
qed

end
