(* ===== verification/ApertureProps.thy ===== *)
theory ApertureProps
  imports Apertures ModinfoRt
begin

text \<open>
  The registry as a state machine and the contract of the binding pass: what a
  successful bind has checked and recorded, that a failed one is undone by the mark
  taken before it, and when the pass may panic.
\<close>

section \<open>Reachable registries\<close>

inductive reg_step :: "aperture_registry \<Rightarrow> aperture_registry \<Rightarrow> bool" where
  step_reserve: "reserve i owner r = Inr r' \<Longrightarrow> reg_step r r'"
| step_rollback: "reg_step r (rollback m r)"
| step_release: "reg_step r (release_owner owner r)"

inductive_cases reg_stepE: "reg_step r r'"

inductive reg_reach :: "aperture_registry \<Rightarrow> bool" where
  reach_new: "reg_reach registry_new"
| reach_step: "reg_reach r \<Longrightarrow> reg_step r r' \<Longrightarrow> reg_reach r'"

lemma rollback_wf: "reg_wf r \<Longrightarrow> reg_wf (rollback m r)"
  by (cases "m \<le> reg_count r") (simp_all add: rollback_pairs length_bound_pairs rollback_stale)

lemma reg_step_wf: "reg_step r r' \<Longrightarrow> reg_wf r \<Longrightarrow> reg_wf r'"
  by (erule reg_stepE) (auto dest: reserve_Inr(1) simp: rollback_wf release_owner_spec)

lemma reg_reach_wf: "reg_reach r \<Longrightarrow> reg_wf r"
  by (induction rule: reg_reach.induct) (auto simp: reg_wf_new dest: reg_step_wf)

text \<open>C34: In every registry the loader can reach by reservations, rollbacks and releases in any
  order, the number of bound apertures is within the table, no aperture is bound twice,
  a bound aperture is refused to everybody, and releasing an owner frees exactly the
  apertures recorded for that owner.\<close>

theorem registry_exclusive:
  assumes "reg_reach r"
  shows "reg_count r \<le> APERTURE_CAP \<and> distinct (map fst (bound_pairs r))
    \<and> (\<forall>i owner. is_bound r i \<longrightarrow> reserve i owner r = Inl ApertureConflict)
    \<and> mset (bound_pairs (release_owner p r)) = filter_mset (\<lambda>x. snd x \<noteq> p) (mset (bound_pairs r))"
proof -
  note wf = reg_reach_wf [OF assms]
  from wf have "reg_count r \<le> APERTURE_CAP" "distinct (map fst (bound_pairs r))"
    by (simp_all add: fst_bound_pairs, simp_all add: reg_wf_def)
  then show ?thesis using release_owner_spec(2) [OF wf] by (simp add: reserve_def)
qed

section \<open>The binding pass\<close>

definition entry_ok :: "board_aperture list \<Rightarrow> aperture_entry \<Rightarrow> bool" where
  "entry_ok board e \<longleftrightarrow> unat (ap_id e) < length board
     \<and> b_name_hash (board ! unat (ap_id e)) = ap_name_hash e
     \<and> b_size (board ! unat (ap_id e)) = ap_size e
     \<and> ap_access_mask e AND NOT (b_capability (board ! unat (ap_id e))) = 0"

lemma resolve_Inr [simp]: "resolve board e = Inr b \<longleftrightarrow> entry_ok board e \<and> b = board ! unat (ap_id e)"
  by (auto simp: resolve_def entry_ok_def Let_def)

lemma lift_load_Inr [result_simps]: "lift_load x = Inr y \<longleftrightarrow> x = Inr y"
  by (auto simp: lift_load_def split: sum.splits)

definition set_bases :: "board_aperture list \<Rightarrow> aperture_entry list \<Rightarrow> u32 list \<Rightarrow> u32 list" where
  "set_bases board es bases = fold (\<lambda>e bs. bs[unat (ap_id e) := b_base (board ! unat (ap_id e))]) es bases"

lemma bind_entries_wf:
  assumes "reg_wf r" "bind_entries read board owner is r bases = (res, r')"
  shows "reg_wf r' \<and> prefix (bound_pairs r) (bound_pairs r')"
  using assms
proof (induction "is" arbitrary: r bases)
  case (Cons i "is")
  show ?case
  proof (cases "bindE (ok_or ApertureTableMalformed (read (word_of_nat i))) (\<lambda>e.
          bindE (lift_load (resolve board e)) (\<lambda>b.
          bindE (lift_load (reserve (ap_id e) owner r)) (\<lambda>r'. Inr (e, b, r'))))")
    case (Inl f)
    then show ?thesis using Cons.prems by simp
  next
    case (Inr x)
    obtain e b r2 where x: "x = (e, b, r2)" by (cases x)
    from Inr have rs: "reserve (ap_id e) owner r = Inr r2" by (simp add: x result_simps)
    note r2 = reserve_Inr [OF rs Cons.prems(1)]
    have p: "prefix (bound_pairs r) (bound_pairs r2)" by (simp add: r2(2))
    show ?thesis
    proof (cases "length bases \<le> unat (ap_id e)")
      case True
      then show ?thesis using Cons.prems(2) r2(1) p Inr by (simp add: x)
    next
      case False
      then have "bind_entries read board owner is r2 (bases[unat (ap_id e) := b_base b]) = (res, r')"
        using Cons.prems(2) Inr by (simp add: x)
      from Cons.IH [OF r2(1) this] p show ?thesis by (auto intro: prefix_order.trans)
    qed
  qed
qed simp

lemma bind_entries_Inr:
  assumes "reg_wf r" "bind_entries read board owner is r bases = (Inr bases', r')"
  shows "\<exists>es. map (\<lambda>i. read (word_of_nat i)) is = map Got es \<and> (\<forall>e \<in> set es. entry_ok board e
      \<and> unat (ap_id e) < length bases)
    \<and> bound_pairs r' = bound_pairs r @ map (\<lambda>e. (ap_id e, owner)) es
    \<and> bases' = set_bases board es bases"
  using assms
proof (induction "is" arbitrary: r bases)
  case (Cons i "is")
  show ?case
  proof (cases "bindE (ok_or ApertureTableMalformed (read (word_of_nat i))) (\<lambda>e.
          bindE (lift_load (resolve board e)) (\<lambda>b.
          bindE (lift_load (reserve (ap_id e) owner r)) (\<lambda>r'. Inr (e, b, r'))))")
    case (Inl f)
    then show ?thesis using Cons.prems by simp
  next
    case (Inr x)
    obtain e b r2 where x: "x = (e, b, r2)" by (cases x)
    from Inr have rd: "read (word_of_nat i) = Got e" and eo: "entry_ok board e"
      and b: "b = board ! unat (ap_id e)" and rs: "reserve (ap_id e) owner r = Inr r2"
      by (auto simp: x result_simps)
    note r2 = reserve_Inr [OF rs Cons.prems(1)]
    have l: "unat (ap_id e) < length bases"
      and rest: "bind_entries read board owner is r2 (bases[unat (ap_id e) := b_base b]) = (Inr bases', r')"
      using Cons.prems(2) Inr by (auto simp: x split: if_splits)
    obtain es where "map (\<lambda>i. read (word_of_nat i)) is = map Got es"
      "\<forall>e \<in> set es. entry_ok board e \<and> unat (ap_id e) < length bases"
      "bound_pairs r' = bound_pairs r2 @ map (\<lambda>e. (ap_id e, owner)) es"
      "bases' = set_bases board es (bases[unat (ap_id e) := b_base b])"
      using Cons.IH [OF r2(1) rest] by auto
    then show ?thesis
      using rd eo l by (intro exI [of _ "e # es"]) (simp add: r2(2) set_bases_def b)
  qed
qed (simp add: set_bases_def)

lemma set_bases_other:
  "unat (i :: u16) \<notin> (\<lambda>e. unat (ap_id e)) ` set es \<Longrightarrow> set_bases board es bases ! unat i = bases ! unat i"
  by (induction es arbitrary: bases) (auto simp: set_bases_def)

lemma set_bases_nth:
  assumes "distinct (map ap_id es)" "e \<in> set es" "unat (ap_id e) < length bases"
  shows "set_bases board es bases ! unat (ap_id e) = b_base (board ! unat (ap_id e))"
  using assms
proof (induction es arbitrary: bases)
  case (Cons x es)
  show ?case
  proof (cases "e = x")
    case True
    have "unat (ap_id x) \<notin> (\<lambda>e. unat (ap_id e)) ` set es"
      using Cons.prems(1) by (auto simp: image_iff) (metis image_eqI unsigned_word_eqI)
    from set_bases_other [OF this] Cons.prems(3) True show ?thesis by (simp add: set_bases_def)
  next
    case False
    then show ?thesis using Cons.IH [of "bases[unat (ap_id x) := b_base (board ! unat (ap_id x))]"] Cons.prems
      by (simp add: set_bases_def)
  qed
qed simp

lemma check_ids_Inr:
  "check_ids read is seen = Inr u \<Longrightarrow> \<exists>es. map (\<lambda>i. read (word_of_nat i)) is = map Got es"
proof (induction "is" arbitrary: seen)
  case (Cons i "is")
  then obtain e where e: "read (word_of_nat i) = Got e" by (auto simp: result_simps)
  with Cons.prems obtain seen' where "check_ids read is seen' = Inr u"
    by (auto simp: result_simps split: if_splits)
  from Cons.IH [OF this] e show ?case by (auto intro: exI [of _ "e # _"])
qed simp

lemma bind_aperturesE:
  assumes "bind_apertures umax data board_hash board r owner = (Inr bases, r')" "data \<noteq> []"
  obtains hdr where "decode_modinfo umax data = Got hdr" "m_modinfo_ver hdr = MODINFO_VER"
    "m_platform_hash hdr = 0 \<or> board_hash = Some (m_platform_hash hdr)"
    "unat (m_aperture_count hdr) \<le> APERTURE_CAP"
    "bind_entries (read_aperture_use umax data) board owner [0..<unat (m_aperture_count hdr)] r
       (replicate APERTURE_CAP 0) = (Inr bases, r')"
  using assms
  by (auto simp: bind_apertures_def Let_def result_simps split: sum.splits if_splits)

lemma bind_apertures_wf:
  assumes "reg_wf r" "bind_apertures umax data board_hash board r owner = (res, r')"
  shows "reg_wf r' \<and> prefix (bound_pairs r) (bound_pairs r')"
  using assms bind_entries_wf [OF assms(1)]
  by (auto simp: bind_apertures_def Let_def split: sum.splits if_splits)

text \<open>C35: A successful bind of a module with board claims has checked the format version, the
  board identity and every aperture-use entry (a board aperture of that id with the same
  name and size, the access mask within its capability, not bound before), has recorded
  exactly those apertures for the module, and hands back their board bases.\<close>

theorem aperture_bind_sound:
  assumes "bind_apertures umax data board_hash board r owner = (Inr bases, r')" "data \<noteq> []" "reg_wf r"
  shows "\<exists>hdr es. decode_modinfo umax data = Got hdr \<and> m_modinfo_ver hdr = MODINFO_VER
    \<and> (m_platform_hash hdr = 0 \<or> board_hash = Some (m_platform_hash hdr))
    \<and> length es = unat (m_aperture_count hdr)
    \<and> (\<forall>i < length es. read_aperture_use umax data (word_of_nat i) = Got (es ! i))
    \<and> (\<forall>e \<in> set es. entry_ok board e \<and> \<not> is_bound r (ap_id e)
        \<and> bases ! unat (ap_id e) = b_base (board ! unat (ap_id e)))
    \<and> bound_pairs r' = bound_pairs r @ map (\<lambda>e. (ap_id e, owner)) es"
proof -
  obtain hdr where h: "decode_modinfo umax data = Got hdr" "m_modinfo_ver hdr = MODINFO_VER"
    "m_platform_hash hdr = 0 \<or> board_hash = Some (m_platform_hash hdr)"
    and b: "bind_entries (read_aperture_use umax data) board owner [0..<unat (m_aperture_count hdr)] r
       (replicate APERTURE_CAP 0) = (Inr bases, r')"
    using bind_aperturesE [OF assms(1,2)] by blast
  obtain es where es: "map (\<lambda>i. read_aperture_use umax data (word_of_nat i)) [0..<unat (m_aperture_count hdr)] = map Got es"
    "\<forall>e \<in> set es. entry_ok board e \<and> unat (ap_id e) < APERTURE_CAP"
    "bound_pairs r' = bound_pairs r @ map (\<lambda>e. (ap_id e, owner)) es"
    "bases = set_bases board es (replicate APERTURE_CAP 0)"
    using bind_entries_Inr [OF assms(3) b] by auto
  have len: "length es = unat (m_aperture_count hdr)" using arg_cong [OF es(1), of length] by simp
  have rd: "read_aperture_use umax data (word_of_nat i) = Got (es ! i)" if "i < length es" for i
    using arg_cong [OF es(1), of "\<lambda>xs. xs ! i"] that len by simp
  have "reg_wf r'" using bind_entries_wf [OF assms(3) b] by blast
  then have "distinct (map fst (bound_pairs r'))" by (simp add: fst_bound_pairs) (simp add: reg_wf_def)
  then have d: "distinct (map ap_id es)" "\<forall>e \<in> set es. \<not> is_bound r (ap_id e)"
    by (auto simp: es(3) is_bound_pairs [OF assms(3)] comp_def)
  show ?thesis
    using h len rd es(2,3) d(2) set_bases_nth [OF d(1), of _ "replicate APERTURE_CAP 0" board]
    by (intro exI [of _ hdr] exI [of _ es]) (auto simp: es(4))
qed

text \<open>Whatever the outcome of the pass (error and panic included), rolling back to the mark
  taken before it restores the live reservations.\<close>

theorem aperture_bind_transactional:
  assumes "reg_wf r" "bind_apertures umax data board_hash board r owner = (res, r')"
  shows "reg_wf (rollback (reg_mark r) r') \<and> bound_pairs (rollback (reg_mark r) r') = bound_pairs r"
  using bind_apertures_wf [OF assms] areg.undo_restores [OF assms(1)] by blast

section \<open>From the packer to the loader\<close>

lemma reserve_ok:
  "reg_wf r \<Longrightarrow> \<not> is_bound r i \<Longrightarrow> length (bound_pairs r) < APERTURE_CAP \<Longrightarrow> \<exists>r'. reserve i owner r = Inr r'"
  by (simp add: reserve_def length_bound_pairs)

lemma check_ids_ok:
  assumes "map (\<lambda>i. read (word_of_nat i)) is = map Got es" "distinct (seen @ map ap_id es)"
    "length seen + length es \<le> APERTURE_CAP"
  shows "check_ids read is seen = Inr ()"
  using assms
proof (induction "is" arbitrary: es seen)
  case (Cons i "is")
  then obtain e es' where "es = e # es'" "read (word_of_nat i) = Got e"
    "map (\<lambda>i. read (word_of_nat i)) is = map Got es'" by (cases es) auto
  with Cons show ?case by auto
qed simp

lemma bind_entries_ok:
  assumes "map (\<lambda>i. read (word_of_nat i)) is = map Got es" "distinct (map ap_id es)" "reg_wf r"
    "\<forall>e \<in> set es. entry_ok board e \<and> \<not> is_bound r (ap_id e) \<and> unat (ap_id e) < length bases"
    "length (bound_pairs r) + length es \<le> APERTURE_CAP"
  shows "\<exists>bases' r'. bind_entries read board owner is r bases = (Inr bases', r')"
  using assms
proof (induction "is" arbitrary: es r bases)
  case (Cons i "is")
  then obtain e es' where es: "es = e # es'" and rd: "read (word_of_nat i) = Got e"
    and rest: "map (\<lambda>i. read (word_of_nat i)) is = map Got es'" by (cases es) auto
  have "\<not> is_bound r (ap_id e)" "length (bound_pairs r) < APERTURE_CAP"
    using Cons.prems(4,5) by (simp_all add: es)
  then obtain r2 where rs: "reserve (ap_id e) owner r = Inr r2"
    using reserve_ok [OF Cons.prems(3)] by blast
  note r2 = reserve_Inr [OF rs Cons.prems(3)]
  let ?bases = "bases[unat (ap_id e) := b_base (board ! unat (ap_id e))]"
  have "\<exists>bases' r'. bind_entries read board owner is r2 ?bases = (Inr bases', r')"
    using Cons.prems(2,4,5) es r2
    by (intro Cons.IH [OF rest])
      (auto simp: is_bound_pairs [OF r2(1)] is_bound_pairs [OF Cons.prems(3)] dest: image_eqI [OF sym])
  moreover have "resolve board e = Inr (board ! unat (ap_id e))" "unat (ap_id e) < length bases"
    using Cons.prems(4) by (simp_all add: es)
  ultimately show ?case by (simp add: rd rs lift_load_def del: resolve_Inr)
qed simp

lemma packed_binds_facts:
  assumes "src_ok s" "src_length s + length rest \<le> umax" "reg_wf r"
    and "s_platform s = 0 \<or> board_hash = Some (s_platform s)"
    and "distinct (map ap_id (s_aps s))" "length (bound_pairs r) + length (s_aps s) \<le> APERTURE_CAP"
    and "\<forall>e \<in> set (s_aps s). entry_ok board e \<and> unat (ap_id e) < APERTURE_CAP \<and> \<not> is_bound r (ap_id e)"
  shows "\<exists>bases r'. bind_apertures umax (src_bytes s @ rest) board_hash board r owner = (Inr bases, r')"
proof -
  note u = assms(2)
  obtain m where m: "decode_modinfo umax (src_bytes s @ rest) = Got m"
    "unat (m_aperture_count m) = length (s_aps s)" "m_platform_hash m = s_platform s"
    "m_modinfo_ver m = MODINFO_VER"
    using decode_src [OF assms(1) u] by auto
  have "map (\<lambda>i. read_aperture_use umax (src_bytes s @ rest) (word_of_nat i)) [0..<length (s_aps s)] = map Got (s_aps s)"
  proof (rule nth_equalityI)
    fix i assume i: "i < length (map (\<lambda>i. read_aperture_use umax (src_bytes s @ rest) (word_of_nat i)) [0..<length (s_aps s)])"
    then have "unat (word_of_nat i :: u32) = i" using assms(6) by (simp add: unat_word_of_nat_u32 APERTURE_CAP_def)
    then show "map (\<lambda>i. read_aperture_use umax (src_bytes s @ rest) (word_of_nat i)) [0..<length (s_aps s)] ! i
        = map Got (s_aps s) ! i"
      using i read_aperture_src [OF assms(1) u, of "word_of_nat i"] by simp
  qed simp
  note rd = this
  have c: "check_ids (read_aperture_use umax (src_bytes s @ rest)) [0..<length (s_aps s)] [] = Inr ()"
    by (rule check_ids_ok [OF rd]) (use assms(5,6) in simp_all)
  obtain bases r' where b: "bind_entries (read_aperture_use umax (src_bytes s @ rest)) board owner
      [0..<length (s_aps s)] r (replicate APERTURE_CAP 0) = (Inr bases, r')"
    using bind_entries_ok [OF rd assms(5,3), of board "replicate APERTURE_CAP 0" owner] assms(6,7)
    by (simp, blast)
  have g: "l_guard (s_platform s = 0 \<or> board_hash = Some (s_platform s)) PlatformHashMismatch = Inr ()"
    using assms(4) by (simp add: l_guard_def)
  show ?thesis
    using b c assms(6) by (simp add: bind_apertures_def m g l_guard_def [of True] Let_def)
qed

text \<open>A module information block written by the packer binds on a board that has its
  platform hash and all its apertures, as long as they are free and fit the table.\<close>

theorem packed_module_binds:
  assumes "src_ok s" "src_length s \<le> umax" "reg_wf r"
    and "s_platform s = 0 \<or> board_hash = Some (s_platform s)"
    and "distinct (map ap_id (s_aps s))" "length (bound_pairs r) + length (s_aps s) \<le> APERTURE_CAP"
    and "\<forall>e \<in> set (s_aps s). entry_ok board e \<and> unat (ap_id e) < APERTURE_CAP \<and> \<not> is_bound r (ap_id e)"
  shows "\<exists>bases r'. bind_apertures umax (src_bytes s) board_hash board r owner = (Inr bases, r')"
  using packed_binds_facts [of s "[]"] assms by simp

section \<open>Witnesses\<close>

lemma registry_exclusive_witness:
  "\<exists>r. reg_reach r \<and> is_bound r 3 \<and> reserve 3 9 r = Inl ApertureConflict"
proof -
  obtain r where r: "reserve 3 7 registry_new = Inr r"
    using reserve_ok [OF reg_wf_new(1), of 3 7] unfolding is_bound_pairs [OF reg_wf_new(1)] reg_wf_new(2)
    by (auto simp: APERTURE_CAP_def)
  then have re: "reg_reach r" by (blast intro: reg_reach.intros step_reserve)
  have "is_bound r 3"
    using reserve_Inr [OF r reg_wf_new(1)] by (simp add: is_bound_pairs reg_wf_new)
  with registry_exclusive [OF re] re show ?thesis by blast
qed

definition board_sample :: "board_aperture list" where
  "board_sample = [\<lparr>b_name_hash = 5, b_base = 0x40000000, b_size = 0x1000, b_capability = 3\<rparr>]"

definition bound_src :: modinfo_src where
  "bound_src = \<lparr>s_name = [77], s_exports = [], s_imports = [], s_abi = 42, s_flags = 0, s_res = [],
     s_platform = 0xabc, s_aps = [\<lparr>ap_name_hash = 5, ap_size = 0x1000, ap_id = 0, ap_access_mask = 1\<rparr>]\<rparr>"

lemma bound_src_ok: "src_ok bound_src" "src_length bound_src = 68"
proof -
  show l: "src_length bound_src = 68"
    by (simp add: src_length_parts entries_start_def inames_start_def enames_start_def name_table_def
        bound_src_def align4_nat_def)
  show "src_ok bound_src" unfolding src_ok_def l by (simp add: bound_src_def no_nul_def)
qed

theorem packed_module_binds_witness:
  "\<exists>bases r'. bind_apertures 4294967295 (src_bytes bound_src) (Some 0xabc) board_sample registry_new 1
     = (Inr bases, r')"
  by (rule packed_module_binds [OF bound_src_ok(1)])
    (simp_all add: bound_src_ok(2) reg_wf_new, simp_all add: bound_src_def APERTURE_CAP_def entry_ok_def
      board_sample_def is_bound_def registry_new_def)

lemma bound_src_binds:
  obtains bases r' where "bind_apertures 4294967295 (src_bytes bound_src) (Some 0xabc) board_sample registry_new 1
     = (Inr bases, r')"
proof -
  have "\<exists>bases r'. bind_apertures 4294967295 (src_bytes bound_src) (Some 0xabc) board_sample registry_new 1
     = (Inr bases, r')"
    by (rule packed_binds_facts [OF bound_src_ok(1), of "[]", simplified])
      (simp_all add: bound_src_ok(2) reg_wf_new, simp_all add: bound_src_def APERTURE_CAP_def entry_ok_def
        board_sample_def is_bound_def registry_new_def)
  then show thesis using that by blast
qed

lemma aperture_bind_sound_witness:
  "\<exists>bases r'. bind_apertures 4294967295 (src_bytes bound_src) (Some 0xabc) board_sample registry_new 1
     = (Inr bases, r') \<and> (\<exists>hdr. decode_modinfo 4294967295 (src_bytes bound_src) = Got hdr
       \<and> m_modinfo_ver hdr = MODINFO_VER)"
proof -
  obtain bases r' where b: "bind_apertures 4294967295 (src_bytes bound_src) (Some 0xabc) board_sample
      registry_new 1 = (Inr bases, r')"
    by (rule bound_src_binds)
  have "src_bytes bound_src \<noteq> []" using length_src_bytes [of bound_src] bound_src_ok(2) by auto
  from aperture_bind_sound [OF b this reg_wf_new(1)] b show ?thesis by blast
qed

lemma aperture_bind_transactional_witness:
  "\<exists>res r'. bind_apertures 4294967295 (src_bytes bound_src) (Some 0xabc) board_sample registry_new 1
     = (res, r') \<and> bound_pairs (rollback 0 r') = []"
proof -
  obtain bases r' where b: "bind_apertures 4294967295 (src_bytes bound_src) (Some 0xabc) board_sample
      registry_new 1 = (Inr bases, r')"
    by (rule bound_src_binds)
  from aperture_bind_transactional [OF reg_wf_new(1) b] b show ?thesis
    by (simp add: reg_wf_new reg_mark_def, simp add: registry_new_def)
qed

end
