(* ===== verification/SymProps.thy ===== *)
theory SymProps
  imports SymMap
begin

text \<open>
  The symbol map refines a partial function from hashes to entries; registrations are
  undone exactly by the rollback guard; and the labels the code generators emit carry
  the hash the loader resolves by.
\<close>

section \<open>Refinement of a partial function\<close>

abbreviation sm_abs :: "sym_map \<Rightarrow> u64 \<Rightarrow> sym_entry option" where
  "sm_abs m \<equiv> \<lambda>h. lookup_by_hash h m"

lemma find_hash_append:
  "h \<notin> se_hash ` set es \<Longrightarrow> find (\<lambda>e. se_hash e = k) (es @ [\<lparr>se_hash = h, se_name = n, se_addr = a\<rparr>])
    = (if k = h then Some \<lparr>se_hash = h, se_name = n, se_addr = a\<rparr> else find (\<lambda>e. se_hash e = k) es)"
  by (induction es) auto

lemma register_abs:
  assumes "register_with_hash h n addr m = Inr m'" "sm_wf m"
  shows "sm_abs m' = (sm_abs m)(h \<mapsto> \<lparr>se_hash = h, se_name = n, se_addr = addr\<rparr>)"
  using register_Inr [OF assms] by (auto simp: lookup_by_hash_def find_hash_append fun_eq_iff)

text \<open>A registration either adds exactly its entry to the map the loader resolves by, under a
  hash that was free, and keeps hashes and non-empty names unique; or it is refused
  because the hash or the name is taken or the table is full, and nothing changes.\<close>

theorem symmap_register_refines:
  assumes "sm_wf m"
  shows "case register_with_hash h n addr m of
      Inr m' \<Rightarrow> sm_wf m' \<and> sm_abs m h = None
        \<and> sm_abs m' = (sm_abs m)(h \<mapsto> \<lparr>se_hash = h, se_name = n, se_addr = addr\<rparr>)
    | Inl e \<Rightarrow> sm_abs m h \<noteq> None \<or> (n \<noteq> [] \<and> n \<in> se_name ` set (sm_iter m))
        \<or> sm_len m = length (sm_entries m) \<and> e = 5209"
proof (cases "register_with_hash h n addr m")
  case (Inr m')
  have "sm_abs m h = None"
    using register_Inr(3) [OF Inr assms] by (auto simp: lookup_by_hash_def find_None_iff)
  with Inr register_abs [OF Inr assms] register_Inr(1) [OF Inr assms] show ?thesis by simp
next
  case (Inl e)
  have "sm_len m \<le> length (sm_entries m)" using assms by (simp add: sm_wf_def)
  with Inl show ?thesis
    using sym_clash_None [of h n "sm_iter m"]
    by (auto simp: register_with_hash_def lookup_by_hash_def find_None_iff split: option.splits if_splits)
qed

lemma symmap_register_refines_witness:
  "case register_with_hash 7 [97] 4096 (sym_map_new 4) of
      Inr m' \<Rightarrow> lookup_by_hash 7 m' = Some \<lparr>se_hash = 7, se_name = [97], se_addr = 4096\<rparr> | Inl e \<Rightarrow> False"
proof -
  have "\<exists>m'. register_with_hash 7 [97] 4096 (sym_map_new 4) = Inr m'"
    by (simp add: register_with_hash_def sm_wf_new, simp add: sym_map_new_def)
  then obtain m' where m': "register_with_hash 7 [97] 4096 (sym_map_new 4) = Inr m'" ..
  have "sm_abs m' = (sm_abs (sym_map_new 4))(7 \<mapsto> \<lparr>se_hash = 7, se_name = [97], se_addr = 4096\<rparr>)"
    using symmap_register_refines [OF sm_wf_new(1) [of 4], of 7 "[97]" 4096] by (simp add: m')
  from fun_cong [OF this, of 7] show ?thesis by (simp add: m')
qed

text \<open>Whatever a loop of registrations did, finished or stopped by an error, the rollback guard
  puts the map back to exactly the state before it.\<close>

theorem symmap_rollback_exact:
  assumes "sm_wf m" "register_all row is m = (res, m')"
  shows "sym_rollback (sm_len m) m' = m"
proof -
  note w = register_all_wf [OF assms]
  with symlog.undo_restores [OF assms(1), of m'] show ?thesis
    by (intro sm_eqI assms(1)) simp_all
qed

lemma symmap_rollback_exact_witness:
  "\<exists>m'. register_all (\<lambda>i. Inr (i, [], 1)) [4, 5, 4] (sym_map_new 8) = (Inl E_SYMBOL_HASH_COLLISION, m')
     \<and> sm_len m' = 2 \<and> sym_rollback 0 m' = sym_map_new 8"
proof -
  have "\<exists>m'. register_all (\<lambda>i. Inr (i, [], 1)) [4, 5, 4] (sym_map_new 8) = (Inl E_SYMBOL_HASH_COLLISION, m')
     \<and> sm_len m' = 2"
    by (simp add: sym_map_new_def register_with_hash_def sm_iter_def List.map_filter_def eval_nat_numeral)
  with symmap_rollback_exact [OF sm_wf_new(1), of "\<lambda>i. Inr (i, [], 1)" "[4, 5, 4]" 8] show ?thesis
    by (auto simp: sym_map_new_def)
qed

section \<open>Generated symbol tables\<close>

lemma register_all_lookup:
  assumes "sm_wf m" "register_all (\<lambda>i. Inr (row i)) is m = (Inr u, m')"
  shows "(\<forall>i \<in> set is. sm_abs m' (fst (row i))
        = Some \<lparr>se_hash = fst (row i), se_name = fst (snd (row i)), se_addr = snd (snd (row i))\<rparr>)
    \<and> (\<forall>k. sm_abs m k \<noteq> None \<longrightarrow> sm_abs m' k = sm_abs m k)"
  using assms
proof (induction "is" arbitrary: m)
  case (Cons i "is")
  obtain h n a where r: "row i = (h, n, a)" by (cases "row i")
  with Cons.prems(2) obtain m2 where m2: "register_with_hash h n a m = Inr m2"
    "register_all (\<lambda>i. Inr (row i)) is m2 = (Inr u, m')"
    by (auto split: sum.splits)
  note w = register_Inr(1,3) [OF m2(1) Cons.prems(1)]
  have "sm_abs m h = None" using w(2) by (auto simp: lookup_by_hash_def find_None_iff)
  note IH = Cons.IH [OF w(1) m2(2)]
  have ab: "sm_abs m2 k = (if k = h then Some \<lparr>se_hash = h, se_name = n, se_addr = a\<rparr> else sm_abs m k)" for k
    using fun_cong [OF register_abs [OF m2(1) Cons.prems(1)], of k] by simp
  have "sm_abs m' h = Some \<lparr>se_hash = h, se_name = n, se_addr = a\<rparr>"
    using IH ab [of h] by simp
  moreover have "sm_abs m' k = sm_abs m k" if "sm_abs m k \<noteq> None" for k
    using IH ab [of k] that \<open>sm_abs m h = None\<close> by (auto split: if_splits)
  ultimately show ?case using IH r by auto
qed simp

text \<open>After a generated symbol table has been read without error, every row's hash resolves to
  the row's address, and every symbol known before still resolves to its old entry.\<close>

theorem symtab_resolves:
  assumes "sm_wf m" "register_symtab_bytes umax bytes m = (Inr n, m')" "i < n"
  shows "(\<exists>e. lookup_by_hash (u64_at bytes (8 + i * 16)) m' = Some e
        \<and> se_addr e = unat (u64_at bytes (16 + i * 16)) mod (umax + 1))
    \<and> (\<forall>k. lookup_by_hash k m \<noteq> None \<longrightarrow> lookup_by_hash k m' = lookup_by_hash k m)"
proof -
  obtain u where "register_all (\<lambda>i. Inr (symtab_row umax bytes i)) [0..<n] m = (Inr u, m')"
    using assms(2) by (auto simp: register_symtab_bytes_def Let_def split: if_splits prod.splits sum.splits)
  from register_all_lookup [OF assms(1) this] assms(3) show ?thesis
    by (auto simp: symtab_row_def Let_def add.commute)
qed

section \<open>Labels\<close>

definition cg_hex_digit :: "u8 \<Rightarrow> u8" where
  "cg_hex_digit nib = (if nib < 10 then 48 + nib else 97 + (nib - 10))"

definition write_label :: "bytes \<Rightarrow> bytes" where
  "write_label name =
    (let hash = fnv1a_u64 name in
     [119, 95] @ map (\<lambda>i. cg_hex_digit (ucast (drop_bit (4 * i) hash AND 0xf))) (rev [0..<16]))"

lemma hex_digit_cg: "nib < 16 \<Longrightarrow> hex_digit (cg_hex_digit nib) = Some nib"
  by (simp add: hex_digit_def cg_hex_digit_def word_le_nat_alt word_less_nat_alt unat_word_ariths unat_sub_if')

lemma nib_less: "(ucast ((x :: u64) AND 0xf) :: u8) < 16"
proof -
  have "unat (x AND 0xf) < 16"
    using word_and_le1 [of x 15] by (simp add: word_le_nat_alt)
  then show ?thesis by (simp add: word_less_nat_alt unsigned_ucast_eq take_bit_nat_eq_self)
qed

lemma hex_value_nibbles:
  "hex_value acc (map (\<lambda>i. cg_hex_digit (ucast (drop_bit (4 * i) h AND 0xf))) (rev [0..<k]))
    = Some (push_bit (4 * k) acc OR take_bit (4 * k) h)"
proof (induction k arbitrary: acc)
  case (Suc k)
  have "push_bit (4 * k) (push_bit 4 acc OR ucast (ucast (drop_bit (4 * k) h AND 0xf) :: u8)) OR take_bit (4 * k) h
      = push_bit (4 * Suc k) acc OR take_bit (4 * Suc k) h"
  proof (rule bit_word_eqI)
    fix n assume "n < LENGTH(64)"
    then have n: "n < 64" by simp
    have m: "(15 :: u64) = mask 4" by (simp add: mask_eq_exp_minus_1)
    have e: "4 * Suc k = 4 * k + 4" by simp
    consider "n < 4 * k" | "4 * k \<le> n" "n < 4 * k + 4" | "4 * k + 4 \<le> n" by linarith
    then show "bit (push_bit (4 * k) (push_bit 4 acc OR ucast (ucast (drop_bit (4 * k) h AND 0xf) :: u8)) OR take_bit (4 * k) h) n
        = bit (push_bit (4 * Suc k) acc OR take_bit (4 * Suc k) h) n"
      unfolding m e using n by cases (auto simp: bit_simps)
  qed
  then show ?case
    using Suc.IH [of "push_bit 4 acc OR ucast (ucast (drop_bit (4 * k) h AND 0xf) :: u8)"]
    by (simp add: hex_digit_cg nib_less)
qed simp

text \<open>The label a code generator writes for a word is hashed by the linker tables and the
  loader to the hash of the word's name: \<open>linked_symbol_hash\<close> inverts \<open>write_label\<close>.\<close>

theorem label_hash_round_trip: "linked_symbol_hash (write_label name) = fnv1a_u64 name"
proof -
  let ?hex = "map (\<lambda>i. cg_hex_digit (ucast (drop_bit (4 * i) (fnv1a_u64 name) AND 0xf))) (rev [0..<16])"
  have "list_all (\<lambda>b. hex_digit b \<noteq> None) ?hex"
    unfolding list_all_iff by (auto simp: hex_digit_cg nib_less)
  moreover have "hex_value 0 ?hex = Some (fnv1a_u64 name)"
    unfolding hex_value_nibbles using take_bit_length_eq [of "fnv1a_u64 name"] by simp
  moreover have "write_label name = [119, 95] @ ?hex" by (simp add: write_label_def Let_def)
  moreover have "length ?hex = 16" by (simp del: upt_rec_numeral)
  ultimately have "parse_mangled_word_hash (write_label name) = Some (fnv1a_u64 name)"
    unfolding parse_mangled_word_hash_def Let_def by (simp del: upt_rec_numeral list.map)
  then show ?thesis by (simp add: linked_symbol_hash_def)
qed

definition sample_symtab :: bytes where
  "sample_symtab = to_le (1 :: u32) @ [0, 0, 0, 0] @ to_le (0xabc :: u64) @ to_le (0x8000 :: u64)"

lemma symtab_resolves_witness:
  "\<exists>m' e. register_symtab_bytes 18446744073709551615 sample_symtab (sym_map_new 4) = (Inr 1, m')
     \<and> lookup_by_hash 0xabc m' = Some e \<and> se_addr e = 0x8000"
proof -
  have f: "u32_at sample_symtab 0 = 1" "u64_at sample_symtab 8 = 0xabc" "u64_at sample_symtab 16 = 0x8000"
    "length sample_symtab = 24"
    by (simp_all add: sample_symtab_def u32_at_def u64_at_def slice_def le32.dec_enc le64.dec_enc)
  have "\<exists>m'. register_symtab_bytes 18446744073709551615 sample_symtab (sym_map_new 4) = (Inr 1, m')"
    by (simp add: register_symtab_bytes_def f symtab_row_def register_with_hash_def sm_wf_new Let_def)
      (simp add: sym_map_new_def)
  then obtain m' where m': "register_symtab_bytes 18446744073709551615 sample_symtab (sym_map_new 4) = (Inr 1, m')" ..
  from symtab_resolves [OF sm_wf_new(1) m', of 0] m' show ?thesis by (auto simp: f)
qed

end
