(* ===== verification/LoadProps.thy ===== *)
theory LoadProps
  imports Load ApertureProps SymProps
begin

text \<open>
  The loader as a transaction: a failed load leaves the symbol map, the loaded set and the
  live reservations as they were; a successful one has passed every check and
  registered its exports; a module is never loaded twice.
\<close>

section \<open>Steps that only append\<close>

definition ld_wf :: "'p load_state \<Rightarrow> bool" where
  "ld_wf s \<longleftrightarrow> sm_wf (ld_map s) \<and> reg_wf (ld_reg s)"

definition grows :: "'p load_state \<Rightarrow> 'p load_state \<Rightarrow> bool" where
  "grows s s' \<longleftrightarrow> ld_wf s' \<and> prefix (sm_iter (ld_map s)) (sm_iter (ld_map s'))
     \<and> length (sm_entries (ld_map s')) = length (sm_entries (ld_map s))
     \<and> prefix (bound_pairs (ld_reg s)) (bound_pairs (ld_reg s'))"

lemma grows_refl: "ld_wf s \<Longrightarrow> grows s s" by (simp add: grows_def)

lemma grows_trans: "grows s t \<Longrightarrow> grows t u \<Longrightarrow> grows s u"
  by (auto simp: grows_def intro: prefix_order.trans)

lemma grows_wf: "grows s s' \<Longrightarrow> ld_wf s'" by (simp add: grows_def)

named_theorems step_intro

text \<open>A step that keeps the loaded set, and one that keeps it when it fails.\<close>

definition keeps :: "('p, 'a) load \<Rightarrow> bool" where
  "keeps m \<longleftrightarrow> (\<forall>s r s'. ld_wf s \<longrightarrow> m s = (r, s') \<longrightarrow> grows s s' \<and> ld_set s' = ld_set s)"

definition keeps_failing :: "('p, 'a) load \<Rightarrow> bool" where
  "keeps_failing m \<longleftrightarrow> (\<forall>s r s'. ld_wf s \<longrightarrow> m s = (r, s') \<longrightarrow>
     grows s s' \<and> (\<forall>e. r = Inl e \<longrightarrow> ld_set s' = ld_set s))"

lemma keepsI: "(\<And>s r s'. ld_wf s \<Longrightarrow> m s = (r, s') \<Longrightarrow> grows s s' \<and> ld_set s' = ld_set s) \<Longrightarrow> keeps m"
  by (simp add: keeps_def)

lemma keeps_sbind [step_intro]: "keeps m \<Longrightarrow> (\<And>x. keeps (f x)) \<Longrightarrow> keeps (sbind m f)"
  unfolding keeps_def sbind_def
  by (auto split: prod.splits sum.splits) (metis grows_trans grows_wf)+

lemma keeps_failing_sbind [step_intro]:
  "keeps m \<Longrightarrow> (\<And>x. keeps_failing (f x)) \<Longrightarrow> keeps_failing (sbind m f)"
  unfolding keeps_def keeps_failing_def sbind_def
  by (auto split: prod.splits sum.splits) (metis grows_trans grows_wf)+

lemma keeps_pure [step_intro]: "keeps (spure r)"
  by (rule keepsI) (auto simp: spure_def grows_refl)

lemma keeps_same [step_intro]: "keeps (\<lambda>s. (f s, s))"
  by (rule keepsI) (auto simp: grows_refl)

lemma grows_plat: "ld_wf s \<Longrightarrow> grows s (s\<lparr>ld_plat := q\<rparr>)"
  by (simp add: grows_def ld_wf_def)

lemma keeps_plat [step_intro]: "keeps (plat_op f)"
  by (rule keepsI) (auto simp: plat_op_def grows_plat split: prod.splits sum.splits)

lemma keeps_if [step_intro]: "keeps m \<Longrightarrow> keeps m' \<Longrightarrow> keeps (if b then m else m')" by simp

lemma keeps_alloc_opt [step_intro]: "keeps m \<Longrightarrow> keeps (alloc_opt m n)"
  unfolding alloc_opt_def by (auto intro!: step_intro)

lemma keeps_place [step_intro]: "keeps (place_sections umax p c)"
  unfolding place_sections_def Let_def by (intro step_intro)

lemma keeps_bind [step_intro]: "keeps (bind_step umax p modinfo owner)"
proof (rule keepsI)
  fix s r and s' :: "'a load_state" assume a: "ld_wf s" "bind_step umax p modinfo owner s = (r, s')"
  obtain q reg where b: "bind_apertures umax modinfo (pf_platform_hash p) (pf_aperture_table p) (ld_reg s) owner = (q, reg)"
    by force
  have w: "reg_wf (ld_reg s)" using a(1) by (simp add: ld_wf_def)
  show "grows s s' \<and> ld_set s' = ld_set s"
    using a bind_apertures_wf [OF w b] by (auto simp: bind_step_def b grows_def ld_wf_def)
qed

lemma keeps_init [step_intro]: "keeps (run_init_if_present umax arm p modinfo base code)"
  unfolding run_init_if_present_def
  by (intro keeps_sbind keeps_pure keeps_if) (auto intro!: keepsI simp: grows_plat)

lemma register_loop_wf:
  "sm_wf m \<Longrightarrow> register_loop read addr is m = (r, m') \<Longrightarrow>
    sm_wf m' \<and> prefix (sm_iter m) (sm_iter m') \<and> length (sm_entries m') = length (sm_entries m)"
proof (induction "is" arbitrary: m)
  case (Cons i "is")
  show ?case
  proof (cases "ok_or BadContainer (read (word_of_nat i))")
    case (Inl f)
    then show ?thesis using Cons.prems by simp
  next
    case (Inr e)
    show ?thesis
    proof (cases "x_name e = MOD_INIT_NAME")
      case True
      then show ?thesis using Cons Inr by simp
    next
      case ne: False
      show ?thesis
      proof (cases "register_with_hash (x_sym_hash e) (x_name e) addr m")
        case (Inl code)
        then show ?thesis using Cons.prems Inr ne by (simp add: \<open>ok_or _ _ = Inr e\<close>)
      next
        case (Inr m2)
        note m2 = register_Inr [OF Inr Cons.prems(1)]
        have "length (sm_entries m2) = length (sm_entries m)"
          using Inr by (auto simp: register_with_hash_def split: option.splits if_splits)
        then show ?thesis
          using Cons.IH [OF m2(1)] Cons.prems(2) Inr ne \<open>ok_or _ _ = Inr e\<close> m2(2)
          by (auto simp: append_prefixD)
      qed
    qed
  qed
qed simp

lemma keeps_register [step_intro]: "keeps (register_exports umax arm modinfo base)"
proof (rule keepsI)
  fix s r and s' :: "'a load_state" assume a: "ld_wf s" "register_exports umax arm modinfo base s = (r, s')"
  then have w: "sm_wf (ld_map s)" by (simp add: ld_wf_def)
  show "grows s s' \<and> ld_set s' = ld_set s"
    using a register_loop_wf [OF w]
    by (auto simp: register_exports_def grows_refl grows_def ld_wf_def split: if_splits sum.splits prod.splits)
qed

lemma keeps_failing_insert: "keeps_failing (sbind (insert_step h) (\<lambda>_. spure (Inr x)))"
  unfolding keeps_failing_def
  by (auto simp: sbind_def insert_step_def spure_def grows_def ld_wf_def lerr_def split: sum.splits)

lemma guarded_load_keeps: "keeps_failing (guarded_load umax arm p c h modinfo)"
  unfolding guarded_load_def Let_def
  by (intro keeps_failing_sbind step_intro keeps_failing_insert) (auto intro!: step_intro keeps_failing_insert)

text \<open>C2: A load that fails, by an error or a panic under its guards, leaves the symbol map and the
  loaded set exactly as they were and the same apertures reserved for the same owners.\<close>

theorem load_transactional:
  assumes "sm_wf (ld_map s)" "reg_wf (ld_reg s)" "load_module umax arm sha c p s = (Inl f, s')"
  shows "ld_map s' = ld_map s \<and> ld_set s' = ld_set s
    \<and> reg_wf (ld_reg s') \<and> bound_pairs (ld_reg s') = bound_pairs (ld_reg s)"
proof (cases "pre_checks umax sha p c (ld_set s)")
  case (Inl e)
  then show ?thesis using assms by (simp add: load_module_def)
next
  case (Inr x)
  obtain h modinfo where x: "x = (h, modinfo)" by (cases x)
  obtain r t where g: "guarded_load umax arm p c h modinfo s = (r, t)" by force
  have gr: "grows s t" "\<forall>e. r = Inl e \<longrightarrow> ld_set t = ld_set s"
    using guarded_load_keeps [of umax arm p c h modinfo] g assms(1,2)
    unfolding keeps_failing_def ld_wf_def by blast+
  have r: "r = Inl f" and s': "s' = t\<lparr>ld_map := sym_rollback (sm_len (ld_map s)) (ld_map t),
      ld_reg := rollback (reg_mark (ld_reg s)) (ld_reg t)\<rparr>"
    using assms(3) Inr g by (auto simp: load_module_def x with_guards_def split: sum.splits)
  have "sm_iter (sym_rollback (sm_len (ld_map s)) (ld_map t)) = sm_iter (ld_map s)
    \<and> sm_wf (sym_rollback (sm_len (ld_map s)) (ld_map t))"
    using symlog.undo_restores [OF assms(1), of "ld_map t"] gr(1) by (auto simp: grows_def ld_wf_def)
  then have "sym_rollback (sm_len (ld_map s)) (ld_map t) = ld_map s"
    using gr(1) by (intro sm_eqI assms(1)) (simp_all add: grows_def)
  moreover have "reg_wf (rollback (reg_mark (ld_reg s)) (ld_reg t))
    \<and> bound_pairs (rollback (reg_mark (ld_reg s)) (ld_reg t)) = bound_pairs (ld_reg s)"
    using areg.undo_restores [OF assms(2), of "ld_reg t"] gr(1) by (auto simp: grows_def ld_wf_def)
  ultimately show ?thesis using gr(2) r by (simp add: s')
qed

section \<open>What a successful load has checked\<close>

lemma sbind_Inr: "sbind m f s = (Inr y, s') \<longleftrightarrow> (\<exists>x s1. m s = (Inr x, s1) \<and> f x s1 = (Inr y, s'))"
  by (auto simp: sbind_def split: prod.splits sum.splits)

lemma spure_Inr: "spure r s = (Inr y, s') \<longleftrightarrow> r = Inr y \<and> s' = s"
  by (auto simp: spure_def)

lemma for_exports_Inr:
  "for_exports read f is = Inr u \<longleftrightarrow>
    (\<forall>i \<in> set is. \<exists>e. read (word_of_nat i) = Got e \<and> (x_name e \<noteq> MOD_INIT_NAME \<longrightarrow> f e = Inr ()))"
  by (induction "is") (auto simp: result_simps)

lemma decode_nonempty: "decode_modinfo umax d = Got mi \<Longrightarrow> d \<noteq> []"
  by (auto simp: decode_modinfo_def MODINFO_HEADER_SIZE_def)

definition bounded_export :: "nat \<Rightarrow> bytes \<Rightarrow> u32 \<Rightarrow> nat \<Rightarrow> bool" where
  "bounded_export umax d remaining i \<longleftrightarrow> (\<exists>e. read_export umax d (word_of_nat i) = Got e
     \<and> (x_name e \<noteq> MOD_INIT_NAME \<longrightarrow>
         (\<exists>b. read_word_meta_stack_bound umax d (x_value_off e) = Inr b \<and> b \<le> remaining)))"

definition signature_ok :: "'p platform \<Rightarrow> container \<Rightarrow> bool" where
  "signature_ok p c \<longleftrightarrow> (\<exists>t. parse_trailer (drop (signed_region_len (c_hdr c)) (c_data c)) = Some t
     \<and> scheme t \<noteq> SCHEME_NONE
     \<and> pf_verify_sig p (take (signed_region_len (c_hdr c)) (c_data c)) (sig_bytes t))"

lemma trust_rank_zero [simp]: "trust_rank t = 0 \<longleftrightarrow> t = TZero"
  by (cases t) simp_all

lemma verify_signature_Inr:
  "verify_signature_if_required (c_hdr c) p (c_data c) = Inr u \<Longrightarrow> pf_trust_level p \<noteq> TZero \<Longrightarrow> signature_ok p c"
  by (auto simp: verify_signature_if_required_def signature_ok_def Let_def
      split: if_splits option.splits)

lemma validate_modinfo_Inr:
  assumes "validate_modinfo_for_load umax d remaining = Inr u" "decode_modinfo umax d = Got mi"
  shows "\<not> has_isr mi \<and> (\<forall>i < unat (m_export_count mi). bounded_export umax d remaining i)"
  using assms decode_nonempty [OF assms(2)]
  by (auto simp: validate_modinfo_for_load_def enforce_stack_bound_budget_def result_simps
      for_exports_Inr bounded_export_def)

lemma or_panic_Inr: "or_panic x = Inr y \<longleftrightarrow> x = Some y"
  by (auto simp: or_panic_def split: option.splits)

lemma pre_checks_Inr:
  assumes "pre_checks umax sha p c ls = Inr (h, d)"
  obtains mi where "c_modinfo c = Some d" "decode_modinfo umax d = Got mi" "h = fnv1a_u64 (mod_info.m_name mi)"
    "h_abi_hash (c_hdr c) = pf_expected_abi_hash p" "\<not> loaded_contains h ls"
    "h_flags (c_hdr c) AND LMOD_FLAG_ENCRYPTED = 0" "pf_trust_level p \<noteq> TZero \<longrightarrow> signature_ok p c"
    "h_flags (c_hdr c) AND LMOD_FLAG_SIGNED \<noteq> 0 \<longrightarrow> pf_trust_level p \<noteq> TZero"
    "\<not> has_isr mi" "\<forall>i < unat (m_export_count mi). bounded_export umax d (pf_ds_remaining_slots p) i"
    "validate_verify_manifest sha d p = Inr ()"
proof -
  obtain mi where f: "h_abi_hash (c_hdr c) = pf_expected_abi_hash p" "c_modinfo c = Some d"
    "decode_modinfo umax d = Got mi" "h = fnv1a_u64 (mod_info.m_name mi)" "\<not> loaded_contains h ls"
    "h_flags (c_hdr c) AND LMOD_FLAG_SIGNED \<noteq> 0 \<longrightarrow> pf_trust_level p \<noteq> TZero"
    "verify_signature_if_required (c_hdr c) p (c_data c) = Inr ()"
    "reject_encrypted_without_feature (c_hdr c) = Inr ()"
    "validate_modinfo_for_load umax d (pf_ds_remaining_slots p) = Inr ()"
    "validate_verify_manifest sha d p = Inr ()"
    using assms unfolding pre_checks_def Let_def
    by (auto simp: result_simps or_panic_Inr)
  show thesis
    by (rule that [OF f(2,3,4,1,5) _ _ f(6) _ _ f(10)])
      (use f(7,8) verify_signature_Inr validate_modinfo_Inr [OF f(9,3)] in
        \<open>auto simp: reject_encrypted_without_feature_def result_simps\<close>)
qed

lemma read_res_down:
  "read_res_meta umax d i = Got rm \<Longrightarrow> j \<le> i \<Longrightarrow> \<exists>rm'. read_res_meta umax d j = Got rm'"
  by (cases "decode_modinfo umax d"; cases "res_meta_offset umax d")
    (auto simp: read_res_meta_def Let_def split: if_splits intro: order.strict_trans1)

lemma sharing_loop_Inr:
  assumes "sharing_loop read n ri = Inr u" "k < n" "\<forall>j \<le> k. \<exists>rm. read (ri + word_of_nat j) = Got rm"
    "read (ri + word_of_nat k) = Got rm"
  shows "sharing_class rm = 0"
  using assms
proof (induction n arbitrary: ri k)
  case (Suc n)
  obtain rm0 where r0: "read ri = Got rm0" using Suc.prems(3) by force
  have z: "sharing_class rm0 = 0" "sharing_loop read n (ri + 1) = Inr u"
    using Suc.prems(1) r0 by (auto split: if_splits)
  show ?case
  proof (cases k)
    case 0
    then show ?thesis using r0 z Suc.prems(4) by simp
  next
    case (Suc k')
    have "\<forall>j \<le> k'. \<exists>rm. read (ri + 1 + word_of_nat j) = Got rm"
    proof (intro allI impI)
      fix j assume "j \<le> k'"
      then show "\<exists>rm. read (ri + 1 + word_of_nat j) = Got rm"
        using Suc.prems(3) [THEN spec, of "Suc j"] Suc by (simp add: add.assoc)
    qed
    then show ?thesis
      using Suc.IH [OF z(2), of k'] Suc Suc.prems(2,4) by (simp add: add.assoc)
  qed
qed simp

lemma check_sharing_Inr:
  assumes "check_resource_sharing umax d = Inr u" "decode_modinfo umax d = Got mi"
    "read_res_meta umax d i = Got rm"
  shows "sharing_class rm = 0"
proof -
  have l: "sharing_loop (read_res_meta umax d) (2 ^ 16) 0 = Inr u"
    using assms(1) decode_nonempty [OF assms(2)] by (simp add: check_resource_sharing_def)
  have "i < m_res_meta_count mi"
    using assms(2,3) by (auto simp: read_res_meta_def not_le split: if_splits)
  moreover have "unat (m_res_meta_count mi) < 2 ^ 16"
  proof -
    obtain w :: u16 where "m_res_meta_count mi = ucast w"
      using assms(2) by (auto simp: decode_modinfo_def Let_def split: if_splits)
    then show ?thesis using unsigned_less [where ?'a = nat and w = w] by (simp add: unsigned_ucast_eq take_bit_nat_eq_self)
  qed
  ultimately have k: "unat i < 2 ^ 16" by (simp add: word_less_nat_alt)
  have "\<forall>j \<le> unat i. \<exists>rm. read_res_meta umax d (word_of_nat j) = Got rm"
  proof (intro allI impI)
    fix j assume "j \<le> unat i"
    then have "(word_of_nat j :: u32) \<le> i" using k by (simp add: word_le_nat_alt unat_of_nat take_bit_nat_eq_self)
    then show "\<exists>rm. read_res_meta umax d (word_of_nat j) = Got rm" by (rule read_res_down [OF assms(3)])
  qed
  then show ?thesis using sharing_loop_Inr [OF l k, of rm] assms(3) by simp
qed

section \<open>The guarded part on success\<close>

lemma with_guards_Inr: "with_guards m s = (Inr x, s') \<longleftrightarrow> m s = (Inr x, s')"
  by (auto simp: with_guards_def split: prod.splits sum.splits)

lemma load_Inr:
  assumes "load_module umax arm sha c p s = (Inr lm, s')"
  obtains h d where "pre_checks umax sha p c (ld_set s) = Inr (h, d)"
    "guarded_load umax arm p c h d s = (Inr lm, s')"
  using assms by (auto simp: load_module_def with_guards_Inr split: sum.splits prod.splits)

lemma run_init_Inr: "run_init_if_present umax arm p d b rx s = (Inr x, s') \<Longrightarrow> ld_map s' = ld_map s \<and> ld_set s' = ld_set s"
  by (auto simp: run_init_if_present_def sbind_Inr spure_Inr split: if_splits)

lemma plat_op_Inr: "plat_op f s = (Inr x, s') \<Longrightarrow> ld_map s' = ld_map s \<and> ld_set s' = ld_set s \<and> ld_reg s' = ld_reg s"
  by (auto simp: plat_op_def lerr_def split: prod.splits sum.splits)

lemma guarded_load_Inr:
  assumes "guarded_load umax arm p c h d s = (Inr lm, s')" "ld_wf s"
  obtains t u base where "grows s t" "ld_set t = ld_set s"
    "register_exports umax arm d base t = (Inr (), u)"
    "check_resource_sharing umax d = Inr ()"
    "verify_trust_two_stack_bounds umax p (rg_bytes (lm_code lm)) d = Inr ()"
    "loaded_insert h (ld_set u) = Inr (ld_set s')" "ld_map s' = ld_map u" "ld_reg s' = ld_reg u"
    "lm_abi_hash lm = h_abi_hash (c_hdr c)" "pf_placement_policy p = CopyToRam"
    "\<exists>code q q'. pf_make_exec p code q = (Inr (lm_code lm), q') \<and> base = unat (rg_addr code)"
proof -
  obtain bases s1 where b: "bind_step umax p d (h_abi_hash (c_hdr c)) s = (Inr bases, s1)"
    and g1: "sbind (spure (l_guard (pf_placement_policy p = CopyToRam) BadContainer)) (\<lambda>_.
      sbind (place_sections umax p c) (\<lambda>(code, rodata, data).
      let code_base = unat (rg_addr code) in
      sbind (\<lambda>s. (apply_import_relocations (rg_addr code) c (ld_map s) bases (rg_bytes code), s)) (\<lambda>code_bytes.
      sbind (plat_op (pf_make_exec p (code\<lparr>rg_bytes := code_bytes\<rparr>))) (\<lambda>rx.
      sbind (run_init_if_present umax arm p d code_base rx) (\<lambda>init_addr.
      sbind (register_exports umax arm d code_base) (\<lambda>_.
      sbind (spure (verify_trust_two_stack_bounds umax p (rg_bytes rx) d)) (\<lambda>_.
      sbind (spure (check_resource_sharing umax d)) (\<lambda>_.
      sbind (insert_step h) (\<lambda>_.
      spure (Inr \<lparr>lm_code = rx, lm_rodata = (case rodata of Some r \<Rightarrow> r | None \<Rightarrow> null_region),
                lm_data = (case data of Some r \<Rightarrow> r | None \<Rightarrow> null_region),
                lm_init = init_addr, lm_abi_hash = h_abi_hash (c_hdr c)\<rparr>)))))))))) s1 = (Inr lm, s')"
    using assms(1) unfolding guarded_load_def by (subst (asm) sbind_Inr) blast
  obtain code rodata data s2 where pl: "pf_placement_policy p = CopyToRam"
    "place_sections umax p c s1 = (Inr (code, rodata, data), s2)"
    and g2: "sbind (\<lambda>s. (apply_import_relocations (rg_addr code) c (ld_map s) bases (rg_bytes code), s)) (\<lambda>code_bytes.
      sbind (plat_op (pf_make_exec p (code\<lparr>rg_bytes := code_bytes\<rparr>))) (\<lambda>rx.
      sbind (run_init_if_present umax arm p d (unat (rg_addr code)) rx) (\<lambda>init_addr.
      sbind (register_exports umax arm d (unat (rg_addr code))) (\<lambda>_.
      sbind (spure (verify_trust_two_stack_bounds umax p (rg_bytes rx) d)) (\<lambda>_.
      sbind (spure (check_resource_sharing umax d)) (\<lambda>_.
      sbind (insert_step h) (\<lambda>_.
      spure (Inr \<lparr>lm_code = rx, lm_rodata = (case rodata of Some r \<Rightarrow> r | None \<Rightarrow> null_region),
                lm_data = (case data of Some r \<Rightarrow> r | None \<Rightarrow> null_region),
                lm_init = init_addr, lm_abi_hash = h_abi_hash (c_hdr c)\<rparr>)))))))) s2 = (Inr lm, s')"
    using g1 by (auto simp: sbind_Inr spure_Inr l_guard_Inr Let_def)
  obtain code_bytes rx s3 init_addr s4 u where
    mk: "plat_op (pf_make_exec p (code\<lparr>rg_bytes := code_bytes\<rparr>)) s2 = (Inr rx, s3)"
    and ini: "run_init_if_present umax arm p d (unat (rg_addr code)) rx s3 = (Inr init_addr, s4)"
    and reg: "register_exports umax arm d (unat (rg_addr code)) s4 = (Inr (), u)"
    and fin: "verify_trust_two_stack_bounds umax p (rg_bytes rx) d = Inr ()"
      "check_resource_sharing umax d = Inr ()" "insert_step h u = (Inr (), s')"
      "lm = \<lparr>lm_code = rx, lm_rodata = (case rodata of Some r \<Rightarrow> r | None \<Rightarrow> null_region),
                lm_data = (case data of Some r \<Rightarrow> r | None \<Rightarrow> null_region),
                lm_init = init_addr, lm_abi_hash = h_abi_hash (c_hdr c)\<rparr>"
    using g2 by (auto simp: sbind_Inr spure_Inr)
  have k1: "grows s s1 \<and> ld_set s1 = ld_set s" using keeps_bind b assms(2) unfolding keeps_def by blast
  have k2: "grows s1 s2 \<and> ld_set s2 = ld_set s1" using keeps_place pl(2) grows_wf k1 unfolding keeps_def by blast
  have k3: "grows s2 s3 \<and> ld_set s3 = ld_set s2" using keeps_plat mk grows_wf k2 unfolding keeps_def by blast
  have k4: "grows s3 s4 \<and> ld_set s4 = ld_set s3" using keeps_init ini grows_wf k3 unfolding keeps_def by blast
  have "grows s s4" using k1 k2 k3 k4 grows_trans by blast
  moreover have "loaded_insert h (ld_set u) = Inr (ld_set s')" "ld_map s' = ld_map u" "ld_reg s' = ld_reg u"
    using fin(3) by (auto simp: insert_step_def lerr_def split: sum.splits)
  moreover obtain q q' where "pf_make_exec p (code\<lparr>rg_bytes := code_bytes\<rparr>) q = (Inr rx, q')"
    using mk by (cases "pf_make_exec p (code\<lparr>rg_bytes := code_bytes\<rparr>) (ld_plat s2)")
      (auto simp: plat_op_def lerr_def split: sum.splits)
  then have "\<exists>x q q'. pf_make_exec p x q = (Inr (lm_code lm), q') \<and> unat (rg_addr code) = unat (rg_addr x)"
    by (intro exI [of _ "code\<lparr>rg_bytes := code_bytes\<rparr>"] exI [of _ q] exI [of _ q']) (simp add: fin(4))
  ultimately show thesis
    using that [of s4 "unat (rg_addr code)" u] k1 k2 k3 k4 reg fin pl(1) by simp
qed

lemma loaded_insert_contains: "loaded_insert h ls = Inr ls' \<Longrightarrow> hs_len ls \<le> length (hs_hashes ls) \<Longrightarrow>
    loaded_contains h ls' \<and> hs_len ls' \<le> length (hs_hashes ls') \<and> (\<forall>k. loaded_contains k ls \<longrightarrow> loaded_contains k ls')"
  by (auto simp: loaded_insert_def loaded_contains_def take_Suc_update split: if_splits)

lemma register_exports_set: "register_exports umax arm d base s = (r, s') \<Longrightarrow> ld_set s' = ld_set s"
  by (auto simp: register_exports_def split: if_splits sum.splits prod.splits)

text \<open>C3: A module that loads was compiled for this ABI, is not encrypted, is signed with a signature
  the platform accepts whenever the platform asks for signatures, declares no interrupt
  handler, has a data-stack bound for every export but the init word that fits the
  slots left, and declares no shared resource.\<close>

theorem load_admits_only_checked:
  assumes "load_module umax arm sha c p s = (Inr lm, s')" "sm_wf (ld_map s)" "reg_wf (ld_reg s)"
  shows "\<exists>d mi. c_modinfo c = Some d \<and> decode_modinfo umax d = Got mi
    \<and> h_abi_hash (c_hdr c) = pf_expected_abi_hash p
    \<and> h_flags (c_hdr c) AND LMOD_FLAG_ENCRYPTED = 0
    \<and> (pf_trust_level p \<noteq> TZero \<longrightarrow> signature_ok p c)
    \<and> \<not> has_isr mi
    \<and> (\<forall>i < unat (m_export_count mi). bounded_export umax d (pf_ds_remaining_slots p) i)
    \<and> (\<forall>i rm. read_res_meta umax d i = Got rm \<longrightarrow> sharing_class rm = 0)"
proof -
  obtain h d where pc: "pre_checks umax sha p c (ld_set s) = Inr (h, d)"
    and g: "guarded_load umax arm p c h d s = (Inr lm, s')" by (rule load_Inr [OF assms(1)])
  have w: "ld_wf s" using assms(2,3) by (simp add: ld_wf_def)
  have sh: "check_resource_sharing umax d = Inr ()" by (rule guarded_load_Inr [OF g w])
  obtain mi where f: "c_modinfo c = Some d" "decode_modinfo umax d = Got mi"
    "h_abi_hash (c_hdr c) = pf_expected_abi_hash p" "h_flags (c_hdr c) AND LMOD_FLAG_ENCRYPTED = 0"
    "pf_trust_level p \<noteq> TZero \<longrightarrow> signature_ok p c" "\<not> has_isr mi"
    "\<forall>i < unat (m_export_count mi). bounded_export umax d (pf_ds_remaining_slots p) i"
    by (rule pre_checks_Inr [OF pc])
  then show ?thesis using check_sharing_Inr [OF sh f(2)] by blast
qed

lemma register_loop_lookup:
  assumes "sm_wf m" "register_loop read addr is m = (Inr u, m')"
  shows "(\<forall>i \<in> set is. \<exists>e. read (word_of_nat i) = Got e \<and> (x_name e \<noteq> MOD_INIT_NAME \<longrightarrow>
        lookup_by_hash (x_sym_hash e) m'
          = Some \<lparr>se_hash = x_sym_hash e, se_name = x_name e, se_addr = addr\<rparr>))
    \<and> (\<forall>k. lookup_by_hash k m \<noteq> None \<longrightarrow> lookup_by_hash k m' = lookup_by_hash k m)"
  using assms
proof (induction "is" arbitrary: m)
  case (Cons i "is")
  obtain e where e: "read (word_of_nat i) = Got e"
    using Cons.prems(2) by (cases "read (word_of_nat i)") auto
  show ?case
  proof (cases "x_name e = MOD_INIT_NAME")
    case True
    then show ?thesis using Cons e by simp
  next
    case False
    then obtain m2 where m2: "register_with_hash (x_sym_hash e) (x_name e) addr m = Inr m2"
      "register_loop read addr is m2 = (Inr u, m')"
      using Cons.prems(2) e by (auto simp: lerr_def split: sum.splits)
    note w = register_Inr [OF m2(1) Cons.prems(1)]
    note IH = Cons.IH [OF w(1) m2(2)]
    have free: "lookup_by_hash (x_sym_hash e) m = None"
      using w(3) by (force simp: lookup_by_hash_def find_None_iff)
    have ab: "lookup_by_hash k m2 = (if k = x_sym_hash e
        then Some \<lparr>se_hash = x_sym_hash e, se_name = x_name e, se_addr = addr\<rparr> else lookup_by_hash k m)" for k
      using fun_cong [OF register_abs [OF m2(1) Cons.prems(1)], of k] by simp
    have "lookup_by_hash (x_sym_hash e) m' = Some \<lparr>se_hash = x_sym_hash e, se_name = x_name e, se_addr = addr\<rparr>"
      using IH ab by simp
    moreover have "lookup_by_hash k m' = lookup_by_hash k m" if "lookup_by_hash k m \<noteq> None" for k
      using IH ab [of k] that free by (auto split: if_splits)
    ultimately show ?thesis using IH e by auto
  qed
qed simp

lemma find_Some_append: "find P xs \<noteq> None \<Longrightarrow> find P (xs @ ys) = find P xs"
  by (induction xs) auto

lemma lookup_prefix:
  "prefix (sm_iter m) (sm_iter m') \<Longrightarrow> lookup_by_hash k m \<noteq> None \<Longrightarrow> lookup_by_hash k m' = lookup_by_hash k m"
  unfolding lookup_by_hash_def by (elim prefixE) (metis find_Some_append)

text \<open>C19: after a successful load every export of the module but its init word resolves by its hash
  to the start of the loaded module's code region (with the Thumb bit on ARM) - all exports to this
  one address, as the code does - and every symbol known before still resolves to its old address.
  The platform turns a region executable where it is, as the LoaderPlatform trait asks.\<close>

theorem load_registers_exports:
  assumes "load_module umax arm sha c p s = (Inr lm, s')" "sm_wf (ld_map s)" "reg_wf (ld_reg s)"
    and "\<And>r q r' q'. pf_make_exec p r q = (Inr r', q') \<Longrightarrow> rg_addr r' = rg_addr r"
  shows "\<exists>d mi. c_modinfo c = Some d \<and> decode_modinfo umax d = Got mi
    \<and> (\<forall>i < unat (m_export_count mi). \<exists>e. read_export umax d (word_of_nat i) = Got e
        \<and> (x_name e \<noteq> MOD_INIT_NAME \<longrightarrow> lookup_by_hash (x_sym_hash e) (ld_map s')
            = Some \<lparr>se_hash = x_sym_hash e, se_name = x_name e,
                 se_addr = module_fn_addr arm (unat (rg_addr (lm_code lm)))\<rparr>))
    \<and> (\<forall>k. lookup_by_hash k (ld_map s) \<noteq> None \<longrightarrow> lookup_by_hash k (ld_map s') = lookup_by_hash k (ld_map s))"
proof -
  obtain h d where pc: "pre_checks umax sha p c (ld_set s) = Inr (h, d)"
    and g: "guarded_load umax arm p c h d s = (Inr lm, s')" by (rule load_Inr [OF assms(1)])
  have w: "ld_wf s" using assms(2,3) by (simp add: ld_wf_def)
  obtain mi where f: "c_modinfo c = Some d" "decode_modinfo umax d = Got mi" by (rule pre_checks_Inr [OF pc])
  obtain t u base where k: "grows s t" "register_exports umax arm d base t = (Inr (), u)" "ld_map s' = ld_map u"
    and "\<exists>code q q'. pf_make_exec p code q = (Inr (lm_code lm), q') \<and> base = unat (rg_addr code)"
    by (rule guarded_load_Inr [OF g w])
  then have base: "base = unat (rg_addr (lm_code lm))" using assms(4) by auto
  have wt: "sm_wf (ld_map t)" using k(1) by (simp add: grows_def ld_wf_def)
  have "register_loop (read_export umax d) (module_fn_addr arm base) [0..<unat (m_export_count mi)] (ld_map t)
      = (Inr (), ld_map s')"
    using k(2,3) f(2) decode_nonempty [OF f(2)]
    by (auto simp: register_exports_def split: prod.splits)
  note r = register_loop_lookup [OF wt this]
  have "lookup_by_hash x (ld_map s') = lookup_by_hash x (ld_map s)" if "lookup_by_hash x (ld_map s) \<noteq> None" for x
    using r lookup_prefix [of "ld_map s" "ld_map t" x] k(1) that by (auto simp: grows_def)
  with f r show ?thesis unfolding base by (intro exI [of _ d] exI [of _ mi]) auto
qed

section \<open>Load once\<close>

text \<open>The states a sequence of load attempts reaches, with any containers and platforms.\<close>

definition set_wf :: "loaded_set \<Rightarrow> bool" where "set_wf ls \<longleftrightarrow> hs_len ls \<le> length (hs_hashes ls)"

inductive load_steps :: "'p load_state \<Rightarrow> 'p load_state \<Rightarrow> bool" where
  steps_refl: "load_steps s s"
| steps_load: "load_steps s t \<Longrightarrow> load_module umax arm sha c p t = (r, u) \<Longrightarrow> load_steps s u"

lemma load_step_inv:
  assumes "load_module umax arm sha c p s = (r, s')" "ld_wf s" "set_wf (ld_set s)"
  shows "ld_wf s' \<and> set_wf (ld_set s') \<and> (\<forall>k. loaded_contains k (ld_set s) \<longrightarrow> loaded_contains k (ld_set s'))"
proof (cases r)
  case (Inl f)
  have w: "sm_wf (ld_map s)" "reg_wf (ld_reg s)" using assms(2) by (simp_all add: ld_wf_def)
  show ?thesis
  proof (cases "pre_checks umax sha p c (ld_set s)")
    case (Inl e)
    then show ?thesis using assms by (simp add: load_module_def)
  next
    case (Inr x)
    obtain h d where x: "x = (h, d)" by (cases x)
    obtain q t where g: "guarded_load umax arm p c h d s = (q, t)" by force
    have gr: "grows s t" "\<forall>e. q = Inl e \<longrightarrow> ld_set t = ld_set s"
      using guarded_load_keeps [of umax arm p c h d] g assms(2) unfolding keeps_failing_def by blast+
    have s': "q = Inl f" "s' = t\<lparr>ld_map := sym_rollback (sm_len (ld_map s)) (ld_map t),
        ld_reg := rollback (reg_mark (ld_reg s)) (ld_reg t)\<rparr>"
      using assms(1) Inr g \<open>r = Inl f\<close> by (auto simp: load_module_def x with_guards_def split: sum.splits)
    have "sm_wf (sym_rollback (sm_len (ld_map s)) (ld_map t))"
      "reg_wf (rollback (reg_mark (ld_reg s)) (ld_reg t))"
      using symlog.undo_restores [OF w(1), of "ld_map t"] areg.undo_restores [OF w(2), of "ld_reg t"] gr(1)
      by (auto simp: grows_def ld_wf_def)
    then show ?thesis using s' gr(2) assms(3) by (simp add: ld_wf_def)
  qed
next
  case (Inr lm)
  obtain h d where pc: "pre_checks umax sha p c (ld_set s) = Inr (h, d)"
    and g: "guarded_load umax arm p c h d s = (Inr lm, s')"
    using load_Inr [of umax arm sha c p s lm s'] assms(1) Inr by blast
  obtain t u base where k: "grows s t" "ld_set t = ld_set s" "register_exports umax arm d base t = (Inr (), u)"
    "loaded_insert h (ld_set u) = Inr (ld_set s')" "ld_map s' = ld_map u" "ld_reg s' = ld_reg u"
    by (rule guarded_load_Inr [OF g assms(2)])
  have su: "ld_set u = ld_set s" using register_exports_set [OF k(3)] k(2) by simp
  have "ld_wf u" using keeps_register k(1,3) grows_wf unfolding keeps_def by blast
  then show ?thesis
    using loaded_insert_contains [OF k(4)] assms(3) su k(5,6) by (simp add: ld_wf_def set_wf_def)
qed

lemma load_steps_inv:
  "load_steps s t \<Longrightarrow> ld_wf s \<Longrightarrow> set_wf (ld_set s) \<Longrightarrow>
    ld_wf t \<and> set_wf (ld_set t) \<and> (\<forall>k. loaded_contains k (ld_set s) \<longrightarrow> loaded_contains k (ld_set t))"
  by (induction rule: load_steps.induct) (blast dest: load_step_inv)+

text \<open>C23: However many loads are attempted, with whatever containers and platforms and whether they
  succeed or fail, the symbol map stays duplicate-free and densely filled, the aperture registry stays
  free of double reservations, and the loaded set stays inside its array.\<close>

theorem load_state_well_formed:
  assumes "load_steps s t" "sm_wf (ld_map s)" "reg_wf (ld_reg s)" "hs_len (ld_set s) \<le> length (hs_hashes (ld_set s))"
  shows "sm_wf (ld_map t) \<and> reg_wf (ld_reg t) \<and> hs_len (ld_set t) \<le> length (hs_hashes (ld_set t))"
  using load_steps_inv [OF assms(1)] assms(2-4) by (simp add: ld_wf_def set_wf_def)

text \<open>C20: Once a module has loaded, it is refused as already loaded ever after, with the state
  untouched, whatever other modules are loaded or fail to load in between.\<close>

theorem load_once:
  assumes "load_module umax arm sha c p s = (Inr lm, s')" "sm_wf (ld_map s)" "reg_wf (ld_reg s)"
    "hs_len (ld_set s) \<le> length (hs_hashes (ld_set s))" "load_steps s' t"
  shows "load_module umax arm sha c p t = (Inl (LErr ModuleAlreadyLoaded), t)"
proof -
  have w: "ld_wf s" "set_wf (ld_set s)" using assms(2-4) by (simp_all add: ld_wf_def set_wf_def)
  obtain h d where pc: "pre_checks umax sha p c (ld_set s) = Inr (h, d)"
    and g: "guarded_load umax arm p c h d s = (Inr lm, s')" by (rule load_Inr [OF assms(1)])
  obtain v u base where gr: "grows s v" and k: "ld_set v = ld_set s" "register_exports umax arm d base v = (Inr (), u)"
    "loaded_insert h (ld_set u) = Inr (ld_set s')"
    by (rule guarded_load_Inr [OF g w(1)])
  have "ld_set u = ld_set s" using register_exports_set [OF k(2)] k(1) by simp
  then have "loaded_contains h (ld_set s')"
    using loaded_insert_contains [OF k(3)] w(2) by (simp add: set_wf_def)
  then have ct: "loaded_contains h (ld_set t)"
    using load_steps_inv [OF assms(5)] load_step_inv [OF assms(1) w] by blast
  obtain mi where f: "c_modinfo c = Some d" "decode_modinfo umax d = Got mi" "h = fnv1a_u64 (mod_info.m_name mi)"
    "h_abi_hash (c_hdr c) = pf_expected_abi_hash p" by (rule pre_checks_Inr [OF pc])
  have "pre_checks umax sha p c (ld_set t) = Inl (LErr ModuleAlreadyLoaded)"
    using ct unfolding pre_checks_def Let_def f(4)
    by (simp add: f(1-3) l_guard_def or_panic_def)
  then show ?thesis by (simp add: load_module_def)
qed

end
