(* ===== verification/ManifestProps.thy ===== *)
theory ManifestProps
  imports VerifyManifest
begin

text \<open>
  The record codec: the reader never panics, what it accepts is canonical, the encoder's
  output is read back, and the binary search over the accepted entries is correct.
\<close>

named_theorems no_panic_intro

section \<open>No panic\<close>

definition no_mpanic :: "mfail + 'a \<Rightarrow> bool" where "no_mpanic r \<longleftrightarrow> r \<noteq> Inl MPanic \<and> (\<forall>e. r = Inl (MErr e) \<longrightarrow> e = 6500)"

lemma no_mpanic_bindE [no_panic_intro]:
  "no_mpanic m \<Longrightarrow> (\<And>x. m = Inr x \<Longrightarrow> no_mpanic (f x)) \<Longrightarrow> no_mpanic (bindE m f)"
  by (cases m) (auto simp: no_mpanic_def)

lemma no_mpanic_basic [no_panic_intro]: "no_mpanic (Inr x)" "no_mpanic merr"
  by (simp_all add: no_mpanic_def merr_def)

lemma no_mpanic_read [no_panic_intro]: "off + n \<le> length data \<Longrightarrow> no_mpanic (m_read n f data off)"
  by (simp add: no_mpanic_def m_read_def)

lemmas m_reads = m_u8_def m_u16_def m_u32_def m_u64_def m_slice_def

lemma no_mpanic_field [no_panic_intro]: "no_mpanic (read_field payload p)"
  unfolding read_field_def read_len_def read_bytes_def m_reads
  by (auto intro!: no_panic_intro)

lemma no_mpanic_parse [no_panic_intro]: "no_mpanic (parse_obligation payload off)"
  unfolding parse_obligation_def m_reads Let_def by (auto intro!: no_panic_intro)

lemma no_mpanic_next [no_panic_intro]: "no_mpanic (next_obligation_offset payload off)"
  unfolding next_obligation_offset_def m_reads Let_def by (auto intro!: no_panic_intro)

lemma no_mpanic_ok_or [no_panic_intro]: "no_mpanic r \<Longrightarrow> no_mpanic (ok_or_6500 r)"
  unfolding ok_or_6500_def by (auto intro!: no_panic_intro split: option.split)

lemma no_mpanic_walk [no_panic_intro]: "no_mpanic (walk_entries n payload off prev)"
  by (induction n arbitrary: off prev) (auto intro!: no_panic_intro)

lemma no_mpanic_scan [no_panic_intro]: "no_mpanic (scan_payload start payload)"
  unfolding scan_payload_def m_reads Let_def by (auto intro!: no_panic_intro split: prod.split)

text \<open>Whatever bytes it is given, the manifest scan neither indexes out of range nor fails with
  another code than 6500.\<close>

theorem manifest_scan_no_panic:
  "scan_verify_manifest data \<in> insert (Inl (MErr 6500)) (range Inr)"
proof -
  have "no_mpanic (scan_verify_manifest data)"
    unfolding scan_verify_manifest_def m_reads Let_def by (auto intro!: no_panic_intro)
  then show ?thesis unfolding no_mpanic_def by (metis insertCI mfail.exhaust obj_sumE rangeI)
qed

section \<open>What the scan accepts\<close>

lemma merr_not_Inr [simp]: "merr \<noteq> Inr x" by (simp add: merr_def)

lemma m_read_Inr: "m_read n f data off = Inr x \<longleftrightarrow> off + n \<le> length data \<and> x = f data off"
  by (auto simp: m_read_def)

lemma ok_or_6500_Inr: "ok_or_6500 r = Inr x \<longleftrightarrow> r = Inr (Some x)"
  by (auto simp: ok_or_6500_def result_simps split: option.splits)

lemma next_Inr:
  "next_obligation_offset data off = Inr (Some off') \<Longrightarrow>
    off \<le> off' \<and> off' \<le> length data \<and> off' = off + 44 + unat (u16_at data off)"
  by (auto simp: next_obligation_offset_def m_reads m_read_def Let_def split: if_splits)

definition obs_from :: "bytes \<Rightarrow> nat \<Rightarrow> obligation list \<Rightarrow> bool" where
  "obs_from data off es \<longleftrightarrow> (\<forall>i < length es. \<exists>o'. skip_obligations i data off = Inr (Some o')
     \<and> parse_obligation data o' = Inr (Some (es ! i)))"

lemma obs_from_Cons:
  assumes "parse_obligation data off = Inr (Some e)" "next_obligation_offset data off = Inr (Some off')"
    "obs_from data off' es"
  shows "obs_from data off (e # es)"
  unfolding obs_from_def
proof (intro allI impI)
  fix i assume "i < length (e # es)"
  then show "\<exists>o'. skip_obligations i data off = Inr (Some o') \<and> parse_obligation data o' = Inr (Some ((e # es) ! i))"
    using assms by (cases i) (auto simp: obs_from_def)
qed

definition ob_closed :: "obligation \<Rightarrow> bool" where
  "ob_closed e \<longleftrightarrow> ob_status e \<le> VM_STATUS_ASSUMED \<and> ob_trust e \<le> VM_TRUST_PROOF"

lemma walk_Inr:
  assumes "walk_entries n payload off prev = Inr off'" "off \<le> length payload"
  shows "\<exists>es. length es = n \<and> obs_from payload off es \<and> sorted (map ob_id es) \<and> (\<forall>e \<in> set es. ob_closed e)
    \<and> (\<forall>q. prev = Some q \<longrightarrow> (\<forall>e \<in> set es. q \<le> ob_id e)) \<and> off \<le> off' \<and> off' \<le> length payload"
  using assms
proof (induction n arbitrary: off prev)
  case 0
  then show ?case by (auto simp: obs_from_def)
next
  case (Suc n)
  obtain e off2 where p: "parse_obligation payload off = Inr (Some e)" and cl: "ob_closed e"
    and pr: "\<forall>q. prev = Some q \<longrightarrow> q \<le> ob_id e"
    and nx: "next_obligation_offset payload off = Inr (Some off2)"
    and w: "walk_entries n payload off2 (Some (ob_id e)) = Inr off'"
    using Suc.prems(1)
    by (auto simp: result_simps ok_or_6500_Inr ob_closed_def not_less split: if_splits option.splits)
  have o2: "off \<le> off2" "off2 \<le> length payload" using next_Inr [OF nx] by simp_all
  obtain es where "length es = n" "obs_from payload off2 es" "sorted (map ob_id es)"
    "\<forall>e \<in> set es. ob_closed e" "\<forall>e' \<in> set es. ob_id e \<le> ob_id e'" "off2 \<le> off'" "off' \<le> length payload"
    using Suc.IH [OF w o2(2)] by auto
  then show ?case
    using obs_from_Cons [OF p nx, of es] cl pr o2 by (intro exI [of _ "e # es"]) (auto intro: order.trans)
qed

text \<open>Reading through a slice reads the bytes of the whole.\<close>

lemma parse_slice:
  assumes "parse_obligation (slice data start sz) off = Inr (Some e)" "start + sz \<le> length data"
  shows "parse_obligation data (start + off) = Inr (Some e)"
proof -
  have l: "length (slice data start sz) = sz" using assms(2) by (simp add: slice_def)
  have u: "k + 2 \<le> sz \<Longrightarrow> u16_at (slice data start sz) k = u16_at data (start + k)" for k
    by (simp add: u16_at_def slice_slice)
  have u8': "k + 8 \<le> sz \<Longrightarrow> u64_at (slice data start sz) k = u64_at data (start + k)" for k
    by (simp add: u64_at_def slice_slice)
  have n: "k < sz \<Longrightarrow> slice data start sz ! k = data ! (start + k)" for k
    using assms(2) by (simp add: slice_def)
  show ?thesis
    using assms
    by (auto simp: parse_obligation_def m_reads m_read_def Let_def l u u8' n slice_slice ac_simps
        split: if_splits)
qed

lemma next_slice:
  assumes "next_obligation_offset (slice data start sz) off = Inr (Some off')" "start + sz \<le> length data"
  shows "next_obligation_offset data (start + off) = Inr (Some (start + off'))"
proof -
  have l: "length (slice data start sz) = sz" using assms(2) by (simp add: slice_def)
  have u: "k + 2 \<le> sz \<Longrightarrow> u16_at (slice data start sz) k = u16_at data (start + k)" for k
    by (simp add: u16_at_def slice_slice)
  show ?thesis
    using assms by (auto simp: next_obligation_offset_def m_reads m_read_def Let_def l u split: if_splits)
qed

lemma skip_slice:
  "skip_obligations k (slice data start sz) off = Inr (Some off') \<Longrightarrow> start + sz \<le> length data \<Longrightarrow>
    skip_obligations k data (start + off) = Inr (Some (start + off'))"
proof (induction k arbitrary: off)
  case (Suc k)
  then obtain o2 where "next_obligation_offset (slice data start sz) off = Inr (Some o2)"
    "skip_obligations k (slice data start sz) o2 = Inr (Some off')"
    by (auto simp: result_simps split: option.splits)
  with Suc.IH [of o2] Suc.prems(2) next_slice [of data start sz off o2] show ?case by simp
qed simp

lemma obs_from_slice:
  "obs_from (slice data start sz) off es \<Longrightarrow> start + sz \<le> length data \<Longrightarrow> obs_from data (start + off) es"
  unfolding obs_from_def using skip_slice parse_slice by meson

lemma read_field_Inr: "read_field payload p = Inr (b, p') \<Longrightarrow> p \<le> p' \<and> p' \<le> length payload"
  by (auto simp: read_field_def read_len_def read_bytes_def m_reads m_read_def merr_def split: if_splits)

lemma scan_payload_Inr:
  assumes "scan_payload start payload = Inr vm"
  shows "vm_policy vm \<le> VM_POLICY_PROVEN \<and> vm_certifier_class vm \<le> VM_CERTIFIER_PORT
    \<and> vm_count vm \<le> 4096
    \<and> (\<exists>p off. vm_start vm = start + p \<and> vm_end vm = start + off \<and> p \<le> length payload
        \<and> walk_entries (vm_count vm) payload p None = Inr off \<and> off + 32 \<le> length payload
        \<and> vm_digest vm = slice payload off 32)"
  using assms
  by (auto simp: scan_payload_def m_reads m_read_Inr result_simps Let_def not_less VM_MAX_COUNT_def
      split: if_splits dest!: read_field_Inr)

lemma scan_Inr:
  assumes "scan_verify_manifest data = Inr (Some vm)"
  obtains es where "length es = vm_count vm" "\<forall>i < vm_count vm. obligation_at vm data i = Inr (Some (es ! i))"
    "sorted (map ob_id es)" "\<forall>e \<in> set es. ob_closed e" "vm_policy vm \<le> VM_POLICY_PROVEN"
    "vm_certifier_class vm \<le> VM_CERTIFIER_PORT" "vm_count vm \<le> 4096"
    "vm_start vm \<le> vm_end vm" "vm_end vm + 32 + 8 \<le> length data" "vm_digest vm = slice data (vm_end vm) 32"
proof -
  obtain sz where n: "8 \<le> length data" "sz + 8 \<le> length data"
    and sp: "scan_payload (length data - 8 - sz) (slice data (length data - 8 - sz) sz) = Inr vm"
    using assms
    by (auto simp: scan_verify_manifest_def m_reads m_read_Inr result_simps Let_def not_less split: if_splits)
  define start where "start = length data - 8 - sz"
  have st: "start + sz \<le> length data" "start + sz + 8 = length data" using n by (simp_all add: start_def)
  have ln: "length (slice data start sz) = sz" using st(1) by (simp add: slice_def)
  obtain p off where v: "vm_policy vm \<le> VM_POLICY_PROVEN" "vm_certifier_class vm \<le> VM_CERTIFIER_PORT"
    "vm_count vm \<le> 4096" "vm_start vm = start + p" "vm_end vm = start + off" "p \<le> sz"
    "walk_entries (vm_count vm) (slice data start sz) p None = Inr off" "off + 32 \<le> sz"
    "vm_digest vm = slice (slice data start sz) off 32"
    using scan_payload_Inr [OF sp] ln unfolding start_def by auto
  obtain es where es: "length es = vm_count vm" "obs_from (slice data start sz) p es" "sorted (map ob_id es)"
    "\<forall>e \<in> set es. ob_closed e" "p \<le> off"
    using walk_Inr [OF v(7)] v(6) ln by auto
  have "obs_from data (start + p) es" by (rule obs_from_slice [OF es(2) st(1)])
  then have "\<forall>i < vm_count vm. obligation_at vm data i = Inr (Some (es ! i))"
    using es(1) v(4) by (auto simp: obligation_at_def obs_from_def)
  with es v st show thesis by (intro that [of es]) (auto simp: slice_slice)
qed

text \<open>An accepted manifest is canonical: its policy, certifier class, statuses and trusts are
  in their closed sets, every entry below the count reads, the ids are sorted, and the
  digest is the 32 bytes right behind the obligations region, inside the payload.\<close>

theorem manifest_scan_sound:
  assumes "scan_verify_manifest data = Inr (Some vm)"
  shows "vm_policy vm \<le> VM_POLICY_PROVEN \<and> vm_certifier_class vm \<le> VM_CERTIFIER_PORT
    \<and> vm_start vm \<le> vm_end vm \<and> vm_end vm + 40 \<le> length data \<and> vm_digest vm = slice data (vm_end vm) 32
    \<and> (\<exists>es. length es = vm_count vm \<and> sorted (map ob_id es) \<and> (\<forall>e \<in> set es. ob_closed e)
        \<and> (\<forall>i < vm_count vm. obligation_at vm data i = Inr (Some (es ! i))))"
  by (rule scan_Inr [OF assms]) auto

section \<open>Binary search\<close>

lemma find_loop_correct:
  assumes "\<forall>i < length es. read i = Inr (Some (es ! i))" "sorted (map ob_id es)" "hi \<le> length es"
    "\<forall>i < lo. i < length es \<longrightarrow> ob_id (es ! i) < k" "\<forall>i < length es. hi \<le> i \<longrightarrow> k < ob_id (es ! i)"
  shows "\<exists>r. find_loop read k lo hi = Inr r \<and> (\<forall>m. r = Some m \<longrightarrow> m < length es \<and> ob_id (es ! m) = k)
    \<and> (r = None \<longrightarrow> k \<notin> ob_id ` set es)"
  using assms
proof (induction read k lo hi rule: find_loop.induct)
  case (1 read k lo hi)
  have mono: "i \<le> j \<Longrightarrow> j < length es \<Longrightarrow> ob_id (es ! i) \<le> ob_id (es ! j)" for i j
    using sorted_nth_mono [OF "1.prems"(2), of i j] by simp
  show ?case
  proof (cases "lo < hi")
    case False
    have "ob_id e \<noteq> k" if "e \<in> set es" for e
    proof -
      obtain i where i: "i < length es" "es ! i = e" using \<open>e \<in> set es\<close> by (auto simp: in_set_conv_nth)
      show ?thesis
      proof (cases "i < lo")
        case True then show ?thesis using "1.prems"(4) i by auto
      next
        case False
        then have "k < ob_id e" using \<open>\<not> lo < hi\<close> "1.prems"(5) i by auto
        then show ?thesis by simp
      qed
    qed
    then have "k \<notin> ob_id ` set es" by auto
    then show ?thesis using False by (simp add: find_loop.simps)
  next
    case True
    define mid where "mid = lo + (hi - lo) div 2"
    have m: "mid < hi" "lo \<le> mid" "mid < length es" using True "1.prems"(3) by (auto simp: mid_def)
    have rd: "read mid = Inr (Some (es ! mid))" using "1.prems"(1) m(3) by simp
    consider "ob_id (es ! mid) < k" | "k < ob_id (es ! mid)" | "ob_id (es ! mid) = k" by force
    then show ?thesis
    proof cases
      case a: 1
      have lt: "\<forall>i < mid + 1. i < length es \<longrightarrow> ob_id (es ! i) < k"
        using mono [of _ mid] a m(3) by (auto simp: less_Suc_eq_le intro: order.strict_trans1)
      show ?thesis
        using "1.IH"(1) [OF True mid_def, of "es ! mid"] rd a lt "1.prems" True
        by (subst find_loop.simps) (simp add: mid_def [symmetric])
    next
      case b: 2
      then have nl: "\<not> ob_id (es ! mid) < k" by (simp add: order.strict_implies_order leD)
      have gt: "\<forall>i < length es. mid \<le> i \<longrightarrow> k < ob_id (es ! i)"
        using mono [of mid] b by (auto intro: order.strict_trans2)
      show ?thesis
        using "1.IH"(2) [OF True mid_def, of "es ! mid"] rd b nl gt "1.prems" True m
        by (subst find_loop.simps) (simp add: mid_def [symmetric])
    next
      case 3
      then show ?thesis using True rd m
        by (subst find_loop.simps) (simp add: mid_def [symmetric])
    qed
  qed
qed

text \<open>On every accepted manifest the binary search answers: an index whose entry has the id, or
  none exactly when no entry has it.\<close>

theorem manifest_find_correct:
  assumes "scan_verify_manifest data = Inr (Some vm)"
  shows "\<exists>r. find_obligation vm data k = Inr r
    \<and> (\<forall>m. r = Some m \<longrightarrow> m < vm_count vm
        \<and> (\<exists>e. obligation_at vm data m = Inr (Some e) \<and> ob_id e = k))
    \<and> (r = None \<longrightarrow> (\<forall>i e. obligation_at vm data i = Inr (Some e) \<longrightarrow> ob_id e \<noteq> k))"
proof -
  obtain es where es: "length es = vm_count vm" "\<forall>i < vm_count vm. obligation_at vm data i = Inr (Some (es ! i))"
    "sorted (map ob_id es)"
    by (rule scan_Inr [OF assms])
  obtain r where r: "find_obligation vm data k = Inr r"
    "\<forall>m. r = Some m \<longrightarrow> m < length es \<and> ob_id (es ! m) = k" "r = None \<longrightarrow> k \<notin> ob_id ` set es"
    using find_loop_correct [of es "obligation_at vm data" "vm_count vm" 0 k] es
    unfolding find_obligation_def by auto
  have "\<not> i < vm_count vm \<Longrightarrow> obligation_at vm data i = Inr None" for i by (simp add: obligation_at_def)
  then have "ob_id e \<noteq> k" if "r = None" "obligation_at vm data i = Inr (Some e)" for i e
    using that r(3) es(1,2) by (cases "i < vm_count vm") (auto simp: image_iff)
  with r es(1,2) show ?thesis by auto
qed

end
