(* ===== verification/ManifestRt.thy ===== *)
theory ManifestRt
  imports ManifestProps
begin

text \<open>
  The packer's manifest record is read back by the loader's scan. Positions are
  followed by \<open>rest_at\<close>: what lies behind an offset.
\<close>

section \<open>Reading what was written\<close>

definition rest_at :: "bytes \<Rightarrow> nat \<Rightarrow> bytes \<Rightarrow> bool" where
  "rest_at d p x \<longleftrightarrow> p \<le> length d \<and> drop p d = x"

lemma rest_at_append: "rest_at (pre @ x) (length pre) x" by (simp add: rest_at_def)

lemma rest_at_length: "rest_at d p x \<Longrightarrow> length d = p + length x"
  by (auto simp: rest_at_def)

lemma rest_at_skip: "rest_at d p (a @ x) \<Longrightarrow> length a = n \<Longrightarrow> rest_at d (p + n) x"
proof -
  assume a: "rest_at d p (a @ x)" "length a = n"
  have "drop n (drop p d) = x" using a by (simp add: rest_at_def del: drop_drop)
  then have "drop (p + n) d = x" by (simp add: add.commute)
  then show ?thesis using a rest_at_length [OF a(1)] by (simp add: rest_at_def)
qed

lemma rest_at_slice: "rest_at d p (a @ x) \<Longrightarrow> length a = n \<Longrightarrow> slice d p n = a"
  by (simp add: rest_at_def slice_def)

lemma m_u8_at: "rest_at d p ([b] @ x) \<Longrightarrow> m_u8 d p = Inr b \<and> rest_at d (p + 1) x"
proof -
  assume a: "rest_at d p ([b] @ x)"
  then have "d ! p = b" by (intro nth_via_drop [of p d b x]) (simp add: rest_at_def)
  moreover have "p + 1 \<le> length d" using rest_at_length [OF a] by simp
  ultimately show ?thesis using rest_at_skip [OF a, of 1] by (simp add: m_u8_def m_read_def)
qed

lemma m_u16_at: "rest_at d p (to_le (w :: u16) @ x) \<Longrightarrow> m_u16 d p = Inr w \<and> rest_at d (p + 2) x"
  using rest_at_skip [of d p "to_le w" x 2] rest_at_length [of d p "to_le w @ x"]
    rest_at_slice [of d p "to_le w" x 2]
  by (auto simp: m_u16_def m_read_def u16_at_def le16.dec_enc)

lemma m_u32_at: "rest_at d p (to_le (w :: u32) @ x) \<Longrightarrow> m_u32 d p = Inr w \<and> rest_at d (p + 4) x"
  using rest_at_skip [of d p "to_le w" x 4] rest_at_length [of d p "to_le w @ x"]
    rest_at_slice [of d p "to_le w" x 4]
  by (auto simp: m_u32_def m_read_def u32_at_def le32.dec_enc)

lemma m_u64_at: "rest_at d p (to_le (w :: u64) @ x) \<Longrightarrow> m_u64 d p = Inr w \<and> rest_at d (p + 8) x"
  using rest_at_skip [of d p "to_le w" x 8] rest_at_length [of d p "to_le w @ x"]
    rest_at_slice [of d p "to_le w" x 8]
  by (auto simp: m_u64_def m_read_def u64_at_def le64.dec_enc)

lemma m_slice_at: "rest_at d p (a @ x) \<Longrightarrow> length a = n \<Longrightarrow> m_slice d p n = Inr a \<and> rest_at d (p + n) x"
  using rest_at_skip [of d p a x n] rest_at_length [of d p "a @ x"] rest_at_slice [of d p a x n]
  by (auto simp: m_slice_def m_read_def)

lemma unat_len_u16: "n \<le> 65535 \<Longrightarrow> unat (word_of_nat n :: u16) = n"
  by (simp add: unat_of_nat take_bit_nat_eq_self)

definition field :: "bytes \<Rightarrow> bytes" where "field b = to_le (word_of_nat (length b) :: u16) @ b"

lemma read_field_at:
  assumes "rest_at d p (field b @ x)" "length b \<le> 65535"
  shows "read_field d p = Inr (b, p + 2 + length b) \<and> rest_at d (p + 2 + length b) x"
proof -
  have a: "rest_at d p (to_le (word_of_nat (length b) :: u16) @ b @ x)"
    using assms(1) by (simp add: field_def)
  note m = m_u16_at [OF a]
  have l: "length d = p + 2 + length b + length x" using rest_at_length [OF a] by simp
  have s: "m_slice d (p + 2) (length b) = Inr b" "rest_at d (p + 2 + length b) x"
    using m_slice_at [of d "p + 2" b x "length b"] m by simp_all
  show ?thesis using m l s
    by (simp add: read_field_def read_len_def read_bytes_def unat_len_u16 [OF assms(2)])
qed

section \<open>Obligation entries\<close>

definition ob_bytes :: "obligation \<Rightarrow> bytes" where
  "ob_bytes e = to_le (word_of_nat (length (ob_id e)) :: u16) @ ob_id e @ to_le (ob_id_hash e)
     @ [ob_status e] @ [ob_trust e] @ ob_stmt_hash e"

definition ob_ok :: "obligation \<Rightarrow> bool" where
  "ob_ok e \<longleftrightarrow> length (ob_id e) \<le> VM_MAX_ID_LEN \<and> ob_closed e \<and> length (ob_stmt_hash e) = 32"

lemma length_ob_bytes: "ob_ok e \<Longrightarrow> length (ob_bytes e) = 44 + length (ob_id e)"
  by (simp add: ob_bytes_def ob_ok_def)

lemma parse_ob_at:
  assumes "rest_at d p (ob_bytes e @ x)" "ob_ok e"
  shows "parse_obligation d p = Inr (Some e)"
    "next_obligation_offset d p = Inr (Some (p + length (ob_bytes e)))"
    "rest_at d (p + length (ob_bytes e)) x"
proof -
  let ?n = "length (ob_id e)"
  have idl: "?n \<le> VM_MAX_ID_LEN" "?n \<le> 65535" "length (ob_stmt_hash e) = 32"
    using assms(2) by (simp_all add: ob_ok_def VM_MAX_ID_LEN_def)
  have len: "length d = p + (44 + ?n) + length x"
    using rest_at_length [OF assms(1)] length_ob_bytes [OF assms(2)] by simp
  have r0: "rest_at d p (to_le (word_of_nat ?n :: u16) @ ob_id e @ to_le (ob_id_hash e) @ [ob_status e]
      @ [ob_trust e] @ ob_stmt_hash e @ x)" using assms(1) by (simp add: ob_bytes_def)
  note u = m_u16_at [OF r0]
  note s = m_slice_at [OF conjunct2 [OF u] refl]
  note h = m_u64_at [OF conjunct2 [OF s]]
  note t = m_u8_at [OF conjunct2 [OF h]]
  note v = m_u8_at [OF conjunct2 [OF t]]
  note w = m_slice_at [OF conjunct2 [OF v] idl(3)]
  have o: "p + 2 + ?n + 8 + 1 = p + 2 + ?n + 9" "p + 2 + ?n + 8 + 1 + 1 = p + 2 + ?n + 10" by simp_all
  show "parse_obligation d p = Inr (Some e)"
    using u s h t v w idl len unfolding parse_obligation_def o Let_def
    by (simp add: unat_len_u16 add.assoc)
  show "next_obligation_offset d p = Inr (Some (p + length (ob_bytes e)))"
    using u len by (simp add: next_obligation_offset_def Let_def unat_len_u16 [OF idl(2)] length_ob_bytes [OF assms(2)])
  show "rest_at d (p + length (ob_bytes e)) x" by (rule rest_at_skip [OF assms(1) refl])
qed

definition obs_bytes :: "obligation list \<Rightarrow> bytes" where "obs_bytes es = concat (map ob_bytes es)"

lemma obs_from_at:
  "rest_at d p (obs_bytes es @ x) \<Longrightarrow> \<forall>e \<in> set es. ob_ok e \<Longrightarrow> obs_from d p es"
proof (induction es arbitrary: p)
  case Nil
  then show ?case by (simp add: obs_from_def)
next
  case (Cons e es)
  then have r: "rest_at d p (ob_bytes e @ obs_bytes es @ x)" "ob_ok e" by (simp_all add: obs_bytes_def)
  note p = parse_ob_at [OF r]
  show ?case by (rule obs_from_Cons [OF p(1,2) Cons.IH [OF p(3)]]) (use Cons.prems(2) in simp)
qed

lemma walk_at:
  "rest_at d p (obs_bytes es @ x) \<Longrightarrow> \<forall>e \<in> set es. ob_ok e \<Longrightarrow> sorted (map ob_id es) \<Longrightarrow>
    \<forall>q. prev = Some q \<longrightarrow> (\<forall>e \<in> set es. q \<le> ob_id e) \<Longrightarrow>
    walk_entries (length es) d p prev = Inr (p + length (obs_bytes es)) \<and> rest_at d (p + length (obs_bytes es)) x"
proof (induction es arbitrary: p prev)
  case Nil
  then show ?case by (simp add: obs_bytes_def)
next
  case (Cons e es)
  then have r: "rest_at d p (ob_bytes e @ obs_bytes es @ x)" "ob_ok e" by (simp_all add: obs_bytes_def)
  note p = parse_ob_at [OF r]
  have "walk_entries (length es) d (p + length (ob_bytes e)) (Some (ob_id e))
      = Inr (p + length (ob_bytes e) + length (obs_bytes es))
    \<and> rest_at d (p + length (ob_bytes e) + length (obs_bytes es)) x"
    by (rule Cons.IH [OF p(3)]) (use Cons.prems in auto)
  moreover have "\<not> (case prev of Some q \<Rightarrow> ob_id e < q | None \<Rightarrow> False)"
    using Cons.prems(4) by (auto split: option.splits simp: not_less)
  moreover have "\<not> (VM_STATUS_ASSUMED < ob_status e \<or> VM_TRUST_PROOF < ob_trust e)"
    using r(2) by (simp add: ob_ok_def ob_closed_def not_less)
  ultimately show ?case by (simp add: ok_or_6500_def p(1,2) obs_bytes_def add.assoc)
qed

section \<open>The encoder\<close>

lemma push_Inr: "push_len_bytes b = Inr f \<longleftrightarrow> length b \<le> 65535 \<and> f = field b"
  by (auto simp: push_len_bytes_def field_def)

lemma encode_region_Inr:
  "encode_region es = Inr r \<Longrightarrow> \<forall>e \<in> set es. length (ob_stmt_hash e) = 32 \<Longrightarrow>
    r = obs_bytes es \<and> (\<forall>e \<in> set es. ob_ok e)"
proof (induction es arbitrary: r)
  case (Cons e es)
  then obtain b bs where e: "encode_obligation e = Inr b" "encode_region es = Inr bs" "r = b @ bs"
    by (auto simp: result_simps)
  have "b = ob_bytes e" "ob_ok e"
    using e(1) Cons.prems(2)
    by (auto simp: encode_obligation_def result_simps push_Inr ob_bytes_def field_def ob_ok_def ob_closed_def
        not_less split: if_splits)
  with Cons.IH [OF e(2)] Cons.prems(2) e(3) show ?case by (simp add: obs_bytes_def)
qed (simp add: obs_bytes_def)

definition payload_of :: "(bytes \<Rightarrow> bytes) \<Rightarrow> manifest_spec \<Rightarrow> obligation list \<Rightarrow> bytes" where
  "payload_of sha spec obs = field (sp_semantics spec) @ field (sp_stmt spec) @ field (sp_target spec)
     @ field (sp_model spec) @ [sp_policy spec] @ [sp_certifier_class spec]
     @ field (sp_certifier_name spec) @ field (sp_certifier_recognition spec)
     @ to_le (sp_ratio spec) @ to_le (word_of_nat (length obs) :: u32)
     @ to_le (sp_counts spec ! 0) @ to_le (sp_counts spec ! 1)
     @ to_le (sp_counts spec ! 2) @ to_le (sp_counts spec ! 3)
     @ obs_bytes obs @ sha (obs_bytes obs)"

text \<open>The field sizes the types of the source guarantee.\<close>

definition spec_typed :: "(bytes \<Rightarrow> bytes) \<Rightarrow> manifest_spec \<Rightarrow> bool" where
  "spec_typed sha spec \<longleftrightarrow> length (sp_counts spec) = 4 \<and> (\<forall>b. length (sha b) = 32)
     \<and> (\<forall>e \<in> set (sp_obligations spec). length (ob_stmt_hash e) = 32)"

lemma encode_Inr:
  assumes "encode_verify_manifest sha spec = Inr out" "spec_typed sha spec"
  defines "obs \<equiv> sort_key ob_id (sp_obligations spec)"
  shows "out = payload_of sha spec obs @ to_le (word_of_nat (length (payload_of sha spec obs)) :: u32) @ to_le VM_TAG
    \<and> \<not> VM_MAX_RECORD < word_of_nat (length (payload_of sha spec obs))
    \<and> (\<forall>e \<in> set obs. ob_ok e) \<and> length obs \<le> 4096
    \<and> sp_policy spec \<le> VM_POLICY_PROVEN \<and> sp_certifier_class spec \<le> VM_CERTIFIER_PORT
    \<and> length (sp_semantics spec) \<le> 65535 \<and> length (sp_stmt spec) \<le> 65535 \<and> length (sp_target spec) \<le> 65535
    \<and> length (sp_model spec) \<le> 65535 \<and> length (sp_certifier_name spec) \<le> 65535
    \<and> length (sp_certifier_recognition spec) \<le> 65535"
proof -
  obtain region where r: "encode_region obs = Inr region"
    using assms(1) unfolding encode_verify_manifest_def obs_def [symmetric] Let_def
    by (auto simp: result_simps split: if_splits)
  have rg: "region = obs_bytes obs" "\<forall>e \<in> set obs. ob_ok e"
    using encode_region_Inr [OF r] assms(2) by (auto simp: spec_typed_def obs_def)
  show ?thesis
    using assms(1) rg(2) unfolding encode_verify_manifest_def obs_def [symmetric] Let_def r rg(1)
    by (auto simp: result_simps push_Inr payload_of_def VM_MAX_COUNT_def obs_def not_less split: if_splits)
qed

lemma length_obs_bytes: "\<forall>e \<in> set es. ob_ok e \<Longrightarrow> length (obs_bytes es) \<le> 556 * length es"
  by (induction es) (auto simp: obs_bytes_def length_ob_bytes ob_ok_def VM_MAX_ID_LEN_def)

lemma length_field: "length (field b) = 2 + length b" by (simp add: field_def)

lemma scan_payload_of:
  assumes "spec_typed sha spec" "\<forall>e \<in> set obs. ob_ok e" "length obs \<le> 4096" "sorted (map ob_id obs)"
    "sp_policy spec \<le> VM_POLICY_PROVEN" "sp_certifier_class spec \<le> VM_CERTIFIER_PORT"
    "length (sp_semantics spec) \<le> 65535" "length (sp_stmt spec) \<le> 65535" "length (sp_target spec) \<le> 65535"
    "length (sp_model spec) \<le> 65535" "length (sp_certifier_name spec) \<le> 65535"
    "length (sp_certifier_recognition spec) \<le> 65535"
  shows "\<exists>p. rest_at (payload_of sha spec obs) p (obs_bytes obs @ sha (obs_bytes obs)) \<and>
    scan_payload start (payload_of sha spec obs) = Inr \<lparr>vm_semantics = sp_semantics spec,
      vm_stmt = sp_stmt spec, vm_target = sp_target spec, vm_model = sp_model spec,
      vm_policy = sp_policy spec, vm_certifier_class = sp_certifier_class spec,
      vm_certifier_name = sp_certifier_name spec, vm_certifier_recognition = sp_certifier_recognition spec,
      vm_ratio = sp_ratio spec, vm_count = length obs, vm_counts = sp_counts spec,
      vm_start = start + p, vm_end = start + (p + length (obs_bytes obs)), vm_digest = sha (obs_bytes obs)\<rparr>"
proof -
  define d where "d = payload_of sha spec obs"
  have c4: "sp_counts spec = [sp_counts spec ! 0, sp_counts spec ! 1, sp_counts spec ! 2, sp_counts spec ! 3]"
    using assms(1) by (intro nth_equalityI) (auto simp: spec_typed_def less_Suc_eq numeral_nat)
  have sh: "length (sha (obs_bytes obs)) = 32" using assms(1) by (simp add: spec_typed_def)
  have cnt: "unat (word_of_nat (length obs) :: u32) = length obs"
    using assms(3) by (simp add: unat_of_nat take_bit_nat_eq_self)
  have r0: "rest_at d 0 (payload_of sha spec obs)" by (simp add: rest_at_def d_def)
  note f1 = read_field_at [OF r0 [unfolded payload_of_def] assms(7)]
  note f2 = read_field_at [OF conjunct2 [OF f1] assms(8)]
  note f3 = read_field_at [OF conjunct2 [OF f2] assms(9)]
  note f4 = read_field_at [OF conjunct2 [OF f3] assms(10)]
  note b1 = m_u8_at [OF conjunct2 [OF f4]]
  note b2 = m_u8_at [OF conjunct2 [OF b1]]
  note f5 = read_field_at [OF conjunct2 [OF b2] assms(11)]
  note f6 = read_field_at [OF conjunct2 [OF f5] assms(12)]
  note w1 = m_u16_at [OF conjunct2 [OF f6]]
  note w2 = m_u32_at [OF conjunct2 [OF w1]]
  note c0 = m_u32_at [OF conjunct2 [OF w2]]
  note c1 = m_u32_at [OF conjunct2 [OF c0]]
  note c2 = m_u32_at [OF conjunct2 [OF c1]]
  note c3 = m_u32_at [OF conjunct2 [OF c2]]
  define p where "p = 0 + 2 + length (sp_semantics spec) + 2 + length (sp_stmt spec) + 2 + length (sp_target spec)
    + 2 + length (sp_model spec) + 1 + 1 + 2 + length (sp_certifier_name spec) + 2
    + length (sp_certifier_recognition spec) + 2 + 4"
  have pe: "p + 4 + 4 = p + 8" "p + 8 + 4 = p + 12" "p + 12 + 4 = p + 16" by simp_all
  have r: "rest_at d (p + 16) (obs_bytes obs @ sha (obs_bytes obs))"
    using conjunct2 [OF c3, folded p_def] unfolding pe .
  have wk: "walk_entries (length obs) d (p + 16) None = Inr (p + 16 + length (obs_bytes obs))"
    and rw: "rest_at d (p + 16 + length (obs_bytes obs)) (sha (obs_bytes obs) @ [])"
    using walk_at [OF r assms(2,4), of None] by simp_all
  note dg = m_slice_at [OF rw sh]
  have len: "length d = p + 16 + length (obs_bytes obs) + 32" using rest_at_length [OF r] sh by simp
  have cs: "m_u32 d p = Inr (sp_counts spec ! 0)" "m_u32 d (p + 4) = Inr (sp_counts spec ! 1)"
    "m_u32 d (p + 8) = Inr (sp_counts spec ! 2)" "m_u32 d (p + 12) = Inr (sp_counts spec ! 3)"
    using c0 c1 c2 c3 unfolding p_def [symmetric] pe by simp_all
  have ple: "length d \<ge> p" using len by simp
  have "scan_payload start d = Inr \<lparr>vm_semantics = sp_semantics spec,
      vm_stmt = sp_stmt spec, vm_target = sp_target spec, vm_model = sp_model spec,
      vm_policy = sp_policy spec, vm_certifier_class = sp_certifier_class spec,
      vm_certifier_name = sp_certifier_name spec, vm_certifier_recognition = sp_certifier_recognition spec,
      vm_ratio = sp_ratio spec, vm_count = length obs, vm_counts = sp_counts spec,
      vm_start = start + (p + 16), vm_end = start + (p + 16 + length (obs_bytes obs)),
      vm_digest = sha (obs_bytes obs)\<rparr>"
    unfolding scan_payload_def Let_def
      conjunct1 [OF f1] conjunct1 [OF f2] conjunct1 [OF f3] conjunct1 [OF f4] conjunct1 [OF b1]
      conjunct1 [OF b2] conjunct1 [OF f5] conjunct1 [OF f6] conjunct1 [OF w1] conjunct1 [OF w2]
      bindE.simps prod.case p_def [symmetric]
    using len ple cs wk dg cnt assms(3,5,6) c4 by (simp add: not_less VM_MAX_COUNT_def p_def)
  with r show ?thesis unfolding d_def by blast
qed

lemma length_payload_of:
  assumes "spec_typed sha spec"
  shows "length (payload_of sha spec obs) = length (sp_semantics spec) + length (sp_stmt spec)
    + length (sp_target spec) + length (sp_model spec) + length (sp_certifier_name spec)
    + length (sp_certifier_recognition spec) + length (obs_bytes obs) + 68"
  using assms by (simp add: payload_of_def length_field spec_typed_def)

lemma manifest_round_trip_facts:
  assumes "encode_verify_manifest sha spec = Inr out" "spec_typed sha spec"
  defines "obs \<equiv> sort_key ob_id (sp_obligations spec)"
  shows "\<exists>vm. scan_verify_manifest (modinfo @ out) = Inr (Some vm)
    \<and> vm_semantics vm = sp_semantics spec \<and> vm_stmt vm = sp_stmt spec \<and> vm_target vm = sp_target spec
    \<and> vm_model vm = sp_model spec \<and> vm_policy vm = sp_policy spec
    \<and> vm_certifier_class vm = sp_certifier_class spec \<and> vm_certifier_name vm = sp_certifier_name spec
    \<and> vm_certifier_recognition vm = sp_certifier_recognition spec \<and> vm_ratio vm = sp_ratio spec
    \<and> vm_counts vm = sp_counts spec \<and> vm_count vm = length obs
    \<and> (\<forall>i < length obs. obligation_at vm (modinfo @ out) i = Inr (Some (obs ! i)))
    \<and> vm_digest vm = sha (slice (modinfo @ out) (vm_start vm) (vm_end vm - vm_start vm))"
proof -
  define pay where "pay = payload_of sha spec obs"
  define data where "data = modinfo @ out"
  note e = encode_Inr [OF assms(1,2), folded obs_def, folded pay_def]
  have ok: "\<forall>e \<in> set obs. ob_ok e" "length obs \<le> 4096" using e by simp_all
  have lp: "length pay < 2 ^ 32"
    using length_obs_bytes [OF ok(1)] ok(2) e length_payload_of [OF assms(2), of obs, folded pay_def] by simp
  then have ul: "unat (word_of_nat (length pay) :: u32) = length pay"
    by (simp add: unat_of_nat take_bit_nat_eq_self)
  have mx: "length pay \<le> unat VM_MAX_RECORD"
    using e ul by (simp add: not_less word_le_nat_alt)
  have d: "data = modinfo @ pay @ to_le (word_of_nat (length pay) :: u32) @ to_le VM_TAG"
    using e by (simp add: data_def)
  have n: "length data = length modinfo + length pay + 8" by (simp add: d)
  have rp: "rest_at data (length modinfo) (pay @ to_le (word_of_nat (length pay) :: u32) @ to_le VM_TAG @ [])"
    by (simp add: rest_at_def d)
  note rl = rest_at_skip [OF rp refl]
  note ml = m_u32_at [OF rl]
  note mt = m_u32_at [OF conjunct2 [OF ml]]
  have sl: "slice data (length modinfo) (length pay) = pay" by (rule rest_at_slice [OF rp refl])
  have sorted: "sorted (map ob_id obs)" by (simp add: obs_def)
  obtain p where p: "rest_at pay p (obs_bytes obs @ sha (obs_bytes obs))"
    and sc: "scan_payload (length modinfo) pay = Inr \<lparr>vm_semantics = sp_semantics spec,
      vm_stmt = sp_stmt spec, vm_target = sp_target spec, vm_model = sp_model spec,
      vm_policy = sp_policy spec, vm_certifier_class = sp_certifier_class spec,
      vm_certifier_name = sp_certifier_name spec, vm_certifier_recognition = sp_certifier_recognition spec,
      vm_ratio = sp_ratio spec, vm_count = length obs, vm_counts = sp_counts spec,
      vm_start = length modinfo + p, vm_end = length modinfo + (p + length (obs_bytes obs)),
      vm_digest = sha (obs_bytes obs)\<rparr>"
    using scan_payload_of [OF assms(2) ok sorted] e unfolding pay_def by blast
  define vm where "vm = \<lparr>vm_semantics = sp_semantics spec,
      vm_stmt = sp_stmt spec, vm_target = sp_target spec, vm_model = sp_model spec,
      vm_policy = sp_policy spec, vm_certifier_class = sp_certifier_class spec,
      vm_certifier_name = sp_certifier_name spec, vm_certifier_recognition = sp_certifier_recognition spec,
      vm_ratio = sp_ratio spec, vm_count = length obs, vm_counts = sp_counts spec,
      vm_start = length modinfo + p, vm_end = length modinfo + (p + length (obs_bytes obs)),
      vm_digest = sha (obs_bytes obs)\<rparr>"
  have scan: "scan_verify_manifest data = Inr (Some vm)"
  proof -
    have pos: "length data - 4 = length modinfo + length pay + 4" "length data - 8 = length modinfo + length pay"
      using n by simp_all
    show ?thesis
      unfolding scan_verify_manifest_def Let_def pos conjunct1 [OF ml] conjunct1 [OF mt] bindE.simps ul
      using mx n sl sc by (simp add: vm_def)
  qed
  have "obs_from pay p obs" by (rule obs_from_at [OF p ok(1)])
  then have "obs_from data (length modinfo + p) obs"
    using obs_from_slice [of data "length modinfo" "length pay" p obs] n sl by simp
  then have ob: "\<forall>i < length obs. obligation_at vm data i = Inr (Some (obs ! i))"
    by (auto simp: obligation_at_def obs_from_def vm_def)
  have "slice data (length modinfo + p) (length (obs_bytes obs)) = slice pay p (length (obs_bytes obs))"
    using slice_slice [of p "length (obs_bytes obs)" "length pay" data "length modinfo"]
      rest_at_length [OF p] sl by simp
  also have "\<dots> = obs_bytes obs" by (rule rest_at_slice [OF p refl])
  finally have dg: "vm_digest vm = sha (slice data (vm_start vm) (vm_end vm - vm_start vm))"
    by (simp add: vm_def)
  show ?thesis using scan ob dg unfolding data_def by (intro exI [of _ vm]) (simp add: vm_def)
qed

text \<open>C32: The record the packer appends to a modinfo payload is read back by the loader's scan: every
  field, the obligations in sorted order, and a digest that is the hash of exactly the region
  the scan reports.\<close>

theorem manifest_round_trip:
  assumes "encode_verify_manifest sha spec = Inr out" "spec_typed sha spec"
  shows "\<exists>vm. scan_verify_manifest (modinfo @ out) = Inr (Some vm)
    \<and> vm_semantics vm = sp_semantics spec \<and> vm_stmt vm = sp_stmt spec \<and> vm_target vm = sp_target spec
    \<and> vm_model vm = sp_model spec \<and> vm_policy vm = sp_policy spec
    \<and> vm_certifier_class vm = sp_certifier_class spec \<and> vm_certifier_name vm = sp_certifier_name spec
    \<and> vm_certifier_recognition vm = sp_certifier_recognition spec \<and> vm_ratio vm = sp_ratio spec
    \<and> vm_counts vm = sp_counts spec \<and> vm_count vm = length (sp_obligations spec)
    \<and> (\<forall>i < length (sp_obligations spec). obligation_at vm (modinfo @ out) i
        = Inr (Some (sort_key ob_id (sp_obligations spec) ! i)))
    \<and> vm_digest vm = sha (slice (modinfo @ out) (vm_start vm) (vm_end vm - vm_start vm))"
  using manifest_round_trip_facts [OF assms, of modinfo] by simp

section \<open>Examples\<close>

definition toy_sha :: "bytes \<Rightarrow> bytes" where "toy_sha b = replicate 32 (word_of_nat (length b))"

definition spec_with :: "obligation list \<Rightarrow> manifest_spec" where
  "spec_with obs = \<lparr>sp_semantics = [1], sp_stmt = [2], sp_target = [3], sp_model = [], sp_policy = 1,
     sp_certifier_class = 0, sp_certifier_name = [], sp_certifier_recognition = [], sp_ratio = 0,
     sp_counts = [0, 0, 0, 2], sp_obligations = obs\<rparr>"

definition ob_a :: obligation where
  "ob_a = \<lparr>ob_id = [97], ob_id_hash = 5, ob_status = 0, ob_trust = 0, ob_stmt_hash = replicate 32 0\<rparr>"

lemma spec_with_typed: "\<forall>e \<in> set obs. length (ob_stmt_hash e) = 32 \<Longrightarrow> spec_typed toy_sha (spec_with obs)"
  by (simp add: spec_typed_def spec_with_def toy_sha_def)

lemma two_a_encodes: "\<exists>out. encode_verify_manifest toy_sha (spec_with [ob_a, ob_a]) = Inr out"
  by (simp add: encode_verify_manifest_def spec_with_def encode_obligation_def push_len_bytes_def
      ob_a_def VM_POLICY_PROVEN_def VM_CERTIFIER_PORT_def VM_MAX_COUNT_def VM_MAX_ID_LEN_def
      VM_STATUS_ASSUMED_def VM_TRUST_PROOF_def VM_MAX_RECORD_def toy_sha_def Let_def)

lemma manifest_round_trip_witness:
  "\<exists>out vm. encode_verify_manifest toy_sha (spec_with [ob_a, ob_a]) = Inr out
     \<and> scan_verify_manifest ([9, 9] @ out) = Inr (Some vm) \<and> vm_policy vm = 1 \<and> vm_count vm = 2"
proof -
  obtain out where o': "encode_verify_manifest toy_sha (spec_with [ob_a, ob_a]) = Inr out"
    using two_a_encodes by blast
  have "spec_typed toy_sha (spec_with [ob_a, ob_a])" by (rule spec_with_typed) (simp add: ob_a_def)
  from manifest_round_trip [OF o' this, of "[9, 9]"] o' show ?thesis
    by (auto simp: spec_with_def)
qed

lemma two_a_scans:
  obtains out vm where "scan_verify_manifest out = Inr (Some vm)" "vm_count vm = 2"
    "obligation_at vm out 0 = Inr (Some ob_a)" "obligation_at vm out 1 = Inr (Some ob_a)"
proof -
  obtain out where o': "encode_verify_manifest toy_sha (spec_with [ob_a, ob_a]) = Inr out"
    using two_a_encodes by blast
  have "spec_typed toy_sha (spec_with [ob_a, ob_a])" by (rule spec_with_typed) (simp add: ob_a_def)
  from manifest_round_trip_facts [OF o' this, of "[]"] obtain vm
    where "scan_verify_manifest out = Inr (Some vm)" "vm_count vm = 2"
      "\<forall>i < 2. obligation_at vm out i = Inr (Some ([ob_a, ob_a] ! i))"
    by (auto simp: spec_with_def)
  then show thesis by (intro that [of out vm]) auto
qed

lemma manifest_scan_sound_witness:
  "\<exists>out vm. scan_verify_manifest out = Inr (Some vm) \<and> vm_policy vm \<le> VM_POLICY_PROVEN"
  by (rule two_a_scans) (use manifest_scan_sound in blast)

lemma manifest_find_correct_witness:
  "\<exists>out vm r. scan_verify_manifest out = Inr (Some vm) \<and> find_obligation vm out [98] = Inr r"
  by (rule two_a_scans) (use manifest_find_correct in blast)

text \<open>With a repeated id the binary search does not return the first index: it answers 1 on an
  accepted two-entry manifest whose entry 0 has the id too.\<close>

theorem manifest_find_not_first:
  "\<exists>out vm e. scan_verify_manifest out = Inr (Some vm) \<and> find_obligation vm out (ob_id e) = Inr (Some 1)
     \<and> obligation_at vm out 0 = Inr (Some e)"
proof -
  obtain out vm where t: "scan_verify_manifest out = Inr (Some vm)" "vm_count vm = 2"
    "obligation_at vm out 0 = Inr (Some ob_a)" "obligation_at vm out 1 = Inr (Some ob_a)"
    by (rule two_a_scans)
  then have "find_obligation vm out (ob_id ob_a) = Inr (Some 1)"
    unfolding find_obligation_def by (subst find_loop.simps) simp
  with t show ?thesis by blast
qed

end
