(* ===== verification/LmodProps.thy ===== *)
theory LmodProps
  imports Container Thumb
begin

text \<open>
  The properties of the container format: header round trip and layout, the
  guarantees of an accepted container, the relocation table and the Thumb branch
  codec.
\<close>

section \<open>Header and layout\<close>

text \<open>the header codec: \<open>encode_header\<close> succeeds exactly on buffers of at least 72
  bytes, writes only the first 72 bytes, and \<open>decode_header\<close> reads every field back.\<close>

theorem header_round_trip:
  assumes "h_magic h = LMOD_MAGIC"
  shows "(72 \<le> length buf \<longrightarrow> (\<exists>buf'. encode_header h buf = Some buf' \<and> length buf' = length buf
            \<and> drop 72 buf' = drop 72 buf \<and> decode_header buf' = Some h))
       \<and> (length buf < 72 \<longrightarrow> encode_header h buf = None)"
  using encode_header_eq [of buf h] encode_header_short [of buf h] decode_header_bytes [OF assms]
  by auto

theorem header_round_trip_witness:
  "\<exists>buf'. encode_header header_new (replicate 80 7) = Some buf' \<and> decode_header buf' = Some header_new"
proof -
  have "h_magic header_new = LMOD_MAGIC" by (simp add: header_new_def)
  from header_round_trip [OF this, of "replicate 80 7"] show ?thesis by auto
qed

lemma layout_accepted_facts:
  assumes "72 + unat enc + unat mi + unat co + unat ro + unat da + 16 * unat rc + 31 < 2 ^ 32"
    and "encode_header (compute_layout abi mi co ro da bss rc enc) buf = Some data"
    and "length buf = unat (h_total_len (compute_layout abi mi co ro da bss rc enc))"
    and "length buf \<le> umax"
  shows "layout_ok (compute_layout abi mi co ro da bss rc enc)"
    and "parse_container umax data
       = Inr \<lparr>c_data = data, c_hdr = compute_layout abi mi co ro da bss rc enc\<rparr>"
proof -
  let ?h = "compute_layout abi mi co ro da bss rc enc"
  show ok: "layout_ok ?h" using compute_layout_ok_aux [OF assms(1)] by blast
  have h: "h_magic ?h = LMOD_MAGIC" "h_format_ver ?h = LMOD_FORMAT_VER"
    by (simp_all add: compute_layout_def header_new_def Let_def)
  have "72 \<le> length buf" using ok assms(3) by (simp add: layout_ok_def)
  then have d: "data = header_bytes ?h @ drop 72 buf" "length data = length buf"
    using encode_header_eq assms(2) by auto
  then have "decode_header data = Some ?h" using decode_header_bytes [OF h(1)] by simp
  then show "parse_container umax data = Inr \<lparr>c_data = data, c_hdr = ?h\<rparr>"
    using parse_laid_out [OF ok _ h(2)] assms(3,4) d(2) by simp
qed

text \<open>\<open>compute_layout\<close> places the sections in order without overlap, the code at a
  multiple of 4 and the rest at multiples of 8, and the container it describes is
  accepted by \<open>Container::parse\<close>, as long as the sum of the sizes plus 31 bytes of
  padding fits in u32.\<close>

theorem layout_accepted:
  assumes "72 + unat enc + unat mi + unat co + unat ro + unat da + 16 * unat rc + 31 < 2 ^ 32"
    and "encode_header (compute_layout abi mi co ro da bss rc enc) buf = Some data"
    and "length buf = unat (h_total_len (compute_layout abi mi co ro da bss rc enc))"
    and "length buf \<le> umax"
  shows "layout_ok (compute_layout abi mi co ro da bss rc enc)
     \<and> parse_container umax data
       = Inr \<lparr>c_data = data, c_hdr = compute_layout abi mi co ro da bss rc enc\<rparr>"
  using layout_accepted_facts [OF assms] by blast

theorem layout_accepted_witness:
  "\<exists>data. encode_header (compute_layout 42 32 64 16 8 0 2 0) (replicate 224 0) = Some data
     \<and> parse_container 4294967295 data
         = Inr \<lparr>c_data = data, c_hdr = compute_layout 42 32 64 16 8 0 2 0\<rparr>"
proof -
  let ?h = "compute_layout 42 32 64 16 8 0 2 0"
  obtain data where d: "encode_header ?h (replicate 224 0) = Some data"
    using encode_header_eq [of "replicate 224 0" ?h] by auto
  have t: "length (replicate 224 (0::8 word)) = unat (h_total_len ?h)"
    by (simp add: compute_layout_def HEADER_SIZE_def RELOC_ENTRY_SIZE_def align4_def align8_def
        header_new_def)
  have "parse_container 4294967295 data = Inr \<lparr>c_data = data, c_hdr = ?h\<rparr>"
    using layout_accepted [OF _ d t, of 4294967295] by simp
  with d show ?thesis by blast
qed

section \<open>Accepted containers\<close>

lemma container_sections_disjoint_facts:
  assumes "parse_container umax data = Inr c"
  shows "i < k \<Longrightarrow> k < 6 \<Longrightarrow> disjoint_ranges (sections (c_hdr c) ! i) (sections (c_hdr c) ! k)"
    and "list_all (\<lambda>(a, n). a + n \<le> length data \<or> n = 0) (sections (c_hdr c))"
    and "list_all (\<lambda>(a, n). 72 \<le> a \<or> n = 0) (tl (sections (c_hdr c)))"
    and "h_sig_len (c_hdr c) \<noteq> 0 \<Longrightarrow>
          unat (h_sig_off (c_hdr c)) + unat (h_sig_len (c_hdr c)) \<le> length data"
    and "signed_region_len (c_hdr c) \<le> length data"
proof -
  note p = parse_containerD [OF assms]
  show "i < k \<Longrightarrow> k < 6 \<Longrightarrow> disjoint_ranges (sections (c_hdr c) ! i) (sections (c_hdr c) ! k)"
    by (rule parse_disjoint_aux [OF assms])
  show "list_all (\<lambda>(a, n). a + n \<le> length data \<or> n = 0) (sections (c_hdr c))"
    "list_all (\<lambda>(a, n). 72 \<le> a \<or> n = 0) (tl (sections (c_hdr c)))"
    by (rule parse_ranges(2,3) [OF assms])+
  show s: "h_sig_len (c_hdr c) \<noteq> 0 \<Longrightarrow>
      unat (h_sig_off (c_hdr c)) + unat (h_sig_len (c_hdr c)) \<le> length data"
    using check_bytesD [OF p(11)] by (simp add: unat_eq_0)
  show "signed_region_len (c_hdr c) \<le> length data"
    using s p(5) by (auto simp: signed_region_len_def word_gt_0)
qed

definition sample_header :: lmod_header where
  "sample_header = compute_layout 42 8 16 0 8 0 1 0"

lemma sample_fields:
  "sample_header = header_new\<lparr>h_abi_hash := 42, h_modinfo_off := 72, h_modinfo_len := 8,
     h_code_off := 80, h_code_len := 16, h_rodata_off := 96, h_rodata_len := 0, h_data_off := 96,
     h_data_len := 8, h_bss_len := 0, h_reloc_off := 104, h_reloc_count := 1, h_sig_off := 120,
     h_sig_len := 0, h_total_len := 120\<rparr>"
  by (simp add: sample_header_def compute_layout_def HEADER_SIZE_def RELOC_ENTRY_SIZE_def
      align4_def align8_def)

definition sample_data :: bytes where
  "sample_data = header_bytes sample_header @ replicate 48 1"

lemma sample_parses:
  "parse_container 4294967295 sample_data = Inr \<lparr>c_data = sample_data, c_hdr = sample_header\<rparr>"
proof (rule parse_laid_out)
  show "decode_header sample_data = Some sample_header"
    unfolding sample_data_def
    by (rule decode_header_bytes) (simp add: sample_fields header_new_def)
qed (simp_all add: sample_fields layout_ok_def header_new_def sample_data_def)

text \<open>C28: in an accepted container the header and the modinfo, code, rodata, data and
  relocation sections are pairwise disjoint, non-empty ones lie behind the header and
  inside the buffer, the total length is the buffer's, and the trailer is inside
  the buffer.\<close>

theorem container_sections_disjoint:
  assumes "parse_container umax data = Inr c"
  shows "(\<forall>i k. i < k \<and> k < 6 \<longrightarrow>
            disjoint_ranges (sections (c_hdr c) ! i) (sections (c_hdr c) ! k))
    \<and> list_all (\<lambda>(a, n). a + n \<le> length data \<or> n = 0) (sections (c_hdr c))
    \<and> list_all (\<lambda>(a, n). 72 \<le> a \<or> n = 0) (tl (sections (c_hdr c)))
    \<and> (h_sig_len (c_hdr c) \<noteq> 0 \<longrightarrow>
          unat (h_sig_off (c_hdr c)) + unat (h_sig_len (c_hdr c)) \<le> length data)
    \<and> signed_region_len (c_hdr c) \<le> length data"
  using container_sections_disjoint_facts [OF assms] by blast

theorem container_sections_disjoint_witness:
  "disjoint_ranges (sections sample_header ! 2) (sections sample_header ! 5)
   \<and> signed_region_len sample_header \<le> length sample_data"
  using container_sections_disjoint [OF sample_parses] by simp

lemma container_accessors_total_facts:
  assumes "parse_container umax data = Inr c"
  shows "\<exists>bs. c_modinfo c = Some bs \<and> length bs = unat (h_modinfo_len (c_hdr c))"
    and "\<exists>bs. c_code c = Some bs \<and> length bs = unat (h_code_len (c_hdr c))"
    and "\<exists>bs. c_rodata c = Some bs \<and> length bs = unat (h_rodata_len (c_hdr c))"
    and "\<exists>bs. c_data_section c = Some bs \<and> length bs = unat (h_data_len (c_hdr c))"
    and "\<exists>bs. reloc_raw c = Some bs \<and> length bs = unat (h_reloc_count (c_hdr c)) * 16"
    and "reloc_entry_at c i \<noteq> None \<longleftrightarrow> i < h_reloc_count (c_hdr c)"
proof -
  note p = parse_containerD [OF assms]
  note s = section_slice_total [of c, unfolded p(1)]
  show "\<exists>bs. c_modinfo c = Some bs \<and> length bs = unat (h_modinfo_len (c_hdr c))"
    "\<exists>bs. c_code c = Some bs \<and> length bs = unat (h_code_len (c_hdr c))"
    "\<exists>bs. c_rodata c = Some bs \<and> length bs = unat (h_rodata_len (c_hdr c))"
    "\<exists>bs. c_data_section c = Some bs \<and> length bs = unat (h_data_len (c_hdr c))"
    using s [OF p(6)] s [OF p(7)] s [OF p(8)] s [OF p(9)]
    by (simp_all add: c_modinfo_def c_code_def c_rodata_def c_data_section_def)
  show r: "\<exists>bs. reloc_raw c = Some bs \<and> length bs = unat (h_reloc_count (c_hdr c)) * 16"
    using check_bytesD [OF p(10)] by (auto simp: reloc_raw_def p(1) read_at_def slice_def Let_def)
  show "reloc_entry_at c i \<noteq> None \<longleftrightarrow> i < h_reloc_count (c_hdr c)"
  proof (cases "i < h_reloc_count (c_hdr c)")
    case True
    then have i: "unat i < unat (h_reloc_count (c_hdr c))" by (simp add: word_less_nat_alt)
    obtain bs where bs: "reloc_raw c = Some bs" "length bs = unat (h_reloc_count (c_hdr c)) * 16"
      using r by blast
    have "unat i * 16 + 16 \<le> length bs" using i bs(2) by simp
    then show ?thesis using True reloc_entry_at_raw [OF bs(1) i] by (simp add: decode_entry_slice)
  qed (simp add: reloc_entry_at_def not_less)
qed

text \<open>every accessor of an accepted container is total (no slice panics) and
  returns as many bytes as its header field says.\<close>

theorem container_accessors_total:
  assumes "parse_container umax data = Inr c"
  shows "(\<exists>bs. c_modinfo c = Some bs \<and> length bs = unat (h_modinfo_len (c_hdr c)))
    \<and> (\<exists>bs. c_code c = Some bs \<and> length bs = unat (h_code_len (c_hdr c)))
    \<and> (\<exists>bs. c_rodata c = Some bs \<and> length bs = unat (h_rodata_len (c_hdr c)))
    \<and> (\<exists>bs. c_data_section c = Some bs \<and> length bs = unat (h_data_len (c_hdr c)))
    \<and> (\<exists>bs. reloc_raw c = Some bs \<and> length bs = unat (h_reloc_count (c_hdr c)) * 16)
    \<and> (\<forall>i. reloc_entry_at c i \<noteq> None \<longleftrightarrow> i < h_reloc_count (c_hdr c))"
  using container_accessors_total_facts [OF assms] by blast

theorem container_accessors_total_witness:
  "\<exists>bs. c_code \<lparr>c_data = sample_data, c_hdr = sample_header\<rparr> = Some bs \<and> length bs = 16"
  using container_accessors_total [OF sample_parses] by (simp add: sample_fields)

section \<open>Relocation table\<close>

lemma reloc_table_round_trip_facts:
  assumes "encode_relocs buf es = Some (buf', n)"
  shows "n = 16 * length es"
    and "j < length buf \<Longrightarrow> n \<le> j \<or> 13 \<le> j mod 16 \<Longrightarrow> buf' ! j = buf ! j"
    and "parse_container umax data = Inr c \<Longrightarrow> reloc_raw c = Some buf' \<Longrightarrow>
         unat (h_reloc_count (c_hdr c)) = length es \<Longrightarrow> length es < fuel \<Longrightarrow>
         reloc_collect c fuel 0 = es"
proof -
  show "n = 16 * length es"
    using assms by (auto simp: encode_relocs_def Let_def split: if_splits)
  show "j < length buf \<Longrightarrow> n \<le> j \<or> 13 \<le> j mod 16 \<Longrightarrow> buf' ! j = buf ! j"
    by (rule encode_relocs_frame [OF assms])
  assume c: "parse_container umax data = Inr c" "reloc_raw c = Some buf'"
    "unat (h_reloc_count (c_hdr c)) = length es" "length es < fuel"
  have "reloc_entry_at c (word_of_nat i) = Some (es ! i)" if "i < length es" for i
  proof -
    have "length es < 4294967296" using c(3) unat_u32_less [of "h_reloc_count (c_hdr c)"] by simp
    then have "unat (word_of_nat i :: u32) = i"
      using that by (simp add: unat_of_nat take_bit_nat_eq_self)
    then show ?thesis
      using reloc_entry_at_raw [OF c(2), of "word_of_nat i"] encode_relocs_decode [OF assms that]
        that c(3) by simp
  qed
  then have "reloc_collect c fuel (word_of_nat 0) = map ((!) es) [0..<length es]"
    using reloc_collect_all [of c "(!) es" 0 fuel] c(3,4) by simp
  then show "reloc_collect c fuel 0 = es" by (simp add: map_nth)
qed

definition sample_entry :: reloc_entry where
  "sample_entry = \<lparr>site_off = 4, sym_hash = 0x1234, r_kind = 2\<rparr>"

definition sample_table :: bytes where
  "sample_table = entry_bytes sample_entry @ [0, 0, 0]"

definition sample_reloc_data :: bytes where
  "sample_reloc_data = header_bytes sample_header @ replicate 32 1 @ sample_table"

text \<open>Relocation entries survive the packer and the reader: when the relocation
  section of an accepted container holds what \<open>encode_relocs\<close> wrote, the iterator
  yields exactly those entries in order; \<open>encode_relocs\<close> leaves the padding bytes
  and the rest of the buffer as they were.\<close>

theorem reloc_table_round_trip:
  assumes "encode_relocs buf es = Some (buf', n)"
  shows "n = 16 * length es
    \<and> (\<forall>j < length buf. n \<le> j \<or> 13 \<le> j mod 16 \<longrightarrow> buf' ! j = buf ! j)
    \<and> (\<forall>umax data c fuel. parse_container umax data = Inr c \<and> reloc_raw c = Some buf'
          \<and> unat (h_reloc_count (c_hdr c)) = length es \<and> length es < fuel
          \<longrightarrow> reloc_collect c fuel 0 = es)"
  using reloc_table_round_trip_facts [OF assms] by blast

theorem reloc_table_round_trip_witness:
  "reloc_collect \<lparr>c_data = sample_reloc_data, c_hdr = sample_header\<rparr> 2 0 = [sample_entry]"
proof -
  have t: "length sample_table = 16" by (simp add: sample_table_def entry_bytes_def)
  have e: "encode_relocs (replicate 16 0) [sample_entry] = Some (sample_table, 16)"
    using write_entry [of 0 "replicate 16 0" sample_entry]
    by (simp add: encode_relocs_def Let_def write_at_def entry.enc_length sample_table_def
        del: write_all.simps) (simp add: numeral_eq_Suc)
  have p: "parse_container 4294967295 sample_reloc_data
      = Inr \<lparr>c_data = sample_reloc_data, c_hdr = sample_header\<rparr>"
  proof (rule parse_laid_out)
    show "decode_header sample_reloc_data = Some sample_header"
      unfolding sample_reloc_data_def
      by (rule decode_header_bytes) (simp add: sample_fields header_new_def)
  qed (simp_all add: sample_fields layout_ok_def header_new_def sample_reloc_data_def t)
  show ?thesis
    using reloc_table_round_trip [OF e] p
    by (simp add: sample_fields header_new_def reloc_raw_def read_at_def slice_def
        sample_reloc_data_def t)
qed

section \<open>Thumb branches\<close>

lemma thumb_near_round_trip_facts:
  assumes "4 \<le> length insn"
  shows "even offset \<Longrightarrow> - (2 ^ 23) \<le> offset \<Longrightarrow> offset < 2 ^ 23 \<Longrightarrow>
      \<exists>insn'. encode_branch insn offset link = Inr insn' \<and> length insn' = length insn
        \<and> drop 4 insn' = drop 4 insn
        \<and> decode_branch insn' = Inr (offset,
            case link of Some b \<Rightarrow> b | None \<Rightarrow> bit (of_le (slice insn 2 2) :: u16) 12)"
    and "odd offset \<or> offset < - (2 ^ 24) \<or> 2 ^ 24 \<le> offset \<Longrightarrow> encode_branch insn offset link = Inl ()"
proof -
  assume o: "even offset" "- (2 ^ 23) \<le> offset" "offset < 2 ^ 23"
  then have half: "- 0x400000 \<le> offset div 2" "offset div 2 \<le> 0x3FFFFF" "offset div 2 * 2 = offset"
    by auto
  then obtain insn' where i: "encode_branch insn offset link = Inr insn'"
    using assms o(1) by (auto simp: encode_branch_def Let_def)
  have "offset div 2 mod 2 ^ 22 - (if offset < 0 then 2 ^ 22 else 0) = offset div 2"
  proof (cases "offset < 0")
    case True
    have "offset div 2 mod 2 ^ 22 = offset div 2 + 2 ^ 22"
      by (rule int_mod_pos_eq [of _ _ "- 1"]) (use half True in auto)
    with True show ?thesis by simp
  qed (use half in \<open>simp add: mod_pos_pos_trivial\<close>)
  then show "\<exists>insn'. encode_branch insn offset link = Inr insn' \<and> length insn' = length insn
        \<and> drop 4 insn' = drop 4 insn
        \<and> decode_branch insn' = Inr (offset,
            case link of Some b \<Rightarrow> b | None \<Rightarrow> bit (of_le (slice insn 2 2) :: u16) 12)"
    using i decode_encode [OF i] half(3) assms
    by (auto elim!: encode_branch_Inr)
next
  show "odd offset \<or> offset < - (2 ^ 24) \<or> 2 ^ 24 \<le> offset \<Longrightarrow> encode_branch insn offset link = Inl ()"
    by (auto simp: encode_branch_def Let_def)
qed

text \<open>A branch within \<open>-8 MiB..8 MiB\<close> round-trips: the encoder accepts every even
  displacement and the decoder returns it together with the requested link bit (or
  the bit the site had); the encoder refuses odd and out-of-range displacements.\<close>

theorem thumb_near_round_trip:
  assumes "4 \<le> length insn"
  shows "(even offset \<and> - (2 ^ 23) \<le> offset \<and> offset < 2 ^ 23 \<longrightarrow>
      (\<exists>insn'. encode_branch insn offset link = Inr insn' \<and> length insn' = length insn
        \<and> drop 4 insn' = drop 4 insn
        \<and> decode_branch insn' = Inr (offset,
            case link of Some b \<Rightarrow> b | None \<Rightarrow> bit (of_le (slice insn 2 2) :: u16) 12)))
    \<and> (odd offset \<or> offset < - (2 ^ 24) \<or> 2 ^ 24 \<le> offset \<longrightarrow> encode_branch insn offset link = Inl ())"
  using thumb_near_round_trip_facts [OF assms] by blast

theorem thumb_near_round_trip_witness:
  "\<exists>insn'. encode_branch [0xF0, 0, 0x90, 0x0F] (- 256) None = Inr insn' \<and> length insn' = 4
     \<and> decode_branch insn' = Inr (- 256, False)"
  using thumb_near_round_trip [of "[0xF0, 0, 0x90, 0x0F]" "- 256" None]
  by (auto simp: slice_def bit_simps)

lemma thumb_far_branch_corrupted_facts:
  assumes "4 \<le> length insn" "even offset"
  shows "2 ^ 23 \<le> offset \<Longrightarrow> offset < 2 ^ 24 \<Longrightarrow> \<exists>insn'. encode_branch insn offset link = Inr insn'
         \<and> (\<exists>l. decode_branch insn' = Inr (offset - 2 ^ 23, l))"
    and "- (2 ^ 24) \<le> offset \<Longrightarrow> offset < - (2 ^ 23) \<Longrightarrow> \<exists>insn'. encode_branch insn offset link = Inr insn'
         \<and> (\<exists>l. decode_branch insn' = Inr (offset + 2 ^ 23, l))"
proof -
  assume o: "2 ^ 23 \<le> offset" "offset < 2 ^ 24"
  then have half: "0x400000 \<le> offset div 2" "offset div 2 \<le> 0x7FFFFF" "offset div 2 * 2 = offset"
    using assms(2) by auto
  then obtain insn' where i: "encode_branch insn offset link = Inr insn'"
    using assms by (auto simp: encode_branch_def Let_def)
  have "offset div 2 mod 2 ^ 22 = offset div 2 - 2 ^ 22"
    by (rule int_mod_pos_eq [of _ _ 1]) (use half in auto)
  then show "\<exists>insn'. encode_branch insn offset link = Inr insn'
      \<and> (\<exists>l. decode_branch insn' = Inr (offset - 2 ^ 23, l))"
    using i decode_encode [OF i] half(3) o by auto
next
  assume o: "- (2 ^ 24) \<le> offset" "offset < - (2 ^ 23)"
  then have half: "- 0x800000 \<le> offset div 2" "offset div 2 < - 0x400000" "offset div 2 * 2 = offset"
    using assms(2) by auto
  then obtain insn' where i: "encode_branch insn offset link = Inr insn'"
    using assms by (auto simp: encode_branch_def Let_def)
  have "offset div 2 mod 2 ^ 22 = offset div 2 + 2 * 2 ^ 22"
    by (rule int_mod_pos_eq [of _ _ "- 2"]) (use half in auto)
  then show "\<exists>insn'. encode_branch insn offset link = Inr insn'
      \<and> (\<exists>l. decode_branch insn' = Inr (offset + 2 ^ 23, l))"
    using i decode_encode [OF i] half(3) o by auto
qed

text \<open>A branch of \<open>8 MiB\<close> or more, which the encoder accepts, is encoded with the
  wrong J1 bit: its target is \<open>8 MiB\<close> off in the direction of the site.\<close>

theorem thumb_far_branch_corrupted:
  assumes "4 \<le> length insn" "even offset"
  shows "(2 ^ 23 \<le> offset \<and> offset < 2 ^ 24 \<longrightarrow> (\<exists>insn'. encode_branch insn offset link = Inr insn'
         \<and> (\<exists>l. decode_branch insn' = Inr (offset - 2 ^ 23, l))))
    \<and> (- (2 ^ 24) \<le> offset \<and> offset < - (2 ^ 23) \<longrightarrow> (\<exists>insn'. encode_branch insn offset link = Inr insn'
         \<and> (\<exists>l. decode_branch insn' = Inr (offset + 2 ^ 23, l))))"
  using thumb_far_branch_corrupted_facts [OF assms] by blast

theorem thumb_far_branch_corrupted_witness:
  "\<exists>insn' l. encode_branch [0, 0, 0, 0] 8388608 (Some True) = Inr insn' \<and> decode_branch insn' = Inr (0, l)"
  using thumb_far_branch_corrupted [of "[0, 0, 0, 0]" 8388608 "Some True"] by auto

section \<open>The trailer\<close>

definition overlap_header :: lmod_header where
  "overlap_header = header_new\<lparr>h_total_len := 80, h_code_off := 72, h_code_len := 8,
     h_sig_off := 72, h_sig_len := 8\<rparr>"

text \<open>The overlap check leaves the trailer out: there is an accepted container whose
  trailer starts at its code section, so that its signed region covers no byte of the
  code.\<close>

theorem trailer_may_cover_code:
  "\<exists>data c. parse_container 4294967295 data = Inr c \<and> 0 < h_code_len (c_hdr c)
     \<and> signed_region_len (c_hdr c) \<le> unat (h_code_off (c_hdr c))"
proof -
  let ?data = "header_bytes overlap_header @ replicate 8 0"
  have d: "decode_header ?data = Some overlap_header"
    by (rule decode_header_bytes) (simp add: overlap_header_def header_new_def)
  have w: "windows_ok (sort_ranges (ranges_of overlap_header 0))"
    by code_simp
  have "parse_container 4294967295 ?data = Inr \<lparr>c_data = ?data, c_hdr = overlap_header\<rparr>"
    using d w
    by (simp add: parse_container_def overlap_header_def header_new_def check_range_def
        check_bytes_def checked_add_u32_def HEADER_SIZE_def)
  then show ?thesis
    by (intro exI conjI) (assumption, simp_all add: overlap_header_def header_new_def signed_region_len_def)
qed

end

