(* ===== verification/LoadRt.thy ===== *)
theory LoadRt
  imports LoadProps ManifestRt LmodProps
begin

text \<open>
  The loader on containers the packer writes: a packed module that fits the platform
  loads; one that declares a shared resource has already run its init word when
  the loader refuses it. The last section applies the loader's properties to a concrete
  container.
\<close>

section \<open>Packed modules\<close>

text \<open>The allocators return writable memory of the length they were asked for.\<close>

definition serves :: "'p platform \<Rightarrow> bool" where
  "serves p \<longleftrightarrow>
     (\<forall>n q. \<exists>r q'. pf_alloc_exec p n q = (Inr r, q') \<and> length (rg_bytes r) = n \<and> rg_addr r \<noteq> 0)
   \<and> (\<forall>n q. \<exists>r q'. pf_alloc_ro p n q = (Inr r, q') \<and> length (rg_bytes r) = n)
   \<and> (\<forall>n q. \<exists>r q'. pf_alloc_rw p n q = (Inr r, q') \<and> length (rg_bytes r) = n)
   \<and> (\<forall>r q. \<exists>r' q'. pf_make_exec p r q = (Inr r', q') \<and> rg_addr r' = rg_addr r
          \<and> length (rg_bytes r') = length (rg_bytes r))"

text \<open>A container with a packed module block and a packed manifest record behind it.\<close>

definition packed :: "nat \<Rightarrow> (bytes \<Rightarrow> bytes) \<Rightarrow> modinfo_src \<Rightarrow> manifest_spec \<Rightarrow> container \<Rightarrow> bool" where
  "packed umax sha s spec c \<longleftrightarrow> src_ok s \<and> spec_typed sha spec \<and> parse_container umax (c_data c) = Inr c
     \<and> (\<exists>rest. encode_verify_manifest sha spec = Inr rest \<and> c_modinfo c = Some (src_bytes s @ rest))
     \<and> h_flags (c_hdr c) = 0 \<and> h_reloc_count (c_hdr c) = 0 \<and> 2 \<le> unat (h_code_len (c_hdr c))
     \<and> length (c_data c) \<le> umax
     \<and> unat (h_data_len (c_hdr c)) + unat (h_bss_len (c_hdr c)) \<le> umax"

text \<open>What the loader asks of the module before it looks at the resources.\<close>

definition fits :: "'p platform \<Rightarrow> modinfo_src \<Rightarrow> manifest_spec \<Rightarrow> container \<Rightarrow> bool" where
  "fits p s spec c \<longleftrightarrow> h_abi_hash (c_hdr c) = pf_expected_abi_hash p
     \<and> s_flags s AND MODINFO_FLAG_HAS_ISR = 0
     \<and> (\<forall>x \<in> set (s_exports s). e_stack_bound x \<le> pf_ds_remaining_slots p)
     \<and> satisfies (sp_policy spec) (verify_policy_u8 (pf_verify_policy p))
     \<and> pf_trust_level p = TZero \<and> pf_placement_policy p = CopyToRam
     \<and> (s_platform s = 0 \<or> pf_platform_hash p = Some (s_platform s))
     \<and> distinct (map ap_id (s_aps s))
     \<and> (\<forall>a \<in> set (s_aps s). entry_ok (pf_aperture_table p) a \<and> unat (ap_id a) < APERTURE_CAP)"

text \<open>The loader's state has room for it.\<close>

definition callable_words :: "modinfo_src \<Rightarrow> export_entry list" where
  "callable_words s = filter (\<lambda>x. e_name x \<noteq> MOD_INIT_NAME) (s_exports s)"

definition named :: "bytes list \<Rightarrow> bytes list" where "named = filter (\<lambda>n. n \<noteq> [])"

definition has_room :: "'p load_state \<Rightarrow> modinfo_src \<Rightarrow> bool" where
  "has_room st s \<longleftrightarrow> sm_wf (ld_map st) \<and> reg_wf (ld_reg st)
     \<and> \<not> loaded_contains (fnv1a_u64 (s_name s)) (ld_set st)
     \<and> hs_len (ld_set st) < length (hs_hashes (ld_set st))
     \<and> sm_len (ld_map st) + length (callable_words s) \<le> length (sm_entries (ld_map st))
     \<and> distinct (map se_hash (sm_iter (ld_map st)) @ map e_sym_hash (callable_words s))
     \<and> distinct (named (map se_name (sm_iter (ld_map st)) @ map e_name (callable_words s)))
     \<and> length (bound_pairs (ld_reg st)) + length (s_aps s) \<le> APERTURE_CAP
     \<and> (\<forall>a \<in> set (s_aps s). \<not> is_bound (ld_reg st) (ap_id a))"

section \<open>The checks pass\<close>

lemma sbind_step: "m s = (Inr x, s') \<Longrightarrow> sbind m f s = f x s'"
  by (simp add: sbind_def)

lemma unat_index: "i < 64 \<Longrightarrow> unat (word_of_nat i :: u32) = i"
  by (simp add: unat_of_nat take_bit_nat_eq_self)

lemma stack_bound_src:
  assumes "slice d (unat v) 16 = word_meta_bytes e" "unat v + 16 \<le> length d" "length d \<le> umax"
  shows "read_word_meta_stack_bound umax d v = Inr (e_stack_bound e)"
proof -
  have "u32_at d (unat v + 12) = e_stack_bound e"
    using word_meta_dec [of e] by (simp add: word_meta_of_bytes_def flip: assms(1)) (simp add: u32_at_def slice_slice)
  then show ?thesis using assms(2,3) by (simp add: read_word_meta_stack_bound_def)
qed

lemma for_exports_src:
  assumes "src_ok s" "src_length s + length rest \<le> umax" "\<forall>x \<in> set (s_exports s). e_stack_bound x \<le> b"
  shows "for_exports (read_export umax (src_bytes s @ rest)) (\<lambda>e.
      bindE (read_word_meta_stack_bound umax (src_bytes s @ rest) (x_value_off e)) (\<lambda>v.
      l_guard (v \<le> b) StackBoundUnverifiable)) [0..<length (s_exports s)] = Inr ()"
proof -
  have len: "length (src_bytes s @ rest) \<le> umax" using assms(2) by (simp add: length_src_bytes)
  have n: "length (s_exports s) \<le> 64" using assms(1) by (simp add: src_ok_def)
  show ?thesis
    unfolding for_exports_Inr
  proof (intro ballI)
    fix i assume "i \<in> set [0..<length (s_exports s)]"
    then have i: "i < length (s_exports s)" "unat (word_of_nat i :: u32) = i" using n by (simp_all add: unat_index)
    obtain x where x: "read_export umax (src_bytes s @ rest) (word_of_nat i) = Got x"
      "slice (src_bytes s @ rest) (unat (x_value_off x)) 16 = word_meta_bytes (s_exports s ! i)"
      "unat (x_value_off x) + 16 \<le> length (src_bytes s @ rest)"
      using read_export_src [OF assms(1,2), of "word_of_nat i"] i by auto
    then show "\<exists>e. read_export umax (src_bytes s @ rest) (word_of_nat i) = Got e \<and> (x_name e \<noteq> MOD_INIT_NAME \<longrightarrow>
        bindE (read_word_meta_stack_bound umax (src_bytes s @ rest) (x_value_off e)) (\<lambda>v.
          l_guard (v \<le> b) StackBoundUnverifiable) = Inr ())"
      using stack_bound_src [OF x(2,3) len] assms(3) i(1) by (simp add: l_guard_Inr)
  qed
qed

lemma packed_reads:
  assumes "packed umax sha s spec c"
  obtains rest m vm where "c_modinfo c = Some (src_bytes s @ rest)" "src_ok s" "src_length s + length rest \<le> umax"
    "src_bytes s @ rest \<noteq> []" "decode_modinfo umax (src_bytes s @ rest) = Got m" "mod_info.m_name m = s_name s"
    "unat (m_export_count m) = length (s_exports s)" "m_flags m = s_flags s"
    "scan_verify_manifest (src_bytes s @ rest) = Inr (Some vm)" "vm_policy vm = sp_policy spec"
    "vm_digest vm = sha (slice (src_bytes s @ rest) (vm_start vm) (vm_end vm - vm_start vm))"
proof -
  obtain rest where r: "encode_verify_manifest sha spec = Inr rest" "c_modinfo c = Some (src_bytes s @ rest)"
    and ok: "src_ok s" "spec_typed sha spec" and pc: "parse_container umax (c_data c) = Inr c"
    and fit: "length (c_data c) \<le> umax"
    using assms by (auto simp: packed_def)
  obtain vm where vm: "scan_verify_manifest (src_bytes s @ rest) = Inr (Some vm)" "vm_policy vm = sp_policy spec"
    "vm_digest vm = sha (slice (src_bytes s @ rest) (vm_start vm) (vm_end vm - vm_start vm))"
    using manifest_round_trip_facts [OF r(1) ok(2), of "src_bytes s"] by auto
  have "length (src_bytes s @ rest) \<le> length (c_data c)"
    using r(2) by (auto simp: c_modinfo_def section_slice_def read_at_def slice_def dest!: arg_cong [where f = length] split: if_splits)
  then have u: "src_length s + length rest \<le> umax" using fit by (simp add: length_src_bytes)
  obtain m where m: "decode_modinfo umax (src_bytes s @ rest) = Got m" "mod_info.m_name m = s_name s"
    "unat (m_export_count m) = length (s_exports s)" "m_flags m = s_flags s"
    using decode_src [OF ok(1) u] by auto
  show thesis by (rule that [OF r(2) ok(1) u decode_nonempty [OF m(1)] m vm])
qed

lemma pre_checks_src:
  assumes "packed umax sha s spec c" "fits p s spec c" "\<not> loaded_contains (fnv1a_u64 (s_name s)) ls"
  shows "\<exists>rest. c_modinfo c = Some (src_bytes s @ rest)
    \<and> pre_checks umax (Some sha) p c ls = Inr (fnv1a_u64 (s_name s), src_bytes s @ rest)"
proof -
  obtain rest m vm where r: "c_modinfo c = Some (src_bytes s @ rest)" and ok: "src_ok s" "src_length s + length rest \<le> umax"
    and ne: "src_bytes s @ rest \<noteq> []" and m: "decode_modinfo umax (src_bytes s @ rest) = Got m" "mod_info.m_name m = s_name s"
    "unat (m_export_count m) = length (s_exports s)" "m_flags m = s_flags s"
    and vm: "scan_verify_manifest (src_bytes s @ rest) = Inr (Some vm)" "vm_policy vm = sp_policy spec"
    "vm_digest vm = sha (slice (src_bytes s @ rest) (vm_start vm) (vm_end vm - vm_start vm))"
    by (rule packed_reads [OF assms(1)])
  have fl: "h_flags (c_hdr c) = 0" using assms(1) by (simp add: packed_def)
  have v: "validate_modinfo_for_load umax (src_bytes s @ rest) (pf_ds_remaining_slots p) = Inr ()"
    using ne m assms(2) for_exports_src [OF ok, of "pf_ds_remaining_slots p"]
    by (simp add: validate_modinfo_for_load_def enforce_stack_bound_budget_def result_simps has_isr_def fits_def)
  have w: "validate_verify_manifest (Some sha) (src_bytes s @ rest) p = Inr ()"
    using vm assms(2) by (simp add: validate_verify_manifest_def lift_manifest_def result_simps fits_def)
  have "pre_checks umax (Some sha) p c ls = Inr (fnv1a_u64 (s_name s), src_bytes s @ rest)"
    unfolding pre_checks_def Let_def
    using r m v w fl assms(2,3)
    by (simp add: result_simps or_panic_Inr fits_def verify_signature_if_required_def
        reject_encrypted_without_feature_def)
  with r show ?thesis by blast
qed

section \<open>The guarded steps go through\<close>

lemma plat_serves:
  assumes "\<exists>r q'. f (ld_plat st) = (Inr r, q') \<and> P r"
  shows "\<exists>r q'. plat_op f st = (Inr r, st\<lparr>ld_plat := q'\<rparr>) \<and> P r"
  using assms by (auto simp: plat_op_def)

lemma alloc_serves:
  assumes "\<exists>r q'. f (ld_plat st) = (Inr r, q') \<and> length (rg_bytes r) = n"
  shows "\<exists>r q'. alloc_opt (plat_op f) n st = (Inr r, st\<lparr>ld_plat := q'\<rparr>)
    \<and> (\<forall>x. r = Some x \<longrightarrow> length (rg_bytes x) = n \<and> 0 < n)"
proof (cases "0 < n")
  case True
  then show ?thesis
    using plat_serves [of f st "\<lambda>r. length (rg_bytes r) = n", OF assms] by (auto simp: alloc_opt_def sbind_step spure_def)
next
  case False
  then show ?thesis by (intro exI [of _ None] exI [of _ "ld_plat st"]) (simp add: alloc_opt_def spure_def)
qed

lemma servesD:
  assumes "serves p"
  shows "\<exists>r q'. pf_alloc_exec p n q = (Inr r, q') \<and> length (rg_bytes r) = n \<and> rg_addr r \<noteq> 0"
    "\<exists>r q'. pf_alloc_ro p n q = (Inr r, q') \<and> length (rg_bytes r) = n"
    "\<exists>r q'. pf_alloc_rw p n q = (Inr r, q') \<and> length (rg_bytes r) = n"
    "\<exists>r' q'. pf_make_exec p r q = (Inr r', q') \<and> rg_addr r' = rg_addr r
        \<and> length (rg_bytes r') = length (rg_bytes r)"
  using assms by (simp_all add: serves_def)

lemma place_serves:
  assumes "serves p" "packed umax sha s spec c"
  shows "\<exists>code ro da q. place_sections umax p c st = (Inr (code, ro, da), st\<lparr>ld_plat := q\<rparr>)
    \<and> rg_addr code \<noteq> 0 \<and> length (rg_bytes code) = unat (h_code_len (c_hdr c))"
proof -
  let ?h = "c_hdr c"
  let ?rw = "(unat (h_data_len ?h) + unat (h_bss_len ?h)) mod (umax + 1)"
  have pc: "parse_container umax (c_data c) = Inr c"
    and rw: "unat (h_data_len ?h) + unat (h_bss_len ?h) \<le> umax" and nz: "0 < unat (h_code_len ?h)"
    using assms(2) by (simp_all add: packed_def)
  obtain cb rb db where b: "c_code c = Some cb" "length cb = unat (h_code_len ?h)"
    "c_rodata c = Some rb" "length rb = unat (h_rodata_len ?h)"
    "c_data_section c = Some db" "length db = unat (h_data_len ?h)"
    using container_accessors_total_facts(2-4) [OF pc] by blast
  obtain co q1 where 1: "plat_op (pf_alloc_exec p (unat (h_code_len ?h))) st = (Inr co, st\<lparr>ld_plat := q1\<rparr>)"
    "length (rg_bytes co) = unat (h_code_len ?h)" "rg_addr co \<noteq> 0"
    using plat_serves [of "pf_alloc_exec p (unat (h_code_len ?h))" st
        "\<lambda>r. length (rg_bytes r) = unat (h_code_len ?h) \<and> rg_addr r \<noteq> 0", OF servesD(1) [OF assms(1)]] by blast
  obtain ro q2 where 2: "alloc_opt (plat_op (pf_alloc_ro p (unat (h_rodata_len ?h)))) (unat (h_rodata_len ?h))
      (st\<lparr>ld_plat := q1\<rparr>) = (Inr ro, st\<lparr>ld_plat := q1\<rparr>\<lparr>ld_plat := q2\<rparr>)"
    "\<forall>x. ro = Some x \<longrightarrow> length (rg_bytes x) = unat (h_rodata_len ?h) \<and> 0 < unat (h_rodata_len ?h)"
    using alloc_serves [of "pf_alloc_ro p (unat (h_rodata_len ?h))" "st\<lparr>ld_plat := q1\<rparr>", OF servesD(2) [OF assms(1)]] by blast
  obtain da q3 where 3: "alloc_opt (plat_op (pf_alloc_rw p ?rw)) ?rw (st\<lparr>ld_plat := q1\<rparr>\<lparr>ld_plat := q2\<rparr>)
      = (Inr da, st\<lparr>ld_plat := q1\<rparr>\<lparr>ld_plat := q2\<rparr>\<lparr>ld_plat := q3\<rparr>)"
    "\<forall>x. da = Some x \<longrightarrow> length (rg_bytes x) = ?rw \<and> 0 < ?rw"
    using alloc_serves [of "pf_alloc_rw p ?rw" "st\<lparr>ld_plat := q1\<rparr>\<lparr>ld_plat := q2\<rparr>", OF servesD(3) [OF assms(1)]] by blast
  have f1: "\<exists>ro'. fill_opt ro (\<lambda>r. bindE (or_panic (c_rodata c)) (copy_all r)) = Inr ro'"
    using 2(2) b by (cases ro) (simp_all add: fill_opt_def or_panic_def copy_all_def)
  have f2: "\<exists>da'. fill_opt da (\<lambda>r. if 0 < unat (h_data_len ?h)
                 then bindE (or_panic (c_data_section c)) (copy_front r) else Inr r) = Inr da'"
    using 3(2) b rw by (cases da) (simp_all add: fill_opt_def or_panic_def copy_front_def)
  show ?thesis
    using f1 f2 1(2,3) b nz unfolding place_sections_def Let_def
    by (auto simp: sbind_def 1(1) 2(1) [simplified] 3(1) [simplified] spure_def or_panic_def copy_all_def)
qed

lemma find_init_src:
  assumes "\<forall>i \<in> set is. \<exists>x. read (word_of_nat i) = Got x \<and> x_name x = nm i"
  shows "find_init read is = Inr (MOD_INIT_NAME \<in> nm ` set is)"
  using assms by (induction "is") auto

lemma read_names_src:
  assumes "src_ok s" "src_length s + length rest \<le> umax"
  shows "\<forall>i \<in> set [0..<length (s_exports s)]. \<exists>x. read_export umax (src_bytes s @ rest) (word_of_nat i) = Got x
    \<and> x_name x = e_name (s_exports s ! i) \<and> x_sym_hash x = e_sym_hash (s_exports s ! i)"
proof
  fix i assume "i \<in> set [0..<length (s_exports s)]"
  then have i: "i < length (s_exports s)" "unat (word_of_nat i :: u32) = i"
    using assms(1) by (simp_all add: unat_index src_ok_def)
  show "\<exists>x. read_export umax (src_bytes s @ rest) (word_of_nat i) = Got x
    \<and> x_name x = e_name (s_exports s ! i) \<and> x_sym_hash x = e_sym_hash (s_exports s ! i)"
    using read_export_src [OF assms, of "word_of_nat i"] i by auto
qed

definition has_init :: "modinfo_src \<Rightarrow> bool" where
  "has_init s \<longleftrightarrow> MOD_INIT_NAME \<in> e_name ` set (s_exports s)"

lemma lookup_init_src:
  assumes "packed umax sha s spec c" "c_modinfo c = Some d"
  shows "lookup_mod_init umax arm d base = Inr (if has_init s then module_fn_addr arm base else 0)"
proof -
  obtain rest m vm where r: "c_modinfo c = Some (src_bytes s @ rest)" "src_ok s" "src_length s + length rest \<le> umax"
    "src_bytes s @ rest \<noteq> []" "decode_modinfo umax (src_bytes s @ rest) = Got m" "mod_info.m_name m = s_name s"
    "unat (m_export_count m) = length (s_exports s)" by (rule packed_reads [OF assms(1)])
  have d: "d = src_bytes s @ rest" using r(1) assms(2) by simp
  have "find_init (read_export umax d) [0..<length (s_exports s)]
      = Inr (MOD_INIT_NAME \<in> (\<lambda>i. e_name (s_exports s ! i)) ` set [0..<length (s_exports s)])"
    using read_names_src [OF r(2,3)] unfolding d by (intro find_init_src) blast
  moreover have "(\<lambda>i. e_name (s_exports s ! i)) ` set [0..<length (s_exports s)] = e_name ` set (s_exports s)"
    by (metis (no_types) image_image list.set_map map_nth)
  ultimately show ?thesis
    using r(4,5,7) by (auto simp: lookup_mod_init_def d has_init_def)
qed

lemma or_one_le: "(n :: nat) OR 1 \<le> n + 1" "n \<le> n OR 1"
  by (simp_all only: or_one_eq) simp_all

lemma run_init_serves:
  assumes "packed umax sha s spec c" "c_modinfo c = Some d" "unat (rg_addr rx) = base" "base \<noteq> 0"
    "2 \<le> length (rg_bytes rx)"
  shows "\<exists>a addr. run_init_if_present umax arm p d base rx st
      = (Inr addr, if has_init s then st\<lparr>ld_plat := pf_run_init p a (ld_plat st)\<rparr> else st)"
proof (cases "has_init s")
  case True
  have "base \<le> module_fn_addr arm base" "module_fn_addr arm base \<le> base + 1" "module_fn_addr arm base \<noteq> 0"
    using or_one_le [of base] assms(4) by (auto simp: module_fn_addr_def)
  then show ?thesis
    using True assms(5) lookup_init_src [OF assms(1,2), of arm base]
    by (auto simp: run_init_if_present_def sbind_def spure_def)
next
  case False
  then show ?thesis
    using lookup_init_src [OF assms(1,2), of arm base]
    by (auto simp: run_init_if_present_def sbind_def spure_def)
qed

lemma register_ok:
  assumes "sm_wf m" "sm_len m < length (sm_entries m)" "h \<notin> se_hash ` set (sm_iter m)"
    "n = [] \<or> n \<notin> se_name ` set (sm_iter m)"
  shows "\<exists>m'. register_with_hash h n addr m = Inr m'
    \<and> length (sm_entries m') = length (sm_entries m) \<and> sm_len m' = sm_len m + 1"
  using assms by (simp add: register_with_hash_def sym_clash_None [THEN iffD2])

lemma register_loop_src:
  assumes "\<forall>i \<in> set is. \<exists>x. read (word_of_nat i) = Got x \<and> x_name x = nm i \<and> x_sym_hash x = hs i"
    and "sm_wf m" "sm_len m + length (filter (\<lambda>i. nm i \<noteq> MOD_INIT_NAME) is) \<le> length (sm_entries m)"
    and "distinct (map se_hash (sm_iter m) @ map hs (filter (\<lambda>i. nm i \<noteq> MOD_INIT_NAME) is))"
    and "distinct (named (map se_name (sm_iter m) @ map nm (filter (\<lambda>i. nm i \<noteq> MOD_INIT_NAME) is)))"
  shows "\<exists>m'. register_loop read addr is m = (Inr (), m')"
  using assms
proof (induction "is" arbitrary: m)
  case (Cons i "is")
  obtain x where x: "read (word_of_nat i) = Got x" "x_name x = nm i" "x_sym_hash x = hs i"
    using Cons.prems(1) by auto
  show ?case
  proof (cases "nm i = MOD_INIT_NAME")
    case True
    then show ?thesis using Cons x by simp
  next
    case False
    then have n: "nm i = [] \<or> nm i \<notin> se_name ` set (sm_iter m)" "hs i \<notin> se_hash ` set (sm_iter m)"
      "sm_len m < length (sm_entries m)"
      using Cons.prems by (auto simp: named_def)
    obtain m2 where m2: "register_with_hash (hs i) (nm i) addr m = Inr m2"
      "length (sm_entries m2) = length (sm_entries m)" "sm_len m2 = sm_len m + 1"
      using register_ok [OF Cons.prems(2) n(3,2,1)] by blast
    note w = register_Inr [OF m2(1) Cons.prems(2)]
    have "\<exists>m'. register_loop read addr is m2 = (Inr (), m')"
      by (rule Cons.IH [OF _ w(1)])
        (use Cons.prems False m2(2,3) in \<open>auto simp: w(2) named_def split: if_splits\<close>)
    then show ?thesis using x False m2(1) by simp
  qed
qed simp

lemma filter_index: "map ((!) xs) (filter (\<lambda>i. P (xs ! i)) [0..<length xs]) = filter P xs"
  using filter_map [of P "(!) xs" "[0..<length xs]"] by (simp add: map_nth o_def)

lemma register_serves:
  assumes "packed umax sha s spec c" "c_modinfo c = Some d" "has_room st s" "ld_map t = ld_map st"
  shows "\<exists>m'. register_exports umax arm d base t = (Inr (), t\<lparr>ld_map := m'\<rparr>)"
proof -
  obtain rest m vm where r: "c_modinfo c = Some (src_bytes s @ rest)" "src_ok s" "src_length s + length rest \<le> umax"
    "src_bytes s @ rest \<noteq> []" "decode_modinfo umax (src_bytes s @ rest) = Got m" "mod_info.m_name m = s_name s"
    "unat (m_export_count m) = length (s_exports s)" by (rule packed_reads [OF assms(1)])
  have d: "d = src_bytes s @ rest" using r(1) assms(2) by simp
  define cs where "cs = filter (\<lambda>i. e_name (s_exports s ! i) \<noteq> MOD_INIT_NAME) [0..<length (s_exports s)]"
  have cw: "callable_words s = map ((!) (s_exports s)) cs"
    unfolding callable_words_def cs_def by (rule filter_index [symmetric])
  have "\<exists>m'. register_loop (read_export umax d) (module_fn_addr arm base) [0..<length (s_exports s)] (ld_map st) = (Inr (), m')"
    by (rule register_loop_src [where nm = "\<lambda>i. e_name (s_exports s ! i)" and hs = "\<lambda>i. e_sym_hash (s_exports s ! i)"])
      (use read_names_src [OF r(2,3)] assms(3) in
        \<open>simp_all only: d cs_def [symmetric] has_room_def cw map_map comp_def length_map\<close>)
  then show ?thesis using r(4,5,7) assms(4) by (auto simp: register_exports_def d)
qed

section \<open>Loading\<close>

text \<open>The guarded steps up to the resource check, with the platform state they leave.\<close>

lemma guarded_front:
  assumes "packed umax sha s spec c" "fits p s spec c" "has_room st s" "serves p" "c_modinfo c = Some d"
  obtains lm t q where "guarded_load umax arm p c h d st
      = sbind (spure (check_resource_sharing umax d)) (\<lambda>_. sbind (insert_step h) (\<lambda>_. spure (Inr lm))) t"
    "ld_set t = ld_set st" "\<exists>a. ld_plat t = (if has_init s then pf_run_init p a q else q)"
proof -
  obtain rest m vm where r: "c_modinfo c = Some (src_bytes s @ rest)" "src_ok s" "src_length s + length rest \<le> umax"
    "src_bytes s @ rest \<noteq> []" "decode_modinfo umax (src_bytes s @ rest) = Got m" by (rule packed_reads [OF assms(1)])
  have d: "d = src_bytes s @ rest" using r(1) assms(5) by simp
  have z: "h_reloc_count (c_hdr c) = 0" "2 \<le> unat (h_code_len (c_hdr c))" using assms(1) by (simp_all add: packed_def)
  have f: "pf_placement_policy p = CopyToRam" "pf_trust_level p = TZero" using assms(2) by (simp_all add: fits_def)
  obtain bases reg where b: "bind_step umax p d (h_abi_hash (c_hdr c)) st = (Inr bases, st\<lparr>ld_reg := reg\<rparr>)"
    using packed_binds_facts [OF r(2,3), of "ld_reg st" "pf_platform_hash p" "pf_aperture_table p" "h_abi_hash (c_hdr c)"]
      assms(2,3) unfolding fits_def has_room_def bind_step_def d by auto
  obtain code ro da q where pl: "place_sections umax p c (st\<lparr>ld_reg := reg\<rparr>)
      = (Inr (code, ro, da), st\<lparr>ld_reg := reg\<rparr>\<lparr>ld_plat := q\<rparr>)"
    "rg_addr code \<noteq> 0" "length (rg_bytes code) = unat (h_code_len (c_hdr c))"
    using place_serves [OF assms(4,1), of "st\<lparr>ld_reg := reg\<rparr>"] by blast
  let ?s2 = "st\<lparr>ld_reg := reg\<rparr>\<lparr>ld_plat := q\<rparr>"
  have rl: "apply_import_relocations (rg_addr code) c m' bases (rg_bytes code) = Inr (rg_bytes code)" for m'
    by (simp add: apply_import_relocations_def z)
  obtain rx q2 where mk: "plat_op (pf_make_exec p (code\<lparr>rg_bytes := rg_bytes code\<rparr>)) ?s2 = (Inr rx, ?s2\<lparr>ld_plat := q2\<rparr>)"
    "rg_addr rx = rg_addr code" "length (rg_bytes rx) = length (rg_bytes code)"
    using plat_serves [of "pf_make_exec p (code\<lparr>rg_bytes := rg_bytes code\<rparr>)" ?s2
        "\<lambda>r. rg_addr r = rg_addr code \<and> length (rg_bytes r) = length (rg_bytes code)"]
      servesD(4) [OF assms(4), of "code\<lparr>rg_bytes := rg_bytes code\<rparr>"] by simp blast
  let ?s3 = "?s2\<lparr>ld_plat := q2\<rparr>"
  obtain a addr where ini: "run_init_if_present umax arm p d (unat (rg_addr code)) rx ?s3
      = (Inr addr, if has_init s then ?s3\<lparr>ld_plat := pf_run_init p a (ld_plat ?s3)\<rparr> else ?s3)"
    using run_init_serves [OF assms(1,5), of rx "unat (rg_addr code)" arm p ?s3] pl(2,3) mk(2,3) z(2)
    by (auto simp: unat_eq_0)
  define s4 where "s4 = (if has_init s then ?s3\<lparr>ld_plat := pf_run_init p a (ld_plat ?s3)\<rparr> else ?s3)"
  have s4: "ld_map s4 = ld_map st" "ld_set s4 = ld_set st"
    "ld_plat s4 = (if has_init s then pf_run_init p a q2 else q2)" by (simp_all add: s4_def)
  obtain m' where re: "register_exports umax arm d (unat (rg_addr code)) s4 = (Inr (), s4\<lparr>ld_map := m'\<rparr>)"
    using register_serves [OF assms(1,5,3) s4(1)] by blast
  have tb: "verify_trust_two_stack_bounds umax p code' d = Inr ()" for code'
    by (simp add: verify_trust_two_stack_bounds_def f)
  show thesis
  proof (rule that [of _ "s4\<lparr>ld_map := m'\<rparr>"])
    show "guarded_load umax arm p c h d st
      = sbind (spure (check_resource_sharing umax d)) (\<lambda>_. sbind (insert_step h) (\<lambda>_.
          spure (Inr \<lparr>lm_code = rx, lm_rodata = (case ro of Some r \<Rightarrow> r | None \<Rightarrow> null_region),
                lm_data = (case da of Some r \<Rightarrow> r | None \<Rightarrow> null_region),
                lm_init = addr, lm_abi_hash = h_abi_hash (c_hdr c)\<rparr>))) (s4\<lparr>ld_map := m'\<rparr>)"
      unfolding guarded_load_def
      apply (subst sbind_step, rule b)
      apply (subst sbind_step, simp add: spure_def l_guard_def f)
      apply (subst sbind_step, rule pl(1))
      apply (simp only: prod.case Let_def)
      apply (subst sbind_step, simp only: rl)
      apply (subst sbind_step, rule mk(1))
      apply (subst sbind_step, rule ini [folded s4_def])
      apply (subst sbind_step, rule re)
      apply (subst sbind_step, simp only: spure_def tb)
      apply (rule refl)
      done
  qed (use s4 in auto)
qed

lemma sharing_ok:
  assumes "\<And>i rm. read i = Got rm \<Longrightarrow> sharing_class rm = 0" "\<And>i. read i \<noteq> Panic"
  shows "sharing_loop read n ri = Inr ()"
proof (induction n arbitrary: ri)
  case (Suc n)
  show ?case by (cases "read ri") (use assms Suc in auto)
qed simp

lemma res_reads:
  assumes "src_ok s" "src_length s + length rest \<le> umax"
  shows "read_res_meta umax (src_bytes s @ rest) i
    = (if unat i < length (s_res s) then Got (s_res s ! unat i) else Nothing)"
proof (cases "unat i < length (s_res s)")
  case False
  obtain m where "decode_modinfo umax (src_bytes s @ rest) = Got m" "unat (m_res_meta_count m) = length (s_res s)"
    using decode_src [OF assms] by blast
  then show ?thesis using False by (simp add: read_res_meta_def word_le_nat_alt)
qed (simp add: read_res_src [OF assms])

text \<open>The check stops at the first shared resource.\<close>

lemma sharing_bad:
  assumes "\<And>i. i \<le> k \<Longrightarrow> \<exists>rm. read (ri + word_of_nat i) = Got rm" "k < n"
    "read (ri + word_of_nat k) = Got rm" "sharing_class rm \<noteq> 0"
  shows "sharing_loop read n ri = lerr ResourceSharingMismatch"
  using assms
proof (induction n arbitrary: ri k)
  case (Suc n)
  obtain r0 where r0: "read ri = Got r0" using Suc.prems(1) [of 0] by auto
  show ?case
  proof (cases k)
    case 0
    then show ?thesis using Suc.prems(3,4) by simp
  next
    case (Suc k')
    have "sharing_loop read n (ri + 1) = lerr ResourceSharingMismatch" if "sharing_class r0 = 0"
    proof (rule Suc.IH [of k'])
      show "\<exists>rm. read (ri + 1 + word_of_nat i) = Got rm" if "i \<le> k'" for i
        using Suc.prems(1) [of "Suc i"] that Suc by (simp add: add.assoc)
    qed (use Suc.prems Suc in \<open>simp_all add: add.assoc\<close>)
    then show ?thesis using r0 by simp
  qed
qed simp

lemma check_sharing_src:
  assumes "packed umax sha s spec c" "c_modinfo c = Some d"
  shows "check_resource_sharing umax d
    = (if \<forall>r \<in> set (s_res s). sharing_class r = 0 then Inr () else lerr ResourceSharingMismatch)"
proof -
  obtain rest m vm where r: "c_modinfo c = Some (src_bytes s @ rest)" "src_ok s" "src_length s + length rest \<le> umax"
    "src_bytes s @ rest \<noteq> []" by (rule packed_reads [OF assms(1)])
  have d: "d = src_bytes s @ rest" using r(1) assms(2) by simp
  have n: "length (s_res s) < 65536" using r(2) by (simp add: src_ok_def)
  note rd = res_reads [OF r(2,3)]
  have l: "check_resource_sharing umax d = sharing_loop (read_res_meta umax d) (2 ^ 16) 0"
    using r(4) by (auto simp: check_resource_sharing_def d)
  show ?thesis
  proof (cases "\<forall>r \<in> set (s_res s). sharing_class r = 0")
    case True
    have "sharing_loop (read_res_meta umax d) (2 ^ 16) 0 = Inr ()"
      by (rule sharing_ok) (use True in \<open>auto simp: d rd split: if_splits\<close>)
    then show ?thesis using True l by simp
  next
    case False
    then obtain k where k: "k < length (s_res s)" "sharing_class (s_res s ! k) \<noteq> 0"
      by (auto simp: in_set_conv_nth)
    have u: "unat (word_of_nat i :: u32) = i" if "i \<le> k" for i
      using that k(1) n by (simp add: unat_word_of_nat_u32)
    have "sharing_loop (read_res_meta umax d) (2 ^ 16) 0 = lerr ResourceSharingMismatch"
      by (rule sharing_bad [of k _ _ _ "s_res s ! k"]) (use k n u in \<open>auto simp: d rd\<close>)
    then show ?thesis using False l by simp
  qed
qed

lemma insert_room:
  "\<not> loaded_contains h ls \<Longrightarrow> hs_len ls < length (hs_hashes ls) \<Longrightarrow> \<exists>ls'. loaded_insert h ls = Inr ls'"
  by (simp add: loaded_insert_def)

lemma packed_module_loads_facts:
  assumes "packed umax sha s spec c" "fits p s spec c" "has_room st s" "serves p"
    and "\<forall>r \<in> set (s_res s). sharing_class r = 0"
  shows "\<exists>lm st'. load_module umax arm (Some sha) c p st = (Inr lm, st')"
proof -
  have room: "\<not> loaded_contains (fnv1a_u64 (s_name s)) (ld_set st)" "hs_len (ld_set st) < length (hs_hashes (ld_set st))"
    using assms(3) by (simp_all add: has_room_def)
  obtain d where d: "c_modinfo c = Some d"
    "pre_checks umax (Some sha) p c (ld_set st) = Inr (fnv1a_u64 (s_name s), d)"
    using pre_checks_src [OF assms(1,2) room(1)] by blast
  let ?h = "fnv1a_u64 (s_name s)"
  obtain lm t q where g: "guarded_load umax arm p c ?h d st
      = sbind (spure (check_resource_sharing umax d)) (\<lambda>_. sbind (insert_step ?h) (\<lambda>_. spure (Inr lm))) t"
    "ld_set t = ld_set st" by (rule guarded_front [OF assms(1-4) d(1)])
  obtain ls where "loaded_insert ?h (ld_set t) = Inr ls" using insert_room [OF room] g(2) by auto
  then have "guarded_load umax arm p c ?h d st = (Inr lm, t\<lparr>ld_set := ls\<rparr>)"
    unfolding g(1) using check_sharing_src [OF assms(1) d(1)] assms(5)
    by (simp add: sbind_def spure_def insert_step_def)
  then show ?thesis using d(2) by (auto simp: load_module_def with_guards_def)
qed

text \<open>C18: the loader accepts what the module-information encoder and the manifest encoder write. A
  container that parses, has at least two bytes of code, no flags and no relocations, and whose module
  section is an encoded module block followed by an encoded obligation record (\<open>packed\<close>), loads at
  trust level zero on a platform whose allocators serve every request (\<open>serves\<close>), when it was compiled
  for the platform, its stack bounds and apertures fit, its policy is strong enough (\<open>fits\<close>), its symbols
  are new, the tables have room (\<open>has_room\<close>) and it shares no resource. The container around the module
  section is the hypothesis; the packer that writes it is not modelled.\<close>

theorem packed_module_loads:
  assumes "packed umax sha s spec c" "fits p s spec c" "has_room st s" "serves p"
    and "\<forall>r \<in> set (s_res s). sharing_class r = 0"
  shows "\<exists>lm st'. load_module umax arm (Some sha) c p st = (Inr lm, st')"
  using assms by (rule packed_module_loads_facts)

text \<open>The resource check comes after the module's init word: a packed module that has an init
  word and a shared resource is refused, but its code has already been run.\<close>

theorem init_runs_before_checks:
  assumes "packed umax sha s spec c" "fits p s spec c" "has_room st s" "serves p"
    and "\<exists>r \<in> set (s_res s). sharing_class r \<noteq> 0" "has_init s"
  shows "\<exists>st' a q. load_module umax arm (Some sha) c p st = (Inl (LErr ResourceSharingMismatch), st')
    \<and> ld_plat st' = pf_run_init p a q"
proof -
  have room: "\<not> loaded_contains (fnv1a_u64 (s_name s)) (ld_set st)" using assms(3) by (simp add: has_room_def)
  obtain d where d: "c_modinfo c = Some d"
    "pre_checks umax (Some sha) p c (ld_set st) = Inr (fnv1a_u64 (s_name s), d)"
    using pre_checks_src [OF assms(1,2) room] by blast
  let ?h = "fnv1a_u64 (s_name s)"
  obtain lm t q where g: "guarded_load umax arm p c ?h d st
      = sbind (spure (check_resource_sharing umax d)) (\<lambda>_. sbind (insert_step ?h) (\<lambda>_. spure (Inr lm))) t"
    "\<exists>a. ld_plat t = (if has_init s then pf_run_init p a q else q)" by (rule guarded_front [OF assms(1-4) d(1)])
  have "guarded_load umax arm p c ?h d st = (lerr ResourceSharingMismatch, t)"
    unfolding g(1) using check_sharing_src [OF assms(1) d(1)] assms(5)
    by (auto simp: sbind_def spure_def lerr_def)
  then show ?thesis using d(2) g(2) assms(6) by (auto simp: load_module_def with_guards_def lerr_def)
qed

section \<open>A concrete container\<close>

definition box_header :: "bytes \<Rightarrow> lmod_header" where
  "box_header mi = compute_layout 42 (word_of_nat (length mi)) 4 0 0 0 0 0"

definition box :: "bytes \<Rightarrow> container" where
  "box mi = \<lparr>c_data = header_bytes (box_header mi) @ mi
       @ replicate (unat (h_total_len (box_header mi)) - 72 - length mi) 0,
     c_hdr = box_header mi\<rparr>"

lemma box_parses:
  assumes "length mi < 2 ^ 20"
  shows "parse_container 4294967295 (c_data (box mi)) = Inr (box mi)" "c_modinfo (box mi) = Some mi"
    "length (c_data (box mi)) \<le> 4294967295"
proof -
  let ?h = "box_header mi"
  have u: "unat (word_of_nat (length mi) :: u32) = length mi"
    using assms by (simp add: unat_word_of_nat_u32)
  have ok: "layout_ok ?h"
    using compute_layout_ok_aux [of 0 "word_of_nat (length mi)" 4 0 0 0 42 0] assms u by (simp add: box_header_def)
  have f: "h_magic ?h = LMOD_MAGIC" "h_format_ver ?h = LMOD_FORMAT_VER" "h_modinfo_off ?h = 72"
    "h_modinfo_len ?h = word_of_nat (length mi)"
    by (simp_all add: box_header_def compute_layout_def header_new_def Let_def HEADER_SIZE_def)
  have t: "72 + length mi \<le> unat (h_total_len ?h)" using ok f u by (simp add: layout_ok_def)
  have l: "length (header_bytes ?h) = 72" by simp
  have d: "length (c_data (box mi)) = unat (h_total_len ?h)" using t l by (simp add: box_def)
  have big: "unat (h_total_len ?h) < 4294967296" using unat_u32_less by metis
  have "decode_header (c_data (box mi)) = Some ?h" using decode_header_bytes [OF f(1)] by (simp add: box_def)
  from parse_laid_out [OF ok this f(2) d] d big
  show "parse_container 4294967295 (c_data (box mi)) = Inr (box mi)" by (simp add: box_def)
  show "length (c_data (box mi)) \<le> 4294967295" using d big by simp
  have "read_at (c_data (box mi)) 72 (length mi) = Some mi"
    using l by (simp add: read_at_def slice_def box_def)
  moreover have "word_of_nat (length mi) = (0 :: u32) \<longleftrightarrow> mi = []"
    using u by (metis length_0_conv unat_eq_zero of_nat_0)
  ultimately show "c_modinfo (box mi) = Some mi"
    using u by (simp add: c_modinfo_def section_slice_def box_def f)
qed

text \<open>A platform that counts the init words it has run.\<close>

definition counting :: "nat platform" where
  "counting = \<lparr>pf_alloc_exec = (\<lambda>n q. (Inr \<lparr>rg_addr = 4096, rg_bytes = replicate n 0\<rparr>, q)),
     pf_alloc_ro = (\<lambda>n q. (Inr \<lparr>rg_addr = 8192, rg_bytes = replicate n 0\<rparr>, q)),
     pf_alloc_rw = (\<lambda>n q. (Inr \<lparr>rg_addr = 12288, rg_bytes = replicate n 0\<rparr>, q)),
     pf_make_exec = (\<lambda>r q. (Inr r, q)), pf_verify_sig = (\<lambda>_ _. False), pf_expected_abi_hash = 42,
     pf_ds_remaining_slots = 16, pf_platform_hash = None, pf_aperture_table = [], pf_trust_level = TZero,
     pf_verify_policy = VP_Off, pf_placement_policy = CopyToRam, pf_run_init = (\<lambda>_ q. Suc q)\<rparr>"

lemma counting_serves: "serves counting" by (simp add: serves_def counting_def)

definition fresh_state :: "nat load_state" where
  "fresh_state = \<lparr>ld_map = sym_map_new 4, ld_set = loaded_set_new 2, ld_reg = registry_new, ld_plat = 0\<rparr>"

definition word_a :: export_entry where
  "word_a = \<lparr>e_sym_hash = 11, e_name = [97], e_effects = 0, e_requires_caps = 0, e_stack_bound = 3\<rparr>"

definition word_init :: export_entry where
  "word_init = \<lparr>e_sym_hash = 12, e_name = MOD_INIT_NAME, e_effects = 0, e_requires_caps = 0, e_stack_bound = 1\<rparr>"

definition demo :: "res_meta list \<Rightarrow> modinfo_src" where
  "demo res = \<lparr>s_name = [77], s_exports = [word_a, word_init], s_imports = [], s_abi = 42, s_flags = 0,
     s_res = res, s_platform = 0, s_aps = []\<rparr>"

definition shared_res :: res_meta where
  "shared_res = \<lparr>res_hash = 9, sharing_class = 1, lock_prim = 0\<rparr>"

lemma demo_ok: "length res \<le> 1 \<Longrightarrow> src_ok (demo res)" "length res \<le> 1 \<Longrightarrow> length (src_bytes (demo res)) \<le> 1000"
proof -
  have l: "src_length (demo res) = 136 + length res * 16"
    by (simp add: src_length_parts entries_start_def inames_start_def enames_start_def name_table_def
        demo_def word_a_def word_init_def MOD_INIT_NAME_def align4_nat_def)
  show "length res \<le> 1 \<Longrightarrow> src_ok (demo res)" unfolding src_ok_def l
    by (simp add: demo_def word_a_def word_init_def MOD_INIT_NAME_def no_nul_def)
  show "length res \<le> 1 \<Longrightarrow> length (src_bytes (demo res)) \<le> 1000" by (simp add: length_src_bytes l)
qed

definition demo_record :: bytes where
  "demo_record = (case encode_verify_manifest toy_sha (spec_with []) of Inr out \<Rightarrow> out | Inl _ \<Rightarrow> [])"

lemma demo_record: "encode_verify_manifest toy_sha (spec_with []) = Inr demo_record" "length demo_record \<le> 200"
proof -
  have "\<exists>out. encode_verify_manifest toy_sha (spec_with []) = Inr out \<and> length out \<le> 200"
    by (simp add: encode_verify_manifest_def spec_with_def push_len_bytes_def
      VM_POLICY_PROVEN_def VM_CERTIFIER_PORT_def VM_MAX_COUNT_def
      VM_MAX_RECORD_def toy_sha_def Let_def)
  then show "encode_verify_manifest toy_sha (spec_with []) = Inr demo_record" "length demo_record \<le> 200"
    by (auto simp: demo_record_def)
qed

abbreviation demo_box :: "res_meta list \<Rightarrow> container" where
  "demo_box res \<equiv> box (src_bytes (demo res) @ demo_record)"

lemma demo_packed: "length res \<le> 1 \<Longrightarrow> packed 4294967295 toy_sha (demo res) (spec_with []) (demo_box res)"
proof -
  assume r: "length res \<le> 1"
  have "length (src_bytes (demo res) @ demo_record) < 2 ^ 20" using demo_ok(2) [OF r] demo_record(2) by simp
  note b = box_parses [OF this]
  have "spec_typed toy_sha (spec_with [])" by (simp add: spec_with_typed)
  then show ?thesis
    using b demo_ok(1) [OF r] demo_record(1)
    by (simp add: packed_def, simp add: box_def box_header_def compute_layout_def header_new_def Let_def)
qed

lemma demo_fits: "fits counting (demo res) (spec_with []) (demo_box res)"
  by (simp add: fits_def counting_def demo_def word_a_def word_init_def spec_with_def satisfies_def
      box_def box_header_def compute_layout_def header_new_def Let_def)

lemma fresh_wf: "sm_wf (ld_map fresh_state)" "reg_wf (ld_reg fresh_state)"
  "hs_len (ld_set fresh_state) \<le> length (hs_hashes (ld_set fresh_state))"
  by (simp_all add: fresh_state_def sm_wf_new reg_wf_new loaded_set_new_def)

lemma demo_room: "has_room fresh_state (demo res)"
  using fresh_wf
  by (simp add: has_room_def fresh_state_def demo_def callable_words_def word_a_def word_init_def MOD_INIT_NAME_def
      named_def loaded_contains_def loaded_set_new_def sym_map_new_def sm_iter_def List.map_filter_def reg_wf_new)

lemma packed_module_loads_witness:
  "\<exists>lm st'. load_module 4294967295 False (Some toy_sha) (demo_box []) counting fresh_state = (Inr lm, st')"
  by (rule packed_module_loads [OF demo_packed demo_fits demo_room counting_serves]) (simp_all add: demo_def)

lemma init_runs_before_checks_witness:
  "\<exists>st'. load_module 4294967295 False (Some toy_sha) (demo_box [shared_res]) counting fresh_state
      = (Inl (LErr ResourceSharingMismatch), st') \<and> 0 < ld_plat st' \<and> ld_plat fresh_state = 0"
proof -
  have "has_init (demo [shared_res])" by (simp add: has_init_def demo_def word_init_def)
  from init_runs_before_checks [OF demo_packed demo_fits demo_room counting_serves _ this, of False]
  show ?thesis by (auto simp: demo_def shared_res_def) (auto simp: counting_def fresh_state_def)
qed

lemma demo_loads:
  obtains lm st' where
    "load_module 4294967295 False (Some toy_sha) (demo_box []) counting fresh_state = (Inr lm, st')"
  using packed_module_loads_facts [OF demo_packed [of "[]"] demo_fits [of "[]"] demo_room counting_serves, of False]
  by (auto simp: demo_def)

lemma load_transactional_witness:
  "\<exists>st'. load_module 4294967295 False (Some toy_sha) (demo_box []) (counting\<lparr>pf_expected_abi_hash := 43\<rparr>) fresh_state
      = (Inl (LErr AbiMismatch), st') \<and> ld_map st' = ld_map fresh_state"
proof -
  have "h_abi_hash (c_hdr (demo_box [])) = 42"
    by (simp add: box_def box_header_def compute_layout_def header_new_def Let_def)
  then have "load_module 4294967295 False (Some toy_sha) (demo_box []) (counting\<lparr>pf_expected_abi_hash := 43\<rparr>) fresh_state
      = (Inl (LErr AbiMismatch), fresh_state)"
    by (simp add: load_module_def pre_checks_def l_guard_def Let_def)
  from load_transactional [OF fresh_wf(1,2) this] this show ?thesis by blast
qed

lemma load_admits_only_checked_witness:
  "\<exists>lm st' mi. load_module 4294967295 False (Some toy_sha) (demo_box []) counting fresh_state = (Inr lm, st')
     \<and> decode_modinfo 4294967295 (src_bytes (demo []) @ demo_record) = Got mi \<and> \<not> has_isr mi"
proof -
  obtain lm st' where l: "load_module 4294967295 False (Some toy_sha) (demo_box []) counting fresh_state = (Inr lm, st')"
    by (rule demo_loads)
  have "c_modinfo (demo_box []) = Some (src_bytes (demo []) @ demo_record)"
    using demo_packed [of "[]"] demo_record(1) by (auto simp: packed_def)
  with load_admits_only_checked [OF l fresh_wf(1,2)] l show ?thesis by auto
qed

lemma load_registers_exports_witness:
  "\<exists>lm st' d mi. load_module 4294967295 False (Some toy_sha) (demo_box []) counting fresh_state = (Inr lm, st')
     \<and> c_modinfo (demo_box []) = Some d \<and> decode_modinfo 4294967295 d = Got mi
     \<and> (\<forall>i < unat (m_export_count mi). \<exists>e. read_export 4294967295 d (word_of_nat i) = Got e
        \<and> (x_name e \<noteq> MOD_INIT_NAME \<longrightarrow> lookup_by_hash (x_sym_hash e) (ld_map st')
            = Some \<lparr>se_hash = x_sym_hash e, se_name = x_name e, se_addr = unat (rg_addr (lm_code lm))\<rparr>))"
proof -
  obtain lm st' where l: "load_module 4294967295 False (Some toy_sha) (demo_box []) counting fresh_state = (Inr lm, st')"
    by (rule demo_loads)
  have "rg_addr r' = rg_addr r" if "pf_make_exec counting r q = (Inr r', q')" for r q r' q'
    using that by (simp add: counting_def)
  then obtain d mi where "c_modinfo (demo_box []) = Some d" "decode_modinfo 4294967295 d = Got mi"
    "\<forall>i < unat (m_export_count mi). \<exists>e. read_export 4294967295 d (word_of_nat i) = Got e
      \<and> (x_name e \<noteq> MOD_INIT_NAME \<longrightarrow> lookup_by_hash (x_sym_hash e) (ld_map st')
        = Some \<lparr>se_hash = x_sym_hash e, se_name = x_name e,
            se_addr = module_fn_addr False (unat (rg_addr (lm_code lm)))\<rparr>)"
    using load_registers_exports [OF l fresh_wf(1,2)] by blast
  then show ?thesis using l unfolding module_fn_addr_def if_False
    by (intro exI [of _ lm] exI [of _ st'] exI [of _ d] exI [of _ mi] conjI)
qed

lemma load_once_witness:
  "\<exists>st'. load_module 4294967295 False (Some toy_sha) (demo_box []) counting st'
     = (Inl (LErr ModuleAlreadyLoaded), st')"
proof -
  obtain lm st' where l: "load_module 4294967295 False (Some toy_sha) (demo_box []) counting fresh_state = (Inr lm, st')"
    by (rule demo_loads)
  from load_once [OF l fresh_wf steps_refl] show ?thesis by blast
qed

lemma load_state_well_formed_witness:
  "\<exists>lm st'. load_module 4294967295 False (Some toy_sha) (demo_box []) counting fresh_state = (Inr lm, st')
     \<and> sm_wf (ld_map st') \<and> reg_wf (ld_reg st')"
proof -
  obtain lm st' where l: "load_module 4294967295 False (Some toy_sha) (demo_box []) counting fresh_state = (Inr lm, st')"
    by (rule demo_loads)
  from load_state_well_formed [OF steps_load [OF steps_refl l] fresh_wf] l show ?thesis by blast
qed

end
