(* ===== verification/OblProps.thy ===== *)
theory OblProps
  imports OblModel
begin

text \<open>
  The obligation model: the canonical id determines word, kind and occurrence, and the
  cycles attached to a word are the strongly connected components of its block graph
  that contain an edge.
\<close>

section \<open>Identity\<close>

lemma kind_str_inj: "kind_str k = kind_str k' \<Longrightarrow> k = k'"
  by (metis kind_round_trip option.inject)

lemma write_u32_inj: "write_u32 a = write_u32 b \<Longrightarrow> a = b"
  by (metis parse_write_u32 option.inject)

lemma write_u32_digits: "list_all is_digit (write_u32 v)"
  using digit_loop_digits by (simp add: write_u32_def list_all_rev) (simp add: is_digit_def)

lemma write_u32_colon: "CHR '':'' \<notin> set (write_u32 v)"
  using write_u32_digits [of v] by (auto simp: list_all_iff is_digit_def)

lemma kind_str_colon: "CHR '':'' \<notin> set (kind_str k)"
  by (cases k) simp_all

lemma split_last:
  assumes "c \<notin> set b" "c \<notin> set b'" "a @ c # b = a' @ c # b'"
  shows "a = a' \<and> b = b'"
proof -
  have t: "takeWhile (\<lambda>x. x \<noteq> c) (rev (u @ c # v)) = rev v" if "c \<notin> set v" for u v
    using that by (simp add: takeWhile_tail takeWhile_eq_all_conv) auto
  have "rev b = rev b'" using t [OF assms(1), of a] t [OF assms(2), of a'] assms(3) by metis
  then show ?thesis using assms(3) by simp
qed

lemma canonical_id_facts:
  assumes "canonical_id m w k n = canonical_id m w' k' n'" "is_utf8 w" "is_utf8 w'"
  shows "w = w' \<and> k = k' \<and> n = n'"
proof -
  let ?p = "\<lambda>w k. (m @ ''::'' @ w @ ''::'' @ kind_str k @ '':'')"
  have "?p w k @ CHR '':'' # write_u32 n = ?p w' k' @ CHR '':'' # write_u32 n'"
    using assms by (simp add: canonical_id_def push_u32_decimal_def)
  from split_last [OF write_u32_colon write_u32_colon this]
  have 1: "n = n'" "(m @ ''::'' @ w @ '':'') @ CHR '':'' # kind_str k = (m @ ''::'' @ w' @ '':'') @ CHR '':'' # kind_str k'"
    by (auto dest: write_u32_inj)
  from split_last [OF kind_str_colon kind_str_colon 1(2)] 1(1) show ?thesis
    by (auto dest: kind_str_inj)
qed

section \<open>The transitive closure\<close>

definition square :: "nat \<Rightarrow> bmat \<Rightarrow> bool" where
  "square n m \<longleftrightarrow> length m = n \<and> (\<forall>i < n. length (m ! i) = n)"

lemma square_simps:
  assumes "square n m"
  shows "length m = n" "i < n \<Longrightarrow> length (m ! i) = n"
  using assms by (auto simp: square_def)

lemma or_row_square: "square n m \<Longrightarrow> k < n \<Longrightarrow> i < n \<Longrightarrow> square n (or_row k i m)"
  by (auto simp: square_def or_row_def nth_list_update)

lemma or_row_cell:
  assumes "square n m" "k < n" "i < n" "a < n" "b < n"
  shows "or_row k i m ! a ! b \<longleftrightarrow> m ! a ! b \<or> (a = i \<and> m ! i ! k \<and> m ! k ! b)"
  using assms square_simps [OF assms(1)] by (auto simp: or_row_def nth_list_update)

lemma or_rows:
  assumes "square n m" "k < n" "p \<le> n"
  shows "square n (fold (or_row k) [0..<p] m) \<and> (\<forall>a < n. \<forall>b < n.
    fold (or_row k) [0..<p] m ! a ! b \<longleftrightarrow> m ! a ! b \<or> (a < p \<and> m ! a ! k \<and> m ! k ! b))"
  using assms(3)
proof (induction p)
  case (Suc p)
  let ?m = "fold (or_row k) [0..<p] m"
  have IH: "square n ?m" "\<And>a b. a < n \<Longrightarrow> b < n \<Longrightarrow> ?m ! a ! b \<longleftrightarrow> m ! a ! b \<or> (a < p \<and> m ! a ! k \<and> m ! k ! b)"
    using Suc by auto
  have p: "p < n" using Suc.prems by simp
  have "or_row k p ?m ! a ! b \<longleftrightarrow> m ! a ! b \<or> (a < Suc p \<and> m ! a ! k \<and> m ! k ! b)" if "a < n" "b < n" for a b
    using that p assms(2) by (simp add: or_row_cell [OF IH(1)] IH(2)) (auto simp: less_Suc_eq)
  then show ?case using or_row_square [OF IH(1) assms(2) p] by simp
qed (simp add: assms)

lemma warshall_inv:
  fixes E :: "(nat \<times> nat) set"
  assumes "square n m" "p \<le> n"
    and sound: "\<And>a b. a < n \<Longrightarrow> b < n \<Longrightarrow> m ! a ! b \<Longrightarrow> (a, b) \<in> E\<^sup>*"
  defines "mp \<equiv> fold (\<lambda>k m. fold (or_row k) [0..<n] m) [0..<p] m"
  shows "square n mp \<and> (\<forall>a < n. \<forall>b < n. m ! a ! b \<longrightarrow> mp ! a ! b)
    \<and> (\<forall>a < n. \<forall>b < n. mp ! a ! b \<longrightarrow> (a, b) \<in> E\<^sup>*)
    \<and> (\<forall>k < p. \<forall>a < n. \<forall>b < n. mp ! a ! k \<longrightarrow> mp ! k ! b \<longrightarrow> mp ! a ! b)"
  unfolding mp_def using assms(2)
proof (induction p)
  case (Suc p)
  define q where "q = fold (\<lambda>k m. fold (or_row k) [0..<n] m) [0..<p] m"
  have IH: "square n q" "\<And>a b. a < n \<Longrightarrow> b < n \<Longrightarrow> m ! a ! b \<Longrightarrow> q ! a ! b"
    "\<And>a b. a < n \<Longrightarrow> b < n \<Longrightarrow> q ! a ! b \<Longrightarrow> (a, b) \<in> E\<^sup>*"
    "\<And>k a b. k < p \<Longrightarrow> a < n \<Longrightarrow> b < n \<Longrightarrow> q ! a ! k \<Longrightarrow> q ! k ! b \<Longrightarrow> q ! a ! b"
    using Suc unfolding q_def by auto
  have p: "p < n" using Suc.prems by simp
  define r where "r = fold (or_row p) [0..<n] q"
  have r: "square n r" "\<And>a b. a < n \<Longrightarrow> b < n \<Longrightarrow> r ! a ! b \<longleftrightarrow> q ! a ! b \<or> (q ! a ! p \<and> q ! p ! b)"
    using or_rows [OF IH(1) p order.refl] unfolding r_def by auto
  have "(a, b) \<in> E\<^sup>*" if "a < n" "b < n" "r ! a ! b" for a b
    using r(2) [OF that(1,2)] IH(3) [OF that(1,2)] IH(3) [OF that(1) p] IH(3) [OF p that(2)] that(3) rtrancl_trans by fast
  moreover have "r ! a ! b" if "k < Suc p" "a < n" "b < n" "r ! a ! k" "r ! k ! b" for k a b
  proof (cases "k = p")
    case True
    then show ?thesis using that p r(2) [of a p] r(2) [of p b] r(2) [of a b] by auto
  next
    case False
    then have k: "k < p" "k < n" using that p by auto
    note t = IH(4) [OF k(1)]
    show ?thesis
      using that p k(2) r(2) [of a k] r(2) [of k b] r(2) [of a b] t [of a b] t [of a p] t [of p b] by auto
  qed
  moreover have "fold (\<lambda>k m. fold (or_row k) [0..<n] m) [0..<Suc p] m = r" by (simp add: r_def q_def)
  moreover have "r ! a ! b" if "a < n" "b < n" "m ! a ! b" for a b using IH(2) r(2) that by simp
  ultimately show ?case using r(1) by simp
qed (simp add: assms)

lemma set_cells:
  "square n m \<Longrightarrow> \<forall>(a, b) \<in> set es. a < n \<and> b < n \<Longrightarrow>
    square n (fold set_cell es m) \<and> (\<forall>a < n. \<forall>b < n. fold set_cell es m ! a ! b \<longleftrightarrow> m ! a ! b \<or> (a, b) \<in> set es)"
proof (induction es arbitrary: m)
  case (Cons e es)
  obtain i j where e: "e = (i, j)" "i < n" "j < n" using Cons.prems(2) by (cases e) auto
  have s: "square n (set_cell e m)"
    using Cons.prems(1) e by (auto simp: square_def set_cell_def nth_list_update)
  have "set_cell e m ! a ! b \<longleftrightarrow> m ! a ! b \<or> (a, b) = e" if "a < n" "b < n" for a b
    using that e square_simps [OF Cons.prems(1)] by (auto simp: set_cell_def nth_list_update)
  then show ?case using Cons.IH [OF s] Cons.prems(2) by auto
qed simp

theorem reach_matrix_correct:
  assumes "\<forall>(a, b) \<in> set edges. a < n \<and> b < n" "i < n" "j < n"
  shows "reach_matrix n edges ! i ! j \<longleftrightarrow> (i, j) \<in> (set edges)\<^sup>*"
proof -
  define m0 where "m0 = fold (\<lambda>i. set_cell (i, i)) [0..<n] (replicate n (replicate n False))"
  have m0_fold: "m0 = fold set_cell (map (\<lambda>i. (i, i)) [0..<n]) (replicate n (replicate n False))"
    by (simp add: m0_def fold_map comp_def)
  have z: "square n (replicate n (replicate n False))" by (auto simp: square_def)
  have m0: "square n m0" "\<And>a b. a < n \<Longrightarrow> b < n \<Longrightarrow> m0 ! a ! b \<longleftrightarrow> a = b"
    using set_cells [OF z, of "map (\<lambda>i. (i, i)) [0..<n]"] unfolding m0_fold by auto
  define m where "m = fold set_cell edges m0"
  have m: "square n m" "\<And>a b. a < n \<Longrightarrow> b < n \<Longrightarrow> m ! a ! b \<longleftrightarrow> a = b \<or> (a, b) \<in> set edges"
    using set_cells [OF m0(1) assms(1)] m0(2) unfolding m_def by auto
  have sound: "m ! a ! b \<Longrightarrow> (a, b) \<in> (set edges)\<^sup>*" if "a < n" "b < n" for a b
    using m(2) [OF that] by auto
  define r where "r = warshall n m"
  note inv = warshall_inv [OF m(1) order.refl sound, folded warshall_def, folded r_def]
  have r: "\<And>a b. a < n \<Longrightarrow> b < n \<Longrightarrow> m ! a ! b \<Longrightarrow> r ! a ! b"
    "\<And>a b. a < n \<Longrightarrow> b < n \<Longrightarrow> r ! a ! b \<Longrightarrow> (a, b) \<in> (set edges)\<^sup>*"
    "\<And>k a b. k < n \<Longrightarrow> a < n \<Longrightarrow> b < n \<Longrightarrow> r ! a ! k \<Longrightarrow> r ! k ! b \<Longrightarrow> r ! a ! b"
    by (rule conjunct1 [OF conjunct2 [OF inv], rule_format]
        conjunct1 [OF conjunct2 [OF conjunct2 [OF inv]], rule_format]
        conjunct2 [OF conjunct2 [OF conjunct2 [OF inv]], rule_format]; assumption)+
  have "r ! i ! j" if "(i, j) \<in> (set edges)\<^sup>*"
    using that assms(3)
  proof (induction rule: rtrancl_induct)
    case base
    then show ?case using r(1) m(2) by simp
  next
    case (step b c)
    then have "b < n" "c < n" using assms(1) by auto
    then show ?case using step r(1) [of b c] r(3) [of b i c] m(2) [of b c] assms(2) by simp
  qed
  moreover have e: "reach_matrix n edges = r" by (simp add: reach_matrix_def r_def m_def m0_def)
  ultimately show ?thesis unfolding e using r(2) [OF assms(2,3)] by (intro iffI)
qed

section \<open>Classes are the strongly connected components\<close>

definition scc_of :: "nat \<Rightarrow> (nat \<times> nat) set \<Rightarrow> nat \<Rightarrow> nat list" where
  "scc_of n E i = filter (\<lambda>j. (i, j) \<in> E\<^sup>* \<and> (j, i) \<in> E\<^sup>*) [0..<n]"

lemma scc_of_set: "i < n \<Longrightarrow> set (scc_of n E i) = {j. j < n \<and> (i, j) \<in> E\<^sup>* \<and> (j, i) \<in> E\<^sup>*}" "i < n \<Longrightarrow> i \<in> set (scc_of n E i)"
  by (auto simp: scc_of_def)

lemma scc_of_cong: "i < n \<Longrightarrow> j \<in> set (scc_of n E i) \<Longrightarrow> scc_of n E j = scc_of n E i"
  unfolding scc_of_def by (intro filter_cong) (auto intro: rtrancl_trans)

text \<open>Two members or a self-edge: an edge path leads back to the node.\<close>

lemma nontrivial_iff:
  assumes "\<forall>(a, b) \<in> E. a < n \<and> b < n" "i < n"
  shows "1 < length (scc_of n E i) \<or> (\<exists>a \<in> set (scc_of n E i). (a, a) \<in> E) \<longleftrightarrow> (i, i) \<in> E\<^sup>+"
proof
  have mem: "i \<in> set (scc_of n E i)" by (rule scc_of_set(2) [OF assms(2)])
  assume "1 < length (scc_of n E i) \<or> (\<exists>a \<in> set (scc_of n E i). (a, a) \<in> E)"
  then show "(i, i) \<in> E\<^sup>+"
  proof
    assume l: "1 < length (scc_of n E i)"
    have "distinct (scc_of n E i)" by (simp add: scc_of_def)
    then have "1 < card (set (scc_of n E i))" using l by (simp add: distinct_card)
    then have "set (scc_of n E i) \<noteq> {i}" by auto
    then obtain j where "j \<in> set (scc_of n E i)" "j \<noteq> i" using mem by blast
    then show ?thesis by (auto simp: scc_of_def dest: rtranclD intro: trancl_rtrancl_trancl)
  next
    assume "\<exists>a \<in> set (scc_of n E i). (a, a) \<in> E"
    then obtain a where a: "(i, a) \<in> E\<^sup>*" "(a, i) \<in> E\<^sup>*" "(a, a) \<in> E" by (auto simp: scc_of_def)
    from rtrancl_into_trancl1 [OF a(1,3)] a(2) show ?thesis by (rule trancl_rtrancl_trancl)
  qed
next
  assume c: "(i, i) \<in> E\<^sup>+"
  then obtain j where j: "(i, j) \<in> E" "(j, i) \<in> E\<^sup>*" by (auto dest: tranclD)
  show "1 < length (scc_of n E i) \<or> (\<exists>a \<in> set (scc_of n E i). (a, a) \<in> E)"
  proof (cases "j = i")
    case True
    then show ?thesis using j scc_of_set(2) [OF assms(2)] by auto
  next
    case False
    have "j < n" using j(1) assms(1) by auto
    then have s: "{i, j} \<subseteq> set (scc_of n E i)" using j assms(2) by (auto simp: scc_of_def)
    have "2 \<le> card (set (scc_of n E i))" using card_mono [OF _ s] False by simp
    then show ?thesis using card_length [of "scc_of n E i"] by simp
  qed
qed

lemma class_of_node_scc:
  assumes "\<forall>(a, b) \<in> set es. a < n \<and> b < n" "i < n"
  shows "class_of_node n (reach_matrix n es) i = scc_of n (set es) i"
  unfolding class_of_node_def scc_of_def
  using assms by (intro filter_cong) (auto simp: reach_matrix_correct)

text \<open>The scan: what is used so far is the union of the components seen, and the kept
  classes are the nontrivial ones, each once.\<close>

lemma class_scan:
  assumes es: "\<forall>(a, b) \<in> set es. a < n \<and> b < n" and "p \<le> n"
  defines "st \<equiv> fold (class_step n es (reach_matrix n es)) [0..<p] ({}, [])"
  shows "fst st = (\<Union>i \<in> {..<p}. set (scc_of n (set es) i))"
    "set (snd st) = {scc_of n (set es) i |i. i < p \<and> (i, i) \<in> (set es)\<^sup>+}"
    "distinct (snd st)"
  unfolding atomize_conj unfolding st_def using assms(2)
proof (induction p)
  case (Suc p)
  let ?S = "scc_of n (set es)"
  define st where "st = fold (class_step n es (reach_matrix n es)) [0..<p] ({}, [])"
  obtain used cs where st: "st = (used, cs)" by (cases st)
  have IH: "used = (\<Union>i \<in> {..<p}. set (?S i))" "set cs = {?S i |i. i < p \<and> (i, i) \<in> (set es)\<^sup>+}" "distinct cs"
    using Suc st unfolding st_def by auto
  have p: "p < n" using Suc.prems by simp
  have e: "fold (class_step n es (reach_matrix n es)) [0..<Suc p] ({}, []) = class_step n es (reach_matrix n es) p (used, cs)"
    using st by (simp add: st_def)
  have u: "(\<Union>i \<in> {..<Suc p}. set (?S i)) = used \<union> set (?S p)" by (auto simp: IH(1) lessThan_Suc)
  have n: "{?S i |i. i < Suc p \<and> (i, i) \<in> (set es)\<^sup>+} = set cs \<union> (if (p, p) \<in> (set es)\<^sup>+ then {?S p} else {})"
    by (auto simp: IH(2) less_Suc_eq)
  show ?case
  proof (cases "p \<in> used")
    case True
    then obtain i where i: "i < p" "p \<in> set (?S i)" by (auto simp: IH(1))
    have eq: "?S p = ?S i" using i p by (intro scc_of_cong) simp_all
    have "set (?S p) \<subseteq> used" using i(1) by (auto simp: IH(1) eq)
    moreover have "?S p \<in> set cs" if c: "(p, p) \<in> (set es)\<^sup>+"
    proof -
      have "(i, p) \<in> (set es)\<^sup>*" "(p, i) \<in> (set es)\<^sup>*" using i(2) by (auto simp: scc_of_def)
      then have "(i, i) \<in> (set es)\<^sup>+" using c by (meson rtrancl_trancl_trancl trancl_rtrancl_trancl)
      then show ?thesis using i(1) eq by (auto simp: IH(2))
    qed
    ultimately show ?thesis using True IH(3) unfolding e u n by (auto simp: class_step_def)
  next
    case False
    have cl: "sort (class_of_node n (reach_matrix n es) p) = ?S p"
      unfolding class_of_node_scc [OF es p] by (simp add: scc_of_def sorted_sort_id sorted_wrt_filter)
    have self: "list_ex (\<lambda>(a, b). a = b \<and> a \<in> set (?S p)) es \<longleftrightarrow> (\<exists>a \<in> set (?S p). (a, a) \<in> set es)"
      by (auto simp: list_ex_iff)
    have "?S p \<notin> set cs"
      using False scc_of_set(2) [OF p, of "set es"] by (auto simp: IH(1,2))
    then show ?thesis
      unfolding e u n using False IH(3)
      by (simp add: class_step_def Let_def cl self nontrivial_iff [OF es p, unfolded One_nat_def])
  qed
qed simp

lemma cycle_classes_facts:
  assumes "\<forall>(a, b) \<in> set es. a < n \<and> b < n"
  shows "set (cycle_classes n es) = {scc_of n (set es) i |i. i < n \<and> (i, i) \<in> (set es)\<^sup>+}"
    "distinct (cycle_classes n es)"
  using class_scan(2,3) [OF assms order.refl] by (simp_all add: cycle_classes_def)

section \<open>The cycles of a word\<close>

lemma block_ids_fold:
  "distinct ids \<Longrightarrow> distinct (fold (\<lambda>b ids. if bid b \<in> set ids then ids else ids @ [bid b]) bs ids)
    \<and> set (fold (\<lambda>b ids. if bid b \<in> set ids then ids else ids @ [bid b]) bs ids) = set ids \<union> bid ` set bs"
  by (induction bs arbitrary: ids) auto

lemma block_ids_facts: "distinct (block_ids bs)" "set (block_ids bs) = bid ` set bs"
  using block_ids_fold [of "[]" bs] by (simp_all add: block_ids_def)

lemma index_of_Some: "distinct ids \<Longrightarrow> index_of ids x = Some i \<longleftrightarrow> i < length ids \<and> ids ! i = x"
proof (induction ids arbitrary: i)
  case (Cons y ids)
  then show ?case by (cases i) (auto simp: in_set_conv_nth)
qed simp

text \<open>The edges of the block graph, on block ids.\<close>

definition jumps_to :: "op \<Rightarrow> block_id set" where
  "jumps_to x = (case kind x of Br t \<Rightarrow> {t} | BrIf t e \<Rightarrow> {t, e} | _ \<Rightarrow> {})"

definition word_cfg :: "word_ir \<Rightarrow> (block_id \<times> block_id) set" where
  "word_cfg w = {(bid b, t) |b x t. b \<in> set (blocks w) \<and> x \<in> set (ops b) \<and> t \<in> jumps_to x \<and> t \<in> bid ` set (blocks w)}"

definition cfg_index :: "word_ir \<Rightarrow> (nat \<times> nat) list" where
  "cfg_index w = concat (map (block_edges (block_ids (blocks w))) (blocks w))"

lemma edge_to_set: "distinct ids \<Longrightarrow> (a, b) \<in> set (edge_to ids i t) \<longleftrightarrow> a = i \<and> b < length ids \<and> ids ! b = t"
  by (simp flip: index_of_Some) (cases "index_of ids t"; auto simp: edge_to_def)

lemma op_edges_set:
  assumes "distinct ids"
  shows "(a, b) \<in> set (op_edges ids i x) \<longleftrightarrow> a = i \<and> b < length ids \<and> ids ! b \<in> jumps_to x"
  using edge_to_set [OF assms] unfolding op_edges_def jumps_to_def by (cases "kind x") auto

lemma cfg_index_set:
  "(a, b) \<in> set (cfg_index w) \<longleftrightarrow> a < length (block_ids (blocks w)) \<and> b < length (block_ids (blocks w))
     \<and> (block_ids (blocks w) ! a, block_ids (blocks w) ! b) \<in> word_cfg w"
proof -
  let ?ids = "block_ids (blocks w)"
  have d: "distinct ?ids" by (rule block_ids_facts)
  have m: "?ids ! i \<in> bid ` set (blocks w)" if "i < length ?ids" for i
    using that block_ids_facts(2) nth_mem by metis
  have one: "(a, b) \<in> set (block_edges ?ids bl) \<longleftrightarrow> a < length ?ids \<and> ?ids ! a = bid bl
      \<and> b < length ?ids \<and> (\<exists>x \<in> set (ops bl). ?ids ! b \<in> jumps_to x)" for bl
  proof -
    have "(a, b) \<in> set (block_edges ?ids bl) \<longleftrightarrow> index_of ?ids (bid bl) = Some a
        \<and> b < length ?ids \<and> (\<exists>x \<in> set (ops bl). ?ids ! b \<in> jumps_to x)"
      by (cases "index_of ?ids (bid bl)") (auto simp: block_edges_def op_edges_set [OF d])
    then show ?thesis by (simp add: index_of_Some [OF d] conj_assoc)
  qed
  have "(a, b) \<in> set (cfg_index w) \<longleftrightarrow> (\<exists>bl \<in> set (blocks w). a < length ?ids \<and> ?ids ! a = bid bl
      \<and> b < length ?ids \<and> (\<exists>x \<in> set (ops bl). ?ids ! b \<in> jumps_to x))"
    by (simp add: cfg_index_def one)
  also have "\<dots> \<longleftrightarrow> a < length ?ids \<and> b < length ?ids \<and> (?ids ! a, ?ids ! b) \<in> word_cfg w"
    using m [of b] unfolding word_cfg_def by blast
  finally show ?thesis .
qed

lemma cfg_index_range: "\<forall>(a, b) \<in> set (cfg_index w). a < length (block_ids (blocks w)) \<and> b < length (block_ids (blocks w))"
  using cfg_index_set [of _ _ w] by auto

text \<open>Paths in the two graphs agree.\<close>

lemma index_trancl:
  assumes "a < length (block_ids (blocks w))" "b < length (block_ids (blocks w))"
  shows "(a, b) \<in> (set (cfg_index w))\<^sup>+ \<longleftrightarrow> (block_ids (blocks w) ! a, block_ids (blocks w) ! b) \<in> (word_cfg w)\<^sup>+"
proof
  let ?ids = "block_ids (blocks w)"
  show "(a, b) \<in> (set (cfg_index w))\<^sup>+ \<Longrightarrow> (?ids ! a, ?ids ! b) \<in> (word_cfg w)\<^sup>+"
    by (induction rule: trancl_induct) (auto simp: cfg_index_set intro: trancl_into_trancl)
  have "(x, y) \<in> (word_cfg w)\<^sup>+ \<Longrightarrow> x = ?ids ! a \<Longrightarrow> \<exists>b < length ?ids. y = ?ids ! b \<and> (a, b) \<in> (set (cfg_index w))\<^sup>+" for x y
  proof (induction rule: trancl_induct)
    case (base y)
    have "y \<in> set ?ids" using base(1) by (auto simp: word_cfg_def block_ids_facts)
    then obtain b where "b < length ?ids" "y = ?ids ! b" by (metis in_set_conv_nth)
    moreover from this have "(a, b) \<in> set (cfg_index w)" using base assms(1) by (simp add: cfg_index_set)
    ultimately show ?case by blast
  next
    case (step y z)
    then obtain b where b: "b < length ?ids" "y = ?ids ! b" "(a, b) \<in> (set (cfg_index w))\<^sup>+" by auto
    have "z \<in> set ?ids" using step(2) by (auto simp: word_cfg_def block_ids_facts)
    then obtain c where c: "c < length ?ids" "z = ?ids ! c" by (metis in_set_conv_nth)
    then have "(b, c) \<in> set (cfg_index w)" using b step(2) by (simp add: cfg_index_set)
    then show ?case using b(3) c by (auto intro: trancl_into_trancl)
  qed
  then show "(?ids ! a, ?ids ! b) \<in> (word_cfg w)\<^sup>+ \<Longrightarrow> (a, b) \<in> (set (cfg_index w))\<^sup>+"
    using assms(2) block_ids_facts(1) by (metis nth_eq_iff_index_eq)
qed

lemma block_name_inj: "block_name a = block_name b \<Longrightarrow> a = b"
proof -
  assume "block_name a = block_name b"
  then have "(ucast a :: u32) = ucast b" by (auto simp: block_name_def push_u32_decimal_def dest!: write_u32_inj)
  then show ?thesis by (subst (asm) ucast_up_eq_iff) simp_all
qed

lemma map_enumerate: "map (\<lambda>(i, c). f c) (enumerate n xs) = map f xs"
  by (induction xs arbitrary: n) simp_all

lemma cycles_blocks: "map cy_blocks (compute_cycles w) = map (map (\<lambda>i. block_name (block_ids (blocks w) ! i)))
    (cycle_classes (length (block_ids (blocks w))) (cfg_index w))"
proof -
  have "cy_blocks (case ic of (idx, c) \<Rightarrow> \<lparr>cy_index = word_of_nat (idx + 1), cy_blocks = f c\<rparr>) = (case ic of (i, c) \<Rightarrow> f c)"
    for ic :: "nat \<times> nat list" and f by (cases ic) simp
  then show ?thesis by (simp add: compute_cycles_def cfg_index_def Let_def comp_def map_enumerate)
qed

lemma cfg_trancl_ids: "(a, b) \<in> (word_cfg w)\<^sup>+ \<Longrightarrow> a \<in> bid ` set (blocks w) \<and> b \<in> bid ` set (blocks w)"
  by (induction rule: trancl_induct) (auto simp: word_cfg_def)

text \<open>The components with an edge, as sets of block ids.\<close>

definition sccs :: "('a \<times> 'a) set \<Rightarrow> 'a set set" where
  "sccs E = (\<lambda>a. {b. (a, b) \<in> E\<^sup>+ \<and> (b, a) \<in> E\<^sup>+}) ` {a. (a, a) \<in> E\<^sup>+}"

text \<open>The block ids of an index class.\<close>

definition class_ids :: "word_ir \<Rightarrow> nat list \<Rightarrow> block_id set" where
  "class_ids w c = (!) (block_ids (blocks w)) ` set c"

lemma scc_index:
  assumes "i < length (block_ids (blocks w))" "(i, i) \<in> (set (cfg_index w))\<^sup>+"
  defines "a \<equiv> block_ids (blocks w) ! i"
  shows "class_ids w (scc_of (length (block_ids (blocks w))) (set (cfg_index w)) i)
    = {b. (a, b) \<in> (word_cfg w)\<^sup>+ \<and> (b, a) \<in> (word_cfg w)\<^sup>+}"
proof -
  let ?ids = "block_ids (blocks w)" and ?E = "set (cfg_index w)"
  have st: "(i, j) \<in> ?E\<^sup>* \<and> (j, i) \<in> ?E\<^sup>* \<longleftrightarrow> (a, ?ids ! j) \<in> (word_cfg w)\<^sup>+ \<and> (?ids ! j, a) \<in> (word_cfg w)\<^sup>+"
    if "j < length ?ids" for j
  proof -
    have "(i, j) \<in> ?E\<^sup>* \<and> (j, i) \<in> ?E\<^sup>* \<longleftrightarrow> (i, j) \<in> ?E\<^sup>+ \<and> (j, i) \<in> ?E\<^sup>+"
      using rtrancl_trancl_trancl [of j i ?E i] trancl_rtrancl_trancl [OF assms(2), of j] assms(2)
      by (auto dest: trancl_into_rtrancl)
    then show ?thesis using index_trancl [OF assms(1) that] index_trancl [OF that assms(1)] by (simp add: a_def)
  qed
  have "\<exists>j < length ?ids. b = ?ids ! j" if "(a, b) \<in> (word_cfg w)\<^sup>+" for b
    using cfg_trancl_ids [OF that] block_ids_facts(2) [of "blocks w"] by (metis in_set_conv_nth)
  with st show ?thesis unfolding class_ids_def scc_of_def set_filter atLeast0LessThan [symmetric] set_upt
    by (intro equalityI subsetI) (auto, blast)
qed

lemma scc_of_filter: "c = scc_of n E i \<Longrightarrow> c = filter (\<lambda>j. j \<in> set c) [0..<n]"
  unfolding scc_of_def by (metis (no_types, lifting) filter_cong mem_Collect_eq set_filter)

lemma filter_nth: "map ((!) xs) (filter (\<lambda>i. P (xs ! i)) [0..<length xs]) = filter P xs"
  using filter_map [of P "(!) xs" "[0..<length xs]"] by (simp add: map_nth comp_def)

text \<open>A class lists the ids of its component in their order.\<close>

lemma class_lists:
  assumes "c = scc_of (length (block_ids (blocks w))) E i"
  shows "map ((!) (block_ids (blocks w))) c = filter (\<lambda>x. x \<in> class_ids w c) (block_ids (blocks w))"
proof -
  let ?ids = "block_ids (blocks w)"
  have r: "\<forall>j \<in> set c. j < length ?ids" using assms by (auto simp: scc_of_def)
  have "j \<in> set c \<longleftrightarrow> ?ids ! j \<in> class_ids w c" if "j < length ?ids" for j
    using r that nth_eq_iff_index_eq [OF block_ids_facts(1) [of "blocks w"]] by (auto simp: class_ids_def)
  then have "filter (\<lambda>j. j \<in> set c) [0..<length ?ids] = filter (\<lambda>j. ?ids ! j \<in> class_ids w c) [0..<length ?ids]"
    by (intro filter_cong) auto
  then show ?thesis
    using scc_of_filter [OF assms] filter_nth [of ?ids "\<lambda>x. x \<in> class_ids w c"] by metis
qed

lemma class_ids_inj:
  assumes "c = scc_of (length (block_ids (blocks w))) E i" "d = scc_of (length (block_ids (blocks w))) F j"
    and "class_ids w c = class_ids w d"
  shows "c = d"
proof -
  have "map ((!) (block_ids (blocks w))) c = map ((!) (block_ids (blocks w))) d"
    unfolding class_lists [OF assms(1)] class_lists [OF assms(2)] assms(3) ..
  moreover have "set c \<union> set d \<subseteq> {..<length (block_ids (blocks w))}" using assms(1,2) by (auto simp: scc_of_def)
  ultimately show ?thesis
    using block_ids_facts(1) [of "blocks w"]
    by (metis (no_types, lifting) inj_on_subset inj_on_nth lessThan_iff map_inj_on)
qed

text \<open>Classes come in the order of their first blocks.\<close>

lemma class_min:
  assumes "c = scc_of (length (block_ids (blocks w))) E i" "i \<in> set c"
  shows "Min (class_ids w c) = block_ids (blocks w) ! hd c" "hd c < length (block_ids (blocks w))"
proof -
  let ?ids = "block_ids (blocks w)"
  have c: "sorted c" "\<forall>j \<in> set c. j < length ?ids"
    using assms(1) by (simp_all add: scc_of_def sorted_wrt_filter)
  have "c \<noteq> []" using assms(2) by auto
  with c(1) have h: "hd c \<in> set c" "\<forall>j \<in> set c. hd c \<le> j" by (cases c; simp)+
  have "sorted ?ids" by (simp add: block_ids_def)
  then have "\<forall>j \<in> set c. ?ids ! hd c \<le> ?ids ! j" using c(2) h(2) sorted_nth_mono by blast
  then show "Min (class_ids w c) = ?ids ! hd c" using h(1) by (intro Min_eqI) (auto simp: class_ids_def)
  show "hd c < length ?ids" using c(2) h(1) by blast
qed

lemma enumerate_fst: "map (\<lambda>(i, c). f i) (enumerate n xs) = map f [n..<n + length xs]"
  by (induction xs arbitrary: n) (simp_all add: upt_rec)

lemma cycle_numbers: "map cy_index (compute_cycles w) = map (\<lambda>i. word_of_nat (i + 1)) [0..<length (compute_cycles w)]"
proof -
  have "cy_index (case ic of (idx, c) \<Rightarrow> \<lparr>cy_index = word_of_nat (idx + 1), cy_blocks = f c\<rparr>) = (case ic of (i, c) \<Rightarrow> word_of_nat (i + 1))"
    for ic :: "nat \<times> nat list" and f by (cases ic) simp
  then show ?thesis
    using enumerate_fst [where f = "\<lambda>i. word_of_nat (i + 1)" and n = 0] by (simp add: compute_cycles_def Let_def comp_def)
qed

text \<open>C17: the cycles attached to a word are exactly the strongly connected components of its
  block graph that carry an edge, each listed once: the list stands for an enumeration \<open>Cs\<close>
  without repetition of all sets of blocks that the branch edges lead between in both directions,
  the entry of a component lists the names of its blocks, each once and by ascending id, and the
  entries come in the order of their smallest ids, numbered from 1.\<close>

theorem cycles_are_sccs:
  "\<exists>Cs. distinct Cs \<and> set Cs = sccs (word_cfg w) \<and> sorted (map Min Cs)
    \<and> map cy_blocks (compute_cycles w) = map (\<lambda>C. map block_name (filter (\<lambda>b. b \<in> C) (sorted_list_of_set (bid ` set (blocks w))))) Cs
    \<and> map cy_index (compute_cycles w) = map (\<lambda>i. word_of_nat (i + 1)) [0..<length Cs]"
proof -
  let ?ids = "block_ids (blocks w)" and ?E = "set (cfg_index w)"
  let ?cs = "cycle_classes (length ?ids) (cfg_index w)"
  note cls = cycle_classes_facts [OF cfg_index_range, of w]
  have of: "\<exists>i. c = scc_of (length ?ids) ?E i" if "c \<in> set ?cs" for c using that cls(1) by auto
  have ids: "?ids = sorted_list_of_set (bid ` set (blocks w))"
    using sorted_list_of_set.idem_if_sorted_distinct [of ?ids] block_ids_facts [of "blocks w"] by (simp add: block_ids_def)
  have "distinct (map (class_ids w) ?cs)"
    unfolding distinct_map
  proof (intro conjI cls(2) inj_onI)
    fix c d assume "c \<in> set ?cs" "d \<in> set ?cs" "class_ids w c = class_ids w d"
    then show "c = d" using of class_ids_inj by metis
  qed
  moreover have "set (map (class_ids w) ?cs) = sccs (word_cfg w)"
  proof -
    have "{a. (a, a) \<in> (word_cfg w)\<^sup>+} = (!) ?ids ` {i. i < length ?ids \<and> (i, i) \<in> ?E\<^sup>+}"
    proof (intro equalityI subsetI)
      fix a assume "a \<in> {a. (a, a) \<in> (word_cfg w)\<^sup>+}"
      then have a: "(a, a) \<in> (word_cfg w)\<^sup>+" by simp
      then obtain i where "i < length ?ids" "a = ?ids ! i"
        using cfg_trancl_ids [OF a] block_ids_facts(2) [of "blocks w"] by (metis in_set_conv_nth)
      with a show "a \<in> (!) ?ids ` {i. i < length ?ids \<and> (i, i) \<in> ?E\<^sup>+}" using index_trancl [of i w i] by simp
    qed (use index_trancl in auto)
    then have "sccs (word_cfg w) = (\<lambda>i. {b. (?ids ! i, b) \<in> (word_cfg w)\<^sup>+ \<and> (b, ?ids ! i) \<in> (word_cfg w)\<^sup>+})
        ` {i. i < length ?ids \<and> (i, i) \<in> ?E\<^sup>+}" unfolding sccs_def by (simp only: image_image)
    also have "\<dots> = (\<lambda>i. class_ids w (scc_of (length ?ids) ?E i)) ` {i. i < length ?ids \<and> (i, i) \<in> ?E\<^sup>+}"
      using scc_index by (intro image_cong refl) simp
    also have "\<dots> = class_ids w ` set ?cs" unfolding cls(1) by blast
    finally show ?thesis by simp
  qed
  moreover have "sorted (map Min (map (class_ids w) ?cs))"
  proof -
    have m: "Min (class_ids w c) = ?ids ! hd c \<and> hd c < length ?ids" if c: "c \<in> set ?cs" for c
    proof -
      obtain i where "c = scc_of (length ?ids) ?E i" "i < length ?ids" using c cls(1) by auto
      then show ?thesis using class_min [of c w ?E i] scc_of_set(2) by blast
    qed
    have h: "sorted (map hd ?cs)" by (simp add: cycle_classes_def)
    have "sorted ?ids" by (simp add: block_ids_def)
    with h m show ?thesis by (auto simp: sorted_iff_nth_mono)
  qed
  moreover have b: "map cy_blocks (compute_cycles w) = map (\<lambda>C. map block_name (filter (\<lambda>b. b \<in> C) ?ids)) (map (class_ids w) ?cs)"
  proof -
    have "map (\<lambda>i. block_name (?ids ! i)) c = map block_name (filter (\<lambda>b. b \<in> class_ids w c) ?ids)" if c: "c \<in> set ?cs" for c
    proof -
      obtain i where "c = scc_of (length ?ids) ?E i" using of [OF c] ..
      from arg_cong [OF class_lists [OF this], of "map block_name"] show ?thesis by (simp add: comp_def)
    qed
    then show ?thesis unfolding cycles_blocks by simp
  qed
  moreover have "length (compute_cycles w) = length (map (class_ids w) ?cs)" using arg_cong [OF b, of length] by simp
  ultimately show ?thesis
    unfolding ids [symmetric] using cycle_numbers [of w] by (intro exI [of _ "map (class_ids w) ?cs"]) simp
qed

end
