(* ===== verification/ExtractCtx.thy ===== *)
theory ExtractCtx
  imports Verdict OblProps
begin

text \<open>
  The extraction context of crates/verifier/src/model.rs (\<open>ExtractionCtx\<close>): the state the
  lowering threads through a module, its operations, and the invariant that makes every
  set it builds valid with distinct ids.
\<close>

section \<open>Lossy UTF-8\<close>

text \<open>The error of \<open>core::str::from_utf8\<close> on the sequence at the front of a text: the length to
  skip, or \<open>None\<close> when the text ends inside a sequence.\<close>

definition utf8_error_len :: "string \<Rightarrow> nat option" where
  "utf8_error_len s = (case s of
     [] \<Rightarrow> None
   | a # t \<Rightarrow>
      (let n = utf8_seq_len a in
       if n = 0 then Some 1
       else (case t of
          [] \<Rightarrow> None
        | b # t \<Rightarrow>
           if n = 2 \<or> \<not> (if n = 3 then utf8_seq [a, b, CHR 0x80] else utf8_seq [a, b, CHR 0x80, CHR 0x80]) then Some 1
           else (case t of
              [] \<Rightarrow> None
            | c # t \<Rightarrow>
               if n = 3 \<or> \<not> in_range_c 0x80 0xBF c then Some 2
               else (if t = [] then None else Some 3)))))"

function valid_up_to :: "string \<Rightarrow> nat" where
  "valid_up_to [] = 0"
| "valid_up_to (c # s) =
    (let n = utf8_seq_len c in
     if n = 0 \<or> length (c # s) < n then 0
     else if utf8_seq (take n (c # s)) then n + valid_up_to (drop n (c # s)) else 0)"
  by pat_completeness auto
termination by (relation "measure length") auto

definition replacement_char :: string where
  "replacement_char = [CHR 0xEF, CHR 0xBF, CHR 0xBD]"

function utf8_lossy :: "string \<Rightarrow> string" where
  "utf8_lossy s =
    (if s = [] then [] else if is_utf8 s then s
     else (let v = valid_up_to s in
       take v s @ replacement_char
       @ (case utf8_error_len (drop v s) of
            Some n \<Rightarrow> if n = 0 then [] else utf8_lossy (drop (v + n) s)
          | None \<Rightarrow> [])))"
  by pat_completeness auto
termination by (relation "measure length") auto

section \<open>State\<close>

record extraction_ctx =
  ctx_set :: obl_set
  ctx_word :: string
  ctx_counters :: "u32 list"
  ctx_word_start :: nat
  ctx_resolved :: "resolved_verdict list"
  ctx_mmio_open :: bool
  ctx_contract_emitted :: u32
  ctx_statement_stale :: u32

definition ctx_new_with_identity :: "string \<Rightarrow> string \<Rightarrow> string \<Rightarrow> string \<Rightarrow> extraction_ctx" where
  "ctx_new_with_identity module target platform model =
     \<lparr>ctx_set = \<lparr>os_schema = OBL_SCHEMA, os_semantics = SEMANTICS_VERSION, os_stmt = STMT_SCHEMA,
        os_module = utf8_lossy module, os_target = utf8_lossy target, os_platform = utf8_lossy platform,
        os_model_semantics = utf8_lossy model, os_concurrency = CONCURRENCY_UNMODELED, os_abi = 2,
        os_facts = \<lparr>fa_words = [], fa_subtypes = [], fa_predicates = []\<rparr>, os_obligations = []\<rparr>,
      ctx_word = [], ctx_counters = replicate 5 0, ctx_word_start = 0, ctx_resolved = [],
      ctx_mmio_open = False, ctx_contract_emitted = 0, ctx_statement_stale = 0\<rparr>"

definition ctx_new :: "string \<Rightarrow> extraction_ctx" where
  "ctx_new module = ctx_new_with_identity module [] [] MODEL_UNMODELED"

section \<open>Operations\<close>

definition upd_set :: "(obl_set \<Rightarrow> obl_set) \<Rightarrow> extraction_ctx \<Rightarrow> extraction_ctx" where
  "upd_set f c = c\<lparr>ctx_set := f (ctx_set c)\<rparr>"

definition upd_facts :: "(facts \<Rightarrow> facts) \<Rightarrow> extraction_ctx \<Rightarrow> extraction_ctx" where
  "upd_facts f = upd_set (\<lambda>s. s\<lparr>os_facts := f (os_facts s)\<rparr>)"

definition set_identity :: "string \<Rightarrow> string \<Rightarrow> string \<Rightarrow> extraction_ctx \<Rightarrow> extraction_ctx" where
  "set_identity target platform model = upd_set (\<lambda>s.
     (let s = (if target \<noteq> [] then s\<lparr>os_target := utf8_lossy target\<rparr> else s);
          s = (if platform \<noteq> [] then s\<lparr>os_platform := utf8_lossy platform\<rparr> else s)
      in s\<lparr>os_model_semantics := utf8_lossy model\<rparr>))"

definition set_concurrency :: "string \<Rightarrow> extraction_ctx \<Rightarrow> extraction_ctx" where
  "set_concurrency conc = upd_set (\<lambda>s. s\<lparr>os_concurrency := utf8_lossy conc\<rparr>)"

definition begin_word :: "string \<Rightarrow> extraction_ctx \<Rightarrow> extraction_ctx" where
  "begin_word w c = c\<lparr>ctx_word := w, ctx_counters := replicate 5 0, ctx_mmio_open := False,
     ctx_word_start := length (os_obligations (ctx_set c))\<rparr>"

definition push_subtype_fact :: "string \<Rightarrow> i64 \<Rightarrow> i64 \<Rightarrow> extraction_ctx \<Rightarrow> extraction_ctx" where
  "push_subtype_fact name lo hi = upd_facts (\<lambda>f.
     f\<lparr>fa_subtypes := fa_subtypes f @ [\<lparr>sf_name = utf8_lossy name, sf_lo = lo, sf_hi = hi\<rparr>]\<rparr>)"

text \<open>The hash of a transcluded predicate: every line is closed with a byte \<open>0xff\<close>.\<close>

definition predicate_ir_hash :: "string \<Rightarrow> string list \<Rightarrow> string" where
  "predicate_ir_hash name ir =
    (if ir = [] then format_hex (fnv1a64 name)
     else format_hex (fold (\<lambda>line h. (fold (\<lambda>b h. (h XOR of_char b) * 0x100000001b3) line h XOR 0xff) * 0x100000001b3)
       ir 0xcbf29ce484222325))"

definition push_predicate_fact :: "string \<Rightarrow> string list option \<Rightarrow> extraction_ctx \<Rightarrow> extraction_ctx" where
  "push_predicate_fact name ir_opt = (let ir = (case ir_opt of Some l \<Rightarrow> l | None \<Rightarrow> []) in
     upd_facts (\<lambda>f. f\<lparr>fa_predicates := fa_predicates f @
       [\<lparr>pf_name = utf8_lossy name, pf_ir = ir, pf_ir_hash = predicate_ir_hash name ir\<rparr>]\<rparr>))"

definition EFFECT_NAMES :: "(effect_set \<times> string) list" where
  "EFFECT_NAMES = [(0x1, ''SUSPEND''), (0x2, ''INTERRUPT''), (0x4, ''DIVERGE''), (0x8, ''MMIO''), (0x10, ''ALLOC'')]"

definition push_word_fact_with_ir :: "string \<Rightarrow> stack_bound \<Rightarrow> effect_set \<Rightarrow> string \<Rightarrow> u32
    \<Rightarrow> extraction_ctx \<Rightarrow> extraction_ctx" where
  "push_word_fact_with_ir name bnd perf ir nblocks =
     upd_facts (\<lambda>f. f\<lparr>fa_words := fa_words f @
       [\<lparr>wf_name = utf8_lossy name, wf_net = net bnd,
         wf_high = (case high bnd of Slots n \<Rightarrow> n | HTop \<Rightarrow> - 1), wf_top = (high bnd = HTop),
         wf_performs = map snd (filter (\<lambda>(b, _). perf AND b \<noteq> 0) EFFECT_NAMES),
         wf_diverge_free = (perf AND 0x4 = 0), wf_ir = ir, wf_blocks = nblocks\<rparr>]\<rparr>)"

definition push_word_fact :: "string \<Rightarrow> stack_bound \<Rightarrow> effect_set \<Rightarrow> extraction_ctx \<Rightarrow> extraction_ctx" where
  "push_word_fact name bnd perf = push_word_fact_with_ir name bnd perf [] 0"

definition record_with_intent :: "obl_kind \<Rightarrow> formula \<Rightarrow> u32 \<Rightarrow> u32 \<Rightarrow> provenance \<Rightarrow> intent
    \<Rightarrow> extraction_ctx \<Rightarrow> (string \<times> string) \<times> extraction_ctx" where
  "record_with_intent k f line col prov it c =
    (let occurrence = ctx_counters c ! kind_idx k;
         i = canonical_id (os_module (ctx_set c)) (ctx_word c) k occurrence;
         h = format_hex (fnv1a64 i);
         ob = \<lparr>ob_id = i, ob_id_hash = h, ob_kind = k,
               ob_site = \<lparr>st_word = utf8_lossy (ctx_word c), st_occurrence = occurrence,
                          st_span = \<lparr>si_line = line, si_col = col\<rparr>\<rparr>,
               ob_intent = it, ob_formula = f, ob_assumptions = [], ob_cycles = [], ob_provenance = prov\<rparr>
     in ((i, h), upd_set (\<lambda>s. s\<lparr>os_obligations := os_obligations s @ [ob]\<rparr>)
           (c\<lparr>ctx_counters := (ctx_counters c)[kind_idx k := occurrence + 1]\<rparr>)))"

definition record_obl :: "obl_kind \<Rightarrow> formula \<Rightarrow> u32 \<Rightarrow> u32 \<Rightarrow> provenance
    \<Rightarrow> extraction_ctx \<Rightarrow> (string \<times> string) \<times> extraction_ctx" where
  "record_obl k f line col prov = record_with_intent k f line col prov (default_intent k [])"

definition upd_last :: "('a \<Rightarrow> 'a) \<Rightarrow> 'a list \<Rightarrow> 'a list" where
  "upd_last f xs = (if xs = [] then [] else butlast xs @ [f (last xs)])"

definition push_assumption_edge :: "assumption_edge \<Rightarrow> extraction_ctx \<Rightarrow> extraction_ctx" where
  "push_assumption_edge e = upd_set (\<lambda>s. s\<lparr>os_obligations := upd_last (\<lambda>ob.
     if e \<in> set (ob_assumptions ob) then ob
     else ob\<lparr>ob_assumptions := ob_assumptions ob @ [e]\<rparr>) (os_obligations s)\<rparr>)"

definition attach_word_cycles :: "cycle list \<Rightarrow> extraction_ctx \<Rightarrow> extraction_ctx" where
  "attach_word_cycles cs c = upd_set (\<lambda>s. s\<lparr>os_obligations :=
     take (ctx_word_start c) (os_obligations s)
     @ map (\<lambda>ob. ob\<lparr>ob_cycles := cs\<rparr>) (drop (ctx_word_start c) (os_obligations s))\<rparr>) c"

definition push_resolved :: "resolved_verdict \<Rightarrow> extraction_ctx \<Rightarrow> extraction_ctx" where
  "push_resolved r c = c\<lparr>ctx_resolved := ctx_resolved c @ [r]\<rparr>"

definition note_mmio_verdict :: "bool \<Rightarrow> extraction_ctx \<Rightarrow> extraction_ctx" where
  "note_mmio_verdict is_open c = c\<lparr>ctx_mmio_open := (ctx_mmio_open c \<or> is_open)\<rparr>"

definition word_mmio_all_discharged :: "extraction_ctx \<Rightarrow> bool" where
  "word_mmio_all_discharged c = (\<not> ctx_mmio_open c)"

definition note_emitted_contract :: "extraction_ctx \<Rightarrow> extraction_ctx" where
  "note_emitted_contract c = c\<lparr>ctx_contract_emitted := saturating_add_u32 (ctx_contract_emitted c) 1\<rparr>"

definition note_statement_stale :: "extraction_ctx \<Rightarrow> extraction_ctx" where
  "note_statement_stale c = c\<lparr>ctx_statement_stale := saturating_add_u32 (ctx_statement_stale c) 1\<rparr>"

section \<open>What a module's extraction can do\<close>

text \<open>The contexts the operations reach, with the words begun so far. A word is begun once,
  its name is UTF-8, and the occurrence counters are not driven past their width.\<close>

inductive ext_reach :: "string set \<Rightarrow> extraction_ctx \<Rightarrow> bool" where
  ext_new: "ext_reach {[]} (ctx_new_with_identity m t p ms)"
| ext_begin: "ext_reach ws c \<Longrightarrow> w \<notin> ws \<Longrightarrow> is_utf8 w \<Longrightarrow> ext_reach (insert w ws) (begin_word w c)"
| ext_record: "ext_reach ws c \<Longrightarrow> length (os_obligations (ctx_set c)) < 2 ^ 32 - 1 \<Longrightarrow>
    ext_reach ws (snd (record_with_intent k f line col prov it c))"
| ext_edge: "ext_reach ws c \<Longrightarrow> ext_reach ws (push_assumption_edge e c)"
| ext_cycles: "ext_reach ws c \<Longrightarrow> ext_reach ws (attach_word_cycles cs c)"
| ext_identity: "ext_reach ws c \<Longrightarrow> ext_reach ws (set_identity t p ms c)"
| ext_concurrency: "ext_reach ws c \<Longrightarrow> ext_reach ws (set_concurrency conc c)"
| ext_subtype: "ext_reach ws c \<Longrightarrow> ext_reach ws (push_subtype_fact name lo hi c)"
| ext_predicate: "ext_reach ws c \<Longrightarrow> ext_reach ws (push_predicate_fact name ir_opt c)"
| ext_word_fact: "ext_reach ws c \<Longrightarrow> ext_reach ws (push_word_fact_with_ir name bnd perf ir n c)"
| ext_resolved: "ext_reach ws c \<Longrightarrow> ext_reach ws (push_resolved r c)"
| ext_mmio: "ext_reach ws c \<Longrightarrow> ext_reach ws (note_mmio_verdict b c)"
| ext_contract: "ext_reach ws c \<Longrightarrow> ext_reach ws (note_emitted_contract c)"
| ext_stale: "ext_reach ws c \<Longrightarrow> ext_reach ws (note_statement_stale c)"

text \<open>What identifies the obligations of a context.\<close>

definition ident :: "obl_rec \<Rightarrow> string \<times> string \<times> obl_kind \<times> string \<times> u32" where
  "ident ob = (ob_id ob, ob_id_hash ob, ob_kind ob, st_word (ob_site ob), st_occurrence (ob_site ob))"

definition idents :: "extraction_ctx \<Rightarrow> (string \<times> string \<times> obl_kind \<times> string \<times> u32) list" where
  "idents c = map ident (os_obligations (ctx_set c))"

definition id_state :: "extraction_ctx \<Rightarrow> (string \<times> string \<times> obl_kind \<times> string \<times> u32) list \<times> string \<times> string \<times> u32 list" where
  "id_state c = (idents c, os_module (ctx_set c), ctx_word c, ctx_counters c)"

fun ident_ok :: "string \<Rightarrow> string set \<Rightarrow> string \<times> string \<times> obl_kind \<times> string \<times> u32 \<Rightarrow> bool" where
  "ident_ok m ws (i, h, k, w, n) = (i = canonical_id m w k n \<and> h = format_hex (fnv1a64 i) \<and> is_utf8 w \<and> w \<in> ws)"

definition id_inv :: "string set \<Rightarrow> (string \<times> string \<times> obl_kind \<times> string \<times> u32) list \<times> string \<times> string \<times> u32 list \<Rightarrow> bool" where
  "id_inv ws s = (case s of (is, m, w, cnt) \<Rightarrow>
     (\<forall>x \<in> set is. ident_ok m ws x) \<and> distinct (map fst is) \<and> is_utf8 w \<and> w \<in> ws \<and> length cnt = 5
     \<and> (\<forall>n \<in> set cnt. unat n \<le> length is)
     \<and> (\<forall>(i, h, k, v, n) \<in> set is. v = w \<longrightarrow> unat n < unat (cnt ! kind_idx k)))"

lemma kind_idx_less: "kind_idx k < 5" by (cases k) simp_all

lemma kind_idx_inj: "kind_idx k = kind_idx k' \<longleftrightarrow> k = k'" by (cases k; cases k') simp_all

lemma utf8_lossy_id [simp]: "is_utf8 s \<Longrightarrow> utf8_lossy s = s" by (cases "s = []") simp_all

declare utf8_lossy.simps [simp del]

lemma ident_upd [simp]:
  "ident (ob\<lparr>ob_assumptions := a\<rparr>) = ident ob" "ident (ob\<lparr>ob_cycles := cs\<rparr>) = ident ob"
  by (simp_all add: ident_def)

lemma map_upd_last: "(\<And>x. g (f x) = g x) \<Longrightarrow> map g (upd_last f xs) = map g xs"
  by (cases xs rule: rev_cases) (simp_all add: upd_last_def)

lemma map_take_drop: "(\<And>x. g (f x) = g x) \<Longrightarrow> map g (take n xs @ map f (drop n xs)) = map g xs"
  by (simp add: comp_def) (simp flip: map_append)

lemma id_state_same [simp]:
  "id_state (push_assumption_edge e c) = id_state c" "id_state (attach_word_cycles cs c) = id_state c"
  "id_state (set_identity t p ms c) = id_state c" "id_state (set_concurrency conc c) = id_state c"
  "id_state (push_subtype_fact name lo hi c) = id_state c" "id_state (push_predicate_fact name ir_opt c) = id_state c"
  "id_state (push_word_fact_with_ir name bnd perf ir n c) = id_state c" "id_state (push_resolved r c) = id_state c"
  "id_state (note_mmio_verdict b c) = id_state c" "id_state (note_emitted_contract c) = id_state c"
  "id_state (note_statement_stale c) = id_state c"
  by (simp_all add: id_state_def idents_def upd_set_def upd_facts_def push_assumption_edge_def
      attach_word_cycles_def set_identity_def set_concurrency_def push_subtype_fact_def push_predicate_fact_def
      push_word_fact_with_ir_def push_resolved_def note_mmio_verdict_def note_emitted_contract_def
      note_statement_stale_def Let_def map_upd_last map_take_drop del: map_append)

lemma id_state_record:
  "id_state (snd (record_with_intent k f line col prov it c)) =
    (let n = ctx_counters c ! kind_idx k; m = os_module (ctx_set c); i = canonical_id m (ctx_word c) k n
     in (idents c @ [(i, format_hex (fnv1a64 i), k, utf8_lossy (ctx_word c), n)], m, ctx_word c,
         (ctx_counters c)[kind_idx k := n + 1]))"
  by (simp add: id_state_def idents_def record_with_intent_def upd_set_def ident_def Let_def)

lemma id_inv_record:
  fixes k :: obl_kind
  assumes "id_inv ws (is, m, w, cnt)" "length is < 2 ^ 32 - 1"
  defines "n \<equiv> cnt ! kind_idx k" and "i \<equiv> canonical_id m w k (cnt ! kind_idx k)"
  shows "id_inv ws (is @ [(i, format_hex (fnv1a64 i), k, w, n)], m, w, cnt[kind_idx k := n + 1])"
proof -
  note inv = assms(1) [unfolded id_inv_def prod.case]
  have k: "kind_idx k < length cnt" using inv kind_idx_less [of k] by simp
  have "unat n \<le> length is" using inv k unfolding n_def by (meson nth_mem)
  then have lt: "unat n < 2 ^ 32 - 1" using assms(2) by simp
  then have n1: "unat (n + 1) = unat n + 1" by (simp add: unat_add_u32)
  have fresh: "i \<notin> set (map fst is)"
  proof
    assume "i \<in> set (map fst is)"
    then obtain h k' v n' where x: "(i, h, k', v, n') \<in> set is" by auto
    then have "canonical_id m v k' n' = canonical_id m w k n" "is_utf8 v"
      using inv unfolding i_def n_def by auto
    from canonical_id_facts [OF this(1) this(2)] inv have e: "v = w" "k' = k" "n' = n" by auto
    have "unat n' < unat (cnt ! kind_idx k')" using inv x e(1) by auto
    then show False using e by (simp add: n_def)
  qed
  have cnt: "\<forall>x \<in> set (cnt[kind_idx k := n + 1]). unat x \<le> Suc (length is)"
    using inv \<open>unat n \<le> length is\<close> n1 by (auto dest!: set_update_subset_insert [THEN subsetD] intro: le_SucI)
  have lt_cnt: "\<forall>(i, h, k', v, n') \<in> set (is @ [(i, format_hex (fnv1a64 i), k, w, n)]).
      v = w \<longrightarrow> unat n' < unat (cnt[kind_idx k := n + 1] ! kind_idx k')"
  proof -
    have "unat n' < unat (cnt[kind_idx k := n + 1] ! kind_idx k')" if "(i', h, k', w, n') \<in> set is" for i' h k' n'
    proof -
      have "unat n' < unat (cnt ! kind_idx k')" using inv that by auto
      then show ?thesis using k n1 by (cases "k' = k") (simp_all add: n_def kind_idx_inj)
    qed
    then show ?thesis using k n1 by auto
  qed
  show ?thesis
    unfolding id_inv_def prod.case
    using inv fresh cnt lt_cnt by (simp add: i_def n_def)
qed

lemma id_inv_begin:
  assumes "id_inv ws (is, m, w0, cnt)" "w \<notin> ws" "is_utf8 w"
  shows "id_inv (insert w ws) (is, m, w, replicate 5 0)"
proof -
  have "ident_ok m (insert w ws) x \<and> fst (snd (snd (snd x))) \<noteq> w" if "x \<in> set is" for x
    using assms that by (cases x) (auto simp: id_inv_def)
  then show ?thesis using assms by (fastforce simp: id_inv_def)
qed

lemma ext_inv: "ext_reach ws c \<Longrightarrow> id_inv ws (id_state c)"
proof (induction rule: ext_reach.induct)
  case (ext_new m t p ms)
  show ?case by (simp add: id_inv_def id_state_def idents_def ctx_new_with_identity_def)
next
  case (ext_begin ws c w)
  then show ?case
    by (simp add: id_state_def idents_def begin_word_def id_inv_begin)
next
  case (ext_record ws c k f line col prov it)
  have s: "id_state c = (idents c, os_module (ctx_set c), ctx_word c, ctx_counters c)" by (simp add: id_state_def)
  have "is_utf8 (ctx_word c)" using ext_record.IH by (simp add: s id_inv_def)
  moreover have "length (idents c) < 2 ^ 32 - 1" using ext_record.hyps by (simp add: idents_def)
  ultimately show ?case
    using id_inv_record [OF ext_record.IH [unfolded s], of k] by (simp add: id_state_record Let_def)
qed simp_all

lemma validate_iff:
  "validate os = Inr () \<longleftrightarrow> (\<forall>ob \<in> set (os_obligations os).
     ob_id ob = canonical_id (os_module os) (st_word (ob_site ob)) (ob_kind ob) (st_occurrence (ob_site ob))
     \<and> ob_id_hash ob = format_hex (fnv1a64 (ob_id ob)))"
proof -
  have "validate_loop m obs = Inr () \<longleftrightarrow> (\<forall>ob \<in> set obs.
     ob_id ob = canonical_id m (st_word (ob_site ob)) (ob_kind ob) (st_occurrence (ob_site ob))
     \<and> ob_id_hash ob = format_hex (fnv1a64 (ob_id ob)))" for m obs
    by (induction obs) (auto simp: Let_def)
  then show ?thesis by (simp add: validate_def)
qed

lemma extraction_facts:
  assumes "ext_reach ws c"
  shows "validate (ctx_set c) = Inr ()" "distinct (map ob_id (os_obligations (ctx_set c)))"
proof -
  have inv: "id_inv ws (idents c, os_module (ctx_set c), ctx_word c, ctx_counters c)"
    using ext_inv [OF assms] by (simp add: id_state_def)
  then have "\<forall>ob \<in> set (os_obligations (ctx_set c)). ident_ok (os_module (ctx_set c)) ws (ident ob)"
    by (auto simp: id_inv_def idents_def)
  then show "validate (ctx_set c) = Inr ()" by (simp add: validate_iff ident_def)
  have "map fst (idents c) = map ob_id (os_obligations (ctx_set c))" by (simp add: idents_def ident_def comp_def)
  then show "distinct (map ob_id (os_obligations (ctx_set c)))" using inv by (simp add: id_inv_def)
qed

text \<open>C10: through the operations of the extraction context - any number of sites recorded, edges,
  cycles, facts and identity set in any order - the set passes the validation the encoder runs, and
  no two obligations share an id, provided each word is begun once, under a name that is UTF-8, and
  fewer than \<open>2 ^ 32 - 1\<close> sites are recorded (the side conditions of \<open>ext_reach\<close>; the two lemmas
  after the witness show what happens without the first two). \<open>set_mut\<close>, with which the driver edits
  a finished set, is not one of the operations.\<close>

theorem extraction_valid:
  "ext_reach ws c \<Longrightarrow> validate (ctx_set c) = Inr () \<and> distinct (map ob_id (os_obligations (ctx_set c)))"
  using extraction_facts by simp

definition two_sites :: extraction_ctx where
  "two_sites =
    (let f = InRange (OelVar ''out.0'') 0 9;
         r = \<lambda>c. snd (record_obl SubtypeRange f 1 1 Direct c)
     in r (push_assumption_edge EdgeRuntimeCheck (r (begin_word ''w'' (ctx_new ''m'')))))"

theorem extraction_valid_witness:
  "validate (ctx_set two_sites) = Inr () \<and> distinct (map ob_id (os_obligations (ctx_set two_sites)))"
proof -
  have "ext_reach {''w'', []} two_sites"
    unfolding two_sites_def ctx_new_def record_obl_def Let_def
    by (intro ext_record ext_edge ext_begin ext_new)
      (simp_all add: utf8_seq_len_def utf8_seq_def in_range_c_def upd_set_def begin_word_def ctx_new_with_identity_def
        record_with_intent_def push_assumption_edge_def upd_last_def Let_def)
  then show ?thesis by (rule extraction_valid)
qed

text \<open>A word begun twice repeats the ids of its first body, and validation does not see it; a site
  of a word whose name is not UTF-8 makes the set fail the validation.\<close>

lemma repeated_word_repeats_ids:
  "let r = \<lambda>c. snd (record_obl SubtypeRange (InRange (OelVar ''out.0'') 0 9) 1 1 Direct (begin_word ''w'' c));
       os = ctx_set (r (r (ctx_new ''m'')))
   in map ob_id (os_obligations os) = replicate 2 (canonical_id ''m'' ''w'' SubtypeRange 0) \<and> validate os = Inr ()"
  by (simp add: Let_def validate_iff record_obl_def record_with_intent_def begin_word_def ctx_new_def
      ctx_new_with_identity_def upd_set_def numeral_2_eq_2 utf8_seq_len_def utf8_seq_def in_range_c_def)

lemma other_name_not_valid:
  "validate (ctx_set (snd (record_obl SubtypeRange (InRange (OelVar ''out.0'') 0 9) 1 1 Direct
     (begin_word [CHR 0xFF] (ctx_new ''m''))))) \<noteq> Inr ()"
proof -
  have "utf8_lossy [CHR 0xFF] = replacement_char"
    by (subst utf8_lossy.simps) (simp add: utf8_seq_len_def in_range_c_def utf8_error_len_def utf8_lossy.simps)
  moreover have "is_utf8 replacement_char"
    by (simp add: replacement_char_def utf8_seq_len_def utf8_seq_def in_range_c_def)
  ultimately show ?thesis
    by (simp add: validate_iff record_obl_def record_with_intent_def begin_word_def ctx_new_def
        ctx_new_with_identity_def upd_set_def canonical_id_def utf8_seq_len_def in_range_c_def replacement_char_def
        push_u32_decimal_def Let_def)
qed

end
