(* ===== verification/OblCodec.thy ===== *)
theory OblCodec
  imports OblModel
begin

text \<open>
  The \<open>.obl.json\<close> codec of crates/verifier/src/codec.rs: the writer with its caps, the
  reader of every object and array of the document, and \<open>read_obl\<close> with its schema and
  semantics gates. An object reader is a table of handlers over the optional slots the
  source declares, and then the check that the required slots are filled.
\<close>

datatype (plugins only: code size) codec_error = CMalformed | CSchemaVersion string | CSemanticsMismatch string
  | CTooLarge nat | CWordIrTooLarge string nat | CImageVerdictsInvalid string | CFuel

fun codec_error_code :: "codec_error \<Rightarrow> nat" where
  "codec_error_code (CSchemaVersion _) = 6400"
| "codec_error_code (CImageVerdictsInvalid _) = 6415"
| "codec_error_code _ = 6401"

section \<open>Writer\<close>

fun write_oel :: "oel \<Rightarrow> string" where
  "write_oel (OelVar name) = obj_text [(''op'', write_str ''Var''), (''name'', write_str name)]"
| "write_oel (OelCast from to arg) =
     obj_text [(''op'', write_str ''Cast''), (''from'', write_str from), (''to'', write_str to),
       (''arg'', write_oel arg)]"

definition u32_json :: "u32 \<Rightarrow> string" where
  "u32_json v = push_i64_json (uint v)"

definition write_predicate_ref :: "predicate_ref \<Rightarrow> string" where
  "write_predicate_ref p = obj_text [(''module'', write_str (pr_module p)), (''name'', write_str (pr_name p)),
     (''ir'', arr_text write_str (pr_ir p)), (''ir_hash'', write_str (pr_ir_hash p))]"

fun write_formula :: "formula \<Rightarrow> string" where
  "write_formula (InRange v lo hi) =
     obj_text [(''op'', write_str ''InRange''), (''value'', write_oel v), (''lo'', push_i64_json lo),
       (''hi'', push_i64_json hi)]"
| "write_formula (OffsetLE off width sz) =
     obj_text [(''op'', write_str ''OffsetLE''),
       (''off'', case off of Some n \<Rightarrow> u32_json n | None \<Rightarrow> ''null''),
       (''width'', u32_json width), (''size'', u32_json sz)]"
| "write_formula (PredicateHolds p args) =
     obj_text [(''op'', write_str ''PredicateHolds''), (''predicate'', write_predicate_ref p),
       (''args'', arr_text write_oel args)]"

fun write_assumption_edge :: "assumption_edge \<Rightarrow> string" where
  "write_assumption_edge (EdgeObligation i m) = obj_text [(''obligation'', write_str i), (''module'', write_str m)]"
| "write_assumption_edge EdgeRuntimeCheck = write_str ''runtime-check''"

definition write_cycle :: "cycle \<Rightarrow> string" where
  "write_cycle c = obj_text [(''index'', u32_json (cy_index c)), (''blocks'', arr_text write_str (cy_blocks c))]"

definition write_span :: "span_info \<Rightarrow> string" where
  "write_span s = obj_text [(''line'', u32_json (si_line s)), (''col'', u32_json (si_col s))]"

definition write_site :: "site \<Rightarrow> string" where
  "write_site s = obj_text [(''word'', write_str (st_word s)), (''occurrence'', u32_json (st_occurrence s)),
     (''span'', write_span (st_span s))]"

definition write_intent :: "intent \<Rightarrow> string" where
  "write_intent i = obj_text [(''label'', write_str (it_label i)), (''subject'', write_str (it_subject i)),
     (''authored'', write_bool (it_authored i))]"

definition write_obligation :: "obl_rec \<Rightarrow> string" where
  "write_obligation ob = obj_text
     [(''id'', write_str (ob_id ob)), (''id_hash'', write_str (ob_id_hash ob)),
      (''kind'', write_str (kind_str (ob_kind ob))), (''site'', write_site (ob_site ob)),
      (''intent'', write_intent (ob_intent ob)), (''formula'', write_formula (ob_formula ob)),
      (''assumptions'', arr_text write_assumption_edge (ob_assumptions ob)),
      (''cycles'', arr_text write_cycle (ob_cycles ob)),
      (''provenance'', write_str (provenance_str (ob_provenance ob)))]"

definition write_word_fact :: "word_fact \<Rightarrow> string" where
  "write_word_fact w = obj_text
     [(''name'', write_str (wf_name w)), (''net'', push_i64_json (wf_net w)),
      (''high'', u32_json (wf_high w)), (''top'', write_bool (wf_top w)),
      (''performs'', arr_text write_str (wf_performs w)),
      (''diverge_free'', write_bool (wf_diverge_free w)), (''blocks'', u32_json (wf_blocks w)),
      (''ir'', write_str (wf_ir w))]"

definition write_subtype_fact :: "subtype_fact \<Rightarrow> string" where
  "write_subtype_fact s = obj_text [(''name'', write_str (sf_name s)), (''lo'', push_i64_json (sf_lo s)),
     (''hi'', push_i64_json (sf_hi s))]"

definition write_predicate_fact :: "predicate_fact \<Rightarrow> string" where
  "write_predicate_fact p = obj_text [(''name'', write_str (pf_name p)), (''ir'', arr_text write_str (pf_ir p)),
     (''ir_hash'', write_str (pf_ir_hash p))]"

definition write_facts :: "facts \<Rightarrow> string" where
  "write_facts f = obj_text [(''words'', arr_text write_word_fact (fa_words f)),
     (''subtypes'', arr_text write_subtype_fact (fa_subtypes f)),
     (''predicates'', arr_text write_predicate_fact (fa_predicates f))]"

definition write_doc :: "obl_set \<Rightarrow> string" where
  "write_doc s = obj_text
     [(''schema'', write_str (os_schema s)), (''semantics'', write_str (os_semantics s)),
      (''stmt'', write_str (os_stmt s)), (''module'', write_str (os_module s)),
      (''target'', write_str (os_target s)), (''platform'', write_str (os_platform s)),
      (''model_semantics'', write_str (os_model_semantics s)),
      (''concurrency'', write_str (os_concurrency s)),
      (''abi_contract_version'', u32_json (os_abi s)), (''facts'', write_facts (os_facts s)),
      (''obligations'', arr_text write_obligation (os_obligations s))]"

definition encode_obl :: "obl_set \<Rightarrow> codec_error + string" where
  "encode_obl s =
    (case find (\<lambda>w. WORD_IR_MAX_BYTES < length (wf_ir w)) (fa_words (os_facts s)) of
       Some w \<Rightarrow> Inl (CWordIrTooLarge (wf_name w) (length (wf_ir w)))
     | None \<Rightarrow>
        (case validate s of
           Inl _ \<Rightarrow> Inl CMalformed
         | Inr _ \<Rightarrow>
            (let out = write_doc s in
             if OBL_ARTIFACT_MAX_BYTES < length out then Inl (CTooLarge (length out)) else Inr out)))"

section \<open>Reader\<close>

text \<open>The \<open>let (Some(a), ...) = ... else { return self.err() }\<close> after a member loop.\<close>

definition need :: "('a \<Rightarrow> 'b option) \<Rightarrow> jerr + 'a \<times> string \<Rightarrow> jerr + 'b \<times> string" where
  "need f q = bindE q (\<lambda>(a, r). case f a of Some b \<Rightarrow> Inr (b, r) | None \<Rightarrow> Inl JMal)"

definition opt2 :: "'a option \<Rightarrow> 'b option \<Rightarrow> ('a \<Rightarrow> 'b \<Rightarrow> 'c) \<Rightarrow> 'c option" where
  "opt2 a b f = (case (a, b) of (Some x, Some y) \<Rightarrow> Some (f x y) | _ \<Rightarrow> None)"

definition opt3 :: "'a option \<Rightarrow> 'b option \<Rightarrow> 'c option \<Rightarrow> ('a \<Rightarrow> 'b \<Rightarrow> 'c \<Rightarrow> 'd) \<Rightarrow> 'd option" where
  "opt3 a b c f = (case (a, b, c) of (Some x, Some y, Some z) \<Rightarrow> Some (f x y z) | _ \<Rightarrow> None)"

subsection \<open>Values\<close>

record oel_slots =
  xo_op :: "string option"
  xo_name :: "string option"
  xo_from :: "string option"
  xo_to :: "string option"
  xo_arg :: "oel option"

definition oel_empty :: oel_slots where
  "oel_empty = \<lparr>xo_op = None, xo_name = None, xo_from = None, xo_to = None, xo_arg = None\<rparr>"

definition oel_table :: "(string \<Rightarrow> jerr + oel \<times> string) \<Rightarrow> (string \<times> oel_slots handler) list" where
  "oel_table p = [(''op'', fld parse_string (\<lambda>v a. a\<lparr>xo_op := Some v\<rparr>)),
     (''name'', fld parse_string (\<lambda>v a. a\<lparr>xo_name := Some v\<rparr>)),
     (''from'', fld parse_string (\<lambda>v a. a\<lparr>xo_from := Some v\<rparr>)),
     (''to'', fld parse_string (\<lambda>v a. a\<lparr>xo_to := Some v\<rparr>)),
     (''arg'', fld p (\<lambda>v a. a\<lparr>xo_arg := Some v\<rparr>))]"

definition oel_done :: "oel_slots \<Rightarrow> oel option" where
  "oel_done a =
    (if xo_op a = Some ''Var'' then map_option OelVar (xo_name a)
     else if xo_op a = Some ''Cast'' then opt3 (xo_from a) (xo_to a) (xo_arg a) OelCast
     else None)"

primrec parse_oel_n :: "nat \<Rightarrow> string \<Rightarrow> jerr + oel \<times> string" where
  "parse_oel_n 0 = (\<lambda>r. Inl JFuel)"
| "parse_oel_n (Suc n) = (\<lambda>r. need oel_done (parse_obj parse_string (match_key skip_value (oel_table (parse_oel_n n))) oel_empty r))"

definition parse_oel :: "string \<Rightarrow> jerr + oel \<times> string" where
  "parse_oel r = parse_oel_n (Suc (length r)) r"

definition parse_oel_array :: "string \<Rightarrow> jerr + oel list \<times> string" where
  "parse_oel_array = parse_arr parse_oel"

definition parse_nullable_u32 :: "string \<Rightarrow> jerr + u32 option \<times> string" where
  "parse_nullable_u32 r = (let r = skip_ws r in
     if peek r = Some (CHR ''n'') then (if take 4 r = ''null'' then Inr (None, drop 4 r) else Inl JMal)
     else bindE (parse_u64 r) (\<lambda>(v, r). Inr (Some (word_of_int v), r)))"

subsection \<open>Formulas\<close>

record pred_slots =
  xp_module :: "string option"
  xp_name :: "string option"
  xp_ir :: "string list option"
  xp_ir_hash :: "string option"

definition pred_empty :: pred_slots where
  "pred_empty = \<lparr>xp_module = None, xp_name = None, xp_ir = None, xp_ir_hash = None\<rparr>"

definition pred_table :: "(string \<times> pred_slots handler) list" where
  "pred_table = [(''module'', fld parse_string (\<lambda>v a. a\<lparr>xp_module := Some v\<rparr>)),
     (''name'', fld parse_string (\<lambda>v a. a\<lparr>xp_name := Some v\<rparr>)),
     (''ir'', fld parse_string_array (\<lambda>v a. a\<lparr>xp_ir := Some v\<rparr>)),
     (''ir_hash'', fld parse_string (\<lambda>v a. a\<lparr>xp_ir_hash := Some v\<rparr>))]"

definition pred_done :: "pred_slots \<Rightarrow> predicate_ref option" where
  "pred_done a = opt2 (opt2 (xp_module a) (xp_name a) Pair) (opt2 (xp_ir a) (xp_ir_hash a) Pair)
     (\<lambda>(m, n) (ir, h). \<lparr>pr_module = m, pr_name = n, pr_ir = ir, pr_ir_hash = h\<rparr>)"

definition parse_predicate_ref :: "string \<Rightarrow> jerr + predicate_ref \<times> string" where
  "parse_predicate_ref r = need pred_done (parse_obj parse_string (match_key skip_value pred_table) pred_empty r)"

record formula_slots =
  xf_op :: "string option"
  xf_value :: "oel option"
  xf_lo :: "i64 option"
  xf_hi :: "i64 option"
  xf_off :: "u32 option option"
  xf_width :: "u32 option"
  xf_size :: "u32 option"
  xf_pred :: "predicate_ref option"
  xf_args :: "oel list option"

definition formula_empty :: formula_slots where
  "formula_empty = \<lparr>xf_op = None, xf_value = None, xf_lo = None, xf_hi = None, xf_off = None,
     xf_width = None, xf_size = None, xf_pred = None, xf_args = None\<rparr>"

definition formula_table :: "(string \<times> formula_slots handler) list" where
  "formula_table = [(''op'', fld parse_string (\<lambda>v a. a\<lparr>xf_op := Some v\<rparr>)),
     (''value'', fld parse_oel (\<lambda>v a. a\<lparr>xf_value := Some v\<rparr>)),
     (''lo'', fld json_i64 (\<lambda>v a. a\<lparr>xf_lo := Some v\<rparr>)),
     (''hi'', fld json_i64 (\<lambda>v a. a\<lparr>xf_hi := Some v\<rparr>)),
     (''off'', fld parse_nullable_u32 (\<lambda>v a. a\<lparr>xf_off := Some v\<rparr>)),
     (''width'', fld parse_u32_field (\<lambda>v a. a\<lparr>xf_width := Some v\<rparr>)),
     (''size'', fld parse_u32_field (\<lambda>v a. a\<lparr>xf_size := Some v\<rparr>)),
     (''predicate'', fld parse_predicate_ref (\<lambda>v a. a\<lparr>xf_pred := Some v\<rparr>)),
     (''args'', fld parse_oel_array (\<lambda>v a. a\<lparr>xf_args := Some v\<rparr>))]"

definition formula_done :: "formula_slots \<Rightarrow> formula option" where
  "formula_done a =
    (if xf_op a = Some ''InRange'' then opt3 (xf_value a) (xf_lo a) (xf_hi a) InRange
     else if xf_op a = Some ''OffsetLE'' then opt3 (xf_off a) (xf_width a) (xf_size a) OffsetLE
     else if xf_op a = Some ''PredicateHolds'' then opt2 (xf_pred a) (xf_args a) PredicateHolds
     else None)"

definition parse_formula :: "string \<Rightarrow> jerr + formula \<times> string" where
  "parse_formula r = need formula_done (parse_obj parse_string (match_key skip_value formula_table) formula_empty r)"

subsection \<open>Obligations\<close>

record edge_slots =
  xe_obligation :: "string option"
  xe_module :: "string option"

definition edge_table :: "(string \<times> edge_slots handler) list" where
  "edge_table = [(''obligation'', fld parse_string (\<lambda>v a. a\<lparr>xe_obligation := Some v\<rparr>)),
     (''module'', fld parse_string (\<lambda>v a. a\<lparr>xe_module := Some v\<rparr>))]"

definition edge_done :: "edge_slots \<Rightarrow> assumption_edge option" where
  "edge_done a = opt2 (xe_obligation a) (xe_module a) EdgeObligation"

definition parse_edge :: "string \<Rightarrow> jerr + assumption_edge \<times> string" where
  "parse_edge r =
    (if peek r = Some (CHR 0x22) then
       bindE (parse_string r) (\<lambda>(s, r). if s = ''runtime-check'' then Inr (EdgeRuntimeCheck, r) else Inl JMal)
     else if peek r = Some (CHR ''{'') then
       need edge_done (parse_obj parse_string (match_key skip_value edge_table) \<lparr>xe_obligation = None, xe_module = None\<rparr> r)
     else Inl JMal)"

definition parse_assumptions :: "string \<Rightarrow> jerr + assumption_edge list \<times> string" where
  "parse_assumptions = parse_arr parse_edge"

record cycle_slots =
  xc_index :: "u32 option"
  xc_blocks :: "string list option"

definition cycle_table :: "(string \<times> cycle_slots handler) list" where
  "cycle_table = [(''index'', fld parse_u32_field (\<lambda>v a. a\<lparr>xc_index := Some v\<rparr>)),
     (''blocks'', fld parse_string_array (\<lambda>v a. a\<lparr>xc_blocks := Some v\<rparr>))]"

definition cycle_done :: "cycle_slots \<Rightarrow> cycle option" where
  "cycle_done a = opt2 (xc_index a) (xc_blocks a) (\<lambda>i b. \<lparr>cy_index = i, cy_blocks = b\<rparr>)"

definition parse_cycle :: "string \<Rightarrow> jerr + cycle \<times> string" where
  "parse_cycle r = need cycle_done (parse_obj parse_string (match_key skip_value cycle_table) \<lparr>xc_index = None, xc_blocks = None\<rparr> r)"

definition parse_cycles :: "string \<Rightarrow> jerr + cycle list \<times> string" where
  "parse_cycles = parse_arr parse_cycle"

record span_slots =
  xs_line :: "u32 option"
  xs_col :: "u32 option"

definition span_table :: "(string \<times> span_slots handler) list" where
  "span_table = [(''line'', fld parse_u32_field (\<lambda>v a. a\<lparr>xs_line := Some v\<rparr>)),
     (''col'', fld parse_u32_field (\<lambda>v a. a\<lparr>xs_col := Some v\<rparr>))]"

definition span_done :: "span_slots \<Rightarrow> span_info option" where
  "span_done a = opt2 (xs_line a) (xs_col a) (\<lambda>l c. \<lparr>si_line = l, si_col = c\<rparr>)"

definition parse_span :: "string \<Rightarrow> jerr + span_info \<times> string" where
  "parse_span r = need span_done (parse_obj parse_string (match_key skip_value span_table) \<lparr>xs_line = None, xs_col = None\<rparr> r)"

record site_slots =
  xt_word :: "string option"
  xt_occurrence :: "u32 option"
  xt_span :: "span_info option"

definition site_table :: "(string \<times> site_slots handler) list" where
  "site_table = [(''word'', fld parse_string (\<lambda>v a. a\<lparr>xt_word := Some v\<rparr>)),
     (''occurrence'', fld parse_u32_field (\<lambda>v a. a\<lparr>xt_occurrence := Some v\<rparr>)),
     (''span'', fld parse_span (\<lambda>v a. a\<lparr>xt_span := Some v\<rparr>))]"

definition site_done :: "site_slots \<Rightarrow> site option" where
  "site_done a = opt3 (xt_word a) (xt_occurrence a) (xt_span a)
     (\<lambda>w n s. \<lparr>st_word = w, st_occurrence = n, st_span = s\<rparr>)"

definition parse_site :: "string \<Rightarrow> jerr + site \<times> string" where
  "parse_site r = need site_done
     (parse_obj parse_string (match_key skip_value site_table) \<lparr>xt_word = None, xt_occurrence = None, xt_span = None\<rparr> r)"

record intent_slots =
  xi_label :: "string option"
  xi_subject :: "string option"
  xi_authored :: "bool option"

definition intent_table :: "(string \<times> intent_slots handler) list" where
  "intent_table = [(''label'', fld parse_string (\<lambda>v a. a\<lparr>xi_label := Some v\<rparr>)),
     (''subject'', fld parse_string (\<lambda>v a. a\<lparr>xi_subject := Some v\<rparr>)),
     (''authored'', fld parse_bool (\<lambda>v a. a\<lparr>xi_authored := Some v\<rparr>))]"

definition intent_done :: "intent_slots \<Rightarrow> intent option" where
  "intent_done a = opt3 (xi_label a) (xi_subject a) (xi_authored a)
     (\<lambda>l s b. \<lparr>it_label = l, it_subject = s, it_authored = b\<rparr>)"

definition parse_intent :: "string \<Rightarrow> jerr + intent \<times> string" where
  "parse_intent r = need intent_done
     (parse_obj parse_string (match_key skip_value intent_table) \<lparr>xi_label = None, xi_subject = None, xi_authored = None\<rparr> r)"

text \<open>A \<open>kind\<close> or \<open>provenance\<close> string that is not known empties the slot.\<close>

record obl_slots =
  xb_id :: "string option"
  xb_id_hash :: "string option"
  xb_kind :: "obl_kind option"
  xb_site :: "site option"
  xb_intent :: "intent option"
  xb_formula :: "formula option"
  xb_assumptions :: "assumption_edge list option"
  xb_cycles :: "cycle list option"
  xb_provenance :: "provenance option"

definition obl_empty :: obl_slots where
  "obl_empty = \<lparr>xb_id = None, xb_id_hash = None, xb_kind = None, xb_site = None, xb_intent = None,
     xb_formula = None, xb_assumptions = None, xb_cycles = None, xb_provenance = None\<rparr>"

definition obl_table :: "(string \<times> obl_slots handler) list" where
  "obl_table = [(''id'', fld parse_string (\<lambda>v a. a\<lparr>xb_id := Some v\<rparr>)),
     (''id_hash'', fld parse_string (\<lambda>v a. a\<lparr>xb_id_hash := Some v\<rparr>)),
     (''kind'', fld parse_string (\<lambda>v a. a\<lparr>xb_kind := kind_from_str v\<rparr>)),
     (''site'', fld parse_site (\<lambda>v a. a\<lparr>xb_site := Some v\<rparr>)),
     (''intent'', fld parse_intent (\<lambda>v a. a\<lparr>xb_intent := Some v\<rparr>)),
     (''formula'', fld parse_formula (\<lambda>v a. a\<lparr>xb_formula := Some v\<rparr>)),
     (''assumptions'', fld parse_assumptions (\<lambda>v a. a\<lparr>xb_assumptions := Some v\<rparr>)),
     (''cycles'', fld parse_cycles (\<lambda>v a. a\<lparr>xb_cycles := Some v\<rparr>)),
     (''provenance'', fld parse_string (\<lambda>v a. a\<lparr>xb_provenance := provenance_from_str v\<rparr>))]"

definition obl_done :: "obl_slots \<Rightarrow> obl_rec option" where
  "obl_done a =
    (case (xb_id a, xb_id_hash a, xb_kind a, xb_site a, xb_formula a, xb_assumptions a, xb_provenance a) of
       (Some i, Some h, Some k, Some s, Some f, Some es, Some p) \<Rightarrow>
         Some \<lparr>ob_id = i, ob_id_hash = h, ob_kind = k, ob_site = s,
           ob_intent = (case xb_intent a of Some t \<Rightarrow> t | None \<Rightarrow> default_intent k []),
           ob_formula = f, ob_assumptions = es,
           ob_cycles = (case xb_cycles a of Some c \<Rightarrow> c | None \<Rightarrow> []), ob_provenance = p\<rparr>
     | _ \<Rightarrow> None)"

definition parse_obl :: "string \<Rightarrow> jerr + obl_rec \<times> string" where
  "parse_obl r = need obl_done (parse_obj parse_string (match_key skip_value obl_table) obl_empty r)"

definition parse_obligations :: "string \<Rightarrow> jerr + obl_rec list \<times> string" where
  "parse_obligations = parse_arr parse_obl"

subsection \<open>Facts\<close>

record word_slots =
  xw_name :: "string option"
  xw_net :: "i16 option"
  xw_high :: "u32 option"
  xw_top :: "bool option"
  xw_performs :: "string list option"
  xw_diverge_free :: "bool option"
  xw_blocks :: "u32 option"
  xw_ir :: "string option"

definition word_empty :: word_slots where
  "word_empty = \<lparr>xw_name = None, xw_net = None, xw_high = None, xw_top = None, xw_performs = None,
     xw_diverge_free = None, xw_blocks = None, xw_ir = None\<rparr>"

definition word_table :: "(string \<times> word_slots handler) list" where
  "word_table = [(''name'', fld parse_string (\<lambda>v a. a\<lparr>xw_name := Some v\<rparr>)),
     (''net'', fld parse_i16_field (\<lambda>v a. a\<lparr>xw_net := Some v\<rparr>)),
     (''high'', fld parse_u32_field (\<lambda>v a. a\<lparr>xw_high := Some v\<rparr>)),
     (''top'', fld parse_bool (\<lambda>v a. a\<lparr>xw_top := Some v\<rparr>)),
     (''performs'', fld parse_string_array (\<lambda>v a. a\<lparr>xw_performs := Some v\<rparr>)),
     (''diverge_free'', fld parse_bool (\<lambda>v a. a\<lparr>xw_diverge_free := Some v\<rparr>)),
     (''blocks'', fld parse_u32_field (\<lambda>v a. a\<lparr>xw_blocks := Some v\<rparr>)),
     (''ir'', fld parse_string (\<lambda>v a. a\<lparr>xw_ir := Some v\<rparr>))]"

definition word_done :: "word_slots \<Rightarrow> word_fact option" where
  "word_done a =
    (case (xw_name a, xw_net a, xw_high a, xw_top a, xw_performs a, xw_diverge_free a) of
       (Some n, Some d, Some h, Some t, Some p, Some df) \<Rightarrow>
         Some \<lparr>wf_name = n, wf_net = d, wf_high = h, wf_top = t, wf_performs = p, wf_diverge_free = df,
           wf_ir = (case xw_ir a of Some s \<Rightarrow> s | None \<Rightarrow> []),
           wf_blocks = (case xw_blocks a of Some b \<Rightarrow> b | None \<Rightarrow> 0)\<rparr>
     | _ \<Rightarrow> None)"

definition parse_word_fact :: "string \<Rightarrow> jerr + word_fact \<times> string" where
  "parse_word_fact r = need word_done (parse_obj parse_string (match_key skip_value word_table) word_empty r)"

definition parse_word_facts :: "string \<Rightarrow> jerr + word_fact list \<times> string" where
  "parse_word_facts = parse_arr parse_word_fact"

record subtype_slots =
  xu_name :: "string option"
  xu_lo :: "i64 option"
  xu_hi :: "i64 option"

definition subtype_table :: "(string \<times> subtype_slots handler) list" where
  "subtype_table = [(''name'', fld parse_string (\<lambda>v a. a\<lparr>xu_name := Some v\<rparr>)),
     (''lo'', fld json_i64 (\<lambda>v a. a\<lparr>xu_lo := Some v\<rparr>)),
     (''hi'', fld json_i64 (\<lambda>v a. a\<lparr>xu_hi := Some v\<rparr>))]"

definition subtype_done :: "subtype_slots \<Rightarrow> subtype_fact option" where
  "subtype_done a = opt3 (xu_name a) (xu_lo a) (xu_hi a) (\<lambda>n l h. \<lparr>sf_name = n, sf_lo = l, sf_hi = h\<rparr>)"

definition parse_subtype_fact :: "string \<Rightarrow> jerr + subtype_fact \<times> string" where
  "parse_subtype_fact r = need subtype_done
     (parse_obj parse_string (match_key skip_value subtype_table) \<lparr>xu_name = None, xu_lo = None, xu_hi = None\<rparr> r)"

definition parse_subtype_facts :: "string \<Rightarrow> jerr + subtype_fact list \<times> string" where
  "parse_subtype_facts = parse_arr parse_subtype_fact"

record predfact_slots =
  xq_name :: "string option"
  xq_ir :: "string list option"
  xq_ir_hash :: "string option"

definition predfact_table :: "(string \<times> predfact_slots handler) list" where
  "predfact_table = [(''name'', fld parse_string (\<lambda>v a. a\<lparr>xq_name := Some v\<rparr>)),
     (''ir'', fld parse_string_array (\<lambda>v a. a\<lparr>xq_ir := Some v\<rparr>)),
     (''ir_hash'', fld parse_string (\<lambda>v a. a\<lparr>xq_ir_hash := Some v\<rparr>))]"

definition predfact_done :: "predfact_slots \<Rightarrow> predicate_fact option" where
  "predfact_done a = opt3 (xq_name a) (xq_ir a) (xq_ir_hash a) (\<lambda>n i h. \<lparr>pf_name = n, pf_ir = i, pf_ir_hash = h\<rparr>)"

definition parse_predicate_fact :: "string \<Rightarrow> jerr + predicate_fact \<times> string" where
  "parse_predicate_fact r = need predfact_done
     (parse_obj parse_string (match_key skip_value predfact_table) \<lparr>xq_name = None, xq_ir = None, xq_ir_hash = None\<rparr> r)"

definition parse_predicate_facts :: "string \<Rightarrow> jerr + predicate_fact list \<times> string" where
  "parse_predicate_facts = parse_arr parse_predicate_fact"

record facts_slots =
  xa_words :: "word_fact list option"
  xa_subtypes :: "subtype_fact list option"
  xa_predicates :: "predicate_fact list option"

definition facts_table :: "(string \<times> facts_slots handler) list" where
  "facts_table = [(''words'', fld parse_word_facts (\<lambda>v a. a\<lparr>xa_words := Some v\<rparr>)),
     (''subtypes'', fld parse_subtype_facts (\<lambda>v a. a\<lparr>xa_subtypes := Some v\<rparr>)),
     (''predicates'', fld parse_predicate_facts (\<lambda>v a. a\<lparr>xa_predicates := Some v\<rparr>))]"

definition facts_done :: "facts_slots \<Rightarrow> facts option" where
  "facts_done a = opt2 (xa_words a) (xa_subtypes a)
     (\<lambda>w s. \<lparr>fa_words = w, fa_subtypes = s, fa_predicates = (case xa_predicates a of Some p \<Rightarrow> p | None \<Rightarrow> [])\<rparr>)"

definition parse_facts :: "string \<Rightarrow> jerr + facts \<times> string" where
  "parse_facts r = need facts_done
     (parse_obj parse_string (match_key skip_value facts_table) \<lparr>xa_words = None, xa_subtypes = None, xa_predicates = None\<rparr> r)"

subsection \<open>The document\<close>

record doc_slots =
  xd_schema :: "string option"
  xd_semantics :: "string option"
  xd_stmt :: "string option"
  xd_module :: "string option"
  xd_target :: "string option"
  xd_platform :: "string option"
  xd_model_semantics :: "string option"
  xd_concurrency :: "string option"
  xd_abi :: "u32 option"
  xd_facts :: "facts option"
  xd_obligations :: "obl_rec list option"

definition doc_empty :: doc_slots where
  "doc_empty = \<lparr>xd_schema = None, xd_semantics = None, xd_stmt = None, xd_module = None, xd_target = None,
     xd_platform = None, xd_model_semantics = None, xd_concurrency = None, xd_abi = None,
     xd_facts = None, xd_obligations = None\<rparr>"

definition doc_table :: "(string \<times> doc_slots handler) list" where
  "doc_table = [(''schema'', fld parse_string (\<lambda>v a. a\<lparr>xd_schema := Some v\<rparr>)),
     (''semantics'', fld parse_string (\<lambda>v a. a\<lparr>xd_semantics := Some v\<rparr>)),
     (''stmt'', fld parse_string (\<lambda>v a. a\<lparr>xd_stmt := Some v\<rparr>)),
     (''module'', fld parse_string (\<lambda>v a. a\<lparr>xd_module := Some v\<rparr>)),
     (''target'', fld parse_string (\<lambda>v a. a\<lparr>xd_target := Some v\<rparr>)),
     (''platform'', fld parse_string (\<lambda>v a. a\<lparr>xd_platform := Some v\<rparr>)),
     (''model_semantics'', fld parse_string (\<lambda>v a. a\<lparr>xd_model_semantics := Some v\<rparr>)),
     (''concurrency'', fld parse_string (\<lambda>v a. a\<lparr>xd_concurrency := Some v\<rparr>)),
     (''abi_contract_version'', fld parse_u32_field (\<lambda>v a. a\<lparr>xd_abi := Some v\<rparr>)),
     (''facts'', fld parse_facts (\<lambda>v a. a\<lparr>xd_facts := Some v\<rparr>)),
     (''obligations'', fld parse_obligations (\<lambda>v a. a\<lparr>xd_obligations := Some v\<rparr>))]"

definition default_to :: "'a \<Rightarrow> 'a option \<Rightarrow> 'a" where
  "default_to d x = (case x of Some v \<Rightarrow> v | None \<Rightarrow> d)"

definition doc_done :: "doc_slots \<Rightarrow> obl_set option" where
  "doc_done a =
    (case (xd_schema a, xd_semantics a, xd_module a, xd_abi a, xd_facts a, xd_obligations a) of
       (Some sc, Some sem, Some m, Some abi, Some f, Some obs) \<Rightarrow>
         Some \<lparr>os_schema = sc, os_semantics = sem, os_stmt = default_to STMT_SCHEMA (xd_stmt a),
           os_module = m, os_target = default_to [] (xd_target a), os_platform = default_to [] (xd_platform a),
           os_model_semantics = default_to MODEL_UNMODELED (xd_model_semantics a),
           os_concurrency = default_to CONCURRENCY_UNMODELED (xd_concurrency a),
           os_abi = abi, os_facts = f, os_obligations = obs\<rparr>
     | _ \<Rightarrow> None)"

definition parse_doc :: "string \<Rightarrow> jerr + obl_set \<times> string" where
  "parse_doc r = need doc_done (parse_obj parse_string (match_key skip_value doc_table) doc_empty r)"

fun codec_err :: "jerr \<Rightarrow> codec_error" where
  "codec_err JMal = CMalformed"
| "codec_err JFuel = CFuel"
| "codec_err (JUnknown _ _) = CMalformed"

definition read_obl :: "string \<Rightarrow> codec_error + obl_set" where
  "read_obl bs =
    (if OBL_ARTIFACT_MAX_BYTES < length bs then Inl (CTooLarge (length bs))
     else (case parse_doc bs of
        Inl e \<Rightarrow> Inl (codec_err e)
      | Inr (s, _) \<Rightarrow>
          if os_schema s \<noteq> OBL_SCHEMA then Inl (CSchemaVersion (os_schema s))
          else if os_semantics s \<noteq> SEMANTICS_VERSION then Inl (CSemanticsMismatch (os_semantics s))
          else Inr s))"

end
