(* ===== verification/JsonRt.thy ===== *)
theory JsonRt
  imports Json
begin

text \<open>
  What the JSON writer emits the reader reads back: strings, integers, booleans, and the
  member and element loops on comma-separated output. Every primitive and every loop
  consumes input, so the fuel is never used up.
\<close>

section \<open>Reading back\<close>

text \<open>The text after a value never starts with a digit.\<close>

definition follow :: "string \<Rightarrow> bool" where
  "follow r \<longleftrightarrow> (\<forall>c r'. r = c # r' \<longrightarrow> \<not> is_digit c)"

definition reads :: "(string \<Rightarrow> jerr + 'a \<times> string) \<Rightarrow> string \<Rightarrow> 'a \<Rightarrow> bool" where
  "reads p s x \<longleftrightarrow> (\<forall>r. follow r \<longrightarrow> p (s @ r) = Inr (x, r))"

named_theorems reads_intro

lemma readsD: "reads p s x \<Longrightarrow> follow r \<Longrightarrow> p (s @ r) = Inr (x, r)"
  by (simp add: reads_def)

lemma follow_simps [simp]:
  "follow []" "follow (CHR '','' # r)" "follow (CHR ''}'' # r)" "follow (CHR '']'' # r)" "follow (CHR 0x22 # r)"
  by (simp_all add: follow_def is_digit_def)

lemma skip_ws_simps [simp]:
  "skip_ws (CHR 0x22 # r) = CHR 0x22 # r" "skip_ws (CHR ''{'' # r) = CHR ''{'' # r"
  "skip_ws (CHR ''}'' # r) = CHR ''}'' # r" "skip_ws (CHR ''['' # r) = CHR ''['' # r"
  "skip_ws (CHR '']'' # r) = CHR '']'' # r" "skip_ws (CHR '','' # r) = CHR '','' # r"
  "skip_ws (CHR '':'' # r) = CHR '':'' # r" "skip_ws (CHR ''-'' # r) = CHR ''-'' # r"
  by simp_all

lemma skip_ws_digit: "is_digit c \<Longrightarrow> skip_ws (c # r) = c # r"
  by (auto simp: is_digit_def)

lemma expect_same [simp]: "skip_ws (c # r) = c # r \<Longrightarrow> expect c (c # r) = Inr r"
  by (simp add: expect_def bump_def)

subsection \<open>Strings\<close>

lemma nat_less_16: "n < 16 \<Longrightarrow> n \<in> {0, 1, 2, 3, 4, 5, 6, 7, 8, 9, 10, 11, 12, 13, 14, 15 :: nat}"
  by simp presburger

lemma hex_val_lower: "d < 16 \<Longrightarrow> hex_val (hex_lower d) = Some d"
  by (drule nat_less_16) (elim insertE; simp add: hex_lower_def hex_val_def in_range_c_def)

lemma of_char_less: "(of_char c :: nat) < 256"
  by (metis char_of_char of_char_of mod_less_divisor zero_less_numeral)

lemma hex4_format: "parse_hex4 (CHR ''0'' # CHR ''0'' # format_hex2 b @ r) = Some (of_char b)"
proof -
  have d: "(of_char b :: nat) div 16 < 16" using of_char_less [of b] by (simp add: less_mult_imp_div_less)
  have z: "hex_val (CHR ''0'') = Some 0" by (simp add: hex_val_def in_range_c_def)
  show ?thesis
    by (simp add: parse_hex4_def format_hex2_def hex_val_lower [OF d] hex_val_lower z)
qed

definition raw_char :: "char \<Rightarrow> bool" where
  "raw_char c \<longleftrightarrow> c \<noteq> CHR 0x22 \<and> c \<noteq> CHR 0x5C \<and> 0x20 \<le> (of_char c :: nat)"

lemma escape_raw: "raw_char c \<Longrightarrow> escape c = [c]"
  by (auto simp: raw_char_def escape_def)

lemma parse_escaped:
  assumes "\<not> raw_char c"
  shows "parse_chars out (escape c @ r) = parse_chars (out @ [c]) r"
proof (cases "c \<in> {CHR 0x22, CHR 0x5C, CHR 0x08, CHR 0x0C, CHR 0x0A, CHR 0x0D, CHR 0x09}")
  case True
  then show ?thesis by (elim insertE) (simp_all add: escape_def unescape_def)
next
  case False
  then have l: "(of_char c :: nat) \<le> 0x1F" "(of_char c :: nat) < 0x20" using assms by (auto simp: raw_char_def)
  have e: "utf8_encode (of_char c) = Some [c]" using l by (simp add: utf8_encode_def)
  have "drop 4 (CHR ''0'' # CHR ''0'' # format_hex2 c @ r) = r" by (simp add: format_hex2_def)
  then show ?thesis
    using False l e hex4_format [of c r] by (simp add: escape_def unescape_def)
qed

declare parse_chars.simps [simp del]

lemma not_raw_len: "\<not> raw_char c \<Longrightarrow> utf8_seq_len c = 1"
  by (auto simp: raw_char_def utf8_seq_len_def Let_def)

lemma cont_raw: "in_range_c 0x80 hi b \<Longrightarrow> raw_char b" "in_range_c 0x90 hi b \<Longrightarrow> raw_char b" "in_range_c 0xA0 hi b \<Longrightarrow> raw_char b"
  by (auto simp: in_range_c_def raw_char_def)

lemma seq_tail_raw:
  assumes "utf8_seq (c # s)"
  shows "\<forall>b \<in> set s. raw_char b"
  using assms by (auto simp: utf8_seq_def cont_raw split: list.splits if_splits)

lemma map_escape_raw: "\<forall>b \<in> set s. raw_char b \<Longrightarrow> concat (map escape s) = s"
  by (induction s) (auto simp: escape_raw)

lemma parse_chars_escaped:
  "is_utf8 s \<Longrightarrow> parse_chars out (concat (map escape s) @ CHR 0x22 # r) = Inr (out @ s, r)"
proof (induction s arbitrary: out rule: is_utf8.induct)
  case (2 c s)
  let ?n = "utf8_seq_len c"
  have n: "?n \<noteq> 0" "?n \<le> length (c # s)" "utf8_seq (take ?n (c # s))" "is_utf8 (drop ?n (c # s))"
    using "2.prems" by (simp_all add: Let_def split: if_splits)
  note IH = "2.IH" [OF refl _ n(3,4)]
  show ?case
  proof (cases "raw_char c")
    case False
    then show ?thesis using IH [of "out @ [c]"] not_raw_len n(2) by (simp add: parse_escaped)
  next
    case True
    obtain m where m: "?n = Suc m" using n(1) by (cases ?n) auto
    have raw: "\<forall>b \<in> set (take ?n (c # s)). raw_char b"
      using True seq_tail_raw [of c "take m s"] n(3) by (simp add: m)
    have "concat (map escape (c # s)) = concat (map escape (take ?n (c # s) @ drop ?n (c # s)))" by simp
    also have "\<dots> = take ?n (c # s) @ concat (map escape (drop ?n (c # s)))"
      using map_escape_raw [OF raw] by (simp only: map_append concat_append)
    finally have e: "concat (map escape (c # s)) = c # take m s @ concat (map escape (drop m s))" by (simp add: m)
    let ?rest = "take m s @ concat (map escape (drop m s)) @ CHR 0x22 # r"
    have t: "take ?n (c # ?rest) = take ?n (c # s)" "drop ?n (c # ?rest) = concat (map escape (drop m s)) @ CHR 0x22 # r"
      using n(2) by (simp_all add: m)
    have "parse_chars out (c # ?rest) = parse_chars (out @ take ?n (c # s)) (concat (map escape (drop m s)) @ CHR 0x22 # r)"
      using True n t by (simp add: parse_chars.simps raw_char_def Let_def m)
    also have "\<dots> = Inr ((out @ take ?n (c # s)) @ drop m s, r)"
      using IH [of "out @ take ?n (c # s)"] n(2) by (simp add: m)
    finally show ?thesis using e by (simp add: m)
  qed
qed (simp add: parse_chars.simps)

lemma read_str [reads_intro]: "is_utf8 s \<Longrightarrow> reads parse_string (write_str s) s"
  by (simp add: reads_def parse_string_def write_str_def bump_def parse_chars_escaped)

subsection \<open>Integers and booleans\<close>

lemma digit_val_bounds: "is_digit c \<Longrightarrow> 0 \<le> (of_char c :: int) - 48 \<and> (of_char c :: int) - 48 \<le> 9"
  by (simp add: is_digit_def)

abbreviation digits_from :: "int \<Rightarrow> string \<Rightarrow> int" where
  "digits_from v ds \<equiv> foldl (\<lambda>v c. v * 10 + (of_char c - 48)) v ds"

lemma digits_from_ge: "list_all is_digit ds \<Longrightarrow> 0 \<le> v \<Longrightarrow> v \<le> digits_from v ds"
proof (induction ds arbitrary: v)
  case (Cons c ds)
  have "0 \<le> (of_char c :: int) - 48" using Cons.prems digit_val_bounds by simp
  then show ?case using Cons.IH [of "v * 10 + (of_char c - 48)"] Cons.prems by simp
qed simp

lemma digit_run_digits:
  "list_all is_digit ds \<Longrightarrow> follow r \<Longrightarrow> 0 \<le> v \<Longrightarrow> digits_from v ds \<le> hi \<Longrightarrow>
    digit_run hi v n (ds @ r) = Inr ((digits_from v ds, n + length ds), r)"
proof (induction ds arbitrary: v n)
  case Nil
  then show ?case by (cases r) (simp_all add: follow_def)
next
  case (Cons c ds)
  have d: "0 \<le> (of_char c :: int) - 48" using Cons.prems digit_val_bounds by simp
  then have "v * 10 + (of_char c - 48) \<le> digits_from (v * 10 + (of_char c - 48)) ds"
    using Cons.prems by (intro digits_from_ge) simp_all
  then show ?case using Cons d by simp
qed

definition decimal :: "int \<Rightarrow> string" where
  "decimal v = (if v = 0 then ''0'' else rev (digit_loop 20 10 v))"

lemma decimal_props:
  assumes "0 \<le> v" "v < 10 ^ 20"
  shows "list_all is_digit (decimal v)" "decimal v \<noteq> []" "digits_from 0 (decimal v) = v"
proof -
  show "list_all is_digit (decimal v)"
    using digit_loop_digits by (simp add: decimal_def list_all_rev) (simp add: is_digit_def)
  show "decimal v \<noteq> []" using digit_loop_nonempty [of v 19] assms(1) by (simp add: decimal_def)
  show "digits_from 0 (decimal v) = v"
    using digit_loop_value [of v 20] assms by (simp add: decimal_def digits_value_def)
qed

lemma push_decimal: "v \<noteq> i64_min \<Longrightarrow> push_i64_json v = (if v < 0 then ''-'' else '''') @ decimal \<bar>v\<bar>"
  by (simp add: push_i64_json_def decimal_def)

lemma decimal_run:
  assumes "0 \<le> v" "v < 10 ^ 20" "v \<le> hi" "follow r"
  shows "digit_run hi 0 0 (decimal v @ r) = Inr ((v, length (decimal v)), r)" "length (decimal v) \<noteq> 0"
    "skip_ws (decimal v @ r) = decimal v @ r" "peek (decimal v @ r) \<noteq> Some (CHR ''-'')"
proof -
  note d = decimal_props [OF assms(1,2)]
  show "digit_run hi 0 0 (decimal v @ r) = Inr ((v, length (decimal v)), r)"
    using digit_run_digits [OF d(1) assms(4), of 0 hi 0] d(3) assms(3) by simp
  show "length (decimal v) \<noteq> 0" using d(2) by simp
  obtain c cs where c: "decimal v = c # cs" using d(2) by (cases "decimal v") auto
  then have "is_digit c" using d(1) by simp
  then show "skip_ws (decimal v @ r) = decimal v @ r" "peek (decimal v @ r) \<noteq> Some (CHR ''-'')"
    by (auto simp: c skip_ws_digit peek_def is_digit_def)
qed

text \<open>Every i64 but the least one: its magnitude does not fit the accumulator.\<close>

lemma read_i64 [reads_intro]:
  assumes "in_i64 v" "v \<noteq> i64_min"
  shows "reads json_i64 (push_i64_json v) v"
  unfolding reads_def
proof (intro allI impI)
  fix r assume r: "follow r"
  have b: "0 \<le> \<bar>v\<bar>" "\<bar>v\<bar> < 10 ^ 20" "\<bar>v\<bar> \<le> i64_max" using assms by (auto simp: in_i64_def i64_simps)
  note d = decimal_run [OF b r]
  show "json_i64 (push_i64_json v @ r) = Inr (v, r)"
    using d assms(2) by (cases "v < 0") (simp_all add: json_i64_def push_decimal Let_def peek_def)
qed

lemma i64_min_not_read: "json_i64 (push_i64_json i64_min @ r) = Inl JMal"
  by (simp add: push_i64_json_def json_i64_def peek_def is_digit_def i64_simps)

lemma read_u64 [reads_intro]:
  assumes "0 \<le> v" "v \<le> i64_max"
  shows "reads parse_u64 (push_i64_json v) v"
  unfolding reads_def
proof (intro allI impI)
  fix r assume r: "follow r"
  have b: "0 \<le> v" "v < 10 ^ 20" "v \<le> 2 ^ 64 - 1" using assms by (auto simp: i64_simps)
  have "v \<noteq> i64_min" using assms by (auto simp: i64_simps)
  then show "parse_u64 (push_i64_json v @ r) = Inr (v, r)"
    using decimal_run [OF b r] assms by (simp add: parse_u64_def push_decimal)
qed

lemma read_u32 [reads_intro]: "reads parse_u32_field (push_i64_json (uint v)) v"
proof -
  have "reads parse_u64 (push_i64_json (uint v)) (uint v)"
    using uint_u32_bounds [of v] by (intro read_u64) (simp_all add: i64_simps)
  then show ?thesis by (simp add: reads_def parse_u32_field_def)
qed

definition in_i16 :: "int \<Rightarrow> bool" where "in_i16 v \<longleftrightarrow> - (2 ^ 15) \<le> v \<and> v < 2 ^ 15"

lemma read_i16 [reads_intro]: "in_i16 v \<Longrightarrow> reads parse_i16_field (push_i64_json v) v"
proof -
  assume v: "in_i16 v"
  then have "reads json_i64 (push_i64_json v) v"
    by (intro read_i64) (auto simp: in_i16_def in_i64_def i64_simps)
  moreover have "wrap_i16 v = v" using v by (simp add: wrap_i16_def in_i16_def)
  ultimately show ?thesis by (simp add: reads_def parse_i16_field_def)
qed

lemma read_bool [reads_intro]: "reads parse_bool (write_bool b) b"
  by (cases b) (simp_all add: reads_def parse_bool_def write_bool_def)

subsection \<open>Objects and arrays\<close>

text \<open>A key that is written as it is.\<close>

definition plain :: "string \<Rightarrow> bool" where
  "plain k \<longleftrightarrow> list_all (\<lambda>c. raw_char c \<and> (of_char c :: nat) \<le> 0x7F) k \<and> length k \<le> 512"

lemma plain_utf8: "plain k \<Longrightarrow> is_utf8 k \<and> concat (map escape k) = k"
  by (induction k) (auto simp: plain_def utf8_seq_len_def utf8_seq_def in_range_c_def escape_raw)

lemma plain_write: "plain k \<Longrightarrow> write_str k = [CHR 0x22] @ k @ [CHR 0x22]"
  using plain_utf8 [of k] by (simp add: write_str_def)

text \<open>Reading the members \<open>ms\<close> takes the accumulator from \<open>acc\<close> to \<open>acc'\<close>.\<close>

inductive obj_reads :: "(string \<Rightarrow> 'a handler) \<Rightarrow> (string \<times> string) list \<Rightarrow> 'a \<Rightarrow> 'a \<Rightarrow> bool" for f where
  obj_reads_Nil: "obj_reads f [] acc acc"
| obj_reads_Cons: "plain k \<Longrightarrow> (\<And>r. follow r \<Longrightarrow> f k acc (v @ r) = Inr (acc2, r)) \<Longrightarrow>
    obj_reads f ms acc2 acc3 \<Longrightarrow> obj_reads f ((k, v) # ms) acc acc3"

abbreviation members :: "(string \<times> string) list \<Rightarrow> string list" where
  "members ms \<equiv> map (\<lambda>(k, v). member k v) ms"

lemma member_ws [simp]: "skip_ws (member k v @ t) = member k v @ t" "peek (member k v @ t) = Some (CHR 0x22)"
  by (simp_all add: member_def peek_def)

lemma length_members: "length ms \<le> length (comma_sep (members ms))"
proof -
  have "length ms \<le> length (concat (map (\<lambda>y. CHR '','' # y) (members ms)))" for ms :: "(string \<times> string) list"
    by (induction ms) auto
  from this [of "tl ms"] show ?thesis by (cases ms) (auto simp: member_def)
qed

text \<open>A known key: its handler, its reader on the written value and the new accumulator.\<close>

lemma fld_reads: "reads p v x \<Longrightarrow> follow r \<Longrightarrow> fld p g acc (v @ r) = Inr (g x acc, r)"
  by (simp add: fld_def readsD)

text \<open>The readers of keys and of skipped values, as an object reader needs them. A plain key
  is at most 512 bytes: the verdict reader caps its strings.\<close>

locale json_read =
  fixes ps :: "string \<Rightarrow> jerr + string \<times> string"
    and sk :: "string \<Rightarrow> jerr + unit \<times> string"
  assumes read_key: "plain k \<Longrightarrow> ps (CHR 0x22 # k @ CHR 0x22 # r) = Inr (k, r)"
begin

lemma obj_step:
  assumes "plain k" "f k acc (v @ r) = Inr (acc2, r)"
  shows "bindE (ps (member k v @ r)) (\<lambda>(key, r). bindE (expect (CHR '':'') r) (\<lambda>r.
       bindE (f key acc r) h)) = h (acc2, r)"
  using assms by (simp add: member_def read_key)

lemma obj_loop_tail:
  "obj_reads f ms acc acc2 \<Longrightarrow> length ms < n \<Longrightarrow>
    obj_loop ps n f acc (concat (map (\<lambda>y. CHR '','' # y) (members ms)) @ CHR ''}'' # r) = Inr (acc2, r)"
proof (induction ms acc acc2 arbitrary: n rule: obj_reads.induct)
  case (obj_reads_Nil acc)
  then show ?case by (cases n) (simp_all add: peek_def)
next
  case (obj_reads_Cons k acc v acc2 ms acc3)
  obtain m where n: "n = Suc m" using obj_reads_Cons.prems by (cases n) auto
  define t where "t = concat (map (\<lambda>y. CHR '','' # y) (members ms)) @ CHR ''}'' # r"
  have "follow t" unfolding t_def by (cases ms) (simp_all add: split_beta)
  then have s: "f k acc (v @ t) = Inr (acc2, t)" by (rule obj_reads_Cons.hyps(2))
  have "obj_loop ps (Suc m) f acc (CHR '','' # member k v @ t) = obj_loop ps m f acc2 t"
    by (simp add: peek_def obj_step [OF obj_reads_Cons.hyps(1), where f = f, OF s])
  also have "\<dots> = Inr (acc3, r)" unfolding t_def using obj_reads_Cons.IH obj_reads_Cons.prems n by simp
  finally show ?case by (simp add: n t_def)
qed

lemma obj_loop_fields:
  assumes "obj_reads f ms acc acc2" "length ms < n"
  shows "obj_loop ps n f acc (comma_sep (members ms) @ CHR ''}'' # r) = Inr (acc2, r)"
  using assms(1)
proof cases
  case obj_reads_Nil
  then show ?thesis using assms(2) by (cases n) (simp_all add: peek_def)
next
  case (obj_reads_Cons k v acc1 ms')
  obtain m where n: "n = Suc m" using assms(2) by (cases n) auto
  define t where "t = concat (map (\<lambda>y. CHR '','' # y) (members ms')) @ CHR ''}'' # r"
  have "follow t" unfolding t_def by (cases ms') (simp_all add: split_beta)
  then have s: "f k acc (v @ t) = Inr (acc1, t)" by (rule obj_reads_Cons(3))
  have "obj_loop ps (Suc m) f acc (member k v @ t) = obj_loop ps m f acc1 t"
    by (simp add: obj_step [OF obj_reads_Cons(2), where f = f, OF s])
  also have "\<dots> = Inr (acc2, r)"
    unfolding t_def using obj_loop_tail [OF obj_reads_Cons(4), of m r] assms(2) n obj_reads_Cons(1) by simp
  finally show ?thesis by (simp add: n t_def obj_reads_Cons(1))
qed

lemma read_obj:
  assumes "obj_reads f ms acc acc2"
  shows "parse_obj ps f acc (obj_text ms @ r) = Inr (acc2, r)"
proof -
  have "length ms < Suc (length (comma_sep (members ms) @ CHR ''}'' # r))" using length_members [of ms] by simp
  from obj_loop_fields [OF assms this] show ?thesis by (simp add: parse_obj_def obj_text_def del: obj_loop.simps)
qed

lemma obj_reads_match:
  assumes "plain k" "map_of tbl k = Some (fld p g)" "reads p v x" "obj_reads (match_key sk tbl) ms (g x acc) acc2"
  shows "obj_reads (match_key sk tbl) ((k, v) # ms) acc acc2"
  using assms by (auto intro!: obj_reads_Cons simp: match_key_def fld_reads)

end

text \<open>A text that starts like a string or an object: what an element loop can tell from its end.\<close>

definition value_start :: "string \<Rightarrow> bool" where
  "value_start s \<longleftrightarrow> (\<exists>t. s = CHR 0x22 # t \<or> s = CHR ''{'' # t)"

lemma value_start_simps [simp]:
  "value_start (CHR 0x22 # t)" "value_start (CHR ''{'' # t)" "value_start (write_str s)" "value_start (obj_text fs)"
  by (simp_all add: value_start_def write_str_def obj_text_def)

lemma value_startD:
  assumes "value_start s"
  shows "skip_ws (s @ t) = s @ t" "peek (s @ t) \<noteq> Some (CHR '']'')" "peek (s @ t) \<noteq> Some (CHR '','')"
  using assms by (auto simp: value_start_def peek_def)

lemma arr_loop_tail:
  "\<forall>x \<in> set xs. reads p (w x) x \<and> value_start (w x) \<Longrightarrow> length xs < n \<Longrightarrow>
    arr_loop n p out (concat (map (\<lambda>y. CHR '','' # y) (map w xs)) @ CHR '']'' # r) = Inr (out @ xs, r)"
proof (induction xs arbitrary: n out)
  case Nil
  then show ?case by (cases n) (simp_all add: peek_def)
next
  case (Cons x xs)
  obtain m where n: "n = Suc m" using Cons.prems(2) by (cases n) auto
  let ?t = "concat (map (\<lambda>y. CHR '','' # y) (map w xs)) @ CHR '']'' # r"
  have f: "follow ?t" by (cases xs) simp_all
  have p: "p (w x @ ?t) = Inr (x, ?t)" using Cons.prems(1) by (intro readsD [OF _ f]) simp
  have v: "value_start (w x)" using Cons.prems(1) by simp
  have c: "peek (CHR '','' # w x @ ?t) = Some (CHR '','')" by (simp add: peek_def)
  have "arr_loop (Suc m) p out (CHR '','' # w x @ ?t) = arr_loop m p (out @ [x]) ?t"
    using p c value_startD [OF v, of ?t] by simp
  also have "\<dots> = Inr ((out @ [x]) @ xs, r)" using Cons.IH Cons.prems n by simp
  finally show ?case by (simp add: n)
qed

lemma read_arr:
  assumes "\<forall>x \<in> set xs. reads p (w x) x \<and> value_start (w x)"
  shows "reads (parse_arr p) (arr_text w xs) xs"
  unfolding reads_def
proof (intro allI impI)
  fix r assume "follow r"
  have len: "length ys \<le> length (concat (map (\<lambda>y. CHR '','' # y) (map w ys)))" for ys by (induction ys) auto
  show "parse_arr p (arr_text w xs @ r) = Inr (xs, r)"
  proof (cases xs)
    case Nil
    then show ?thesis by (simp add: parse_arr_def arr_text_def peek_def)
  next
    case (Cons x xs')
    let ?t = "concat (map (\<lambda>y. CHR '','' # y) (map w xs')) @ CHR '']'' # r"
    have f: "follow ?t" by (cases xs') simp_all
    have p: "p (w x @ ?t) = Inr (x, ?t)" using assms Cons by (intro readsD [OF _ f]) simp
    have v: "value_start (w x)" using assms Cons by simp
    let ?n = "length (w x @ ?t)"
    have "length xs' < ?n" using len [of xs'] by simp
    then have "arr_loop ?n p ([] @ [x]) ?t = Inr (([] @ [x]) @ xs', r)"
      using assms Cons by (intro arr_loop_tail) simp_all
    then have "arr_loop (Suc ?n) p [] (w x @ ?t) = Inr (xs, r)"
      using p value_startD [OF v, of ?t] Cons by simp
    then show ?thesis using Cons by (simp add: parse_arr_def arr_text_def del: arr_loop.simps)
  qed
qed

lemma read_string_array [reads_intro]:
  "\<forall>s \<in> set ss. is_utf8 s \<Longrightarrow> reads parse_string_array (arr_text write_str ss) ss"
  unfolding parse_string_array_def by (intro read_arr) (simp add: read_str)

section \<open>Every reader consumes input\<close>

text \<open>On success a reader leaves a shorter rest, and on input up to \<open>n\<close> characters it never
  runs out of fuel.\<close>

definition eats :: "nat \<Rightarrow> (string \<Rightarrow> jerr + 'a \<times> string) \<Rightarrow> bool" where
  "eats n p \<longleftrightarrow> (\<forall>r. length r \<le> n \<longrightarrow> p r \<noteq> Inl JFuel \<and> (\<forall>x r'. p r = Inr (x, r') \<longrightarrow> length r' < length r))"

named_theorems eats_intro

lemma eatsD: "eats n p \<Longrightarrow> length r \<le> n \<Longrightarrow> p r = Inr (x, r') \<Longrightarrow> length r' < length r"
  "eats n p \<Longrightarrow> length r \<le> n \<Longrightarrow> p r \<noteq> Inl JFuel"
  by (auto simp: eats_def)

lemma eatsI:
  "(\<And>r. length r \<le> n \<Longrightarrow> p r \<noteq> Inl JFuel) \<Longrightarrow>
    (\<And>r x r'. length r \<le> n \<Longrightarrow> p r = Inr (x, r') \<Longrightarrow> length r' < length r) \<Longrightarrow> eats n p"
  by (auto simp: eats_def)

lemma eats_mono: "eats n p \<Longrightarrow> m \<le> n \<Longrightarrow> eats m p"
  by (auto simp: eats_def)

lemma skip_ws_length: "length (skip_ws r) \<le> length r" by (induction r) auto

lemma bindE_fuel: "bindE m f = Inl JFuel \<longleftrightarrow> m = Inl JFuel \<or> (\<exists>x. m = Inr x \<and> f x = Inl JFuel)"
  by (cases m) auto

lemma peek_Some: "peek r = Some c \<longleftrightarrow> (\<exists>r'. r = c # r')" "peek r = None \<longleftrightarrow> r = []"
  by (auto simp: peek_def split: list.splits)

lemma bump_Inr: "bump r = Inr (c, r') \<longleftrightarrow> r = c # r'" "bump r \<noteq> Inl JFuel"
  by (auto simp: bump_def split: list.splits)

lemma expect_Inr: "expect c r = Inr r' \<Longrightarrow> length r' < length r" "expect c r \<noteq> Inl JFuel"
proof -
  show "expect c r = Inr r' \<Longrightarrow> length r' < length r"
    using skip_ws_length [of r] by (auto simp: expect_def result_simps bump_Inr split: if_splits)
  show "expect c r \<noteq> Inl JFuel"
    by (auto simp: expect_def bindE_fuel bump_Inr)
qed

definition short :: "nat \<Rightarrow> jerr + 'a \<times> string \<Rightarrow> bool" where
  "short n q \<longleftrightarrow> q \<noteq> Inl JFuel \<and> (\<forall>x r'. q = Inr (x, r') \<longrightarrow> length r' < n)"

lemma short_simps [simp]: "short n (Inr (x, r')) \<longleftrightarrow> length r' < n" "short n (Inl e) \<longleftrightarrow> e \<noteq> JFuel"
  by (auto simp: short_def)

lemma short_mono: "short m q \<Longrightarrow> m \<le> n \<Longrightarrow> short n q" by (auto simp: short_def)

lemma short_bind:
  assumes "m \<noteq> Inl JFuel" "\<And>x. m = Inr x \<Longrightarrow> short n (f x)"
  shows "short n (bindE m f)"
  using assms by (cases m) auto

lemma eats_short: "eats n p \<longleftrightarrow> (\<forall>r. length r \<le> n \<longrightarrow> short (length r) (p r))"
  by (simp add: eats_def short_def)

lemma parse_chars_short: "short (length r) (parse_chars out r)"
proof (induction r arbitrary: out rule: length_induct)
  case (1 r)
  define k where "k = length r"
  have rec: "short k (parse_chars out' r')" if "length r' < k" for out' r'
    using 1 that unfolding k_def by (meson short_mono less_imp_le)
  show ?case
  proof (cases r)
    case (Cons b r2)
    have kr: "length r2 < k" using Cons by (simp add: k_def)
    have "short k (parse_chars out (b # r2))"
      using kr unfolding parse_chars.simps
      by (auto simp: Let_def intro!: rec split: list.split option.split)
    then show ?thesis using Cons k_def by simp
  qed (simp add: parse_chars.simps)
qed

lemma bump_ws: "bump (skip_ws r) = Inr (c, r') \<Longrightarrow> length r' < length r"
  using skip_ws_length [of r] by (simp add: bump_Inr)

lemma eats_string [eats_intro]: "eats n parse_string"
  unfolding eats_short parse_string_def
  by (auto intro!: short_bind simp: bump_Inr(2) dest!: bump_ws intro: short_mono [OF parse_chars_short less_imp_le])

lemma take_eq_length: "take k r = s \<Longrightarrow> length s = k \<Longrightarrow> 0 < k \<Longrightarrow> length r \<noteq> 0" by auto

lemma eats_bool [eats_intro]: "eats n parse_bool"
proof (rule eatsI)
  fix r x r' assume "parse_bool r = Inr (x, r')"
  then show "length r' < length r"
    using skip_ws_length [of r] by (auto simp: parse_bool_def Let_def split: if_splits) (cases "skip_ws r"; simp)+
qed (simp add: parse_bool_def Let_def)

lemma digit_run_length:
  "digit_run hi v n r = Inr ((w, m), r') \<Longrightarrow> m + length r' = n + length r" "digit_run hi v n r \<noteq> Inl JFuel"
  by (induction hi v n r rule: digit_run.induct) (auto split: if_splits)

lemma eats_i64 [eats_intro]: "eats n json_i64"
proof (rule eatsI)
  fix r x r' assume p: "json_i64 r = Inr (x, r')"
  let ?t = "if peek (skip_ws r) = Some (CHR ''-'') then tl (skip_ws r) else skip_ws r"
  obtain v m where d: "digit_run i64_max 0 0 ?t = Inr ((v, m), r')" "m \<noteq> 0"
    using p by (auto simp: json_i64_def Let_def result_simps split: if_splits)
  have "m + length r' = length ?t" using digit_run_length(1) [OF d(1)] by simp
  moreover have "length ?t \<le> length r" using skip_ws_length [of r] by auto
  ultimately show "length r' < length r" using d(2) by linarith
next
  fix r show "json_i64 r \<noteq> Inl JFuel"
    by (auto simp: json_i64_def Let_def bindE_fuel digit_run_length(2))
qed

lemma eats_u64 [eats_intro]: "eats n parse_u64"
proof (rule eatsI)
  fix r x r' assume p: "parse_u64 r = Inr (x, r')"
  obtain v m where d: "digit_run (2 ^ 64 - 1) 0 0 (skip_ws r) = Inr ((v, m), r')" "m \<noteq> 0"
    using p by (auto simp: parse_u64_def result_simps split: if_splits)
  have "m + length r' = length (skip_ws r)" using digit_run_length(1) [OF d(1)] by simp
  then show "length r' < length r" using d(2) skip_ws_length [of r] by linarith
next
  fix r show "parse_u64 r \<noteq> Inl JFuel"
    by (auto simp: parse_u64_def bindE_fuel digit_run_length(2))
qed

text \<open>Post-processing the value of a reader.\<close>

lemma eats_map [eats_intro]:
  assumes "eats n p"
  shows "eats n (\<lambda>r. bindE (p r) (\<lambda>(v, r'). Inr (g v, r')))"
  using assms by (auto simp: eats_def bindE_fuel result_simps)

lemma eats_fields [eats_intro]: "eats n parse_u32_field" "eats n parse_i16_field"
  unfolding parse_u32_field_def [abs_def] parse_i16_field_def [abs_def] by (intro eats_intro)+

lemma tl_length: "peek r = Some c \<Longrightarrow> length (tl r) < length r"
  by (cases r) (auto simp: peek_def)

lemma eats_shortD: "eats n p \<Longrightarrow> length r \<le> n \<Longrightarrow> short (length r) (p r)"
  by (simp add: eats_short)

lemma arr_loop_eats:
  assumes p: "eats n p"
  shows "length r < k \<Longrightarrow> length r \<le> n \<Longrightarrow> short (length r) (arr_loop k p out r)"
proof (induction k arbitrary: out r)
  case (Suc k)
  let ?r = "skip_ws r"
  let ?t = "skip_ws (if peek ?r = Some (CHR '','') then tl ?r else ?r)"
  have lt: "length ?t \<le> length r"
    using skip_ws_length [of r] skip_ws_length [of "tl ?r"] skip_ws_length [of ?r] by auto
  show ?case
  proof (cases "peek ?r = Some (CHR '']'') \<or> peek ?t = Some (CHR '']'')")
    case True
    then show ?thesis
      using tl_length [of ?r "CHR '']''"] tl_length [of ?t "CHR '']''"] skip_ws_length [of r] lt by (auto simp: Let_def)
  next
    case False
    then have step: "arr_loop (Suc k) p out r = bindE (p ?t) (\<lambda>(x, r). arr_loop k p (out @ [x]) r)"
      by (simp add: Let_def)
    have s: "short (length ?t) (p ?t)" using lt Suc.prems by (intro eats_shortD [OF p]) simp
    show ?thesis
      unfolding step
    proof (rule short_bind)
      show "p ?t \<noteq> Inl JFuel" using s by (auto simp: short_def)
      fix y assume y: "p ?t = Inr y"
      obtain x r2 where y': "y = (x, r2)" by (cases y)
      have "length r2 < length ?t" using s y y' by (auto simp: short_def)
      then have "short (length r2) (arr_loop k p (out @ [x]) r2)" "length r2 \<le> length r"
        using lt Suc.prems by (auto intro: Suc.IH)
      then show "short (length r) (case y of (x, r) \<Rightarrow> arr_loop k p (out @ [x]) r)"
        unfolding y' prod.case by (rule short_mono)
    qed
  qed
qed simp

lemma eats_arr [eats_intro]: "eats n p \<Longrightarrow> eats n (parse_arr p)"
  unfolding eats_short [of n "parse_arr p"] parse_arr_def
proof (intro allI impI short_bind [OF expect_Inr(2)])
  fix r r1 :: string
  assume p: "eats n p" and r: "length r \<le> n" and e: "expect (CHR ''['') r = Inr r1"
  have l: "length r1 < length r" by (rule expect_Inr(1) [OF e])
  have "short (length r1) (arr_loop (Suc (length r1)) p [] r1)"
    by (rule arr_loop_eats [OF p]) (use l r in simp_all)
  then show "short (length r) (arr_loop (Suc (length r1)) p [] r1)" by (rule short_mono) (use l in simp)
qed

lemma eats_string_array [eats_intro]: "eats n parse_string_array"
  unfolding parse_string_array_def by (intro eats_intro)

subsection \<open>Skipping a value\<close>

lemma skip_members_eats:
  assumes sk: "eats n sk"
  shows "length r < k \<Longrightarrow> length r \<le> n \<Longrightarrow> short (length r) (skip_members sk k r)"
proof (induction k arbitrary: r)
  case (Suc k)
  let ?r = "skip_ws r"
  have lr: "length ?r \<le> length r" by (rule skip_ws_length)
  have rest: "short (length r) (skip_members sk k t)" if "length t < length r" for t
    by (rule short_mono [OF Suc.IH]) (use that Suc.prems in simp_all)
  consider "peek ?r = Some (CHR ''}'') \<or> peek ?r = Some (CHR '','')" | "peek ?r = None"
    | "peek ?r \<noteq> Some (CHR ''}'')" "peek ?r \<noteq> Some (CHR '','')" "peek ?r \<noteq> None" by blast
  then show ?case
  proof cases
    case 1
    then have "length (tl ?r) < length r" using tl_length lr less_le_trans by blast
    then show ?thesis using 1 rest by auto
  next
    case 3
    then have step: "skip_members sk (Suc k) r = bindE (parse_string ?r) (\<lambda>(_, r).
        bindE (expect (CHR '':'') r) (\<lambda>r. bindE (sk r) (\<lambda>(_, r). skip_members sk k r)))"
      by (auto simp: Let_def)
    have s: "short (length ?r) (parse_string ?r)" by (rule eats_shortD [OF eats_string order.refl])
    show ?thesis
      unfolding step
    proof (rule short_bind)
      show "parse_string ?r \<noteq> Inl JFuel" using s by (auto simp: short_def)
      fix x assume x: "parse_string ?r = Inr x"
      obtain key r2 where x': "x = (key, r2)" by (cases x)
      have l2: "length r2 < length r" using s x x' lr by (auto simp: short_def)
      have "short (length r) (bindE (expect (CHR '':'') r2) (\<lambda>r. bindE (sk r) (\<lambda>(_, r). skip_members sk k r)))"
      proof (rule short_bind [OF expect_Inr(2)])
        fix r3 assume "expect (CHR '':'') r2 = Inr r3"
        then have l3: "length r3 < length r" using expect_Inr(1) l2 by fastforce
        have s3: "short (length r3) (sk r3)" using l3 Suc.prems by (intro eats_shortD [OF sk]) simp
        show "short (length r) (bindE (sk r3) (\<lambda>(_, r). skip_members sk k r))"
          by (rule short_bind) (use s3 l3 in \<open>auto simp: short_def [of _ "sk r3"] intro!: rest\<close>)
      qed
      then show "short (length r) (case x of (_, r) \<Rightarrow>
          bindE (expect (CHR '':'') r) (\<lambda>r. bindE (sk r) (\<lambda>(_, r). skip_members sk k r)))" by (simp add: x')
    qed
  qed simp
qed simp

lemma skip_elems_eats:
  assumes sk: "eats n sk"
  shows "length r < k \<Longrightarrow> length r \<le> n \<Longrightarrow> short (length r) (skip_elems sk k r)"
proof (induction k arbitrary: r)
  case (Suc k)
  let ?r = "skip_ws r"
  have lr: "length ?r \<le> length r" by (rule skip_ws_length)
  have rest: "short (length r) (skip_elems sk k t)" if "length t < length r" for t
    by (rule short_mono [OF Suc.IH]) (use that Suc.prems in simp_all)
  consider "peek ?r = Some (CHR '']'') \<or> peek ?r = Some (CHR '','')" | "peek ?r = None"
    | "peek ?r \<noteq> Some (CHR '']'')" "peek ?r \<noteq> Some (CHR '','')" "peek ?r \<noteq> None" by blast
  then show ?case
  proof cases
    case 1
    then have "length (tl ?r) < length r" using tl_length lr less_le_trans by blast
    then show ?thesis using 1 rest by auto
  next
    case 3
    then have step: "skip_elems sk (Suc k) r = bindE (sk ?r) (\<lambda>(_, r). skip_elems sk k r)"
      by (auto simp: Let_def)
    have s: "short (length ?r) (sk ?r)" using lr Suc.prems by (intro eats_shortD [OF sk]) simp
    show ?thesis
      unfolding step by (rule short_bind) (use s lr in \<open>auto simp: short_def [of _ "sk ?r"] intro!: rest\<close>)
  qed simp
qed simp

text \<open>The text a reader that was handed one character back starts with that character.\<close>

lemma eats_unit:
  assumes "eats n p" "length r \<le> n"
  shows "short (length r) (bindE (p r) (\<lambda>(_, r). Inr ((), r)))"
proof (rule short_bind)
  show "p r \<noteq> Inl JFuel" using eats_shortD [OF assms] by (simp add: short_def)
  show "short (length r) (case x of (_, r) \<Rightarrow> Inr ((), r))" if "p r = Inr x" for x
    using eats_shortD [OF assms] that by (cases x) (simp add: short_def)
qed

lemma eats_skip_n: "eats n (skip_value_n (Suc n))"
proof (induction n)
  case 0
  show ?case by (simp add: eats_short bump_def)
next
  case (Suc n)
  show ?case
    unfolding eats_short skip_value_n.simps(2) [of "Suc n"]
  proof (intro allI impI short_bind [OF bump_Inr(2)])
    fix r x assume r: "length r \<le> Suc n" and b: "bump (skip_ws r) = Inr x"
    obtain c t where x: "x = (c, t)" by (cases x)
    have s: "skip_ws r = c # t" using b x by (simp add: bump_Inr)
    have l: "length t < length r" "length (c # t) \<le> length r" using skip_ws_length [of r] s by simp_all
    have lt: "length t \<le> n" using l r by simp
    note mono = short_mono [OF _ less_imp_le [OF l(1)]]
    have m: "short (length t) (skip_members (skip_value_n (Suc n)) (Suc (length t)) t)"
      "short (length t) (skip_elems (skip_value_n (Suc n)) (Suc (length t)) t)"
      by (rule skip_members_eats [OF Suc.IH] skip_elems_eats [OF Suc.IH]; use lt in simp)+
    have p: "short (length (c # t)) (bindE (parse_string (c # t)) (\<lambda>(_, r). Inr ((), r)))"
      "short (length (c # t)) (bindE (json_i64 (c # t)) (\<lambda>(_, r). Inr ((), r)))"
      "short (length t) (bindE (parse_bool t) (\<lambda>(_, r). Inr ((), r)))"
      by (rule eats_unit [OF eats_string order.refl] eats_unit [OF eats_i64 order.refl] eats_unit [OF eats_bool order.refl])+
    show "short (length r) (case x of (c, r) \<Rightarrow>
      if c = CHR ''{'' then skip_members (skip_value_n (Suc n)) (Suc (length r)) r
      else if c = CHR ''['' then skip_elems (skip_value_n (Suc n)) (Suc (length r)) r
      else if c = CHR 0x22 then bindE (parse_string (c # r)) (\<lambda>(_, r). Inr ((), r))
      else if c = CHR ''t'' \<or> c = CHR ''f'' then bindE (parse_bool r) (\<lambda>(_, r). Inr ((), r))
      else if c = CHR ''n'' then (if take 4 r = ''null'' then Inr ((), drop 4 r) else Inl JMal)
      else if c = CHR ''-'' \<or> is_digit c then bindE (json_i64 (c # r)) (\<lambda>(_, r). Inr ((), r))
      else Inl JMal)"
      unfolding x prod.case
      using mono [OF m(1)] mono [OF m(2)] short_mono [OF p(1) l(2)] short_mono [OF p(2) l(2)] mono [OF p(3)] l(1)
      by (cases "c = CHR ''{''"; cases "c = CHR ''[''"; cases "c = CHR 0x22"; cases "c = CHR ''n''")
        (simp_all add: less_imp_diff_less del: bindE.simps skip_members.simps skip_elems.simps skip_value_n.simps)
  qed
qed

lemma eats_skip [eats_intro]: "eats n skip_value"
  unfolding eats_short skip_value_def
  by (intro allI impI eats_shortD [OF eats_skip_n order.refl])

lemma eats_fld [eats_intro]: "eats n p \<Longrightarrow> eats n (fld p g acc)"
  unfolding fld_def [abs_def] by (rule eats_map)

subsection \<open>Objects\<close>

locale json_lang = json_read +
  assumes eats_ps: "eats n ps" and eats_sk: "eats n sk"
begin

lemma obj_loop_eats:
  assumes f: "\<And>key acc. eats n (f key acc)"
  shows "length r < k \<Longrightarrow> length r \<le> n \<Longrightarrow> short (length r) (obj_loop ps k f acc r)"
proof (induction k arbitrary: acc r)
  case (Suc k)
  let ?r = "skip_ws r"
  let ?t = "if peek ?r = Some (CHR '','') then tl ?r else ?r"
  have lt: "length (skip_ws ?t) \<le> length r"
    using skip_ws_length [of r] skip_ws_length [of ?t] by (auto intro: order.trans)
  show ?case
  proof (cases "peek ?r = Some (CHR ''}'')")
    case True
    then show ?thesis using tl_length [OF True] skip_ws_length [of r] by auto
  next
    case False
    have step: "obj_loop ps (Suc k) f acc r = bindE (ps (skip_ws ?t)) (\<lambda>(key, r).
       bindE (expect (CHR '':'') r) (\<lambda>r. bindE (f key acc r) (\<lambda>(acc, r). obj_loop ps k f acc r)))"
      using False by (simp add: Let_def)
    show ?thesis
      unfolding step
    proof (rule short_bind)
      show "ps (skip_ws ?t) \<noteq> Inl JFuel" by (rule eatsD(2) [OF eats_ps order.refl])
      fix x assume "ps (skip_ws ?t) = Inr x"
      moreover obtain key r2 where x: "x = (key, r2)" by (cases x)
      ultimately have l2: "length r2 < length r" using eatsD(1) [OF eats_ps order.refl] lt by fastforce
      have "short (length r) (bindE (expect (CHR '':'') r2) (\<lambda>r. bindE (f key acc r) (\<lambda>(acc, r). obj_loop ps k f acc r)))"
      proof (rule short_bind [OF expect_Inr(2)])
        fix r3 assume "expect (CHR '':'') r2 = Inr r3"
        then have l3: "length r3 < length r" using expect_Inr(1) l2 by fastforce
        then have s3: "short (length r3) (f key acc r3)" using Suc.prems by (intro eats_shortD [OF f]) simp
        show "short (length r) (bindE (f key acc r3) (\<lambda>(acc, r). obj_loop ps k f acc r))"
        proof (rule short_bind)
          show "f key acc r3 \<noteq> Inl JFuel" using s3 by (auto simp: short_def)
          fix y assume y: "f key acc r3 = Inr y"
          obtain acc' r4 where y': "y = (acc', r4)" by (cases y)
          have "length r4 < length r3" using s3 y y' by (auto simp: short_def)
          then have "short (length r4) (obj_loop ps k f acc' r4)" "length r4 \<le> length r"
            using l3 Suc.prems by (auto intro: Suc.IH)
          then show "short (length r) (case y of (acc, r) \<Rightarrow> obj_loop ps k f acc r)"
            unfolding y' prod.case by (rule short_mono)
        qed
      qed
      then show "short (length r) (case x of (key, r) \<Rightarrow>
          bindE (expect (CHR '':'') r) (\<lambda>r. bindE (f key acc r) (\<lambda>(acc, r). obj_loop ps k f acc r)))" by (simp add: x)
    qed
  qed
qed simp

lemma eats_obj_Suc: "(\<And>key acc. eats n (f key acc)) \<Longrightarrow> eats (Suc n) (parse_obj ps f acc)"
  unfolding eats_short parse_obj_def
proof (intro allI impI short_bind [OF expect_Inr(2)])
  fix r r1 :: string
  assume f: "\<And>key acc. \<forall>r. length r \<le> n \<longrightarrow> short (length r) (f key acc r)"
    and r: "length r \<le> Suc n" and e: "expect (CHR ''{'') r = Inr r1"
  have f': "\<And>key acc. eats n (f key acc)" using f by (simp add: eats_short)
  have l: "length r1 < length r" by (rule expect_Inr(1) [OF e])
  have "short (length r1) (obj_loop ps (Suc (length r1)) f acc r1)"
    by (rule obj_loop_eats [OF f']) (use l r in simp_all)
  then show "short (length r) (obj_loop ps (Suc (length r1)) f acc r1)" by (rule short_mono) (use l in simp)
qed

lemma eats_obj: "(\<And>key acc. eats n (f key acc)) \<Longrightarrow> eats n (parse_obj ps f acc)"
  by (rule eats_mono [OF eats_obj_Suc [of n]]) simp_all

text \<open>Every handler of the table consumes input; the others skip.\<close>

lemma eats_match:
  assumes "\<And>acc. list_all (\<lambda>(k, h). eats n (h acc)) tbl"
  shows "eats n (match_key sk tbl key acc)"
proof (cases "map_of tbl key")
  case None
  then show ?thesis
    unfolding match_key_def [abs_def] by (simp add: eats_fld [OF eats_sk])
next
  case (Some h)
  then have "(key, h) \<in> set tbl" by (rule map_of_SomeD)
  then have "eats n (h acc)" using assms [of acc] by (auto simp: list_all_iff)
  then show ?thesis using Some unfolding match_key_def [abs_def] by simp
qed

end

interpretation js: json_lang parse_string skip_value
proof unfold_locales
  fix k r :: string
  assume "plain k"
  then show "parse_string (CHR 0x22 # k @ CHR 0x22 # r) = Inr (k, r)"
    using plain_utf8 [of k] parse_chars_escaped [of k "[]" r] by (simp add: parse_string_def bump_def)
qed (rule eats_string eats_skip)+

end
