(* ===== verification/OblRt.thy ===== *)
theory OblRt
  imports OblCodec JsonRt
begin

text \<open>
  The obligation codec round trip: for every set whose strings are UTF-8 and whose bounds
  the integer reader can hold, the reader gives back what the writer was given. The reader
  consumes input at every step, so it ends on every text.
\<close>

section \<open>What the Rust types guarantee\<close>

definition read_i64_ok :: "i64 \<Rightarrow> bool" where "read_i64_ok v \<longleftrightarrow> in_i64 v \<and> v \<noteq> i64_min"

fun oel_ok :: "oel \<Rightarrow> bool" where
  "oel_ok (OelVar n) = is_utf8 n"
| "oel_ok (OelCast f t a) = (is_utf8 f \<and> is_utf8 t \<and> oel_ok a)"

definition pred_ok :: "predicate_ref \<Rightarrow> bool" where
  "pred_ok p \<longleftrightarrow> is_utf8 (pr_module p) \<and> is_utf8 (pr_name p) \<and> (\<forall>s \<in> set (pr_ir p). is_utf8 s) \<and> is_utf8 (pr_ir_hash p)"

fun formula_ok :: "formula \<Rightarrow> bool" where
  "formula_ok (InRange v lo hi) = (oel_ok v \<and> read_i64_ok lo \<and> read_i64_ok hi)"
| "formula_ok (OffsetLE _ _ _) = True"
| "formula_ok (PredicateHolds p args) = (pred_ok p \<and> (\<forall>a \<in> set args. oel_ok a))"

fun edge_ok :: "assumption_edge \<Rightarrow> bool" where
  "edge_ok (EdgeObligation i m) = (is_utf8 i \<and> is_utf8 m)"
| "edge_ok EdgeRuntimeCheck = True"

definition obligation_ok :: "obl_rec \<Rightarrow> bool" where
  "obligation_ok ob \<longleftrightarrow> is_utf8 (ob_id ob) \<and> is_utf8 (ob_id_hash ob) \<and> is_utf8 (st_word (ob_site ob))
     \<and> is_utf8 (it_label (ob_intent ob)) \<and> is_utf8 (it_subject (ob_intent ob)) \<and> formula_ok (ob_formula ob)
     \<and> (\<forall>e \<in> set (ob_assumptions ob). edge_ok e) \<and> (\<forall>c \<in> set (ob_cycles ob). \<forall>s \<in> set (cy_blocks c). is_utf8 s)"

definition facts_ok :: "facts \<Rightarrow> bool" where
  "facts_ok f \<longleftrightarrow>
     (\<forall>w \<in> set (fa_words f). is_utf8 (wf_name w) \<and> in_i16 (wf_net w) \<and> (\<forall>s \<in> set (wf_performs w). is_utf8 s) \<and> is_utf8 (wf_ir w))
     \<and> (\<forall>s \<in> set (fa_subtypes f). is_utf8 (sf_name s) \<and> read_i64_ok (sf_lo s) \<and> read_i64_ok (sf_hi s))
     \<and> (\<forall>p \<in> set (fa_predicates f). is_utf8 (pf_name p) \<and> (\<forall>s \<in> set (pf_ir p). is_utf8 s) \<and> is_utf8 (pf_ir_hash p))"

definition obl_set_ok :: "obl_set \<Rightarrow> bool" where
  "obl_set_ok s \<longleftrightarrow> is_utf8 (os_stmt s) \<and> is_utf8 (os_module s) \<and> is_utf8 (os_target s) \<and> is_utf8 (os_platform s)
     \<and> is_utf8 (os_model_semantics s) \<and> is_utf8 (os_concurrency s) \<and> facts_ok (os_facts s)
     \<and> (\<forall>ob \<in> set (os_obligations s). obligation_ok ob)"

section \<open>One object\<close>

lemma read_need:
  assumes "obj_reads (match_key skip_value tbl) ms acc acc2" "f acc2 = Some x"
  shows "reads (\<lambda>r. need f (parse_obj parse_string (match_key skip_value tbl) acc r)) (obj_text ms) x"
  using assms by (simp add: reads_def need_def js.read_obj)

lemma plain_ascii: "plain s \<Longrightarrow> is_utf8 s" using plain_utf8 by simp

lemmas plain_simps = plain_def raw_char_def

lemma value_start_texts [simp]:
  "value_start (write_oel v)" "value_start (write_assumption_edge e)" "value_start (write_cycle c)"
  "value_start (write_obligation ob)" "value_start (write_word_fact w)" "value_start (write_subtype_fact s)"
  "value_start (write_predicate_fact p)"
  by (cases v, simp_all) (cases e, simp_all add: write_cycle_def write_obligation_def write_word_fact_def
    write_subtype_fact_def write_predicate_fact_def)

lemma read_u32_json [reads_intro]: "reads parse_u32_field (u32_json v) v"
  unfolding u32_json_def by (rule read_u32)

lemma read_i64_json [reads_intro]: "read_i64_ok v \<Longrightarrow> reads json_i64 (push_i64_json v) v"
  unfolding read_i64_ok_def by (intro read_i64) simp_all

lemma read_span [reads_intro]: "reads parse_span (write_span s) s"
  unfolding parse_span_def [abs_def] write_span_def
  apply (rule read_need)
   apply (rule js.obj_reads_match, simp add: plain_simps, simp add: span_table_def, rule reads_intro)+
   apply (rule obj_reads_Nil)
  apply (simp add: span_done_def opt2_def)
  done

declare is_utf8.simps(2) [simp del]

lemma utf8_consts [simp]:
  "is_utf8 ''Var''" "is_utf8 ''Cast''" "is_utf8 ''InRange''" "is_utf8 ''OffsetLE''" "is_utf8 ''PredicateHolds''"
  "is_utf8 ''runtime-check''" "is_utf8 OBL_SCHEMA" "is_utf8 SEMANTICS_VERSION" "is_utf8 STMT_SCHEMA"
  by (rule plain_ascii, simp add: plain_simps OBL_SCHEMA_def SEMANTICS_VERSION_def STMT_SCHEMA_def)+

lemma utf8_enums [simp]: "is_utf8 (kind_str k)" "is_utf8 (provenance_str p)"
  by (cases k; rule plain_ascii; simp add: plain_simps) (cases p; rule plain_ascii; simp add: plain_simps)

section \<open>Every object of the document\<close>

lemma read_site [reads_intro]: "is_utf8 (st_word s) \<Longrightarrow> reads parse_site (write_site s) s"
  unfolding parse_site_def [abs_def] write_site_def
  apply (rule read_need)
   apply (rule js.obj_reads_match, simp add: plain_simps, simp add: site_table_def, (rule reads_intro; simp))+
   apply (rule obj_reads_Nil)
  apply (simp add: site_done_def opt3_def)
  done

lemma read_intent [reads_intro]:
  "is_utf8 (it_label i) \<Longrightarrow> is_utf8 (it_subject i) \<Longrightarrow> reads parse_intent (write_intent i) i"
  unfolding parse_intent_def [abs_def] write_intent_def
  apply (rule read_need)
   apply (rule js.obj_reads_match, simp add: plain_simps, simp add: intent_table_def, (rule reads_intro; simp))+
   apply (rule obj_reads_Nil)
  apply (simp add: intent_done_def opt3_def)
  done

lemma read_cycle: "\<forall>s \<in> set (cy_blocks c). is_utf8 s \<Longrightarrow> reads parse_cycle (write_cycle c) c"
  unfolding parse_cycle_def [abs_def] write_cycle_def
  apply (rule read_need)
   apply (rule js.obj_reads_match, simp add: plain_simps, simp add: cycle_table_def, (rule reads_intro; simp))+
   apply (rule obj_reads_Nil)
  apply (simp add: cycle_done_def opt2_def)
  done

lemma read_cycles [reads_intro]:
  "\<forall>c \<in> set cs. \<forall>s \<in> set (cy_blocks c). is_utf8 s \<Longrightarrow> reads parse_cycles (arr_text write_cycle cs) cs"
  unfolding parse_cycles_def by (intro read_arr) (simp add: read_cycle)

lemma read_predicate_ref [reads_intro]: "pred_ok p \<Longrightarrow> reads parse_predicate_ref (write_predicate_ref p) p"
  unfolding parse_predicate_ref_def [abs_def] write_predicate_ref_def
  apply (rule read_need)
   apply (rule js.obj_reads_match, simp add: plain_simps, simp add: pred_table_def, (rule reads_intro; simp add: pred_ok_def))+
   apply (rule obj_reads_Nil)
  apply (simp add: pred_done_def opt2_def)
  done

lemma read_subtype_fact: "is_utf8 (sf_name s) \<Longrightarrow> read_i64_ok (sf_lo s) \<Longrightarrow> read_i64_ok (sf_hi s) \<Longrightarrow>
    reads parse_subtype_fact (write_subtype_fact s) s"
  unfolding parse_subtype_fact_def [abs_def] write_subtype_fact_def
  apply (rule read_need)
   apply (rule js.obj_reads_match, simp add: plain_simps, simp add: subtype_table_def, (rule reads_intro; simp))+
   apply (rule obj_reads_Nil)
  apply (simp add: subtype_done_def opt3_def)
  done

lemma read_subtype_facts [reads_intro]:
  "\<forall>s \<in> set ss. is_utf8 (sf_name s) \<and> read_i64_ok (sf_lo s) \<and> read_i64_ok (sf_hi s) \<Longrightarrow>
    reads parse_subtype_facts (arr_text write_subtype_fact ss) ss"
  unfolding parse_subtype_facts_def by (intro read_arr) (simp add: read_subtype_fact)

lemma read_predicate_fact: "is_utf8 (pf_name p) \<Longrightarrow> \<forall>s \<in> set (pf_ir p). is_utf8 s \<Longrightarrow> is_utf8 (pf_ir_hash p) \<Longrightarrow>
    reads parse_predicate_fact (write_predicate_fact p) p"
  unfolding parse_predicate_fact_def [abs_def] write_predicate_fact_def
  apply (rule read_need)
   apply (rule js.obj_reads_match, simp add: plain_simps, simp add: predfact_table_def, (rule reads_intro; simp))+
   apply (rule obj_reads_Nil)
  apply (simp add: predfact_done_def opt3_def)
  done

lemma read_predicate_facts [reads_intro]:
  "\<forall>p \<in> set ps. is_utf8 (pf_name p) \<and> (\<forall>s \<in> set (pf_ir p). is_utf8 s) \<and> is_utf8 (pf_ir_hash p) \<Longrightarrow>
    reads parse_predicate_facts (arr_text write_predicate_fact ps) ps"
  unfolding parse_predicate_facts_def by (intro read_arr) (simp add: read_predicate_fact)

lemma read_word_fact:
  "is_utf8 (wf_name w) \<Longrightarrow> in_i16 (wf_net w) \<Longrightarrow> \<forall>s \<in> set (wf_performs w). is_utf8 s \<Longrightarrow> is_utf8 (wf_ir w) \<Longrightarrow>
    reads parse_word_fact (write_word_fact w) w"
  unfolding parse_word_fact_def [abs_def] write_word_fact_def
  apply (rule read_need)
   apply (rule js.obj_reads_match, simp add: plain_simps, simp add: word_table_def, (rule reads_intro; simp))+
   apply (rule obj_reads_Nil)
  apply (simp add: word_done_def)
  done

lemma read_word_facts [reads_intro]:
  "\<forall>w \<in> set ws. is_utf8 (wf_name w) \<and> in_i16 (wf_net w) \<and> (\<forall>s \<in> set (wf_performs w). is_utf8 s) \<and> is_utf8 (wf_ir w) \<Longrightarrow>
    reads parse_word_facts (arr_text write_word_fact ws) ws"
  unfolding parse_word_facts_def by (intro read_arr) (simp add: read_word_fact)

lemma read_facts [reads_intro]: "facts_ok f \<Longrightarrow> reads parse_facts (write_facts f) f"
  unfolding parse_facts_def [abs_def] write_facts_def
  apply (rule read_need)
   apply (rule js.obj_reads_match, simp add: plain_simps, simp add: facts_table_def, (rule reads_intro; simp add: facts_ok_def))+
   apply (rule obj_reads_Nil)
  apply (simp add: facts_done_def opt2_def)
  done

lemma read_edge: "edge_ok e \<Longrightarrow> reads parse_edge (write_assumption_edge e) e"
proof (cases e)
  case EdgeRuntimeCheck
  have "parse_string (write_str ''runtime-check'' @ r) = Inr (''runtime-check'', r)" if "follow r" for r
    by (rule readsD [OF read_str that]) simp
  moreover have "peek (write_str s @ r) = Some (CHR 0x22)" for s r by (simp add: write_str_def peek_def)
  ultimately show ?thesis using EdgeRuntimeCheck by (simp add: reads_def parse_edge_def)
next
  case (EdgeObligation i m)
  assume ok: "edge_ok e"
  have "reads (\<lambda>r. need edge_done (parse_obj parse_string (match_key skip_value edge_table) \<lparr>xe_obligation = None, xe_module = None\<rparr> r))
      (write_assumption_edge e) e"
    unfolding EdgeObligation write_assumption_edge.simps
    apply (rule read_need)
     apply (rule js.obj_reads_match, simp add: plain_simps, simp add: edge_table_def,
        (rule reads_intro; use ok EdgeObligation in simp))+
     apply (rule obj_reads_Nil)
    apply (simp add: edge_done_def opt2_def)
    done
  moreover have "peek (obj_text ms @ r) = Some (CHR ''{'')" for ms r by (simp add: obj_text_def peek_def)
  ultimately show ?thesis using EdgeObligation by (simp add: reads_def parse_edge_def)
qed

lemma read_assumptions [reads_intro]:
  "\<forall>e \<in> set es. edge_ok e \<Longrightarrow> reads parse_assumptions (arr_text write_assumption_edge es) es"
  unfolding parse_assumptions_def by (intro read_arr) (simp add: read_edge)

subsection \<open>Values, with the fuel of the recursion\<close>

lemma read_oel_n: "oel_ok v \<Longrightarrow> size v < n \<Longrightarrow> reads (parse_oel_n n) (write_oel v) v"
proof (induction v arbitrary: n)
  case (OelVar name)
  then obtain m where n: "n = Suc m" by (cases n) auto
  show ?case
    unfolding n parse_oel_n.simps write_oel.simps
    apply (rule read_need)
     apply (rule js.obj_reads_match, simp add: plain_simps, simp add: oel_table_def, (rule reads_intro; use OelVar in simp))+
     apply (rule obj_reads_Nil)
    apply (simp add: oel_done_def oel_empty_def)
    done
next
  case (OelCast f t a)
  then obtain m where n: "n = Suc m" by (cases n) auto
  have a: "reads (parse_oel_n m) (write_oel a) a" using OelCast n by (intro OelCast.IH) simp_all
  show ?case
    unfolding n parse_oel_n.simps write_oel.simps
    apply (rule read_need)
     apply (rule js.obj_reads_match, simp add: plain_simps, simp add: oel_table_def,
        (rule a reads_intro; use OelCast in simp))+
     apply (rule obj_reads_Nil)
    apply (simp add: oel_done_def oel_empty_def opt3_def)
    done
qed

lemma oel_size_text: "size v \<le> length (write_oel v)"
  by (induction v) (simp_all add: obj_text_def member_def)

lemma read_oel [reads_intro]: "oel_ok v \<Longrightarrow> reads parse_oel (write_oel v) v"
  unfolding reads_def parse_oel_def
proof (intro allI impI)
  fix r assume ok: "oel_ok v" and f: "follow r"
  have "size v < Suc (length (write_oel v @ r))" using oel_size_text [of v] by simp
  from readsD [OF read_oel_n [OF ok this] f]
  show "parse_oel_n (Suc (length (write_oel v @ r))) (write_oel v @ r) = Inr (v, r)" .
qed

lemma read_oel_array [reads_intro]: "\<forall>a \<in> set args. oel_ok a \<Longrightarrow> reads parse_oel_array (arr_text write_oel args) args"
  unfolding parse_oel_array_def by (intro read_arr) (simp add: read_oel)

lemma read_nullable [reads_intro]:
  "reads parse_nullable_u32 (case off of Some n \<Rightarrow> u32_json n | None \<Rightarrow> ''null'') off"
proof (cases off)
  case None
  then show ?thesis by (simp add: reads_def parse_nullable_u32_def peek_def)
next
  case (Some n)
  have "parse_nullable_u32 (u32_json n @ r) = Inr (Some n, r)" if f: "follow r" for r
  proof -
    have b: "0 \<le> uint n" "uint n < 10 ^ 20" "uint n \<le> 2 ^ 64 - 1" "uint n \<le> i64_max"
      using uint_u32_bounds [of n] by (auto simp: i64_simps)
    have "i64_min < 0" by (simp add: i64_simps)
    then have "uint n \<noteq> i64_min" using b(1) by linarith
    then have t: "u32_json n = decimal (uint n)" using b by (simp add: u32_json_def push_decimal)
    have n: "peek (decimal (uint n) @ r) \<noteq> Some (CHR ''n'')"
      using decimal_props(1,2) [OF b(1,2)] by (cases "decimal (uint n)") (auto simp: peek_def is_digit_def)
    have "parse_u64 (decimal (uint n) @ r) = Inr (uint n, r)"
      using readsD [OF read_u64 [OF b(1,4)] f] t by (simp add: u32_json_def)
    then show ?thesis using n decimal_run(3) [OF b(1-3) f] by (simp add: parse_nullable_u32_def Let_def t)
  qed
  then show ?thesis using Some by (simp add: reads_def)
qed

lemma read_formula [reads_intro]: "formula_ok f \<Longrightarrow> reads parse_formula (write_formula f) f"
proof (cases f)
  case (InRange v lo hi)
  assume ok: "formula_ok f"
  show ?thesis
    unfolding InRange write_formula.simps parse_formula_def [abs_def]
    apply (rule read_need)
     apply (rule js.obj_reads_match, simp add: plain_simps, simp add: formula_table_def,
        (rule reads_intro; use ok InRange in \<open>simp add: read_i64_ok_def\<close>))+
     apply (rule obj_reads_Nil)
    apply (simp add: formula_done_def formula_empty_def opt3_def)
    done
next
  case (OffsetLE off w s)
  show ?thesis
    unfolding OffsetLE write_formula.simps parse_formula_def [abs_def]
    apply (rule read_need)
     apply (rule js.obj_reads_match, simp add: plain_simps, simp add: formula_table_def, (rule reads_intro; simp))+
     apply (rule obj_reads_Nil)
    apply (simp add: formula_done_def formula_empty_def opt3_def)
    done
next
  case (PredicateHolds p args)
  assume ok: "formula_ok f"
  show ?thesis
    unfolding PredicateHolds write_formula.simps parse_formula_def [abs_def]
    apply (rule read_need)
     apply (rule js.obj_reads_match, simp add: plain_simps, simp add: formula_table_def,
        (rule reads_intro; use ok PredicateHolds in simp))+
     apply (rule obj_reads_Nil)
    apply (simp add: formula_done_def formula_empty_def opt2_def)
    done
qed

section \<open>Obligations and the document\<close>

lemma read_obligation: "obligation_ok ob \<Longrightarrow> reads parse_obl (write_obligation ob) ob"
  unfolding parse_obl_def [abs_def] write_obligation_def
  apply (rule read_need)
   apply (rule js.obj_reads_match, simp add: plain_simps, simp add: obl_table_def,
      (rule reads_intro; simp add: obligation_ok_def))+
   apply (rule obj_reads_Nil)
  apply (simp add: obl_done_def)
  done

lemma read_obligations [reads_intro]:
  "\<forall>ob \<in> set obs. obligation_ok ob \<Longrightarrow> reads parse_obligations (arr_text write_obligation obs) obs"
  unfolding parse_obligations_def by (intro read_arr) (simp add: read_obligation)

lemma read_doc:
  "obl_set_ok s \<Longrightarrow> is_utf8 (os_schema s) \<Longrightarrow> is_utf8 (os_semantics s) \<Longrightarrow> reads parse_doc (write_doc s) s"
  unfolding parse_doc_def [abs_def] write_doc_def
  apply (rule read_need)
   apply (rule js.obj_reads_match, simp add: plain_simps, simp add: doc_table_def,
      (rule reads_intro; simp add: obl_set_ok_def))+
   apply (rule obj_reads_Nil)
  apply (simp add: doc_done_def default_to_def)
  done

lemma encode_read_facts:
  assumes "encode_obl s = Inr bs" "os_schema s = OBL_SCHEMA" "os_semantics s = SEMANTICS_VERSION" "obl_set_ok s"
  shows "read_obl bs = Inr s"
proof -
  have bs: "bs = write_doc s" "length bs \<le> OBL_ARTIFACT_MAX_BYTES"
    using assms(1) by (auto simp: encode_obl_def Let_def split: option.splits sum.splits if_splits)
  have "parse_doc (write_doc s @ []) = Inr (s, [])"
    by (rule readsD [OF read_doc]) (use assms in simp_all)
  then show ?thesis using bs assms(2,3) by (simp add: read_obl_def)
qed

section \<open>The reader ends on every text\<close>

lemma eats_need [eats_intro]: "eats n p \<Longrightarrow> eats n (\<lambda>r. need f (p r))"
  unfolding eats_short need_def
  by (fastforce intro!: short_bind simp: short_def [of _ "p _"] split: option.splits)

lemma eats_oel_n: "eats n (parse_oel_n (Suc n))"
proof (induction n)
  case 0
  show ?case by (auto simp: eats_def need_def parse_obj_def expect_def bump_def)
next
  case (Suc n)
  show ?case
    unfolding parse_oel_n.simps(2) [of "Suc n"]
    by (intro eats_need js.eats_obj_Suc js.eats_match) (simp add: oel_table_def Suc.IH eats_intro del: parse_oel_n.simps)
qed

lemma eats_oel [eats_intro]: "eats n parse_oel"
  unfolding eats_short parse_oel_def by (intro allI impI eats_shortD [OF eats_oel_n order.refl])

lemma eats_nullable [eats_intro]: "eats n parse_nullable_u32"
proof (rule eatsI)
  fix r x r' assume p: "parse_nullable_u32 r = Inr (x, r')"
  let ?r = "skip_ws r"
  show "length r' < length r"
  proof (cases "peek ?r = Some (CHR ''n'')")
    case True
    then have "length ?r \<noteq> 0" by (auto simp: peek_def)
    then have "length ?r - 4 < length r" using skip_ws_length [of r] by linarith
    then show ?thesis using p True by (auto simp: parse_nullable_u32_def Let_def split: if_splits)
  next
    case False
    then obtain v where "parse_u64 ?r = Inr (v, r')" using p by (auto simp: parse_nullable_u32_def Let_def result_simps)
    then show ?thesis using eatsD(1) [OF eats_u64 order.refl] skip_ws_length [of r] less_le_trans by blast
  qed
next
  fix r
  have "parse_u64 (skip_ws r) \<noteq> Inl JFuel" by (rule eatsD(2) [OF eats_u64 order.refl])
  then show "parse_nullable_u32 r \<noteq> Inl JFuel" by (auto simp: parse_nullable_u32_def Let_def bindE_fuel)
qed

lemma eats_span [eats_intro]: "eats n parse_span"
  unfolding parse_span_def [abs_def] by (intro eats_need js.eats_obj js.eats_match) (simp add: span_table_def eats_intro)

lemma eats_site [eats_intro]: "eats n parse_site"
  unfolding parse_site_def [abs_def] by (intro eats_need js.eats_obj js.eats_match) (simp add: site_table_def eats_intro)

lemma eats_intent [eats_intro]: "eats n parse_intent"
  unfolding parse_intent_def [abs_def] by (intro eats_need js.eats_obj js.eats_match) (simp add: intent_table_def eats_intro)

lemma eats_cycles [eats_intro]: "eats n parse_cycles"
  unfolding parse_cycles_def parse_cycle_def [abs_def]
  by (intro eats_arr eats_need js.eats_obj js.eats_match) (simp add: cycle_table_def eats_intro)

lemma eats_predicate_ref [eats_intro]: "eats n parse_predicate_ref"
  unfolding parse_predicate_ref_def [abs_def] by (intro eats_need js.eats_obj js.eats_match) (simp add: pred_table_def eats_intro)

lemma eats_oel_array [eats_intro]: "eats n parse_oel_array"
  unfolding parse_oel_array_def by (intro eats_intro)

lemma eats_formula [eats_intro]: "eats n parse_formula"
  unfolding parse_formula_def [abs_def] by (intro eats_need js.eats_obj js.eats_match) (simp add: formula_table_def eats_intro)

lemma eats_edge: "eats n parse_edge"
proof (rule eatsI)
  have o: "eats (length r) (\<lambda>r. need edge_done (parse_obj parse_string (match_key skip_value edge_table) \<lparr>xe_obligation = None, xe_module = None\<rparr> r))" for r :: string
    by (intro eats_need js.eats_obj js.eats_match) (simp add: edge_table_def eats_intro)
  fix r
  note s = eatsD(2) [OF eats_string order.refl, of r] and ob = eatsD(2) [OF o order.refl, of r]
  show "parse_edge r \<noteq> Inl JFuel"
    using s ob by (auto simp: parse_edge_def bindE_fuel)
  fix x r' assume p: "parse_edge r = Inr (x, r')"
  show "length r' < length r"
    using p eatsD(1) [OF eats_string order.refl, of r] eatsD(1) [OF o order.refl, of r x r']
    by (auto simp: parse_edge_def result_simps split: if_splits)
qed

lemma eats_assumptions [eats_intro]: "eats n parse_assumptions"
  unfolding parse_assumptions_def by (intro eats_arr eats_edge)

lemma eats_obligations [eats_intro]: "eats n parse_obligations"
  unfolding parse_obligations_def parse_obl_def [abs_def]
  by (intro eats_arr eats_need js.eats_obj js.eats_match) (simp add: obl_table_def eats_intro)

lemma eats_word_facts [eats_intro]: "eats n parse_word_facts"
  unfolding parse_word_facts_def parse_word_fact_def [abs_def]
  by (intro eats_arr eats_need js.eats_obj js.eats_match) (simp add: word_table_def eats_intro)

lemma eats_subtype_facts [eats_intro]: "eats n parse_subtype_facts"
  unfolding parse_subtype_facts_def parse_subtype_fact_def [abs_def]
  by (intro eats_arr eats_need js.eats_obj js.eats_match) (simp add: subtype_table_def eats_intro)

lemma eats_predicate_facts [eats_intro]: "eats n parse_predicate_facts"
  unfolding parse_predicate_facts_def parse_predicate_fact_def [abs_def]
  by (intro eats_arr eats_need js.eats_obj js.eats_match) (simp add: predfact_table_def eats_intro)

lemma eats_facts [eats_intro]: "eats n parse_facts"
  unfolding parse_facts_def [abs_def] by (intro eats_need js.eats_obj js.eats_match) (simp add: facts_table_def eats_intro)

lemma eats_doc: "eats n parse_doc"
  unfolding parse_doc_def [abs_def] by (intro eats_need js.eats_obj js.eats_match) (simp add: doc_table_def eats_intro)

text \<open>C38: reading an artifact ends on every byte string: each loop and recursion of the reader
  consumes input, so neither a hostile nor a truncated document makes it run on.\<close>

theorem read_obl_terminates: "read_obl bs \<noteq> Inl CFuel"
proof -
  have "parse_doc bs \<noteq> Inl JFuel" by (rule eatsD(2) [OF eats_doc order.refl])
  moreover have "codec_err e = CFuel \<longleftrightarrow> e = JFuel" for e by (cases e) simp_all
  ultimately show ?thesis by (auto simp: read_obl_def split: sum.splits)
qed

text \<open>C29: an obligation set that \<open>encode_obl\<close> accepts is read back unchanged by \<open>read_obl\<close>, every
  field of every record, for all cast depths and list lengths, when it carries the current schema
  and semantics versions and the values its Rust types allow (UTF-8 strings, 16-bit net effects,
  64-bit bounds: \<open>obl_set_ok\<close>), the bound \<open>i64::MIN\<close> excepted: \<open>read_min_fails\<close> shows that the
  reader refuses it.\<close>

theorem obl_round_trip:
  "encode_obl s = Inr bs \<Longrightarrow> os_schema s = OBL_SCHEMA \<Longrightarrow> os_semantics s = SEMANTICS_VERSION \<Longrightarrow>
    obl_set_ok s \<Longrightarrow> read_obl bs = Inr s"
  by (rule encode_read_facts)

definition demo_set :: obl_set where
  "demo_set = \<lparr>os_schema = OBL_SCHEMA, os_semantics = SEMANTICS_VERSION, os_stmt = STMT_SCHEMA,
     os_module = ''m'', os_target = ''x86'', os_platform = ''x86'', os_model_semantics = MODEL_UNMODELED,
     os_concurrency = CONCURRENCY_UNMODELED, os_abi = 2,
     os_facts = \<lparr>fa_words = [\<lparr>wf_name = ''w'', wf_net = -1, wf_high = 3, wf_top = False,
         wf_performs = [''MMIO''], wf_diverge_free = True, wf_ir = [CHR 0x22, CHR 0x0A, CHR 0xC3, CHR 0xA9], wf_blocks = 1\<rparr>],
       fa_subtypes = [\<lparr>sf_name = ''pct'', sf_lo = -5, sf_hi = 100\<rparr>], fa_predicates = []\<rparr>,
     os_obligations = [\<lparr>ob_id = ''m::w::subtype-range::0'', ob_id_hash = ''98a046f34aacd85b'', ob_kind = SubtypeRange,
       ob_site = \<lparr>st_word = ''w'', st_occurrence = 0, st_span = \<lparr>si_line = 3, si_col = 7\<rparr>\<rparr>,
       ob_intent = default_intent SubtypeRange [],
       ob_formula = InRange (OelCast ''i64'' ''pct'' (OelVar ''out.0'')) (-5) 100,
       ob_assumptions = [EdgeRuntimeCheck, EdgeObligation ''a'' ''b''],
       ob_cycles = [\<lparr>cy_index = 1, cy_blocks = [''b0'', ''b1'']\<rparr>], ob_provenance = Direct\<rparr>]\<rparr>"

lemma demo_encodes: "encode_obl demo_set = Inr (write_doc demo_set)"
proof -
  have "length (write_doc demo_set) = 887" "validate demo_set = Inr ()" by code_simp+
  then show ?thesis by (simp add: encode_obl_def) (simp add: demo_set_def WORD_IR_MAX_BYTES_def OBL_ARTIFACT_MAX_BYTES_def)
qed

theorem obl_round_trip_witness: "read_obl (write_doc demo_set) = Inr demo_set"
proof (rule obl_round_trip [OF demo_encodes])
  show "obl_set_ok demo_set" by code_simp
qed (simp_all add: demo_set_def)

section \<open>Where the codec departs from its intent\<close>

text \<open>\<open>skip_value\<close> consumes the first character of \<open>true\<close>, \<open>false\<close> and \<open>null\<close> before it looks
  for the whole word, so a document with such a value under an unknown key is rejected.\<close>

lemma skip_literal_fails:
  "skip_value (''true'' @ r) = Inl JMal" "skip_value (''false'' @ r) = Inl JMal" "skip_value (''null'' @ r) = Inl JMal"
  by (simp_all add: skip_value_def bump_def parse_bool_def)

text \<open>The bound that the integer writer prints and the reader refuses.\<close>

lemma read_min_fails: "json_i64 (push_i64_json i64_min @ r) = Inl JMal"
  by (rule i64_min_not_read)

end
