(* ===== verification/StmtProps.thy ===== *)
theory StmtProps
  imports Stmt
begin

text \<open>
  The canonical statement encoding is injective: equal bytes come from equal contexts and
  equal formulas. Every piece of text is self-delimiting, given that what comes after it
  is not a digit.
\<close>

section \<open>Self-delimiting texts\<close>

definition delim :: "string \<Rightarrow> string \<Rightarrow> bool" where
  "delim t t' \<longleftrightarrow> (\<forall>r r'. follow r \<longrightarrow> follow r' \<longrightarrow> t @ r = t' @ r' \<longrightarrow> t = t' \<and> r = r')"

definition codes :: "('a \<Rightarrow> bool) \<Rightarrow> ('a \<Rightarrow> string) \<Rightarrow> bool" where
  "codes ok w \<longleftrightarrow> (\<forall>x y. ok x \<longrightarrow> ok y \<longrightarrow> delim (w x) (w y) \<and> (w x = w y \<longrightarrow> x = y))"

lemma delimD: "delim t t' \<Longrightarrow> follow r \<Longrightarrow> follow r' \<Longrightarrow> t @ r = t' @ r' \<Longrightarrow> t = t' \<and> r = r'"
  by (simp add: delim_def)

lemma codesD: "codes ok w \<Longrightarrow> ok x \<Longrightarrow> ok y \<Longrightarrow> delim (w x) (w y)" "codes ok w \<Longrightarrow> ok x \<Longrightarrow> ok y \<Longrightarrow> w x = w y \<Longrightarrow> x = y"
  by (simp_all add: codes_def)

lemma codesI:
  assumes "\<And>x y r r'. ok x \<Longrightarrow> ok y \<Longrightarrow> follow r \<Longrightarrow> follow r' \<Longrightarrow> w x @ r = w y @ r' \<Longrightarrow> x = y \<and> r = r'"
  shows "codes ok w"
  unfolding codes_def delim_def
proof (intro allI impI conjI)
  fix x y r r' assume a: "ok x" "ok y"
  show "x = y" if "w x = w y" using assms [OF a, of "[]" "[]"] that by simp
  assume "follow r" "follow r'" "w x @ r = w y @ r'"
  from assms [OF a this] show "w x = w y" "r = r'" by simp_all
qed

text \<open>A text that some reader reads back is self-delimiting.\<close>

lemma codes_reads:
  assumes "\<And>x. ok x \<Longrightarrow> reads p (w x) x"
  shows "codes ok w"
proof (rule codesI)
  fix x y r r' assume "ok x" "ok y" "follow r" "follow r'" "w x @ r = w y @ r'"
  then have "Inr (x, r) = (Inr (y, r') :: jerr + _)" using assms by (metis readsD)
  then show "x = y \<and> r = r'" by simp
qed

section \<open>Strings and integers\<close>

definition unesc :: "string \<Rightarrow> (char \<times> string) option" where
  "unesc s = (case s of
     [] \<Rightarrow> None
   | b # r \<Rightarrow> if b = CHR 0x5C then
       (case r of [] \<Rightarrow> None | e # r' \<Rightarrow>
         (case unescape e of Some x \<Rightarrow> Some (x, r')
          | None \<Rightarrow> map_option (\<lambda>h. (char_of h, drop 4 r')) (parse_hex4 r')))
     else Some (b, r))"

lemma unesc_escape: "unesc (escape c @ r) = Some (c, r)"
proof (cases "raw_char c")
  case True
  then show ?thesis by (simp add: escape_raw unesc_def raw_char_def)
next
  case raw: False
  show ?thesis
  proof (cases "c \<in> {CHR 0x22, CHR 0x5C, CHR 0x08, CHR 0x0C, CHR 0x0A, CHR 0x0D, CHR 0x09}")
    case True
    then show ?thesis by (elim insertE) (simp_all add: escape_def unesc_def unescape_def)
  next
    case False
    then have "(of_char c :: nat) \<le> 0x1F" using raw by (auto simp: raw_char_def)
    moreover have "drop 4 (CHR ''0'' # CHR ''0'' # format_hex2 c @ r) = r" by (simp add: format_hex2_def)
    ultimately show ?thesis using False hex4_format [of c r] by (simp add: escape_def unesc_def unescape_def)
  qed
qed

lemma escape_quote: "escape c @ r \<noteq> CHR 0x22 # r'"
  by (auto simp: escape_def)

lemma codes_str: "codes (\<lambda>_. True) write_str"
proof (rule codesI)
  fix s t :: string and r r' assume "write_str s @ r = write_str t @ r'"
  then have "concat (map escape s) @ CHR 0x22 # r = concat (map escape t) @ CHR 0x22 # r'"
    by (simp add: write_str_def)
  then show "s = t \<and> r = r'"
  proof (induction s arbitrary: t)
    case Nil
    then show ?case using escape_quote by (cases t) (auto dest: sym)
  next
    case (Cons c s)
    show ?case
    proof (cases t)
      case Nil
      then show ?thesis using Cons.prems escape_quote by auto
    next
      case (Cons d t')
      let ?u = "concat (map escape s) @ CHR 0x22 # r" and ?v = "concat (map escape t') @ CHR 0x22 # r'"
      have "escape c @ ?u = escape d @ ?v" using Cons.prems Cons by simp
      then have "Some (c, ?u) = Some (d, ?v)" using unesc_escape by metis
      then show ?thesis using Cons.IH [of t'] Cons by simp
    qed
  qed
qed

lemma codes_i64: "codes in_i64 push_i64_json"
proof (rule codesI)
  fix x y r r' assume a: "in_i64 x" "in_i64 y" "follow r" "follow r'" "push_i64_json x @ r = push_i64_json y @ r'"
  have R: "json_i64 (push_i64_json v @ s) = Inr (v, s)" if "in_i64 v" "v \<noteq> i64_min" "follow s" for v s
    using readsD [OF read_i64 [OF that(1,2)] that(3)] .
  show "x = y \<and> r = r'"
  proof (cases "x = i64_min")
    case True
    then have "json_i64 (push_i64_json y @ r') = Inl JMal" using i64_min_not_read [of r] a(5) by simp
    then have "y = i64_min" using R [OF a(2) _ a(4)] by fastforce
    then show ?thesis using a(5) True by simp
  next
    case False
    note rx = R [OF a(1) False a(3)]
    have "y \<noteq> i64_min"
    proof
      assume "y = i64_min"
      then have "json_i64 (push_i64_json x @ r) = Inl JMal" using i64_min_not_read [of r'] a(5) by simp
      then show False using rx by simp
    qed
    from R [OF a(2) this a(4)] rx a(5) show ?thesis by simp
  qed
qed

lemma codes_u32: "codes (\<lambda>_. True) u32_text"
  unfolding u32_text_def by (rule codes_reads [where p = parse_u32_field]) (rule read_u32)

section \<open>Arrays and objects\<close>

lemma follow_comma [simp]: "follow (concat (map (\<lambda>y. CHR '','' # y) xs) @ CHR '']'' # r)"
  "follow (concat (map (\<lambda>y. CHR '','' # y) xs) @ CHR ''}'' # r)"
  "follow (concat (map ((#) CHR '','' \<circ> w) ys) @ CHR '']'' # r)" "follow (concat (map ((#) CHR '','' \<circ> w) ys) @ CHR ''}'' # r)"
  by (cases xs, simp, simp, cases xs, simp, simp, cases ys, simp, simp, cases ys, simp, simp)

lemma delim_tail:
  assumes "codes ok w" "\<forall>x \<in> set xs. ok x" "\<forall>x \<in> set ys. ok x"
    "concat (map (\<lambda>y. CHR '','' # y) (map w xs)) @ CHR '']'' # r = concat (map (\<lambda>y. CHR '','' # y) (map w ys)) @ CHR '']'' # r'"
  shows "xs = ys \<and> r = r'"
  using assms(2-)
proof (induction xs arbitrary: ys)
  case Nil
  then show ?case by (cases ys) simp_all
next
  case (Cons x xs)
  obtain y ys' where ys: "ys = y # ys'" using Cons.prems by (cases ys) auto
  let ?t = "\<lambda>l r. concat (map (\<lambda>y. CHR '','' # y) (map w l)) @ CHR '']'' # r"
  have "w x @ ?t xs r = w y @ ?t ys' r'" using Cons.prems ys by simp
  then have "w x = w y \<and> ?t xs r = ?t ys' r'"
    using Cons.prems ys by (intro delimD [OF codesD(1) [OF assms(1)]]) simp_all
  then have e: "w x = w y" "?t xs r = ?t ys' r'" by blast+
  have "x = y" by (rule codesD(2) [OF assms(1) _ _ e(1)]) (use Cons.prems ys in simp_all)
  moreover have "xs = ys' \<and> r = r'" by (rule Cons.IH [OF _ _ e(2)]) (use Cons.prems ys in simp_all)
  ultimately show ?case using ys by simp
qed

lemma codes_array:
  assumes "codes ok w" "\<And>x. value_start (w x)"
  shows "codes (\<lambda>xs. \<forall>x \<in> set xs. ok x) (\<lambda>xs. v_array (map w xs))"
proof (rule codesI)
  fix xs ys r r'
  assume ok: "\<forall>x \<in> set xs. ok x" "\<forall>x \<in> set ys. ok x"
    and eq: "v_array (map w xs) @ r = v_array (map w ys) @ r'"
  have "w x @ t \<noteq> CHR '']'' # u" for x t u using assms(2) [of x] by (auto simp: value_start_def)
  then show "xs = ys \<and> r = r'"
  proof (cases xs; cases ys)
    fix x xs' y ys' assume xs: "xs = x # xs'" "ys = y # ys'"
    let ?t = "\<lambda>l r. concat (map (\<lambda>y. CHR '','' # y) (map w l)) @ CHR '']'' # r"
    have "w x @ ?t xs' r = w y @ ?t ys' r'" using eq xs by (simp add: v_array_def)
    then have "w x = w y \<and> ?t xs' r = ?t ys' r'"
      using ok xs by (intro delimD [OF codesD(1) [OF assms(1)]]) simp_all
    then show ?thesis using delim_tail [OF assms(1), of xs' ys' r r'] ok xs codesD(2) [OF assms(1), of x y] by simp
  qed (use eq in \<open>auto simp: v_array_def dest: sym\<close>)
qed

text \<open>Two objects with the same keys.\<close>

definition same_keys :: "(string \<times> string) list \<Rightarrow> (string \<times> string) list \<Rightarrow> bool" where
  "same_keys = list_all2 (\<lambda>(k, v) (k', v'). k = k' \<and> delim v v')"

definition canon_member :: "string \<times> string \<Rightarrow> string" where
  "canon_member m = write_str (fst m) @ '':'' @ snd m"

lemma cmem_cancel: "canon_member m @ t = canon_member m' @ t' \<Longrightarrow> fst m = fst m' \<Longrightarrow> snd m @ t = snd m' @ t'"
  by (simp add: canon_member_def)

lemma members_delim:
  "same_keys ms ms' \<Longrightarrow> concat (map (\<lambda>y. CHR '','' # y) (map canon_member ms)) @ CHR ''}'' # r
      = concat (map (\<lambda>y. CHR '','' # y) (map canon_member ms')) @ CHR ''}'' # r' \<Longrightarrow>
    map snd ms = map snd ms' \<and> r = r'"
  unfolding same_keys_def
proof (induction ms ms' rule: list_all2_induct)
  case (Cons m ms m' ms')
  let ?t = "\<lambda>l r. concat (map (\<lambda>y. CHR '','' # y) (map canon_member l)) @ CHR ''}'' # r"
  have "snd m @ ?t ms r = snd m' @ ?t ms' r'" using Cons by (intro cmem_cancel) (auto simp: split_beta)
  then have "snd m = snd m' \<and> ?t ms r = ?t ms' r'" using Cons.hyps(1) by (intro delimD) (auto simp: split_beta)
  then show ?case using Cons.IH by simp
qed simp

definition obj_canon :: "(string \<times> string) list \<Rightarrow> string" where
  "obj_canon ms = ''{'' @ comma_sep (map canon_member ms) @ ''}''"

lemma obj_delim:
  assumes "same_keys ms ms'" "obj_canon ms @ r = obj_canon ms' @ r'"
  shows "map snd ms = map snd ms' \<and> r = r'"
proof (cases ms)
  case Nil
  then show ?thesis using assms by (simp add: same_keys_def obj_canon_def)
next
  case (Cons m ms2)
  then obtain m' ms2' where e: "ms' = m' # ms2'" "fst m = fst m'" "delim (snd m) (snd m')" "same_keys ms2 ms2'"
    using assms(1) by (auto simp: same_keys_def list_all2_Cons1 split_beta)
  let ?t = "\<lambda>l r. concat (map (\<lambda>y. CHR '','' # y) (map canon_member l)) @ CHR ''}'' # r"
  have "snd m @ ?t ms2 r = snd m' @ ?t ms2' r'"
    using assms(2) Cons e by (intro cmem_cancel) (simp_all add: obj_canon_def)
  then have "snd m = snd m' \<and> ?t ms2 r = ?t ms2' r'" by (intro delimD [OF e(3)]) simp_all
  then show ?thesis using members_delim [OF e(4), of r r'] Cons e(1) by simp
qed

lemma canon_sorted: "sorted (map fst ms) \<Longrightarrow> canon_obj ms = obj_canon ms"
proof -
  have c: "(\<lambda>(k, v). write_str k @ '':'' @ v) = canon_member" by (simp add: fun_eq_iff canon_member_def)
  show "sorted (map fst ms) \<Longrightarrow> canon_obj ms = obj_canon ms"
    unfolding canon_obj_def obj_canon_def c by (simp add: sort_key_id_if_sorted)
qed

section \<open>Formulas\<close>

lemma key_start: "write_str k = [CHR 0x22] @ k @ [CHR 0x22]" if "plain k"
  by (rule plain_write [OF that])

lemma delim_same [simp]: "delim t t" by (simp add: delim_def)

lemma delim_str [simp]: "delim (write_str s) (write_str t)" by (rule codesD(1) [OF codes_str]) simp_all
lemma str_inj: "write_str s = write_str t \<Longrightarrow> s = t" by (rule codesD(2) [OF codes_str]) simp_all
lemma delim_u32 [simp]: "delim (u32_text a) (u32_text b)" by (rule codesD(1) [OF codes_u32]) simp_all
lemma u32_text_inj: "u32_text a = u32_text b \<Longrightarrow> a = b" by (rule codesD(2) [OF codes_u32]) simp_all

text \<open>Objects whose first keys differ are different texts.\<close>

lemma first_key:
  assumes "obj_canon ((k, v) # ms) @ r = obj_canon ((k', v') # ms') @ r'"
  shows "k = k'"
proof -
  have "\<exists>t t'. write_str k @ CHR '':'' # t = write_str k' @ CHR '':'' # t'"
    using assms by (simp add: obj_canon_def canon_member_def) blast
  then obtain t t' where "write_str k @ CHR '':'' # t = write_str k' @ CHR '':'' # t'" by blast
  then have "write_str k = write_str k'" by (intro delimD [OF delim_str, THEN conjunct1]) (simp_all add: follow_def is_digit_def)
  then show ?thesis by (rule str_inj)
qed

lemma oel_texts:
  "canon_oel (OelVar n) = obj_canon [(''name'', write_str n), (''op'', write_str ''Var'')]"
  "canon_oel (OelCast f t a) = obj_canon [(''arg'', canon_oel a), (''from'', write_str f),
     (''op'', write_str ''Cast''), (''to'', write_str t)]"
  by (simp_all add: canon_sorted)

lemma codes_oel: "codes (\<lambda>_. True) canon_oel"
proof (rule codesI)
  fix x y :: oel and r r' assume "canon_oel x @ r = canon_oel y @ r'" "follow r" "follow r'"
  then show "x = y \<and> r = r'"
  proof (induction x arbitrary: y r r')
    case (OelVar n)
    show ?case
    proof (cases y)
      case (OelVar m)
      with OelVar.prems(1) have "obj_canon [(''name'', write_str n), (''op'', write_str ''Var'')] @ r
          = obj_canon [(''name'', write_str m), (''op'', write_str ''Var'')] @ r'" by (simp only: oel_texts)
      from obj_delim [OF _ this] show ?thesis using OelVar by (auto simp: same_keys_def dest: str_inj)
    next
      case (OelCast f t a)
      then show ?thesis using first_key OelVar.prems(1) unfolding oel_texts OelCast by blast
    qed
  next
    case (OelCast f t a)
    show ?case
    proof (cases y)
      case (OelVar m)
      then show ?thesis using first_key OelCast.prems(1) unfolding oel_texts OelVar by blast
    next
      case (OelCast f2 t2 b)
      have "delim (canon_oel a) (canon_oel b)" using OelCast.IH [of _ b] unfolding delim_def by blast
      then have k: "same_keys [(''arg'', canon_oel a), (''from'', write_str f), (''op'', write_str ''Cast''), (''to'', write_str t)]
          [(''arg'', canon_oel b), (''from'', write_str f2), (''op'', write_str ''Cast''), (''to'', write_str t2)]"
        by (simp add: same_keys_def)
      from OelCast OelCast.prems(1) have "obj_canon [(''arg'', canon_oel a), (''from'', write_str f), (''op'', write_str ''Cast''), (''to'', write_str t)] @ r
          = obj_canon [(''arg'', canon_oel b), (''from'', write_str f2), (''op'', write_str ''Cast''), (''to'', write_str t2)] @ r'"
        by (simp only: oel_texts)
      from obj_delim [OF k this] have e: "canon_oel a = canon_oel b" "f = f2" "t = t2" "r = r'"
        by (simp_all add: str_inj)
      have "a = b" using OelCast.IH [of "[]" b "[]"] e(1) by simp
      then show ?thesis using e OelCast by simp
    qed
  qed
qed

lemma delim_oel [simp]: "delim (canon_oel a) (canon_oel b)" by (rule codesD(1) [OF codes_oel]) simp_all
lemma oel_inj: "canon_oel a = canon_oel b \<Longrightarrow> a = b" by (rule codesD(2) [OF codes_oel]) simp_all

lemma value_start_canon: "value_start (canon_oel a)" "value_start (write_str s)"
  by (cases a; simp only: oel_texts obj_canon_def value_start_def; simp) (simp add: value_start_def write_str_def)

lemma delim_strs [simp]: "delim (v_array (map write_str a)) (v_array (map write_str b))"
  by (rule codesD(1) [OF codes_array [OF codes_str value_start_canon(2)]]) simp_all
lemma strs_inj: "v_array (map write_str a) = v_array (map write_str b) \<Longrightarrow> a = b"
  by (rule codesD(2) [OF codes_array [OF codes_str value_start_canon(2)]]) simp_all
lemma delim_args [simp]: "delim (v_array (map canon_oel a)) (v_array (map canon_oel b))"
  by (rule codesD(1) [OF codes_array [OF codes_oel value_start_canon(1)]]) simp_all
lemma args_inj: "v_array (map canon_oel a) = v_array (map canon_oel b) \<Longrightarrow> a = b"
  by (rule codesD(2) [OF codes_array [OF codes_oel value_start_canon(1)]]) simp_all

lemma delim_i64: "in_i64 a \<Longrightarrow> in_i64 b \<Longrightarrow> delim (push_i64_json a) (push_i64_json b)"
  by (rule codesD(1) [OF codes_i64])
lemma i64_inj: "push_i64_json a = push_i64_json b \<Longrightarrow> in_i64 a \<Longrightarrow> in_i64 b \<Longrightarrow> a = b"
  by (rule codesD(2) [OF codes_i64])

text \<open>\<open>null\<close> is neither a string nor a number.\<close>

lemma null_start: "write_str s @ r \<noteq> ''null'' @ r'" "u32_text n @ r \<noteq> ''null'' @ r'"
proof -
  show "write_str s @ r \<noteq> ''null'' @ r'" by (simp add: write_str_def)
  have b: "0 \<le> uint n" "uint n < 10 ^ 20" "i64_min < 0" using uint_u32_bounds [of n] by (simp_all add: i64_simps)
  then have m: "uint n \<noteq> i64_min" by linarith
  have "u32_text n = decimal (uint n)" by (simp add: u32_text_def push_decimal [OF m])
  then show "u32_text n @ r \<noteq> ''null'' @ r'"
    using decimal_props(1,2) [OF b(1,2)] by (cases "decimal (uint n)") (auto simp: is_digit_def)
qed

definition opt_str :: "string option \<Rightarrow> string" where
  "opt_str x = (case x of Some r \<Rightarrow> write_str r | None \<Rightarrow> ''null'')"

definition opt_u32 :: "u32 option \<Rightarrow> string" where
  "opt_u32 x = (case x of Some n \<Rightarrow> u32_text n | None \<Rightarrow> ''null'')"

lemma codes_opt_str: "codes (\<lambda>_. True) opt_str"
proof (rule codesI)
  fix x y r r' assume f: "follow r" "follow r'" and eq: "opt_str x @ r = opt_str y @ r'"
  show "x = y \<and> r = r'"
  proof (cases x)
    case None
    then show ?thesis using eq null_start(1) [THEN not_sym] by (cases y) (auto simp: opt_str_def)
  next
    case (Some a)
    then obtain b where "y = Some b" using eq null_start(1) [of a r r'] by (cases y) (simp_all add: opt_str_def)
    then show ?thesis using delimD [OF delim_str f, of a b] eq Some by (auto simp: opt_str_def dest: str_inj)
  qed
qed

lemma codes_opt_u32: "codes (\<lambda>_. True) opt_u32"
proof (rule codesI)
  fix x y r r' assume f: "follow r" "follow r'" and eq: "opt_u32 x @ r = opt_u32 y @ r'"
  show "x = y \<and> r = r'"
  proof (cases x)
    case None
    then show ?thesis using eq null_start(2) [THEN not_sym] by (cases y) (auto simp: opt_u32_def)
  next
    case (Some a)
    then obtain b where "y = Some b" using eq null_start(2) [of a r r'] by (cases y) (simp_all add: opt_u32_def)
    then show ?thesis using delimD [OF delim_u32 f, of a b] eq Some by (auto simp: opt_u32_def dest: u32_text_inj)
  qed
qed

lemma delim_opts [simp]: "delim (opt_str a) (opt_str b)" "delim (opt_u32 c) (opt_u32 d)"
  by (rule codesD(1) [OF codes_opt_str] codesD(1) [OF codes_opt_u32]; simp)+

lemma opts_inj: "opt_str a = opt_str b \<Longrightarrow> a = b" "opt_u32 c = opt_u32 d \<Longrightarrow> c = d"
  using codesD(2) [OF codes_opt_str] codesD(2) [OF codes_opt_u32] by simp_all

lemmas text_injs = str_inj u32_text_inj strs_inj args_inj oel_inj opts_inj

section \<open>Predicates, formulas, contexts\<close>

lemma predicate_text: "canon_predicate p = obj_canon [(''ir'', v_array (map write_str (pr_ir p))),
    (''ir_hash'', write_str (pr_ir_hash p)), (''module'', write_str (pr_module p)), (''name'', write_str (pr_name p))]"
  by (simp add: canon_predicate_def canon_sorted)

lemma codes_predicate: "codes (\<lambda>_. True) canon_predicate"
proof (rule codesI)
  fix x y :: predicate_ref and r r' assume "canon_predicate x @ r = canon_predicate y @ r'"
  note e = obj_delim [OF _ this [unfolded predicate_text]]
  show "x = y \<and> r = r'"
    using e by (cases x; cases y) (simp add: same_keys_def text_injs; blast dest: text_injs)
qed

fun formula_i64 :: "formula \<Rightarrow> bool" where
  "formula_i64 (InRange v lo hi) = (in_i64 lo \<and> in_i64 hi)"
| "formula_i64 f = True"

lemma formula_texts:
  "push_formula (InRange v lo hi) = obj_canon [(''hi'', push_i64_json hi), (''lo'', push_i64_json lo),
     (''op'', write_str ''InRange''), (''value'', canon_oel v)]"
  "push_formula (OffsetLE off width sz) = obj_canon
     [(''off'', opt_u32 off), (''op'', write_str ''OffsetLE''), (''size'', u32_text sz), (''width'', u32_text width)]"
  "push_formula (PredicateHolds p args) = obj_canon [(''args'', v_array (map canon_oel args)),
     (''op'', write_str ''PredicateHolds''), (''predicate'', canon_predicate p)]"
  by (simp_all add: canon_sorted opt_u32_def)

lemma codes_formula: "codes formula_i64 push_formula"
proof (rule codesI)
  fix x y :: formula and r r'
  assume ok: "formula_i64 x" "formula_i64 y" and eq: "push_formula x @ r = push_formula y @ r'"
  have dp: "delim (canon_predicate p) (canon_predicate q)" for p q by (rule codesD(1) [OF codes_predicate]) simp_all
  have ip: "canon_predicate p = canon_predicate q \<Longrightarrow> p = q" for p q by (rule codesD(2) [OF codes_predicate]) simp_all
  show "x = y \<and> r = r'"
  proof (cases x)
    case X: (InRange v lo hi)
    then obtain v2 lo2 hi2 where Y: "y = InRange v2 lo2 hi2" using eq by (cases y) (auto simp only: formula_texts dest!: first_key)
    show ?thesis
      using obj_delim [OF _ eq [unfolded X Y formula_texts]] ok
      by (simp add: X Y same_keys_def delim_i64) (blast dest: i64_inj oel_inj)
  next
    case X: (OffsetLE off w s)
    then obtain off2 w2 s2 where Y: "y = OffsetLE off2 w2 s2" using eq by (cases y) (auto simp only: formula_texts dest!: first_key)
    show ?thesis
      using obj_delim [OF _ eq [unfolded X Y formula_texts]]
      by (simp add: X Y same_keys_def) (blast dest: text_injs)
  next
    case X: (PredicateHolds p args)
    then obtain p2 args2 where Y: "y = PredicateHolds p2 args2" using eq by (cases y) (auto simp only: formula_texts dest!: first_key)
    show ?thesis
      using obj_delim [OF _ eq [unfolded X Y formula_texts]]
      by (simp add: X Y same_keys_def dp) (blast dest: text_injs ip)
  qed
qed

lemma context_text: "push_context c = obj_canon
     [(''kind'', write_str (kind_str (sc_kind c))), (''model_semantics'', write_str (sc_model_semantics c)),
      (''module'', write_str (sc_module c)), (''occurrence'', u32_text (sc_occurrence c)),
      (''refinement'', opt_str (sc_refinement c)),
      (''semantics'', write_str (sc_semantics c)), (''stmt_ver'', write_str (sc_stmt_ver c)),
      (''target'', write_str (sc_target c)), (''word'', write_str (sc_word c)),
      (''word_ir_hash'', write_str (sc_word_ir_hash c))]"
  by (simp add: push_context_def canon_sorted opt_str_def)

lemma kind_str_eq: "kind_str k = kind_str k' \<Longrightarrow> k = k'"
  by (metis kind_round_trip option.inject)

lemma codes_context: "codes (\<lambda>_. True) push_context"
proof (rule codesI)
  fix x y :: statement_context and r r' assume "push_context x @ r = push_context y @ r'"
  note e = obj_delim [OF _ this [unfolded context_text]]
  show "x = y \<and> r = r'"
    using e by (cases x; cases y) (simp add: same_keys_def; blast dest: text_injs kind_str_eq)
qed

lemma canonical_facts:
  assumes "canonical_bytes c f = canonical_bytes c' f'" "formula_i64 f" "formula_i64 f'"
  shows "c = c' \<and> f = f'"
proof -
  have t: "canonical_bytes c f = ''{'' @ member ''context'' (push_context c @ CHR '','' # member ''formula'' (push_formula f @ ''}''))" for c f
    by (simp add: canonical_bytes_def obj_text_def member_def)
  have "push_context c @ CHR '','' # member ''formula'' (push_formula f @ ''}'')
      = push_context c' @ CHR '','' # member ''formula'' (push_formula f' @ ''}'')"
    using assms(1) unfolding t by (simp add: member_def)
  moreover have "delim (push_context c) (push_context c')" by (rule codesD(1) [OF codes_context]) simp_all
  ultimately have "push_context c = push_context c' \<and> CHR '','' # member ''formula'' (push_formula f @ ''}'')
      = CHR '','' # member ''formula'' (push_formula f' @ ''}'')"
    by (intro delimD) simp_all
  then have "push_context c = push_context c'" "push_formula f @ ''}'' = push_formula f' @ ''}''"
    by (simp_all add: member_def)
  then show ?thesis
    using codesD(2) [OF codes_context, of c c'] codesD(2) [OF codes_formula assms(2,3)] by simp
qed

text \<open>C9: a statement hash binds the whole claim: the canonical bytes that are hashed differ
  whenever any field of the context (module, word, word IR hash, kind, occurrence, target, model,
  refinement, versions) or any part of the formula differs, whatever the strings contain.\<close>

theorem statement_binding:
  "formula_i64 f \<Longrightarrow> formula_i64 f' \<Longrightarrow> canonical_bytes c f = canonical_bytes c' f' \<Longrightarrow> c = c' \<and> f = f'"
  by (rule canonical_facts)

definition demo_ctx :: "string \<Rightarrow> statement_context" where
  "demo_ctx w = \<lparr>sc_semantics = SEMANTICS_VERSION, sc_stmt_ver = STMT_SCHEMA, sc_target = ''x86'',
     sc_model_semantics = MODEL_UNMODELED, sc_module = ''m'', sc_word = w, sc_word_ir_hash = ''00'',
     sc_kind = SubtypeRange, sc_occurrence = 0, sc_refinement = None\<rparr>"

theorem statement_binding_witness:
  "canonical_bytes (demo_ctx ''v'') (InRange (OelVar ''in.0'') 0 9) \<noteq> canonical_bytes (demo_ctx ''w'') (InRange (OelVar ''in.0'') 0 9)"
  using statement_binding [of "InRange (OelVar ''in.0'') 0 9" "InRange (OelVar ''in.0'') 0 9" "demo_ctx ''v''" "demo_ctx ''w''"]
  by (auto simp: demo_ctx_def in_i64_def i64_simps)

end
