(* ===== verification/VerdictCodec.thy ===== *)
theory VerdictCodec
  imports Verdict JsonRt
begin

text \<open>
  The verdicts file codec of crates/verifier/src/verdict.rs: the writers of a verdicts file
  and of an echo, and the reader \<open>VReader\<close> with its own strings, integers and skipping, the
  closed enumerations and the rules every record must satisfy.
\<close>

section \<open>Reader primitives\<close>

text \<open>Strings: no unicode escapes, at most 512 bytes.\<close>

definition v_unescape :: "char \<Rightarrow> char option" where
  "v_unescape e = unescape e"

fun v_parse_chars :: "string \<Rightarrow> string \<Rightarrow> jerr + string \<times> string" where
  "v_parse_chars out [] = Inl JMal"
| "v_parse_chars out (b # r) =
    (if b = CHR 0x22 then Inr (out, r)
     else if b = CHR 0x5C then
       (case r of
          [] \<Rightarrow> Inl JMal
        | e # r' \<Rightarrow>
           (case v_unescape e of
              None \<Rightarrow> Inl JMal
            | Some x \<Rightarrow>
                if VERDICT_ID_MAX_BYTES < length out + 1 then Inl JMal else v_parse_chars (out @ [x]) r'))
     else if (of_char b :: nat) \<le> 31 then Inl JMal
     else if VERDICT_ID_MAX_BYTES < length out + 1 then Inl JMal
     else v_parse_chars (out @ [b]) r)"

definition v_parse_string :: "string \<Rightarrow> jerr + string \<times> string" where
  "v_parse_string r = bindE (bump (skip_ws r)) (\<lambda>(c, r).
     if c \<noteq> CHR 0x22 then Inl JMal
     else bindE (v_parse_chars '''' r) (\<lambda>(s, r). if is_utf8 s then Inr (s, r) else Inl JMal))"

definition v_parse_i64 :: "string \<Rightarrow> jerr + i64 \<times> string" where
  "v_parse_i64 r =
    (let r = skip_ws r; neg = (peek r = Some (CHR ''-'')); r = (if neg then tl r else r);
         ds = takeWhile is_digit r
     in if ds = [] then Inl JMal
        else if i64_max < digits_value ds then Inl JMal
        else Inr (if neg then - digits_value ds else digits_value ds, dropWhile is_digit r))"

definition v_parse_u32 :: "string \<Rightarrow> jerr + u32 \<times> string" where
  "v_parse_u32 r = bindE (v_parse_i64 r) (\<lambda>(v, r).
     if v < 0 \<or> 2 ^ 32 - 1 < v then Inl JMal else Inr (word_of_int v, r))"

text \<open>Skipping: brackets of one kind are counted, strings are read over.\<close>

fun v_skip_nest :: "nat \<Rightarrow> char \<Rightarrow> char \<Rightarrow> nat \<Rightarrow> string \<Rightarrow> jerr + unit \<times> string" where
  "v_skip_nest 0 opn cls d r = Inl JFuel"
| "v_skip_nest (Suc k) opn cls d r =
    (if d = 0 then Inr ((), r)
     else (case r of
        [] \<Rightarrow> Inl JMal
      | c # r' \<Rightarrow>
          if c = opn then v_skip_nest k opn cls (d + 1) r'
          else if c = cls then v_skip_nest k opn cls (d - 1) r'
          else if c = CHR 0x22 then bindE (v_parse_string r) (\<lambda>(_, r). v_skip_nest k opn cls d r)
          else v_skip_nest k opn cls d r'))"

definition skip_token :: "string \<Rightarrow> string \<Rightarrow> jerr + unit \<times> string" where
  "skip_token tok r = (if starts_with r tok then Inr ((), drop (length tok) r) else Inl JMal)"

definition v_skip_value :: "string \<Rightarrow> jerr + unit \<times> string" where
  "v_skip_value r = (let r = skip_ws r in
     case r of
       [] \<Rightarrow> Inl JMal
     | c # r' \<Rightarrow>
        if c = CHR 0x22 then bindE (v_parse_string r) (\<lambda>(_, r). Inr ((), r))
        else if c = CHR ''{'' then v_skip_nest (Suc (length r')) (CHR ''{'') (CHR ''}'') 1 r'
        else if c = CHR ''['' then v_skip_nest (Suc (length r')) (CHR ''['') (CHR '']'') 1 r'
        else if c = CHR ''t'' then skip_token ''true'' r
        else if c = CHR ''f'' then skip_token ''false'' r
        else if c = CHR ''n'' then skip_token ''null'' r
        else if c = CHR ''-'' \<or> is_digit c then bindE (v_parse_i64 r) (\<lambda>(_, r). Inr ((), r))
        else Inl JMal)"

abbreviation v_obj :: "(string \<times> 'a handler) list \<Rightarrow> 'a \<Rightarrow> string \<Rightarrow> jerr + 'a \<times> string" where
  "v_obj tbl \<equiv> parse_obj v_parse_string (match_key v_skip_value tbl)"

text \<open>A value that must be one of a closed set.\<close>

definition fld_enum :: "(string \<Rightarrow> 'v option) \<Rightarrow> (string \<Rightarrow> jerr) \<Rightarrow> ('v \<Rightarrow> 'a \<Rightarrow> 'a) \<Rightarrow> 'a handler" where
  "fld_enum parse err g acc r = bindE (v_parse_string r) (\<lambda>(s, r).
     case parse s of None \<Rightarrow> Inl (err s) | Some v \<Rightarrow> Inr (g v acc, r))"

abbreviation v_str_fld :: "(string \<Rightarrow> 'a \<Rightarrow> 'a) \<Rightarrow> 'a handler" where
  "v_str_fld \<equiv> fld v_parse_string"

definition finish :: "('a \<Rightarrow> jerr + 'b) \<Rightarrow> jerr + 'a \<times> string \<Rightarrow> jerr + 'b \<times> string" where
  "finish f q = bindE q (\<lambda>(a, r). bindE (f a) (\<lambda>b. Inr (b, r)))"

definition req :: "'a option \<Rightarrow> jerr + 'a" where
  "req x = (case x of Some v \<Rightarrow> Inr v | None \<Rightarrow> Inl JMal)"

definition or_else :: "'a option \<Rightarrow> 'a \<Rightarrow> 'a" where
  "or_else x d = (case x of Some v \<Rightarrow> v | None \<Rightarrow> d)"

section \<open>Objects of the file\<close>

record cert_slots =
  yc_class :: "string option"
  yc_name :: "string option"
  yc_recognition :: "string option"
  yc_tool_name :: "string option"
  yc_tool_version :: "string option"
  yc_toolchain :: "string option"

definition tool_table :: "(string \<times> cert_slots handler) list" where
  "tool_table = [(''name'', v_str_fld (\<lambda>v a. a\<lparr>yc_tool_name := Some v\<rparr>)),
     (''version'', v_str_fld (\<lambda>v a. a\<lparr>yc_tool_version := Some v\<rparr>))]"

definition cert_table :: "(string \<times> cert_slots handler) list" where
  "cert_table = [(''class'', v_str_fld (\<lambda>v a. a\<lparr>yc_class := Some v\<rparr>)),
     (''name'', v_str_fld (\<lambda>v a. a\<lparr>yc_name := Some v\<rparr>)),
     (''recognition'', v_str_fld (\<lambda>v a. a\<lparr>yc_recognition := Some v\<rparr>)),
     (''tool'', \<lambda>a r. v_obj tool_table a r),
     (''toolchain'', v_str_fld (\<lambda>v a. a\<lparr>yc_toolchain := Some v\<rparr>))]"

definition cert_empty :: cert_slots where
  "cert_empty = \<lparr>yc_class = None, yc_name = None, yc_recognition = None, yc_tool_name = None,
     yc_tool_version = None, yc_toolchain = None\<rparr>"

definition cert_done :: "cert_slots \<Rightarrow> jerr + certifier option" where
  "cert_done a = (case (yc_class a, yc_name a, yc_recognition a) of
     (Some c, Some n, Some g) \<Rightarrow> Inr (Some \<lparr>ce_class = c, ce_name = n, ce_recognition = g,
        ce_tool = \<lparr>ti_name = or_else (yc_tool_name a) [], ti_version = or_else (yc_tool_version a) []\<rparr>,
        ce_toolchain = or_else (yc_toolchain a) []\<rparr>)
   | _ \<Rightarrow> Inl JMal)"

definition parse_certifier :: "string \<Rightarrow> jerr + certifier option \<times> string" where
  "parse_certifier r = (let r = skip_ws r in
     if peek r = Some (CHR ''n'') then bindE (v_skip_value r) (\<lambda>(_, r). Inr (None, r))
     else finish cert_done (v_obj cert_table cert_empty r))"

record proof_slots =
  yp_kind :: "proof_kind option"
  yp_statement :: "string option"
  yp_theorem :: "string option"
  yp_kernel_check :: "string option"
  yp_file :: "string option"
  yp_relies :: "string list option"

definition parse_str_array :: "string \<Rightarrow> jerr + string list \<times> string" where
  "parse_str_array = parse_arr v_parse_string"

definition proof_table :: "(string \<times> proof_slots handler) list" where
  "proof_table = [(''kind'', fld_enum proof_kind_parse (\<lambda>s. JUnknown s ''proof.kind'') (\<lambda>v a. a\<lparr>yp_kind := Some v\<rparr>)),
     (''statement'', v_str_fld (\<lambda>v a. a\<lparr>yp_statement := Some v\<rparr>)),
     (''theorem'', v_str_fld (\<lambda>v a. a\<lparr>yp_theorem := Some v\<rparr>)),
     (''kernel_check'', v_str_fld (\<lambda>v a. a\<lparr>yp_kernel_check := Some v\<rparr>)),
     (''file'', v_str_fld (\<lambda>v a. a\<lparr>yp_file := Some v\<rparr>)),
     (''relies'', fld parse_str_array (\<lambda>v a. a\<lparr>yp_relies := Some v\<rparr>))]"

definition proof_empty :: proof_slots where
  "proof_empty = \<lparr>yp_kind = None, yp_statement = None, yp_theorem = None, yp_kernel_check = None,
     yp_file = None, yp_relies = None\<rparr>"

definition proof_done :: "proof_slots \<Rightarrow> jerr + proof_info" where
  "proof_done a = (case (yp_kind a, yp_statement a) of
     (Some k, Some s) \<Rightarrow> Inr \<lparr>pi_kind = k, pi_statement = s, pi_theorem = yp_theorem a,
        pi_kernel_check = yp_kernel_check a, pi_file = yp_file a, pi_relies = yp_relies a\<rparr>
   | _ \<Rightarrow> Inl JMal)"

definition parse_proof :: "string \<Rightarrow> jerr + proof_info \<times> string" where
  "parse_proof r = finish proof_done (v_obj proof_table proof_empty r)"

definition claimed_table :: "(string \<times> claimed handler) list" where
  "claimed_table = [(''status'', v_str_fld (\<lambda>v a. a\<lparr>cl_status := Some v\<rparr>)),
     (''trust'', v_str_fld (\<lambda>v a. a\<lparr>cl_trust := Some v\<rparr>)),
     (''method'', v_str_fld (\<lambda>v a. a\<lparr>cl_method := Some v\<rparr>)),
     (''statement_hash'', v_str_fld (\<lambda>v a. a\<lparr>cl_statement_hash := Some v\<rparr>))]"

definition claimed_default :: claimed where
  "claimed_default = \<lparr>cl_status = None, cl_trust = None, cl_method = None, cl_statement_hash = None\<rparr>"

definition parse_claimed :: "string \<Rightarrow> jerr + claimed \<times> string" where
  "parse_claimed r = v_obj claimed_table claimed_default r"

subsection \<open>Records\<close>

record record_slots =
  yr_id :: "string option"
  yr_id_hash :: "string option"
  yr_status :: "rec_status option"
  yr_trust :: "trust option"
  yr_method :: "vmethod option"
  yr_surface :: "proof_surface option"
  yr_statement_hash :: "string option"
  yr_authored :: "authored option"
  yr_proof :: "proof_info option"
  yr_claimed :: "claimed option"
  yr_justification :: "string option"
  yr_witness_reason :: "string option"
  yr_note :: "string option"

definition record_empty :: record_slots where
  "record_empty = \<lparr>yr_id = None, yr_id_hash = None, yr_status = None, yr_trust = None, yr_method = None,
     yr_surface = None, yr_statement_hash = None, yr_authored = None, yr_proof = None, yr_claimed = None,
     yr_justification = None, yr_witness_reason = None, yr_note = None\<rparr>"

definition witness_table :: "(string \<times> record_slots handler) list" where
  "witness_table = [(''reason'', v_str_fld (\<lambda>v a. a\<lparr>yr_witness_reason := Some v\<rparr>))]"

definition record_table :: "parse_surface \<Rightarrow> (string \<times> record_slots handler) list" where
  "record_table surface = [(''id'', v_str_fld (\<lambda>v a. a\<lparr>yr_id := Some v\<rparr>)),
     (''id_hash'', v_str_fld (\<lambda>v a. a\<lparr>yr_id_hash := Some v\<rparr>)),
     (''status'', fld_enum (\<lambda>s. status_parse s surface) (\<lambda>_. JMal) (\<lambda>v a. a\<lparr>yr_status := Some v\<rparr>)),
     (''trust'', fld_enum trust_parse (\<lambda>_. JMal) (\<lambda>v a. a\<lparr>yr_trust := Some v\<rparr>)),
     (''method'', fld_enum method_parse (\<lambda>s. JUnknown s ''method'') (\<lambda>v a. a\<lparr>yr_method := Some v\<rparr>)),
     (''surface'', fld_enum proof_surface_parse (\<lambda>_. JMal) (\<lambda>v a. a\<lparr>yr_surface := Some v\<rparr>)),
     (''statement_hash'', v_str_fld (\<lambda>v a. a\<lparr>yr_statement_hash := Some v\<rparr>)),
     (''authored'', fld_enum authored_parse (\<lambda>_. JMal) (\<lambda>v a. a\<lparr>yr_authored := Some v\<rparr>)),
     (''proof'', fld parse_proof (\<lambda>v a. a\<lparr>yr_proof := Some v\<rparr>)),
     (''claimed'', fld parse_claimed (\<lambda>v a. a\<lparr>yr_claimed := Some v\<rparr>)),
     (''justification'', v_str_fld (\<lambda>v a. a\<lparr>yr_justification := Some v\<rparr>)),
     (''witness'', \<lambda>a r. v_obj witness_table a r),
     (''note'', v_str_fld (\<lambda>v a. a\<lparr>yr_note := Some v\<rparr>))]"

text \<open>The rules of a record: a closed status needs a trust class, \<open>proof\<close> trust needs a proof,
  a statement-binding method needs the hash.\<close>

definition record_done :: "record_slots \<Rightarrow> jerr + verdict_record" where
  "record_done a =
    (case (yr_id a, yr_id_hash a, yr_status a) of
       (Some i, Some h, Some st) \<Rightarrow>
         (let tr = or_else (yr_trust a) TrustOpen in
          if status_is_closed st \<and> tr = TrustOpen then Inl JMal
          else if tr = TrustProof \<and> yr_proof a = None then Inl JMal
          else if (case yr_method a of Some m \<Rightarrow> binds_statement m \<and> yr_statement_hash a = None | None \<Rightarrow> False)
          then Inl JMal
          else Inr \<lparr>vr_id = i, vr_id_hash = h, vr_status = st, vr_trust = tr, vr_method = yr_method a,
            vr_surface = yr_surface a, vr_statement_hash = yr_statement_hash a, vr_authored = yr_authored a,
            vr_proof = yr_proof a, vr_claimed = yr_claimed a, vr_justification = yr_justification a,
            vr_witness_reason = yr_witness_reason a, vr_note = yr_note a\<rparr>)
     | _ \<Rightarrow> Inl JMal)"

definition parse_record :: "parse_surface \<Rightarrow> string \<Rightarrow> jerr + verdict_record \<times> string" where
  "parse_record surface r = finish record_done (v_obj (record_table surface) record_empty r)"

definition parse_records :: "parse_surface \<Rightarrow> string \<Rightarrow> jerr + verdict_record list \<times> string" where
  "parse_records surface = parse_arr (parse_record surface)"

subsection \<open>Echo members\<close>

definition emitted_table :: "(string \<times> emitted_checks handler) list" where
  "emitted_table = [(''subtype_range'', fld v_parse_u32 (\<lambda>v a. a\<lparr>em_subtype_range := v\<rparr>)),
     (''contract'', fld v_parse_u32 (\<lambda>v a. a\<lparr>em_contract := v\<rparr>)),
     (''mmio_bounds'', fld v_parse_u32 (\<lambda>v a. a\<lparr>em_mmio_bounds := v\<rparr>))]"

definition emitted_default :: emitted_checks where
  "emitted_default = \<lparr>em_subtype_range = 0, em_contract = 0, em_mmio_bounds = 0\<rparr>"

definition parse_emitted :: "string \<Rightarrow> jerr + emitted_checks \<times> string" where
  "parse_emitted r = v_obj emitted_table emitted_default r"

definition sources_table :: "(string \<times> (u32 \<times> u32) handler) list" where
  "sources_table = [(''file'', fld v_parse_u32 (\<lambda>v a. (v, snd a))), (''in_tree'', fld v_parse_u32 (\<lambda>v a. (fst a, v)))]"

definition parse_verdict_sources :: "string \<Rightarrow> jerr + (u32 \<times> u32) \<times> string" where
  "parse_verdict_sources r = v_obj sources_table (0, 0) r"

record pair_slots =
  yx_id :: "string option"
  yx_text :: "string option"

definition pair_table :: "string \<Rightarrow> (string \<times> pair_slots handler) list" where
  "pair_table key = [(''id'', v_str_fld (\<lambda>v a. a\<lparr>yx_id := Some v\<rparr>)), (key, v_str_fld (\<lambda>v a. a\<lparr>yx_text := Some v\<rparr>))]"

definition pfi_done :: "pair_slots \<Rightarrow> jerr + provably_failing_record" where
  "pfi_done a = (case (yx_id a, yx_text a) of
     (Some i, Some n) \<Rightarrow> Inr \<lparr>pfr_id = i, pfr_note = n\<rparr> | _ \<Rightarrow> Inl JMal)"

definition reason_done :: "pair_slots \<Rightarrow> jerr + open_reason_record" where
  "reason_done a = (case (yx_id a, yx_text a) of
     (Some i, Some n) \<Rightarrow> Inr \<lparr>orr_id = i, orr_reason = n\<rparr> | _ \<Rightarrow> Inl JMal)"

definition parse_pfi :: "string \<Rightarrow> jerr + provably_failing_record list \<times> string" where
  "parse_pfi = parse_arr (\<lambda>r. finish pfi_done (v_obj (pair_table ''note'') \<lparr>yx_id = None, yx_text = None\<rparr> r))"

definition parse_reasons :: "string \<Rightarrow> jerr + open_reason_record list \<times> string" where
  "parse_reasons = parse_arr (\<lambda>r. finish reason_done (v_obj (pair_table ''reason'') \<lparr>yx_id = None, yx_text = None\<rparr> r))"

subsection \<open>The document\<close>

record vdoc_slots =
  yd_schema :: "string option"
  yd_semantics :: "string option"
  yd_stmt :: "string option"
  yd_certifier :: "certifier option"
  yd_target :: "string option"
  yd_model_semantics :: "string option"
  yd_concurrency :: "string option"
  yd_records :: "verdict_record list option"
  yd_stale :: "u32 option"
  yd_emitted :: "emitted_checks option"
  yd_failing :: "provably_failing_record list option"
  yd_reasons :: "open_reason_record list option"
  yd_file :: "u32 option"
  yd_in_tree :: "u32 option"

definition vdoc_empty :: vdoc_slots where
  "vdoc_empty = \<lparr>yd_schema = None, yd_semantics = None, yd_stmt = None, yd_certifier = None, yd_target = None,
     yd_model_semantics = None, yd_concurrency = None, yd_records = None, yd_stale = None, yd_emitted = None,
     yd_failing = None, yd_reasons = None, yd_file = None, yd_in_tree = None\<rparr>"

definition vdoc_table :: "parse_surface \<Rightarrow> (string \<times> vdoc_slots handler) list" where
  "vdoc_table surface = [(''schema'', v_str_fld (\<lambda>v a. a\<lparr>yd_schema := Some v\<rparr>)),
     (''semantics'', v_str_fld (\<lambda>v a. a\<lparr>yd_semantics := Some v\<rparr>)),
     (''stmt'', v_str_fld (\<lambda>v a. a\<lparr>yd_stmt := Some v\<rparr>)),
     (''certifier'', fld parse_certifier (\<lambda>v a. a\<lparr>yd_certifier := v\<rparr>)),
     (''target'', v_str_fld (\<lambda>v a. a\<lparr>yd_target := Some v\<rparr>)),
     (''model_semantics'', v_str_fld (\<lambda>v a. a\<lparr>yd_model_semantics := Some v\<rparr>)),
     (''concurrency'', v_str_fld (\<lambda>v a. a\<lparr>yd_concurrency := Some v\<rparr>)),
     (''verdicts'', fld (parse_records surface) (\<lambda>v a. a\<lparr>yd_records := Some v\<rparr>)),
     (''stale_verdicts'', fld v_parse_u32 (\<lambda>v a. a\<lparr>yd_stale := Some v\<rparr>)),
     (''emitted'', fld parse_emitted (\<lambda>v a. a\<lparr>yd_emitted := Some v\<rparr>)),
     (''provably_failing'', fld parse_pfi (\<lambda>v a. a\<lparr>yd_failing := Some v\<rparr>)),
     (''open_reasons'', fld parse_reasons (\<lambda>v a. a\<lparr>yd_reasons := Some v\<rparr>)),
     (''verdict_sources'', fld parse_verdict_sources (\<lambda>v a. a\<lparr>yd_file := Some (fst v), yd_in_tree := Some (snd v)\<rparr>))]"

text \<open>\<open>Doc\<close> is the schema, the semantics and the echo.\<close>

definition vdoc_done :: "vdoc_slots \<Rightarrow> jerr + string \<times> string \<times> echo" where
  "vdoc_done a =
    (case (yd_schema a, yd_semantics a, yd_records a) of
       (Some sc, Some sem, Some rs) \<Rightarrow> Inr (sc, sem,
         \<lparr>ec_verdicts = \<lparr>ve_semantics = sem, ve_stmt = or_else (yd_stmt a) VERDICTS_STMT,
            ve_certifier = yd_certifier a, ve_target = or_else (yd_target a) [],
            ve_model_semantics = or_else (yd_model_semantics a) [],
            ve_concurrency = or_else (yd_concurrency a) CONCURRENCY_UNMODELED, ve_records = rs\<rparr>,
          ec_stale = or_else (yd_stale a) 0, ec_emitted = or_else (yd_emitted a) emitted_default,
          ec_provably_failing = or_else (yd_failing a) [], ec_open_reasons = or_else (yd_reasons a) [],
          ec_file_verdicts = or_else (yd_file a) 0, ec_in_tree_verdicts = or_else (yd_in_tree a) 0\<rparr>)
     | _ \<Rightarrow> Inl JMal)"

definition v_parse_doc :: "parse_surface \<Rightarrow> string \<Rightarrow> jerr + (string \<times> string \<times> echo) \<times> string" where
  "v_parse_doc surface r = finish vdoc_done (v_obj (vdoc_table surface) vdoc_empty r)"

fun v_err :: "jerr \<Rightarrow> verdict_error" where
  "v_err JMal = VMalformed"
| "v_err JFuel = VFuel"
| "v_err (JUnknown s k) = VUnknownMethod s k"

definition echo_read :: "string \<Rightarrow> parse_surface \<Rightarrow> verdict_error + echo" where
  "echo_read bs surface =
    (if VERDICTS_FILE_MAX_BYTES < length bs then Inl (VTooLarge (length bs))
     else (case v_parse_doc surface bs of
        Inl e \<Rightarrow> Inl (v_err e)
      | Inr ((sc, sem, e), _) \<Rightarrow>
          if sc \<noteq> VERDICTS_SCHEMA then Inl (VSchemaVersion sc)
          else if sem \<noteq> SEMANTICS_VERSION then Inl (VSemanticsMismatch sem)
          else Inr e))"

definition read_verdicts :: "string \<Rightarrow> verdict_error + verdicts" where
  "read_verdicts bs = bindE (echo_read bs SurfaceInput) (\<lambda>e.
     Inr ((ec_verdicts e)\<lparr>ve_records := sort_key vr_id (ve_records (ec_verdicts e))\<rparr>))"

definition read_echo :: "string \<Rightarrow> verdict_error + echo" where
  "read_echo bs = echo_read bs SurfaceEcho"

section \<open>Writer\<close>

text \<open>Optional members leave no trace when absent; those of \<open>claimed\<close> are \<open>null\<close>.\<close>

definition opt_member :: "string \<Rightarrow> ('v \<Rightarrow> string) \<Rightarrow> 'v option \<Rightarrow> (string \<times> string) list" where
  "opt_member k w x = (case x of Some v \<Rightarrow> [(k, w v)] | None \<Rightarrow> [])"

definition str_or_null :: "string option \<Rightarrow> string" where
  "str_or_null x = (case x of Some v \<Rightarrow> write_str v | None \<Rightarrow> ''null'')"

definition write_proof :: "proof_info \<Rightarrow> string" where
  "write_proof p = obj_text ([(''kind'', write_str (proof_kind_str (pi_kind p))), (''statement'', write_str (pi_statement p))]
     @ opt_member ''theorem'' write_str (pi_theorem p) @ opt_member ''kernel_check'' write_str (pi_kernel_check p)
     @ opt_member ''file'' write_str (pi_file p) @ opt_member ''relies'' (arr_text write_str) (pi_relies p))"

definition write_claimed :: "claimed \<Rightarrow> string" where
  "write_claimed c = obj_text [(''status'', str_or_null (cl_status c)), (''trust'', str_or_null (cl_trust c)),
     (''method'', str_or_null (cl_method c)), (''statement_hash'', str_or_null (cl_statement_hash c))]"

definition push_record_json :: "verdict_record \<Rightarrow> string" where
  "push_record_json r = obj_text
     ([(''id'', write_str (vr_id r)), (''id_hash'', write_str (vr_id_hash r)),
       (''status'', write_str (status_str (vr_status r))), (''trust'', write_str (trust_str (vr_trust r)))]
      @ opt_member ''method'' (\<lambda>m. write_str (method_str m)) (vr_method r)
      @ opt_member ''surface'' (\<lambda>s. write_str (proof_surface_str s)) (vr_surface r)
      @ opt_member ''statement_hash'' write_str (vr_statement_hash r)
      @ opt_member ''authored'' (\<lambda>a. write_str (authored_str a)) (vr_authored r)
      @ opt_member ''proof'' write_proof (vr_proof r)
      @ opt_member ''claimed'' write_claimed (vr_claimed r)
      @ opt_member ''justification'' write_str (vr_justification r)
      @ opt_member ''witness'' (\<lambda>w. obj_text [(''reason'', write_str w)]) (vr_witness_reason r)
      @ opt_member ''note'' write_str (vr_note r))"

definition write_certifier :: "certifier option \<Rightarrow> string" where
  "write_certifier c = (case c of None \<Rightarrow> ''null''
     | Some c \<Rightarrow> obj_text [(''class'', write_str (ce_class c)), (''name'', write_str (ce_name c)),
         (''recognition'', write_str (ce_recognition c)),
         (''tool'', obj_text [(''name'', write_str (ti_name (ce_tool c))), (''version'', write_str (ti_version (ce_tool c)))]),
         (''toolchain'', write_str (ce_toolchain c))])"

definition u32_num :: "u32 \<Rightarrow> string" where "u32_num v = push_i64_json (uint v)"

definition write_emitted :: "emitted_checks \<Rightarrow> string" where
  "write_emitted e = obj_text [(''subtype_range'', u32_num (em_subtype_range e)), (''contract'', u32_num (em_contract e)),
     (''mmio_bounds'', u32_num (em_mmio_bounds e))]"

text \<open>The members of a verdicts document, which an echo extends before the closing brace.\<close>

definition verdict_members :: "certifier option \<Rightarrow> string \<Rightarrow> string \<Rightarrow> string \<Rightarrow> verdict_record list \<Rightarrow> u32
    \<Rightarrow> emitted_checks \<Rightarrow> (string \<times> string) list" where
  "verdict_members cert target model conc rs stale em =
     [(''schema'', write_str VERDICTS_SCHEMA), (''certifier'', write_certifier cert),
      (''semantics'', write_str SEMANTICS_VERSION), (''stmt'', write_str VERDICTS_STMT),
      (''target'', write_str target), (''model_semantics'', write_str model), (''concurrency'', write_str conc),
      (''verdicts'', arr_text push_record_json rs)]
     @ (if stale \<noteq> 0 then [(''stale_verdicts'', u32_num stale)] else [])
     @ (if em_subtype_range em \<noteq> 0 \<or> em_contract em \<noteq> 0 \<or> em_mmio_bounds em \<noteq> 0
        then [(''emitted'', write_emitted em)] else [])"

definition capped :: "string \<Rightarrow> verdict_error + string" where
  "capped out = (if VERDICTS_FILE_MAX_BYTES < length out then Inl (VTooLarge (length out)) else Inr out)"

definition encode_verdicts :: "certifier option \<Rightarrow> string \<Rightarrow> string \<Rightarrow> string \<Rightarrow> verdict_record list \<Rightarrow> u32
    \<Rightarrow> emitted_checks \<Rightarrow> verdict_error + string" where
  "encode_verdicts cert target model conc rs stale em =
     capped (obj_text (verdict_members cert target model conc rs stale em))"

definition write_pfi :: "provably_failing_record \<Rightarrow> string" where
  "write_pfi p = obj_text [(''id'', write_str (pfr_id p)), (''note'', write_str (pfr_note p))]"

definition write_reason :: "open_reason_record \<Rightarrow> string" where
  "write_reason p = obj_text [(''id'', write_str (orr_id p)), (''reason'', write_str (orr_reason p))]"

definition echo_certifier :: "string \<Rightarrow> string \<Rightarrow> certifier" where
  "echo_certifier tool version = \<lparr>ce_class = ''in-tree'', ce_name = tool, ce_recognition = ''-'',
     ce_tool = \<lparr>ti_name = tool, ti_version = version\<rparr>, ce_toolchain = ''-''\<rparr>"

definition encode_echo :: "string \<Rightarrow> string \<Rightarrow> string \<Rightarrow> string \<Rightarrow> string \<Rightarrow> verdict_record list \<Rightarrow> u32
    \<Rightarrow> emitted_checks \<Rightarrow> provably_failing_record list \<Rightarrow> open_reason_record list \<Rightarrow> u32 \<Rightarrow> string option
    \<Rightarrow> verdict_error + string" where
  "encode_echo tool version target model conc rs stale em pfs ors in_tree verify_tool =
     bindE (encode_verdicts (Some (echo_certifier tool version)) target model conc rs stale em) (\<lambda>doc.
     (let n = word_of_nat (length rs) :: u32;
          ms = (if pfs \<noteq> [] then [(''provably_failing'', arr_text write_pfi pfs)] else [])
             @ (if ors \<noteq> [] then [(''open_reasons'', arr_text write_reason ors)] else [])
             @ (if rs \<noteq> [] then [(''verdict_sources'', obj_text [(''file'', u32_num (n - min n in_tree)),
                   (''in_tree'', u32_num in_tree)])] else [])
             @ opt_member ''verify_tool'' write_str verify_tool
      in capped (take (length doc - 1) doc @ concat (map (\<lambda>(k, v). CHR '','' # member k v) ms) @ ''}'')))"

end
