(* ===== verification/VerdictRt.thy ===== *)
theory VerdictRt
  imports VerdictCodec
begin

text \<open>
  The verdicts codec: its integer reader is the one of the obligation codec, its reader ends
  on every text, every record it admits satisfies the rules, and a file it wrote within the
  reader's string limits reads back.
\<close>

section \<open>Strings\<close>

text \<open>The characters of a string that the reader accepts in the form the writer gives them.\<close>

definition v_char :: "char \<Rightarrow> bool" where
  "v_char c \<longleftrightarrow> raw_char c \<or> c \<in> {CHR 0x22, CHR 0x5C, CHR 0x08, CHR 0x0C, CHR 0x0A, CHR 0x0D, CHR 0x09}"

definition v_string :: "string \<Rightarrow> bool" where
  "v_string s \<longleftrightarrow> is_utf8 s \<and> length s \<le> VERDICT_ID_MAX_BYTES \<and> list_all v_char s"

lemma v_escape_step:
  assumes "v_char c" "length out + 1 \<le> VERDICT_ID_MAX_BYTES"
  shows "v_parse_chars out (escape c @ r) = v_parse_chars (out @ [c]) r"
proof (cases "raw_char c")
  case True
  then have "\<not> (of_char c :: nat) \<le> 31" "c \<noteq> CHR 0x22" "c \<noteq> CHR 0x5C" by (auto simp: raw_char_def)
  then show ?thesis using True assms(2) by (simp add: escape_raw)
next
  case False
  then have "c \<in> {CHR 0x22, CHR 0x5C, CHR 0x08, CHR 0x0C, CHR 0x0A, CHR 0x0D, CHR 0x09}"
    using assms(1) by (simp add: v_char_def)
  then show ?thesis using assms(2) by (elim insertE) (simp_all add: escape_def v_unescape_def unescape_def)
qed

lemma v_parse_escaped:
  "list_all v_char s \<Longrightarrow> length out + length s \<le> VERDICT_ID_MAX_BYTES \<Longrightarrow>
    v_parse_chars out (concat (map escape s) @ CHR 0x22 # r) = Inr (out @ s, r)"
proof (induction s arbitrary: out)
  case (Cons c s)
  then show ?case using v_escape_step [of c out "concat (map escape s) @ CHR 0x22 # r"] by simp
qed simp

lemma read_v_string: "v_string s \<Longrightarrow> reads v_parse_string (write_str s) s"
  by (simp add: reads_def v_parse_string_def write_str_def bump_def v_string_def v_parse_escaped)

lemma plain_v_string: "plain k \<Longrightarrow> v_string k"
  using plain_utf8 [of k] by (auto simp: v_string_def plain_def v_char_def VERDICT_ID_MAX_BYTES_def list_all_iff)

lemma v_chars_short: "v_parse_chars out r \<noteq> Inl JFuel \<and> (\<forall>s r'. v_parse_chars out r = Inr (s, r') \<longrightarrow> length r' < length r)"
proof (induction out r rule: v_parse_chars.induct)
  case (2 out b r)
  show ?case
  proof (cases r)
    case Nil
    then show ?thesis by (auto simp: v_parse_chars.simps)
  next
    case (Cons e t)
    have a: "v_parse_chars (out @ [x]) t \<noteq> Inl JFuel \<and> (\<forall>s r'. v_parse_chars (out @ [x]) t = Inr (s, r') \<longrightarrow> length r' < length t)"
      if "b \<noteq> CHR 0x22" "b = CHR 0x5C" "v_unescape e = Some x" "\<not> VERDICT_ID_MAX_BYTES < length out + 1" for x
      using "2.IH"(1) Cons that by simp
    have c: "v_parse_chars (out @ [b]) r \<noteq> Inl JFuel \<and> (\<forall>s r'. v_parse_chars (out @ [b]) r = Inr (s, r') \<longrightarrow> length r' < length r)"
      if "b \<noteq> CHR 0x22" "b \<noteq> CHR 0x5C" "\<not> (of_char b :: nat) \<le> 31" "\<not> VERDICT_ID_MAX_BYTES < length out + 1"
      using "2.IH"(2) that by simp
    show ?thesis
      using a c Cons by (auto split: option.splits)
  qed
qed simp

lemma eats_v_string: "eats n v_parse_string"
proof (rule eatsI)
  fix r
  show "v_parse_string r \<noteq> Inl JFuel"
    using v_chars_short by (auto simp: v_parse_string_def bindE_fuel bump_Inr)
  fix s r' assume "v_parse_string r = Inr (s, r')"
  then obtain t where "skip_ws r = CHR 0x22 # t" "v_parse_chars '''' t = Inr (s, r')"
    by (auto simp: v_parse_string_def result_simps bump_Inr split: if_splits)
  then show "length r' < length r" using v_chars_short skip_ws_length [of r] by fastforce
qed

section \<open>Integers\<close>

lemma digit_run_eq:
  "0 \<le> v \<Longrightarrow> v \<le> hi \<Longrightarrow> digit_run hi v n r =
    (let ds = takeWhile is_digit r; w = digits_from v ds
     in if hi < w then Inl JMal else Inr ((w, n + length ds), dropWhile is_digit r))"
proof (induction r arbitrary: v n)
  case (Cons c r)
  show ?case
  proof (cases "is_digit c")
    case True
    let ?v = "v * 10 + (of_char c - 48)"
    have v: "0 \<le> ?v" "v * 10 \<le> ?v" using digit_val_bounds [OF True] Cons.prems by auto
    have d: "list_all is_digit (takeWhile is_digit r)" by (auto simp: list_all_iff dest: set_takeWhileD)
    show ?thesis
    proof (cases "hi < ?v")
      case True
      then show ?thesis using digits_from_ge [OF d v(1)] \<open>is_digit c\<close> by (simp add: Let_def)
    next
      case False
      then show ?thesis using Cons.IH [of ?v "Suc n"] v \<open>is_digit c\<close> by (simp add: Let_def)
    qed
  qed (use Cons.prems in \<open>simp add: Let_def\<close>)
qed (simp add: Let_def)

theorem v_parse_i64_eq: "v_parse_i64 = json_i64"
proof
  fix r
  let ?t = "if peek (skip_ws r) = Some (CHR ''-'') then tl (skip_ws r) else skip_ws r"
  have d: "digit_run i64_max 0 0 ?t = (let ds = takeWhile is_digit ?t; w = digits_from 0 ds
     in if i64_max < w then Inl JMal else Inr ((w, 0 + length ds), dropWhile is_digit ?t))"
    by (rule digit_run_eq) (simp_all add: i64_simps)
  show "v_parse_i64 r = json_i64 r"
    unfolding v_parse_i64_def json_i64_def Let_def d by (auto simp: digits_value_def)
qed

lemma eats_v_u32: "eats n v_parse_u32"
proof (rule eatsI)
  fix r
  note i = eatsD [OF eats_i64 order.refl, of r]
  show "v_parse_u32 r \<noteq> Inl JFuel"
    using i(2) by (auto simp: v_parse_u32_def v_parse_i64_eq bindE_fuel)
  fix x r' assume "v_parse_u32 r = Inr (x, r')"
  then show "length r' < length r"
    using i(1) by (auto simp: v_parse_u32_def v_parse_i64_eq result_simps split: if_splits)
qed

lemma read_v_u32: "reads v_parse_u32 (u32_num v) v"
proof -
  have b: "0 \<le> uint v" "uint v < 4294967296" by (rule uint_u32_bounds)+
  have m: "i64_min < 0" "(4294967296 :: int) \<le> i64_max" by (simp_all add: i64_simps)
  then have "in_i64 (uint v)" using b unfolding in_i64_def by linarith
  with m(1) have "reads json_i64 (push_i64_json (uint v)) (uint v)" using b(1) by (intro read_i64) linarith+
  then show ?thesis using b by (simp add: reads_def u32_num_def v_parse_u32_def v_parse_i64_eq)
qed

section \<open>Skipping\<close>

lemma v_skip_nest_ends:
  "length r < k \<Longrightarrow> short (Suc (length r)) (v_skip_nest k opn cls d r)"
proof (induction k arbitrary: d r)
  case (Suc k)
  show ?case
  proof (cases r)
    case (Cons c t)
    have tl: "short (Suc (length r)) (v_skip_nest k opn cls d' t)" for d'
      by (rule short_mono [OF Suc.IH]) (use Suc.prems Cons in simp_all)
    have str: "short (Suc (length r)) (bindE (v_parse_string r) (\<lambda>(_, r). v_skip_nest k opn cls d r))"
    proof (rule short_bind)
      show "v_parse_string r \<noteq> Inl JFuel" by (rule eatsD(2) [OF eats_v_string order.refl])
      fix x assume x: "v_parse_string r = Inr x"
      obtain s r2 where x': "x = (s, r2)" by (cases x)
      have "length r2 < length r" using eatsD(1) [OF eats_v_string order.refl] x x' by blast
      then show "short (Suc (length r)) (case x of (_, r) \<Rightarrow> v_skip_nest k opn cls d r)"
        unfolding x' prod.case by (intro short_mono [OF Suc.IH]) (use Suc.prems in simp_all)
    qed
    show ?thesis using tl str Cons by (cases "c = CHR 0x22") simp_all
  qed simp
qed simp

lemma eats_v_skip: "eats n v_skip_value"
  unfolding eats_short
proof (intro allI impI)
  fix r :: string
  show "short (length r) (v_skip_value r)"
  proof (cases "skip_ws r")
    case (Cons c t)
    have l: "Suc (length t) \<le> length r" using skip_ws_length [of r] Cons by simp
    have tok: "short (length r) (skip_token tok (c # t))" if "tok \<noteq> []" for tok
    proof -
      have "length (c # t) - length tok < length r" using that l by (cases tok) simp_all
      then show ?thesis by (auto simp: skip_token_def)
    qed
    have nest: "short (length r) (v_skip_nest (Suc (length t)) opn cls 1 t)" for opn cls
      by (rule short_mono [OF v_skip_nest_ends l]) simp
    have val: "short (length r) (bindE (v_parse_string (c # t)) (\<lambda>(_, r). Inr ((), r)))"
      "short (length r) (bindE (v_parse_i64 (c # t)) (\<lambda>(_, r). Inr ((), r)))"
      unfolding v_parse_i64_eq
      by (rule short_mono [OF eats_unit [OF eats_v_string order.refl]] short_mono [OF eats_unit [OF eats_i64 order.refl]];
          use l in simp)+
    show ?thesis
      unfolding v_skip_value_def Let_def Cons list.case
      using tok nest val by (cases "c \<in> {CHR 0x22, CHR ''t'', CHR ''f'', CHR ''n''}")
        (auto simp del: v_skip_nest.simps bindE.simps)
  qed (simp add: v_skip_value_def)
qed

interpretation vjs: json_lang v_parse_string v_skip_value
proof unfold_locales
  fix k r :: string
  assume "plain k"
  then have k: "v_string k" "write_str k = [CHR 0x22] @ k @ [CHR 0x22]" by (simp_all add: plain_v_string plain_write)
  have e: "concat (map escape k) = k" using plain_utf8 \<open>plain k\<close> by simp
  show "v_parse_string (CHR 0x22 # k @ CHR 0x22 # r) = Inr (k, r)"
    using k(1) v_parse_escaped [of k "[]" r] by (simp add: v_parse_string_def bump_def v_string_def e)
qed (rule eats_v_string eats_v_skip)+

section \<open>Termination\<close>

lemma eats_finish: "eats n p \<Longrightarrow> (\<And>a. f a \<noteq> Inl JFuel) \<Longrightarrow> eats n (\<lambda>r. finish f (p r))"
proof (rule eatsI)
  fix r :: string assume p: "eats n p" and f: "\<And>a. f a \<noteq> Inl JFuel" and l: "length r \<le> n"
  show "finish f (p r) \<noteq> Inl JFuel" using eatsD(2) [OF p l] f by (auto simp: finish_def bindE_fuel)
  fix x r' assume "finish f (p r) = Inr (x, r')"
  then show "length r' < length r" using eatsD(1) [OF p l] by (auto simp: finish_def result_simps)
qed

lemma eats_enum: "(\<And>s. err s \<noteq> JFuel) \<Longrightarrow> eats n (fld_enum parse err g acc)"
proof (rule eatsI)
  fix r assume e: "\<And>s. err s \<noteq> JFuel"
  note i = eatsD [OF eats_v_string order.refl, of r]
  show "fld_enum parse err g acc r \<noteq> Inl JFuel"
    using i(2) e by (auto simp: fld_enum_def bindE_fuel split: option.splits)
  fix x r' assume "fld_enum parse err g acc r = Inr (x, r')"
  then show "length r' < length r" using i(1) by (auto simp: fld_enum_def result_simps split: option.splits)
qed

lemma eats_v_fld: "eats n (fld v_parse_string g acc)" by (rule eats_fld [OF eats_v_string])

lemma eats_obj_fld: "(\<And>acc. list_all (\<lambda>(k, h). eats n (h acc)) tbl) \<Longrightarrow> eats n (\<lambda>r. v_obj tbl acc r)"
  by (intro vjs.eats_obj vjs.eats_match)

lemmas v_eats = eats_v_fld eats_enum eats_v_string eats_v_u32

lemma eats_certifier: "eats n parse_certifier"
proof (rule eatsI)
  have o: "eats m (\<lambda>r. finish cert_done (v_obj cert_table cert_empty r))" for m
  proof (intro eats_finish eats_obj_fld)
    show "list_all (\<lambda>(k, h). eats m (h acc)) cert_table" for acc
      by (simp add: cert_table_def v_eats) (intro eats_obj_fld, simp add: tool_table_def v_eats)
    show "cert_done a \<noteq> Inl JFuel" for a by (simp add: cert_done_def split: option.splits)
  qed
  fix r
  note w = skip_ws_length [of r]
  show "parse_certifier r \<noteq> Inl JFuel"
    using eatsD(2) [OF o order.refl, of "skip_ws r"] eatsD(2) [OF eats_v_skip order.refl, of "skip_ws r"]
    by (auto simp: parse_certifier_def Let_def bindE_fuel)
  fix x r' assume p: "parse_certifier r = Inr (x, r')"
  show "length r' < length r"
    using p w eatsD(1) [OF o order.refl, of "skip_ws r" x r'] eatsD(1) [OF eats_v_skip order.refl, of "skip_ws r" _ r']
    by (auto simp: parse_certifier_def Let_def result_simps split: if_splits)
qed

lemma eats_proof: "eats n parse_proof"
  unfolding parse_proof_def [abs_def]
proof (intro eats_finish eats_obj_fld)
  show "list_all (\<lambda>(k, h). eats n (h acc)) proof_table" for acc
    by (simp add: proof_table_def v_eats parse_str_array_def eats_fld eats_arr)
  show "proof_done a \<noteq> Inl JFuel" for a by (simp add: proof_done_def split: option.splits)
qed

lemma eats_claimed: "eats n parse_claimed"
  unfolding parse_claimed_def [abs_def] by (intro eats_obj_fld) (simp add: claimed_table_def v_eats)

lemma eats_record: "eats n (parse_record surf)"
  unfolding parse_record_def [abs_def]
proof (intro eats_finish eats_obj_fld)
  show "list_all (\<lambda>(k, h). eats n (h acc)) (record_table surf)" for acc
    by (simp add: record_table_def v_eats eats_fld eats_proof eats_claimed)
      (intro eats_obj_fld, simp add: witness_table_def v_eats)
  show "record_done a \<noteq> Inl JFuel" for a by (simp add: record_done_def Let_def split: option.splits)
qed

lemma eats_records: "eats n (parse_records surf)"
  unfolding parse_records_def by (rule eats_arr [OF eats_record])

lemma eats_pairs: "(\<And>a. f a \<noteq> Inl JFuel) \<Longrightarrow>
    eats n (parse_arr (\<lambda>r. finish f (v_obj (pair_table key) \<lparr>yx_id = None, yx_text = None\<rparr> r)))"
  by (intro eats_arr eats_finish eats_obj_fld) (simp_all add: pair_table_def v_eats)

lemma eats_v_doc: "eats n (v_parse_doc surf)"
  unfolding v_parse_doc_def [abs_def]
proof (intro eats_finish eats_obj_fld)
  have 1: "eats n parse_pfi" "eats n parse_reasons"
    unfolding parse_pfi_def parse_reasons_def
    by (intro eats_pairs; simp add: pfi_done_def reason_done_def split: option.splits)+
  have 2: "eats n parse_emitted" "eats n parse_verdict_sources"
    unfolding parse_emitted_def [abs_def] parse_verdict_sources_def [abs_def]
    by (intro eats_obj_fld; simp add: emitted_table_def sources_table_def eats_fld v_eats)+
  show "list_all (\<lambda>(k, h). eats n (h acc)) (vdoc_table surf)" for acc
    by (simp add: vdoc_table_def v_eats eats_fld eats_certifier eats_records 1 2)
  show "vdoc_done a \<noteq> Inl JFuel" for a by (simp add: vdoc_done_def split: option.splits)
qed

lemma echo_read_ends: "echo_read bs surf \<noteq> Inl VFuel"
proof -
  have "v_parse_doc surf bs \<noteq> Inl JFuel" by (rule eatsD(2) [OF eats_v_doc order.refl])
  moreover have "v_err e = VFuel \<longleftrightarrow> e = JFuel" for e by (cases e) simp_all
  ultimately show ?thesis by (auto simp: echo_read_def split: sum.splits)
qed

text \<open>C39: the verdict readers end on every byte string, as input and as echo.\<close>

theorem verdict_readers_terminate: "read_verdicts bs \<noteq> Inl VFuel \<and> read_echo bs \<noteq> Inl VFuel"
  using echo_read_ends by (auto simp: read_verdicts_def read_echo_def bindE_fuel elim: bindE.elims)

section \<open>The rules every admitted record satisfies\<close>

definition record_rules :: "verdict_record \<Rightarrow> bool" where
  "record_rules r \<longleftrightarrow> (status_is_closed (vr_status r) \<longrightarrow> vr_trust r \<noteq> TrustOpen)
     \<and> (vr_trust r = TrustProof \<longrightarrow> vr_proof r \<noteq> None)
     \<and> (\<forall>m. vr_method r = Some m \<longrightarrow> binds_statement m \<longrightarrow> vr_statement_hash r \<noteq> None)"

lemma record_done_rules: "record_done a = Inr r \<Longrightarrow> record_rules r"
  by (auto simp: record_done_def record_rules_def Let_def split: option.splits if_splits)

lemma arr_loop_all:
  assumes "\<And>r x r'. p r = Inr (x, r') \<Longrightarrow> P x"
  shows "arr_loop k p out r = Inr (xs, r') \<Longrightarrow> list_all P out \<Longrightarrow> list_all P xs"
proof (induction k arbitrary: out r)
  case (Suc k)
  then show ?case using assms by (auto simp: Let_def result_simps split: if_splits)
qed simp

lemma parse_arr_all: "(\<And>r x r'. p r = Inr (x, r') \<Longrightarrow> P x) \<Longrightarrow> parse_arr p r = Inr (xs, r') \<Longrightarrow> list_all P xs"
proof -
  assume p: "\<And>r x r'. p r = Inr (x, r') \<Longrightarrow> P x" and q: "parse_arr p r = Inr (xs, r')"
  from q obtain t where "arr_loop (Suc (length t)) p [] t = Inr (xs, r')"
    by (auto simp: parse_arr_def result_simps simp del: arr_loop.simps)
  from arr_loop_all [where P = P, OF p this] show ?thesis by simp
qed

text \<open>An invariant of the accumulator that every handler keeps holds at the end of an object.\<close>

definition handler_keeps :: "('a \<Rightarrow> bool) \<Rightarrow> 'a handler \<Rightarrow> bool" where
  "handler_keeps I h \<longleftrightarrow> (\<forall>acc r acc2 r2. I acc \<longrightarrow> h acc r = Inr (acc2, r2) \<longrightarrow> I acc2)"

lemma keeps_fld: "(\<And>v acc. I acc \<Longrightarrow> I (g v acc)) \<Longrightarrow> handler_keeps I (fld p g)"
  by (auto simp: handler_keeps_def fld_def result_simps)

lemma keeps_fld_val: "(\<And>r v r'. p r = Inr (v, r') \<Longrightarrow> Q v) \<Longrightarrow> (\<And>v acc. I acc \<Longrightarrow> Q v \<Longrightarrow> I (g v acc)) \<Longrightarrow> handler_keeps I (fld p g)"
  by (auto simp: handler_keeps_def fld_def result_simps)

lemma obj_loop_keeps:
  assumes "\<And>key. handler_keeps I (f key)"
  shows "obj_loop ps k f acc r = Inr (acc2, r2) \<Longrightarrow> I acc \<Longrightarrow> I acc2"
proof (induction k arbitrary: acc r)
  case (Suc k)
  show ?case
  proof (cases "peek (skip_ws r) = Some (CHR ''}'')")
    case True
    then show ?thesis using Suc.prems by simp
  next
    case False
    then obtain key t acc1 t1 where "f key acc t = Inr (acc1, t1)" "obj_loop ps k f acc1 t1 = Inr (acc2, r2)"
      using Suc.prems(1) by (auto simp: Let_def result_simps)
    then show ?thesis using Suc.IH assms Suc.prems(2) unfolding handler_keeps_def by blast
  qed
qed simp

lemma parse_obj_keeps:
  assumes "list_all (\<lambda>(k, h). handler_keeps I h) tbl" "parse_obj ps (match_key sk tbl) acc r = Inr (acc2, r2)" "I acc"
  shows "I acc2"
proof -
  have "handler_keeps I (match_key sk tbl key)" for key
  proof (cases "map_of tbl key")
    case None
    then show ?thesis by (simp add: handler_keeps_def match_key_def fld_def result_simps)
  next
    case (Some h)
    then have "(key, h) \<in> set tbl" by (rule map_of_SomeD)
    then have "handler_keeps I h" using assms(1) by (auto simp: list_all_iff)
    then show ?thesis using Some by (simp add: handler_keeps_def match_key_def)
  qed
  note K = obj_loop_keeps [where I = I, OF this]
  obtain t where "obj_loop ps (Suc (length t)) (match_key sk tbl) acc t = Inr (acc2, r2)"
    using assms(2) by (auto simp: parse_obj_def result_simps simp del: obj_loop.simps)
  from K [OF this assms(3)] show ?thesis .
qed

lemma records_rules:
  assumes "parse_records surf r = Inr (rs, r')"
  shows "list_all record_rules rs"
proof (rule parse_arr_all [where P = record_rules and p = "parse_record surf"])
  show "record_rules x" if "parse_record surf t = Inr (x, t')" for t x t'
    using that by (auto simp: parse_record_def finish_def result_simps dest: record_done_rules)
qed (use assms in \<open>simp add: parse_records_def\<close>)

lemma v_doc_rules:
  assumes "v_parse_doc surf bs = Inr ((sc, sem, e), r)"
  shows "list_all record_rules (ve_records (ec_verdicts e))"
proof -
  let ?I = "\<lambda>a. case yd_records a of None \<Rightarrow> True | Some rs \<Rightarrow> list_all record_rules rs"
  obtain a t where a: "parse_obj v_parse_string (match_key v_skip_value (vdoc_table surf)) vdoc_empty bs = Inr (a, t)"
    "vdoc_done a = Inr (sc, sem, e)"
    using assms by (auto simp: v_parse_doc_def finish_def result_simps)
  have "list_all (\<lambda>(k, h). handler_keeps ?I h) (vdoc_table surf)"
    unfolding vdoc_table_def using records_rules by (simp add: keeps_fld keeps_fld_val [where Q = "list_all record_rules"])
  from parse_obj_keeps [OF this a(1)] have "?I a" by (simp add: vdoc_empty_def)
  then show ?thesis using a(2) by (auto simp: vdoc_done_def split: option.splits)
qed

lemma echo_rules: "echo_read bs surf = Inr e \<Longrightarrow> list_all record_rules (ve_records (ec_verdicts e))"
  by (auto simp: echo_read_def split: sum.splits if_splits dest: v_doc_rules)

text \<open>C11: whatever a verdicts file contains, a record the compiler reads from it never closes an
  obligation without a trust class, never claims a proof without carrying one and never uses a
  statement-binding method without the statement hash; and after the producer gate a \<open>proof\<close>
  record only remains if the producer is in the registry of recognised certifiers.\<close>

theorem read_verdicts_admissible:
  assumes "read_verdicts bs = Inr v" "r \<in> set (ve_records (restrict_to_recognized v))"
  shows "(status_is_closed (vr_status r) \<longrightarrow> vr_trust r \<noteq> TrustOpen)
    \<and> (\<forall>m. vr_method r = Some m \<longrightarrow> binds_statement m \<longrightarrow> vr_statement_hash r \<noteq> None)
    \<and> (vr_trust r = TrustProof \<longrightarrow> vr_proof r \<noteq> None \<and> producer_recognized v)"
proof -
  obtain e where e: "echo_read bs SurfaceInput = Inr e" "set (ve_records v) = set (ve_records (ec_verdicts e))"
    using assms(1) by (auto simp: read_verdicts_def result_simps)
  have rules: "\<forall>x \<in> set (ve_records v). record_rules x"
    using echo_rules [OF e(1)] by (simp add: list_all_iff e(2))
  obtain x where x: "x \<in> set (ve_records v)" "r = x \<or> (r = downgraded_to_assumed x \<and> vr_trust x = TrustProof)"
    using assms(2) by (auto simp: restrict_to_recognized_def split: if_splits)
  have "record_rules r" using x rules by (auto simp: record_rules_def downgraded_to_assumed_def)
  then show ?thesis using restrict_proof [OF assms(2)] by (auto simp: record_rules_def)
qed

section \<open>Round trip\<close>

text \<open>A handler that reads a written value, whatever the accumulator.\<close>

definition hreads :: "'a handler \<Rightarrow> string \<Rightarrow> ('a \<Rightarrow> 'a) \<Rightarrow> bool" where
  "hreads h v g \<longleftrightarrow> (\<forall>acc r. follow r \<longrightarrow> h acc (v @ r) = Inr (g acc, r))"

lemma hreads_fld: "reads p v x \<Longrightarrow> hreads (fld p g) v (g x)"
  by (simp add: hreads_def fld_reads)

lemma hreads_str: "v_string s \<Longrightarrow> hreads (fld v_parse_string g) (write_str s) (g s)"
  by (rule hreads_fld [OF read_v_string])

lemma hreads_enum: "parse s = Some v \<Longrightarrow> v_string s \<Longrightarrow> hreads (fld_enum parse err g) (write_str s) (g v)"
  using readsD [OF read_v_string] by (fastforce simp: hreads_def fld_enum_def)

lemma obj_field:
  assumes "plain k" "map_of tbl k = Some h" "hreads h v g" "obj_reads (match_key sk tbl) ms (g acc) acc2"
  shows "obj_reads (match_key sk tbl) ((k, v) # ms) acc acc2"
  using assms by (auto intro!: obj_reads_Cons simp: match_key_def hreads_def)

lemma obj_opt:
  assumes "plain k" "map_of tbl k = Some h" "\<And>v. x = Some v \<Longrightarrow> hreads h (w v) (G v)"
    "obj_reads (match_key sk tbl) ms (case x of None \<Rightarrow> acc | Some v \<Rightarrow> G v acc) acc2"
  shows "obj_reads (match_key sk tbl) (opt_member k w x @ ms) acc acc2"
  using assms by (cases x) (auto simp: opt_member_def intro: obj_field)

lemma obj_opt_last:
  assumes "plain k" "map_of tbl k = Some h" "\<And>v. x = Some v \<Longrightarrow> hreads h (w v) (G v)"
  shows "obj_reads (match_key sk tbl) (opt_member k w x) acc (case x of None \<Rightarrow> acc | Some v \<Rightarrow> G v acc)"
  using obj_opt [OF assms obj_reads_Nil] by simp

lemma obj_reads_eq: "obj_reads f ms acc acc2 \<Longrightarrow> acc2 = acc3 \<Longrightarrow> obj_reads f ms acc acc3"
  by simp

lemma read_v_obj: "obj_reads (match_key v_skip_value tbl) ms acc acc2 \<Longrightarrow> v_obj tbl acc (obj_text ms @ r) = Inr (acc2, r)"
  by (rule vjs.read_obj)

lemma reads_finish:
  assumes "obj_reads (match_key v_skip_value tbl) ms acc acc2" "f acc2 = Inr x"
  shows "reads (\<lambda>r. finish f (v_obj tbl acc r)) (obj_text ms) x"
  using assms by (simp add: reads_def finish_def read_v_obj)

lemmas v_plain_simps = plain_v_string plain_def raw_char_def

lemma status_string [simp]: "v_string (status_str st)" by (cases st; simp add: v_plain_simps)
lemma trust_string [simp]: "v_string (trust_str tr)" by (cases tr; simp add: v_plain_simps)
lemma method_string [simp]: "v_string (method_str m)" by (cases m; simp add: v_plain_simps)
lemma surface_string [simp]: "v_string (proof_surface_str ps)" by (cases ps; simp add: v_plain_simps)
lemma authored_string [simp]: "v_string (authored_str a)" by (cases a; simp add: v_plain_simps)
lemma proof_kind_string [simp]: "v_string (proof_kind_str pk)" by (cases pk; simp add: v_plain_simps)

definition opt_ok :: "('a \<Rightarrow> bool) \<Rightarrow> 'a option \<Rightarrow> bool" where
  "opt_ok P x \<longleftrightarrow> (\<forall>v. x = Some v \<longrightarrow> P v)"

lemma opt_okD: "opt_ok P x \<Longrightarrow> x = Some v \<Longrightarrow> P v" by (simp add: opt_ok_def)

text \<open>Filling an empty slot with an optional value.\<close>

lemma proof_slot:
  "yp_theorem a = None \<Longrightarrow> (case x of None \<Rightarrow> a | Some v \<Rightarrow> a\<lparr>yp_theorem := Some v\<rparr>) = a\<lparr>yp_theorem := x\<rparr>"
  "yp_kernel_check a = None \<Longrightarrow> (case x of None \<Rightarrow> a | Some v \<Rightarrow> a\<lparr>yp_kernel_check := Some v\<rparr>) = a\<lparr>yp_kernel_check := x\<rparr>"
  "yp_file a = None \<Longrightarrow> (case x of None \<Rightarrow> a | Some v \<Rightarrow> a\<lparr>yp_file := Some v\<rparr>) = a\<lparr>yp_file := x\<rparr>"
  "yp_relies a = None \<Longrightarrow> (case y of None \<Rightarrow> a | Some v \<Rightarrow> a\<lparr>yp_relies := Some v\<rparr>) = a\<lparr>yp_relies := y\<rparr>"
  by (cases x; simp)+ (cases y; simp)

definition proof_ok :: "proof_info \<Rightarrow> bool" where
  "proof_ok p \<longleftrightarrow> v_string (pi_statement p) \<and> opt_ok v_string (pi_theorem p) \<and> opt_ok v_string (pi_kernel_check p)
     \<and> opt_ok v_string (pi_file p) \<and> opt_ok (\<lambda>l. \<forall>s \<in> set l. v_string s) (pi_relies p)"

lemma read_proof: "proof_ok p \<Longrightarrow> reads parse_proof (write_proof p) p"
proof -
  assume ok: "proof_ok p"
  have rel: "reads parse_str_array (arr_text write_str l) l" if "\<forall>s \<in> set l. v_string s" for l
    unfolding parse_str_array_def by (rule read_arr) (use that in \<open>simp add: read_v_string\<close>)
  show ?thesis
    unfolding parse_proof_def [abs_def] write_proof_def append_Cons append_Nil
    apply (rule reads_finish)
     apply (rule obj_field, simp add: plain_def raw_char_def, simp add: proof_table_def,
        (rule hreads_str | (rule hreads_enum, rule proof_kind_round_trip)), use ok in \<open>simp add: proof_ok_def\<close>)+
     apply (rule obj_opt obj_opt_last, simp add: plain_def raw_char_def, simp add: proof_table_def,
        (rule hreads_str | rule hreads_fld [OF rel]), rule opt_okD [rotated], assumption, use ok in \<open>simp add: proof_ok_def\<close>)+
    apply (simp add: proof_slot proof_empty_def proof_done_def)
    done
qed

text \<open>The reader takes no \<open>null\<close> in \<open>claimed\<close>: its four members must be there.\<close>

definition claimed_ok :: "claimed \<Rightarrow> bool" where
  "claimed_ok c \<longleftrightarrow> (\<exists>s t m h. c = \<lparr>cl_status = Some s, cl_trust = Some t, cl_method = Some m, cl_statement_hash = Some h\<rparr>
     \<and> v_string s \<and> v_string t \<and> v_string m \<and> v_string h)"

lemma read_claimed: "claimed_ok c \<Longrightarrow> reads parse_claimed (write_claimed c) c"
proof -
  assume "claimed_ok c"
  then obtain s t m h where c: "c = \<lparr>cl_status = Some s, cl_trust = Some t, cl_method = Some m, cl_statement_hash = Some h\<rparr>"
    and ok: "v_string s" "v_string t" "v_string m" "v_string h" by (auto simp: claimed_ok_def)
  have "obj_reads (match_key v_skip_value claimed_table)
      [(''status'', write_str s), (''trust'', write_str t), (''method'', write_str m), (''statement_hash'', write_str h)]
      claimed_default c"
    unfolding c claimed_default_def
    apply (rule obj_reads_eq)
     apply (rule obj_field, simp add: v_plain_simps, simp add: claimed_table_def, rule hreads_str, rule ok)+
     apply (rule obj_reads_Nil)
    apply simp
    done
  then show ?thesis
    by (simp add: reads_def parse_claimed_def write_claimed_def str_or_null_def c vjs.read_obj)
qed

lemma record_slot:
  "yr_method a = None \<Longrightarrow> (case x1 of None \<Rightarrow> a | Some v \<Rightarrow> a\<lparr>yr_method := Some v\<rparr>) = a\<lparr>yr_method := x1\<rparr>"
  "yr_surface a = None \<Longrightarrow> (case x2 of None \<Rightarrow> a | Some v \<Rightarrow> a\<lparr>yr_surface := Some v\<rparr>) = a\<lparr>yr_surface := x2\<rparr>"
  "yr_statement_hash a = None \<Longrightarrow> (case x of None \<Rightarrow> a | Some v \<Rightarrow> a\<lparr>yr_statement_hash := Some v\<rparr>) = a\<lparr>yr_statement_hash := x\<rparr>"
  "yr_authored a = None \<Longrightarrow> (case x3 of None \<Rightarrow> a | Some v \<Rightarrow> a\<lparr>yr_authored := Some v\<rparr>) = a\<lparr>yr_authored := x3\<rparr>"
  "yr_proof a = None \<Longrightarrow> (case x4 of None \<Rightarrow> a | Some v \<Rightarrow> a\<lparr>yr_proof := Some v\<rparr>) = a\<lparr>yr_proof := x4\<rparr>"
  "yr_claimed a = None \<Longrightarrow> (case x5 of None \<Rightarrow> a | Some v \<Rightarrow> a\<lparr>yr_claimed := Some v\<rparr>) = a\<lparr>yr_claimed := x5\<rparr>"
  "yr_justification a = None \<Longrightarrow> (case x of None \<Rightarrow> a | Some v \<Rightarrow> a\<lparr>yr_justification := Some v\<rparr>) = a\<lparr>yr_justification := x\<rparr>"
  "yr_witness_reason a = None \<Longrightarrow> (case x of None \<Rightarrow> a | Some v \<Rightarrow> a\<lparr>yr_witness_reason := Some v\<rparr>) = a\<lparr>yr_witness_reason := x\<rparr>"
  "yr_note a = None \<Longrightarrow> (case x of None \<Rightarrow> a | Some v \<Rightarrow> a\<lparr>yr_note := Some v\<rparr>) = a\<lparr>yr_note := x\<rparr>"
  by ((cases x1; simp), (cases x2; simp), (cases x; simp), (cases x3; simp), (cases x4; simp), (cases x5; simp), (cases x; simp)+)

definition record_ok :: "verdict_record \<Rightarrow> bool" where
  "record_ok r \<longleftrightarrow> record_rules r \<and> v_string (vr_id r) \<and> v_string (vr_id_hash r)
     \<and> opt_ok v_string (vr_statement_hash r) \<and> opt_ok proof_ok (vr_proof r) \<and> opt_ok claimed_ok (vr_claimed r)
     \<and> opt_ok v_string (vr_justification r) \<and> opt_ok v_string (vr_witness_reason r) \<and> opt_ok v_string (vr_note r)"

lemma hreads_witness: "v_string w \<Longrightarrow> hreads (\<lambda>a r. v_obj witness_table a r) (obj_text [(''reason'', write_str w)]) (\<lambda>a. a\<lparr>yr_witness_reason := Some w\<rparr>)"
  unfolding hreads_def
  by (intro allI impI vjs.read_obj)
    (rule obj_field, simp add: v_plain_simps, simp add: witness_table_def, rule hreads_str, assumption, rule obj_reads_Nil)

lemma record_done_ok:
  assumes "record_rules r"
  shows "record_done \<lparr>yr_id = Some (vr_id r), yr_id_hash = Some (vr_id_hash r), yr_status = Some (vr_status r),
     yr_trust = Some (vr_trust r), yr_method = vr_method r, yr_surface = vr_surface r,
     yr_statement_hash = vr_statement_hash r, yr_authored = vr_authored r, yr_proof = vr_proof r,
     yr_claimed = vr_claimed r, yr_justification = vr_justification r, yr_witness_reason = vr_witness_reason r,
     yr_note = vr_note r\<rparr> = Inr r"
  using assms by (auto simp: record_done_def or_else_def record_rules_def Let_def split: option.splits)

lemma read_record: "record_ok r \<Longrightarrow> reads (parse_record surf) (push_record_json r) r"
proof -
  assume ok: "record_ok r"
  note rl = hreads_witness hreads_fld [OF read_proof] hreads_fld [OF read_claimed] hreads_str
  show ?thesis
    unfolding parse_record_def [abs_def] push_record_json_def append_Cons append_Nil
    apply (rule reads_finish)
     apply (rule obj_field, simp add: v_plain_simps, simp add: record_table_def,
        (rule hreads_str | (rule hreads_enum, simp)), use ok in \<open>simp add: record_ok_def\<close>)+
     apply (rule obj_opt obj_opt_last, simp add: v_plain_simps, simp add: record_table_def,
        ((rule hreads_enum, simp, simp) | (rule rl, rule opt_okD [rotated], assumption, use ok in \<open>simp add: record_ok_def\<close>)))+
    apply (simp add: record_slot record_empty_def record_done_ok ok [unfolded record_ok_def])
    done
qed

lemma value_start_record: "value_start (push_record_json r)"
  unfolding push_record_json_def by simp

lemma read_records: "\<forall>r \<in> set rs. record_ok r \<Longrightarrow> reads (parse_records surf) (arr_text push_record_json rs) rs"
  unfolding parse_records_def by (rule read_arr) (simp add: read_record value_start_record)

definition cert_ok :: "certifier option \<Rightarrow> bool" where
  "cert_ok = opt_ok (\<lambda>c. v_string (ce_class c) \<and> v_string (ce_name c) \<and> v_string (ce_recognition c)
     \<and> v_string (ti_name (ce_tool c)) \<and> v_string (ti_version (ce_tool c)) \<and> v_string (ce_toolchain c))"

lemma hreads_tool:
  "v_string n \<Longrightarrow> v_string v \<Longrightarrow> hreads (\<lambda>a r. v_obj tool_table a r) (obj_text [(''name'', write_str n), (''version'', write_str v)])
    (\<lambda>a. a\<lparr>yc_tool_name := Some n, yc_tool_version := Some v\<rparr>)"
  unfolding hreads_def
  apply (intro allI impI vjs.read_obj)
  apply (rule obj_reads_eq)
   apply (rule obj_field, simp add: v_plain_simps, simp add: tool_table_def, rule hreads_str, assumption)+
   apply (rule obj_reads_Nil)
  apply simp
  done

lemma read_certifier: "cert_ok c \<Longrightarrow> reads parse_certifier (write_certifier c) c"
proof (cases c)
  case None
  then show ?thesis
    by (simp add: reads_def parse_certifier_def write_certifier_def v_skip_value_def skip_token_def starts_with_def peek_def is_digit_def)
next
  case (Some d)
  assume "cert_ok c"
  then have ok: "v_string (ce_class d)" "v_string (ce_name d)" "v_string (ce_recognition d)"
    "v_string (ti_name (ce_tool d))" "v_string (ti_version (ce_tool d))" "v_string (ce_toolchain d)"
    using Some by (simp_all add: cert_ok_def opt_ok_def)
  have r: "reads (\<lambda>r. finish cert_done (v_obj cert_table cert_empty r)) (write_certifier c) c"
    unfolding write_certifier_def Some option.case
    apply (rule reads_finish)
     apply (rule obj_field, simp add: v_plain_simps, simp add: cert_table_def,
        (rule hreads_str | rule hreads_tool), (rule ok)+)+
     apply (rule obj_reads_Nil)
    apply (simp add: cert_done_def cert_empty_def or_else_def)
    done
  have "\<exists>t. write_certifier c = CHR ''{'' # t" by (simp add: write_certifier_def Some obj_text_def)
  then show ?thesis using r by (auto simp: reads_def parse_certifier_def peek_def Let_def)
qed

lemma read_emitted: "reads parse_emitted (write_emitted e) e"
proof -
  have "obj_reads (match_key v_skip_value emitted_table) [(''subtype_range'', u32_num (em_subtype_range e)),
      (''contract'', u32_num (em_contract e)), (''mmio_bounds'', u32_num (em_mmio_bounds e))] emitted_default e"
    apply (rule obj_reads_eq)
     apply (rule obj_field, simp add: v_plain_simps, simp add: emitted_table_def, rule hreads_fld, rule read_v_u32)+
     apply (rule obj_reads_Nil)
    apply (simp add: emitted_default_def)
    done
  then show ?thesis by (simp add: reads_def parse_emitted_def write_emitted_def vjs.read_obj)
qed

lemma opt_if: "(if b then [(k, w v)] else []) = opt_member k w (if b then Some v else None)"
  by (simp add: opt_member_def)

lemma vdoc_slot:
  "yd_stale a = None \<Longrightarrow> (case x of None \<Rightarrow> a | Some v \<Rightarrow> a\<lparr>yd_stale := Some v\<rparr>) = a\<lparr>yd_stale := x\<rparr>"
  "yd_emitted a = None \<Longrightarrow> (case y of None \<Rightarrow> a | Some v \<Rightarrow> a\<lparr>yd_emitted := Some v\<rparr>) = a\<lparr>yd_emitted := y\<rparr>"
  by ((cases x; simp), (cases y; simp))

lemma emitted_nonzero:
  "em \<noteq> emitted_default \<longleftrightarrow> em_subtype_range em \<noteq> 0 \<or> em_contract em \<noteq> 0 \<or> em_mmio_bounds em \<noteq> 0"
  by (cases em) (simp add: emitted_default_def)

lemma vdoc_consts: "v_string VERDICTS_SCHEMA" "v_string SEMANTICS_VERSION" "v_string VERDICTS_STMT"
  by (simp_all add: v_plain_simps VERDICTS_SCHEMA_def SEMANTICS_VERSION_def VERDICTS_STMT_def STMT_SCHEMA_def)

lemma vdoc_reads:
  assumes "cert_ok cert" "v_string target" "v_string model" "v_string conc" "\<forall>r \<in> set rs. record_ok r"
  shows "obj_reads (match_key v_skip_value (vdoc_table surf)) (verdict_members cert target model conc rs stale em)
    vdoc_empty (vdoc_empty\<lparr>yd_schema := Some VERDICTS_SCHEMA, yd_certifier := cert, yd_semantics := Some SEMANTICS_VERSION,
      yd_stmt := Some VERDICTS_STMT, yd_target := Some target, yd_model_semantics := Some model,
      yd_concurrency := Some conc, yd_records := Some rs, yd_stale := (if stale \<noteq> 0 then Some stale else None),
      yd_emitted := (if em \<noteq> emitted_default then Some em else None)\<rparr>)"
proof -
  note rl = hreads_fld [OF read_certifier] hreads_fld [OF read_records] hreads_str
  note fl = hreads_fld [OF read_v_u32] hreads_fld [OF read_emitted]
  show ?thesis
    unfolding verdict_members_def emitted_nonzero [symmetric] opt_if append_Cons append_Nil
    apply (rule obj_reads_eq)
     apply (rule obj_field, simp add: v_plain_simps, simp add: vdoc_table_def, rule rl, (rule vdoc_consts assms))+
     apply (rule obj_opt obj_opt_last, simp add: v_plain_simps, simp add: vdoc_table_def, rule fl)+
    apply (simp only: vdoc_slot vdoc_empty_def vdoc_slots.simps)
    apply (simp add: vdoc_slot)
    done
qed

lemma verdicts_round_trip_facts:
  assumes "encode_verdicts cert target model conc rs stale em = Inr bs"
    "cert_ok cert" "v_string target" "v_string model" "v_string conc" "\<forall>r \<in> set rs. record_ok r"
  shows "echo_read bs surf = Inr \<lparr>ec_verdicts = \<lparr>ve_semantics = SEMANTICS_VERSION, ve_stmt = VERDICTS_STMT,
      ve_certifier = cert, ve_target = target, ve_model_semantics = model, ve_concurrency = conc, ve_records = rs\<rparr>,
    ec_stale = stale, ec_emitted = em, ec_provably_failing = [], ec_open_reasons = [],
    ec_file_verdicts = 0, ec_in_tree_verdicts = 0\<rparr>"
proof -
  have bs: "bs = obj_text (verdict_members cert target model conc rs stale em)" "length bs \<le> VERDICTS_FILE_MAX_BYTES"
    using assms(1) by (auto simp: encode_verdicts_def capped_def split: if_splits)
  have "v_obj (vdoc_table surf) vdoc_empty (bs @ []) = Inr (vdoc_empty\<lparr>yd_schema := Some VERDICTS_SCHEMA,
      yd_certifier := cert, yd_semantics := Some SEMANTICS_VERSION,
      yd_stmt := Some VERDICTS_STMT, yd_target := Some target, yd_model_semantics := Some model,
      yd_concurrency := Some conc, yd_records := Some rs, yd_stale := (if stale \<noteq> 0 then Some stale else None),
      yd_emitted := (if em \<noteq> emitted_default then Some em else None)\<rparr>, [])"
    unfolding bs(1) by (rule read_v_obj [OF vdoc_reads [OF assms(2-6)]])
  then show ?thesis using bs(2)
    by (simp add: echo_read_def v_parse_doc_def finish_def vdoc_done_def vdoc_empty_def or_else_def)
qed

text \<open>C30: a verdicts file the encoder accepts reads back as written, its records ordered by id,
  when the records obey the reader's record rules, every string is UTF-8, at most 512 bytes long and
  free of the control characters that JSON has no short escape for, and no \<open>claimed\<close> member is absent
  (\<open>record_ok\<close>, \<open>cert_ok\<close>, \<open>v_string\<close>). Without the last two \<open>control_char_not_read\<close> and
  \<open>downgraded_not_read\<close> show what the encoder writes and the reader refuses.\<close>

theorem verdicts_round_trip:
  assumes "encode_verdicts cert target model conc rs stale em = Inr bs"
    "cert_ok cert" "v_string target" "v_string model" "v_string conc" "\<forall>r \<in> set rs. record_ok r"
  shows "read_verdicts bs = Inr \<lparr>ve_semantics = SEMANTICS_VERSION, ve_stmt = VERDICTS_STMT,
      ve_certifier = cert, ve_target = target, ve_model_semantics = model, ve_concurrency = conc,
      ve_records = sort_key vr_id rs\<rparr>"
  by (simp add: read_verdicts_def verdicts_round_trip_facts [OF assms])

section \<open>Concrete files\<close>

definition demo_records :: "verdict_record list" where
  "demo_records =
     [record_discharged ''m::w::mmio-bounds::0'' ''0f'' TrustChecked MeDescriptor,
      (record_discharged ''m::v::subtype-range::0'' ''1a'' TrustProof MeCertificate)
        \<lparr>vr_statement_hash := Some ''ab'', vr_proof := Some \<lparr>pi_kind = PK_Certificate, pi_statement = ''tyu.stmt/1.0'',
           pi_theorem = Some ''t'', pi_kernel_check = None, pi_file = None, pi_relies = Some [''T-S'']\<rparr>\<rparr>]"

definition demo_verdicts :: string where
  "demo_verdicts = obj_text (verdict_members (Some (echo_certifier ''t'' ''1'')) ''x86'' [] ''unmodeled'' demo_records 0 emitted_default)"

lemma demo_verdicts_encodes: "encode_verdicts (Some (echo_certifier ''t'' ''1'')) ''x86'' [] ''unmodeled'' demo_records 0 emitted_default = Inr demo_verdicts"
proof -
  have "length demo_verdicts = 591" by code_simp
  then show ?thesis by (simp add: encode_verdicts_def capped_def demo_verdicts_def VERDICTS_FILE_MAX_BYTES_def)
qed

lemma demo_strings:
  "v_string ''t''" "v_string ''1''" "v_string ''x86''" "v_string []" "v_string ''unmodeled''" "v_string ''in-tree''" "v_string ''-''"
  by (simp_all add: v_plain_simps)

lemma demo_cert: "cert_ok (Some (echo_certifier ''t'' ''1''))"
  using demo_strings by (simp add: cert_ok_def opt_ok_def echo_certifier_def)

lemma demo_records_ok: "\<forall>r \<in> set demo_records. record_ok r"
proof -
  have "v_string ''m::w::mmio-bounds::0''" "v_string ''0f''" "v_string ''m::v::subtype-range::0''" "v_string ''1a''"
    "v_string ''ab''" "v_string ''tyu.stmt/1.0''" "v_string ''T-S''"
    by (simp_all add: v_plain_simps)
  then show ?thesis using demo_strings(1)
    by (simp add: demo_records_def record_discharged_def record_ok_def record_rules_def opt_ok_def proof_ok_def
        status_is_closed_def status_is_open_def binds_statement_def)
qed

theorem verdicts_round_trip_witness:
  "\<exists>v. read_verdicts demo_verdicts = Inr v \<and> map vr_id (ve_records v) = [''m::v::subtype-range::0'', ''m::w::mmio-bounds::0'']"
proof -
  have "map vr_id (sort_key vr_id demo_records) = [''m::v::subtype-range::0'', ''m::w::mmio-bounds::0'']" by code_simp
  then show ?thesis
    using verdicts_round_trip [OF demo_verdicts_encodes demo_cert demo_strings(3-5) demo_records_ok] by simp
qed

text \<open>The demo file comes from a producer that is not recognised: its proof is downgraded.\<close>

theorem read_verdicts_admissible_witness:
  "\<exists>v. read_verdicts demo_verdicts = Inr v
     \<and> (\<forall>r \<in> set (ve_records (restrict_to_recognized v)). vr_trust r \<noteq> TrustProof)"
proof -
  obtain v where v: "read_verdicts demo_verdicts = Inr v" "ve_certifier v = Some (echo_certifier ''t'' ''1'')"
    using verdicts_round_trip_facts [OF demo_verdicts_encodes demo_cert demo_strings(3-5) demo_records_ok]
    by (simp add: read_verdicts_def)
  have "\<not> producer_recognized v"
    by (simp add: producer_recognized_def v(2) echo_certifier_def RECOGNIZED_CERTIFIERS_def)
  then have "\<forall>r \<in> set (ve_records (restrict_to_recognized v)). vr_trust r \<noteq> TrustProof"
    using read_verdicts_admissible [OF v(1)] by blast
  with v(1) show ?thesis by blast
qed

section \<open>Where the codec departs from its intent\<close>

text \<open>A downgraded record without a statement hash is written with a \<open>null\<close> that the reader
  refuses, and a control character is written as an escape that it refuses.\<close>

lemma downgraded_not_read:
  "(case vr_claimed (downgraded_to_assumed (record_discharged ''a'' ''b'' TrustProof MeDescriptor)) of
      Some c \<Rightarrow> parse_claimed (write_claimed c) = Inl JMal
    | None \<Rightarrow> False)"
  by code_simp

lemma control_char_not_read: "v_parse_string (write_str [CHR 0x01]) = Inl JMal"
  by code_simp

end
