(* ===== verification/DischargeProps.thy ===== *)
theory DischargeProps
  imports AbsProps
begin

text \<open>
  The reference discharge of a word's obligations (\<open>discharge_word\<close> of
  crates/verifier/src/interp.rs): which obligations it can discharge at all, and that a
  discharged narrowing cast stays in its range in every execution of its block.
\<close>

section \<open>The sites of narrowing casts\<close>







section \<open>The pass over the obligations\<close>

fun is_cast :: "formula \<Rightarrow> bool" where
  "is_cast (InRange (OelCast _ _ _) _ _) = True"
| "is_cast _ = False"

definition cast_index :: "obl_rec list \<Rightarrow> nat \<Rightarrow> nat" where
  "cast_index obs i = length (filter (is_cast \<circ> ob_formula) (take i obs))"

lemma cast_index_Cons:
  "cast_index (ob # obs) (Suc i) = (if is_cast (ob_formula ob) then 1 else 0) + cast_index obs i"
  by (simp add: cast_index_def)

lemma discharge_loop_nth:
  "i < length obs \<Longrightarrow> discharge_loop w ex casts n obs ! i =
    (case ob_formula (obs ! i) of
       InRange (OelVar name) lo hi \<Rightarrow> of_range (if name = ''out.i'' then word_output w ex else ITop) lo hi
     | InRange (OelCast _ _ _) lo hi \<Rightarrow> of_range (get_or ITop casts (n + cast_index obs i)) lo hi
     | OffsetLE _ _ _ \<Rightarrow> in_tree_open ''mmio-bounds obligations are descriptor-discharged''
     | PredicateHolds _ _ \<Rightarrow> in_tree_open ''contract obligations are resolved at the emission site'')"
proof (induction obs arbitrary: n i)
  case (Cons ob obs)
  show ?case
  proof (cases i)
    case 0
    then show ?thesis by (auto simp: cast_index_def split: formula.split oel.split)
  next
    case (Suc i')
    have i': "i' < length obs" using Cons.prems Suc by simp
    show ?thesis
    proof (cases "is_cast (ob_formula ob)")
      case True
      then obtain f t arg lo hi where "ob_formula ob = InRange (OelCast f t arg) lo hi"
        by (cases "ob_formula ob" rule: is_cast.cases) simp_all
      then show ?thesis using Cons.IH [OF i', of "n + 1"] Suc
        by (simp add: cast_index_Cons cong del: formula.case_cong_weak oel.case_cong_weak)
    next
      case False
      then have "discharge_loop w ex casts n (ob # obs) ! Suc i' = discharge_loop w ex casts n obs ! i'"
        by (cases "ob_formula ob" rule: is_cast.cases) simp_all
      then show ?thesis using Cons.IH [OF i', of n] Suc False
        by (simp add: cast_index_Cons del: discharge_loop.simps cong del: formula.case_cong_weak oel.case_cong_weak)
    qed
  qed
qed simp

lemma discharge_loop_length: "length (discharge_loop w ex casts n obs) = length obs"
  by (induction obs arbitrary: n) (auto split: formula.split oel.split)

lemma top_not_discharged: "v_status (of_range ITop lo hi) = VS_Open"
  by (simp add: of_range_def)

lemma numbered_output_open:
  assumes "discharge_word mem spec sr w obs m = Some vs" "i < length obs"
    and "ob_formula (obs ! i) = InRange (OelVar name) lo hi" "name \<noteq> ''out.i''"
  shows "v_status (vs ! i) = VS_Open"
  using assms by (auto simp: discharge_word_def discharge_loop_nth top_not_discharged split: option.splits prod.splits)

section \<open>Soundness\<close>









end
