(* ===== verification/RegionHeap.thy ===== *)
theory RegionHeap
  imports Bytes IrTypes
begin

text \<open>
  The region heap of the browser session with its undo journal: crates/wasm-repl/src/heap.rs,
  journal.rs, the region builtins of builtins.rs and the rollback of session.rs. A machine
  integer of the heap's tables is a natural number; the two places where the code truncates
  or wraps an address or a size (\<open>as u32\<close>, \<open>n + 7\<close>) are written out. \<open>usz\<close> is the number of
  addresses of the host (\<open>2 ^ 32\<close> in the browser). An index out of range is the fault \<open>HeapPanic\<close>.
\<close>

section \<open>Data\<close>

definition NULL_PAGE_BYTES :: nat where "NULL_PAGE_BYTES = 4096"
definition REGION_SLOTS :: nat where "REGION_SLOTS = 16"
definition MAX_REGION_BYTES :: nat where "MAX_REGION_BYTES = 4 * 1024 * 1024"
definition MAX_HEAP_BYTES :: nat where "MAX_HEAP_BYTES = 64 * 1024 * 1024"

datatype heap_fault = BadArgument | Exhausted | OutOfBounds | HeapPanic

fun fault_trap :: "heap_fault \<Rightarrow> trap_code option" where
  "fault_trap BadArgument = Some TR_Unreachable"
| "fault_trap Exhausted = Some TR_RegionExhausted"
| "fault_trap OutOfBounds = Some TR_AssertFail"
| "fault_trap HeapPanic = None"

record heap_region =
  rg_base :: nat
  rg_size :: nat
  rg_off :: nat
  rg_alive :: bool

record live_range =
  lr_start :: nat
  lr_end :: nat

record region_saved =
  sv_base :: nat
  sv_size :: nat
  sv_off :: nat

record region_heap =
  hp_bytes :: bytes
  hp_cursor :: nat
  hp_next :: nat
  hp_regions :: "heap_region list"
  hp_live :: "live_range list"

definition dead_region :: heap_region where
  "dead_region = \<lparr>rg_base = 0, rg_size = 0, rg_off = 0, rg_alive = False\<rparr>"

definition heap_new :: region_heap where
  "heap_new = \<lparr>hp_bytes = replicate NULL_PAGE_BYTES 0, hp_cursor = NULL_PAGE_BYTES, hp_next = 0,
     hp_regions = replicate REGION_SLOTS dead_region, hp_live = []\<rparr>"

section \<open>Allocation\<close>

definition heap_align8 :: "nat \<Rightarrow> nat" where
  "heap_align8 n = ((n + 7) mod 2 ^ 64) div 8 * 8"

definition resize :: "nat \<Rightarrow> bytes \<Rightarrow> bytes" where
  "resize n bs = take n bs @ replicate (n - length bs) 0"

definition arena_reserve :: "nat \<Rightarrow> region_heap \<Rightarrow> heap_fault + nat \<times> region_heap" where
  "arena_reserve n h =
    (let n = heap_align8 n in
     if MAX_REGION_BYTES < n then Inl Exhausted
     else if MAX_HEAP_BYTES < hp_cursor h + n then Inl Exhausted
     else Inr (hp_cursor h, h\<lparr>hp_bytes := resize (hp_cursor h + n) (hp_bytes h), hp_cursor := hp_cursor h + n\<rparr>))"

text \<open>The first slot that is not alive, else the next one never handed out.\<close>

definition free_slot :: "region_heap \<Rightarrow> (nat \<times> region_heap) option" where
  "free_slot h = (case find (\<lambda>i. \<not> rg_alive (hp_regions h ! i)) [0..<length (hp_regions h)] of
     Some i \<Rightarrow> Some (i, h)
   | None \<Rightarrow> if hp_next h < REGION_SLOTS then Some (hp_next h, h\<lparr>hp_next := hp_next h + 1\<rparr>) else None)"

definition region_create :: "nat \<Rightarrow> region_heap \<Rightarrow> (heap_fault + nat \<times> nat) \<times> region_heap" where
  "region_create sz h =
    (if sz = 0 then (Inl BadArgument, h)
     else (let size = heap_align8 sz in
       if MAX_REGION_BYTES < size then (Inl Exhausted, h)
       else (case free_slot h of
          None \<Rightarrow> (Inl Exhausted, h)
        | Some (slot, h) \<Rightarrow>
            (let old_cursor = hp_cursor h in
             case arena_reserve size h of
               Inl e \<Rightarrow> (Inl e, h)
             | Inr (base, h) \<Rightarrow>
                 (Inr (slot, old_cursor),
                  h\<lparr>hp_regions := (hp_regions h)[slot := \<lparr>rg_base = base, rg_size = size, rg_off = 0, rg_alive = True\<rparr>],
                    hp_live := hp_live h @ [\<lparr>lr_start = base, lr_end = base + size\<rparr>]\<rparr>)))))"

definition heap_slot :: "nat \<Rightarrow> region_heap \<Rightarrow> heap_fault + nat" where
  "heap_slot handle h =
    (if REGION_SLOTS \<le> handle then Inl BadArgument
     else if \<not> rg_alive (hp_regions h ! handle) then Inl BadArgument else Inr handle)"

definition set_off :: "nat \<Rightarrow> nat \<Rightarrow> region_heap \<Rightarrow> region_heap" where
  "set_off slot off h = h\<lparr>hp_regions := (hp_regions h)[slot := (hp_regions h ! slot)\<lparr>rg_off := off\<rparr>]\<rparr>"

definition region_alloc :: "nat \<Rightarrow> nat \<Rightarrow> region_heap \<Rightarrow> heap_fault + (nat \<times> nat) \<times> region_heap" where
  "region_alloc handle sz h = bindE (heap_slot handle h) (\<lambda>slot.
     if sz = 0 then Inl BadArgument
     else (let aligned = heap_align8 sz; r = hp_regions h ! slot; new_off = rg_off r + aligned in
       if MAX_REGION_BYTES < aligned then Inl Exhausted
       else if rg_size r < new_off then Inl Exhausted
       else Inr ((rg_base r + rg_off r, rg_off r), set_off slot new_off h)))"

definition region_reset :: "nat \<Rightarrow> region_heap \<Rightarrow> heap_fault + nat \<times> region_heap" where
  "region_reset handle h = bindE (heap_slot handle h) (\<lambda>slot.
     Inr (rg_off (hp_regions h ! slot), set_off slot 0 h))"

definition drop_range :: "nat \<Rightarrow> nat \<Rightarrow> region_heap \<Rightarrow> region_heap" where
  "drop_range s e h = h\<lparr>hp_live := filter (\<lambda>r. \<not> (lr_start r = s \<and> lr_end r = e)) (hp_live h)\<rparr>"

definition region_destroy :: "nat \<Rightarrow> region_heap \<Rightarrow> heap_fault + region_saved \<times> region_heap" where
  "region_destroy handle h = bindE (heap_slot handle h) (\<lambda>slot.
     (let r = hp_regions h ! slot in
      Inr (\<lparr>sv_base = rg_base r, sv_size = rg_size r, sv_off = rg_off r\<rparr>,
        (drop_range (rg_base r) (rg_base r + rg_size r) h)\<lparr>hp_regions := (hp_regions h)[slot := dead_region]\<rparr>)))"

text \<open>Bytes put at a reserved address, which becomes live.\<close>

definition place_bytes :: "nat \<Rightarrow> bytes \<Rightarrow> region_heap \<Rightarrow> heap_fault + region_heap" where
  "place_bytes base bs h = (case write_at base bs (hp_bytes h) of
     None \<Rightarrow> Inl HeapPanic
   | Some b \<Rightarrow> Inr (h\<lparr>hp_bytes := b,
       hp_live := hp_live h @ [\<lparr>lr_start = base, lr_end = base + length bs\<rparr>]\<rparr>))"

definition scoped_enter :: "u64 \<Rightarrow> u64 \<Rightarrow> region_heap \<Rightarrow> heap_fault + (nat \<times> nat) \<times> region_heap" where
  "scoped_enter ptr len h = bindE (arena_reserve 16 h) (\<lambda>(base, h').
     bindE (place_bytes base (to_le (ucast ptr :: u32) @ to_le (0 :: u32) @ to_le (ucast len :: u32) @ to_le (0 :: u32)) h')
       (\<lambda>h'. Inr ((base, hp_cursor h), h')))"

definition intern :: "bytes \<Rightarrow> region_heap \<Rightarrow> heap_fault + nat \<times> region_heap" where
  "intern bs h = bindE (arena_reserve (length bs + 8) h) (\<lambda>(base, h).
     bindE (place_bytes base (to_le (word_of_nat (length bs) :: u64) @ bs) h) (\<lambda>h. Inr (base, h)))"

section \<open>Access\<close>

definition range_check :: "nat \<Rightarrow> nat \<Rightarrow> region_heap \<Rightarrow> bool" where
  "range_check addr w h =
    (NULL_PAGE_BYTES \<le> addr \<and>
     (let start = addr mod 2 ^ 32; e = (start + w) mod 2 ^ 32 in
      \<exists>r \<in> set (hp_live h). lr_start r \<le> start \<and> e \<le> lr_end r))"

definition heap_load :: "nat \<Rightarrow> nat \<Rightarrow> nat \<Rightarrow> region_heap \<Rightarrow> heap_fault + u64" where
  "heap_load usz addr w h =
    (if \<not> range_check addr w h then Inl OutOfBounds
     else (case read_at (hp_bytes h) (addr mod usz) w of None \<Rightarrow> Inl HeapPanic | Some bs \<Rightarrow> Inr (of_le bs)))"

definition poke :: "nat \<Rightarrow> nat \<Rightarrow> nat \<Rightarrow> u64 \<Rightarrow> region_heap \<Rightarrow> region_heap option" where
  "poke usz addr w val h = map_option (\<lambda>b. h\<lparr>hp_bytes := b\<rparr>)
     (write_at (addr mod usz) (take w (to_le val)) (hp_bytes h))"

definition heap_store :: "nat \<Rightarrow> nat \<Rightarrow> nat \<Rightarrow> u64 \<Rightarrow> region_heap \<Rightarrow> heap_fault + u64 \<times> region_heap" where
  "heap_store usz addr w val h = bindE (heap_load usz addr w h) (\<lambda>old.
     case poke usz addr w val h of None \<Rightarrow> Inl HeapPanic | Some h \<Rightarrow> Inr (old, h))"

section \<open>Undo\<close>

definition reclaim :: "nat \<Rightarrow> region_heap \<Rightarrow> region_heap" where
  "reclaim old_cursor h =
    (if NULL_PAGE_BYTES \<le> old_cursor \<and> old_cursor \<le> hp_cursor h
     then h\<lparr>hp_bytes := take old_cursor (hp_bytes h), hp_cursor := old_cursor\<rparr> else h)"

definition compensate_cursor :: "nat \<Rightarrow> nat \<Rightarrow> region_heap \<Rightarrow> region_heap" where
  "compensate_cursor handle old_off h = (if handle < length (hp_regions h) then set_off handle old_off h else h)"

definition compensate_region_create :: "nat \<Rightarrow> nat \<Rightarrow> region_heap \<Rightarrow> region_heap" where
  "compensate_region_create handle old_cursor h = reclaim old_cursor
     (if handle < length (hp_regions h)
      then (let r = hp_regions h ! handle;
                h = (if rg_alive r then drop_range (rg_base r) (rg_base r + rg_size r) h else h)
            in h\<lparr>hp_regions := (hp_regions h)[handle := dead_region]\<rparr>)
      else h)"

definition compensate_region_destroy :: "nat \<Rightarrow> region_saved \<Rightarrow> region_heap \<Rightarrow> region_heap" where
  "compensate_region_destroy handle sv h =
    (if handle < length (hp_regions h)
     then (let h = h\<lparr>hp_regions := (hp_regions h)[handle :=
              \<lparr>rg_base = sv_base sv, rg_size = sv_size sv, rg_off = sv_off sv, rg_alive = True\<rparr>]\<rparr>
           in if 0 < sv_size sv
              then h\<lparr>hp_live := hp_live h @ [\<lparr>lr_start = sv_base sv, lr_end = sv_base sv + sv_size sv\<rparr>]\<rparr> else h)
     else h)"

definition compensate_scoped :: "nat \<Rightarrow> nat \<Rightarrow> region_heap \<Rightarrow> region_heap" where
  "compensate_scoped addr old_cursor h = reclaim old_cursor (drop_range (addr mod 2 ^ 32) (addr mod 2 ^ 32 + 16) h)"

definition compensate_intern :: "nat \<Rightarrow> nat \<Rightarrow> region_heap \<Rightarrow> region_heap" where
  "compensate_intern addr old_cursor h = reclaim old_cursor
     (h\<lparr>hp_live := filter (\<lambda>r. lr_start r \<noteq> addr mod 2 ^ 32) (hp_live h)\<rparr>)"

section \<open>The journal\<close>

datatype effect =
    EStore nat nat u64
  | ERegionCreate nat nat
  | EIntern nat nat
  | ERegionAlloc nat nat
  | ERegionReset nat nat
  | ERegionDestroy nat region_saved
  | EScopedEnter nat nat
  | EOutput u32 u32
  | ECall bytes u16
  | EPeriph u16 u32 u8 u64 bool

fun trace_only :: "effect \<Rightarrow> bool" where
  "trace_only (EOutput _ _) = True"
| "trace_only (ECall _ _) = True"
| "trace_only (EPeriph _ _ _ _ _) = True"
| "trace_only _ = False"

fun undo_effect :: "nat \<Rightarrow> effect \<Rightarrow> region_heap \<Rightarrow> region_heap option" where
  "undo_effect usz (EStore addr w old) h = poke usz addr w old h"
| "undo_effect usz (ERegionCreate handle cur) h = Some (compensate_region_create handle cur h)"
| "undo_effect usz (EIntern addr cur) h = Some (compensate_intern addr cur h)"
| "undo_effect usz (ERegionAlloc handle off) h = Some (compensate_cursor handle off h)"
| "undo_effect usz (ERegionReset handle off) h = Some (compensate_cursor handle off h)"
| "undo_effect usz (ERegionDestroy handle sv) h = Some (compensate_region_destroy handle sv h)"
| "undo_effect usz (EScopedEnter addr cur) h = Some (compensate_scoped addr cur h)"
| "undo_effect usz _ h = Some h"

fun undo_all :: "nat \<Rightarrow> effect list \<Rightarrow> region_heap \<Rightarrow> region_heap option" where
  "undo_all usz [] h = Some h"
| "undo_all usz (e # es) h = Option.bind (undo_effect usz e h) (undo_all usz es)"

text \<open>The journaled heap operations of the engine: the four region builtins, a typed store, a
  slice descriptor and the storage of a resource place. A fault leaves no effect behind.\<close>

datatype heap_op = HCreate nat | HAlloc nat nat | HReset nat | HDestroy nat | HStore nat nat u64
  | HScoped u64 u64 | HResource

definition keep :: "region_heap \<Rightarrow> ('a \<Rightarrow> effect) \<Rightarrow> heap_fault + 'a \<times> region_heap \<Rightarrow> (heap_fault + effect) \<times> region_heap" where
  "keep h f res = (case res of Inl e \<Rightarrow> (Inl e, h) | Inr (x, h') \<Rightarrow> (Inr (f x), h'))"

fun heap_step :: "nat \<Rightarrow> heap_op \<Rightarrow> region_heap \<Rightarrow> (heap_fault + effect) \<times> region_heap" where
  "heap_step usz (HCreate sz) h = (case region_create sz h of
     (Inl e, h) \<Rightarrow> (Inl e, h) | (Inr (handle, cur), h) \<Rightarrow> (Inr (ERegionCreate handle cur), h))"
| "heap_step usz (HAlloc handle sz) h = keep h (\<lambda>(_, off). ERegionAlloc handle off) (region_alloc handle sz h)"
| "heap_step usz (HReset handle) h = keep h (ERegionReset handle) (region_reset handle h)"
| "heap_step usz (HDestroy handle) h = keep h (ERegionDestroy handle) (region_destroy handle h)"
| "heap_step usz (HStore addr w val) h = keep h (EStore addr w) (heap_store usz addr w val h)"
| "heap_step usz (HScoped ptr len) h = keep h (\<lambda>(addr, cur). EScopedEnter addr cur) (scoped_enter ptr len h)"
| "heap_step usz HResource h = keep h (\<lambda>addr. EIntern addr (hp_cursor h)) (intern [] h)"

section \<open>The session's state and its rollback\<close>

record ('s, 'f) exec_state =
  xs_stack :: "'s list"
  xs_frames :: "'f list"
  xs_heap :: region_heap
  xs_fuel :: u64
  xs_journal :: "effect list"
  xs_resources :: "(bytes \<times> nat) list"

record 's checkpoint =
  ck_stack :: "'s list"
  ck_fuel :: u64

definition in_session :: "'s list \<Rightarrow> region_heap \<Rightarrow> u64 \<Rightarrow> ('s, 'f) exec_state" where
  "in_session sk h fu = \<lparr>xs_stack = sk, xs_frames = [], xs_heap = h, xs_fuel = fu, xs_journal = [], xs_resources = []\<rparr>"

text \<open>The constant strings of the module, each put into the heap once: \<open>consts\<close> lists the literals in
  the order of the module's operations as pairs of span start and decoded bytes.\<close>

fun intern_compiled :: "(nat \<times> bytes) list \<Rightarrow> (nat \<times> nat) list \<times> region_heap \<Rightarrow> (nat \<times> nat) list \<times> region_heap" where
  "intern_compiled [] (strs, h) = (strs, h)"
| "intern_compiled ((k, bs) # cs) (strs, h) =
    (if k \<in> fst ` set strs then intern_compiled cs (strs, h)
     else (case intern bs h of
         Inl _ \<Rightarrow> intern_compiled cs (strs, h)
       | Inr (addr, h) \<Rightarrow> intern_compiled cs (strs @ [(k, addr)], h)))"

text \<open>The trace-only entry of an output: \<open>start\<close> counts the bytes written before it.\<close>

definition output_len :: "effect \<Rightarrow> u32" where
  "output_len e = (case e of EOutput _ n \<Rightarrow> n | _ \<Rightarrow> 0)"

definition record_output :: "u32 \<Rightarrow> ('s, 'f) exec_state \<Rightarrow> ('s, 'f) exec_state" where
  "record_output n st = (if n = 0 then st
     else st\<lparr>xs_journal := xs_journal st @ [EOutput (sum_list (map output_len (xs_journal st))) n]\<rparr>)"

definition resource_addr :: "nat \<Rightarrow> bytes \<Rightarrow> ('s, 'f) exec_state \<Rightarrow> (trap_code + nat) \<times> ('s, 'f) exec_state" where
  "resource_addr usz place st = (case find (\<lambda>(p, _). p = place) (xs_resources st) of
     Some (_, a) \<Rightarrow> (Inr a, st)
   | None \<Rightarrow> (case heap_step usz HResource (xs_heap st) of
       (Inr (EIntern addr cur), h) \<Rightarrow> (Inr addr, st\<lparr>xs_heap := h, xs_journal := xs_journal st @ [EIntern addr cur],
           xs_resources := xs_resources st @ [(place, addr)]\<rparr>)
     | _ \<Rightarrow> (Inl TR_RegionExhausted, st)))"

definition fuel_take :: "u64 \<Rightarrow> bool \<times> u64" where
  "fuel_take n = (if n = 0 then (False, n) else (True, n - 1))"

definition take_checkpoint :: "('s, 'f) exec_state \<Rightarrow> 's checkpoint" where
  "take_checkpoint st = \<lparr>ck_stack = xs_stack st, ck_fuel = xs_fuel st\<rparr>"

definition session_rollback :: "nat \<Rightarrow> ('s, 'f) exec_state \<Rightarrow> 's checkpoint \<Rightarrow> ('s, 'f) exec_state option" where
  "session_rollback usz st snap = map_option (\<lambda>h. st\<lparr>xs_heap := h, xs_journal := [], xs_frames := [],
     xs_resources := [], xs_stack := ck_stack snap, xs_fuel := ck_fuel snap\<rparr>)
     (undo_all usz (rev (xs_journal st)) (xs_heap st))"

end
