(* ===== verification/RegionHeapProps.thy ===== *)
theory RegionHeapProps
  imports RegionHeap "HOL-Library.Multiset"
begin

text \<open>
  The region heap: the invariant its operations keep, the pointers it hands out, and the
  transaction - undoing the journal from its end restores the heap a phrase started from.
\<close>

section \<open>Undo logs\<close>

text \<open>The contract of a journal: each effect that a step records has an undo that leads back to
  a state that cannot be told from the one before.\<close>

fun chain :: "('s \<Rightarrow> 'e \<Rightarrow> 's \<Rightarrow> bool) \<Rightarrow> 's \<Rightarrow> 'e list \<Rightarrow> 's \<Rightarrow> bool" where
  "chain step s [] s' = (s' = s)"
| "chain step s (e # es) s' = (\<exists>t. step s e t \<and> chain step t es s')"

lemma chain_snoc: "chain step s (es @ [e]) s' \<longleftrightarrow> (\<exists>t. chain step s es t \<and> step t e s')"
  by (induction es arbitrary: s) auto

fun unwind :: "('e \<Rightarrow> 's \<Rightarrow> 's option) \<Rightarrow> 'e list \<Rightarrow> 's \<Rightarrow> 's option" where
  "unwind undo [] s = Some s"
| "unwind undo (e # es) s = Option.bind (undo e s) (unwind undo es)"

locale undo_log =
  fixes inv :: "'s \<Rightarrow> bool"
    and sim :: "'s \<Rightarrow> 's \<Rightarrow> bool"
    and step :: "'s \<Rightarrow> 'e \<Rightarrow> 's \<Rightarrow> bool"
    and undo :: "'e \<Rightarrow> 's \<Rightarrow> 's option"
  assumes sim_refl: "sim s s"
    and sim_trans: "sim s t \<Longrightarrow> sim t u \<Longrightarrow> sim s u"
    and step_inv: "inv s \<Longrightarrow> step s e s' \<Longrightarrow> inv s'"
    and undo_step: "inv s \<Longrightarrow> step s e s' \<Longrightarrow> \<exists>t. undo e s' = Some t \<and> sim t s"
    and undo_sim: "sim s t \<Longrightarrow> undo e t = Some t' \<Longrightarrow> \<exists>s'. undo e s = Some s' \<and> sim s' t'"
begin

lemma chain_inv: "inv s \<Longrightarrow> chain step s es s' \<Longrightarrow> inv s'"
  by (induction es arbitrary: s) (auto dest: step_inv)

lemma unwind_sim: "sim s t \<Longrightarrow> unwind undo es t = Some t' \<Longrightarrow> \<exists>s'. unwind undo es s = Some s' \<and> sim s' t'"
proof (induction es arbitrary: s t)
  case (Cons e es)
  from Cons.prems(2) obtain t1 where t1: "undo e t = Some t1" "unwind undo es t1 = Some t'"
    by (auto simp: Option.bind_eq_Some_conv)
  from undo_sim [OF Cons.prems(1) t1(1)] obtain s1 where "undo e s = Some s1" "sim s1 t1" by blast
  with Cons.IH [OF _ t1(2)] show ?case by auto
qed simp

lemma unwind_restores: "inv s \<Longrightarrow> chain step s es s' \<Longrightarrow> \<exists>t. unwind undo (rev es) s' = Some t \<and> sim t s"
proof (induction es arbitrary: s' rule: rev_induct)
  case Nil
  then show ?case using sim_refl by simp
next
  case (snoc e es)
  then obtain t where t: "chain step s es t" "step t e s'" by (auto simp: chain_snoc)
  obtain u where u: "undo e s' = Some u" "sim u t"
    using undo_step [OF chain_inv [OF snoc.prems(1) t(1)] t(2)] by blast
  obtain v where v: "unwind undo (rev es) t = Some v" "sim v s" using snoc.IH [OF snoc.prems(1) t(1)] by blast
  then show ?case using unwind_sim [OF u(2) v(1)] u(1) sim_trans by fastforce
qed

end

section \<open>The invariant\<close>

definition apart_ranges :: "live_range \<Rightarrow> live_range \<Rightarrow> bool" where
  "apart_ranges r s \<longleftrightarrow> lr_end r \<le> lr_start s \<or> lr_end s \<le> lr_start r"

definition live_ok :: "nat \<Rightarrow> live_range list \<Rightarrow> bool" where
  "live_ok cur rs \<longleftrightarrow> (\<forall>r \<in> set rs. NULL_PAGE_BYTES \<le> lr_start r \<and> lr_start r < lr_end r \<and> lr_end r \<le> cur)
     \<and> (\<forall>i < length rs. \<forall>j < length rs. i \<noteq> j \<longrightarrow> apart_ranges (rs ! i) (rs ! j))"

definition body :: "heap_region \<Rightarrow> live_range" where
  "body r = \<lparr>lr_start = rg_base r, lr_end = rg_base r + rg_size r\<rparr>"

definition region_ok :: "region_heap \<Rightarrow> heap_region \<Rightarrow> bool" where
  "region_ok h r \<longleftrightarrow> (if rg_alive r then body r \<in> set (hp_live h) \<and> rg_off r \<le> rg_size r else r = dead_region)"

definition apart :: "heap_region list \<Rightarrow> bool" where
  "apart rs \<longleftrightarrow> (\<forall>i < length rs. \<forall>j < length rs. rg_alive (rs ! i) \<longrightarrow> rg_alive (rs ! j)
     \<longrightarrow> rg_base (rs ! i) = rg_base (rs ! j) \<longrightarrow> i = j)"

definition heap_wf :: "region_heap \<Rightarrow> bool" where
  "heap_wf h \<longleftrightarrow> length (hp_bytes h) = hp_cursor h \<and> NULL_PAGE_BYTES \<le> hp_cursor h \<and> hp_cursor h \<le> MAX_HEAP_BYTES
     \<and> length (hp_regions h) = REGION_SLOTS \<and> live_ok (hp_cursor h) (hp_live h)
     \<and> (\<forall>r \<in> set (hp_regions h). region_ok h r) \<and> apart (hp_regions h)"

definition same_heap :: "region_heap \<Rightarrow> region_heap \<Rightarrow> bool" where
  "same_heap h h' \<longleftrightarrow> hp_bytes h = hp_bytes h' \<and> hp_cursor h = hp_cursor h' \<and> hp_next h = hp_next h'
     \<and> hp_regions h = hp_regions h' \<and> mset (hp_live h) = mset (hp_live h')"

lemma live_ok_alt:
  "live_ok cur rs \<longleftrightarrow> (\<forall>r \<in> set rs. NULL_PAGE_BYTES \<le> lr_start r \<and> lr_start r < lr_end r \<and> lr_end r \<le> cur)
     \<and> sorted_wrt apart_ranges rs"
proof -
  have sym: "apart_ranges a b \<Longrightarrow> apart_ranges b a" for a b by (auto simp: apart_ranges_def)
  have "apart_ranges (rs ! i) (rs ! j)"
    if "\<forall>i j. i < j \<longrightarrow> j < length rs \<longrightarrow> apart_ranges (rs ! i) (rs ! j)" "i < length rs" "j < length rs" "i \<noteq> j" for i j
    using that sym [of "rs ! j" "rs ! i"] by (cases "i < j") auto
  then show ?thesis unfolding live_ok_def sorted_wrt_iff_nth_less by fastforce
qed

lemma live_ok_Nil [simp]: "live_ok cur []"
  by (simp add: live_ok_def)

lemma live_ok_snoc:
  "live_ok cur (rs @ [r]) \<longleftrightarrow> live_ok cur rs \<and> NULL_PAGE_BYTES \<le> lr_start r \<and> lr_start r < lr_end r \<and> lr_end r \<le> cur
     \<and> (\<forall>s \<in> set rs. apart_ranges s r)"
  by (auto simp: live_ok_alt sorted_wrt_append)

lemma live_ok_mono: "live_ok cur rs \<Longrightarrow> cur \<le> cur' \<Longrightarrow> live_ok cur' rs"
  by (auto simp: live_ok_def)

lemma live_ok_filter: "live_ok cur rs \<Longrightarrow> live_ok cur (filter P rs)"
  by (auto simp: live_ok_alt sorted_wrt_filter)

lemma live_ok_new:
  assumes "live_ok cur rs" "NULL_PAGE_BYTES \<le> cur" "cur < e" "e \<le> cur'"
  shows "live_ok cur' (rs @ [\<lparr>lr_start = cur, lr_end = e\<rparr>])"
  using assms live_ok_mono [OF assms(1), of cur'] unfolding live_ok_snoc
  by (auto simp: live_ok_def apart_ranges_def)

text \<open>A live range is there once, so dropping it removes just one entry.\<close>

lemma live_ok_once:
  assumes "live_ok cur rs" "r \<in> set rs"
  shows "mset (filter (\<lambda>x. \<not> (lr_start x = lr_start r \<and> lr_end x = lr_end r)) rs) = mset rs - {#r#}"
  using assms
proof (induction rs)
  case (Cons x rs)
  have eq: "lr_start x = lr_start r \<and> lr_end x = lr_end r \<longleftrightarrow> x = r" for x :: live_range by auto
  from Cons.prems(1) have ok: "live_ok cur rs" "\<forall>y \<in> set rs. apart_ranges x y" "lr_start x < lr_end x"
    by (auto simp: live_ok_alt)
  show ?case
  proof (cases "x = r")
    case True
    have "r \<notin> set rs" using ok(2,3) True by (auto simp: apart_ranges_def)
    then have "filter (\<lambda>y. \<not> (lr_start y = lr_start r \<and> lr_end y = lr_end r)) rs = rs"
      by (intro filter_True) (metis eq)
    then show ?thesis using True by simp
  next
    case False
    then have "\<not> (lr_start x = lr_start r \<and> lr_end x = lr_end r)" using eq by simp
    then show ?thesis using Cons False ok(1) by (simp add: multiset_diff_union_assoc)
  qed
qed simp

lemma heap_new_wf: "heap_wf heap_new"
  by (auto simp: heap_wf_def heap_new_def region_ok_def apart_def dead_region_def NULL_PAGE_BYTES_def
      MAX_HEAP_BYTES_def REGION_SLOTS_def nth_Cons')

lemma apart_update:
  assumes "apart rs" "\<And>i. i < length rs \<Longrightarrow> i \<noteq> k \<Longrightarrow> rg_alive (rs ! i) \<Longrightarrow> rg_alive r \<Longrightarrow> rg_base (rs ! i) \<noteq> rg_base r"
  shows "apart (rs[k := r])"
  unfolding apart_def
proof (intro allI impI)
  fix i j
  assume ij: "i < length (rs[k := r])" "j < length (rs[k := r])" "rg_alive (rs[k := r] ! i)"
    "rg_alive (rs[k := r] ! j)" "rg_base (rs[k := r] ! i) = rg_base (rs[k := r] ! j)"
  show "i = j"
  proof (cases "i = k")
    case True
    with ij assms(2) [of j] show ?thesis by (cases "j = k") auto
  next
    case False
    with ij assms(2) [of i] assms(1) show ?thesis by (cases "j = k") (auto simp: apart_def)
  qed
qed

section \<open>Growing the arena\<close>

lemma align8_ge: "n + 7 < 2 ^ 64 \<Longrightarrow> n \<le> heap_align8 n"
  by (simp add: heap_align8_def)

lemma arena_reserve_Inr:
  assumes "arena_reserve n h = Inr (base, h')" "heap_wf h"
  shows "base = hp_cursor h \<and> hp_cursor h + heap_align8 n \<le> MAX_HEAP_BYTES
    \<and> h' = h\<lparr>hp_bytes := hp_bytes h @ replicate (heap_align8 n) 0, hp_cursor := hp_cursor h + heap_align8 n\<rparr>"
  using assms by (auto simp: arena_reserve_def Let_def resize_def heap_wf_def split: if_splits)

definition grow :: "bytes \<Rightarrow> nat \<Rightarrow> region_heap \<Rightarrow> region_heap" where
  "grow bs n h = h\<lparr>hp_bytes := hp_bytes h @ bs, hp_cursor := hp_cursor h + length bs,
     hp_live := hp_live h @ [\<lparr>lr_start = hp_cursor h, lr_end = hp_cursor h + n\<rparr>]\<rparr>"

lemma region_ok_grow: "region_ok h r \<Longrightarrow> region_ok (grow bs n h) r"
  by (auto simp: region_ok_def grow_def)

lemma grow_wf:
  assumes "heap_wf h" "hp_cursor h + length bs \<le> MAX_HEAP_BYTES" "0 < n" "n \<le> length bs"
  shows "heap_wf (grow bs n h)"
  using assms region_ok_grow [of h _ bs n] live_ok_new [of "hp_cursor h" "hp_live h"]
  by (simp add: heap_wf_def) (simp add: grow_def)

lemma live_below: "heap_wf h \<Longrightarrow> r \<in> set (hp_live h) \<Longrightarrow> lr_start r < hp_cursor h"
  by (fastforce simp: heap_wf_def live_ok_def)

lemma reclaim_grow:
  "heap_wf h \<Longrightarrow> reclaim (hp_cursor h) (h\<lparr>hp_bytes := hp_bytes h @ bs, hp_cursor := hp_cursor h + n\<rparr>) = h"
  by (simp add: reclaim_def heap_wf_def)

lemma live_fresh:
  assumes "heap_wf h"
  shows "filter (\<lambda>r. lr_start r = hp_cursor h \<longrightarrow> P r) (hp_live h) = hp_live h"
    and "filter (\<lambda>r. lr_start r \<noteq> hp_cursor h) (hp_live h) = hp_live h"
  by (auto intro!: filter_True dest: live_below [OF assms])

lemma drop_grow:
  assumes "heap_wf h"
  shows "drop_range (hp_cursor h) (hp_cursor h + n) (grow bs n h)
      = h\<lparr>hp_bytes := hp_bytes h @ bs, hp_cursor := hp_cursor h + length bs\<rparr>"
    and "filter (\<lambda>r. lr_start r \<noteq> hp_cursor h) (hp_live (grow bs n h)) = hp_live h"
  by (simp_all add: drop_range_def grow_def live_fresh [OF assms])

lemma place_reserved:
  assumes "arena_reserve n h = Inr (base, h1)" "place_bytes base bs h1 = Inr h2" "heap_wf h"
  shows "\<exists>pad. base = hp_cursor h \<and> h2 = grow (bs @ pad) (length bs) h
    \<and> hp_cursor h + length (bs @ pad) \<le> MAX_HEAP_BYTES"
proof -
  note r = arena_reserve_Inr [OF assms(1,3)]
  let ?k = "heap_align8 n"
  have len: "length bs \<le> ?k" and "write_at (hp_cursor h) bs (hp_bytes h @ replicate ?k 0) \<noteq> None"
    using r assms(2,3) by (auto simp: place_bytes_def write_at_def heap_wf_def split: option.splits if_splits)
  with r assms(2,3) have "h2 = grow (bs @ replicate (?k - length bs) 0) (length bs) h"
    by (auto simp: place_bytes_def write_at_def heap_wf_def grow_def split: option.splits if_splits)
  with r len show ?thesis by (intro exI [of _ "replicate (?k - length bs) 0"]) simp
qed

section \<open>The operations\<close>

lemma heap_slot_Inr:
  assumes "heap_slot i h = Inr k" "heap_wf h"
  shows "k = i" "i < length (hp_regions h)" "rg_alive (hp_regions h ! i)" "body (hp_regions h ! i) \<in> set (hp_live h)"
    "rg_off (hp_regions h ! i) \<le> rg_size (hp_regions h ! i)"
proof -
  show k: "k = i" and i: "i < length (hp_regions h)" and al: "rg_alive (hp_regions h ! i)"
    using assms by (auto simp: heap_slot_def heap_wf_def split: if_splits)
  have "region_ok h (hp_regions h ! i)" using assms(2) i by (simp add: heap_wf_def)
  with al show "body (hp_regions h ! i) \<in> set (hp_live h)" "rg_off (hp_regions h ! i) \<le> rg_size (hp_regions h ! i)"
    by (simp_all add: region_ok_def)
qed

text \<open>A new offset in a live region.\<close>

lemma set_off_wf:
  assumes "heap_wf h" "i < length (hp_regions h)" "rg_alive (hp_regions h ! i)" "off \<le> rg_size (hp_regions h ! i)"
  shows "heap_wf (set_off i off h)"
proof -
  have ok: "region_ok h (hp_regions h ! i)" using assms(1,2) by (simp add: heap_wf_def)
  let ?r = "(hp_regions h ! i)\<lparr>rg_off := off\<rparr>"
  have "apart ((hp_regions h)[i := ?r])"
    by (rule apart_update) (use assms in \<open>auto simp: heap_wf_def apart_def\<close>)
  moreover have "region_ok h ?r" using ok assms(3,4) by (simp add: region_ok_def body_def)
  ultimately show ?thesis
    using assms(1) by (auto simp: heap_wf_def set_off_def region_ok_def dest!: set_update_subset_insert [THEN subsetD])
qed

lemma set_off_undo: "i < length (hp_regions h) \<Longrightarrow> set_off i (rg_off (hp_regions h ! i)) (set_off i off h) = h"
  by (simp add: set_off_def)

lemma align8_small: "0 < sz \<Longrightarrow> sz + 7 < 2 ^ 64 \<Longrightarrow> 0 < heap_align8 sz"
  using align8_ge [of sz] by simp

lemma align8_idem: "heap_align8 n \<le> MAX_REGION_BYTES \<Longrightarrow> heap_align8 (heap_align8 n) = heap_align8 n"
  by (simp add: heap_align8_def MAX_REGION_BYTES_def)

lemma free_slot_dead:
  assumes "\<exists>r \<in> set (hp_regions h). \<not> rg_alive r" "free_slot h = Some (i, h')"
  shows "h' = h \<and> i < length (hp_regions h) \<and> \<not> rg_alive (hp_regions h ! i)"
proof -
  from assms(1) obtain k where "k < length (hp_regions h)" "\<not> rg_alive (hp_regions h ! k)" by (auto simp: in_set_conv_nth)
  then obtain j where j: "find (\<lambda>i. \<not> rg_alive (hp_regions h ! i)) [0..<length (hp_regions h)] = Some j"
    by (cases "find (\<lambda>i. \<not> rg_alive (hp_regions h ! i)) [0..<length (hp_regions h)]") (auto simp: find_None_iff)
  then have "i = j" "h' = h" using assms(2) by (simp_all add: free_slot_def)
  with j show ?thesis by (auto simp: find_Some_iff)
qed

definition add_region :: "nat \<Rightarrow> bytes \<Rightarrow> region_heap \<Rightarrow> region_heap" where
  "add_region i bs h = (grow bs (length bs) h)\<lparr>hp_regions := (hp_regions h)
     [i := \<lparr>rg_base = hp_cursor h, rg_size = length bs, rg_off = 0, rg_alive = True\<rparr>]\<rparr>"

lemma region_create_Inr:
  assumes "region_create sz h = (Inr (i, cur), h')" "heap_wf h" "sz + 7 < 2 ^ 64"
    "\<exists>r \<in> set (hp_regions h). \<not> rg_alive r"
  shows "\<exists>bs. i < length (hp_regions h) \<and> hp_regions h ! i = dead_region \<and> cur = hp_cursor h \<and> bs \<noteq> []
    \<and> hp_cursor h + length bs \<le> MAX_HEAP_BYTES \<and> h' = add_region i bs h"
proof -
  let ?n = "heap_align8 sz"
  have sz: "0 < sz" "?n \<le> MAX_REGION_BYTES" using assms(1) by (auto simp: region_create_def Let_def split: if_splits)
  obtain h1 where f: "free_slot h = Some (i, h1)"
    using assms(1) sz by (auto simp: region_create_def Let_def split: option.splits sum.splits)
  note d = free_slot_dead [OF assms(4) f]
  obtain base h2 where r: "arena_reserve ?n h = Inr (base, h2)"
    using assms(1) sz f d by (auto simp: region_create_def Let_def split: sum.splits)
  note r' = arena_reserve_Inr [OF r assms(2)]
  have "region_ok h (hp_regions h ! i)" using assms(2) d by (simp add: heap_wf_def)
  then have "hp_regions h ! i = dead_region" using d by (simp add: region_ok_def)
  moreover have "?n \<noteq> 0" using align8_small [OF sz(1) assms(3)] by simp
  ultimately show ?thesis
    using assms(1) sz f d r r' align8_idem [OF sz(2)]
    by (intro exI [of _ "replicate ?n 0"]) (auto simp: region_create_def add_region_def grow_def Let_def)
qed

lemma add_region_wf:
  assumes "heap_wf h" "i < length (hp_regions h)" "bs \<noteq> []" "hp_cursor h + length bs \<le> MAX_HEAP_BYTES"
  shows "heap_wf (add_region i bs h)"
proof -
  have g: "heap_wf (grow bs (length bs) h)" using assms by (intro grow_wf) auto
  have "apart ((hp_regions h)[i := \<lparr>rg_base = hp_cursor h, rg_size = length bs, rg_off = 0, rg_alive = True\<rparr>])"
  proof (rule apart_update)
    show "apart (hp_regions h)" using assms(1) by (simp add: heap_wf_def)
    fix j
    assume "j < length (hp_regions h)" "rg_alive (hp_regions h ! j)"
    then have "region_ok h (hp_regions h ! j)" using assms(1) by (simp add: heap_wf_def)
    then have "body (hp_regions h ! j) \<in> set (hp_live h)" using \<open>rg_alive (hp_regions h ! j)\<close> by (simp add: region_ok_def)
    from live_below [OF assms(1) this]
    show "rg_base (hp_regions h ! j) \<noteq> rg_base \<lparr>rg_base = hp_cursor h, rg_size = length bs, rg_off = 0, rg_alive = True\<rparr>"
      by (simp add: body_def)
  qed
  then show ?thesis
    using g by (auto simp: heap_wf_def add_region_def grow_def region_ok_def body_def dest!: set_update_subset_insert [THEN subsetD])
qed

lemma add_region_undo:
  assumes "heap_wf h" "i < length (hp_regions h)" "hp_regions h ! i = dead_region"
  shows "compensate_region_create i (hp_cursor h) (add_region i bs h) = h"
proof -
  have "drop_range (hp_cursor h) (hp_cursor h + length bs) (add_region i bs h)
      = h\<lparr>hp_bytes := hp_bytes h @ bs, hp_cursor := hp_cursor h + length bs,
          hp_regions := hp_regions (add_region i bs h)\<rparr>"
    by (simp add: add_region_def drop_range_def grow_def live_fresh [OF assms(1)])
  then have "compensate_region_create i (hp_cursor h) (add_region i bs h)
      = reclaim (hp_cursor h) (h\<lparr>hp_bytes := hp_bytes h @ bs, hp_cursor := hp_cursor h + length bs,
          hp_regions := (hp_regions h)[i := dead_region]\<rparr>)"
    using assms(2) by (simp add: compensate_region_create_def Let_def) (simp add: add_region_def)
  also have "(hp_regions h)[i := dead_region] = hp_regions h" using assms(3) by (metis list_update_id)
  finally show ?thesis using reclaim_grow [OF assms(1)] by (cases h) simp
qed

text \<open>Destroying a region and putting it back.\<close>

definition free_region :: "nat \<Rightarrow> region_heap \<Rightarrow> region_heap" where
  "free_region i h = (drop_range (rg_base (hp_regions h ! i)) (rg_base (hp_regions h ! i) + rg_size (hp_regions h ! i)) h)
     \<lparr>hp_regions := (hp_regions h)[i := dead_region]\<rparr>"

lemma free_region_wf:
  assumes "heap_wf h" "i < length (hp_regions h)" "rg_alive (hp_regions h ! i)"
  shows "heap_wf (free_region i h)"
proof -
  let ?r = "hp_regions h ! i"
  have "region_ok (free_region i h) r" if "r \<in> set (hp_regions (free_region i h))" for r
  proof -
    from that obtain j where j: "j < length (hp_regions h)" "r = (hp_regions h)[i := dead_region] ! j"
      by (auto simp: free_region_def in_set_conv_nth)
    show ?thesis
    proof (cases "j = i \<or> \<not> rg_alive (hp_regions h ! j)")
      case True
      then have "r = dead_region" using j assms(1) by (cases "j = i") (auto simp: heap_wf_def region_ok_def)
      then show ?thesis by (simp add: region_ok_def dead_region_def)
    next
      case False
      then have r: "r = hp_regions h ! j" "rg_alive r" using j by auto
      then have "region_ok h r" using assms(1) j by (simp add: heap_wf_def)
      moreover have "rg_base r \<noteq> rg_base ?r"
      proof
        assume "rg_base r = rg_base ?r"
        moreover have "apart (hp_regions h)" using assms(1) by (simp add: heap_wf_def)
        ultimately have "j = i" using j(1) assms(2,3) r unfolding apart_def by blast
        with False show False by simp
      qed
      ultimately show ?thesis using r(2) by (auto simp: region_ok_def free_region_def drop_range_def body_def)
    qed
  qed
  moreover have "apart (hp_regions (free_region i h))"
    using apart_update [of "hp_regions h" i dead_region] assms(1) by (simp add: free_region_def heap_wf_def dead_region_def)
  ultimately show ?thesis
    using assms(1) live_ok_filter by (auto simp: heap_wf_def free_region_def drop_range_def)
qed

lemma free_region_undo:
  assumes "heap_wf h" "i < length (hp_regions h)" "rg_alive (hp_regions h ! i)"
  shows "same_heap (compensate_region_destroy i
    \<lparr>sv_base = rg_base (hp_regions h ! i), sv_size = rg_size (hp_regions h ! i), sv_off = rg_off (hp_regions h ! i)\<rparr>
    (free_region i h)) h"
proof -
  let ?r = "hp_regions h ! i"
  have b: "body ?r \<in> set (hp_live h)" using assms by (auto simp: heap_wf_def region_ok_def)
  have live: "live_ok (hp_cursor h) (hp_live h)" using assms(1) by (simp add: heap_wf_def)
  then have "0 < rg_size ?r" using b by (auto simp: live_ok_def body_def)
  moreover have "?r = \<lparr>rg_base = rg_base ?r, rg_size = rg_size ?r, rg_off = rg_off ?r, rg_alive = True\<rparr>"
    using assms(3) by simp
  moreover have "mset (filter (\<lambda>x. \<not> (lr_start x = rg_base ?r \<and> lr_end x = rg_base ?r + rg_size ?r)) (hp_live h))
      = mset (hp_live h) - {#body ?r#}"
    using live_ok_once [OF live b] by (simp add: body_def)
  ultimately show ?thesis
    using assms(2) b by (simp add: same_heap_def compensate_region_destroy_def free_region_def drop_range_def Let_def)
      (simp add: body_def insert_DiffM)
qed

lemma take_to_le_of_le: "length bs \<le> 8 \<Longrightarrow> take (length bs) (to_le (of_le bs :: u64)) = bs"
proof (rule nth_equalityI)
  fix i
  assume len: "length bs \<le> 8" and "i < length (take (length bs) (to_le (of_le bs :: u64)))"
  then have i: "i < length bs" by simp
  have "to_le (of_le bs :: u64) ! i = ucast (drop_bit (8 * i) (of_le bs :: u64))"
    using i len by (simp add: to_le_def)
  also have "\<dots> = bs ! i"
  proof (rule bit_word_eqI)
    fix k
    assume "k < LENGTH(8)"
    then have "(k + 8 * i) div 8 = i" "(k + 8 * i) mod 8 = k" by simp_all
    then show "bit (ucast (drop_bit (8 * i) (of_le bs :: u64)) :: u8) k = bit (bs ! i) k"
      using i len \<open>k < LENGTH(8)\<close> by (simp add: bit_simps bit_of_le add.commute)
  qed
  finally show "take (length bs) (to_le (of_le bs :: u64)) ! i = bs ! i" using i by simp
qed simp

section \<open>Journaled steps\<close>

text \<open>What an operation must satisfy for its effect to be undone exactly: a size that does not
  wrap, a slot that is free, a typed width. \<open>REGION_SLOTS\<close> live regions are the case the code
  gets wrong (\<open>create_on_full_table\<close> below).\<close>

fun op_fits :: "heap_op \<Rightarrow> region_heap \<Rightarrow> bool" where
  "op_fits (HCreate sz) h = (sz + 7 < 2 ^ 64 \<and> (\<exists>r \<in> set (hp_regions h). \<not> rg_alive r))"
| "op_fits (HStore addr w val) h = (w \<le> 8)"
| "op_fits _ h = True"

definition journaled :: "nat \<Rightarrow> region_heap \<Rightarrow> effect \<Rightarrow> region_heap \<Rightarrow> bool" where
  "journaled usz h e h' \<longleftrightarrow> trace_only e \<and> h' = h \<or> (\<exists>x. op_fits x h \<and> heap_step usz x h = (Inr e, h'))"

lemma keep_Inr: "keep h f res = (Inr e, h') \<longleftrightarrow> (\<exists>x. res = Inr (x, h') \<and> e = f x)"
  by (auto simp: keep_def split: sum.splits prod.splits)

lemma keep_Inl: "keep h f res = (Inl e, h') \<longleftrightarrow> res = Inl e \<and> h' = h"
  by (auto simp: keep_def split: sum.splits prod.splits)

lemma region_create_Inl:
  assumes "region_create sz h = (Inl f, h')" "\<exists>r \<in> set (hp_regions h). \<not> rg_alive r"
  shows "h' = h"
proof (cases "sz = 0 \<or> MAX_REGION_BYTES < heap_align8 sz \<or> free_slot h = None")
  case True
  then show ?thesis using assms(1) by (auto simp: region_create_def Let_def split: if_splits)
next
  case False
  then obtain i k where k: "free_slot h = Some (i, k)" by auto
  then have "k = h" using free_slot_dead [OF assms(2)] by blast
  with k False assms(1) show ?thesis by (simp add: region_create_def Let_def split: sum.splits prod.splits)
qed

lemma fault_keeps_heap:
  assumes "op_fits x h" "heap_step usz x h = (Inl f, h')"
  shows "h' = h"
proof (cases x)
  case (HCreate sz)
  then have "region_create sz h = (Inl f, h')" using assms(2) by (simp split: prod.splits sum.splits)
  moreover have "\<exists>r \<in> set (hp_regions h). \<not> rg_alive r" using assms(1) HCreate by simp
  ultimately show ?thesis using region_create_Inl by blast
qed (use assms(2) in \<open>simp_all add: keep_Inl\<close>)

lemma write_back:
  assumes "read_at b a n = Some old" "write_at a new b = Some c" "length new = n"
  shows "write_at a old c = Some b"
proof -
  have a: "a + n \<le> length b" "old = take n (drop a b)" using assms(1) by (auto simp: read_at_def slice_def split: if_splits)
  have c: "c = take a b @ new @ drop (a + n) b" using assms(2,3) a(1) by (simp add: write_at_def)
  have "length old = n" using a by simp
  moreover have "take a b @ old @ drop (a + n) b = b"
    using append_take_drop_id [of a b] append_take_drop_id [of n "drop a b"] a(2) by (simp add: add.commute)
  ultimately show ?thesis using a(1) assms(3) by (simp add: write_at_def c min_absorb1)
qed

lemma store_undo:
  assumes "heap_store usz addr w val h = Inr (old, h')" "w \<le> 8"
  shows "poke usz addr w old h' = Some h" "\<exists>b. h' = h\<lparr>hp_bytes := b\<rparr> \<and> length b = length (hp_bytes h)"
proof -
  let ?a = "addr mod usz"
  from assms(1) have l: "heap_load usz addr w h = Inr old" "poke usz addr w val h = Some h'"
    by (cases "heap_load usz addr w h"; simp add: heap_store_def split: option.splits)+
  then obtain bs where bs: "read_at (hp_bytes h) ?a w = Some bs" "old = of_le bs"
    by (cases "read_at (hp_bytes h) ?a w") (simp_all add: heap_load_def split: if_splits)
  obtain b where b: "write_at ?a (take w (to_le val)) (hp_bytes h) = Some b" "h' = h\<lparr>hp_bytes := b\<rparr>"
    using l(2) by (auto simp: poke_def)
  show "\<exists>b. h' = h\<lparr>hp_bytes := b\<rparr> \<and> length b = length (hp_bytes h)"
    using b write_at_length by blast
  have "length bs = w" using bs(1) by (auto simp: read_at_def slice_def split: if_splits)
  then have "take w (to_le old) = bs" using take_to_le_of_le [of bs] assms(2) bs(2) by simp
  moreover have "write_at ?a bs b = Some (hp_bytes h)" using write_back [OF bs(1) b(1)] assms(2) by simp
  ultimately show "poke usz addr w old h' = Some h" by (simp add: poke_def b(2))
qed

lemma bytes_wf: "heap_wf h \<Longrightarrow> length b = length (hp_bytes h) \<Longrightarrow> heap_wf (h\<lparr>hp_bytes := b\<rparr>)"
  by (simp add: heap_wf_def region_ok_def)

lemma same_heap_refl: "same_heap h h"
  by (simp add: same_heap_def)

text \<open>Every recorded effect keeps the invariant and has an exact undo.\<close>

lemma place_undo:
  assumes "heap_wf h" "h' = grow bs n h" "0 < n" "n \<le> length bs" "hp_cursor h + length bs \<le> MAX_HEAP_BYTES"
  shows "heap_wf h'"
    and "n = 16 \<Longrightarrow> compensate_scoped (hp_cursor h) (hp_cursor h) h' = h"
    and "compensate_intern (hp_cursor h) (hp_cursor h) h' = h"
proof -
  have cur: "hp_cursor h mod 2 ^ 32 = hp_cursor h" using assms(1) by (simp add: heap_wf_def MAX_HEAP_BYTES_def)
  show "heap_wf h'" using assms grow_wf by blast
  show "compensate_scoped (hp_cursor h) (hp_cursor h) h' = h" if "n = 16"
    using drop_grow(1) [OF assms(1)] reclaim_grow [OF assms(1)] that
    by (simp only: compensate_scoped_def cur assms(2))
  have "h'\<lparr>hp_live := hp_live h\<rparr> = h\<lparr>hp_bytes := hp_bytes h @ bs, hp_cursor := hp_cursor h + length bs\<rparr>"
    by (simp add: assms(2) grow_def)
  then show "compensate_intern (hp_cursor h) (hp_cursor h) h' = h"
    using drop_grow(2) [OF assms(1)] reclaim_grow [OF assms(1)]
    by (simp only: compensate_intern_def cur assms(2))
qed

lemma heap_step_effect: "heap_step usz x h = (Inr e, h') \<Longrightarrow> \<not> trace_only e"
  by (cases x) (auto simp: keep_Inr split: prod.splits sum.splits)

lemma journaled_undo:
  assumes "heap_wf h" "journaled usz h e h'"
  shows "heap_wf h' \<and> (\<exists>t. undo_effect usz e h' = Some t \<and> same_heap t h)"
proof (cases "trace_only e")
  case True
  then have "h' = h" using assms(2) heap_step_effect by (auto simp: journaled_def)
  then show ?thesis using True assms(1) same_heap_refl by (cases e) auto
next
  case False
  then obtain x where x: "op_fits x h" "heap_step usz x h = (Inr e, h')" using assms(2) by (auto simp: journaled_def)
  show ?thesis
  proof (cases x)
    case (HCreate sz)
    then obtain i cur where c: "region_create sz h = (Inr (i, cur), h')" "e = ERegionCreate i cur"
      using x(2) by (auto split: prod.splits sum.splits)
    obtain bs where "i < length (hp_regions h)" "hp_regions h ! i = dead_region" "cur = hp_cursor h" "bs \<noteq> []"
      "hp_cursor h + length bs \<le> MAX_HEAP_BYTES" "h' = add_region i bs h"
      using region_create_Inr [OF c(1) assms(1)] x(1) HCreate by auto
    then show ?thesis using add_region_wf [OF assms(1)] add_region_undo [OF assms(1)] same_heap_refl c(2) by simp
  next
    case (HAlloc i sz)
    then obtain k n where s: "heap_slot i h = Inr k" "e = ERegionAlloc i (rg_off (hp_regions h ! k))"
      "h' = set_off k n h" "n \<le> rg_size (hp_regions h ! k)"
      using x(2) by (auto simp: keep_Inr region_alloc_def result_simps Let_def split: if_splits)
    note k = heap_slot_Inr [OF s(1) assms(1)]
    from s k show ?thesis using set_off_wf [OF assms(1) k(2,3)] set_off_undo [OF k(2)] same_heap_refl
      by (simp add: compensate_cursor_def) (simp add: set_off_def)
  next
    case (HReset i)
    then obtain k where s: "heap_slot i h = Inr k" "e = ERegionReset i (rg_off (hp_regions h ! k))" "h' = set_off k 0 h"
      using x(2) by (auto simp: keep_Inr region_reset_def result_simps)
    note k = heap_slot_Inr [OF s(1) assms(1)]
    from s k show ?thesis using set_off_wf [OF assms(1) k(2,3), of 0] set_off_undo [OF k(2)] same_heap_refl
      by (simp add: compensate_cursor_def) (simp add: set_off_def)
  next
    case (HDestroy i)
    then obtain k where s: "heap_slot i h = Inr k" "h' = free_region k h"
      "e = ERegionDestroy i \<lparr>sv_base = rg_base (hp_regions h ! k), sv_size = rg_size (hp_regions h ! k), sv_off = rg_off (hp_regions h ! k)\<rparr>"
      using x(2) by (auto simp: keep_Inr region_destroy_def free_region_def result_simps Let_def)
    note k = heap_slot_Inr [OF s(1) assms(1)]
    from s k show ?thesis using free_region_wf [OF assms(1) k(2,3)] free_region_undo [OF assms(1) k(2,3)] by simp
  next
    case (HStore addr w val)
    then obtain old where s: "heap_store usz addr w val h = Inr (old, h')" "e = EStore addr w old" "w \<le> 8"
      using x by (auto simp: keep_Inr)
    from store_undo [OF s(1,3)] s(2) bytes_wf [OF assms(1)] same_heap_refl show ?thesis by auto
  next
    case (HScoped ptr len)
    then obtain h1 base bs where r: "arena_reserve 16 h = Inr (base, h1)" "place_bytes base bs h1 = Inr h'" "length bs = 16"
      "e = EScopedEnter base (hp_cursor h)"
      using x(2) by (auto simp: keep_Inr scoped_enter_def result_simps)
    from place_reserved [OF r(1,2) assms(1)] obtain pad where p: "base = hp_cursor h" "h' = grow (bs @ pad) 16 h"
      "hp_cursor h + length (bs @ pad) \<le> MAX_HEAP_BYTES" using r(3) by auto
    from place_undo [OF assms(1) p(2) _ _ p(3)] r(3,4) p(1) same_heap_refl show ?thesis by simp
  next
    case HResource
    then obtain h1 base where r: "arena_reserve 8 h = Inr (base, h1)" "place_bytes base (to_le (0 :: u64)) h1 = Inr h'"
      "e = EIntern base (hp_cursor h)"
      using x(2) by (auto simp: keep_Inr intern_def result_simps)
    from place_reserved [OF r(1,2) assms(1)] obtain pad where p: "base = hp_cursor h" "h' = grow (to_le (0 :: u64) @ pad) 8 h"
      "hp_cursor h + length (to_le (0 :: u64) @ pad) \<le> MAX_HEAP_BYTES" by auto
    from place_undo [OF assms(1) p(2) _ _ p(3)] r(3) p(1) same_heap_refl show ?thesis by simp
  qed
qed

text \<open>Undoing an effect does not tell heaps apart that differ in the order of the live ranges.\<close>

lemma same_drop: "same_heap s t \<Longrightarrow> same_heap (drop_range a b s) (drop_range a b t)"
  by (simp add: same_heap_def drop_range_def mset_filter)

lemma same_live: "same_heap s t \<Longrightarrow> same_heap (s\<lparr>hp_live := filter P (hp_live s)\<rparr>) (t\<lparr>hp_live := filter P (hp_live t)\<rparr>)"
  by (simp add: same_heap_def mset_filter)

lemma same_reclaim: "same_heap s t \<Longrightarrow> same_heap (reclaim c s) (reclaim c t)"
  by (simp add: same_heap_def reclaim_def)

lemma same_regions: "same_heap s t \<Longrightarrow> same_heap (s\<lparr>hp_regions := rs\<rparr>) (t\<lparr>hp_regions := rs\<rparr>)"
  by (simp add: same_heap_def)

lemma same_regions_eq: "same_heap s t \<Longrightarrow> hp_regions s = hp_regions t"
  by (simp add: same_heap_def)

lemma same_create:
  assumes "same_heap s t"
  shows "same_heap (compensate_region_create i c s) (compensate_region_create i c t)"
  using assms same_regions_eq [OF assms]
  by (auto simp: compensate_region_create_def Let_def drop_range_def intro!: same_reclaim)
    (simp_all add: same_heap_def mset_filter)

lemma same_destroy:
  assumes "same_heap s t"
  shows "same_heap (compensate_region_destroy i sv s) (compensate_region_destroy i sv t)"
  using assms by (simp add: compensate_region_destroy_def Let_def same_heap_def)

lemma undo_same:
  assumes "same_heap s t" "undo_effect usz e t = Some t'"
  shows "\<exists>s'. undo_effect usz e s = Some s' \<and> same_heap s' t'"
proof (cases e)
  case (EStore addr w old)
  with assms show ?thesis by (auto simp: poke_def same_heap_def)
next
  case (EIntern addr c)
  with assms same_reclaim [OF same_live [OF assms(1)]] show ?thesis by (auto simp: compensate_intern_def)
next
  case (EScopedEnter addr c)
  with assms same_reclaim [OF same_drop [OF assms(1)]] show ?thesis by (auto simp: compensate_scoped_def)
next
  case (ERegionAlloc i off)
  with assms show ?thesis by (auto simp: compensate_cursor_def set_off_def same_heap_def)
next
  case (ERegionReset i off)
  with assms show ?thesis by (auto simp: compensate_cursor_def set_off_def same_heap_def)
qed (use assms same_create same_destroy in auto)

interpretation heap_log: undo_log heap_wf same_heap "journaled usz" "undo_effect usz" for usz
proof
  show "same_heap s t \<Longrightarrow> same_heap t u \<Longrightarrow> same_heap s u" for s t u by (simp add: same_heap_def)
  show "heap_wf s \<Longrightarrow> journaled usz s e s' \<Longrightarrow> heap_wf s'"
    and "heap_wf s \<Longrightarrow> journaled usz s e s' \<Longrightarrow> \<exists>t. undo_effect usz e s' = Some t \<and> same_heap t s" for s e s'
    using journaled_undo by blast+
qed (fact same_heap_refl, fact undo_same)

lemma undo_all_unwind: "undo_all usz es h = unwind (undo_effect usz) es h"
proof (induction es arbitrary: h)
  case (Cons e es)
  then show ?case by (cases "undo_effect usz e h") simp_all
qed simp

section \<open>A phrase and its rollback\<close>

text \<open>A phrase's run as its journal and heap see it: an operation of the heap whose effect is
  recorded, one that faults, a trace-only effect; the engine moves its stack, frames, fuel and
  resource places in every step as it likes. The list collects the heap operations with the heap
  each met.\<close>

inductive phrase_run :: "nat \<Rightarrow> ('s, 'f) exec_state \<Rightarrow> (heap_op \<times> region_heap) list \<Rightarrow> ('s, 'f) exec_state \<Rightarrow> bool"
  for usz st where
  start: "phrase_run usz st [] st"
| effect: "phrase_run usz st tr s \<Longrightarrow> heap_step usz x (xs_heap s) = (Inr e, h)
    \<Longrightarrow> phrase_run usz st (tr @ [(x, xs_heap s)]) \<lparr>xs_stack = sk, xs_frames = fr, xs_heap = h, xs_fuel = fu,
        xs_journal = xs_journal s @ [e], xs_resources = rs\<rparr>"
| fault: "phrase_run usz st tr s \<Longrightarrow> heap_step usz x (xs_heap s) = (Inl f, h)
    \<Longrightarrow> phrase_run usz st (tr @ [(x, xs_heap s)]) \<lparr>xs_stack = sk, xs_frames = fr, xs_heap = h, xs_fuel = fu,
        xs_journal = xs_journal s, xs_resources = rs\<rparr>"
| trace: "phrase_run usz st tr s \<Longrightarrow> trace_only e
    \<Longrightarrow> phrase_run usz st tr \<lparr>xs_stack = sk, xs_frames = fr, xs_heap = xs_heap s, xs_fuel = fu,
        xs_journal = xs_journal s @ [e], xs_resources = rs\<rparr>"

definition all_fit :: "(heap_op \<times> region_heap) list \<Rightarrow> bool" where
  "all_fit tr \<longleftrightarrow> (\<forall>(x, h) \<in> set tr. op_fits x h)"

lemma phrase_chain:
  "phrase_run usz st tr s \<Longrightarrow> all_fit tr \<Longrightarrow> xs_journal st = []
    \<Longrightarrow> chain (journaled usz) (xs_heap st) (xs_journal s) (xs_heap s)"
proof (induction rule: phrase_run.induct)
  case (effect tr s x e h sk fr fu rs)
  then have "journaled usz (xs_heap s) e h" by (auto simp: journaled_def all_fit_def)
  with effect show ?case by (auto simp: chain_snoc all_fit_def)
next
  case (fault tr s x f h sk fr fu rs)
  then show ?case using fault_keeps_heap by (fastforce simp: all_fit_def)
next
  case (trace tr s e sk fr fu rs)
  then have "journaled usz (xs_heap s) e (xs_heap s)" by (simp add: journaled_def)
  with trace show ?case by (auto simp: chain_snoc)
qed simp

text \<open>C7: a phrase that is rolled back leaves no trace on the session, as long as no region-create
  of it met a full region table or asked for a size within seven of \<open>2 ^ 64\<close>, and no store was wider
  than eight bytes (\<open>all_fit\<close>; the first two are where \<open>create_on_full_table\<close> and
  \<open>wrapped_size_shares_range\<close> show the code to fail). Whatever region, store,
  descriptor and resource operations it performed - their journal undone from the end - the
  rollback does not panic, and the heap (arena bytes, cursor, region table and set of live
  ranges), the data stack and the fuel are those of the phrase's entry, with no journal, frame
  or cached resource place left.\<close>

theorem rollback_exact:
  assumes "heap_wf (xs_heap st)" "xs_journal st = []" "phrase_run usz st tr s"
    and "\<forall>(x, h) \<in> set tr. op_fits x h"
  shows "\<exists>u. session_rollback usz s (take_checkpoint st) = Some u \<and> same_heap (xs_heap u) (xs_heap st)
    \<and> xs_stack u = xs_stack st \<and> xs_fuel u = xs_fuel st \<and> xs_journal u = [] \<and> xs_frames u = [] \<and> xs_resources u = []"
proof -
  have "all_fit tr" using assms(4) by (simp add: all_fit_def)
  from heap_log.unwind_restores [OF assms(1) phrase_chain [OF assms(3) this assms(2)]] obtain h where
    "undo_all usz (rev (xs_journal s)) (xs_heap s) = Some h" "same_heap h (xs_heap st)"
    unfolding undo_all_unwind by blast
  then show ?thesis by (simp add: session_rollback_def take_checkpoint_def)
qed

definition first_phrase :: "(nat, nat) exec_state" where
  "first_phrase = \<lparr>xs_stack = [], xs_frames = [], xs_heap = heap_new, xs_fuel = 9, xs_journal = [], xs_resources = []\<rparr>"

lemma rollback_exact_witness:
  "\<exists>s u. phrase_run (2 ^ 32) first_phrase [(HCreate 8, heap_new)] s \<and> xs_journal s = [ERegionCreate 0 4096] \<and> xs_heap s \<noteq> heap_new
    \<and> session_rollback (2 ^ 32) s (take_checkpoint first_phrase) = Some u \<and> same_heap (xs_heap u) heap_new"
proof -
  let ?s = "\<lparr>xs_stack = [], xs_frames = [], xs_heap = snd (heap_step (2 ^ 32) (HCreate 8) heap_new), xs_fuel = 0,
      xs_journal = [ERegionCreate 0 4096], xs_resources = []\<rparr> :: (nat, nat) exec_state"
  have fits: "op_fits (HCreate 8) heap_new"
    by (simp add: heap_new_def dead_region_def REGION_SLOTS_def)
  have step: "\<exists>h. heap_step (2 ^ 32) (HCreate 8) heap_new = (Inr (ERegionCreate 0 4096), h) \<and> hp_cursor h = 4104"
    by (simp add: heap_new_def region_create_def heap_align8_def free_slot_def dead_region_def REGION_SLOTS_def
        upt_rec arena_reserve_def NULL_PAGE_BYTES_def MAX_REGION_BYTES_def MAX_HEAP_BYTES_def)
  then have "xs_heap ?s \<noteq> heap_new" by (auto simp: heap_new_def NULL_PAGE_BYTES_def)
  moreover have run: "phrase_run (2 ^ 32) first_phrase [(HCreate 8, heap_new)] ?s"
    using phrase_run.effect [OF phrase_run.start, of "2 ^ 32" "HCreate 8" first_phrase "ERegionCreate 0 4096"] step
    by (auto simp: first_phrase_def)
  moreover from rollback_exact [OF _ _ run] fits obtain u where
    "session_rollback (2 ^ 32) ?s (take_checkpoint first_phrase) = Some u" "same_heap (xs_heap u) heap_new"
    using heap_new_wf by (auto simp: first_phrase_def)
  ultimately show ?thesis by (intro exI [of _ ?s] exI [of _ u]) simp
qed

lemma phrase_keeps_wf: "phrase_run usz st tr s \<Longrightarrow> all_fit tr \<Longrightarrow> xs_journal st = [] \<Longrightarrow> heap_wf (xs_heap st) \<Longrightarrow> heap_wf (xs_heap s)"
  using heap_log.chain_inv phrase_chain by blast

section \<open>Isolation\<close>

text \<open>An access that passes the check, for an address and width that do not wrap, lies in one
  live range; the ranges do not overlap, so it touches no other.\<close>

lemma range_check_live:
  assumes "range_check addr w h" "addr + w < 2 ^ 32"
  shows "\<exists>r \<in> set (hp_live h). lr_start r \<le> addr \<and> addr + w \<le> lr_end r"
  using assms by (simp add: range_check_def Let_def)

lemma live_apart:
  assumes "heap_wf h" "r \<in> set (hp_live h)" "s \<in> set (hp_live h)" "r \<noteq> s"
  shows "apart_ranges r s"
  using assms by (auto simp: heap_wf_def live_ok_def in_set_conv_nth)

lemma live_inside: "heap_wf h \<Longrightarrow> r \<in> set (hp_live h) \<Longrightarrow> NULL_PAGE_BYTES \<le> lr_start r \<and> lr_end r \<le> length (hp_bytes h)"
  by (auto simp: heap_wf_def live_ok_def)

lemma store_unfold:
  assumes "heap_store usz addr w val h = Inr (old, h')"
  obtains b where "range_check addr w h" "write_at (addr mod usz) (take w (to_le val)) (hp_bytes h) = Some b" "h' = h\<lparr>hp_bytes := b\<rparr>"
proof -
  from assms have "heap_load usz addr w h = Inr old" "poke usz addr w val h = Some h'"
    by (cases "heap_load usz addr w h"; simp add: heap_store_def split: option.splits)+
  with that show thesis by (auto simp: heap_load_def poke_def split: if_splits)
qed

text \<open>C8: a store goes where it is allowed to and nowhere else. In a well-formed heap a store of
  one to eight bytes that does not reach the end of the 32-bit address space either faults or
  writes inside a single live range: every other live range keeps its bytes, the tables are
  unchanged, the heap stays well formed, and a load of the same place gives the stored bytes.\<close>

theorem store_isolated:
  assumes "heap_wf h" "heap_store (2 ^ 32) addr w val h = Inr (old, h')" "0 < w" "w \<le> 8" "addr + w < 2 ^ 32"
  shows "heap_wf h' \<and> h'\<lparr>hp_bytes := hp_bytes h\<rparr> = h
    \<and> heap_load (2 ^ 32) addr w h' = Inr (of_le (take w (to_le val)))
    \<and> (\<exists>r \<in> set (hp_live h). lr_start r \<le> addr \<and> addr + w \<le> lr_end r
        \<and> (\<forall>s \<in> set (hp_live h). s \<noteq> r \<longrightarrow>
            slice (hp_bytes h') (lr_start s) (lr_end s - lr_start s) = slice (hp_bytes h) (lr_start s) (lr_end s - lr_start s)))"
proof -
  have a: "addr mod 2 ^ 32 = addr" using assms(5) by simp
  obtain b where b: "range_check addr w h" "write_at addr (take w (to_le val)) (hp_bytes h) = Some b" "h' = h\<lparr>hp_bytes := b\<rparr>"
    using store_unfold [OF assms(2)] unfolding a by blast
  note len = write_at_length [OF b(2)]
  have n: "length (take w (to_le val)) = w" using assms(4) by simp
  have "range_check addr w h'" using b(1,3) by (simp add: range_check_def)
  moreover have "read_at b addr w = Some (take w (to_le val))"
    using write_at_slice [OF b(2)] b(2) n len by (simp add: read_at_def write_at_def split: if_splits)
  ultimately have load: "heap_load (2 ^ 32) addr w h' = Inr (of_le (take w (to_le val)))"
    unfolding heap_load_def a by (simp add: b(3))
  obtain r where r: "r \<in> set (hp_live h)" "lr_start r \<le> addr" "addr + w \<le> lr_end r"
    using range_check_live [OF b(1) assms(5)] by blast
  have "slice b (lr_start s) (lr_end s - lr_start s) = slice (hp_bytes h) (lr_start s) (lr_end s - lr_start s)"
    if "s \<in> set (hp_live h)" "s \<noteq> r" for s
  proof (rule write_at_other [OF b(2)])
    have s: "lr_start s < lr_end s" "lr_end s \<le> length (hp_bytes h)"
      using live_inside [OF assms(1) that(1)] live_below [OF assms(1) that(1)] assms(1) that(1)
      by (auto simp: heap_wf_def live_ok_def)
    then show "lr_start s + (lr_end s - lr_start s) \<le> length (hp_bytes h)" by simp
    show "lr_start s + (lr_end s - lr_start s) \<le> addr \<or> addr + length (take w (to_le val)) \<le> lr_start s"
      using live_apart [OF assms(1) that(1) r(1) that(2)] r(2,3) s(1) unfolding n by (auto simp: apart_ranges_def)
  qed
  then show ?thesis using load r bytes_wf [OF assms(1) len] b(3) by auto
qed

section \<open>Pointers into a region\<close>

lemma live_load:
  assumes "heap_wf h" "r \<in> set (hp_live h)" "lr_start r \<le> addr" "addr + w \<le> lr_end r"
  shows "\<exists>v. heap_load (2 ^ 32) addr w h = Inr v"
proof -
  from live_inside [OF assms(1,2)] assms(1,3,4) have "addr + w \<le> MAX_HEAP_BYTES" "NULL_PAGE_BYTES \<le> addr"
    "addr + w \<le> length (hp_bytes h)" by (auto simp: heap_wf_def)
  with assms(2,3,4) show ?thesis
    by (auto simp: heap_load_def range_check_def Let_def read_at_def MAX_HEAP_BYTES_def)
qed

lemma heap_load_live:
  assumes "heap_load (2 ^ 32) addr w h = Inr v" "addr + w < 2 ^ 32"
  shows "\<exists>r \<in> set (hp_live h). lr_start r \<le> addr \<and> addr + w \<le> lr_end r"
  using assms range_check_live by (auto simp: heap_load_def split: if_splits)

text \<open>C22: a region's life. A block of a size more than seven below \<open>2 ^ 64\<close> that \<open>region-alloc\<close> hands
  out in a well-formed heap lies inside the region's body from its old cursor on, every access inside
  it loads, and the cursor has moved past it, so that blocks of one region do not overlap; once the
  region is destroyed every access within the 32-bit address space that touches a byte of the block,
  wherever it starts, faults.\<close>

theorem region_life:
  assumes "heap_wf h" "region_alloc i sz h = Inr ((ptr, off), h')" "sz + 7 < 2 ^ 64"
  shows "heap_wf h' \<and> rg_base (hp_regions h ! i) + off = ptr \<and> ptr + sz \<le> rg_base (hp_regions h' ! i) + rg_off (hp_regions h' ! i)
    \<and> (\<forall>k w. k + w \<le> sz \<longrightarrow> (\<exists>v. heap_load (2 ^ 32) (ptr + k) w h' = Inr v))
    \<and> (\<exists>sv h''. region_destroy i h' = Inr (sv, h'') \<and> heap_wf h'' \<and>
        (\<forall>addr w. addr < ptr + sz \<longrightarrow> ptr < addr + w \<longrightarrow> addr + w < 2 ^ 32 \<longrightarrow> heap_load (2 ^ 32) addr w h'' = Inl OutOfBounds))"
proof -
  let ?r = "hp_regions h ! i" and ?n = "rg_off (hp_regions h ! i) + heap_align8 sz"
  obtain k where k: "heap_slot i h = Inr k" using assms(2) by (auto simp: region_alloc_def result_simps)
  note k = k heap_slot_Inr [OF k assms(1)]
  have h': "h' = set_off i ?n h" "ptr = rg_base ?r + rg_off ?r" "off = rg_off ?r" "?n \<le> rg_size ?r"
    using assms(2) k(1,2) by (auto simp: region_alloc_def result_simps Let_def split: if_splits)
  have wf: "heap_wf h'" using set_off_wf [OF assms(1) k(3,4) h'(4)] h'(1) by simp
  have r': "hp_regions h' ! i = ?r\<lparr>rg_off := ?n\<rparr>" "i < length (hp_regions h')" "hp_live h' = hp_live h"
    using k(3) h'(1) by (simp_all add: set_off_def)
  have sz: "sz \<le> heap_align8 sz" using align8_ge assms(3) by blast
  have loads: "\<exists>v. heap_load (2 ^ 32) (ptr + j) w h' = Inr v" if "j + w \<le> sz" for j w
    by (rule live_load [OF wf, of "body ?r"]) (use that k(5) r'(3) h'(2,4) sz in \<open>simp_all add: body_def\<close>)
  have al: "rg_alive (hp_regions h' ! i)" using r'(1) k(4) by simp
  have "heap_slot i h' = Inr i" using al wf r'(2) by (simp add: heap_slot_def heap_wf_def)
  then obtain sv where sv: "region_destroy i h' = Inr (sv, free_region i h')"
    by (auto simp: region_destroy_def free_region_def Let_def)
  have faults: "heap_load (2 ^ 32) addr w (free_region i h') = Inl OutOfBounds"
    if j: "addr < ptr + sz" "ptr < addr + w" "addr + w < 2 ^ 32" for addr w
  proof (cases "range_check addr w (free_region i h')")
    case True
    from range_check_live [OF True j(3)] obtain s where s0: "s \<in> set (hp_live (free_region i h'))"
      "lr_start s \<le> addr" "addr + w \<le> lr_end s" by blast
    then have s: "s \<in> set (hp_live h')" "s \<noteq> body ?r" "lr_start s \<le> addr" "addr + w \<le> lr_end s"
      by (auto simp: free_region_def drop_range_def body_def r'(1))
    from live_apart [OF wf s(1) _ s(2)] k(5) r'(3) have "apart_ranges s (body ?r)" by simp
    then show ?thesis using s(3,4) j h'(2,4) sz by (auto simp: apart_ranges_def body_def)
  qed (simp add: heap_load_def)
  show ?thesis
    using wf h'(2,3) r'(1) sz loads sv free_region_wf [OF wf r'(2) al] faults by auto
qed

section \<open>The session\<close>

lemma live_ok_set:
  "live_ok cur rs \<longleftrightarrow> (\<forall>r \<in> set rs. NULL_PAGE_BYTES \<le> lr_start r \<and> lr_start r < lr_end r \<and> lr_end r \<le> cur)
     \<and> distinct rs \<and> (\<forall>r \<in> set rs. \<forall>s \<in> set rs. r \<noteq> s \<longrightarrow> apart_ranges r s)" (is "?l \<longleftrightarrow> ?r")
proof
  assume l: ?l
  then have "rs ! i \<noteq> rs ! j" if "i < length rs" "j < length rs" "i \<noteq> j" for i j
    using that unfolding live_ok_def apart_ranges_def by (metis leD nth_mem)
  then have "distinct rs" by (simp add: distinct_conv_nth)
  moreover from l have "apart_ranges r s" if "r \<in> set rs" "s \<in> set rs" "r \<noteq> s" for r s
    using that by (auto simp: live_ok_def in_set_conv_nth)
  ultimately show ?r using l by (simp add: live_ok_def)
next
  assume ?r
  then show ?l by (auto simp: live_ok_def distinct_conv_nth)
qed

lemma same_heap_wf:
  assumes "same_heap t h" "heap_wf h"
  shows "heap_wf t"
proof -
  have m: "mset (hp_live t) = mset (hp_live h)" using assms(1) by (simp add: same_heap_def)
  then have "set (hp_live t) = set (hp_live h)" "distinct (hp_live t) = distinct (hp_live h)"
    by (metis set_mset_mset, metis mset_eq_imp_distinct_iff)
  with assms show ?thesis by (simp add: heap_wf_def same_heap_def live_ok_set region_ok_def)
qed

lemma intern_wf:
  assumes "heap_wf h" "intern bs h = Inr (addr, h')"
  shows "heap_wf h'"
proof -
  let ?b = "to_le (word_of_nat (length bs) :: u64) @ bs"
  obtain h1 where r: "arena_reserve (length bs + 8) h = Inr (addr, h1)" "place_bytes addr ?b h1 = Inr h'"
    using assms(2) by (auto simp: intern_def result_simps)
  from place_reserved [OF r assms(1)] obtain pad where "h' = grow (?b @ pad) (length ?b) h"
    "hp_cursor h + length (?b @ pad) \<le> MAX_HEAP_BYTES" by blast
  with grow_wf [OF assms(1), of "?b @ pad" "length ?b"] show ?thesis by simp
qed

lemma intern_compiled_wf: "heap_wf h \<Longrightarrow> heap_wf (snd (intern_compiled cs (strs, h)))"
proof (induction cs arbitrary: strs h)
  case (Cons c cs)
  then show ?case using intern_wf [OF Cons.prems, of "snd c"]
    by (cases c) (auto split: sum.split prod.split)
qed simp

text \<open>The life of a session: phrases over its heap, each after the constants of its module are
  put there, each committed or rolled back; no region-create of a phrase meets a full table or
  asks for a size that wraps.\<close>

inductive session_state :: "nat \<Rightarrow> ('s, 'f) exec_state \<Rightarrow> bool" for usz where
  fresh: "session_state usz (in_session [] heap_new fu)"
| submit: "session_state usz st
    \<Longrightarrow> session_state usz (in_session (xs_stack st) (snd (intern_compiled cs ([], xs_heap st))) fu)"
| commit: "session_state usz st \<Longrightarrow> phrase_run usz st tr s \<Longrightarrow> all_fit tr
    \<Longrightarrow> session_state usz (in_session (xs_stack s) (xs_heap s) fu)"
| rolled_back: "session_state usz st \<Longrightarrow> phrase_run usz st tr s \<Longrightarrow> all_fit tr
    \<Longrightarrow> session_rollback usz s (take_checkpoint st) = Some u \<Longrightarrow> session_state usz u"

text \<open>C21: the session's heap stays well formed while no region-create meets a full region table or
  asks for a size within seven of \<open>2 ^ 64\<close> (the side condition \<open>all_fit\<close> of \<open>session_state\<close>; without
  it \<open>wrapped_size_shares_range\<close> refutes the claim). In every state that submissions, operations,
  faults, outputs, commits and rollbacks reach from a fresh session, the live ranges are
  non-empty, pairwise disjoint, above the null page and inside the arena; every live region's
  body is one of them with its cursor inside it; no two regions share a base; a dead slot is
  clear; the arena is as long as its cursor says and within its cap. The journal is empty between phrases.\<close>

theorem session_heap_wf:
  assumes "session_state usz st"
  shows "heap_wf (xs_heap st) \<and> xs_journal st = []"
  using assms
proof induction
  case (fresh fu)
  show ?case by (simp add: in_session_def heap_new_wf)
next
  case (submit st cs fu)
  then show ?case by (simp add: in_session_def intern_compiled_wf)
next
  case (commit st tr s fu)
  then show ?case using phrase_keeps_wf by (auto simp: in_session_def)
next
  case (rolled_back st tr s u)
  then obtain t where "undo_all usz (rev (xs_journal s)) (xs_heap s) = Some t" "same_heap t (xs_heap st)"
    using heap_log.unwind_restores [of "xs_heap st" usz] phrase_chain unfolding undo_all_unwind by blast
  with rolled_back show ?case using same_heap_wf by (auto simp: session_rollback_def)
qed

section \<open>A full table\<close>

text \<open>The state after \<open>k\<close> regions of eight bytes.\<close>

definition created :: "nat \<Rightarrow> region_heap" where
  "created k = ((\<lambda>h. snd (region_create 8 h)) ^^ k) heap_new"

lemma created_Suc: "created (Suc k) = snd (region_create 8 (created k))"
  by (simp add: created_def)

lemma create_unfold:
  assumes "free_slot h = Some (i, h1)" "hp_cursor h1 + 8 \<le> MAX_HEAP_BYTES"
  shows "region_create 8 h = (Inr (i, hp_cursor h1), h1\<lparr>hp_bytes := resize (hp_cursor h1 + 8) (hp_bytes h1), hp_cursor := hp_cursor h1 + 8,
    hp_regions := (hp_regions h1)[i := \<lparr>rg_base = hp_cursor h1, rg_size = 8, rg_off = 0, rg_alive = True\<rparr>],
    hp_live := hp_live h1 @ [\<lparr>lr_start = hp_cursor h1, lr_end = hp_cursor h1 + 8\<rparr>]\<rparr>)"
  using assms by (simp add: region_create_def heap_align8_def MAX_REGION_BYTES_def arena_reserve_def Let_def)

lemma find_first:
  assumes "i < n" "P i" "\<And>j. j < i \<Longrightarrow> \<not> P j"
  shows "find P [0..<n] = Some i"
  unfolding find_Some_iff using assms by (intro exI [of _ i]) simp

definition eighth_region :: "nat \<Rightarrow> heap_region" where
  "eighth_region i = \<lparr>rg_base = 4096 + 8 * i, rg_size = 8, rg_off = 0, rg_alive = True\<rparr>"

lemma created_state:
  "k \<le> 16 \<Longrightarrow> hp_next (created k) = 0 \<and> hp_cursor (created k) = 4096 + 8 * k
    \<and> hp_regions (created k) = map eighth_region [0..<k] @ replicate (16 - k) dead_region"
proof (induction k)
  case 0
  show ?case by (simp add: created_def heap_new_def NULL_PAGE_BYTES_def REGION_SLOTS_def)
next
  case (Suc k)
  let ?h = "created k"
  from Suc have s: "hp_next ?h = 0" "hp_cursor ?h = 4096 + 8 * k"
    "hp_regions ?h = map eighth_region [0..<k] @ replicate (16 - k) dead_region" by simp_all
  have "free_slot ?h = Some (k, ?h)"
    using Suc.prems by (subst free_slot_def, subst find_first [of k])
      (simp_all add: s(3) nth_append dead_region_def eighth_region_def)
  moreover have "replicate (16 - k) dead_region = dead_region # replicate (16 - Suc k) dead_region"
    using Suc.prems by (simp add: Suc_diff_le flip: replicate_Suc)
  ultimately show ?case
    using create_unfold [of ?h k ?h] Suc.prems s
    by (simp add: created_Suc MAX_HEAP_BYTES_def eighth_region_def list_update_append)
qed

text \<open>The seventeenth region takes over the first one's slot. With all sixteen slots alive
  the code falls back to its count of slots handed out, which a scan that finds a free slot
  never advances, so it is still zero: \<open>region-create\<close> succeeds with the handle of a live region
  instead of reporting exhaustion, that region's body stays live with no handle to it, and the
  undo of the creation frees the slot instead of giving the first region back.\<close>

theorem create_on_full_table:
  "\<exists>h'. region_create 8 (created 16) = (Inr (0, 4224), h')
    \<and> rg_base (hp_regions (created 16) ! 0) = 4096 \<and> rg_alive (hp_regions (created 16) ! 0)
    \<and> rg_base (hp_regions h' ! 0) = 4224 \<and> hp_live h' = hp_live (created 16) @ [\<lparr>lr_start = 4224, lr_end = 4232\<rparr>]
    \<and> \<not> rg_alive (hp_regions (compensate_region_create 0 4224 h') ! 0)"
proof -
  let ?h = "created 16"
  have s: "hp_next ?h = 0" "hp_cursor ?h = 4224" "hp_regions ?h = map eighth_region [0..<16]"
    using created_state [of 16] by simp_all
  have "find (\<lambda>i. \<not> rg_alive (hp_regions ?h ! i)) [0..<length (hp_regions ?h)] = None"
    by (simp add: find_None_iff s(3) eighth_region_def)
  then have "free_slot ?h = Some (0, ?h\<lparr>hp_next := 1\<rparr>)" by (simp add: free_slot_def s(1) REGION_SLOTS_def)
  note create_unfold [OF this]
  then show ?thesis
    by (simp add: s MAX_HEAP_BYTES_def eighth_region_def upt_rec)
      (simp add: compensate_region_create_def reclaim_def dead_region_def Let_def drop_range_def)
qed

section \<open>Constants\<close>

text \<open>The constants of a module are put into the heap before the checkpoint and outside the
  journal: the rollback of a phrase that did nothing else keeps their arena bytes.\<close>

lemma constants_survive_rollback:
  "\<exists>h u. intern_compiled [(7, [65])] ([], heap_new) = ([(7, 4096)], h) \<and> hp_cursor h = 4112
    \<and> session_rollback (2 ^ 32) (in_session [] h 1 :: (nat, nat) exec_state) (take_checkpoint (in_session [] h 1 :: (nat, nat) exec_state)) = Some u
    \<and> hp_cursor (xs_heap u) = 4112"
proof -
  have "\<exists>h. intern [65] heap_new = Inr (4096, h) \<and> hp_cursor h = 4112"
    by (simp add: intern_def arena_reserve_def heap_new_def heap_align8_def NULL_PAGE_BYTES_def MAX_REGION_BYTES_def
        MAX_HEAP_BYTES_def place_bytes_def write_at_def resize_def)
  then show ?thesis by (auto simp: session_rollback_def in_session_def)
qed

section \<open>Witnesses\<close>

lemma heap_op_wf:
  "heap_wf h \<Longrightarrow> op_fits x h \<Longrightarrow> heap_step usz x h = (Inr e, h') \<Longrightarrow> heap_wf h'"
  using journaled_undo unfolding journaled_def by blast

lemma created_1: "heap_wf (created 1)" "hp_regions (created 1) ! 0 = eighth_region 0" "length (hp_regions (created 1)) = 16"
  "hp_live (created 1) = [\<lparr>lr_start = 4096, lr_end = 4104\<rparr>]" "length (hp_bytes (created 1)) = 4104"
proof -
  have s: "free_slot heap_new = Some (0, heap_new)"
    by (subst free_slot_def, subst find_first [of 0]) (simp_all add: heap_new_def REGION_SLOTS_def dead_region_def)
  note c = create_unfold [OF s]
  have "heap_step (2 ^ 32) (HCreate 8) heap_new = (Inr (ERegionCreate 0 4096), created 1)"
    using c by (simp add: created_def heap_new_def NULL_PAGE_BYTES_def MAX_HEAP_BYTES_def)
  from heap_op_wf [OF heap_new_wf _ this] show "heap_wf (created 1)"
    by (simp add: heap_new_def REGION_SLOTS_def dead_region_def)
  then show "length (hp_bytes (created 1)) = 4104" using created_state [of 1] by (simp add: heap_wf_def)
  show "hp_regions (created 1) ! 0 = eighth_region 0" "length (hp_regions (created 1)) = 16"
    using created_state [of 1] by simp_all
  show "hp_live (created 1) = [\<lparr>lr_start = 4096, lr_end = 4104\<rparr>]"
    using c by (simp add: created_def heap_new_def NULL_PAGE_BYTES_def MAX_HEAP_BYTES_def)
qed

lemma session_heap_wf_witness:
  "\<exists>st :: (nat, nat) exec_state. session_state (2 ^ 32) st \<and> heap_wf (xs_heap st) \<and> length (hp_live (xs_heap st)) = 1"
proof -
  obtain h where h: "intern [65] heap_new = Inr (4096, h)" "length (hp_live h) = 1"
    by (auto simp: intern_def arena_reserve_def heap_new_def heap_align8_def NULL_PAGE_BYTES_def MAX_REGION_BYTES_def
        MAX_HEAP_BYTES_def place_bytes_def write_at_def resize_def)
  have r: "session_state (2 ^ 32) (in_session [] h 1 :: (nat, nat) exec_state)"
    using session_state.submit [OF session_state.fresh, where cs = "[(7, [65])]" and fu = 1] h(1) by (simp add: in_session_def)
  from r session_heap_wf [OF r] h(2) show ?thesis by (intro exI [of _ "in_session [] h 1"]) (simp add: in_session_def)
qed

lemma store_isolated_witness:
  "\<exists>old h'. heap_store (2 ^ 32) 4100 4 7 (created 1) = Inr (old, h')
    \<and> heap_load (2 ^ 32) 4100 4 h' = Inr (of_le (take 4 (to_le (7 :: u64))))"
proof -
  have "\<exists>v. heap_load (2 ^ 32) 4100 4 (created 1) = Inr v"
    by (rule live_load [OF created_1(1), of "\<lparr>lr_start = 4096, lr_end = 4104\<rparr>"]) (simp_all only: created_1(4), simp_all)
  then obtain v where v: "heap_load (2 ^ 32) 4100 4 (created 1) = Inr v" by blast
  have "\<exists>h'. poke (2 ^ 32) 4100 4 7 (created 1) = Some h'"
    by (simp add: poke_def write_at_def created_1(5) del: One_nat_def)
  then obtain h' where "poke (2 ^ 32) 4100 4 7 (created 1) = Some h'" by blast
  then have "heap_store (2 ^ 32) 4100 4 7 (created 1) = Inr (v, h')" by (simp only: heap_store_def v bindE.simps option.case)
  with store_isolated [OF created_1(1) this] show ?thesis by auto
qed

lemma region_life_witness:
  "\<exists>h' sv h''. region_alloc 0 4 (created 1) = Inr ((4096, 0), h') \<and> (\<exists>v. heap_load (2 ^ 32) 4098 2 h' = Inr v)
    \<and> region_destroy 0 h' = Inr (sv, h'') \<and> heap_load (2 ^ 32) 4095 2 h'' = Inl OutOfBounds"
proof -
  obtain h' where h': "region_alloc 0 4 (created 1) = Inr ((4096, 0), h')"
    using created_1(2) by (simp add: region_alloc_def heap_slot_def REGION_SLOTS_def eighth_region_def heap_align8_def MAX_REGION_BYTES_def)
  note life = region_life [OF created_1(1) h', simplified]
  from life have "\<forall>k w. k + w \<le> 4 \<longrightarrow> (\<exists>v. heap_load (2 ^ 32) (4096 + k) w h' = Inr v)" by simp
  then have l: "\<exists>v. heap_load (2 ^ 32) (4096 + 2) 2 h' = Inr v" by (rule allE [of _ 2]) simp
  from life obtain sv h'' where d: "region_destroy 0 h' = Inr (sv, h'')"
    "\<forall>addr w. addr < 4100 \<longrightarrow> 4096 < addr + w \<longrightarrow> addr + w < 4294967296 \<longrightarrow> heap_load 4294967296 addr w h'' = Inl OutOfBounds"
    by auto
  from d(2) have "heap_load 4294967296 4095 2 h'' = Inl OutOfBounds" by (elim allE [of _ 4095] allE [of _ 2]) simp
  with h' l d(1) show ?thesis by simp
qed

text \<open>A size within seven of \<open>2 ^ 64\<close> is rounded to zero: two such regions share one empty range, and
  destroying the first leaves the second alive without a range.\<close>

lemma wrapped_create:
  assumes "free_slot h = Some (i, h1)" "hp_cursor h1 \<le> MAX_HEAP_BYTES"
  shows "region_create (2 ^ 64 - 1) h = (Inr (i, hp_cursor h1), h1\<lparr>hp_bytes := resize (hp_cursor h1) (hp_bytes h1),
    hp_regions := (hp_regions h1)[i := \<lparr>rg_base = hp_cursor h1, rg_size = 0, rg_off = 0, rg_alive = True\<rparr>],
    hp_live := hp_live h1 @ [\<lparr>lr_start = hp_cursor h1, lr_end = hp_cursor h1\<rparr>]\<rparr>)"
  using assms by (simp add: region_create_def heap_align8_def arena_reserve_def Let_def)

lemma wrapped_size_shares_range:
  "\<exists>h1 h2 sv h3. region_create (2 ^ 64 - 1) heap_new = (Inr (0, 4096), h1) \<and> region_create (2 ^ 64 - 1) h1 = (Inr (1, 4096), h2)
    \<and> region_destroy 0 h2 = Inr (sv, h3) \<and> rg_alive (hp_regions h3 ! 1) \<and> hp_live h3 = []"
proof -
  let ?r = "\<lparr>rg_base = 4096, rg_size = 0, rg_off = 0, rg_alive = True\<rparr>" and ?l = "\<lparr>lr_start = 4096, lr_end = 4096\<rparr>"
  have n: "hp_cursor heap_new = 4096" "hp_regions heap_new = replicate 16 dead_region" "hp_live heap_new = []"
    by (simp_all add: heap_new_def NULL_PAGE_BYTES_def REGION_SLOTS_def)
  have "free_slot heap_new = Some (0, heap_new)"
    by (subst free_slot_def, subst find_first [of 0]) (simp_all add: n dead_region_def)
  from wrapped_create [OF this] obtain h1 where h1: "region_create (2 ^ 64 - 1) heap_new = (Inr (0, 4096), h1)"
    "hp_cursor h1 = 4096" "hp_regions h1 = (replicate 16 dead_region)[0 := ?r]" "hp_live h1 = [?l]"
    by (simp add: n MAX_HEAP_BYTES_def)
  have "free_slot h1 = Some (1, h1)"
    by (subst free_slot_def, subst find_first [of 1]) (simp_all add: h1 dead_region_def)
  from wrapped_create [OF this] obtain h2 where h2: "region_create (2 ^ 64 - 1) h1 = (Inr (1, 4096), h2)"
    "hp_regions h2 = (replicate 16 dead_region)[0 := ?r, 1 := ?r]" "hp_live h2 = [?l, ?l]"
    by (simp add: h1 MAX_HEAP_BYTES_def)
  have "region_destroy 0 h2 = Inr (\<lparr>sv_base = 4096, sv_size = 0, sv_off = 0\<rparr>,
      (drop_range 4096 4096 h2)\<lparr>hp_regions := (hp_regions h2)[0 := dead_region]\<rparr>)"
    by (simp add: region_destroy_def heap_slot_def h2 REGION_SLOTS_def Let_def)
  with h1(1) h2 show ?thesis by (simp add: drop_range_def)
qed

end
