(* ===== verification/Lexer.thy ===== *)
theory Lexer
  imports IrText
begin

text \<open>
  The lexer of the frontend: crates/frontend/src/token.rs and lex.rs. A source text is a list of
  bytes, each as a character; a lexer is the text with a position that may stand at its end.
\<close>

section \<open>Tokens\<close>

datatype token_kind = TkEof | TkIdent | TkNumber | TkString | TkKwPerforms
  | TkKwModule | TkKwImport | TkKwExport | TkKwEnd
  | TkKwType | TkKwSubtype | TkKwStruct | TkKwEnum | TkKwConst | TkKwResource | TkKwRegisterMap
  | TkKwOwned | TkKwIso | TkKwRequires | TkKwEnsures | TkKwNeeds | TkKwBoard
  | TkColon | TkSemi | TkLParen | TkRParen | TkLBracket | TkRBracket | TkLBrace | TkRBrace
  | TkComma | TkDot | TkEq | TkGe | TkLe | TkEqEq | TkNe
  | TkArrow | TkArrowBind | TkDblDot | TkDashDash | TkLessPipe | TkPipeGreater | TkPipe | TkApostrophe
  | TkAmp | TkAmpBang | TkAmpLBracket | TkSlash | TkAmpBangLBracket

record token =
  tk_kind :: token_kind
  tk_span :: span

definition Token_new :: "token_kind \<Rightarrow> nat \<Rightarrow> nat \<Rightarrow> token" where
  "Token_new k s e = \<lparr>tk_kind = k, tk_span = \<lparr>sp_start = s, sp_end = e\<rparr>\<rparr>"

record lexer =
  lx_src :: string
  lx_i :: nat

definition lexer_new :: "string \<Rightarrow> lexer" where
  "lexer_new src = \<lparr>lx_src = src, lx_i = 0\<rparr>"

definition set_pos :: "nat \<Rightarrow> lexer \<Rightarrow> lexer" where
  "set_pos pos lx = lx\<lparr>lx_i := min pos (length (lx_src lx))\<rparr>"

definition lx_peek :: "lexer \<Rightarrow> char option" where
  "lx_peek lx = (if lx_i lx < length (lx_src lx) then Some (lx_src lx ! lx_i lx) else None)"

definition advance :: "lexer \<Rightarrow> lexer" where
  "advance lx = lx\<lparr>lx_i := lx_i lx + 1\<rparr>"

section \<open>Character classes\<close>

definition in_chars :: "int \<Rightarrow> int \<Rightarrow> char \<Rightarrow> bool" where
  "in_chars lo hi c = (lo \<le> of_char c \<and> of_char c \<le> hi)"

definition is_ident_start :: "char \<Rightarrow> bool" where
  "is_ident_start c = (in_chars 65 90 c \<or> in_chars 97 122 c \<or> c = CHR ''_'' \<or> c = CHR ''@'' \<or> c = CHR ''!'')"

definition is_ident_continue :: "char \<Rightarrow> bool" where
  "is_ident_continue c = (is_ident_start c \<or> is_digit c \<or> c \<in> {CHR ''-'', CHR ''?'', CHR ''!''})"

definition is_number_continue :: "char \<Rightarrow> bool" where
  "is_number_continue c = (is_digit c \<or> c \<in> {CHR ''x'', CHR ''X'', CHR ''b'', CHR ''B'', CHR ''_''}
     \<or> in_chars 97 102 c \<or> in_chars 65 70 c)"

definition is_space :: "char \<Rightarrow> bool" where
  "is_space c = (c = CHR '' '' \<or> c = CHR 0x0A \<or> c = CHR 0x0D \<or> c = CHR 0x09)"

section \<open>The loops\<close>

text \<open>Each loop ends because its position moves towards the end of the text.\<close>

definition todo :: "lexer \<Rightarrow> nat" where
  "todo lx = length (lx_src lx) - lx_i lx"

lemma lx_peek_Some: "lx_peek lx = Some c \<longleftrightarrow> lx_i lx < length (lx_src lx) \<and> c = lx_src lx ! lx_i lx"
  by (auto simp: lx_peek_def)

lemma todo_advance: "lx_peek lx = Some c \<Longrightarrow> todo (advance lx) < todo lx"
  by (auto simp: lx_peek_Some todo_def advance_def)

lemma todo_advance_le: "todo (advance lx) \<le> todo lx"
  by (simp add: todo_def advance_def)

function skip_while :: "(char \<Rightarrow> bool) \<Rightarrow> lexer \<Rightarrow> lexer" where
  "skip_while P lx = (case lx_peek lx of
     Some c \<Rightarrow> if P c then skip_while P (advance lx) else lx
   | None \<Rightarrow> lx)"
  by pat_completeness auto
termination by (relation "measure (\<lambda>(P, lx). todo lx)") (auto simp: todo_advance)

function skip_line :: "lexer \<Rightarrow> lexer" where
  "skip_line lx = (case lx_peek lx of
     Some c \<Rightarrow> if c = CHR 0x0A then advance lx else skip_line (advance lx)
   | None \<Rightarrow> lx)"
  by pat_completeness auto
termination by (relation "measure todo") (auto simp: todo_advance)

declare skip_while.simps [simp del] skip_line.simps [simp del]

lemma skip_while_todo: "todo (skip_while P lx) \<le> todo lx"
  by (induction P lx rule: skip_while.induct)
    (subst skip_while.simps, auto split: option.split intro: order_trans [OF _ todo_advance_le])

lemma skip_line_todo: "todo (skip_line lx) \<le> todo lx"
  by (induction lx rule: skip_line.induct)
    (subst skip_line.simps, auto split: option.split intro: order_trans [OF _ todo_advance_le])

lemma skip_line_less: "lx_peek lx = Some c \<Longrightarrow> todo (skip_line lx) < todo lx"
  using todo_advance [of lx c] skip_line_todo [of "advance lx"]
  by (subst skip_line.simps) (auto intro: le_less_trans)

function skip_ws_and_comments :: "lexer \<Rightarrow> lexer" where
  "skip_ws_and_comments lx =
    (let lx' = skip_while is_space lx in
     if lx_peek lx' = Some (CHR ''#'') then skip_ws_and_comments (skip_line lx') else lx')"
  by pat_completeness auto
termination
  by (relation "measure todo") (auto dest: skip_line_less intro: less_le_trans [OF _ skip_while_todo])

declare skip_ws_and_comments.simps [simp del]

function string_loop :: "lexer \<Rightarrow> lexer" where
  "string_loop lx = (case lx_peek lx of
     None \<Rightarrow> lx
   | Some b \<Rightarrow>
       (let lx = advance lx in
        if b = CHR 0x5C then string_loop (if lx_i lx < length (lx_src lx) then advance lx else lx)
        else if b = CHR 0x22 then lx else string_loop lx))"
  by pat_completeness auto
termination
  by (relation "measure todo") (auto simp: todo_advance intro: le_less_trans [OF todo_advance_le todo_advance])

declare string_loop.simps [simp del]

section \<open>Tokens of the text\<close>

definition lx_slice :: "nat \<Rightarrow> nat \<Rightarrow> string \<Rightarrow> string" where
  "lx_slice s e src = drop s (take e src)"

definition lang_keywords :: "(string \<times> token_kind) list" where
  "lang_keywords = [(''module'', TkKwModule), (''import'', TkKwImport), (''export'', TkKwExport), (''end'', TkKwEnd),
     (''type'', TkKwType), (''subtype'', TkKwSubtype), (''struct'', TkKwStruct), (''enum'', TkKwEnum),
     (''const'', TkKwConst), (''resource'', TkKwResource), (''register-map'', TkKwRegisterMap),
     (''owned'', TkKwOwned), (''iso'', TkKwIso), (''requires'', TkKwRequires), (''ensures'', TkKwEnsures),
     (''needs'', TkKwNeeds), (''performs'', TkKwPerforms), (''board'', TkKwBoard)]"

definition keyword_or_ident :: "string \<Rightarrow> token_kind" where
  "keyword_or_ident w = (case map_of lang_keywords w of Some k \<Rightarrow> k | None \<Rightarrow> TkIdent)"

definition lex_string :: "nat \<Rightarrow> lexer \<Rightarrow> token \<times> lexer" where
  "lex_string start lx = (let lx = string_loop lx in (Token_new TkString start (lx_i lx), lx))"

definition lex_number :: "nat \<Rightarrow> lexer \<Rightarrow> token \<times> lexer" where
  "lex_number start lx = (let lx = skip_while is_number_continue lx in (Token_new TkNumber start (lx_i lx), lx))"

definition lex_ident :: "nat \<Rightarrow> lexer \<Rightarrow> token \<times> lexer" where
  "lex_ident start lx = (let lx = skip_while is_ident_continue lx in
     (Token_new (keyword_or_ident (lx_slice start (lx_i lx) (lx_src lx))) start (lx_i lx), lx))"

definition lex_number_or_ident :: "nat \<Rightarrow> lexer \<Rightarrow> token \<times> lexer" where
  "lex_number_or_ident start lx = (case lx_peek lx of
     Some b \<Rightarrow> if is_digit b then lex_number start lx else lex_ident start lx
   | None \<Rightarrow> lex_ident start lx)"

definition single_puncts :: "(char \<times> token_kind) list" where
  "single_puncts = [(CHR '':'', TkColon), (CHR '';'', TkSemi), (CHR ''('', TkLParen), (CHR '')'', TkRParen),
     (CHR ''['', TkLBracket), (CHR '']'', TkRBracket), (CHR ''{'', TkLBrace), (CHR ''}'', TkRBrace),
     (CHR '','', TkComma), (CHR 0x27, TkApostrophe), (CHR ''/'', TkSlash)]"

text \<open>One token: \<open>b\<close> is the byte just read, \<open>lx\<close> stands behind it.\<close>

definition next_after :: "nat \<Rightarrow> char \<Rightarrow> lexer \<Rightarrow> token \<times> lexer" where
  "next_after start b lx =
    (let one = (\<lambda>k. (Token_new k start (lx_i lx), lx));
         two = (\<lambda>k. (Token_new k start (lx_i lx + 1), advance lx));
         p = lx_peek lx in
     case map_of single_puncts b of Some k \<Rightarrow> one k
     | None \<Rightarrow>
       if b = CHR ''.'' then (if p = Some (CHR ''.'') then two TkDblDot else one TkDot)
       else if b = CHR ''='' then
         (if p = Some (CHR ''>'') then two TkArrowBind else if p = Some (CHR ''='') then two TkEqEq else one TkEq)
       else if b = CHR ''-'' then
         (if p = Some (CHR ''-'') then two TkDashDash else if p = Some (CHR ''>'') then two TkArrow
          else lex_number_or_ident start lx)
       else if b = CHR ''<'' then
         (if p = Some (CHR ''|'') then two TkLessPipe else if p = Some (CHR ''='') then two TkLe
          else lex_ident start lx)
       else if b = CHR ''|'' then (if p = Some (CHR ''>'') then two TkPipeGreater else one TkPipe)
       else if b = CHR ''>'' then (if p = Some (CHR ''='') then two TkGe else lex_ident start lx)
       else if b = CHR ''&'' then
         (if p = Some (CHR ''!'') then
            (if lx_peek (advance lx) = Some (CHR ''['')
             then (Token_new TkAmpBangLBracket start (lx_i lx + 2), advance (advance lx)) else two TkAmpBang)
          else if p = Some (CHR ''['') then two TkAmpLBracket else one TkAmp)
       else if b = CHR ''!'' then (if p = Some (CHR ''='') then two TkNe else lex_ident start lx)
       else if b = CHR 0x22 then lex_string start lx
       else if is_ident_start b then lex_ident start lx
       else if is_digit b then lex_number start lx
       else one TkIdent)"

definition next_token :: "lexer \<Rightarrow> token \<times> lexer" where
  "next_token lx = (let lx = skip_ws_and_comments lx in
     case lx_peek lx of
       None \<Rightarrow> (Token_new TkEof (lx_i lx) (lx_i lx), lx)
     | Some b \<Rightarrow> next_after (lx_i lx) b (advance lx))"

section \<open>What is left of the text\<close>

text \<open>Each step moves the position by a length that depends only on the text from it on.\<close>

definition rest :: "lexer \<Rightarrow> string" where
  "rest lx = drop (lx_i lx) (lx_src lx)"

definition moved :: "nat \<Rightarrow> lexer \<Rightarrow> lexer" where
  "moved n lx = lx\<lparr>lx_i := lx_i lx + n\<rparr>"

lemma moved_simps [simp]: "moved 0 lx = lx" "moved m (moved n lx) = moved (n + m) lx" "advance lx = moved 1 lx"
  "lx_i (moved n lx) = lx_i lx + n" "lx_src (moved n lx) = lx_src lx"
  by (simp_all add: moved_def advance_def)

lemma rest_moved [simp]: "rest (moved n lx) = drop n (rest lx)"
  by (simp add: rest_def add.commute)

lemma length_rest: "length (rest lx) = todo lx"
  by (simp add: rest_def todo_def)

lemma lx_peek_rest: "lx_peek lx = (case rest lx of [] \<Rightarrow> None | c # _ \<Rightarrow> Some c)"
proof (cases "lx_i lx < length (lx_src lx)")
  case True
  then show ?thesis by (simp add: lx_peek_def rest_def flip: Cons_nth_drop_Suc)
qed (simp add: lx_peek_def rest_def)

lemma skip_while_moved: "skip_while P lx = moved (length (takeWhile P (rest lx))) lx"
proof (induction P lx rule: skip_while.induct)
  case (1 P lx)
  then show ?case
    by (subst skip_while.simps) (auto simp: lx_peek_rest drop_Suc split: list.split)
qed

fun line_len :: "string \<Rightarrow> nat" where
  "line_len [] = 0"
| "line_len (c # r) = (if c = CHR 0x0A then 1 else 1 + line_len r)"

lemma skip_line_moved: "skip_line lx = moved (line_len (rest lx)) lx"
proof (induction lx rule: skip_line.induct)
  case (1 lx)
  then show ?case
    by (subst skip_line.simps) (auto simp: lx_peek_rest drop_Suc split: list.split)
qed

fun str_len :: "string \<Rightarrow> nat" where
  "str_len [] = 0"
| "str_len [c] = 1"
| "str_len (c # d # r) = (if c = CHR 0x5C then 2 + str_len r else if c = CHR 0x22 then 1 else 1 + str_len (d # r))"

lemma string_loop_moved: "string_loop lx = moved (str_len (rest lx)) lx"
proof (induction lx rule: string_loop.induct)
  case (1 lx)
  show ?case
  proof (cases "rest lx")
    case Nil
    then show ?thesis by (subst string_loop.simps) (simp add: lx_peek_rest)
  next
    case (Cons c r)
    then have p: "lx_peek lx = Some c" by (simp add: lx_peek_rest)
    have r: "rest (moved 1 lx) = r" by (simp add: Cons)
    have more: "lx_i lx + 1 < length (lx_src lx) \<longleftrightarrow> r \<noteq> []"
      using length_rest [of "moved 1 lx"] unfolding r by (cases r) (auto simp: todo_def)
    note IH = 1 [OF p refl]
    show ?thesis
    proof (cases "c = CHR 0x5C")
      case True
      with IH(1) more r show ?thesis
        by (subst string_loop.simps) (cases r, simp_all add: p Cons)
    next
      case False
      with IH(2) r string_loop.simps [of "moved 1 lx"] show ?thesis
        by (subst string_loop.simps) (cases r, simp_all add: p Cons lx_peek_rest Let_def)
    qed
  qed
qed

end
