(* ===== verification/LexProps.thy ===== *)
theory LexProps
  imports Lexer "HOL-Library.Sublist"
begin

text \<open>
  The lexer against its specification: the tokens of a text tile it with trivia between them,
  each is the longest one of its kind, and the texts of the tokens lex back to the same tokens.
\<close>

section \<open>A token as a function of the text\<close>

definition starts :: "char \<Rightarrow> string \<Rightarrow> bool" where
  "starts c r \<longleftrightarrow> (case r of [] \<Rightarrow> False | d # _ \<Rightarrow> d = c)"

lemma starts_simps [simp]: "\<not> starts c []" "starts c (d # r) \<longleftrightarrow> d = c"
  by (simp_all add: starts_def)

definition ident_lexeme :: "char \<Rightarrow> string \<Rightarrow> token_kind \<times> nat" where
  "ident_lexeme b r = (let w = b # takeWhile is_ident_continue r in (keyword_or_ident w, length w))"

definition number_lexeme :: "string \<Rightarrow> token_kind \<times> nat" where
  "number_lexeme r = (TkNumber, 1 + length (takeWhile is_number_continue r))"

definition lexeme :: "char \<Rightarrow> string \<Rightarrow> token_kind \<times> nat" where
  "lexeme b r =
    (case map_of single_puncts b of Some k \<Rightarrow> (k, 1)
     | None \<Rightarrow>
       if b = CHR ''.'' then (if starts (CHR ''.'') r then (TkDblDot, 2) else (TkDot, 1))
       else if b = CHR ''='' then
         (if starts (CHR ''>'') r then (TkArrowBind, 2) else if starts (CHR ''='') r then (TkEqEq, 2) else (TkEq, 1))
       else if b = CHR ''-'' then
         (if starts (CHR ''-'') r then (TkDashDash, 2) else if starts (CHR ''>'') r then (TkArrow, 2)
          else if r \<noteq> [] \<and> is_digit (hd r) then number_lexeme r else ident_lexeme b r)
       else if b = CHR ''<'' then
         (if starts (CHR ''|'') r then (TkLessPipe, 2) else if starts (CHR ''='') r then (TkLe, 2) else ident_lexeme b r)
       else if b = CHR ''|'' then (if starts (CHR ''>'') r then (TkPipeGreater, 2) else (TkPipe, 1))
       else if b = CHR ''>'' then (if starts (CHR ''='') r then (TkGe, 2) else ident_lexeme b r)
       else if b = CHR ''&'' then
         (if starts (CHR ''!'') r then (if starts (CHR ''['') (tl r) then (TkAmpBangLBracket, 3) else (TkAmpBang, 2))
          else if starts (CHR ''['') r then (TkAmpLBracket, 2) else (TkAmp, 1))
       else if b = CHR ''!'' then (if starts (CHR ''='') r then (TkNe, 2) else ident_lexeme b r)
       else if b = CHR 0x22 then (TkString, 1 + str_len r)
       else if is_ident_start b then ident_lexeme b r
       else if is_digit b then number_lexeme r
       else (TkIdent, 1))"

lemma peek_starts: "lx_peek lx = Some c \<longleftrightarrow> starts c (rest lx)"
  by (auto simp: lx_peek_rest starts_def split: list.splits)

definition emit_token :: "lexer \<Rightarrow> token_kind \<times> nat \<Rightarrow> token \<times> lexer" where
  "emit_token lx kn = (Token_new (fst kn) (lx_i lx) (lx_i lx + snd kn), moved (snd kn) lx)"

lemma ident_step:
  assumes "rest lx = b # r"
  shows "lex_ident (lx_i lx) (moved 1 lx)
    = emit_token lx (ident_lexeme b r)"
proof -
  let ?n = "length (takeWhile is_ident_continue r)"
  have "lx_slice (lx_i lx) (lx_i lx + 1 + ?n) (lx_src lx) = take (1 + ?n) (rest lx)"
    by (simp add: lx_slice_def rest_def drop_take)
  also have "\<dots> = b # takeWhile is_ident_continue r" by (simp add: assms flip: takeWhile_eq_take)
  finally show ?thesis
    by (simp add: lex_ident_def skip_while_moved assms ident_lexeme_def Let_def emit_token_def)
qed

lemma number_step:
  assumes "rest lx = b # r"
  shows "lex_number (lx_i lx) (moved 1 lx)
    = emit_token lx (number_lexeme r)"
  by (simp add: lex_number_def skip_while_moved assms number_lexeme_def Let_def emit_token_def)

lemma string_step:
  assumes "rest lx = b # r"
  shows "lex_string (lx_i lx) (moved 1 lx)
    = emit_token lx (TkString, 1 + str_len r)"
  by (simp add: lex_string_def string_loop_moved assms Let_def emit_token_def)

lemma number_or_ident_step:
  assumes "rest lx = b # r"
  shows "lex_number_or_ident (lx_i lx) (moved 1 lx)
    = (if r \<noteq> [] \<and> is_digit (hd r) then emit_token lx (number_lexeme r) else emit_token lx (ident_lexeme b r))"
  using ident_step [OF assms] number_step [OF assms]
  by (cases r) (simp_all add: lex_number_or_ident_def lx_peek_rest assms)

text \<open>The token read at a position is the lexeme of what is left there.\<close>

lemma next_after_lexeme:
  assumes "rest lx = b # r"
  shows "next_after (lx_i lx) b (advance lx)
    = emit_token lx (lexeme b r)"
proof -
  have r: "rest (moved 1 lx) = r" by (simp add: assms)
  have r2: "rest (moved (1 + 1) lx) = tl r" using assms by (cases r) simp_all
  have p: "lx_peek (moved 1 lx) = Some c \<longleftrightarrow> starts c r" "lx_peek (moved (1 + 1) lx) = Some c \<longleftrightarrow> starts c (tl r)" for c
    by (simp_all only: peek_starts r r2)
  have one: "(Token_new k (lx_i lx) (lx_i lx + 1), moved 1 lx) = emit_token lx (k, 1)"
    and two: "(Token_new k (lx_i lx) (lx_i lx + 1 + 1), moved (1 + 1) lx) = emit_token lx (k, 2)"
    and three: "(Token_new k (lx_i lx) (lx_i lx + 1 + 2), moved (1 + 1 + 1) lx) = emit_token lx (k, 3)" for k
    by (simp_all add: emit_token_def numeral_2_eq_2 numeral_3_eq_3)
  note shape = next_after_def lexeme_def Let_def p one two three ident_step [OF assms] number_step [OF assms]
    string_step [OF assms] number_or_ident_step [OF assms] moved_simps if_distrib [of "emit_token lx"] option.case_distrib [of "emit_token lx"]
  show ?thesis by (cases "map_of single_puncts b") (simp_all only: shape option.case)
qed

section \<open>Trivia\<close>

text \<open>White space and comments, a comment ending with its line or with the text.\<close>

inductive trivia :: "string \<Rightarrow> bool" where
  nil: "trivia []"
| space: "is_space c \<Longrightarrow> trivia r \<Longrightarrow> trivia (c # r)"
| comment: "CHR 0x0A \<notin> set body \<Longrightarrow> trivia r \<Longrightarrow> trivia (CHR ''#'' # body @ CHR 0x0A # r)"
| last: "CHR 0x0A \<notin> set body \<Longrightarrow> trivia (CHR ''#'' # body)"

lemma trivia_spaces: "list_all is_space ws \<Longrightarrow> trivia r \<Longrightarrow> trivia (ws @ r)"
  by (induction ws) (auto intro: trivia.space)

lemma line_len_le: "line_len s \<le> length s"
  by (induction s) auto

lemma line_split:
  "\<exists>body. CHR 0x0A \<notin> set body \<and> (take (line_len s) s = body @ [CHR 0x0A] \<or> take (line_len s) s = body \<and> line_len s = length s)"
proof (induction s)
  case (Cons c s)
  show ?case
  proof (cases "c = CHR 0x0A")
    case False
    from Cons obtain body where b: "CHR 0x0A \<notin> set body"
      "take (line_len s) s = body @ [CHR 0x0A] \<or> take (line_len s) s = body \<and> line_len s = length s" by blast
    then show ?thesis using False by (intro exI [of _ "c # body"]) auto
  qed (intro exI [of _ "[]"], simp)
qed simp

lemma trivia_comment:
  assumes "trivia (take n (drop (line_len s) s))"
  shows "trivia (CHR ''#'' # take (line_len s + n) s)"
proof -
  obtain body where b: "CHR 0x0A \<notin> set body"
    "take (line_len s) s = body @ [CHR 0x0A] \<or> take (line_len s) s = body \<and> line_len s = length s"
    using line_split by blast
  have "take (line_len s + n) s = take (line_len s) s @ take n (drop (line_len s) s)" by (simp add: take_add)
  with b assms show ?thesis by (auto intro: trivia.comment trivia.last)
qed

text \<open>What is skipped before a token is trivia, and no trivia starts the token.\<close>

definition token_start :: "string \<Rightarrow> bool" where
  "token_start s \<longleftrightarrow> (\<forall>c r. s = c # r \<longrightarrow> \<not> is_space c \<and> c \<noteq> CHR ''#'')"

lemma skip_trivia:
  "\<exists>n \<le> todo lx. skip_ws_and_comments lx = moved n lx \<and> trivia (take n (rest lx)) \<and> token_start (drop n (rest lx))"
proof (induction lx rule: skip_ws_and_comments.induct)
  case (1 lx)
  let ?ws = "takeWhile is_space (rest lx)" and ?r = "dropWhile is_space (rest lx)"
  let ?k = "length ?ws"
  have split: "rest lx = ?ws @ ?r" by simp
  have k: "skip_while is_space lx = moved ?k lx" by (simp add: skip_while_moved)
  have r: "rest (moved ?k lx) = ?r" by (simp add: dropWhile_eq_drop)
  have cut: "drop (?k + j) (rest lx) = drop j ?r" "take (?k + j) (rest lx) = ?ws @ take j ?r" for j
    using take_add [of ?k j "rest lx"] by (simp_all add: dropWhile_eq_drop add.commute flip: takeWhile_eq_take)
  have ws: "list_all is_space ?ws" by (auto simp: list_all_iff dest: set_takeWhileD)
  show ?case
  proof (cases "starts (CHR ''#'') ?r")
    case False
    then have "skip_ws_and_comments lx = moved ?k lx"
      by (subst skip_ws_and_comments.simps) (simp only: k Let_def peek_starts r if_False)
    moreover have "token_start ?r"
      using False by (auto simp: token_start_def dest: arg_cong [of _ _ "\<lambda>s. list_all is_space (takeWhile is_space s)"] dropWhile_eq_Cons_conv [THEN iffD1])
    ultimately show ?thesis using trivia_spaces [OF ws trivia.nil] length_takeWhile_le [of is_space "rest lx"]
      by (intro exI [of _ ?k]) (simp add: length_rest dropWhile_eq_drop flip: takeWhile_eq_take)
  next
    case True
    then obtain s where s: "?r = CHR ''#'' # s" by (cases ?r) auto
    define m where "m = ?k + (1 + line_len s)"
    have line: "skip_line (moved ?k lx) = moved m lx"
      by (simp only: skip_line_moved r) (simp add: s m_def)
    have rm: "rest (moved m lx) = drop (line_len s) s"
      unfolding rest_moved m_def cut s by simp
    have step: "skip_ws_and_comments lx = skip_ws_and_comments (moved m lx)"
      using True by (subst skip_ws_and_comments.simps) (simp only: k Let_def peek_starts r if_True line)
    have "lx_peek (moved ?k lx) = Some (CHR ''#'')" using True by (simp only: peek_starts r)
    from 1 [of "moved ?k lx"] this k obtain n where n: "n \<le> todo (moved m lx)"
      "skip_ws_and_comments (moved m lx) = moved (m + n) lx" "trivia (take n (drop (line_len s) s))"
      "token_start (drop n (drop (line_len s) s))"
      by (auto simp del: rest_moved simp: line rm)
    have tot: "take (m + n) (rest lx) = ?ws @ CHR ''#'' # take (line_len s + n) s"
      unfolding m_def add.assoc cut s by simp
    have "drop (m + n) (rest lx) = drop n (drop (line_len s) s)" using arg_cong [OF rm, of "drop n"] by (simp add: add.commute)
    moreover have "trivia (take (m + n) (rest lx))" unfolding tot by (rule trivia_spaces [OF ws trivia_comment [OF n(3)]])
    moreover have "m + n \<le> todo lx"
    proof -
      have "length (rest lx) = ?k + length ?r" using arg_cong [OF split, of length] unfolding length_append .
      then have "m \<le> length (rest lx)" unfolding s using line_len_le [of s] by (simp add: m_def)
      then show ?thesis using n(1) by (simp add: todo_def length_rest)
    qed
    ultimately show ?thesis using n(2,4) step by (intro exI [of _ "m + n"]) simp
  qed
qed

section \<open>The shape of tokens\<close>

text \<open>The same function by tables.\<close>

definition double_puncts :: "((char \<times> char) \<times> token_kind) list" where
  "double_puncts = [((CHR ''.'', CHR ''.''), TkDblDot), ((CHR ''='', CHR ''>''), TkArrowBind), ((CHR ''='', CHR ''=''), TkEqEq),
     ((CHR ''-'', CHR ''-''), TkDashDash), ((CHR ''-'', CHR ''>''), TkArrow), ((CHR ''<'', CHR ''|''), TkLessPipe),
     ((CHR ''<'', CHR ''=''), TkLe), ((CHR ''|'', CHR ''>''), TkPipeGreater), ((CHR ''>'', CHR ''=''), TkGe),
     ((CHR ''&'', CHR ''!''), TkAmpBang), ((CHR ''&'', CHR ''[''), TkAmpLBracket), ((CHR ''!'', CHR ''=''), TkNe)]"

definition lone_puncts :: "(char \<times> token_kind) list" where
  "lone_puncts = [(CHR ''.'', TkDot), (CHR ''='', TkEq), (CHR ''|'', TkPipe), (CHR ''&'', TkAmp)]"

definition punct2 :: "char \<Rightarrow> string \<Rightarrow> token_kind option" where
  "punct2 b r = (case r of [] \<Rightarrow> None | c # _ \<Rightarrow> map_of double_puncts (b, c))"

definition lexeme_tab :: "char \<Rightarrow> string \<Rightarrow> token_kind \<times> nat" where
  "lexeme_tab b r =
    (case map_of single_puncts b of Some k \<Rightarrow> (k, 1)
     | None \<Rightarrow> (case punct2 b r of
         Some k \<Rightarrow> if k = TkAmpBang \<and> starts (CHR ''['') (tl r) then (TkAmpBangLBracket, 3) else (k, 2)
       | None \<Rightarrow> (case map_of lone_puncts b of Some k \<Rightarrow> (k, 1)
         | None \<Rightarrow>
           if b = CHR 0x22 then (TkString, 1 + str_len r)
           else if is_digit b \<or> b = CHR ''-'' \<and> r \<noteq> [] \<and> is_digit (hd r) then number_lexeme r
           else if is_ident_start b \<or> b \<in> {CHR ''-'', CHR ''<'', CHR ''>''} then ident_lexeme b r
           else (TkIdent, 1))))"

lemma digit_not_ident: "is_digit b \<Longrightarrow> \<not> is_ident_start b"
  by (auto simp: is_digit_def is_ident_start_def in_chars_def)

lemma lexeme_eq_tab: "lexeme b r = lexeme_tab b r"
proof (cases "map_of single_puncts b")
  case None
  note t = lexeme_def lexeme_tab_def None option.case
  show ?thesis
  proof (cases "b \<in> {CHR ''.'', CHR ''='', CHR ''-'', CHR ''<'', CHR ''|'', CHR ''>'', CHR ''&'', CHR ''!''}")
    case True
    then show ?thesis
      by (elim insertE emptyE; cases r; simp add: t single_puncts_def punct2_def double_puncts_def lone_puncts_def is_digit_def is_ident_start_def)
  next
    case False
    then have "punct2 b r = None" "map_of lone_puncts b = None"
      by (auto simp: punct2_def double_puncts_def lone_puncts_def split: list.split)
    with False digit_not_ident [of b] show ?thesis by (simp add: t) 
  qed
qed (simp add: lexeme_def lexeme_tab_def)

lemma lexeme_cases:
  obtains (single) k where "map_of single_puncts b = Some k" "lexeme b r = (k, 1)"
  | (pair) c s k where "map_of single_puncts b = None" "r = c # s" "map_of double_puncts (b, c) = Some k"
      "\<not> (k = TkAmpBang \<and> starts (CHR ''['') s)" "lexeme b r = (k, 2)"
  | (triple) s where "b = CHR ''&''" "r = CHR ''!'' # CHR ''['' # s" "lexeme b r = (TkAmpBangLBracket, 3)"
  | (lone) k where "map_of single_puncts b = None" "punct2 b r = None" "map_of lone_puncts b = Some k" "lexeme b r = (k, 1)"
  | (str) "b = CHR 0x22" "lexeme b r = (TkString, 1 + str_len r)"
  | (num) "map_of single_puncts b = None" "punct2 b r = None" "map_of lone_puncts b = None" "b \<noteq> CHR 0x22"
      "is_digit b \<or> b = CHR ''-'' \<and> r \<noteq> [] \<and> is_digit (hd r)" "lexeme b r = number_lexeme r"
  | (ident) "map_of single_puncts b = None" "punct2 b r = None" "map_of lone_puncts b = None" "b \<noteq> CHR 0x22"
      "\<not> (is_digit b \<or> b = CHR ''-'' \<and> r \<noteq> [] \<and> is_digit (hd r))"
      "is_ident_start b \<or> b \<in> {CHR ''-'', CHR ''<'', CHR ''>''}" "lexeme b r = ident_lexeme b r"
  | (other) "map_of single_puncts b = None" "punct2 b r = None" "map_of lone_puncts b = None" "b \<noteq> CHR 0x22"
      "\<not> is_digit b" "b \<noteq> CHR ''-''" "\<not> (is_ident_start b \<or> b \<in> {CHR ''-'', CHR ''<'', CHR ''>''})" "lexeme b r = (TkIdent, 1)"
proof (cases "map_of single_puncts b")
  case (Some k)
  then show ?thesis using single by (simp add: lexeme_eq_tab lexeme_tab_def)
next
  case s: None
  show ?thesis
  proof (cases "punct2 b r")
    case (Some k)
    then obtain c t where r: "r = c # t" "map_of double_puncts (b, c) = Some k" by (auto simp: punct2_def split: list.splits)
    show ?thesis
    proof (cases "k = TkAmpBang \<and> starts (CHR ''['') t")
      case True
      then have "b = CHR ''&''" "c = CHR ''!''" "\<exists>u. t = CHR ''['' # u"
        using r(2) by (auto simp: double_puncts_def starts_def split: if_splits list.splits)
      with True s Some r(1) triple show ?thesis by (auto simp: lexeme_eq_tab lexeme_tab_def)
    next
      case False
      with s Some r pair show ?thesis by (simp add: lexeme_eq_tab lexeme_tab_def)
    qed
  next
    case p: None
    show ?thesis
    proof (cases "map_of lone_puncts b")
      case (Some k)
      then show ?thesis using s p lone by (simp add: lexeme_eq_tab lexeme_tab_def)
    next
      case None
      note t = lexeme_eq_tab [of b r] lexeme_tab_def [of b r] s p None option.case
      let ?d = "is_digit b \<or> b = CHR ''-'' \<and> r \<noteq> [] \<and> is_digit (hd r)"
        and ?i = "is_ident_start b \<or> b \<in> {CHR ''-'', CHR ''<'', CHR ''>''}"
      consider "b = CHR 0x22" | "b \<noteq> CHR 0x22" ?d | "b \<noteq> CHR 0x22" "\<not> ?d" ?i | "b \<noteq> CHR 0x22" "\<not> ?d" "\<not> ?i" by blast
      then show ?thesis
      proof cases
        case 1
        then have "lexeme b r = (TkString, 1 + str_len r)" unfolding t by (simp only: if_True refl)
        with 1 show ?thesis by (rule str)
      next
        case 2
        then have "lexeme b r = number_lexeme r" unfolding t by (simp only: if_True if_False)
        with s p None 2 show ?thesis by (rule num)
      next
        case 3
        then have "lexeme b r = ident_lexeme b r" unfolding t by (simp only: if_True if_False)
        with s p None 3 show ?thesis by (rule ident)
      next
        case 4
        then have "lexeme b r = (TkIdent, 1)" unfolding t by (simp only: if_True if_False)
        moreover from 4 have "\<not> is_digit b" "b \<noteq> CHR ''-''" by auto
        ultimately show ?thesis using s p None 4 by (intro other)
      qed
    qed
  qed
qed

lemma str_len_le: "str_len r \<le> length r"
  by (induction r rule: str_len.induct) auto

lemma lexeme_bounds: "0 < snd (lexeme b r) \<and> snd (lexeme b r) \<le> 1 + length r"
  by (cases rule: lexeme_cases [of b r])
    (simp_all add: ident_lexeme_def number_lexeme_def Let_def length_takeWhile_le str_len_le)

section \<open>Lexing again\<close>

text \<open>What follows a token matters by its first byte only, and not at all when that byte is white
  space or the one that followed it before. A string that is not closed must end the text.\<close>

fun closed :: "string \<Rightarrow> bool" where
  "closed [] = False"
| "closed [c] = (c = CHR 0x22)"
| "closed (c # d # r) = (if c = CHR 0x5C then closed r else if c = CHR 0x22 then True else closed (d # r))"

lemma str_len_open: "\<not> closed r \<Longrightarrow> str_len r = length r"
  by (induction r rule: str_len.induct) (auto split: if_splits)

lemma str_len_step [simp]:
  "str_len (CHR 0x22 # s) = 1" "c \<noteq> CHR 0x5C \<Longrightarrow> c \<noteq> CHR 0x22 \<Longrightarrow> str_len (c # s) = 1 + str_len s"
  by (cases s; simp)+

lemma str_len_again: "closed r \<or> s = [] \<Longrightarrow> str_len (take (str_len r) r @ s) = str_len r"
  by (induction r rule: str_len.induct) (auto split: if_splits)

definition same_start :: "string \<Rightarrow> string \<Rightarrow> bool" where
  "same_start s t \<longleftrightarrow> s = [] \<or> is_space (hd s) \<or> t \<noteq> [] \<and> hd s = hd t"

lemma space_class: "is_space c \<Longrightarrow> \<not> is_digit c \<and> \<not> is_number_continue c \<and> \<not> is_ident_continue c"
  unfolding is_space_def
  by (elim disjE; simp add: is_digit_def is_number_continue_def is_ident_continue_def is_ident_start_def in_chars_def)

lemma punct2_space: "is_space c \<Longrightarrow> punct2 b (c # r) = None"
  unfolding is_space_def by (elim disjE; simp add: punct2_def double_puncts_def)

lemma punct2_same: "same_start s r \<Longrightarrow> punct2 b r = None \<Longrightarrow> punct2 b s = None"
  by (cases s; cases r) (auto simp: same_start_def punct2_space, simp_all add: punct2_def)

lemma takeWhile_again:
  assumes "same_start s (dropWhile P r)" "\<And>c. is_space c \<Longrightarrow> \<not> P c"
  shows "takeWhile P (takeWhile P r @ s) = takeWhile P r"
proof -
  have "takeWhile P s = []"
  proof (cases s)
    case (Cons c t)
    with assms hd_dropWhile [of P r] have "\<not> P c" by (auto simp: same_start_def)
    with Cons show ?thesis by simp
  qed simp
  then show ?thesis by (subst takeWhile_append2) (auto dest: set_takeWhileD)
qed

lemma digit_number: "is_digit c \<Longrightarrow> is_number_continue c"
  by (simp add: is_number_continue_def)

lemma same_hd: "r \<noteq> [] \<Longrightarrow> takeWhile P r \<noteq> [] \<Longrightarrow> hd (takeWhile P r @ s) = hd r"
  by (cases r) auto

lemma punct2_hd: "r \<noteq> [] \<Longrightarrow> t \<noteq> [] \<Longrightarrow> hd t = hd r \<Longrightarrow> punct2 b t = punct2 b r"
  by (cases r; cases t) (simp_all add: punct2_def)

lemma punct2_again:
  assumes "same_start s (dropWhile P r)" "punct2 b r = None"
  shows "punct2 b (takeWhile P r @ s) = None"
proof (cases "takeWhile P r")
  case Nil
  then have "dropWhile P r = r" by (cases r) (auto split: if_splits)
  then show ?thesis using punct2_same [of s r b] assms Nil by simp
next
  case (Cons c w)
  then have "r \<noteq> []" by auto
  with Cons show ?thesis using punct2_hd [of r "takeWhile P r @ s" b] same_hd [of r P s] assms(2) by simp
qed

lemma digit_again:
  assumes "same_start s (dropWhile P r)" "\<not> (r \<noteq> [] \<and> is_digit (hd r))"
  shows "\<not> (takeWhile P r @ s \<noteq> [] \<and> is_digit (hd (takeWhile P r @ s)))"
proof (cases "takeWhile P r")
  case Nil
  then have "dropWhile P r = r" by (cases r) (auto split: if_splits)
  with Nil assms space_class show ?thesis by (auto simp: same_start_def)
next
  case (Cons c w)
  then have "r \<noteq> []" by auto
  with Cons assms(2) show ?thesis using same_hd [of r P s] by simp
qed

lemma ident_again:
  assumes "same_start s (dropWhile is_ident_continue r)"
  shows "ident_lexeme b (takeWhile is_ident_continue r @ s) = ident_lexeme b r"
  using takeWhile_again [OF assms] space_class by (auto simp: ident_lexeme_def Let_def)

text \<open>A token cut out of its text, with anything harmless behind it, is the same token again.\<close>

lemma lexeme_again:
  assumes "same_start s (drop (snd (lexeme b r) - 1) r)" "fst (lexeme b r) = TkString \<longrightarrow> closed r \<or> s = []"
  shows "lexeme b (take (snd (lexeme b r) - 1) r @ s) = lexeme b r"
proof (cases rule: lexeme_cases [of b r])
  case (single k)
  then show ?thesis by (simp add: lexeme_eq_tab lexeme_tab_def)
next
  case (pair c t k)
  then have "\<not> (k = TkAmpBang \<and> starts (CHR ''['') s)"
    using assms(1) by (auto simp: same_start_def starts_def is_space_def split: list.splits)
  with pair show ?thesis by (simp add: lexeme_eq_tab lexeme_tab_def punct2_def)
next
  case (triple t)
  then show ?thesis by (simp add: lexeme_eq_tab lexeme_tab_def punct2_def double_puncts_def single_puncts_def)
next
  case (lone k)
  with assms(1) have "punct2 b s = None" by (simp add: punct2_same)
  with lone show ?thesis by (simp add: lexeme_eq_tab lexeme_tab_def)
next
  case str
  have "lexeme (CHR 0x22) t = (TkString, 1 + str_len t)" for t by (simp add: lexeme_def single_puncts_def)
  with str assms(2) str_len_again [of r s] show ?thesis by simp
next
  case num
  let ?t = "takeWhile is_number_continue r"
  have tk: "take (snd (lexeme b r) - 1) r = ?t" using num by (simp add: number_lexeme_def flip: takeWhile_eq_take)
  have st: "same_start s (dropWhile is_number_continue r)"
    using assms(1) num by (simp add: number_lexeme_def dropWhile_eq_drop)
  have "r \<noteq> [] \<and> is_digit (hd r) \<Longrightarrow> ?t @ s \<noteq> [] \<and> is_digit (hd (?t @ s))"
    using digit_number by (cases r) auto
  with num have "lexeme b (?t @ s) = number_lexeme (?t @ s)"
    using punct2_again [OF st num(2)] by (auto simp: lexeme_eq_tab lexeme_tab_def)
  also have "\<dots> = number_lexeme r"
    using takeWhile_again [OF st] space_class by (auto simp: number_lexeme_def)
  finally show ?thesis using num(6) tk by simp
next
  case ident
  let ?t = "takeWhile is_ident_continue r"
  have tk: "take (snd (lexeme b r) - 1) r = ?t" using ident by (simp add: ident_lexeme_def Let_def flip: takeWhile_eq_take)
  have st: "same_start s (dropWhile is_ident_continue r)"
    using assms(1) ident by (simp add: ident_lexeme_def Let_def dropWhile_eq_drop)
  have "\<not> (is_digit b \<or> b = CHR ''-'' \<and> ?t @ s \<noteq> [] \<and> is_digit (hd (?t @ s)))"
    using digit_again [OF st] ident(5) by blast
  then have "lexeme b (?t @ s) = ident_lexeme b (?t @ s)"
    using punct2_again [OF st ident(2)] ident(1,3,4,6) by (simp only: lexeme_eq_tab lexeme_tab_def option.case if_False if_True)
  then show ?thesis using ident_again [OF st] ident(7) tk by simp
next
  case other
  with assms(1) have "punct2 b s = None" by (simp add: punct2_same)
  with other show ?thesis by (simp add: lexeme_eq_tab lexeme_tab_def)
qed

section \<open>All tokens\<close>

lemma next_token_cases:
  obtains (eof) n where "n = todo lx" "trivia (rest lx)"
      "next_token lx = (Token_new TkEof (lx_i lx + n) (lx_i lx + n), moved n lx)"
  | (token) n b r where "n < todo lx" "trivia (take n (rest lx))" "drop n (rest lx) = b # r" "token_start (b # r)"
      "next_token lx = emit_token (moved n lx) (lexeme b r)"
proof -
  obtain n where n: "n \<le> todo lx" "skip_ws_and_comments lx = moved n lx" "trivia (take n (rest lx))" "token_start (drop n (rest lx))"
    using skip_trivia by blast
  show thesis
  proof (cases "drop n (rest lx)")
    case Nil
    then have "n = todo lx" using n(1) by (simp add: length_rest)
    with n eof Nil show ?thesis by (simp add: next_token_def lx_peek_rest length_rest)
  next
    case (Cons b r)
    then have "n < todo lx" using n(1) by (cases "n = todo lx") (simp_all add: length_rest)
    moreover have "next_token lx = emit_token (moved n lx) (lexeme b r)"
      using next_after_lexeme [of "moved n lx" b r] n(2) Cons by (simp add: next_token_def lx_peek_rest Let_def)
    ultimately show ?thesis using token n Cons by simp
  qed
qed

lemma tables_kinds:
  assumes "k \<in> {TkEof, TkString, TkNumber}"
  shows "map_of single_puncts b \<noteq> Some k" "map_of double_puncts bc \<noteq> Some k"
    "map_of lone_puncts b \<noteq> Some k" "keyword_or_ident w \<noteq> k"
  using assms
  by (auto simp: single_puncts_def double_puncts_def lone_puncts_def lang_keywords_def keyword_or_ident_def
      split: option.split dest!: map_of_SomeD)

lemma lexeme_not_eof: "fst (lexeme b r) \<noteq> TkEof"
  using tables_kinds [of TkEof] by (cases rule: lexeme_cases [of b r])
    (auto simp: ident_lexeme_def number_lexeme_def Let_def)

lemma lexeme_string: "fst (lexeme b r) = TkString \<Longrightarrow> snd (lexeme b r) = 1 + str_len r"
  using tables_kinds [of TkString] by (cases rule: lexeme_cases [of b r])
    (auto simp: ident_lexeme_def number_lexeme_def Let_def)

lemma next_token_progress:
  assumes "next_token lx = (t, lx')" "tk_kind t \<noteq> TkEof"
  shows "todo lx' < todo lx"
proof (cases rule: next_token_cases [of lx])
  case (token n b r)
  then show ?thesis using assms lexeme_bounds [of b r] by (auto simp: emit_token_def simp flip: length_rest)
qed (use assms in \<open>simp add: Token_new_def\<close>)

text \<open>A client's loop over the tokens up to the end of the text.\<close>

function lex_all :: "lexer \<Rightarrow> token list" where
  "lex_all lx = (let (t, lx') = next_token lx in if tk_kind t = TkEof then [t] else t # lex_all lx')"
  by pat_completeness auto
termination by (relation "measure todo") (auto dest: next_token_progress [OF sym])

declare lex_all.simps [simp del]

definition span_text :: "string \<Rightarrow> token \<Rightarrow> string" where
  "span_text src t = lx_slice (sp_start (tk_span t)) (sp_end (tk_span t)) src"

fun tiles :: "string \<Rightarrow> nat \<Rightarrow> token list \<Rightarrow> bool" where
  "tiles src p [] = False"
| "tiles src p [t] = (tk_kind t = TkEof \<and> sp_start (tk_span t) = length src \<and> sp_end (tk_span t) = length src
     \<and> trivia (lx_slice p (length src) src))"
| "tiles src p (t # ts) = (tk_kind t \<noteq> TkEof \<and> p \<le> sp_start (tk_span t) \<and> sp_start (tk_span t) < sp_end (tk_span t)
     \<and> sp_end (tk_span t) \<le> length src \<and> trivia (lx_slice p (sp_start (tk_span t)) src)
     \<and> tiles src (sp_end (tk_span t)) ts)"

lemma lx_slice_rest: "lx_slice (lx_i lx) (lx_i lx + n) (lx_src lx) = take n (rest lx)"
  by (simp add: lx_slice_def rest_def drop_take)

lemma lex_all_nonempty: "lex_all lx \<noteq> []"
  by (subst lex_all.simps) (simp add: case_prod_beta Let_def)

lemma lex_all_tiles: "lx_i lx \<le> length (lx_src lx) \<Longrightarrow> tiles (lx_src lx) (lx_i lx) (lex_all lx)"
proof (induction lx rule: lex_all.induct)
  case (1 lx)
  show ?case
  proof (cases rule: next_token_cases [of lx])
    case (eof n)
    have "lx_slice (lx_i lx) (length (lx_src lx)) (lx_src lx) = rest lx" by (simp add: lx_slice_def rest_def)
    with eof 1 show ?thesis by (subst lex_all.simps) (simp add: Token_new_def todo_def)
  next
    case (token n b r)
    let ?k = "fst (lexeme b r)" and ?m = "snd (lexeme b r)"
    have m: "0 < ?m" "?m \<le> 1 + length r" using lexeme_bounds by auto
    have len: "length (rest lx) = n + (1 + length r)"
      using token(1) arg_cong [OF token(3), of length] by (simp add: length_rest)
    then have i: "lx_i lx + n + ?m \<le> length (lx_src lx)" using m 1 by (simp add: length_rest todo_def)
    have e: "emit_token (moved n lx) (lexeme b r) = (Token_new ?k (lx_i lx + n) (lx_i lx + n + ?m), moved (n + ?m) lx)"
      by (simp add: emit_token_def)
    have "tiles (lx_src lx) (lx_i lx + n + ?m) (lex_all (moved (n + ?m) lx))"
      using "1.IH" [OF token(5) [unfolded e, symmetric] refl] i lexeme_not_eof [of b r]
      by (simp add: Token_new_def add.assoc)
    moreover have "lex_all lx = Token_new ?k (lx_i lx + n) (lx_i lx + n + ?m) # lex_all (moved (n + ?m) lx)"
      using lexeme_not_eof [of b r] by (subst lex_all.simps) (simp add: token(5) e Token_new_def)
    ultimately show ?thesis
      using m(1) i token(2) lexeme_not_eof [of b r] lex_all_nonempty [of "moved (n + ?m) lx"]
      by (cases "lex_all (moved (n + ?m) lx)") (simp_all add: Token_new_def lx_slice_rest)
  qed
qed

text \<open>C16: the tokens of a text tile it. From the start of any byte string the lexer ends, with the
  end of file at the end of the text; the tokens before it are non-empty, in order and inside the
  text, and what lies between two of them, before the first and after the last is white space and
  comments only.\<close>

theorem tokens_tile:
  "tiles src 0 (lex_all (lexer_new src))"
  using lex_all_tiles [of "lexer_new src"] by (simp add: lexer_new_def)

section \<open>Kinds and texts\<close>

lemma dropWhile_less: "dropWhile P s = c # t \<Longrightarrow> length (drop n t) < length s"
  using length_dropWhile_le [of P s] by simp

function after_trivia :: "string \<Rightarrow> string" where
  "after_trivia s = (case dropWhile is_space s of
     [] \<Rightarrow> []
   | c # t \<Rightarrow> if c = CHR ''#'' then after_trivia (drop (line_len t) t) else c # t)"
  by pat_completeness auto
termination by (relation "measure length") (simp_all add: dropWhile_less del: length_drop)

declare after_trivia.simps [simp del]

lemma skip_rest: "rest (skip_ws_and_comments lx) = after_trivia (rest lx)"
proof (induction lx rule: skip_ws_and_comments.induct)
  case (1 lx)
  let ?lx = "skip_while is_space lx"
  have r: "rest ?lx = dropWhile is_space (rest lx)" by (simp add: skip_while_moved dropWhile_eq_drop)
  show ?case
  proof (cases "dropWhile is_space (rest lx)")
    case Nil
    with r show ?thesis by (subst skip_ws_and_comments.simps, subst after_trivia.simps) (simp add: Let_def lx_peek_rest del: dropWhile_eq_Nil_conv)
  next
    case (Cons c t)
    have p: "lx_peek ?lx = Some c" by (simp add: lx_peek_rest r Cons)
    have l: "rest (skip_line ?lx) = (if c = CHR 0x0A then t else drop (line_len t) t)"
      by (simp add: skip_line_moved r Cons)
    show ?thesis
    proof (cases "c = CHR ''#''")
      case True
      with 1 p l Cons show ?thesis by (subst skip_ws_and_comments.simps, subst after_trivia.simps) (simp add: Let_def)
    next
      case False
      with p r Cons show ?thesis by (subst skip_ws_and_comments.simps, subst after_trivia.simps) (simp add: Let_def)
    qed
  qed
qed

lemma after_trivia_start: "token_start (after_trivia s)"
proof -
  obtain n where "skip_ws_and_comments (lexer_new s) = moved n (lexer_new s)" "token_start (drop n (rest (lexer_new s)))"
    using skip_trivia by blast
  then show ?thesis using skip_rest [of "lexer_new s"] by (simp add: lexer_new_def rest_def)
qed

lemma after_trivia_id: "token_start s \<Longrightarrow> after_trivia s = s"
  by (cases s) (simp_all add: token_start_def after_trivia.simps)

lemma after_trivia_space: "is_space c \<Longrightarrow> after_trivia (c # s) = after_trivia s"
  by (simp add: after_trivia.simps [of "c # s"] after_trivia.simps [of s])

lemma after_trivia_length: "length (after_trivia s) \<le> length s"
proof (induction s rule: after_trivia.induct)
  case (1 s)
  show ?case
  proof (cases "dropWhile is_space s")
    case (Cons c t)
    have len: "length t < length s" using dropWhile_less [OF Cons, of 0] by simp
    show ?thesis
    proof (cases "c = CHR ''#''")
      case True
      with 1 [OF Cons] len show ?thesis by (subst after_trivia.simps) (simp add: Cons)
    next
      case False
      with len show ?thesis by (subst after_trivia.simps) (simp add: Cons)
    qed
  qed (subst after_trivia.simps, simp del: dropWhile_eq_Nil_conv)
qed

lemma pieces_less: "after_trivia s = b # r \<Longrightarrow> length (drop (snd (lexeme b r)) (b # r)) < length s"
  using after_trivia_length [of s] lexeme_bounds [of b r, THEN conjunct1] lexeme_bounds [of b r, THEN conjunct2] by simp

function pieces :: "string \<Rightarrow> (token_kind \<times> string) list" where
  "pieces s = (case after_trivia s of
     [] \<Rightarrow> [(TkEof, [])]
   | b # r \<Rightarrow> (fst (lexeme b r), take (snd (lexeme b r)) (b # r)) # pieces (drop (snd (lexeme b r)) (b # r)))"
  by pat_completeness auto
termination by (relation "measure length") (simp_all only: in_measure pieces_less, simp_all)

declare pieces.simps [simp del]

definition token_piece :: "string \<Rightarrow> token \<Rightarrow> token_kind \<times> string" where
  "token_piece src t = (tk_kind t, span_text src t)"

lemma next_token_rest:
  "next_token lx = (let lx' = skip_ws_and_comments lx in
     case rest lx' of [] \<Rightarrow> (Token_new TkEof (lx_i lx') (lx_i lx'), lx') | b # r \<Rightarrow> emit_token lx' (lexeme b r))"
  by (cases "rest (skip_ws_and_comments lx)")
    (simp_all add: next_token_def Let_def lx_peek_rest next_after_lexeme [simplified])

lemma skip_src: "lx_src (skip_ws_and_comments lx) = lx_src lx"
  using skip_trivia [of lx] by (metis moved_simps(5))

text \<open>The tokens of a lexer, as kinds and texts, are a function of what is left of the text.\<close>

lemma lex_all_pieces: "map (token_piece (lx_src lx)) (lex_all lx) = pieces (rest lx)"
proof (induction lx rule: lex_all.induct)
  case (1 lx)
  let ?lx = "skip_ws_and_comments lx"
  show ?case
  proof (cases "after_trivia (rest lx)")
    case Nil
    then show ?thesis
      by (subst lex_all.simps, subst pieces.simps)
        (simp add: next_token_rest skip_rest Let_def Token_new_def token_piece_def span_text_def lx_slice_def)
  next
    case (Cons b r)
    let ?n = "snd (lexeme b r)"
    have e: "next_token lx = emit_token ?lx (lexeme b r)" by (simp add: next_token_rest skip_rest Cons Let_def)
    have "map (token_piece (lx_src lx)) (lex_all (moved ?n ?lx)) = pieces (drop ?n (b # r))"
      using "1.IH" [OF e [unfolded emit_token_def, symmetric] refl] lexeme_not_eof [of b r]
      by (simp add: Token_new_def skip_rest Cons skip_src)
    moreover have "token_piece (lx_src lx) (fst (emit_token ?lx (lexeme b r))) = (fst (lexeme b r), take ?n (b # r))"
      using lx_slice_rest [of ?lx ?n] by (simp add: token_piece_def span_text_def emit_token_def Token_new_def skip_src skip_rest Cons)
    ultimately show ?thesis
      using lexeme_not_eof [of b r]
      by (subst lex_all.simps, subst pieces.simps) (simp add: e Cons Let_def, simp add: emit_token_def Token_new_def)
  qed
qed

fun glue :: "string list \<Rightarrow> string" where
  "glue [] = []"
| "glue [w] = w"
| "glue (w # v # ws) = w @ CHR 0x0A # glue (v # ws)"

lemma pieces_Nil: "pieces [] = [(TkEof, [])]"
  by (subst pieces.simps) (simp add: after_trivia.simps)

lemma pieces_nonempty: "pieces s \<noteq> []"
  by (subst pieces.simps) (simp split: list.split)

lemma pieces_glue: "pieces (glue (map snd (butlast (pieces s)))) = pieces s"
proof (induction s rule: pieces.induct)
  case (1 s)
  show ?case
  proof (cases "after_trivia s")
    case Nil
    then show ?thesis by (simp add: pieces.simps [of s] pieces_Nil)
  next
    case (Cons b r)
    obtain k n where l: "lexeme b r = (k, n)" by fastforce
    then have n: "0 < n" "n \<le> 1 + length r" using lexeme_bounds [of b r] by simp_all
    let ?w = "take n (b # r)" and ?ps = "pieces (drop n (b # r))"
    have s: "pieces s = (k, ?w) # ?ps" by (subst pieces.simps) (simp add: Cons l)
    have IH: "pieces (glue (map snd (butlast ?ps))) = ?ps" using 1 [OF Cons] by (simp add: l)
    have w: "?w = b # take (n - 1) r" using n(1) by (cases n) simp_all
    have start: "token_start (b # t)" for t using after_trivia_start [of s] by (simp add: Cons token_start_def)
    have again: "pieces (?w @ x) = (k, ?w) # pieces x"
      if x: "x = [] \<or> (\<exists>y. x = CHR 0x0A # y)" "k = TkString \<longrightarrow> closed r \<or> x = []" for x
    proof -
      have "same_start x (drop (n - 1) r)" using x(1) by (auto simp: same_start_def is_space_def)
      then have "lexeme b (take (n - 1) r @ x) = (k, n)" using lexeme_again [of x b r] l x(2) by simp
      moreover have "take n (?w @ x) = ?w" "drop n (?w @ x) = x" using n(2) by simp_all
      moreover have "?w @ x = b # (take (n - 1) r @ x)" by (simp add: w)
      ultimately show ?thesis by (subst pieces.simps) (simp add: after_trivia_id [OF start])
    qed
    show ?thesis
    proof (cases "butlast ?ps")
      case Nil
      then have "?ps = [(TkEof, [])]"
        using pieces_nonempty [of "drop n (b # r)"] pieces.simps [of "drop n (b # r)"]
        by (auto simp: pieces_nonempty split: list.splits)
      with again [of "[]"] Nil s pieces_Nil show ?thesis by simp
    next
      case (Cons p ps')
      have "k = TkString \<longrightarrow> closed r"
      proof
        assume "k = TkString"
        show "closed r"
        proof (rule ccontr)
          assume "\<not> closed r"
          with str_len_open have "str_len r = length r" by blast
          moreover have "n = 1 + str_len r" using \<open>k = TkString\<close> lexeme_string [of b r] l by simp
          ultimately have "butlast ?ps = []" by (simp add: pieces_Nil)
          with Cons show False by simp
        qed
      qed
      moreover have g: "glue (?w # map snd (butlast ?ps)) = ?w @ CHR 0x0A # glue (map snd (butlast ?ps))" using Cons by simp
      ultimately have "pieces (glue (?w # map snd (butlast ?ps))) = (k, ?w) # pieces (CHR 0x0A # glue (map snd (butlast ?ps)))"
        using again by simp
      also have "pieces (CHR 0x0A # t) = pieces t" for t
        by (subst (1 2) pieces.simps) (simp add: after_trivia_space is_space_def)
      finally show ?thesis using s IH pieces_nonempty [of "drop n (b # r)"] by simp
    qed
  qed
qed

text \<open>C14: the texts of the tokens lex back to the tokens. The token texts of any byte string, put on
  lines of their own without the white space and comments that stood between them, give the same
  sequence of kinds and texts again: no token depends on what surrounded it, and none runs into the next.\<close>

theorem relex:
  "let ts = lex_all (lexer_new src); text' = glue (map (span_text src) (butlast ts))
   in map (token_piece text') (lex_all (lexer_new text')) = map (token_piece src) ts"
proof -
  have p: "map (token_piece x) (lex_all (lexer_new x)) = pieces x" for x
    using lex_all_pieces [of "lexer_new x"] by (simp add: lexer_new_def rest_def)
  have "map (span_text src) (butlast (lex_all (lexer_new src))) = map snd (butlast (pieces src))"
    by (simp add: token_piece_def flip: p map_butlast)
  then show ?thesis by (simp add: Let_def p pieces_glue)
qed

section \<open>Spelling\<close>

definition spellings :: "(token_kind \<times> string) list" where
  "spellings = map (\<lambda>(c, k). (k, [c])) single_puncts @ map (\<lambda>((c, d), k). (k, [c, d])) double_puncts
     @ [(TkAmpBangLBracket, ''&!['')] @ map (\<lambda>(c, k). (k, [c])) lone_puncts @ map (\<lambda>(w, k). (k, w)) lang_keywords"

text \<open>The language of tokens: what a text must look like to be a token of a kind. A word begins with
  a letter or one of the signs that may begin one, and a minus sign begins a word only where it
  begins neither \<open>--\<close> nor a number; a string is open or closed; any other single byte is a token.\<close>

definition number_text :: "string \<Rightarrow> bool" where
  "number_text w \<longleftrightarrow> (\<exists>d ds. (w = d # ds \<or> w = CHR ''-'' # d # ds) \<and> is_digit d \<and> list_all is_number_continue ds)"

definition word_text :: "string \<Rightarrow> bool" where
  "word_text w \<longleftrightarrow> (\<exists>b t. w = b # t \<and> list_all is_ident_continue t
     \<and> (is_ident_start b \<or> b = CHR ''<'' \<or> b = CHR ''>''
        \<or> b = CHR ''-'' \<and> (t = [] \<or> hd t \<noteq> CHR ''-'' \<and> \<not> is_digit (hd t))))"

definition other_byte :: "char \<Rightarrow> bool" where
  "other_byte b \<longleftrightarrow> \<not> is_ident_start b \<and> \<not> is_digit b \<and> b \<noteq> CHR 0x22 \<and> b \<noteq> CHR ''<'' \<and> b \<noteq> CHR ''>'' \<and> b \<noteq> CHR ''-''
     \<and> [b] \<notin> snd ` set spellings"

definition string_text :: "string \<Rightarrow> bool" where
  "string_text w \<longleftrightarrow> (\<exists>body. w = CHR 0x22 # body \<and> str_len body = length body)"

definition is_token :: "token_kind \<Rightarrow> string \<Rightarrow> bool" where
  "is_token k w \<longleftrightarrow> (k, w) \<in> set spellings
     \<or> k = TkString \<and> string_text w
     \<or> k = TkNumber \<and> number_text w
     \<or> k = TkIdent \<and> w \<notin> fst ` set lang_keywords \<and> (word_text w \<or> (\<exists>b. w = [b] \<and> other_byte b))"

text \<open>The token at the front of a text: every token that is a prefix of the text is shorter, or the
  very same with the same kind.\<close>

definition longest_token :: "token_kind \<Rightarrow> string \<Rightarrow> string \<Rightarrow> bool" where
  "longest_token k w s \<longleftrightarrow> is_token k w \<and> prefix w s
     \<and> (\<forall>k' v. is_token k' v \<longrightarrow> prefix v s \<longrightarrow> length v < length w \<or> v = w \<and> k' = k)"

lemma spellings_lists:
  "list_all (\<lambda>(c, k). map_of single_puncts c = Some k) single_puncts"
  "list_all (\<lambda>((c, d), k). map_of double_puncts (c, d) = Some k \<and> map_of single_puncts c = None) double_puncts"
  "list_all (\<lambda>(c, k). map_of lone_puncts c = Some k \<and> map_of single_puncts c = None) lone_puncts"
  "list_all (\<lambda>(w, k). map_of lang_keywords w = Some k \<and> list_all is_ident_continue (tl w) \<and> w \<noteq> [] \<and> is_ident_start (hd w)) lang_keywords"
  by code_simp+

lemma spellings_cases:
  assumes "(k, w) \<in> set spellings"
  obtains (single) c where "w = [c]" "map_of single_puncts c = Some k"
  | (double) c d where "w = [c, d]" "map_of double_puncts (c, d) = Some k" "map_of single_puncts c = None"
  | (triple) "w = ''&![''" "k = TkAmpBangLBracket"
  | (lone) c where "w = [c]" "map_of lone_puncts c = Some k" "map_of single_puncts c = None"
  | (keyword) b t where "w = b # t" "map_of lang_keywords w = Some k" "list_all is_ident_continue t" "is_ident_start b"
proof -
  from assms consider c where "w = [c]" "(c, k) \<in> set single_puncts" | c d where "w = [c, d]" "((c, d), k) \<in> set double_puncts"
    | "w = ''&![''" "k = TkAmpBangLBracket" | c where "w = [c]" "(c, k) \<in> set lone_puncts" | "(w, k) \<in> set lang_keywords"
    unfolding spellings_def by auto
  then show thesis
  proof cases
    case (1 c)
    with spellings_lists(1) single show thesis by (auto simp: list_all_iff)
  next
    case (2 c d)
    with spellings_lists(2) double show thesis by (auto simp: list_all_iff)
  next
    case 3
    with triple show thesis by blast
  next
    case (4 c)
    with spellings_lists(3) lone show thesis by (auto simp: list_all_iff)
  next
    case 5
    with spellings_lists(4) have "map_of lang_keywords w = Some k" "list_all is_ident_continue (tl w)" "w \<noteq> []" "is_ident_start (hd w)"
      by (auto simp: list_all_iff)
    with keyword show thesis by (cases w) auto
  qed
qed

lemma spellings_single: "map_of single_puncts c = Some k \<Longrightarrow> (k, [c]) \<in> set spellings"
  and spellings_double: "map_of double_puncts (c, d) = Some k \<Longrightarrow> (k, [c, d]) \<in> set spellings"
  and spellings_lone: "map_of lone_puncts c = Some k \<Longrightarrow> (k, [c]) \<in> set spellings"
  and spellings_keyword: "map_of lang_keywords w = Some k \<Longrightarrow> (k, w) \<in> set spellings"
  unfolding spellings_def by (force dest!: map_of_SomeD)+

lemma all_takeWhile: "list_all P (takeWhile P r)"
  by (auto simp: list_all_iff dest: set_takeWhileD)

lemma take_lexeme: "take (1 + length (takeWhile P r)) (b # r) = b # takeWhile P r"
  by (simp flip: takeWhile_eq_take)

text \<open>What the lexer takes is a token.\<close>

lemma lexeme_is_token: "is_token (fst (lexeme b r)) (take (snd (lexeme b r)) (b # r))"
proof (cases rule: lexeme_cases [of b r])
  case (num)
  let ?t = "takeWhile is_number_continue r"
  have "number_text (b # ?t)"
  proof (cases "is_digit b")
    case True
    then show ?thesis unfolding number_text_def using all_takeWhile by blast
  next
    case False
    then obtain d s where "b = CHR ''-''" "r = d # s" "is_digit d" using num(5) by (cases r) auto
    then have "b # ?t = CHR ''-'' # d # takeWhile is_number_continue s" using digit_number by simp
    with \<open>is_digit d\<close> show ?thesis unfolding number_text_def
      by (intro exI [of _ d] exI [of _ "takeWhile is_number_continue s"]) (simp add: all_takeWhile)
  qed
  then show ?thesis unfolding num(6) number_lexeme_def fst_conv snd_conv take_lexeme by (simp add: is_token_def)
next
  case ident
  let ?t = "takeWhile is_ident_continue r"
  have l: "lexeme b r = (keyword_or_ident (b # ?t), 1 + length ?t)" using ident(7) by (simp add: ident_lexeme_def Let_def)
  have "?t = [] \<or> hd ?t = hd r \<and> r \<noteq> []" by (cases r) auto
  moreover have "hd r \<noteq> CHR ''-''" if "b = CHR ''-''" "r \<noteq> []"
    using ident(2) that by (cases r) (auto simp: punct2_def double_puncts_def)
  ultimately have "word_text (b # ?t)"
    unfolding word_text_def using ident(5,6) by (auto simp: all_takeWhile)
  then show ?thesis
    unfolding l fst_conv snd_conv take_lexeme keyword_or_ident_def is_token_def
    by (auto split: option.split intro: spellings_keyword dest: weak_map_of_SomeI)
next
  case str
  then show ?thesis using str_len_le [of r] str_len_again [of r "[]"]
    by (auto simp: is_token_def string_text_def)
next
  case other
  have "(k, [b]) \<notin> set spellings" for k
  proof
    assume "(k, [b]) \<in> set spellings"
    then show False by (cases rule: spellings_cases) (use other in auto)
  qed
  then have "other_byte b" using other by (auto simp: other_byte_def)
  moreover have "[b] \<notin> fst ` set lang_keywords" by (simp add: lang_keywords_def)
  ultimately show ?thesis using other by (simp add: is_token_def)
next
  case (single k)
  then show ?thesis using spellings_single by (simp add: is_token_def)
next
  case (pair c s k)
  then show ?thesis using spellings_double by (simp add: is_token_def)
next
  case (triple s)
  have "(TkAmpBangLBracket, ''&!['') \<in> set spellings" by (simp add: spellings_def)
  with triple show ?thesis by (simp add: is_token_def)
next
  case (lone k)
  then show ?thesis using spellings_lone by (simp add: is_token_def)
qed

text \<open>No token that starts the text is longer than what the lexer takes, and one of the same
  length has the same kind.\<close>

definition covered :: "token_kind \<Rightarrow> nat \<Rightarrow> token_kind \<times> nat \<Rightarrow> bool" where
  "covered k n l \<longleftrightarrow> n < snd l \<or> n = snd l \<and> k = fst l"

lemma str_len_mono: "str_len r \<le> str_len (r @ f)"
proof (induction r rule: str_len.induct)
  case (2 c)
  then show ?case by (cases f) auto
qed auto

lemma punct2_long: "punct2 b r = Some k \<Longrightarrow> map_of single_puncts b = None \<Longrightarrow> 2 \<le> snd (lexeme b r)"
  by (simp add: lexeme_eq_tab lexeme_tab_def)

text \<open>Which bytes the keys of the tables are.\<close>

lemma start_lists:
  "list_all (\<lambda>(c, k). \<not> is_ident_start c \<and> \<not> is_digit c \<and> c \<notin> {CHR ''<'', CHR ''>'', CHR ''-'', CHR 0x22}) single_puncts"
  "list_all (\<lambda>(c, k). \<not> is_ident_start c \<and> \<not> is_digit c \<and> c \<notin> {CHR ''<'', CHR ''>'', CHR ''-'', CHR 0x22}) lone_puncts"
  "list_all (\<lambda>((c, d), k). \<not> is_digit c \<and> c \<noteq> CHR 0x22 \<and> (is_ident_continue d \<longrightarrow> c \<in> {CHR ''-'', CHR ''&''} \<and> (c = CHR ''-'' \<longrightarrow> d = CHR ''-''))) double_puncts"
  "\<not> is_ident_start (CHR ''-'') \<and> \<not> is_ident_start (CHR ''&'') \<and> \<not> is_ident_start (CHR 0x22) \<and> \<not> is_digit (CHR 0x22)
    \<and> \<not> is_digit (CHR ''<'') \<and> \<not> is_digit (CHR ''>'') \<and> \<not> is_digit (CHR ''-'')"
  by code_simp+

lemma table_starts:
  "map_of single_puncts b = Some k \<Longrightarrow> \<not> is_ident_start b \<and> \<not> is_digit b \<and> b \<notin> {CHR ''<'', CHR ''>'', CHR ''-'', CHR 0x22}"
  "map_of lone_puncts b = Some k \<Longrightarrow> \<not> is_ident_start b \<and> \<not> is_digit b \<and> b \<notin> {CHR ''<'', CHR ''>'', CHR ''-'', CHR 0x22}"
  "map_of double_puncts (b, d) = Some k \<Longrightarrow> \<not> is_digit b \<and> b \<noteq> CHR 0x22
     \<and> (is_ident_continue d \<longrightarrow> b \<in> {CHR ''-'', CHR ''&''} \<and> (b = CHR ''-'' \<longrightarrow> d = CHR ''-''))"
  using bspec [OF start_lists(1) [unfolded list_all_iff], of "(b, k)"] bspec [OF start_lists(2) [unfolded list_all_iff], of "(b, k)"]
    bspec [OF start_lists(3) [unfolded list_all_iff], of "((b, d), k)"]
  by (auto dest!: map_of_SomeD)

lemma ident_start_sign:
  "is_ident_start b \<or> b = CHR ''<'' \<or> b = CHR ''>'' \<or> b = CHR ''-'' \<Longrightarrow> map_of single_puncts b = None \<and> map_of lone_puncts b = None
     \<and> b \<noteq> CHR 0x22 \<and> \<not> is_digit b"
  using table_starts(1,2) [of b] start_lists(4) digit_not_ident [of b]
  by (cases "map_of single_puncts b"; cases "map_of lone_puncts b"; auto)

lemma covered_word:
  assumes "word_text (b # t)"
  shows "covered (keyword_or_ident (b # t)) (1 + length t) (lexeme b (t @ f))"
proof -
  have b: "is_ident_start b \<or> b = CHR ''<'' \<or> b = CHR ''>'' \<or> b = CHR ''-''" and c: "list_all is_ident_continue t"
    and m: "b = CHR ''-'' \<Longrightarrow> t \<noteq> [] \<Longrightarrow> hd t \<noteq> CHR ''-'' \<and> \<not> is_digit (hd t)"
    using assms start_lists(4) by (auto simp: word_text_def)
  note s = ident_start_sign [OF b]
  have i: "covered (keyword_or_ident (b # t)) (1 + length t) (ident_lexeme b (t @ f))"
    using c takeWhile_append2 [of t is_ident_continue f]
    by (auto simp: ident_lexeme_def covered_def Let_def list_all_iff)
  show ?thesis
  proof (cases "punct2 b (t @ f) = None \<and> \<not> (b = CHR ''-'' \<and> t @ f \<noteq> [] \<and> is_digit (hd (t @ f)))")
    case True
    then have "lexeme b (t @ f) = ident_lexeme b (t @ f)" using s b by (auto simp: lexeme_eq_tab lexeme_tab_def)
    with i show ?thesis by simp
  next
    case False
    have t: "t = []"
    proof (rule ccontr)
      assume "t \<noteq> []"
      then obtain x u where t: "t = x # u" by (cases t) auto
      with c have "is_ident_continue x" by simp
      then have "punct2 b (t @ f) = None"
        using b m t table_starts(3) [of b x] start_lists(4) by (cases "map_of double_puncts (b, x)") (auto simp: punct2_def)
      with False m t show False by auto
    qed
    have "2 \<le> snd (lexeme b (t @ f))"
    proof (cases "punct2 b (t @ f) = None")
      case True
      with False obtain d u where "b = CHR ''-''" "t @ f = d # u" "is_digit d" by (cases "t @ f") auto
      with True s show ?thesis by (simp add: lexeme_eq_tab lexeme_tab_def number_lexeme_def digit_number)
    qed (use punct2_long s in force)
    with t show ?thesis by (simp add: covered_def)
  qed
qed

lemma digit_start: "is_digit b \<Longrightarrow> map_of single_puncts b = None \<and> map_of lone_puncts b = None \<and> b \<noteq> CHR 0x22
    \<and> b \<noteq> CHR ''-'' \<and> punct2 b r = None"
  using table_starts(1,2) [of b] table_starts(3) [of b "hd r"] start_lists(4)
  by (cases "map_of single_puncts b"; cases "map_of lone_puncts b"; cases r; cases "map_of double_puncts (b, hd r)";
      auto simp: punct2_def)

lemma covered_number:
  assumes "number_text (b # t)"
  shows "covered TkNumber (1 + length t) (lexeme b (t @ f))"
proof -
  have "lexeme b (t @ f) = number_lexeme (t @ f) \<and> list_all is_number_continue t"
  proof (cases "is_digit b")
    case True
    with assms digit_start [OF True] show ?thesis
      by (auto simp: number_text_def lexeme_eq_tab lexeme_tab_def is_digit_def)
  next
    case False
    with assms obtain d ds where "b = CHR ''-''" "t = d # ds" "is_digit d" "list_all is_number_continue ds"
      by (auto simp: number_text_def)
    then show ?thesis using digit_number [of d]
      by (auto simp: lexeme_eq_tab lexeme_tab_def single_puncts_def lone_puncts_def punct2_def double_puncts_def is_digit_def)
  qed
  then show ?thesis
    using takeWhile_append2 [of t is_number_continue f] by (auto simp: number_lexeme_def covered_def list_all_iff)
qed

lemma covered_spelling:
  assumes "(k, b # t) \<in> set spellings"
  shows "covered k (1 + length t) (lexeme b (t @ f))"
  using assms
proof (cases rule: spellings_cases)
  case (double c d)
  then show ?thesis by (auto simp: covered_def lexeme_eq_tab lexeme_tab_def punct2_def)
next
  case triple
  then show ?thesis by (simp add: covered_def lexeme_def single_puncts_def)
next
  case (lone c)
  then show ?thesis using punct2_long [of b f]
    by (cases "punct2 b f") (auto simp: covered_def lexeme_eq_tab lexeme_tab_def)
next
  case (keyword c u)
  then have "keyword_or_ident (b # t) = k" "word_text (b # t)" by (auto simp: keyword_or_ident_def word_text_def)
  then show ?thesis using covered_word by metis
qed (auto simp: covered_def lexeme_def)

lemma token_covered:
  assumes "is_token k (b # t)"
  shows "covered k (1 + length t) (lexeme b (t @ f))"
proof -
  from assms consider "(k, b # t) \<in> set spellings" | "k = TkString" "string_text (b # t)" | "k = TkNumber" "number_text (b # t)"
    | "k = TkIdent" "b # t \<notin> fst ` set lang_keywords" "word_text (b # t)" | "k = TkIdent" "t = []" "other_byte b"
    by (auto simp: is_token_def)
  then show ?thesis
  proof cases
    case 2
    then have "b = CHR 0x22" "str_len t = length t" by (auto simp: string_text_def)
    with 2 show ?thesis using str_len_mono [of t f] by (auto simp: covered_def lexeme_def single_puncts_def)
  next
    case 4
    then have "keyword_or_ident (b # t) = TkIdent"
      by (auto simp: keyword_or_ident_def split: option.split dest!: map_of_SomeD) (force)
    with 4 covered_word [OF 4(3)] show ?thesis by metis
  next
    case 5
    then have n: "map_of single_puncts b = None" "map_of lone_puncts b = None"
      using spellings_single [of b] spellings_lone [of b] by (cases "map_of single_puncts b"; cases "map_of lone_puncts b"; force simp: other_byte_def)+
    show ?thesis
    proof (cases "punct2 b f = None")
      case True
      with 5 n show ?thesis by (auto simp: covered_def lexeme_eq_tab lexeme_tab_def other_byte_def)
    next
      case False
      then have "2 \<le> snd (lexeme b f)" using n punct2_long [of b f] by auto
      with 5 show ?thesis by (simp add: covered_def)
    qed
  next
    case 1
    then show ?thesis by (rule covered_spelling)
  next
    case 3
    then show ?thesis using covered_number by simp
  qed
qed

lemma token_nonempty: "is_token k w \<Longrightarrow> w \<noteq> []"
  by (auto simp: is_token_def string_text_def number_text_def word_text_def elim: spellings_cases)

lemma lexeme_longest: "longest_token (fst (lexeme b r)) (take (snd (lexeme b r)) (b # r)) (b # r)"
  unfolding longest_token_def
proof (intro conjI allI impI lexeme_is_token take_is_prefix)
  fix k v assume v: "is_token k v" "prefix v (b # r)"
  have len: "length (take (snd (lexeme b r)) (b # r)) = snd (lexeme b r)"
    using lexeme_bounds [of b r] by simp
  from v obtain t f where t: "v = b # t" "r = t @ f"
    using token_nonempty by (cases v) (auto elim: prefixE)
  from token_covered [of k b t f] v(1) have c: "covered k (length v) (lexeme b r)" by (simp add: t)
  then show "length v < length (take (snd (lexeme b r)) (b # r)) \<or> v = take (snd (lexeme b r)) (b # r) \<and> k = fst (lexeme b r)"
    unfolding len covered_def using v(2) by (auto simp: prefix_def)
qed

lemma lex_all_longest:
  "t \<in> set (lex_all lx) \<Longrightarrow> tk_kind t \<noteq> TkEof
    \<Longrightarrow> longest_token (tk_kind t) (span_text (lx_src lx) t) (drop (sp_start (tk_span t)) (lx_src lx))"
proof (induction lx rule: lex_all.induct)
  case (1 lx)
  let ?lx = "skip_ws_and_comments lx"
  show ?case
  proof (cases "after_trivia (rest lx)")
    case Nil
    then have "next_token lx = (Token_new TkEof (lx_i ?lx) (lx_i ?lx), ?lx)" by (simp add: next_token_rest skip_rest Let_def)
    with "1.prems" show ?thesis by (subst (asm) lex_all.simps) (simp add: Token_new_def)
  next
    case (Cons b r)
    let ?n = "snd (lexeme b r)" and ?k = "fst (lexeme b r)"
    have e: "next_token lx = (Token_new ?k (lx_i ?lx) (lx_i ?lx + ?n), moved ?n ?lx)"
      by (simp add: next_token_rest skip_rest Cons Let_def emit_token_def)
    have "lex_all lx = Token_new ?k (lx_i ?lx) (lx_i ?lx + ?n) # lex_all (moved ?n ?lx)"
      using lexeme_not_eof [of b r] by (subst lex_all.simps) (simp add: e Token_new_def)
    with "1.prems" consider "t = Token_new ?k (lx_i ?lx) (lx_i ?lx + ?n)" | "t \<in> set (lex_all (moved ?n ?lx))" by auto
    then show ?thesis
    proof cases
      case 1
      have "drop (lx_i ?lx) (lx_src lx) = b # r"
        using skip_rest [of lx] by (simp add: rest_def [of ?lx] Cons skip_src)
      then show ?thesis
        using lexeme_longest [of b r] lx_slice_rest [of ?lx ?n]
        by (simp add: 1 Token_new_def span_text_def skip_rest Cons skip_src)
    next
      case 2
      then show ?thesis using "1.IH" [OF e [symmetric] refl] lexeme_not_eof [of b r] "1.prems"(2)
        by (simp add: Token_new_def skip_src)
    qed
  qed
qed

text \<open>C15: every token is the longest one that starts where it does, and has the kind of its text.
  The language of tokens is \<open>is_token\<close>: the spellings of punctuation and keywords, strings,
  numbers, words that are no keyword, and other single bytes. For every token before the end of file, every
  prefix of the text from the token's start that is a token of any kind is shorter than it, or is
  the token itself with its kind. So no operator is split, no word or number is cut short, and no
  keyword is cut out of a longer word.\<close>

theorem tokens_longest:
  assumes "t \<in> set (lex_all (lexer_new src))" "tk_kind t \<noteq> TkEof"
  shows "longest_token (tk_kind t) (span_text src t) (drop (sp_start (tk_span t)) src)"
  using lex_all_longest [OF assms] by (simp add: lexer_new_def)

lemma tokens_longest_witness:
  "\<exists>t. t \<in> set (lex_all (lexer_new ''end ->'')) \<and> tk_kind t = TkKwEnd
    \<and> longest_token TkKwEnd (span_text ''end ->'' t) (drop (sp_start (tk_span t)) ''end ->'')"
proof -
  have "pieces ''end ->'' = (TkKwEnd, ''end'') # pieces '' ->''"
    by (subst pieces.simps)
      (simp add: after_trivia.simps is_space_def lexeme_def single_puncts_def is_ident_start_def in_chars_def ident_lexeme_def
        is_ident_continue_def is_digit_def keyword_or_ident_def lang_keywords_def Let_def)
  then have "(TkKwEnd, ''end'') \<in> token_piece ''end ->'' ` set (lex_all (lexer_new ''end ->''))"
    using lex_all_pieces [of "lexer_new ''end ->''"] by (simp add: lexer_new_def rest_def flip: list.set_map)
  then obtain t where t: "t \<in> set (lex_all (lexer_new ''end ->''))" "tk_kind t = TkKwEnd" by (auto simp: token_piece_def)
  with tokens_longest [OF t(1)] show ?thesis by auto
qed

end
