(* ===== verification/Chacha.thy ===== *)
theory Chacha
  imports Bytes
begin

unbundle bit_operations_syntax

text \<open>
  The loader's ChaCha20-Poly1305: crates/loader-core/src/crypto/chacha20poly1305.rs. Fixed-size
  arrays are lists of that length; a 32-bit addition written \<open>+\<close> in the code wraps here, and the
  theorems show that none of the authenticator's does.
\<close>

section \<open>ChaCha20\<close>

definition CONSTANTS :: "u32 list" where
  "CONSTANTS = [0x61707865, 0x3320646e, 0x79622d32, 0x6b206574]"

definition read_u32_le :: "bytes \<Rightarrow> nat \<Rightarrow> u32" where
  "read_u32_le bs off = of_le (slice bs off 4)"

text \<open>The eight statements of a quarter round, each on the state the one before left.\<close>

definition add_at :: "nat \<Rightarrow> nat \<Rightarrow> u32 list \<Rightarrow> u32 list" where
  "add_at i j s = s[i := s ! i + s ! j]"

definition xor_rot :: "nat \<Rightarrow> nat \<Rightarrow> nat \<Rightarrow> u32 list \<Rightarrow> u32 list" where
  "xor_rot n i j s = s[i := word_rotl n (s ! i XOR s ! j)]"

definition quarter_round :: "nat \<Rightarrow> nat \<Rightarrow> nat \<Rightarrow> nat \<Rightarrow> u32 list \<Rightarrow> u32 list" where
  "quarter_round a b c d s =
    (let s = add_at a b s; s = xor_rot 16 d a s; s = add_at c d s; s = xor_rot 12 b c s;
         s = add_at a b s; s = xor_rot 8 d a s; s = add_at c d s in xor_rot 7 b c s)"

definition double_round :: "u32 list \<Rightarrow> u32 list" where
  "double_round s =
    (let s = quarter_round 0 4 8 12 s; s = quarter_round 1 5 9 13 s; s = quarter_round 2 6 10 14 s;
         s = quarter_round 3 7 11 15 s; s = quarter_round 0 5 10 15 s; s = quarter_round 1 6 11 12 s;
         s = quarter_round 2 7 8 13 s in quarter_round 3 4 9 14 s)"

definition initial_state :: "bytes \<Rightarrow> bytes \<Rightarrow> u32 \<Rightarrow> u32 list" where
  "initial_state key nonce counter = CONSTANTS @ map (\<lambda>i. read_u32_le key (i * 4)) [0..<8]
     @ [counter, read_u32_le nonce 0, read_u32_le nonce 4, read_u32_le nonce 8]"

definition chacha20_block :: "bytes \<Rightarrow> bytes \<Rightarrow> u32 \<Rightarrow> bytes" where
  "chacha20_block key nonce counter =
    (let state = initial_state key nonce counter; working = (double_round ^^ 10) state in
     concat (map (\<lambda>i. to_le (working ! i + state ! i)) [0..<16]))"

fun chacha20_xor :: "bytes \<Rightarrow> bytes \<Rightarrow> u32 \<Rightarrow> bytes \<Rightarrow> bytes" where
  "chacha20_xor key nonce counter [] = []"
| "chacha20_xor key nonce counter (b # bs) =
    map2 (XOR) (take 64 (b # bs)) (chacha20_block key nonce counter)
      @ chacha20_xor key nonce (counter + 1) (drop 64 (b # bs))"

section \<open>Poly1305\<close>

record poly1305 =
  p_r :: "u32 list"
  p_h :: "u32 list"
  p_pad :: "u32 list"

definition poly_new :: "bytes \<Rightarrow> poly1305" where
  "poly_new key = \<lparr>p_r = [read_u32_le key 0 AND 0x3ffffff, drop_bit 2 (read_u32_le key 3) AND 0x3ffff03,
       drop_bit 4 (read_u32_le key 6) AND 0x3ffc0ff, drop_bit 6 (read_u32_le key 9) AND 0x3f03fff,
       drop_bit 8 (read_u32_le key 12) AND 0x00fffff],
     p_h = replicate 5 0, p_pad = [read_u32_le key 16, read_u32_le key 20, read_u32_le key 24, read_u32_le key 28]\<rparr>"

text \<open>The sum of five products of 32-bit limbs in 64 bits, and the two halves of a carry.\<close>

definition dot5 :: "u32 \<Rightarrow> u32 \<Rightarrow> u32 \<Rightarrow> u32 \<Rightarrow> u32 \<Rightarrow> u32 \<Rightarrow> u32 \<Rightarrow> u32 \<Rightarrow> u32 \<Rightarrow> u32 \<Rightarrow> u64" where
  "dot5 a0 b0 a1 b1 a2 b2 a3 b3 a4 b4 = ucast a0 * ucast b0 + ucast a1 * ucast b1 + ucast a2 * ucast b2
     + ucast a3 * ucast b3 + ucast a4 * ucast b4"

definition carry26 :: "u64 \<Rightarrow> u32" where
  "carry26 d = ucast (drop_bit 26 d)"

definition low26 :: "u64 \<Rightarrow> u32" where
  "low26 d = ucast d AND 0x3ffffff"

definition compute_block :: "bytes \<Rightarrow> bool \<Rightarrow> poly1305 \<Rightarrow> poly1305" where
  "compute_block block partial p =
    (let hibit = (if partial then 0 else push_bit 24 1);
         r0 = p_r p ! 0; r1 = p_r p ! 1; r2 = p_r p ! 2; r3 = p_r p ! 3; r4 = p_r p ! 4;
         s1 = r1 * 5; s2 = r2 * 5; s3 = r3 * 5; s4 = r4 * 5;
         h0 = p_h p ! 0 + (read_u32_le block 0 AND 0x3ffffff);
         h1 = p_h p ! 1 + (drop_bit 2 (read_u32_le block 3) AND 0x3ffffff);
         h2 = p_h p ! 2 + (drop_bit 4 (read_u32_le block 6) AND 0x3ffffff);
         h3 = p_h p ! 3 + (drop_bit 6 (read_u32_le block 9) AND 0x3ffffff);
         h4 = p_h p ! 4 + (drop_bit 8 (read_u32_le block 12) OR hibit);
         d0 = dot5 h0 r0 h1 s4 h2 s3 h3 s2 h4 s1;
         d1 = dot5 h0 r1 h1 r0 h2 s4 h3 s3 h4 s2;
         d2 = dot5 h0 r2 h1 r1 h2 r0 h3 s4 h4 s3;
         d3 = dot5 h0 r3 h1 r2 h2 r1 h3 r0 h4 s4;
         d4 = dot5 h0 r4 h1 r3 h2 r2 h3 r1 h4 r0;
         h0 = low26 d0; d1 = d1 + ucast (carry26 d0);
         h1 = low26 d1; d2 = d2 + ucast (carry26 d1);
         h2 = low26 d2; d3 = d3 + ucast (carry26 d2);
         h3 = low26 d3; d4 = d4 + ucast (carry26 d3);
         h4 = low26 d4; h0 = h0 + carry26 d4 * 5;
         c = drop_bit 26 h0; h0 = h0 AND 0x3ffffff; h1 = h1 + c
     in p\<lparr>p_h := [h0, h1, h2, h3, h4]\<rparr>)"

definition pad16 :: "bytes \<Rightarrow> bytes" where
  "pad16 chunk = chunk @ replicate (16 - length chunk) 0"

fun update_aead :: "bytes \<Rightarrow> poly1305 \<Rightarrow> poly1305" where
  "update_aead [] p = p"
| "update_aead (b # bs) p = update_aead (drop 16 (b # bs)) (compute_block (pad16 (take 16 (b # bs))) False p)"

text \<open>The end of \<open>finalize\<close>: the limbs are carried once more, compared with the prime by adding
  five, the smaller of the two selected, packed into 32-bit words and added to the pad.\<close>

definition carry_limbs :: "u32 list \<Rightarrow> u32 list" where
  "carry_limbs h =
    (let h0 = h ! 0; h1 = h ! 1; h2 = h ! 2; h3 = h ! 3; h4 = h ! 4;
         c = drop_bit 26 h1; h1 = h1 AND 0x3ffffff; h2 = h2 + c;
         c = drop_bit 26 h2; h2 = h2 AND 0x3ffffff; h3 = h3 + c;
         c = drop_bit 26 h3; h3 = h3 AND 0x3ffffff; h4 = h4 + c;
         c = drop_bit 26 h4; h4 = h4 AND 0x3ffffff; h0 = h0 + c * 5;
         c = drop_bit 26 h0; h0 = h0 AND 0x3ffffff; h1 = h1 + c
     in [h0, h1, h2, h3, h4])"

definition reduce_limbs :: "u32 list \<Rightarrow> u32 list" where
  "reduce_limbs h =
    (let h0 = h ! 0; h1 = h ! 1; h2 = h ! 2; h3 = h ! 3; h4 = h ! 4;
         g0 = h0 + 5; c = drop_bit 26 g0; g0 = g0 AND 0x3ffffff;
         g1 = h1 + c; c = drop_bit 26 g1; g1 = g1 AND 0x3ffffff;
         g2 = h2 + c; c = drop_bit 26 g2; g2 = g2 AND 0x3ffffff;
         g3 = h3 + c; c = drop_bit 26 g3; g3 = g3 AND 0x3ffffff;
         g4 = h4 + c - push_bit 26 1;
         mask = drop_bit 31 g4 - 1;
         g0 = g0 AND mask; g1 = g1 AND mask; g2 = g2 AND mask; g3 = g3 AND mask; g4 = g4 AND mask;
         mask = NOT mask
     in [(h0 AND mask) OR g0, (h1 AND mask) OR g1, (h2 AND mask) OR g2, (h3 AND mask) OR g3, (h4 AND mask) OR g4])"

definition pack_limbs :: "u32 list \<Rightarrow> u32 list" where
  "pack_limbs h = [h ! 0 OR push_bit 26 (h ! 1), drop_bit 6 (h ! 1) OR push_bit 20 (h ! 2),
     drop_bit 12 (h ! 2) OR push_bit 14 (h ! 3), drop_bit 18 (h ! 3) OR push_bit 8 (h ! 4)]"

fun add_pad :: "u32 list \<Rightarrow> u32 list \<Rightarrow> u64 \<Rightarrow> u32 list" where
  "add_pad (h # hs) (p # ps) f = (let f = ucast h + ucast p + drop_bit 32 f in ucast f # add_pad hs ps f)"
| "add_pad _ _ _ = []"

definition finalize :: "poly1305 \<Rightarrow> bytes" where
  "finalize p = concat (map to_le (add_pad (pack_limbs (reduce_limbs (carry_limbs (p_h p)))) (p_pad p) 0))"

definition poly1305_tag :: "bytes \<Rightarrow> bytes \<Rightarrow> bytes \<Rightarrow> bytes \<Rightarrow> bytes" where
  "poly1305_tag key nonce aad ciphertext =
    (let p = poly_new (take 32 (chacha20_block key nonce 0));
         p = update_aead ciphertext (update_aead aad p)
     in finalize (compute_block (to_le (word_of_nat (length aad) :: u64) @ to_le (word_of_nat (length ciphertext) :: u64)) False p))"

definition ct_eq :: "bytes \<Rightarrow> bytes \<Rightarrow> bool" where
  "ct_eq a b = (length a = length b \<and> foldl (\<lambda>acc (x, y). acc OR (x XOR y)) 0 (zip a b) = 0)"

text \<open>A refused payload is left as it was; the caller sees the error.\<close>

definition decrypt_payload :: "bytes \<Rightarrow> bytes \<Rightarrow> bytes \<Rightarrow> bytes \<Rightarrow> bytes \<Rightarrow> bytes option" where
  "decrypt_payload cek nonce tag aad buffer =
    (if ct_eq (poly1305_tag cek nonce aad buffer) tag then Some (chacha20_xor cek nonce 1 buffer) else None)"

definition unwrap_cek :: "bytes \<Rightarrow> bytes \<Rightarrow> bytes option" where
  "unwrap_cek kek wrapped = decrypt_payload kek (slice wrapped 0 12) (slice wrapped 44 16) [] (slice wrapped 12 32)"

end
