(* ===== verification/PolyProps.thy ===== *)
theory PolyProps
  imports Chacha
begin

text \<open>
  ChaCha20-Poly1305: the limb arithmetic of the authenticator computes the polynomial modulo
  \<open>2 ^ 130 - 5\<close> without overflowing, and decryption inverts encryption and admits nothing but
  what carries the right tag.
\<close>

section \<open>Bytes as numbers\<close>

fun num :: "bytes \<Rightarrow> int" where
  "num [] = 0"
| "num (b # bs) = uint b + 256 * num bs"

lemma num_bounds: "0 \<le> num bs \<and> num bs < 256 ^ length bs"
proof (induction bs)
  case (Cons b bs)
  have "0 \<le> uint b" "uint b < 256" using uint_lt2p [of b] by simp_all
  with Cons show ?case by simp
qed simp

lemma num_append: "num (xs @ ys) = num xs + 256 ^ length xs * num ys"
  by (induction xs) (simp_all add: algebra_simps)

lemma num_zeros [simp]: "num (replicate n 0) = 0"
  by (induction n) simp_all

lemma num_take: "num (take n bs) = num bs mod 256 ^ n"
proof (cases "n \<le> length bs")
  case True
  have "num bs = num (take n bs) + 256 ^ n * num (drop n bs)"
    using num_append [of "take n bs" "drop n bs"] True by simp
  moreover have "num (take n bs) < 256 ^ n" "0 \<le> num (take n bs)"
    using num_bounds [of "take n bs"] True by simp_all
  ultimately show ?thesis by simp
next
  case False
  then have "num bs < 256 ^ n"
    using num_bounds [of bs] by (intro less_le_trans [OF _ power_increasing [of "length bs" n]]) auto
  with False num_bounds [of bs] show ?thesis by simp
qed

lemma num_drop: "num (drop n bs) = num bs div 256 ^ n"
proof (cases "n \<le> length bs")
  case True
  have "num bs = num (take n bs) + 256 ^ n * num (drop n bs)"
    using num_append [of "take n bs" "drop n bs"] True by simp
  moreover have "num (take n bs) < 256 ^ n" "0 \<le> num (take n bs)"
    using num_bounds [of "take n bs"] True by simp_all
  ultimately show ?thesis by simp
next
  case False
  then have "num bs < 256 ^ n"
    using num_bounds [of bs] by (intro less_le_trans [OF _ power_increasing [of "length bs" n]]) auto
  with False num_bounds [of bs] show ?thesis by simp
qed

lemma of_le_num:
  assumes "8 \<le> LENGTH('a)"
  shows "(of_le bs :: 'a::len word) = word_of_int (num bs)"
proof (induction bs)
  case (Cons b bs)
  let ?x = "of_le bs :: 'a word"
  have "\<not> bit (ucast b :: 'a word) n \<or> \<not> bit (push_bit 8 ?x) n" for n
    by (auto simp: bit_simps dest: bit_imp_le_length)
  then have "(ucast b :: 'a word) OR push_bit 8 ?x = ucast b + push_bit 8 ?x"
    by (intro disjunctive_add [symmetric]) auto
  then show ?case using Cons by (simp add: push_bit_eq_mult mult.commute)
qed simp

lemma pow256: "(256::int) ^ n = 2 ^ (8 * n)"
  by (simp add: power_mult)

lemma num_slice: "num (slice bs off n) = take_bit (8 * n) (drop_bit (8 * off) (num bs))"
  unfolding slice_def num_take num_drop take_bit_eq_mod drop_bit_eq_div pow256 ..

lemma read_u32_le_num: "uint (read_u32_le bs off) = take_bit 32 (drop_bit (8 * off) (num bs))"
  unfolding read_u32_le_def by (subst of_le_num) (simp_all add: num_slice unsigned_of_int take_bit_take_bit)

section \<open>Limbs\<close>

text \<open>A number in five limbs of 26 bits.\<close>

abbreviation M26 :: int where "M26 \<equiv> 67108864"

definition poly_prime :: int where
  "poly_prime = 2 ^ 130 - 5"

definition limbs :: "int \<Rightarrow> int \<Rightarrow> int \<Rightarrow> int \<Rightarrow> int \<Rightarrow> int" where
  "limbs a b c d e = a + M26 * b + M26 ^ 2 * c + M26 ^ 3 * d + M26 ^ 4 * e"

definition lval :: "u32 list \<Rightarrow> int" where
  "lval h = limbs (uint (h ! 0)) (uint (h ! 1)) (uint (h ! 2)) (uint (h ! 3)) (uint (h ! 4))"

lemma and_26: "uint (w AND 0x3ffffff :: 'a::len word) = take_bit 26 (uint w)"
proof -
  have "(0x3ffffff :: 'a word) = mask 26" by (simp add: mask_numeral)
  then show ?thesis by (simp only: unsigned_take_bit_eq flip: take_bit_eq_mask)
qed

lemma uint_drop: "uint (drop_bit n w :: 'a::len word) = drop_bit n (uint w)"
  by (simp add: unsigned_drop_bit_eq bintr_uint)

lemma uint_add: "uint a + uint b < 2 ^ LENGTH('a) \<Longrightarrow> uint (a + b :: 'a::len word) = uint a + uint b"
  by (simp add: uint_add_lem)

lemma uint_mult: "uint a * uint b < 2 ^ LENGTH('a) \<Longrightarrow> uint (a * b :: 'a::len word) = uint a * uint b"
  by (simp add: uint_mult_lem)

lemma word_range: "0 \<le> uint (w :: u32)" "uint (w :: u32) < 4294967296"
  using uint_lt2p [of w] by simp_all

lemma uint_up: "uint (ucast (w :: u32) :: u64) = uint w"
  using word_range [of w] by (simp add: unsigned_ucast_eq take_bit_int_eq_self_iff)

lemma product64: "uint (ucast (a :: u32) * ucast (b :: u32) :: u64) = uint a * uint b"
proof -
  have "uint a * uint b \<le> 4294967295 * 4294967295"
    using word_range [of a] word_range [of b] by (intro mult_mono) auto
  then show ?thesis using uint_mult [of "ucast a :: u64" "ucast b :: u64"] by (simp add: uint_up)
qed

lemma dot5_val:
  assumes "uint a0 \<le> A" "uint a1 \<le> A" "uint a2 \<le> A" "uint a3 \<le> A" "uint a4 \<le> A"
    and "uint b0 \<le> B" "uint b1 \<le> B" "uint b2 \<le> B" "uint b3 \<le> B" "uint b4 \<le> B" "5 * (A * B) < 2 ^ 64"
  shows "uint (dot5 a0 b0 a1 b1 a2 b2 a3 b3 a4 b4)
      = uint a0 * uint b0 + uint a1 * uint b1 + uint a2 * uint b2 + uint a3 * uint b3 + uint a4 * uint b4"
    and "uint (dot5 a0 b0 a1 b1 a2 b2 a3 b3 a4 b4) \<le> 5 * (A * B)"
proof -
  have p: "uint a * uint b \<le> A * B \<and> 0 \<le> uint a * uint b" if "uint a \<le> A" "uint b \<le> B" for a b :: u32
    using that word_range [of a] word_range [of b] by (auto intro: mult_mono')
  let ?p = "\<lambda>a b. ucast a * ucast b :: u64"
  have s1: "uint (?p a0 b0 + ?p a1 b1) = uint a0 * uint b0 + uint a1 * uint b1"
    using p [OF assms(1,6)] p [OF assms(2,7)] assms(11) by (subst uint_add) (simp_all add: product64)
  have s2: "uint (?p a0 b0 + ?p a1 b1 + ?p a2 b2) = uint a0 * uint b0 + uint a1 * uint b1 + uint a2 * uint b2"
    using p [OF assms(1,6)] p [OF assms(2,7)] p [OF assms(3,8)] assms(11) by (subst uint_add) (simp_all add: product64 s1)
  have s3: "uint (?p a0 b0 + ?p a1 b1 + ?p a2 b2 + ?p a3 b3)
      = uint a0 * uint b0 + uint a1 * uint b1 + uint a2 * uint b2 + uint a3 * uint b3"
    using p [OF assms(1,6)] p [OF assms(2,7)] p [OF assms(3,8)] p [OF assms(4,9)] assms(11)
    by (subst uint_add) (simp_all add: product64 s2)
  show s4: "uint (dot5 a0 b0 a1 b1 a2 b2 a3 b3 a4 b4)
      = uint a0 * uint b0 + uint a1 * uint b1 + uint a2 * uint b2 + uint a3 * uint b3 + uint a4 * uint b4"
    using p [OF assms(1,6)] p [OF assms(2,7)] p [OF assms(3,8)] p [OF assms(4,9)] p [OF assms(5,10)] assms(11)
    unfolding dot5_def by (subst uint_add) (simp_all add: product64 s3)
  show "uint (dot5 a0 b0 a1 b1 a2 b2 a3 b3 a4 b4) \<le> 5 * (A * B)"
    using p [OF assms(1,6)] p [OF assms(2,7)] p [OF assms(3,8)] p [OF assms(4,9)] p [OF assms(5,10)] unfolding s4 by simp
qed

lemma take_div: "0 \<le> x \<Longrightarrow> x < 2 ^ 58 \<Longrightarrow> take_bit 32 (x div M26) = (x div M26 :: int)"
  by (subst take_bit_int_eq_self) auto

lemma carry26_val: "uint d < 2 ^ 58 \<Longrightarrow> uint (carry26 d) = uint d div M26"
  unfolding carry26_def unsigned_ucast_eq uint_drop using take_div [of "uint d"] by (simp add: drop_bit_eq_div)

lemma drop26_val: "uint (drop_bit 26 w :: u32) = uint w div M26"
  unfolding uint_drop by (simp add: drop_bit_eq_div)

lemma low26_val: "uint (low26 d) = uint d mod M26"
  unfolding low26_def and_26 unsigned_ucast_eq take_bit_eq_mod by (simp add: mod_mod_cancel)

text \<open>The product of two numbers in limbs modulo the prime: what overflows the fifth limb comes
  back five times.\<close>

lemma limb_product:
  fixes M :: int
  shows "(h0*r0 + h1*(5*r4) + h2*(5*r3) + h3*(5*r2) + h4*(5*r1))
     + M * (h0*r1 + h1*r0 + h2*(5*r4) + h3*(5*r3) + h4*(5*r2))
     + M^2 * (h0*r2 + h1*r1 + h2*r0 + h3*(5*r4) + h4*(5*r3))
     + M^3 * (h0*r3 + h1*r2 + h2*r1 + h3*r0 + h4*(5*r4))
     + M^4 * (h0*r4 + h1*r3 + h2*r2 + h3*r1 + h4*r0)
   = (h0 + M*h1 + M^2*h2 + M^3*h3 + M^4*h4) * (r0 + M*r1 + M^2*r2 + M^3*r3 + M^4*r4)
     - (M^5 - 5) * ((h1*r4 + h2*r3 + h3*r2 + h4*r1) + M*(h2*r4 + h3*r3 + h4*r2) + M^2*(h3*r4 + h4*r3) + M^3*(h4*r4))"
  by algebra

text \<open>Carrying a number in limbs keeps it modulo the prime.\<close>

lemma limb_carry:
  fixes M :: int
  assumes "d0 = M*c0 + l0" "d1 + c0 = M*c1 + l1" "d2 + c1 = M*c2 + l2" "d3 + c2 = M*c3 + l3" "d4 + c3 = M*c4 + l4"
    "l0 + 5*c4 = M*c5 + k0"
  shows "k0 + M*(l1 + c5) + M^2*l2 + M^3*l3 + M^4*l4 = (d0 + M*d1 + M^2*d2 + M^3*d3 + M^4*d4) - (M^5 - 5)*c4"
  using assms by algebra

section \<open>One block\<close>

text \<open>The bounds the accumulator keeps, and those of the clamped key.\<close>

definition acc_ok :: "u32 list \<Rightarrow> bool" where
  "acc_ok h \<longleftrightarrow> length h = 5 \<and> uint (h ! 0) < M26 \<and> uint (h ! 1) < M26 + 64 \<and> uint (h ! 2) < M26
     \<and> uint (h ! 3) < M26 \<and> uint (h ! 4) < M26"

definition key_ok :: "u32 list \<Rightarrow> bool" where
  "key_ok r \<longleftrightarrow> length r = 5 \<and> (\<forall>i < 5. uint (r ! i) < M26)"

text \<open>The limbs of a block.\<close>

lemma block_limb:
  assumes "8 * off + k = s" "k + 26 \<le> 32"
  shows "uint (drop_bit k (read_u32_le block off) AND 0x3ffffff) = take_bit 26 (drop_bit s (num block))"
proof (rule bit_eqI)
  fix n
  show "bit (uint (drop_bit k (read_u32_le block off) AND 0x3ffffff)) n = bit (take_bit 26 (drop_bit s (num block))) n"
    using assms by (auto simp: and_26 uint_drop read_u32_le_num bit_simps add.assoc ac_simps)
qed

lemma split26: "take_bit (n + 26) x = take_bit 26 x + M26 * take_bit n (drop_bit 26 x)" for x :: int
  using zmod_zmult2_eq [of "2 ^ n" x M26] by (simp add: take_bit_eq_mod drop_bit_eq_div power_add mult.commute)

lemma split_limbs:
  fixes x :: int
  shows "take_bit 128 x = limbs (take_bit 26 x) (take_bit 26 (drop_bit 26 x)) (take_bit 26 (drop_bit 52 x))
    (take_bit 26 (drop_bit 78 x)) (take_bit 24 (drop_bit 104 x))"
  using split26 [of 102 x] split26 [of 76 "drop_bit 26 x"] split26 [of 50 "drop_bit 52 x"] split26 [of 24 "drop_bit 78 x"]
  by (simp add: limbs_def)

lemma top_limb:
  "uint (drop_bit 8 (read_u32_le block 12) OR push_bit 24 1) = take_bit 24 (drop_bit 104 (num block)) + 2 ^ 24"
  "uint (drop_bit 8 (read_u32_le block 12)) = take_bit 24 (drop_bit 104 (num block))"
proof -
  let ?w = "drop_bit 8 (read_u32_le block 12)"
  have u: "uint ?w = take_bit 24 (drop_bit 104 (num block))"
    by (rule bit_eqI) (auto simp: uint_drop read_u32_le_num bit_simps)
  then show "uint ?w = take_bit 24 (drop_bit 104 (num block))" .
  have "\<not> bit ?w n \<or> \<not> bit (push_bit 24 1 :: u32) n" for n
  proof (cases "n = 24")
    case True
    then show ?thesis by (auto simp: bit_drop_bit_eq dest: bit_imp_le_length)
  next
    case False
    then show ?thesis unfolding bit_push_bit_iff by (auto simp: bit_1_iff)
  qed
  then have "?w OR push_bit 24 1 = ?w + push_bit 24 1" by (intro disjunctive_add [symmetric]) auto
  also have "uint \<dots> = uint ?w + 2 ^ 24"
  proof -
    have "uint ?w < 2 ^ 24" unfolding u by (rule take_bit_int_less_exp)
    then show ?thesis by (subst uint_add) (simp_all add: push_bit_eq_mult)
  qed
  finally show "uint (?w OR push_bit 24 1) = take_bit 24 (drop_bit 104 (num block)) + 2 ^ 24" by (simp add: u)
qed

lemma take26: "0 \<le> take_bit 26 x" "take_bit 26 x < M26" for x :: int
  using take_bit_int_less_exp [of 26 x] by simp_all

lemma times5: "uint (w :: u32) < M26 \<Longrightarrow> uint (w * 5) = 5 * uint w"
  by (subst uint_mult) simp_all

text \<open>A block step: the accumulator plus the block, times the key, modulo the prime; and no
  32-bit or 64-bit addition of the code wraps on the way.\<close>

lemma compute_block_val:
  assumes h: "acc_ok (p_h p)" and r: "key_ok (p_r p)"
  shows "acc_ok (p_h (compute_block block partial p))"
    and "lval (p_h (compute_block block partial p)) mod poly_prime
      = ((lval (p_h p) + take_bit 128 (num block) + (if partial then 0 else 2 ^ 128)) * lval (p_r p)) mod poly_prime"
proof -
  let ?N = "num block"
  define m0 m1 m2 m3 where "m0 = take_bit 26 ?N" and "m1 = take_bit 26 (drop_bit 26 ?N)"
    and "m2 = take_bit 26 (drop_bit 52 ?N)" and "m3 = take_bit 26 (drop_bit 78 ?N)"
  define m4 where "m4 = take_bit 24 (drop_bit 104 ?N) + (if partial then 0 else 2 ^ 24 :: int)"
  define r0 r1 r2 r3 r4 where rs: "r0 = p_r p ! 0" "r1 = p_r p ! 1" "r2 = p_r p ! 2" "r3 = p_r p ! 3" "r4 = p_r p ! 4"
  have rb: "uint r0 < M26" "uint r1 < M26" "uint r2 < M26" "uint r3 < M26" "uint r4 < M26"
    using r by (simp_all add: rs key_ok_def)
  note s5 = times5 [OF rb(2)] times5 [OF rb(3)] times5 [OF rb(4)] times5 [OF rb(5)]
  define h0 h1 h2 h3 h4 where hs: "h0 = p_h p ! 0 + (read_u32_le block 0 AND 0x3ffffff)"
    "h1 = p_h p ! 1 + (drop_bit 2 (read_u32_le block 3) AND 0x3ffffff)"
    "h2 = p_h p ! 2 + (drop_bit 4 (read_u32_le block 6) AND 0x3ffffff)"
    "h3 = p_h p ! 3 + (drop_bit 6 (read_u32_le block 9) AND 0x3ffffff)"
    "h4 = p_h p ! 4 + (drop_bit 8 (read_u32_le block 12) OR (if partial then 0 else push_bit 24 1))"
  have hb: "uint (p_h p ! 0) < M26" "uint (p_h p ! 1) < M26 + 64" "uint (p_h p ! 2) < M26" "uint (p_h p ! 3) < M26"
    "uint (p_h p ! 4) < M26" using h by (simp_all add: acc_ok_def)
  have mb: "m0 < M26" "m1 < M26" "m2 < M26" "m3 < M26" by (simp_all add: m0_def m1_def m2_def m3_def take26)
  have mb4: "m4 < 2 ^ 25" using take_bit_int_less_exp [of 24 "drop_bit 104 ?N"] by (simp add: m4_def)
  have l0: "uint (read_u32_le block 0 AND 0x3ffffff) = m0" using block_limb [of 0 0 0 block] by (simp add: m0_def)
  have l1: "uint (drop_bit 2 (read_u32_le block 3) AND 0x3ffffff) = m1" using block_limb [of 3 2 26 block] by (simp add: m1_def)
  have l2: "uint (drop_bit 4 (read_u32_le block 6) AND 0x3ffffff) = m2" using block_limb [of 6 4 52 block] by (simp add: m2_def)
  have l3: "uint (drop_bit 6 (read_u32_le block 9) AND 0x3ffffff) = m3" using block_limb [of 9 6 78 block] by (simp add: m3_def)
  have l4: "uint (drop_bit 8 (read_u32_le block 12) OR (if partial then 0 else push_bit 24 1)) = m4"
    using top_limb [of block] by (simp add: m4_def)
  have hv: "uint h0 = uint (p_h p ! 0) + m0" "uint h1 = uint (p_h p ! 1) + m1" "uint h2 = uint (p_h p ! 2) + m2"
    "uint h3 = uint (p_h p ! 3) + m3" "uint h4 = uint (p_h p ! 4) + m4"
    unfolding hs using hb mb mb4 l0 l1 l2 l3 l4 by (subst uint_add; simp)+
  let ?A = "2 * M26 + 64" and ?B = "5 * M26"
  have hA: "uint h0 \<le> ?A" "uint h1 \<le> ?A" "uint h2 \<le> ?A" "uint h3 \<le> ?A" "uint h4 \<le> ?A"
    using hv hb mb mb4 by simp_all
  have rB: "uint r0 \<le> ?B" "uint r1 \<le> ?B" "uint r2 \<le> ?B" "uint r3 \<le> ?B" "uint r4 \<le> ?B"
    "uint (r1 * 5) \<le> ?B" "uint (r2 * 5) \<le> ?B" "uint (r3 * 5) \<le> ?B" "uint (r4 * 5) \<le> ?B"
    using rb s5 by simp_all
  have AB: "5 * (?A * ?B) < (2::int) ^ 64" by simp
  define d0 d1 d2 d3 d4 where ds: "d0 = dot5 h0 r0 h1 (r4 * 5) h2 (r3 * 5) h3 (r2 * 5) h4 (r1 * 5)"
    "d1 = dot5 h0 r1 h1 r0 h2 (r4 * 5) h3 (r3 * 5) h4 (r2 * 5)"
    "d2 = dot5 h0 r2 h1 r1 h2 r0 h3 (r4 * 5) h4 (r3 * 5)"
    "d3 = dot5 h0 r3 h1 r2 h2 r1 h3 r0 h4 (r4 * 5)"
    "d4 = dot5 h0 r4 h1 r3 h2 r2 h3 r1 h4 r0"
  note dv = dot5_val [OF hA rB(1,9,8,7,6) AB, folded ds] dot5_val [OF hA rB(2,1,9,8,7) AB, folded ds]
    dot5_val [OF hA rB(3,2,1,9,8) AB, folded ds] dot5_val [OF hA rB(4,3,2,1,9) AB, folded ds]
    dot5_val [OF hA rB(5,4,3,2,1) AB, folded ds]
  have d4b: "uint d4 \<le> 5 * (?A * M26)"
    using dot5_val(2) [of h0 ?A h1 h2 h3 h4 r4 M26 r3 r2 r1 r0] hA rb by (simp add: ds)
  define e1 e2 e3 e4 where es: "e1 = d1 + ucast (carry26 d0)" "e2 = d2 + ucast (carry26 e1)"
    "e3 = d3 + ucast (carry26 e2)" "e4 = d4 + ucast (carry26 e3)"
  have small: "uint d0 < 2 ^ 58" using dv(2) by simp
  have carry: "uint (d + ucast (carry26 e)) = uint d + uint e div M26 \<and> uint (d + ucast (carry26 e)) < 2 ^ 58"
    if "uint d \<le> 5 * (?A * ?B)" "uint e < 2 ^ 58" for d e :: u64
  proof -
    have "uint (ucast (carry26 e) :: u64) = uint e div M26" "uint e div M26 < 2 ^ 32"
      using carry26_val [OF that(2)] that(2) by (simp_all add: uint_up)
    then show ?thesis using that(1) by (subst (1 2) uint_add) simp_all
  qed
  have e1: "uint e1 = uint d1 + uint d0 div M26" "uint e1 < 2 ^ 58" using carry [OF dv(4) small] by (simp_all add: es)
  have e2: "uint e2 = uint d2 + uint e1 div M26" "uint e2 < 2 ^ 58" using carry [OF dv(6) e1(2)] by (simp_all add: es)
  have e3: "uint e3 = uint d3 + uint e2 div M26" "uint e3 < 2 ^ 58" using carry [OF dv(8) e2(2)] by (simp_all add: es)
  have e4: "uint e4 = uint d4 + uint e3 div M26" "uint e4 < 2 ^ 58" using carry [OF dv(10) e3(2)] by (simp_all add: es)
  define c4 where "c4 = uint e4 div M26"
  have "uint e3 div M26 < 2 ^ 32" using e3(2) by simp
  with d4b have "uint e4 < 45036017748541440 + 1 + 2 ^ 32" unfolding e4(1) by simp
  then have c4: "0 \<le> c4" "c4 \<le> 671088961 + 320 + 64" by (simp_all add: c4_def pos_imp_zdiv_nonneg_iff)
  define k where "k = low26 d0 + carry26 e4 * 5"
  have "uint (carry26 e4 * 5) = 5 * c4" using carry26_val [OF e4(2)] c4(2) by (subst uint_mult) (simp_all add: c4_def)
  then have k: "uint k = uint d0 mod M26 + 5 * c4"
    unfolding k_def using c4 by (subst uint_add) (simp_all add: low26_val)
  have kb: "uint k div M26 < 64" using word_range [of k] by simp
  have h1: "uint (low26 e1 + drop_bit 26 k) = uint e1 mod M26 + uint k div M26"
    using kb pos_mod_bound [of M26 "uint e1"] by (subst uint_add) (simp_all add: low26_val drop26_val)
  have res: "p_h (compute_block block partial p) = [k AND 0x3ffffff, low26 e1 + drop_bit 26 k, low26 e2, low26 e3, low26 e4]"
    unfolding compute_block_def Let_def es k_def ds hs rs by simp
  have lim: "uint e mod M26 < M26" for e :: u64 by simp
  show "acc_ok (p_h (compute_block block partial p))"
    unfolding acc_ok_def res using h1 kb by (simp add: and_26 low26_val take26 take_bit_eq_mod add_less_le_mono)
  have "lval (p_h (compute_block block partial p))
    = limbs (uint k mod M26) (uint e1 mod M26 + uint k div M26) (uint e2 mod M26) (uint e3 mod M26) (uint e4 mod M26)"
    unfolding lval_def res by (simp add: and_26 h1 low26_val take_bit_eq_mod)
  also have "\<dots> = limbs (uint d0) (uint d1) (uint d2) (uint d3) (uint d4) - poly_prime * c4"
  proof -
    have q: "M26 * (x div M26) + x mod M26 = x" for x :: int by simp
    have "uint d1 + uint d0 div M26 = M26 * (uint e1 div M26) + uint e1 mod M26"
      "uint d2 + uint e1 div M26 = M26 * (uint e2 div M26) + uint e2 mod M26"
      "uint d3 + uint e2 div M26 = M26 * (uint e3 div M26) + uint e3 mod M26"
      "uint d4 + uint e3 div M26 = M26 * c4 + uint e4 mod M26"
      "uint d0 mod M26 + 5 * c4 = M26 * (uint k div M26) + uint k mod M26"
      unfolding q c4_def e1(1) [symmetric] e2(1) [symmetric] e3(1) [symmetric] e4(1) [symmetric] k [unfolded c4_def, symmetric]
      by (rule refl)+
    from limb_carry [OF q [of "uint d0", symmetric] this] show ?thesis by (simp only: limbs_def poly_prime_def) simp
  qed
  also have "limbs (uint d0) (uint d1) (uint d2) (uint d3) (uint d4)
      = limbs (uint h0) (uint h1) (uint h2) (uint h3) (uint h4) * lval (p_r p) - poly_prime * (
        (uint h1*uint r4 + uint h2*uint r3 + uint h3*uint r2 + uint h4*uint r1)
        + M26*(uint h2*uint r4 + uint h3*uint r3 + uint h4*uint r2) + M26^2*(uint h3*uint r4 + uint h4*uint r3) + M26^3*(uint h4*uint r4))"
    using limb_product [of "uint h0" "uint r0" "uint h1" "uint r4" "uint h2" "uint r3" "uint h3" "uint r2" "uint h4" "uint r1" M26]
    unfolding limbs_def lval_def dv(1,3,5,7,9) s5 rs [symmetric] by (simp add: poly_prime_def)
  also have "limbs (uint h0) (uint h1) (uint h2) (uint h3) (uint h4)
      = lval (p_h p) + take_bit 128 ?N + (if partial then 0 else 2 ^ 128)"
    unfolding split_limbs [of ?N] hv m0_def m1_def m2_def m3_def m4_def by (simp add: limbs_def lval_def algebra_simps)
  finally show "lval (p_h (compute_block block partial p)) mod poly_prime
      = ((lval (p_h p) + take_bit 128 (num block) + (if partial then 0 else 2 ^ 128)) * lval (p_r p)) mod poly_prime"
    by (simp add: mod_diff_eq [symmetric] flip: right_diff_distrib')
qed

lemma compute_block_keeps: "p_r (compute_block block partial p) = p_r p" "p_pad (compute_block block partial p) = p_pad p"
  by (simp_all add: compute_block_def Let_def)

section \<open>The key\<close>

definition clamp :: int where
  "clamp = 0x0ffffffc0ffffffc0ffffffc0fffffff"

lemma and_limb:
  assumes "8 * off + k = s" "k + n \<le> 32" "m = take_bit n (drop_bit s clamp)" "uint c = m"
  shows "uint (drop_bit k (read_u32_le key off) AND c) = take_bit n (drop_bit s (num key AND clamp))"
proof (rule bit_eqI)
  fix i
  have "bit (uint c) i \<longleftrightarrow> i < n \<and> bit clamp (s + i)" using assms(3,4) by (simp add: bit_simps)
  then show "bit (uint (drop_bit k (read_u32_le key off) AND c)) i = bit (take_bit n (drop_bit s (num key AND clamp))) i"
    using assms(1,2) by (auto simp: unsigned_and_eq uint_drop read_u32_le_num bit_simps ac_simps)
qed

lemma poly_new_key:
  "key_ok (p_r (poly_new key))" "lval (p_r (poly_new key)) = take_bit 128 (num key) AND clamp"
proof -
  have c: "take_bit 26 clamp = 0x3ffffff" "take_bit 26 (drop_bit 26 clamp) = 0x3ffff03"
    "take_bit 26 (drop_bit 52 clamp) = 0x3ffc0ff" "take_bit 26 (drop_bit 78 clamp) = 0x3f03fff"
    "take_bit 24 (drop_bit 104 clamp) = 0xfffff" "take_bit 128 clamp = clamp"
    by (simp_all add: clamp_def take_bit_eq_mod drop_bit_eq_div)
  have l: "uint (p_r (poly_new key) ! 0) = take_bit 26 (num key AND clamp)"
    "uint (p_r (poly_new key) ! 1) = take_bit 26 (drop_bit 26 (num key AND clamp))"
    "uint (p_r (poly_new key) ! 2) = take_bit 26 (drop_bit 52 (num key AND clamp))"
    "uint (p_r (poly_new key) ! 3) = take_bit 26 (drop_bit 78 (num key AND clamp))"
    "uint (p_r (poly_new key) ! 4) = take_bit 24 (drop_bit 104 (num key AND clamp))"
    using and_limb [of 0 0 0 26 "0x3ffffff" "0x3ffffff" key] and_limb [of 3 2 26 26 "0x3ffff03" "0x3ffff03" key]
      and_limb [of 6 4 52 26 "0x3ffc0ff" "0x3ffc0ff" key] and_limb [of 9 6 78 26 "0x3f03fff" "0x3f03fff" key]
      and_limb [of 12 8 104 24 "0x00fffff" "0x00fffff" key]
    by (simp_all add: poly_new_def c)
  have "take_bit 24 (drop_bit 104 (num key AND clamp)) < M26"
    using take_bit_int_less_exp [of 24 "drop_bit 104 (num key AND clamp)"] by simp
  then show "key_ok (p_r (poly_new key))"
    using l take26 by (auto simp: key_ok_def poly_new_def less_Suc_eq numeral_eq_Suc)
  have "lval (p_r (poly_new key)) = take_bit 128 (num key AND clamp)" unfolding lval_def l split_limbs ..
  also have "\<dots> = take_bit 128 (num key) AND clamp" by (simp add: c take_bit_and)
  finally show "lval (p_r (poly_new key)) = take_bit 128 (num key) AND clamp" .
qed

section \<open>The polynomial\<close>

text \<open>The authenticator as a polynomial over blocks of at most sixteen bytes, each with a bit
  above the sixteenth byte.\<close>

fun chunks16 :: "bytes \<Rightarrow> bytes list" where
  "chunks16 [] = []"
| "chunks16 (b # bs) = take 16 (b # bs) # chunks16 (drop 16 (b # bs))"

definition poly_eval :: "int \<Rightarrow> int \<Rightarrow> bytes list \<Rightarrow> int" where
  "poly_eval r = foldl (\<lambda>a block. (a + num block + 2 ^ 128) * r mod poly_prime)"

text \<open>The limbs stand for a number modulo the prime.\<close>

definition stands :: "poly1305 \<Rightarrow> int \<Rightarrow> bool" where
  "stands p a \<longleftrightarrow> acc_ok (p_h p) \<and> key_ok (p_r p) \<and> lval (p_h p) mod poly_prime = a mod poly_prime"

lemma num_pad16: "num (pad16 c) = num c"
  by (simp add: pad16_def num_append)

lemma num_small: "length c \<le> 16 \<Longrightarrow> take_bit 128 (num c) = num c"
proof (subst take_bit_int_eq_self)
  assume "length c \<le> 16"
  then have "(256::int) ^ length c \<le> 256 ^ 16" by (intro power_increasing) auto
  with num_bounds [of c] show "num c < 2 ^ 128" by simp
qed (use num_bounds in auto)

lemma stands_block:
  assumes "stands p a" "length c \<le> 16"
  shows "stands (compute_block (pad16 c) False p) ((a + num c + 2 ^ 128) * lval (p_r p) mod poly_prime)"
proof -
  have ok: "acc_ok (p_h p)" "key_ok (p_r p)" "lval (p_h p) mod poly_prime = a mod poly_prime" using assms(1) by (auto simp: stands_def)
  have "((lval (p_h p) + num c + 2 ^ 128) * lval (p_r p)) mod poly_prime = ((a + num c + 2 ^ 128) * lval (p_r p)) mod poly_prime"
    by (intro mod_mult_cong mod_add_cong refl ok(3))
  then show ?thesis
    using compute_block_val [OF ok(1,2), of "pad16 c" False] ok(2) num_small [OF assms(2)]
    by (simp add: stands_def compute_block_keeps num_pad16)
qed

lemma stands_update:
  "stands p a \<Longrightarrow> stands (update_aead data p) (poly_eval (lval (p_r p)) a (chunks16 data))
    \<and> p_r (update_aead data p) = p_r p \<and> p_pad (update_aead data p) = p_pad p"
proof (induction data p arbitrary: a rule: update_aead.induct)
  case (2 b bs p)
  have "length (take 16 (b # bs)) \<le> 16" by simp
  from 2(1) [OF stands_block [OF 2(2) this]] show ?case
    by (simp add: compute_block_keeps poly_eval_def del: take_Suc_Cons drop_Suc_Cons)
qed (simp add: poly_eval_def)

section \<open>The tag\<close>

definition canon :: "u32 list \<Rightarrow> bool" where
  "canon h \<longleftrightarrow> length h = 5 \<and> (\<forall>i < 5. uint (h ! i) < M26)"

lemma canon_five: "canon [a, b, c, d, e] \<longleftrightarrow> uint a < M26 \<and> uint b < M26 \<and> uint c < M26 \<and> uint d < M26 \<and> uint e < M26"
  by (auto simp: canon_def less_Suc_eq numeral_eq_Suc)

lemma five_limbs:
  assumes "length h = 5"
  obtains a b c d e where "h = [a, b, c, d, e]"
  using assms by (auto simp: numeral_eq_Suc length_Suc_conv)

lemma lval_five: "lval [a, b, c, d, e] = limbs (uint a) (uint b) (uint c) (uint d) (uint e)"
  by (simp add: lval_def)

lemma and26_val: "uint (w AND 0x3ffffff :: u32) = uint w mod M26"
  by (simp add: and_26 take_bit_eq_mod)

lemma carry_step:
  fixes a b :: u32
  assumes "uint a < M26" "uint b < 2 * M26"
  shows "uint (a + drop_bit 26 b) = uint a + uint b div M26"
proof -
  have "uint b div M26 < 2" using assms(2) by simp
  with assms(1) show ?thesis by (subst uint_add) (simp_all add: drop26_val)
qed

text \<open>The last carry: the fifth limb's overflow comes back five times at the bottom, and only when
  the second limb was over its 26 bits, so that it has room for one more.\<close>

lemma last_carry:
  fixes M :: int
  assumes "b = M*c0 + l1" "c + c0 = M*c1 + l2" "d + c1 = M*c2 + l3" "e + c2 = M*c3 + l4" "a + 5*c3 = M*c4 + l0"
  shows "l0 + M*(l1 + c4) + M^2*l2 + M^3*l3 + M^4*l4 = (a + M*b + M^2*c + M^3*d + M^4*e) - (M^5 - 5)*c3"
  using assms by algebra

lemma carry01:
  fixes x k :: int
  assumes "0 \<le> x" "x < M26" "0 \<le> k" "k \<le> 1"
  shows "x + k \<le> M26" "0 \<le> x + k" "0 \<le> (x + k) div M26" "(x + k) div M26 \<le> 1" "(x + k) div M26 = 1 \<Longrightarrow> k = 1"
proof -
  consider "k = 0" | "k = 1" using assms(3,4) by fastforce
  then show "x + k \<le> M26" "0 \<le> x + k" "0 \<le> (x + k) div M26" "(x + k) div M26 \<le> 1" "(x + k) div M26 = 1 \<Longrightarrow> k = 1"
    using assms by (auto simp: pos_imp_zdiv_nonneg_iff)
qed

lemma carry05:
  fixes x k :: int
  assumes "0 \<le> x" "x < M26" "0 \<le> k" "k \<le> 1"
  shows "x + 5 * k < M26 + 6" "0 \<le> x + 5 * k" "0 \<le> (x + 5 * k) div M26" "(x + 5 * k) div M26 \<le> 1"
    "(x + 5 * k) div M26 = 1 \<Longrightarrow> k = 1"
proof -
  consider "k = 0" | "k = 1" using assms(3,4) by fastforce
  then show "x + 5 * k < M26 + 6" "0 \<le> x + 5 * k" "0 \<le> (x + 5 * k) div M26" "(x + 5 * k) div M26 \<le> 1"
    "(x + 5 * k) div M26 = 1 \<Longrightarrow> k = 1"
    using assms by (auto simp: pos_imp_zdiv_nonneg_iff)
qed

lemma carry_ints:
  fixes a b c d e :: int
  assumes "0 \<le> a" "a < M26" "0 \<le> b" "b < M26 + 64" "0 \<le> c" "c < M26" "0 \<le> d" "d < M26" "0 \<le> e" "e < M26"
    and "c' = c + b div M26" "d' = d + c' div M26" "e' = e + d' div M26" "a' = a + 5 * (e' div M26)"
  shows "b mod M26 + a' div M26 < M26" "c' \<le> M26" "d' \<le> M26" "e' \<le> M26" "a' < M26 + 6" "0 \<le> e' div M26" "e' div M26 \<le> 1"
    "0 \<le> c'" "0 \<le> d'" "0 \<le> e'" "0 \<le> a'"
    "limbs (a' mod M26) (b mod M26 + a' div M26) (c' mod M26) (d' mod M26) (e' mod M26)
      = limbs a b c d e - poly_prime * (e' div M26)"
proof -
  have b: "0 \<le> b div M26" "b div M26 \<le> 1" "b div M26 = 1 \<Longrightarrow> b mod M26 < 64"
    using assms(3,4) minus_mult_div_eq_mod [of b M26] by (simp_all add: pos_imp_zdiv_nonneg_iff)
  note c = carry01 [OF assms(5,6) b(1,2), folded assms(11)]
  note d = carry01 [OF assms(7,8) c(3,4), folded assms(12)]
  note e = carry01 [OF assms(9,10) d(3,4), folded assms(13)]
  note a = carry05 [OF assms(1,2) e(3,4), folded assms(14)]
  show "b mod M26 + a' div M26 < M26"
  proof (cases "a' div M26 = 1")
    case True
    from b(3) [OF c(5) [OF d(5) [OF e(5) [OF a(5) [OF True]]]]] show ?thesis unfolding True by simp
  next
    case False
    then have "a' div M26 = 0" using a(3,4) by linarith
    then show ?thesis by simp
  qed
  show "c' \<le> M26" "d' \<le> M26" "e' \<le> M26" "a' < M26 + 6" "0 \<le> e' div M26" "e' div M26 \<le> 1" "0 \<le> c'" "0 \<le> d'" "0 \<le> e'" "0 \<le> a'"
    by fact+
  have q: "x = M26 * (x div M26) + x mod M26" for x :: int by simp
  have "c + b div M26 = M26 * (c' div M26) + c' mod M26" unfolding assms(11) [symmetric] by (rule q)
  moreover have "d + c' div M26 = M26 * (d' div M26) + d' mod M26" unfolding assms(12) [symmetric] by (rule q)
  moreover have "e + d' div M26 = M26 * (e' div M26) + e' mod M26" unfolding assms(13) [symmetric] by (rule q)
  moreover have "a + 5 * (e' div M26) = M26 * (a' div M26) + a' mod M26" unfolding assms(14) [symmetric] by (rule q)
  ultimately have "a' mod M26 + M26 * (b mod M26 + a' div M26) + M26^2 * (c' mod M26) + M26^3 * (d' mod M26) + M26^4 * (e' mod M26)
      = (a + M26*b + M26^2*c + M26^3*d + M26^4*e) - (M26^5 - 5) * (e' div M26)"
    by (rule last_carry [OF q])
  then show "limbs (a' mod M26) (b mod M26 + a' div M26) (c' mod M26) (d' mod M26) (e' mod M26)
      = limbs a b c d e - poly_prime * (e' div M26)"
    unfolding limbs_def poly_prime_def by simp
qed

lemma carry_limbs_val:
  assumes "acc_ok h"
  shows "canon (carry_limbs h)" "lval (carry_limbs h) mod poly_prime = lval h mod poly_prime"
proof -
  obtain a b c d e where h: "h = [a, b, c, d, e]" using assms by (auto simp: acc_ok_def elim: five_limbs)
  have bnd: "uint a < M26" "uint b < M26 + 64" "uint c < M26" "uint d < M26" "uint e < M26"
    using assms by (simp_all add: acc_ok_def h)
  define c' d' e' a' where w: "c' = c + drop_bit 26 b" "d' = d + drop_bit 26 c'" "e' = e + drop_bit 26 d'" "a' = a + drop_bit 26 e' * 5"
  define ci di ei ai where i: "ci = uint c + uint b div M26" "di = uint d + ci div M26" "ei = uint e + di div M26"
    "ai = uint a + 5 * (ei div M26)"
  note K = carry_ints [OF word_range(1) bnd(1) word_range(1) bnd(2) word_range(1) bnd(3) word_range(1) bnd(4) word_range(1) bnd(5) i]
  have c': "uint c' = ci" unfolding w i by (rule carry_step) (use bnd in simp_all)
  have d': "uint d' = di" unfolding w(2) i(2) c' [symmetric] by (rule carry_step) (use bnd K(2) c' in simp_all)
  have e': "uint e' = ei" unfolding w(3) i(3) d' [symmetric] by (rule carry_step) (use bnd K(3) d' in simp_all)
  have m5: "uint (drop_bit 26 e' * 5) = 5 * (ei div M26)"
    using K(6,7) by (subst uint_mult) (simp_all only: drop26_val e', simp_all)
  have a': "uint a' = ai"
    unfolding w(4) i(4) by (subst uint_add) (simp_all only: m5, use K(6,7) bnd(1) in simp_all)
  have b': "uint ((b AND 0x3ffffff) + drop_bit 26 a') = uint b mod M26 + ai div M26"
    by (subst uint_add) (simp_all only: and26_val drop26_val a', use K(1) in simp_all)
  have r: "carry_limbs h = [a' AND 0x3ffffff, (b AND 0x3ffffff) + drop_bit 26 a', c' AND 0x3ffffff, d' AND 0x3ffffff, e' AND 0x3ffffff]"
    by (simp add: carry_limbs_def h Let_def w)
  show "canon (carry_limbs h)"
    unfolding r canon_five and26_val b' using K(1) by (simp add: a' c' d' e')
  have "lval (carry_limbs h) = lval h - poly_prime * (ei div M26)"
    unfolding r unfolding h lval_five and26_val a' b' c' d' e' by (rule K(12))
  then show "lval (carry_limbs h) mod poly_prime = lval h mod poly_prime" by (simp add: mod_eq_dvd_iff)
qed

text \<open>The final selection: adding five carries out of the fifth limb just when the number is not
  below the prime.\<close>

lemma plus5:
  fixes M :: int
  assumes "a + 5 = M*c0 + l0" "b + c0 = M*c1 + l1" "c + c1 = M*c2 + l2" "d + c2 = M*c3 + l3"
  shows "l0 + M*l1 + M^2*l2 + M^3*l3 + M^4*(e + c3) = (a + M*b + M^2*c + M^3*d + M^4*e) + 5"
  using assms by algebra

lemma limbs_bound:
  assumes "0 \<le> a" "a < M26" "0 \<le> b" "b < M26" "0 \<le> c" "c < M26" "0 \<le> d" "d < M26" "0 \<le> e"
  shows "0 \<le> limbs a b c d e" "M26 ^ 4 * e \<le> limbs a b c d e" "limbs a b c d e < M26 ^ 4 * (e + 1)"
  using assms by (simp_all add: limbs_def)

lemma reduce_limbs_val:
  assumes "canon h"
  shows "canon (reduce_limbs h)" "lval (reduce_limbs h) = lval h mod poly_prime"
proof -
  obtain a b c d e where h: "h = [a, b, c, d, e]" using assms by (auto simp: canon_def elim: five_limbs)
  have bnd: "uint a < M26" "uint b < M26" "uint c < M26" "uint d < M26" "uint e < M26"
    using assms by (simp_all add: canon_five h)
  define g0 g1 g2 g3 t where g: "g0 = a + 5" "g1 = b + drop_bit 26 g0" "g2 = c + drop_bit 26 g1" "g3 = d + drop_bit 26 g2"
    "t = e + drop_bit 26 g3"
  have g0: "uint g0 = uint a + 5" unfolding g(1) using bnd(1) by (subst uint_add) simp_all
  have c0: "0 \<le> uint g0 div M26" "uint g0 div M26 \<le> 1" using bnd(1) word_range(1) [of a] unfolding g0
    by (simp_all add: pos_imp_zdiv_nonneg_iff)
  have g1: "uint g1 = uint b + uint g0 div M26" unfolding g(2) by (rule carry_step) (use bnd g0 in simp_all)
  note k1 = carry01 [OF word_range(1) bnd(2) c0, folded g1]
  have g2: "uint g2 = uint c + uint g1 div M26" unfolding g(3) by (rule carry_step) (use bnd k1(1) in simp_all)
  note k2 = carry01 [OF word_range(1) bnd(3) k1(3,4), folded g2]
  have g3: "uint g3 = uint d + uint g2 div M26" unfolding g(4) by (rule carry_step) (use bnd k2(1) in simp_all)
  note k3 = carry01 [OF word_range(1) bnd(4) k2(3,4), folded g3]
  have t: "uint t = uint e + uint g3 div M26" unfolding g(5) by (rule carry_step) (use bnd k3(1) in simp_all)
  note k4 = carry01 [OF word_range(1) bnd(5) k3(3,4), folded t]
  have q: "x = M26 * (x div M26) + x mod M26" for x :: int by simp
  have sum: "limbs (uint g0 mod M26) (uint g1 mod M26) (uint g2 mod M26) (uint g3 mod M26) (uint t) = lval h + 5"
  proof -
    have "uint a + 5 = M26 * (uint g0 div M26) + uint g0 mod M26" unfolding g0 [symmetric] by (rule q)
    moreover have "uint b + uint g0 div M26 = M26 * (uint g1 div M26) + uint g1 mod M26" unfolding g1 [symmetric] by (rule q)
    moreover have "uint c + uint g1 div M26 = M26 * (uint g2 div M26) + uint g2 mod M26" unfolding g2 [symmetric] by (rule q)
    moreover have "uint d + uint g2 div M26 = M26 * (uint g3 div M26) + uint g3 mod M26" unfolding g3 [symmetric] by (rule q)
    ultimately show ?thesis unfolding h lval_five limbs_def t by (rule plus5)
  qed
  let ?mask = "drop_bit 31 (t - push_bit 26 1) - 1"
  have r: "reduce_limbs h = [(a AND NOT ?mask) OR ((g0 AND 0x3ffffff) AND ?mask), (b AND NOT ?mask) OR ((g1 AND 0x3ffffff) AND ?mask),
      (c AND NOT ?mask) OR ((g2 AND 0x3ffffff) AND ?mask), (d AND NOT ?mask) OR ((g3 AND 0x3ffffff) AND ?mask),
      (e AND NOT ?mask) OR ((t - push_bit 26 1) AND ?mask)]"
    by (simp add: reduce_limbs_def h Let_def g)
  have lh: "0 \<le> lval h" "lval h < 2 * poly_prime"
    using limbs_bound [OF word_range(1) [of a] bnd(1) word_range(1) [of b] bnd(2) word_range(1) [of c] bnd(3)
        word_range(1) [of d] bnd(4) word_range(1) [of e]] bnd(5)
    unfolding h lval_five by (simp_all add: poly_prime_def)
  have lg: "M26 ^ 4 * uint t \<le> lval h + 5" "lval h + 5 < M26 ^ 4 * (uint t + 1)"
    using limbs_bound(2,3) [of "uint g0 mod M26" "uint g1 mod M26" "uint g2 mod M26" "uint g3 mod M26" "uint t"] word_range(1) [of t]
    unfolding sum [symmetric] by simp_all
  show "canon (reduce_limbs h)" "lval (reduce_limbs h) = lval h mod poly_prime"
  proof (atomize (full), cases "uint t = M26")
    case True
    then have "t = push_bit 26 1" by (simp add: word_uint_eq_iff push_bit_eq_mult)
    then have z: "t - push_bit 26 1 = 0" by simp
    then have rr: "reduce_limbs h = [g0 AND 0x3ffffff, g1 AND 0x3ffffff, g2 AND 0x3ffffff, g3 AND 0x3ffffff, 0]"
      unfolding r z by simp
    have "lval (reduce_limbs h) = lval h - poly_prime"
      using sum unfolding rr lval_five and26_val True by (simp add: limbs_def poly_prime_def)
    moreover have "lval h mod poly_prime = lval h - poly_prime"
    proof -
      have "poly_prime \<le> lval h" using lg(1) unfolding True by (simp add: poly_prime_def)
      then have "(lval h - poly_prime) mod poly_prime = lval h - poly_prime" using lh(2) by (intro mod_pos_pos_trivial) simp_all
      then show ?thesis by simp
    qed
    ultimately show "canon (reduce_limbs h) \<and> lval (reduce_limbs h) = lval h mod poly_prime"
      unfolding rr canon_five and26_val by simp
  next
    case False
    with k4(1) have t26: "uint t < M26" by simp
    have "uint (t - push_bit 26 1) = uint t + 4294967296 - M26"
      using t26 word_range(1) [of t] by (simp add: uint_sub_if' push_bit_eq_mult)
    then have "uint (t - push_bit 26 1) = 2147483648 * 1 + (uint t + 2080374784)" by simp
    then have "uint (t - push_bit 26 1) div 2147483648 = 1"
      by (rule int_div_pos_eq) (use t26 word_range(1) [of t] in simp_all)
    then have "uint (drop_bit 31 (t - push_bit 26 1)) = 1" unfolding uint_drop by (simp add: drop_bit_eq_div)
    then have "drop_bit 31 (t - push_bit 26 1) = 1" by (simp add: word_uint_eq_iff)
    then have rr: "reduce_limbs h = h" unfolding r by (simp add: h)
    have "lval h + 5 < M26 ^ 4 * M26" using lg(2) t26 by (intro less_le_trans [OF lg(2)] mult_left_mono) simp_all
    then have "lval h mod poly_prime = lval h" using lh(1) by (intro mod_pos_pos_trivial) (simp_all add: poly_prime_def)
    then show "canon (reduce_limbs h) \<and> lval (reduce_limbs h) = lval h mod poly_prime" unfolding rr using assms by simp
  qed
qed

text \<open>The limbs packed into four words of 32 bits.\<close>

definition wval :: "u32 list \<Rightarrow> int" where
  "wval ws = foldr (\<lambda>w v. uint w + 2 ^ 32 * v) ws 0"

lemma or_shift:
  fixes a b :: u32
  assumes "uint a < 2 ^ k" "k \<le> 32"
  shows "uint (a OR push_bit k b) = uint a + 2 ^ k * (uint b mod 2 ^ (32 - k))"
proof -
  have hi: "bit a n \<Longrightarrow> n < k" for n
  proof (rule ccontr)
    assume n: "bit a n" "\<not> n < k"
    then have "bit (uint a) n" using bit_imp_le_length [OF n(1)] by (simp add: bit_uint_iff)
    moreover have "take_bit k (uint a) = uint a" using assms(1) by (intro take_bit_int_eq_self) simp_all
    ultimately show False using n(2) by (metis bit_take_bit_iff)
  qed
  have "uint (a OR push_bit k b) = uint a OR push_bit k (take_bit (32 - k) (uint b))"
    by (rule bit_eqI) (auto simp: bit_simps)
  also have "\<dots> = uint a + push_bit k (take_bit (32 - k) (uint b))"
    by (intro disjunctive_add [symmetric]) (auto simp: bit_simps dest: hi)
  finally show ?thesis by (simp add: push_bit_eq_mult take_bit_eq_mod mult.commute)
qed

lemma pack_ints:
  fixes a b c d e :: int
  assumes "b = 64 * b1 + b0" "c = 4096 * c1 + c0" "d = 262144 * d1 + d0" "e = 16777216 * e1 + e0"
  shows "a + M26 * b + M26^2 * c + M26^3 * d + M26^4 * e
    = a + M26 * b0 + 2 ^ 32 * (b1 + 1048576 * c0 + 2 ^ 32 * (c1 + 16384 * d0 + 2 ^ 32 * (d1 + 256 * e0))) + 2 ^ 128 * e1"
  unfolding assms by simp

lemma pack_limbs_val:
  assumes "canon h"
  shows "length (pack_limbs h) = 4" "wval (pack_limbs h) = lval h mod 2 ^ 128"
proof -
  obtain a b c d e where h: "h = [a, b, c, d, e]" using assms by (auto simp: canon_def elim: five_limbs)
  have bnd: "uint a < M26" "uint b < M26" "uint c < M26" "uint d < M26" "uint e < M26"
    using assms by (simp_all add: canon_five h)
  show "length (pack_limbs h) = 4" by (simp add: pack_limbs_def)
  have d1: "uint (drop_bit 6 b) = uint b div 64" "uint (drop_bit 12 c) = uint c div 4096" "uint (drop_bit 18 d) = uint d div 262144"
    unfolding uint_drop by (simp_all add: drop_bit_eq_div)
  have w0: "uint (a OR push_bit 26 b) = uint a + M26 * (uint b mod 64)" using or_shift [of a 26 b] bnd by simp
  have w1: "uint (drop_bit 6 b OR push_bit 20 c) = uint b div 64 + 1048576 * (uint c mod 4096)"
    using or_shift [of "drop_bit 6 b" 20 c] bnd unfolding d1 by simp
  have w2: "uint (drop_bit 12 c OR push_bit 14 d) = uint c div 4096 + 16384 * (uint d mod 262144)"
    using or_shift [of "drop_bit 12 c" 14 d] bnd unfolding d1 by simp
  have w3: "uint (drop_bit 18 d OR push_bit 8 e) = uint d div 262144 + 256 * (uint e mod 16777216)"
    using or_shift [of "drop_bit 18 d" 8 e] bnd unfolding d1 by simp
  have v: "wval (pack_limbs h) = uint (a OR push_bit 26 b) + 2 ^ 32 * (uint (drop_bit 6 b OR push_bit 20 c)
      + 2 ^ 32 * (uint (drop_bit 12 c OR push_bit 14 d) + 2 ^ 32 * uint (drop_bit 18 d OR push_bit 8 e)))"
    by (simp add: wval_def pack_limbs_def h)
  have q: "uint b = 64 * (uint b div 64) + uint b mod 64" "uint c = 4096 * (uint c div 4096) + uint c mod 4096"
    "uint d = 262144 * (uint d div 262144) + uint d mod 262144" "uint e = 16777216 * (uint e div 16777216) + uint e mod 16777216" by simp_all
  have eq: "lval h = wval (pack_limbs h) + 2 ^ 128 * (uint e div 16777216)"
    unfolding v w0 w1 w2 w3 unfolding h lval_five limbs_def by (rule pack_ints [OF q])
  have "0 \<le> wval (pack_limbs h)" "wval (pack_limbs h) < 2 ^ 128"
  proof -
    have "0 \<le> uint x \<and> uint x \<le> 4294967295" for x :: u32 using word_range [of x] by simp
    note z = this [of "a OR push_bit 26 b"] this [of "drop_bit 6 b OR push_bit 20 c"] this [of "drop_bit 12 c OR push_bit 14 d"]
      this [of "drop_bit 18 d OR push_bit 8 e"]
    then show "0 \<le> wval (pack_limbs h)" "wval (pack_limbs h) < 2 ^ 128" unfolding v by simp_all
  qed
  then show "wval (pack_limbs h) = lval h mod 2 ^ 128" unfolding eq by simp
qed

end
