(* ===== verification/CryptoProps.thy ===== *)
theory CryptoProps
  imports PolyProps
begin

text \<open>
  ChaCha20-Poly1305 as a whole: the tag is the polynomial of RFC 8439 over the padded data, the
  key stream is its own inverse, and decryption gives back exactly what was sealed.
\<close>

section \<open>The tag\<close>

lemma wval_Cons: "wval (w # ws) = uint w + 2 ^ 32 * wval ws"
  by (simp add: wval_def)

lemma add_pad_val:
  "length hs = length ps \<Longrightarrow> uint f < 2 ^ 33
    \<Longrightarrow> wval (add_pad hs ps f) = (wval hs + wval ps + uint f div 2 ^ 32) mod 2 ^ (32 * length hs)
      \<and> length (add_pad hs ps f) = length hs"
proof (induction hs ps f rule: add_pad.induct)
  case (1 h hs p ps f)
  let ?f = "ucast h + ucast p + drop_bit 32 f :: u64"
  have d: "uint (drop_bit 32 f) = uint f div 2 ^ 32" unfolding uint_drop by (simp add: drop_bit_eq_div)
  have db: "0 \<le> uint f div 2 ^ 32" "uint f div 2 ^ 32 \<le> 1" using 1(3) by (simp_all add: pos_imp_zdiv_nonneg_iff)
  have hp: "uint (ucast h + ucast p :: u64) = uint h + uint p"
    using word_range(2) [of h] word_range(2) [of p] by (subst uint_add) (simp_all add: uint_up)
  have f: "uint ?f = uint h + uint p + uint f div 2 ^ 32"
    using word_range(2) [of h] word_range(2) [of p] db by (subst uint_add) (simp_all only: hp d, simp_all)
  have "uint ?f < 2 ^ 33" using word_range(2) [of h] word_range(2) [of p] db unfolding f by simp
  from 1(1) [OF refl _ this] 1(2)
  have IH: "wval (add_pad hs ps ?f) = (wval hs + wval ps + uint ?f div 2 ^ 32) mod 2 ^ (32 * length hs)"
    "length (add_pad hs ps ?f) = length hs" by simp_all
  have low: "uint (ucast ?f :: u32) = uint ?f mod 2 ^ 32" by (simp add: unsigned_ucast_eq take_bit_eq_mod)
  let ?x = "uint ?f + 2 ^ 32 * (wval hs + wval ps)"
  have "?x mod (2 ^ 32 * 2 ^ (32 * length hs)) = 2 ^ 32 * (?x div 2 ^ 32 mod 2 ^ (32 * length hs)) + ?x mod 2 ^ 32"
    by (rule zmod_zmult2_eq) simp
  moreover have "?x div 2 ^ 32 = wval hs + wval ps + uint ?f div 2 ^ 32" by simp
  moreover have "?x mod 2 ^ 32 = uint ?f mod 2 ^ 32" by (rule mod_mult_self2)
  ultimately have "uint ?f mod 2 ^ 32 + 2 ^ 32 * wval (add_pad hs ps ?f) = ?x mod 2 ^ (32 + 32 * length hs)"
    unfolding IH(1) power_add by simp
  moreover have "?x = wval (h # hs) + wval (p # ps) + uint f div 2 ^ 32" unfolding f wval_Cons by simp
  moreover have "wval (add_pad (h # hs) (p # ps) f) = uint ?f mod 2 ^ 32 + 2 ^ 32 * wval (add_pad hs ps ?f)"
    unfolding add_pad.simps Let_def wval_Cons low ..
  ultimately have "wval (add_pad (h # hs) (p # ps) f) = (wval (h # hs) + wval (p # ps) + uint f div 2 ^ 32) mod 2 ^ (32 + 32 * length hs)"
    by (simp only:)
  then show ?case using IH(2) by (simp add: Let_def)
qed (simp_all add: wval_def)

lemma num_to_le: "num (to_le (w :: u32)) = uint w" "num (to_le (x :: u64)) = uint x"
proof -
  have "uint w = uint (word_of_int (num (to_le w)) :: u32)" "uint x = uint (word_of_int (num (to_le x)) :: u64)"
    using of_le_to_le [of w] of_le_to_le [of x] of_le_num [where 'a = 32] of_le_num [where 'a = 64] by simp_all
  then show "num (to_le w) = uint w" "num (to_le x) = uint x"
    using num_bounds [of "to_le w"] num_bounds [of "to_le x"] by (simp_all add: unsigned_of_int take_bit_int_eq_self)
qed

lemma num_words: "num (concat (map to_le ws)) = wval (ws :: u32 list)"
  by (induction ws) (simp_all add: wval_def num_append num_to_le)

lemma length_words: "length (concat (map to_le (ws :: u32 list))) = 4 * length ws"
  by (induction ws) simp_all

text \<open>The tag of a state that stands for a number: that number modulo the prime, plus the pad.\<close>

lemma finalize_val:
  assumes "stands p a" "length (p_pad p) = 4"
  shows "length (finalize p) = 16" "num (finalize p) = (a mod poly_prime + wval (p_pad p)) mod 2 ^ 128"
proof -
  have ok: "acc_ok (p_h p)" "lval (p_h p) mod poly_prime = a mod poly_prime" using assms(1) by (simp_all add: stands_def)
  note c = carry_limbs_val [OF ok(1)]
  note r = reduce_limbs_val [OF c(1)]
  note k = pack_limbs_val [OF r(1)]
  have "length (pack_limbs (reduce_limbs (carry_limbs (p_h p)))) = length (p_pad p)" using k(1) assms(2) by simp
  from add_pad_val [OF this, of 0] show "length (finalize p) = 16" "num (finalize p) = (a mod poly_prime + wval (p_pad p)) mod 2 ^ 128"
    using k ok(2) c(2) r(2) by (simp_all add: finalize_def num_words length_words mod_add_left_eq)
qed

lemma split32: "take_bit (n + 32) x = take_bit 32 x + 2 ^ 32 * take_bit n (drop_bit 32 x)" for x :: int
  using zmod_zmult2_eq [of "2 ^ n" x "2 ^ 32"] by (simp add: take_bit_eq_mod drop_bit_eq_div power_add mult.commute)

lemma poly_new_pad: "wval (p_pad (poly_new key)) = take_bit 128 (drop_bit 128 (num key))" "length (p_pad (poly_new key)) = 4"
  using split32 [of 96 "drop_bit 128 (num key)"] split32 [of 64 "drop_bit 160 (num key)"] split32 [of 32 "drop_bit 192 (num key)"]
  by (simp_all add: poly_new_def wval_def read_u32_le_num)

lemma stands_new: "stands (poly_new key) 0"
  using poly_new_key(1) by (simp add: stands_def acc_ok_def lval_def limbs_def poly_new_def)

text \<open>The blocks of the authenticator: the additional data and the ciphertext, each cut into blocks
  whose last one may be short, and the two lengths.\<close>

definition aead_blocks :: "bytes \<Rightarrow> bytes \<Rightarrow> bytes list" where
  "aead_blocks aad ct = chunks16 aad @ chunks16 ct
     @ [to_le (word_of_nat (length aad) :: u64) @ to_le (word_of_nat (length ct) :: u64)]"

definition tag_number :: "bytes \<Rightarrow> bytes list \<Rightarrow> int" where
  "tag_number otk blocks = (poly_eval (num (take 16 otk) AND clamp) 0 blocks + num (take 16 (drop 16 otk))) mod 2 ^ 128"

lemma tag_val:
  "length (poly1305_tag key nonce aad ct) = 16
    \<and> num (poly1305_tag key nonce aad ct) = tag_number (take 32 (chacha20_block key nonce 0)) (aead_blocks aad ct)"
proof -
  let ?otk = "take 32 (chacha20_block key nonce 0)"
  let ?p = "poly_new ?otk" and ?r = "lval (p_r (poly_new ?otk))"
  let ?len = "to_le (word_of_nat (length aad) :: u64) @ to_le (word_of_nat (length ct) :: u64)"
  note a = stands_update [OF stands_new [of ?otk], of aad]
  then have "stands (update_aead ct (update_aead aad ?p)) (poly_eval ?r (poly_eval ?r 0 (chunks16 aad)) (chunks16 ct))"
    "p_r (update_aead ct (update_aead aad ?p)) = p_r ?p" "p_pad (update_aead ct (update_aead aad ?p)) = p_pad ?p"
    using stands_update [of "update_aead aad ?p" _ ct] by auto
  note s = this
  have pad: "pad16 ?len = ?len" by (simp add: pad16_def)
  have f: "stands (compute_block ?len False (update_aead ct (update_aead aad ?p))) (poly_eval ?r 0 (aead_blocks aad ct))"
    using stands_block [OF s(1), of ?len] unfolding s(2) pad by (simp add: poly_eval_def aead_blocks_def)
  have r: "?r = num (take 16 ?otk) AND clamp"
    unfolding poly_new_key(2) num_take take_bit_eq_mod by simp
  have w: "wval (p_pad ?p) = num (take 16 (drop 16 ?otk))"
    unfolding poly_new_pad(1) num_take num_drop take_bit_eq_mod drop_bit_eq_div by simp
  have m: "poly_eval ?r 0 (aead_blocks aad ct) mod poly_prime = poly_eval ?r 0 (aead_blocks aad ct)"
    by (simp add: poly_eval_def aead_blocks_def)
  have "p_pad (compute_block ?len False (update_aead ct (update_aead aad ?p))) = p_pad ?p" using s(3) by (simp add: compute_block_keeps)
  with finalize_val [OF f] show ?thesis
    using m r w poly_new_pad(2) by (simp add: poly1305_tag_def tag_number_def Let_def)
qed

text \<open>C12: the tag is the authenticator of RFC 8439. For every key, nonce, additional data and
  ciphertext the code's limb arithmetic - 26-bit limbs, 32-bit and 64-bit sums, two partial
  carries, a constant-time selection - yields the sixteen bytes of the polynomial over the blocks,
  evaluated at the clamped key modulo \<open>2 ^ 130 - 5\<close>, plus the pad, modulo \<open>2 ^ 128\<close>, where key
  and pad are the first half of the cipher's block zero.\<close>

theorem poly1305_tag_rfc:
  "length (poly1305_tag key nonce aad ct) = 16
    \<and> num (poly1305_tag key nonce aad ct) = tag_number (take 32 (chacha20_block key nonce 0)) (aead_blocks aad ct)"
  by (rule tag_val)

section \<open>The cipher\<close>

lemma length_block: "length (chacha20_block key nonce counter) = 64"
  by (simp add: chacha20_block_def Let_def length_concat comp_def sum_list_triv)

lemma chacha20_xor_length: "length (chacha20_xor key nonce c data) = length data"
  by (induction key nonce c data rule: chacha20_xor.induct) (simp_all add: length_block del: take_Suc_Cons drop_Suc_Cons)

lemma map2_xor_twice: "length xs \<le> length ks \<Longrightarrow> map2 (XOR) (map2 (XOR) xs ks) ks = (xs :: bytes)"
  by (rule nth_equalityI) (simp_all add: xor.assoc)

lemma chacha20_xor_step:
  "data \<noteq> [] \<Longrightarrow> chacha20_xor key nonce c data
    = map2 (XOR) (take 64 data) (chacha20_block key nonce c) @ chacha20_xor key nonce (c + 1) (drop 64 data)"
  by (cases data) simp_all

lemma chacha20_xor_twice: "chacha20_xor key nonce c (chacha20_xor key nonce c data) = data"
proof (induction key nonce c data rule: chacha20_xor.induct)
  case (2 key nonce c b bs)
  define d k where "d = b # bs" and "k = chacha20_block key nonce c"
  define h t where "h = map2 (XOR) (take 64 d) k" and "t = chacha20_xor key nonce (c + 1) (drop 64 d)"
  have len: "length k = 64" by (simp add: k_def length_block)
  have e: "chacha20_xor key nonce c d = h @ t"
    unfolding h_def t_def k_def by (rule chacha20_xor_step) (simp add: d_def)
  have h: "length h = min 64 (length d)" by (simp add: h_def len)
  have t: "t = [] \<or> length h = 64" using chacha20_xor_length [of key nonce "c + 1" "drop 64 d"] h by (auto simp: t_def)
  then have cut: "take 64 (h @ t) = h" "drop 64 (h @ t) = t" using h by auto
  have "h @ t \<noteq> []" using h by (cases h) (simp_all add: d_def)
  then have "chacha20_xor key nonce c (h @ t) = map2 (XOR) h k @ chacha20_xor key nonce (c + 1) t"
    using chacha20_xor_step [of "h @ t" key nonce c] unfolding cut k_def by simp
  also have "map2 (XOR) h k = take 64 d" unfolding h_def by (rule map2_xor_twice) (simp add: len)
  also have "chacha20_xor key nonce (c + 1) t = drop 64 d" unfolding t_def d_def by (rule 2)
  finally show ?case unfolding d_def [symmetric] e by simp
qed simp

lemma ct_eq_iff: "ct_eq a b \<longleftrightarrow> a = b"
proof -
  have f: "foldl (\<lambda>acc (x, y). acc OR (x XOR y)) z (zip a b) = 0 \<longleftrightarrow> z = 0 \<and> (\<forall>(x, y) \<in> set (zip a b). x = y)" for z
  proof (induction "zip a b" arbitrary: z a b)
    case (Cons p ps)
    then obtain x a' y b' where ab: "a = x # a'" "b = y # b'" "p = (x, y)" "ps = zip a' b'" by (cases a; cases b) auto
    have "z OR (x XOR y) = 0 \<longleftrightarrow> z = 0 \<and> x = y"
      by (metis or_eq_0_iff xor_self_eq xor_right_cancel xor.right_neutral)
    with Cons(1) [OF ab(4)] show ?case by (auto simp: ab)
  qed auto
  show ?thesis unfolding ct_eq_def f by (auto simp: list_eq_iff_zip_eq)
qed

text \<open>Sealing, as the sender does it.\<close>

definition seal :: "bytes \<Rightarrow> bytes \<Rightarrow> bytes \<Rightarrow> bytes \<Rightarrow> bytes \<times> bytes" where
  "seal key nonce aad pt = (let ct = chacha20_xor key nonce 1 pt in (ct, poly1305_tag key nonce aad ct))"

lemma decrypt_iff: "decrypt_payload key nonce tag aad ct = Some pt \<longleftrightarrow> seal key nonce aad pt = (ct, tag)"
  using chacha20_xor_twice by (auto simp: decrypt_payload_def ct_eq_iff seal_def Let_def)

text \<open>A key slot holds the nonce, the wrapped key and the tag.\<close>

definition wrap_cek :: "bytes \<Rightarrow> bytes \<Rightarrow> bytes \<Rightarrow> bytes" where
  "wrap_cek kek nonce cek = (let (ct, tag) = seal kek nonce [] cek in nonce @ ct @ tag)"

lemmas poly1305_tag_length = tag_val [THEN conjunct1]

lemma seal_lengths: "seal key nonce aad pt = (ct, tag) \<Longrightarrow> length ct = length pt \<and> length tag = 16"
  using poly1305_tag_length by (auto simp: seal_def Let_def chacha20_xor_length)

lemma unwrap_iff:
  "unwrap_cek kek wrapped = Some cek \<longleftrightarrow> length cek = 32 \<and> take 60 wrapped = wrap_cek kek (take 12 wrapped) cek"
proof -
  define n c t where "n = take 12 wrapped" and "c = slice wrapped 12 32" and "t = slice wrapped 44 16"
  have w: "take 60 wrapped = n @ c @ t"
    using take_add [of 12 48 wrapped] take_add [of 32 16 "drop 12 wrapped"] by (simp add: n_def c_def t_def slice_def)
  have l: "length n = min 12 (length wrapped)" "length c = min 32 (length wrapped - 12)" "length t = min 16 (length wrapped - 44)"
    by (simp_all add: n_def c_def t_def slice_def)
  obtain c' t' where s: "seal kek n [] cek = (c', t')" by force
  have s': "length c' = length cek" "length t' = 16" using seal_lengths [OF s] by simp_all
  have "unwrap_cek kek wrapped = Some cek \<longleftrightarrow> c' = c \<and> t' = t"
    using s by (auto simp: unwrap_cek_def decrypt_iff n_def c_def t_def slice_def)
  also have "\<dots> \<longleftrightarrow> length cek = 32 \<and> n @ c @ t = n @ c' @ t'"
    using s' l by (auto simp: append_eq_append_conv min_def split: if_splits)
  finally show ?thesis using s unfolding w wrap_cek_def n_def [symmetric] by simp
qed

text \<open>C13: decryption gives back what was sealed, and nothing else passes. The payload comes out with
  its length, for the very tag of the ciphertext under the same key, nonce and additional data; any
  other tag, whatever its length, is refused. A key slot unwraps to a key exactly when it is that
  key's wrapping under the given key-encryption key and the slot's own nonce.\<close>

theorem decrypt_seal:
  "(decrypt_payload key nonce tag aad ct = Some pt \<longleftrightarrow> seal key nonce aad pt = (ct, tag))
    \<and> (unwrap_cek kek wrapped = Some cek
         \<longleftrightarrow> length cek = 32 \<and> take 60 wrapped = wrap_cek kek (take 12 wrapped) cek)"
  using decrypt_iff unwrap_iff by blast

end
