(* ===== verification/Spec2Isabelle.thy ===== *)
theory Spec2Isabelle
  imports VerifyProps Contract IrText SrcAgree SrcText AbsProps RelocProps RederiveProps LoadRt
    ExtractCtx OblRt StmtProps VerdictRt DischargeProps
    RegionHeapProps LexProps CryptoProps
begin

text \<open>
  A model of the Rust workspace under src/crates of tyu, a stack language with a compiler
  that emits a typed intermediate representation, a verifier that proves numeric obligations
  over it, a binary module format (.lmod) and a loader that admits modules at run time.

  The parts, in the direction data flows:

  \<^item> The frontend's lexer (frontend/src/token.rs, lex.rs) is \<open>Lexer\<close>, over a text and a position.
    \<open>LexProps\<close> shows that the tokens tile the text, that each is the longest token of any
    kind at its place, and that the texts of the tokens lex back to the tokens.
  \<^item> The compiler's output is an IR module (crate ir). \<open>IrTypes\<close> holds the data model of
    ir/src/lib.rs, \<open>IrVerify\<close> its verifier \<open>verify_module\<close> with every opcode arm and error
    code, \<open>IrText\<close> the text printer and the version gate. \<open>Semantics\<close> is the table of
    verifier/src/semantics/mod.rs that gives each op its stack effect; \<open>VerifySound\<close> and
    \<open>VerifyProps\<close> show that an accepted word runs safely on the depth machine of that table
    (both targets of a branch included),
    that volatile accesses stay inside their apertures, and that verification never panics.
  \<^item> The contract algebra (ir/src/contract.rs) is \<open>Contract\<close>: stack bounds under sequential
    composition, effect and capability sets, and the two contract hashes.
  \<^item> The verifier's engine is \<open>Interval\<close> (interval.rs), \<open>MemModel\<close> (mem.rs) and \<open>AbsInterp\<close>
    (interp.rs, target.rs). \<open>AbsSound\<close> proves the abstract transfer against a concrete 64-bit
    machine, \<open>AbsProps\<close> the verdicts of single-block words and the two places where the
    engine is not sound: the merge of a re-visited block and a store through a range.
    \<open>DischargeProps\<close> is the whole \<open>discharge_word\<close>: what it discharges holds at run time.
  \<^item> The reference interpreter (src_interp.rs) is \<open>SrcInterp\<close> with its text surface in \<open>SrcText\<close>;
    \<open>SrcAgree\<close> proves that a transcribed fragment runs as its source.
  \<^item> The artefacts the verifier exchanges: \<open>OblModel\<close> and \<open>ExtractCtx\<close> are model.rs (the
    obligation data, canonical ids, validation, the cycles of a word, and \<open>ExtractionCtx\<close> with
    every operation the lowering calls), \<open>Verdict\<close> is the record side of verdict.rs, \<open>Stmt\<close> is
    stmt.rs (the canonical bytes a proof is bound to). \<open>Json\<close> is the hand-written JSON layer
    both codecs share, \<open>OblCodec\<close> codec.rs and \<open>VerdictCodec\<close> the reader and writer of
    verdict.rs. \<open>OblProps\<close> proves that the cycles are the strongly connected components,
    \<open>StmtProps\<close> that a statement's bytes determine it, \<open>JsonRt\<close>, \<open>OblRt\<close> and \<open>VerdictRt\<close> that
    the readers end on every input, admit only records that obey the trust rules, and read
    back what the writers write within the limits they state (\<open>obl_set_ok\<close>, \<open>record_ok\<close>; the values
    outside them that the readers refuse are lemmas too). The object and array loops of both readers satisfy the
    interface \<open>json_lang\<close> (locale of \<open>JsonRt\<close>): a key reader that reads what the string
    writer wrote and a way to skip a value, both consuming input; it is interpreted once
    for each reader.
  \<^item> The module format (crate lmod) is \<open>Bytes\<close> (little-endian codecs, as the locale
    \<open>byte_codec\<close>), \<open>LmodHeader\<close> (header.rs, sig.rs), \<open>Reloc\<close> and \<open>Thumb\<close> (reloc/), \<open>Container\<close>
    (validate.rs), \<open>Modinfo\<close> (modinfo.rs) and \<open>VerifyManifest\<close> (verify_manifest.rs, with the
    encoder of lmod-pack/src/verify.rs). \<open>LmodProps\<close>, \<open>ModinfoRt\<close>, \<open>ManifestProps\<close> and
    \<open>ManifestRt\<close> hold the round trips, the layout and the disjointness of accepted containers.
  \<^item> The loader (crate loader-core) is \<open>LoaderTypes\<close> (error.rs, platform.rs), \<open>Apertures\<close>
    (apertures.rs), \<open>SymMap\<close> (symbols.rs, lmod/src/hash.rs), \<open>RelocApply\<close> (reloc_*.rs),
    \<open>Rederive\<close> (rederive.rs) and \<open>Load\<close> (load.rs). The registry and the symbol map share the
    interface \<open>append_log\<close> of \<open>AppendLog\<close>: undoing to a mark restores what was there, and both
    are interpretations of it. \<open>ApertureProps\<close>, \<open>SymProps\<close>, \<open>RelocProps\<close> and \<open>RederiveProps\<close>
    hold the properties of each; \<open>LoadProps\<close> shows that a load is a transaction, what an admitted
    module has passed and that a module loads once; \<open>LoadRt\<close> that the
    module section the packer's encoders write loads, inside a container that is given.
  \<^item> The loader's cryptography (crypto/chacha20poly1305.rs) is \<open>Chacha\<close>, word for word. \<open>PolyProps\<close>
    reads the limbs of the authenticator as numbers and shows that no sum of the code wraps and
    that every step keeps the value modulo the prime; \<open>CryptoProps\<close> that the tag is the
    polynomial of RFC 8439, and that decryption accepts exactly what was sealed.
  \<^item> The browser session (crate wasm-repl) runs phrases as transactions. \<open>RegionHeap\<close> is heap.rs,
    journal.rs, the region builtins of builtins.rs and the rollback of session.rs;
    \<open>RegionHeapProps\<close> shows that an undone journal restores the heap (the contract \<open>undo_log\<close>,
    interpreted on the heap's effects), that stores stay inside one live range, and the life
    of a region's pointers. The phrases are those in which no region-create meets a full table
    or a size within seven of \<open>2 ^ 64\<close> (\<open>op_fits\<close>); \<open>create_on_full_table\<close> and
    \<open>wrapped_size_shares_range\<close> show what the code does otherwise.

  State and effects: a Rust record is a record of the same fields, an enum a datatype. A
  machine integer keeps its width, with wrap-around where the code wraps. A function that may
  fail returns a sum whose left side is the code's error; a possible panic is a value of its own
  (\<open>Panic\<close>, \<open>LPanic\<close>, \<open>MPanic\<close>), so that absence of panics is a theorem and not an assumption.
  \<open>usize\<close> is a parameter \<open>umax\<close>, its largest value, where the code's behaviour depends on it.
  The loader passes its state through explicit steps; an error return keeps the state reached,
  and the drop guards are the function \<open>with_guards\<close>.

  Parameters of the model: SHA-256 (\<open>sha\<close>, of the manifest record and of statements), the platform's allocators, signature check and the
  machine code of an init word (the record \<open>platform\<close>). Their use is as free arguments; the
  theorems that need a behaviour of the allocators state it as the hypothesis \<open>serves\<close>,
  and the property on exported symbols that making a region executable leaves it where it is.

  Fuel: \<open>sharing_loop\<close> gets 65536 steps for a table whose count is a 16-bit field;
  \<open>cfg_loop\<close> has the code's own budget; the reference interpreter takes the fuel the code
  takes; a JSON reader gets the length of its input, which is never used up
  (theories \<open>OblRt\<close> and \<open>VerdictRt\<close>). Every other loop is structural or
  has a measure.

  Not modelled: the encryption feature of the loader's load_module; boot.rs and the region memory (unsafe device code); the frontend
  parser, the type checker and irgen; the code generators except the label printer; the
  reports, bundles and service vectors of the verifier; the tyu driver and the command-line tools
  (process and file I/O); the interpreter and the
  rendering of the browser session; tests.
\<close>

end
